(* ===== verification/Prelude.thy ===== *)
theory Prelude
  imports Main "HOL-Library.Word" "HOL-Library.Multiset"
begin

text \<open>
  Shared vocabulary of the development: the types every component uses, the services of the
  Doubango libraries (tinySAK) as a record of parameters with their documented laws, decimal
  printing, and the generic list and map facts the component proofs share.

  The sources of tinySAK, tinyNET, tinyHTTP and tinySIP are not part of the repository, so no
  function of those libraries is defined here: a definition that calls one takes it as an
  argument (a field of \<open>tsk_api\<close>), and a theorem that needs its behaviour names the law.
\<close>

section \<open>Types\<close>

text \<open>A C string that may be the NULL pointer; a byte buffer is a list of characters.\<close>

type_synonym cstr = "string option"

type_synonym u64 = "64 word"

text \<open>\<open>MPNetFd\<close> is an \<open>int32_t\<close>; \<open>MPNetFd_IsValid\<close> and \<open>kMPNetFdInvalid\<close> of \<open>mp_common.h\<close>.\<close>

type_synonym MPNetFd = int

definition MPNetFd_IsValid :: "MPNetFd \<Rightarrow> bool" where
  "MPNetFd_IsValid fd \<longleftrightarrow> 0 < fd"

definition kMPNetFdInvalid :: MPNetFd where
  "kMPNetFdInvalid = -1"

lemma invalid_fd_not_valid [simp]: "\<not> MPNetFd_IsValid kMPNetFdInvalid"
  by (simp add: MPNetFd_IsValid_def kMPNetFdInvalid_def)

abbreviation CR :: char where "CR \<equiv> CHR 0x0D"
abbreviation LF :: char where "LF \<equiv> CHR 0x0A"
abbreviation crlf :: string where "crlf \<equiv> [CR, LF]"
abbreviation dquote :: char where "dquote \<equiv> CHR 0x22"

named_theorems w2s_inv \<open>preservation facts of the component invariants\<close>
named_theorems w2s_frame \<open>what an operation leaves unchanged\<close>

section \<open>The Doubango string services, as parameters\<close>

record tsk_api =
  tsk_striequals :: "cstr \<Rightarrow> cstr \<Rightarrow> bool"
  tsk_strequals :: "cstr \<Rightarrow> cstr \<Rightarrow> bool"
  tsk_strnullORempty :: "cstr \<Rightarrow> bool"
  tsk_strindexOf :: "string \<Rightarrow> string \<Rightarrow> int"
  tsk_base64_encode :: "string \<Rightarrow> string"
  tsk_base64_decode :: "string \<Rightarrow> string"
  tsk_url_decode :: "string \<Rightarrow> string"
  tsk_md5compute :: "string \<Rightarrow> string"

text \<open>
  The documented behaviour the code relies on, one law per service. Case folding is that of
  ASCII letters. \<open>tsk_strindexOf\<close> gives the position of the first occurrence of the pattern
  within the given number of bytes, and -1 when there is none; its first argument here is
  exactly those bytes.
\<close>

definition ascii_lower :: "char \<Rightarrow> char" where
  "ascii_lower c = (let n = of_char c :: nat in if 65 \<le> n \<and> n \<le> 90 then char_of (n + 32) else c)"

definition striequals_law :: "tsk_api \<Rightarrow> bool" where
  "striequals_law T \<longleftrightarrow>
     (\<forall>a b. tsk_striequals T a b \<longleftrightarrow> map_option (map ascii_lower) a = map_option (map ascii_lower) b)"

definition strequals_law :: "tsk_api \<Rightarrow> bool" where
  "strequals_law T \<longleftrightarrow> (\<forall>a b. tsk_strequals T a b \<longleftrightarrow> a = b)"

definition strnullORempty_law :: "tsk_api \<Rightarrow> bool" where
  "strnullORempty_law T \<longleftrightarrow> (\<forall>s. tsk_strnullORempty T s \<longleftrightarrow> s = None \<or> s = Some [])"

definition occurs_at :: "string \<Rightarrow> string \<Rightarrow> nat \<Rightarrow> bool" where
  "occurs_at s p i \<longleftrightarrow> take (length p) (drop i s) = p \<and> i + length p \<le> length s"

definition strindexOf_law :: "tsk_api \<Rightarrow> bool" where
  "strindexOf_law T \<longleftrightarrow>
     (\<forall>s p. if \<exists>i. occurs_at s p i
            then tsk_strindexOf T s p = int (LEAST i. occurs_at s p i)
            else tsk_strindexOf T s p = -1)"

text \<open>The part of that law most proofs need: an index that is returned lies inside the buffer.\<close>

lemma strindexOf_bound:
  assumes "strindexOf_law T" "0 \<le> tsk_strindexOf T s p"
  shows "nat (tsk_strindexOf T s p) + length p \<le> length s"
    and "occurs_at s p (nat (tsk_strindexOf T s p))"
proof -
  have ex: "\<exists>i. occurs_at s p i"
  proof (rule ccontr)
    assume "\<not> ?thesis"
    then have "tsk_strindexOf T s p = -1"
      using assms(1) by (simp add: strindexOf_law_def)
    then show False using assms(2) by simp
  qed
  then have idx: "tsk_strindexOf T s p = int (LEAST i. occurs_at s p i)"
    using assms(1) by (auto simp: strindexOf_law_def)
  from ex have "occurs_at s p (LEAST i. occurs_at s p i)"
    by (rule LeastI_ex)
  with idx show "occurs_at s p (nat (tsk_strindexOf T s p))" by simp
  then show "nat (tsk_strindexOf T s p) + length p \<le> length s"
    by (simp add: occurs_at_def)
qed

text \<open>A concrete instance of the services, used by the witnesses only.\<close>

fun find_from :: "nat \<Rightarrow> string \<Rightarrow> string \<Rightarrow> int" where
  "find_from i [] p = (if p = [] then int i else -1)"
| "find_from i (c # s) p =
     (if take (length p) (c # s) = p then int i else find_from (Suc i) s p)"

definition tsk_ref :: tsk_api where
  "tsk_ref = \<lparr>
     tsk_striequals = (\<lambda>a b. map_option (map ascii_lower) a = map_option (map ascii_lower) b),
     tsk_strequals = (\<lambda>a b. a = b),
     tsk_strnullORempty = (\<lambda>s. s = None \<or> s = Some []),
     tsk_strindexOf = find_from 0,
     tsk_base64_encode = (\<lambda>s. s),
     tsk_base64_decode = (\<lambda>s. s),
     tsk_url_decode = (\<lambda>s. s),
     tsk_md5compute = (\<lambda>s. s) \<rparr>"

lemma tsk_ref_simps [simp]:
  "tsk_striequals tsk_ref a b \<longleftrightarrow> map_option (map ascii_lower) a = map_option (map ascii_lower) b"
  "tsk_strequals tsk_ref a b \<longleftrightarrow> a = b"
  "tsk_strnullORempty tsk_ref s \<longleftrightarrow> s = None \<or> s = Some []"
  "tsk_strindexOf tsk_ref x y = find_from 0 x y"
  "tsk_base64_encode tsk_ref x = x"
  "tsk_base64_decode tsk_ref x = x"
  "tsk_url_decode tsk_ref x = x"
  "tsk_md5compute tsk_ref x = x"
  by (simp_all add: tsk_ref_def)

lemma occurs_at_Cons_Suc: "occurs_at (c # s) p (Suc i) \<longleftrightarrow> occurs_at s p i"
  by (simp add: occurs_at_def)

lemma occurs_at_0: "occurs_at s p 0 \<longleftrightarrow> take (length p) s = p"
  by (auto simp: occurs_at_def) (metis length_take min.cobounded1)

lemma find_from_shift:
  "find_from i s p = (if \<exists>k. occurs_at s p k then int (i + (LEAST k. occurs_at s p k)) else -1)"
proof (induction s arbitrary: i)
  case Nil
  have "occurs_at [] p k \<longleftrightarrow> p = [] \<and> k = 0" for k
    by (auto simp: occurs_at_def)
  then show ?case by (auto intro: Least_equality)
next
  case (Cons c s)
  show ?case
  proof (cases "occurs_at (c # s) p 0")
    case True
    then have "(LEAST k. occurs_at (c # s) p k) = 0" by (intro Least_equality) auto
    moreover have "take (length p) (c # s) = p" using True by (simp only: occurs_at_0)
    moreover have "\<exists>k. occurs_at (c # s) p k" using True by blast
    ultimately show ?thesis by simp
  next
    case False
    then have "take (length p) (c # s) \<noteq> p" by (simp only: occurs_at_0 not_False_eq_True)
    then have step: "find_from i (c # s) p = find_from (Suc i) s p" by simp
    have ex: "(\<exists>k. occurs_at (c # s) p k) \<longleftrightarrow> (\<exists>k. occurs_at s p k)"
      using False by (metis not0_implies_Suc occurs_at_Cons_Suc)
    have least: "(LEAST k. occurs_at (c # s) p k) = Suc (LEAST k. occurs_at s p k)"
      if "\<exists>k. occurs_at s p k"
    proof -
      from that obtain k where "occurs_at (c # s) p (Suc k)"
        by (auto simp: occurs_at_Cons_Suc)
      from Least_Suc [OF this False] show ?thesis by (simp only: occurs_at_Cons_Suc)
    qed
    show ?thesis
    proof (cases "\<exists>k. occurs_at s p k")
      case True
      with step ex least Cons.IH [of "Suc i"] show ?thesis by (simp only: if_True)
    next
      case False
      with step ex Cons.IH [of "Suc i"] show ?thesis by (simp only: if_False)
    qed
  qed
qed

lemma tsk_ref_laws [simp]:
  "striequals_law tsk_ref" "strequals_law tsk_ref" "strnullORempty_law tsk_ref"
  "strindexOf_law tsk_ref"
  by (simp_all add: striequals_law_def strequals_law_def strnullORempty_law_def strindexOf_law_def
      find_from_shift)

lemma striequals_refl: "striequals_law T \<Longrightarrow> tsk_striequals T a a"
  by (simp add: striequals_law_def)

section \<open>Decimal printing\<close>

text \<open>What \<open>%u\<close>, \<open>%d\<close> and \<open>%llu\<close> print.\<close>

fun dec_of_nat :: "nat \<Rightarrow> string" where
  "dec_of_nat n = (if n < 10 then [char_of (48 + n)] else dec_of_nat (n div 10) @ [char_of (48 + n mod 10)])"

declare dec_of_nat.simps [simp del]

definition dec_of_int :: "int \<Rightarrow> string" where
  "dec_of_int i = (if i < 0 then CHR ''-'' # dec_of_nat (nat (- i)) else dec_of_nat (nat i))"

lemma dec_of_nat_nonempty [simp]: "dec_of_nat n \<noteq> []"
  by (subst dec_of_nat.simps) simp

text \<open>A string passed to \<open>%s\<close>; a NULL pointer prints as glibc prints it.\<close>

definition pct_s :: "cstr \<Rightarrow> string" where
  "pct_s s = (case s of None \<Rightarrow> ''(null)'' | Some t \<Rightarrow> t)"

lemma pct_s_Some [simp]: "pct_s (Some t) = t"
  by (simp add: pct_s_def)

section \<open>Lists\<close>

lemma find_SomeD: "find P xs = Some x \<Longrightarrow> x \<in> set xs \<and> P x"
  by (auto simp: find_Some_iff)

lemma find_None_iff': "find P xs = None \<longleftrightarrow> (\<forall>x \<in> set xs. \<not> P x)"
  by (auto simp: find_None_iff)

lemma count_list_map_update_same:
  "i < length xs \<Longrightarrow> count_list (xs[i := y]) z + (if xs ! i = z then 1 else 0)
     = count_list xs z + (if y = z then 1 else (0::nat))"
proof (induction xs arbitrary: i)
  case Nil
  then show ?case by simp
next
  case (Cons a xs)
  show ?case
  proof (cases i)
    case 0
    then show ?thesis by simp
  next
    case (Suc k)
    with Cons.prems have "k < length xs" by simp
    from Cons.IH [OF this] Suc show ?thesis by (auto split: if_splits)
  qed
qed

lemma sum_list_update_nat:
  fixes xs :: "nat list"
  shows "i < length xs \<Longrightarrow> sum_list (xs[i := y]) + xs ! i = sum_list xs + y"
proof (induction xs arbitrary: i)
  case Nil
  then show ?case by simp
next
  case (Cons a xs)
  show ?case
  proof (cases i)
    case 0
    then show ?thesis by simp
  next
    case (Suc k)
    with Cons.prems have "k < length xs" by simp
    from Cons.IH [OF this] Suc show ?thesis by simp
  qed
qed

end
