(* ===== verification/Registry.thy ===== *)
theory Registry
  imports Prelude
begin

text \<open>
  The containers of the gateway are \<open>std::map\<close> tables from an id to an object: peers by id in
  \<open>MPEngine\<close>, connections by descriptor in \<open>MPNetTransport\<close>, pending captchas by descriptor in
  \<open>MPRecaptchaTransport\<close> and plugins by id in \<open>MPProxyPluginMgr\<close>. This theory models the
  operations of \<open>std::map\<close> the code uses and states, as the locale \<open>registry\<close>, the contract
  that find, insert and erase share; each owner of a table interprets the locale on its own
  operations.
\<close>

section \<open>std::map, kept in key order\<close>

type_synonym ('k, 'v) std_map = "('k \<times> 'v) list"

definition map_find :: "('k, 'v) std_map \<Rightarrow> 'k \<Rightarrow> 'v option" where
  "map_find m k = map_of m k"

text \<open>\<open>insert\<close> leaves the table alone when the key is present.\<close>

fun map_insert :: "'k::linorder \<Rightarrow> 'v \<Rightarrow> ('k, 'v) std_map \<Rightarrow> ('k, 'v) std_map" where
  "map_insert k v [] = [(k, v)]"
| "map_insert k v ((k', v') # m) =
     (if k < k' then (k, v) # (k', v') # m
      else if k = k' then (k', v') # m
      else (k', v') # map_insert k v m)"

definition map_erase :: "'k \<Rightarrow> ('k, 'v) std_map \<Rightarrow> ('k, 'v) std_map" where
  "map_erase k m = filter (\<lambda>p. fst p \<noteq> k) m"

text \<open>Mutating the object behind an iterator.\<close>

definition map_modify :: "'k \<Rightarrow> ('v \<Rightarrow> 'v) \<Rightarrow> ('k, 'v) std_map \<Rightarrow> ('k, 'v) std_map" where
  "map_modify k f m = map (\<lambda>p. if fst p = k then (fst p, f (snd p)) else p) m"

text \<open>\<open>std::find_if\<close> over the values, in key order.\<close>

definition map_find_if :: "('v \<Rightarrow> bool) \<Rightarrow> ('k, 'v) std_map \<Rightarrow> 'v option" where
  "map_find_if P m = map_option snd (find (\<lambda>p. P (snd p)) m)"

definition map_ok :: "('k::linorder, 'v) std_map \<Rightarrow> bool" where
  "map_ok m \<longleftrightarrow> sorted_wrt (<) (map fst m)"

lemma map_ok_Nil [simp]: "map_ok []"
  by (simp add: map_ok_def)

lemma map_ok_Cons: "map_ok ((k, v) # m) \<longleftrightarrow> (\<forall>p \<in> set m. k < fst p) \<and> map_ok m"
  by (auto simp: map_ok_def)

lemma map_ok_distinct: "map_ok m \<Longrightarrow> distinct (map fst m)"
  by (simp add: map_ok_def strict_sorted_iff)

lemma map_of_below: "\<forall>p \<in> set m. (k::'k::linorder) < fst p \<Longrightarrow> map_of m k = None"
  by (auto simp: map_of_eq_None_iff)

lemma map_find_insert:
  "map_ok m \<Longrightarrow> map_find (map_insert k v m) k' =
     (if k' = k \<and> map_find m k = None then Some v else map_find m k')"
  unfolding map_find_def
proof (induction k v m rule: map_insert.induct)
  case (1 k v)
  then show ?case by simp
next
  case (2 k v j w m)
  show ?case
  proof (cases "k < j")
    case True
    then have "map_of ((j, w) # m) k = None"
      using "2.prems" by (intro map_of_below) (auto simp: map_ok_Cons intro: less_trans)
    with True show ?thesis by simp
  next
    case False
    with 2 show ?thesis by (auto simp: map_ok_Cons)
  qed
qed

lemma fst_set_insert: "fst ` set (map_insert k v m) = insert k (fst ` set m)"
  by (induction k v m rule: map_insert.induct) auto

lemma map_ok_insert [simp]: "map_ok m \<Longrightarrow> map_ok (map_insert k v m)"
proof (induction k v m rule: map_insert.induct)
  case (2 k v j w m)
  have "j < fst p" if "\<not> k < j" "k \<noteq> j" "p \<in> set (map_insert k v m)" for p
  proof -
    from that(3) have "fst p \<in> insert k (fst ` set m)" by (metis fst_set_insert imageI)
    with that "2.prems" show ?thesis by (auto simp: map_ok_Cons)
  qed
  with 2 show ?case by (auto simp: map_ok_Cons intro: less_trans)
qed (simp_all add: map_ok_def)

lemma map_find_erase: "map_find (map_erase k m) k' = (if k' = k then None else map_find m k')"
  unfolding map_find_def map_erase_def by (induction m) auto

lemma map_ok_erase [simp]: "map_ok m \<Longrightarrow> map_ok (map_erase k m)"
  by (induction m) (auto simp: map_erase_def map_ok_Cons)

lemma map_find_modify: "map_find (map_modify k f m) k' = (if k' = k then map_option f (map_find m k) else map_find m k')"
  unfolding map_find_def map_modify_def by (induction m) auto

lemma fst_map_modify [simp]: "map fst (map_modify k f m) = map fst m"
  by (induction m) (auto simp: map_modify_def)

lemma map_ok_modify [simp]: "map_ok (map_modify k f m) \<longleftrightarrow> map_ok m"
  by (simp add: map_ok_def)

lemma map_find_set: "map_ok m \<Longrightarrow> map_find m k = Some v \<longleftrightarrow> (k, v) \<in> set m"
  by (simp add: map_find_def map_ok_distinct)

lemma map_find_if_Some:
  "map_find_if P m = Some v \<Longrightarrow> \<exists>k. (k, v) \<in> set m \<and> P v"
  by (fastforce simp: map_find_if_def dest: find_SomeD)

lemma map_find_if_None: "map_find_if P m = None \<longleftrightarrow> (\<forall>(k, v) \<in> set m. \<not> P v)"
  by (auto simp: map_find_if_def find_None_iff')

text \<open>When at most one entry satisfies the predicate, the search finds it.\<close>

lemma map_find_if_unique:
  assumes "map_ok m" "map_find m k = Some v" "P v"
    and "\<And>k' v'. map_find m k' = Some v' \<Longrightarrow> P v' \<Longrightarrow> k' = k"
  shows "map_find_if P m = Some v"
proof -
  have kv: "(k, v) \<in> set m" using assms(1,2) by (simp add: map_find_set)
  then have "map_find_if P m \<noteq> None" using assms(3) by (auto simp: map_find_if_None)
  then obtain w where w: "map_find_if P m = Some w" by blast
  then obtain k' where "(k', w) \<in> set m" "P w" by (blast dest: map_find_if_Some)
  with assms(1,4) have "k' = k" "map_find m k' = Some w" by (auto simp: map_find_set)
  with assms(2) w show ?thesis by simp
qed

section \<open>The contract of a table of objects\<close>

locale registry =
  fixes lookup :: "'s \<Rightarrow> 'k \<Rightarrow> 'v option"
    and add :: "'v \<Rightarrow> 's \<Rightarrow> 's"
    and remove :: "'k \<Rightarrow> 's \<Rightarrow> 's"
    and key :: "'v \<Rightarrow> 'k"
    and wf :: "'s \<Rightarrow> bool"
  assumes lookup_add:
      "wf s \<Longrightarrow> lookup (add v s) k = (if k = key v \<and> lookup s k = None then Some v else lookup s k)"
    and lookup_remove: "wf s \<Longrightarrow> lookup (remove k s) k' = (if k' = k then None else lookup s k')"
    and wf_add: "wf s \<Longrightarrow> wf (add v s)"
    and wf_remove: "wf s \<Longrightarrow> wf (remove k s)"
begin

text \<open>The first object registered under a key stays until it is removed.\<close>

lemma first_wins:
  assumes "wf s" "lookup s (key v) = Some w"
  shows "lookup (add v s) k = lookup s k"
  using assms by (auto simp: lookup_add)

lemma add_fresh: "wf s \<Longrightarrow> lookup s (key v) = None \<Longrightarrow> lookup (add v s) (key v) = Some v"
  by (simp add: lookup_add)

lemma lookup_add_other: "wf s \<Longrightarrow> k \<noteq> key v \<Longrightarrow> lookup (add v s) k = lookup s k"
  by (simp add: lookup_add)

lemma remove_add:
  "wf s \<Longrightarrow> lookup s (key v) = None \<Longrightarrow> lookup (remove (key v) (add v s)) k = lookup s k"
  by (simp add: lookup_remove lookup_add wf_add)

lemma remove_idem: "wf s \<Longrightarrow> lookup (remove k (remove k s)) k' = lookup (remove k s) k'"
  by (simp add: lookup_remove wf_remove)

text \<open>Re-registering after a removal gives the new object, not the old one.\<close>

lemma replace: "wf s \<Longrightarrow> lookup (add v (remove (key v) s)) (key v) = Some v"
  by (simp add: lookup_add lookup_remove wf_remove)

end

end
