(* ===== verification/Objects.thy ===== *)
theory Objects
  imports Prelude
begin

text \<open>
  Reference counting: \<open>MPObject\<close> and the smart pointer \<open>MPObjectWrapper\<close> of \<open>mp_object.h\<close> and
  \<open>mp_object.cc\<close>, over an explicit store. The store is a list of cells, an address is an index,
  and a cell is \<open>None\<close> once its object is deleted; touching such a cell is undefined behaviour
  and makes the operation return \<open>None\<close>. An object carries the wrappers that are its fields,
  which its destructor destroys, so a delete can cascade.
\<close>

section \<open>Store and objects\<close>

type_synonym addr = nat

text \<open>The count is a C \<open>int\<close>: counting beyond its range is undefined behaviour, too.\<close>

definition INT_MAX :: int where "INT_MAX = 2147483647"
definition INT_MIN :: int where "INT_MIN = - 2147483648"

record mp_object =
  m_nRefCount :: int
  members :: "addr option list"

type_synonym store = "mp_object option list"

text \<open>The wrappers outside the store (local variables, fields of non-MPObject data), by index.\<close>

record obj_state =
  objs :: store
  roots :: "addr option list"

definition live :: "store \<Rightarrow> addr \<Rightarrow> bool" where
  "live h a \<longleftrightarrow> a < length h \<and> h ! a \<noteq> None"

definition obj_at :: "store \<Rightarrow> addr \<Rightarrow> mp_object option" where
  "obj_at h a = (if a < length h then h ! a else None)"

section \<open>MPObject\<close>

text \<open>\<open>MPObject::takeRef\<close> and \<open>MPObject::releaseRef\<close>: the new store and the count they return.\<close>

definition MPObject_takeRef :: "store \<Rightarrow> addr \<Rightarrow> (store \<times> int) option" where
  "MPObject_takeRef h a =
     (case obj_at h a of
        None \<Rightarrow> None
      | Some x \<Rightarrow>
          if m_nRefCount x = INT_MAX then None
          else let n = m_nRefCount x + 1 in Some (h[a := Some (x\<lparr>m_nRefCount := n\<rparr>)], n))"

definition MPObject_releaseRef :: "store \<Rightarrow> addr \<Rightarrow> (store \<times> int) option" where
  "MPObject_releaseRef h a =
     (case obj_at h a of
        None \<Rightarrow> None
      | Some x \<Rightarrow>
          if m_nRefCount x = INT_MIN then None
          else let n = (if m_nRefCount x \<noteq> 0 then m_nRefCount x - 1 else m_nRefCount x)
               in Some (h[a := Some (x\<lparr>m_nRefCount := n\<rparr>)], n))"

section \<open>MPObjectWrapper\<close>

text \<open>\<open>takeRef\<close> of a wrapper: nothing for a NULL pointer.\<close>

definition wrapper_takeRef :: "store \<Rightarrow> addr option \<Rightarrow> store option" where
  "wrapper_takeRef h p =
     (case p of None \<Rightarrow> Some h | Some a \<Rightarrow> map_option fst (MPObject_takeRef h a))"

text \<open>
  \<open>releaseRef\<close> of a wrapper, as a list of work items: \<open>Rel p\<close> releases a wrapper that holds
  \<open>p\<close>; the last release of an object runs its destructor, which destroys the member wrappers
  (in reverse order of declaration) and then frees the cell (\<open>Free\<close>).
\<close>

datatype work = Rel "addr option" | Free addr

definition total_refs :: "store \<Rightarrow> nat" where
  "total_refs h = sum_list (map (\<lambda>c. case c of None \<Rightarrow> 0 | Some x \<Rightarrow> nat (m_nRefCount x)) h)"

lemma total_refs_update:
  "a < length h \<Longrightarrow> total_refs (h[a := c]) + (case h ! a of None \<Rightarrow> 0 | Some x \<Rightarrow> nat (m_nRefCount x))
     = total_refs h + (case c of None \<Rightarrow> 0 | Some x \<Rightarrow> nat (m_nRefCount x))"
  using sum_list_update_nat [of a "map (\<lambda>c. case c of None \<Rightarrow> 0 | Some x \<Rightarrow> nat (m_nRefCount x)) h"]
  by (simp add: total_refs_def map_update)

function run_work :: "work list \<Rightarrow> store \<Rightarrow> store option" where
  "run_work [] h = Some h"
| "run_work (Rel None # ws) h = run_work ws h"
| "run_work (Rel (Some a) # ws) h =
     (case obj_at h a of
        None \<Rightarrow> None
      | Some x \<Rightarrow>
          if m_nRefCount x = 0 then run_work ws h
          else if m_nRefCount x = INT_MIN then None
          else if m_nRefCount x = 1
          then run_work (map Rel (rev (members x)) @ Free a # ws)
                 (h[a := Some (x\<lparr>m_nRefCount := 0, members := []\<rparr>)])
          else run_work ws (h[a := Some (x\<lparr>m_nRefCount := m_nRefCount x - 1\<rparr>)]))"
| "run_work (Free a # ws) h =
     (case obj_at h a of None \<Rightarrow> None | Some x \<Rightarrow> run_work ws (h[a := None]))"
  by pat_completeness auto

lemma total_refs_drop:
  assumes "obj_at h a = Some x" "nat (m_nRefCount y) < nat (m_nRefCount x)"
  shows "total_refs (h[a := Some y]) < total_refs h"
  using assms total_refs_update [of a h "Some y"]
  by (auto simp: obj_at_def split: if_splits)

lemma total_refs_keep:
  assumes "obj_at h a = Some x" "case c of None \<Rightarrow> True | Some y \<Rightarrow> nat (m_nRefCount y) \<le> nat (m_nRefCount x)"
  shows "total_refs (h[a := c]) \<le> total_refs h"
  using assms total_refs_update [of a h c]
  by (auto simp: obj_at_def split: if_splits option.splits)

termination run_work
proof (relation "measures [\<lambda>(ws, h). total_refs h, \<lambda>(ws, h). length ws]")
  show "wf (measures [\<lambda>(ws, h). total_refs h, \<lambda>(ws, h). length ws] :: ((work list \<times> store) \<times> (work list \<times> store)) set)"
    by simp
next
  fix a ws h x
  assume x: "obj_at h a = Some x"
  have "total_refs (h[a := Some (x\<lparr>m_nRefCount := m_nRefCount x - 1\<rparr>)]) \<le> total_refs h"
    by (rule total_refs_keep [OF x]) simp
  then show "((ws, h[a := Some (x\<lparr>m_nRefCount := m_nRefCount x - 1\<rparr>)]), Rel (Some a) # ws, h)
      \<in> measures [\<lambda>(ws, h). total_refs h, \<lambda>(ws, h). length ws]" by auto
qed (auto intro!: total_refs_drop dest: total_refs_keep [where c = None])

text \<open>
  A wrapper's \<open>releaseRef\<close>: the store afterwards and what the wrapper points to afterwards.
  The pointer is cleared only when this release deleted the object.
\<close>

definition wrapper_releaseRef :: "store \<Rightarrow> addr option \<Rightarrow> (store \<times> addr option) option" where
  "wrapper_releaseRef h p =
     (case run_work [Rel p] h of
        None \<Rightarrow> None
      | Some h' \<Rightarrow>
          Some (h', case p of None \<Rightarrow> None
                    | Some a \<Rightarrow> (case obj_at h a of
                                   Some x \<Rightarrow> if m_nRefCount x = 1 then None else p
                                 | None \<Rightarrow> p)))"

section \<open>Places\<close>

text \<open>
  Where a wrapper is: outside the store, or a field of an object, as \<open>m_oProducerOpposite\<close> of a consumer
  or \<open>m_oSessionOpposite\<close> of a session. A field of a deleted object is no place any more, and reading or
  writing it is None.
\<close>

datatype place = Root nat | Field addr nat

definition get_place :: "obj_state \<Rightarrow> place \<Rightarrow> addr option option" where
  "get_place s p =
     (case p of
        Root i \<Rightarrow> if i < length (roots s) then Some (roots s ! i) else None
      | Field a k \<Rightarrow>
          (case obj_at (objs s) a of
             None \<Rightarrow> None
           | Some x \<Rightarrow> if k < length (members x) then Some (members x ! k) else None))"

definition set_place :: "place \<Rightarrow> addr option \<Rightarrow> obj_state \<Rightarrow> obj_state" where
  "set_place p q s =
     (case p of
        Root i \<Rightarrow> s\<lparr>roots := (roots s)[i := q]\<rparr>
      | Field a k \<Rightarrow>
          (case obj_at (objs s) a of
             None \<Rightarrow> s
           | Some x \<Rightarrow> s\<lparr>objs := (objs s)[a := Some (x\<lparr>members := (members x)[k := q]\<rparr>)]\<rparr>))"

definition WrapMPObject :: "obj_state \<Rightarrow> place \<Rightarrow> addr option \<Rightarrow> obj_state option" where
  "WrapMPObject s p q = (if get_place s p = None then None else Some (set_place p q s))"

definition release_place :: "obj_state \<Rightarrow> place \<Rightarrow> obj_state option" where
  "release_place s p =
     (case get_place s p of
        None \<Rightarrow> None
      | Some v \<Rightarrow>
          (case wrapper_releaseRef (objs s) v of
             None \<Rightarrow> None
           | Some (h, v') \<Rightarrow> WrapMPObject (s\<lparr>objs := h\<rparr>) p v'))"

definition wrap_and_take :: "obj_state \<Rightarrow> place \<Rightarrow> addr option \<Rightarrow> obj_state option" where
  "wrap_and_take s p q =
     (case WrapMPObject s p q of
        None \<Rightarrow> None
      | Some s1 \<Rightarrow> map_option (\<lambda>h. s1\<lparr>objs := h\<rparr>) (wrapper_takeRef (objs s1) q))"

text \<open>
  The operations of a program on its wrappers: construction from \<open>new T\<close> (whose fields hold
  references of their own), from a raw pointer and from another wrapper, the two assignment operators,
  on a wrapper anywhere, and destruction (a destroyed wrapper holds NULL).
\<close>

datatype obj_op =
    New "addr option list"
  | Wrap "addr option"
  | Copy place
  | AssignWrapper place place
  | AssignRaw place "addr option"
  | AssignNew place
  | Destroy nat

text \<open>\<open>operator=(const MPObjectWrapper&)\<close>: the source is read after the release.\<close>

definition assign_wrapper :: "obj_state \<Rightarrow> place \<Rightarrow> place \<Rightarrow> obj_state option" where
  "assign_wrapper s p q =
     (case release_place s p of
        None \<Rightarrow> None
      | Some s1 \<Rightarrow> (case get_place s1 q of None \<Rightarrow> None | Some v \<Rightarrow> wrap_and_take s1 p v))"

text \<open>\<open>operator=(const MPObjectType obj)\<close>: the raw pointer was read before the release.\<close>

definition assign_raw :: "obj_state \<Rightarrow> place \<Rightarrow> addr option \<Rightarrow> obj_state option" where
  "assign_raw s p v = (case release_place s p of None \<Rightarrow> None | Some s1 \<Rightarrow> wrap_and_take s1 p v)"

definition new_object :: "store \<Rightarrow> addr option list \<Rightarrow> store" where
  "new_object h ms = h @ [Some \<lparr>m_nRefCount = 0, members = ms\<rparr>]"

text \<open>Initialising the fields of a new object copies wrappers into them, one \<open>takeRef\<close> each.\<close>

fun take_all :: "store \<Rightarrow> addr option list \<Rightarrow> store option" where
  "take_all h [] = Some h"
| "take_all h (p # ps) = (case wrapper_takeRef h p of None \<Rightarrow> None | Some h' \<Rightarrow> take_all h' ps)"

definition obj_step :: "obj_state \<Rightarrow> obj_op \<Rightarrow> obj_state option" where
  "obj_step s oper =
     (case oper of
        New ms \<Rightarrow>
          (case take_all (objs s) ms of
             None \<Rightarrow> None
           | Some h \<Rightarrow>
               map_option (\<lambda>h'. s\<lparr>objs := h', roots := roots s @ [Some (length h)]\<rparr>)
                 (wrapper_takeRef (new_object h ms) (Some (length h))))
      | Wrap v \<Rightarrow> map_option (\<lambda>h. s\<lparr>objs := h, roots := roots s @ [v]\<rparr>) (wrapper_takeRef (objs s) v)
      | Copy p \<Rightarrow>
          (case get_place s p of
             None \<Rightarrow> None
           | Some v \<Rightarrow> map_option (\<lambda>h. s\<lparr>objs := h, roots := roots s @ [v]\<rparr>) (wrapper_takeRef (objs s) v))
      | AssignWrapper p q \<Rightarrow> assign_wrapper s p q
      | AssignRaw p v \<Rightarrow> assign_raw s p v
      | AssignNew p \<Rightarrow> assign_raw (s\<lparr>objs := new_object (objs s) []\<rparr>) p (Some (length (objs s)))
      | Destroy i \<Rightarrow>
          (case release_place s (Root i) of None \<Rightarrow> None | Some s1 \<Rightarrow> WrapMPObject s1 (Root i) None))"

fun obj_run :: "obj_state \<Rightarrow> obj_op list \<Rightarrow> obj_state option" where
  "obj_run s [] = Some s"
| "obj_run s (x # xs) = (case obj_step s x of None \<Rightarrow> None | Some s' \<Rightarrow> obj_run s' xs)"

text \<open>
  \<open>setSessionOpposite\<close> of a session and \<open>setProducerOpposite\<close> of a consumer, at address \<open>a\<close>: the parameter is
  a wrapper passed by value, number \<open>n\<close>, made by the operation \<open>param\<close>; it is assigned to the field and
  destroyed.
\<close>

definition set_opposite :: "addr \<Rightarrow> nat \<Rightarrow> obj_op \<Rightarrow> nat \<Rightarrow> obj_op list" where
  "set_opposite a k param n = [param, AssignWrapper (Field a k) (Root n), Destroy n]"

section \<open>Exact counting\<close>

text \<open>References to an object from the fields of live objects.\<close>

definition cell_refs :: "addr \<Rightarrow> mp_object option \<Rightarrow> nat" where
  "cell_refs a c = (case c of None \<Rightarrow> 0 | Some x \<Rightarrow> count_list (members x) (Some a))"

definition refs_of :: "store \<Rightarrow> addr \<Rightarrow> nat" where
  "refs_of h a = sum_list (map (cell_refs a) h)"

lemma refs_of_update:
  "b < length h \<Longrightarrow> refs_of (h[b := c]) a + cell_refs a (h ! b) = refs_of h a + cell_refs a c"
  using sum_list_update_nat [of b "map (cell_refs a) h" "cell_refs a c"]
  by (simp add: refs_of_def map_update)

lemma refs_of_snoc [simp]: "refs_of (h @ [c]) a = refs_of h a + cell_refs a c"
  by (simp add: refs_of_def)

text \<open>
  The counting invariant, in the middle of a release: every count is the number of wrappers
  (outside the store, in live objects, still to be released), a dead cell is referenced by
  nothing, and a live object with count 0 is one whose cell is about to be freed.
\<close>

definition holders :: "work list \<Rightarrow> store \<Rightarrow> addr option list \<Rightarrow> addr \<Rightarrow> nat" where
  "holders ws h rs a = count_list rs (Some a) + refs_of h a + count_list ws (Rel (Some a))"

definition count_ok :: "work list \<Rightarrow> store \<Rightarrow> addr option list \<Rightarrow> bool" where
  "count_ok ws h rs \<longleftrightarrow>
     (\<forall>a. int (holders ws h rs a) = (case obj_at h a of None \<Rightarrow> 0 | Some x \<Rightarrow> m_nRefCount x))"

definition free_ok :: "work list \<Rightarrow> store \<Rightarrow> bool" where
  "free_ok ws h \<longleftrightarrow>
     (\<forall>a. count_list ws (Free a) =
        (if \<exists>x. obj_at h a = Some x \<and> m_nRefCount x = 0 then 1 else 0)) \<and>
     (\<forall>a x. obj_at h a = Some x \<longrightarrow> m_nRefCount x = 0 \<longrightarrow> members x = [])"

lemma free_okD:
  "free_ok ws h \<Longrightarrow> count_list ws (Free a) = (if \<exists>x. obj_at h a = Some x \<and> m_nRefCount x = 0 then 1 else 0)"
  unfolding free_ok_def by blast

lemma free_ok_Nil: "free_ok [] h \<longleftrightarrow> (\<forall>a x. obj_at h a = Some x \<longrightarrow> m_nRefCount x \<noteq> 0)"
proof
  assume *: "free_ok [] h"
  show "\<forall>a x. obj_at h a = Some x \<longrightarrow> m_nRefCount x \<noteq> 0"
  proof (intro allI impI notI)
    fix a x
    assume "obj_at h a = Some x" "m_nRefCount x = 0"
    with free_okD [OF *, of a] show False by simp
  qed
next
  assume "\<forall>a x. obj_at h a = Some x \<longrightarrow> m_nRefCount x \<noteq> 0"
  then show "free_ok [] h" unfolding free_ok_def by (metis count_list.simps(1))
qed

definition obj_inv :: "obj_state \<Rightarrow> bool" where
  "obj_inv s \<longleftrightarrow> count_ok [] (objs s) (roots s) \<and> free_ok [] (objs s)"

lemma obj_at_update:
  "obj_at h a = Some x \<Longrightarrow> obj_at (h[a := c]) b = (if b = a then c else obj_at h b)"
  by (auto simp: obj_at_def split: if_splits)

lemma obj_at_nth: "obj_at h a = Some x \<Longrightarrow> a < length h \<and> h ! a = Some x"
  by (simp add: obj_at_def split: if_splits)

lemma refs_of_set:
  assumes "obj_at h a = Some x"
  shows "refs_of (h[a := c]) b + count_list (members x) (Some b) = refs_of h b + cell_refs b c"
  using refs_of_update [of a h c b] obj_at_nth [OF assms] by (simp add: cell_refs_def)

lemma count_list_Rel_map [simp]:
  "count_list (map Rel ps) (Rel p) = count_list ps p" "count_list (map Rel ps) (Free a) = 0"
  by (induction ps) auto

lemma count_ok_live:
  assumes "count_ok ws h rs" "0 < holders ws h rs a"
  obtains x where "obj_at h a = Some x" "m_nRefCount x = int (holders ws h rs a)"
proof -
  have "int (holders ws h rs a) = (case obj_at h a of None \<Rightarrow> 0 | Some x \<Rightarrow> m_nRefCount x)"
    using assms(1) by (simp add: count_ok_def)
  with assms(2) that show thesis by (cases "obj_at h a") simp_all
qed

text \<open>One item of work keeps the invariant; the release never meets a deleted object.\<close>

lemma rel_last:
  assumes inv: "count_ok (Rel (Some a) # ws) h rs" "free_ok (Rel (Some a) # ws) h"
    and x: "obj_at h a = Some x" "m_nRefCount x = 1"
  shows "count_ok (map Rel (rev (members x)) @ Free a # ws)
           (h[a := Some (x\<lparr>m_nRefCount := 0, members := []\<rparr>)]) rs" (is "count_ok ?ws ?h rs")
    and "free_ok (map Rel (rev (members x)) @ Free a # ws)
           (h[a := Some (x\<lparr>m_nRefCount := 0, members := []\<rparr>)])"
proof -
  have "int (holders ?ws ?h rs b) = (case obj_at ?h b of None \<Rightarrow> 0 | Some y \<Rightarrow> m_nRefCount y)" for b
  proof -
    have "holders (Rel (Some a) # ws) h rs b = holders ?ws ?h rs b + (if b = a then 1 else 0)"
      using refs_of_set [OF x(1), of "Some (x\<lparr>m_nRefCount := 0, members := []\<rparr>)" b]
      by (auto simp: holders_def cell_refs_def)
    moreover have "int (holders (Rel (Some a) # ws) h rs b)
        = (case obj_at h b of None \<Rightarrow> 0 | Some y \<Rightarrow> m_nRefCount y)"
      using inv(1) by (simp add: count_ok_def)
    ultimately show ?thesis using x by (auto simp: obj_at_update split: option.splits)
  qed
  then show "count_ok ?ws ?h rs" by (simp add: count_ok_def)
  have "count_list ws (Free a) = 0"
    using inv(2) x by (auto simp: free_ok_def)
  then show "free_ok ?ws ?h"
    using inv(2) x by (auto simp: free_ok_def obj_at_update)
qed

lemma rel_more:
  assumes inv: "count_ok (Rel (Some a) # ws) h rs" "free_ok (Rel (Some a) # ws) h"
    and x: "obj_at h a = Some x" "1 < m_nRefCount x"
  shows "count_ok ws (h[a := Some (x\<lparr>m_nRefCount := m_nRefCount x - 1\<rparr>)]) rs" (is "count_ok ws ?h rs")
    and "free_ok ws (h[a := Some (x\<lparr>m_nRefCount := m_nRefCount x - 1\<rparr>)])"
proof -
  have "int (holders ws ?h rs b) = (case obj_at ?h b of None \<Rightarrow> 0 | Some y \<Rightarrow> m_nRefCount y)" for b
  proof -
    have "holders (Rel (Some a) # ws) h rs b = holders ws ?h rs b + (if b = a then 1 else 0)"
      using refs_of_set [OF x(1), of "Some (x\<lparr>m_nRefCount := m_nRefCount x - 1\<rparr>)" b]
      by (auto simp: holders_def cell_refs_def)
    moreover have "int (holders (Rel (Some a) # ws) h rs b)
        = (case obj_at h b of None \<Rightarrow> 0 | Some y \<Rightarrow> m_nRefCount y)"
      using inv(1) by (simp add: count_ok_def)
    ultimately show ?thesis using x by (auto simp: obj_at_update split: option.splits)
  qed
  then show "count_ok ws ?h rs" by (simp add: count_ok_def)
  show "free_ok ws ?h"
    using inv(2) x by (auto simp: free_ok_def obj_at_update)
qed

lemma free_item:
  assumes inv: "count_ok (Free a # ws) h rs" "free_ok (Free a # ws) h"
  obtains x where "obj_at h a = Some x" "count_ok ws (h[a := None]) rs" "free_ok ws (h[a := None])"
proof -
  have "count_list (Free a # ws) (Free a)
      = (if \<exists>x. obj_at h a = Some x \<and> m_nRefCount x = 0 then 1 else 0)"
    using inv(2) by (rule free_okD)
  then obtain x where x: "obj_at h a = Some x" "m_nRefCount x = 0"
    by (cases "\<exists>x. obj_at h a = Some x \<and> m_nRefCount x = 0") auto
  then have m: "members x = []" using inv(2) by (auto simp: free_ok_def)
  have one: "count_list ws (Free a) = 0" using free_okD [OF inv(2), of a] x by simp
  have "int (holders ws (h[a := None]) rs b) = (case obj_at (h[a := None]) b of None \<Rightarrow> 0 | Some y \<Rightarrow> m_nRefCount y)" for b
  proof -
    have "holders (Free a # ws) h rs b = holders ws (h[a := None]) rs b"
      using refs_of_set [OF x(1), of None b] m by (simp add: holders_def cell_refs_def)
    moreover have "int (holders (Free a # ws) h rs b) = (case obj_at h b of None \<Rightarrow> 0 | Some y \<Rightarrow> m_nRefCount y)"
      using inv(1) by (simp add: count_ok_def)
    ultimately show ?thesis using x by (auto simp: obj_at_update split: option.splits)
  qed
  then have "count_ok ws (h[a := None]) rs" by (simp add: count_ok_def)
  moreover have "free_ok ws (h[a := None])"
    using inv(2) x one by (auto simp: free_ok_def obj_at_update split: if_splits)
  ultimately show thesis using that x(1) by blast
qed

lemma holders_None [simp]: "holders (Rel None # ws) h rs a = holders ws h rs a"
  by (simp add: holders_def)

text \<open>A release started under the invariant completes, never touches a deleted cell, and
  restores the invariant.\<close>

lemma run_work_ok:
  "count_ok ws h rs \<Longrightarrow> free_ok ws h \<Longrightarrow>
     \<exists>h'. run_work ws h = Some h' \<and> length h' = length h \<and> count_ok [] h' rs \<and> free_ok [] h'"
proof (induction ws h rule: run_work.induct)
  case (1 h)
  then show ?case by simp
next
  case (2 ws h)
  then show ?case by (simp add: count_ok_def free_ok_def)
next
  case (3 a ws h)
  have h: "0 < holders (Rel (Some a) # ws) h rs a" by (simp add: holders_def)
  obtain x where x: "obj_at h a = Some x" "0 < m_nRefCount x"
    using count_ok_live [OF "3.prems"(1) h] h by (metis of_nat_0_less_iff)
  then have range: "m_nRefCount x \<noteq> INT_MIN" "m_nRefCount x \<noteq> 0" by (auto simp: INT_MIN_def)
  show ?case
  proof (cases "m_nRefCount x = 1")
    case True
    with "3.IH"(2) [OF x(1)] rel_last [OF "3.prems" x(1)] x range show ?thesis by auto
  next
    case False
    with x(2) have "1 < m_nRefCount x" by simp
    with "3.IH"(3) [OF x(1)] rel_more [OF "3.prems" x(1)] x range show ?thesis by auto
  qed
next
  case (4 a ws h)
  from "4.prems" obtain x where "obj_at h a = Some x" "count_ok ws (h[a := None]) rs"
    "free_ok ws (h[a := None])"
    by (rule free_item)
  with "4.IH" show ?case by fastforce
qed

section \<open>What a release leaves alone\<close>

text \<open>An object that survives a release keeps its fields, and counts and fields only get fewer.\<close>

definition fields :: "store \<Rightarrow> nat" where
  "fields h = sum_list (map (\<lambda>c. case c of None \<Rightarrow> 0 | Some x \<Rightarrow> length (members x)) h)"

lemma fields_update:
  "obj_at h a = Some x \<Longrightarrow> fields (h[a := c]) + length (members x) = fields h + (case c of None \<Rightarrow> 0 | Some y \<Rightarrow> length (members y))"
  using sum_list_update_nat [of a "map (\<lambda>c. case c of None \<Rightarrow> 0 | Some x \<Rightarrow> length (members x)) h"] obj_at_nth [of h a x]
  by (simp add: fields_def map_update)

lemma fields_snoc [simp]: "fields (h @ [c]) = fields h + (case c of None \<Rightarrow> 0 | Some x \<Rightarrow> length (members x))"
  by (simp add: fields_def)

lemma run_work_fields: "run_work ws h = Some h' \<Longrightarrow> fields h' \<le> fields h \<and> length h' = length h"
proof (induction ws h rule: run_work.induct)
  case (3 a ws h)
  from "3.prems" obtain x where x: "obj_at h a = Some x" by (auto split: option.splits)
  have "fields (h[a := Some (x\<lparr>m_nRefCount := 0, members := []\<rparr>)]) \<le> fields h"
    "fields (h[a := Some (x\<lparr>m_nRefCount := m_nRefCount x - 1\<rparr>)]) = fields h"
    using fields_update [OF x, of "Some (x\<lparr>m_nRefCount := 0, members := []\<rparr>)"]
      fields_update [OF x, of "Some (x\<lparr>m_nRefCount := m_nRefCount x - 1\<rparr>)"] by simp_all
  with 3 x show ?case by (fastforce split: if_splits)
next
  case (4 a ws h)
  from "4.prems" obtain x where x: "obj_at h a = Some x" by (auto split: option.splits)
  have "fields (h[a := None]) \<le> fields h" using fields_update [OF x, of None] by simp
  with 4 x show ?case by fastforce
qed simp_all

lemma run_work_survivor:
  "run_work ws h = Some h' \<Longrightarrow> obj_at h' a = Some y \<Longrightarrow> m_nRefCount y \<noteq> 0 \<Longrightarrow>
     \<exists>x. obj_at h a = Some x \<and> m_nRefCount x \<noteq> 0 \<and> members y = members x"
proof (induction ws h rule: run_work.induct)
  case (3 b ws h)
  from "3.prems"(1) obtain x where x: "obj_at h b = Some x" by (auto split: option.splits)
  note IH = "3.IH" [OF x]
  consider "m_nRefCount x = 0" | "m_nRefCount x = 1" | "m_nRefCount x \<noteq> 0" "m_nRefCount x \<noteq> 1" "m_nRefCount x \<noteq> INT_MIN"
    using "3.prems"(1) x by (fastforce split: if_splits)
  then show ?case
  proof cases
    case 1
    then show ?thesis using IH(1) "3.prems" x by simp
  next
    case 2
    then have "m_nRefCount x \<noteq> INT_MIN" by (simp add: INT_MIN_def)
    then have "\<exists>z. obj_at (h[b := Some (x\<lparr>m_nRefCount := 0, members := []\<rparr>)]) a = Some z \<and> m_nRefCount z \<noteq> 0 \<and> members y = members z"
      using IH(2) "3.prems" x 2 by simp
    then show ?thesis using x by (auto simp: obj_at_update split: if_splits)
  next
    case 3
    then have "\<exists>z. obj_at (h[b := Some (x\<lparr>m_nRefCount := m_nRefCount x - 1\<rparr>)]) a = Some z \<and> m_nRefCount z \<noteq> 0 \<and> members y = members z"
      using IH(3) "3.prems" x by simp
    then show ?thesis using x 3 by (auto simp: obj_at_update split: if_splits)
  qed
next
  case (4 b ws h)
  from "4.prems" obtain x where x: "obj_at h b = Some x" by (auto split: option.splits)
  then have "\<exists>z. obj_at (h[b := None]) a = Some z \<and> m_nRefCount z \<noteq> 0 \<and> members y = members z"
    using "4.IH" [OF x] "4.prems" by simp
  then show ?case using x by (auto simp: obj_at_update split: if_splits)
qed auto

text \<open>The fields of an object that survives take no part in a release: they may be anything.\<close>

definition with_members :: "addr \<Rightarrow> addr option list \<Rightarrow> store \<Rightarrow> store" where
  "with_members a ms h = (case obj_at h a of None \<Rightarrow> h | Some x \<Rightarrow> h[a := Some (x\<lparr>members := ms\<rparr>)])"

lemma obj_at_with_members:
  "obj_at (with_members a ms h) b = (if b = a then map_option (\<lambda>x. x\<lparr>members := ms\<rparr>) (obj_at h a) else obj_at h b)"
  by (auto simp: with_members_def obj_at_update split: option.split)

lemma with_members_update:
  "obj_at h b = Some x \<Longrightarrow> b \<noteq> a \<Longrightarrow> (with_members a ms h)[b := c] = with_members a ms (h[b := c])"
  by (auto simp: with_members_def obj_at_update list_update_swap split: option.split)

lemma with_members_count:
  "obj_at h a = Some x \<Longrightarrow> (with_members a ms h)[a := Some (x\<lparr>members := ms, m_nRefCount := n\<rparr>)] = with_members a ms (h[a := Some (x\<lparr>m_nRefCount := n\<rparr>)])"
  by (cases x) (auto simp: with_members_def obj_at_update)

lemma run_work_frame:
  "run_work ws h = Some h' \<Longrightarrow> obj_at h' a = Some y \<Longrightarrow> m_nRefCount y \<noteq> 0 \<Longrightarrow>
     run_work ws (with_members a ms h) = Some (with_members a ms h')"
proof (induction ws h rule: run_work.induct)
  case (3 b ws h)
  from "3.prems"(1) obtain x where x: "obj_at h b = Some x" by (auto split: option.splits)
  note IH = "3.IH" [OF x]
  consider "m_nRefCount x = 0" | "m_nRefCount x = 1" "m_nRefCount x \<noteq> INT_MIN"
    | "m_nRefCount x \<noteq> 0" "m_nRefCount x \<noteq> 1" "m_nRefCount x \<noteq> INT_MIN"
    using "3.prems"(1) x by (fastforce simp: INT_MIN_def split: if_splits)
  then show ?case
  proof cases
    case 1
    then show ?thesis using IH(1) "3.prems" x by (cases "b = a") (simp_all add: obj_at_with_members)
  next
    case 2
    let ?h = "h[b := Some (x\<lparr>m_nRefCount := 0, members := []\<rparr>)]"
    have run: "run_work (map Rel (rev (members x)) @ Free b # ws) ?h = Some h'" using "3.prems"(1) x 2 by simp
    have "b \<noteq> a"
      using run_work_survivor [OF run "3.prems"(2,3)] x by (auto simp: obj_at_update)
    then show ?thesis using IH(2) "3.prems" run x 2 by (simp add: obj_at_with_members with_members_update)
  next
    case 3
    then show ?thesis using IH(3) "3.prems" x
      by (cases "b = a") (simp_all add: obj_at_with_members with_members_update with_members_count)
  qed
next
  case (4 b ws h)
  from "4.prems" obtain x where x: "obj_at h b = Some x" by (auto split: option.splits)
  have run: "run_work ws (h[b := None]) = Some h'" using "4.prems"(1) x by simp
  have "b \<noteq> a" using run_work_survivor [OF run "4.prems"(2,3)] x by (auto simp: obj_at_update)
  then show ?case using "4.IH" [OF x] "4.prems" x by (simp add: obj_at_with_members with_members_update)
qed auto

section \<open>The laws of places\<close>

lemma get_set_place:
  "get_place s p \<noteq> None \<Longrightarrow> get_place (set_place p q s) r = (if r = p then Some q else get_place s r)"
  by (auto simp: get_place_def set_place_def obj_at_update nth_list_update split: place.splits option.splits if_splits)

lemma set_set_place: "get_place s p \<noteq> None \<Longrightarrow> set_place p q (set_place p v s) = set_place p q s"
  by (auto simp: get_place_def set_place_def obj_at_update split: place.splits option.splits)

lemma set_place_field:
  "obj_at (objs s) a = Some x \<Longrightarrow> set_place (Field a k) q s = s\<lparr>objs := with_members a ((members x)[k := q]) (objs s)\<rparr>"
  by (simp add: set_place_def with_members_def)

definition count_at :: "store \<Rightarrow> addr \<Rightarrow> int" where
  "count_at h a = (case obj_at h a of None \<Rightarrow> 0 | Some x \<Rightarrow> m_nRefCount x)"

lemma count_ok_at: "count_ok ws h rs \<longleftrightarrow> (\<forall>a. int (holders ws h rs a) = count_at h a)"
  by (simp add: count_ok_def count_at_def)

lemma counts_set_place:
  "map_option m_nRefCount (obj_at (objs (set_place p q s)) a) = map_option m_nRefCount (obj_at (objs s) a)"
  by (auto simp: set_place_def obj_at_update split: place.split option.split)

lemma count_at_set_place [simp]: "count_at (objs (set_place p q s)) a = count_at (objs s) a"
  using counts_set_place [of p q s a] unfolding count_at_def
  by (cases "obj_at (objs (set_place p q s)) a"; cases "obj_at (objs s) a") auto

lemma free_ok_set_place: "free_ok [] (objs s) \<Longrightarrow> free_ok [] (objs (set_place p q s))"
  by (auto simp: free_ok_Nil set_place_def obj_at_update split: place.split option.split)

text \<open>Writing a wrapper moves one reference.\<close>

lemma holders_set_place:
  assumes "get_place s p = Some v"
  shows "holders ws (objs (set_place p q s)) (roots (set_place p q s)) b + (if v = Some b then 1 else 0)
    = holders ws (objs s) (roots s) b + (if q = Some b then 1 else 0)"
proof (cases p)
  case (Root i)
  then have "i < length (roots s)" "v = roots s ! i" using assms by (auto simp: get_place_def split: if_splits)
  then show ?thesis
    using count_list_map_update_same [of i "roots s" q "Some b"] Root by (simp add: holders_def set_place_def)
next
  case (Field a k)
  then obtain x where x: "obj_at (objs s) a = Some x" "k < length (members x)" "v = members x ! k"
    using assms by (auto simp: get_place_def split: option.splits if_splits)
  have "cell_refs b (Some (x\<lparr>members := (members x)[k := q]\<rparr>)) + (if v = Some b then 1 else 0)
      = count_list (members x) (Some b) + (if q = Some b then 1 else 0)"
    using count_list_map_update_same [OF x(2), of q "Some b"] x(3) by (simp add: cell_refs_def)
  then show ?thesis
    using refs_of_set [OF x(1), of "Some (x\<lparr>members := (members x)[k := q]\<rparr>)" b] Field x(1)
    by (simp add: holders_def set_place_def)
qed

text \<open>The wrappers there are bound every count.\<close>

definition wrappers :: "obj_state \<Rightarrow> nat" where
  "wrappers s = length (roots s) + fields (objs s)"

lemma wrappers_set_place [simp]: "wrappers (set_place p q s) = wrappers s"
proof (cases p)
  case (Field a k)
  show ?thesis
  proof (cases "obj_at (objs s) a")
    case (Some x)
    then show ?thesis using fields_update [OF Some, of "Some (x\<lparr>members := (members x)[k := q]\<rparr>)"] Field
      by (simp add: wrappers_def set_place_def)
  qed (simp add: Field set_place_def)
qed (simp add: wrappers_def set_place_def)

lemma refs_le_fields: "refs_of h a \<le> fields h"
  unfolding refs_of_def fields_def by (induction h) (auto simp: cell_refs_def add_mono count_le_length split: option.split)

lemma holders_le: "holders [] h rs a \<le> length rs + fields h"
  using refs_le_fields [of h a] count_le_length [of rs "Some a"] by (simp add: holders_def)

lemma holders_below:
  assumes "get_place s p = Some None"
  shows "holders [] (objs s) (roots s) a < wrappers s"
proof -
  have "holders [] (objs s) (roots s) a < holders [] (objs (set_place p (Some a) s)) (roots (set_place p (Some a) s)) a"
    using holders_set_place [OF assms, of "[]" "Some a" a] by simp
  also have "\<dots> \<le> wrappers (set_place p (Some a) s)" using holders_le by (simp add: wrappers_def)
  finally show ?thesis by simp
qed

text \<open>A reference is taken for a wrapper that is already written.\<close>

lemma take_counts:
  assumes "\<And>b. int (holders [] h rs b) = count_at h b + (if q = Some b then 1 else 0)"
    and "\<And>b x. obj_at h b = Some x \<Longrightarrow> m_nRefCount x = 0 \<Longrightarrow> q = Some b"
    and "\<And>a. q = Some a \<Longrightarrow> \<exists>x. obj_at h a = Some x \<and> 0 \<le> m_nRefCount x \<and> m_nRefCount x < INT_MAX"
  shows "\<exists>h'. wrapper_takeRef h q = Some h' \<and> length h' = length h \<and> count_ok [] h' rs \<and> free_ok [] h' \<and> fields h' = fields h"
proof (cases q)
  case None
  then have "free_ok [] h" using assms(2) unfolding free_ok_Nil by blast
  then show ?thesis using None assms(1) by (simp add: wrapper_takeRef_def count_ok_at)
next
  case (Some a)
  obtain x where x: "obj_at h a = Some x" "0 \<le> m_nRefCount x" "m_nRefCount x < INT_MAX" using assms(3) [OF Some] by blast
  let ?c = "Some (x\<lparr>m_nRefCount := m_nRefCount x + 1\<rparr>)"
  have "int (holders [] (h[a := ?c]) rs b) = count_at (h[a := ?c]) b" for b
    using assms(1) [of b] refs_of_set [OF x(1), of ?c b] x(1) Some
    by (auto simp: holders_def cell_refs_def count_at_def obj_at_update)
  moreover have "free_ok [] (h[a := ?c])"
    using assms(2) x Some by (auto simp: free_ok_Nil obj_at_update split: if_splits)
  moreover have "fields (h[a := ?c]) = fields h" using fields_update [OF x(1), of ?c] by simp
  ultimately show ?thesis
    using x Some by (simp add: wrapper_takeRef_def MPObject_takeRef_def Let_def count_ok_at)
qed

lemma take_snoc:
  assumes "count_ok [] h rs" "free_ok [] h" "\<And>a. q = Some a \<Longrightarrow> \<exists>x. obj_at h a = Some x"
    and "int (length rs + fields h) < INT_MAX"
  shows "\<exists>h'. wrapper_takeRef h q = Some h' \<and> length h' = length h \<and> count_ok [] h' (rs @ [q]) \<and> free_ok [] h' \<and> fields h' = fields h"
proof (rule take_counts)
  show "int (holders [] h (rs @ [q]) b) = count_at h b + (if q = Some b then 1 else 0)" for b
    using assms(1) by (simp add: count_ok_at holders_def)
  show "obj_at h b = Some x \<Longrightarrow> m_nRefCount x = 0 \<Longrightarrow> q = Some b" for b x
    using assms(2) by (simp add: free_ok_Nil)
  fix a assume "q = Some a"
  then obtain x where x: "obj_at h a = Some x" using assms(3) by blast
  then have "m_nRefCount x = int (holders [] h rs a)" using assms(1) by (simp add: count_ok_at count_at_def)
  then show "\<exists>x. obj_at h a = Some x \<and> 0 \<le> m_nRefCount x \<and> m_nRefCount x < INT_MAX"
    using x holders_le [of h rs a] assms(4) by auto
qed

section \<open>The discipline\<close>

text \<open>
  The discipline of the callers. A wrapper that is written or read is outside the store, or a field of an
  object that another wrapper outside the store holds; \<open>d\<close> is the wrapper that the operation writes, which
  does not count. A raw pointer that is assigned is held by some other wrapper of that kind, and the fields
  of a new object are copies of existing wrappers. There are never more wrappers than an \<open>int\<close> can count.
\<close>

definition anchored :: "obj_state \<Rightarrow> place \<Rightarrow> addr \<Rightarrow> bool" where
  "anchored s d a \<longleftrightarrow> (\<exists>j < length (roots s). Root j \<noteq> d \<and> roots s ! j = Some a)"

definition usable :: "obj_state \<Rightarrow> place \<Rightarrow> place \<Rightarrow> bool" where
  "usable s d p \<longleftrightarrow> get_place s p \<noteq> None \<and> (case p of Root i \<Rightarrow> True | Field a k \<Rightarrow> anchored s d a)"

definition held_elsewhere :: "obj_state \<Rightarrow> place \<Rightarrow> addr \<Rightarrow> bool" where
  "held_elsewhere s d a \<longleftrightarrow> anchored s d a
     \<or> (\<exists>j < length (roots s). Root j \<noteq> d \<and> (case roots s ! j of None \<Rightarrow> False | Some b \<Rightarrow>
          (case obj_at (objs s) b of None \<Rightarrow> False | Some x \<Rightarrow>
             \<exists>k < length (members x). Field b k \<noteq> d \<and> members x ! k = Some a)))"

definition new_wrappers :: "obj_op \<Rightarrow> nat" where
  "new_wrappers oper = (case oper of New ms \<Rightarrow> Suc (length ms) | Wrap v \<Rightarrow> 1 | Copy p \<Rightarrow> 1 | _ \<Rightarrow> 0)"

definition op_ok :: "obj_state \<Rightarrow> obj_op \<Rightarrow> bool" where
  "op_ok s oper \<longleftrightarrow> int (wrappers s + new_wrappers oper) \<le> INT_MAX \<and>
     (case oper of
        New ms \<Rightarrow> (\<forall>p \<in> set ms. p = None \<or> p \<in> set (roots s))
      | Wrap v \<Rightarrow> (case v of None \<Rightarrow> True | Some a \<Rightarrow> held_elsewhere s (Root (length (roots s))) a)
      | Copy p \<Rightarrow> usable s (Root (length (roots s))) p
      | AssignWrapper p q \<Rightarrow> usable s p p \<and> usable s p q
      | AssignRaw p v \<Rightarrow> usable s p p \<and> (case v of None \<Rightarrow> True | Some a \<Rightarrow> held_elsewhere s p a)
      | AssignNew p \<Rightarrow> usable s p p
      | Destroy i \<Rightarrow> i < length (roots s))"

lemma held_live:
  assumes "count_ok ws h rs" "Some a \<in> set rs \<or> (\<exists>b x. obj_at h b = Some x \<and> Some a \<in> set (members x))"
  shows "\<exists>x. obj_at h a = Some x"
proof -
  have "0 < holders ws h rs a"
    using assms(2)
  proof
    assume "Some a \<in> set rs"
    then show ?thesis by (metis count_list_0_iff gr0I holders_def add_is_0)
  next
    assume "\<exists>b x. obj_at h b = Some x \<and> Some a \<in> set (members x)"
    then obtain b x where x: "obj_at h b = Some x" "Some a \<in> set (members x)" by blast
    then have "0 < count_list (members x) (Some a)" by (metis count_list_0_iff gr0I)
    then have "0 < refs_of h a" using refs_of_set [OF x(1), of None a] by (simp add: cell_refs_def)
    then show ?thesis by (simp add: holders_def)
  qed
  with assms(1) show ?thesis by (metis count_ok_live)
qed

lemma get_place_live:
  assumes "obj_inv s" "get_place s p = Some (Some a)"
  shows "\<exists>x. obj_at (objs s) a = Some x"
proof (rule held_live)
  show "count_ok [] (objs s) (roots s)" using assms(1) by (simp add: obj_inv_def)
  show "Some a \<in> set (roots s) \<or> (\<exists>b x. obj_at (objs s) b = Some x \<and> Some a \<in> set (members x))"
    using assms(2) by (auto simp: get_place_def split: place.splits option.splits if_splits) (metis nth_mem)+
qed

section \<open>Releasing a wrapper\<close>

text \<open>
  The wrapper at a usable place gives up its reference. Seen from the state in which this wrapper is already
  NULL, the counts are exact again afterwards, and every wrapper the discipline lets the operation read is
  what it was.
\<close>

lemma inv_cleared:
  assumes "obj_inv s" "get_place s p = Some v"
  shows "count_ok [Rel v] (objs (set_place p None s)) (roots (set_place p None s))" "free_ok [Rel v] (objs (set_place p None s))"
proof -
  let ?s = "set_place p None s"
  have "holders [Rel v] (objs ?s) (roots ?s) b = holders [] (objs s) (roots s) b" for b
    using holders_set_place [OF assms(2), of "[]" None b] by (auto simp: holders_def)
  then show "count_ok [Rel v] (objs ?s) (roots ?s)" using assms(1) by (simp add: obj_inv_def count_ok_at)
  have "m_nRefCount x \<noteq> 0" if "obj_at (objs ?s) b = Some x" for b x
    using counts_set_place [of p None s b] that assms(1) by (cases "obj_at (objs s) b") (auto simp: obj_inv_def free_ok_Nil)
  then show "free_ok [Rel v] (objs ?s)" by (auto simp: free_ok_def)
qed

lemma survivor:
  assumes "run_work ws h = Some h'" "count_ok [] h' rs" "free_ok [] h'" "Some a \<in> set rs"
  obtains x y where "obj_at h a = Some x" "obj_at h' a = Some y" "members y = members x" "m_nRefCount y \<noteq> 0"
proof -
  obtain y where y: "obj_at h' a = Some y" using held_live [OF assms(2)] assms(4) by blast
  then have "m_nRefCount y \<noteq> 0" using assms(3) by (simp add: free_ok_Nil)
  with run_work_survivor [OF assms(1) y this] y that show thesis by blast
qed

lemma released_pointer:
  assumes "run_work [Rel v] h = Some h'" "wrapper_releaseRef h v = Some (h2, v')"
  shows "h2 = h' \<and> (v' = None \<or> v' = v \<and> (\<exists>a x. v = Some a \<and> obj_at h' a = Some x))"
  using assms by (auto simp: wrapper_releaseRef_def obj_at_update split: option.splits if_splits)

lemma release_at:
  assumes inv: "obj_inv s" and use: "usable s p p"
  obtains s0 v' where "release_place s p = Some (set_place p v' s0)" "obj_inv s0" "get_place s0 p = Some None"
    "wrappers s0 \<le> wrappers s" "\<And>r. r \<noteq> p \<Longrightarrow> usable s p r \<Longrightarrow> get_place s0 r = get_place s r"
    "\<And>a. v' = Some a \<Longrightarrow> \<exists>x. obj_at (objs s0) a = Some x"
proof -
  obtain v where v: "get_place s p = Some v" using use by (auto simp: usable_def)
  let ?c = "set_place p None s"
  obtain h0 where h0: "run_work [Rel v] (objs ?c) = Some h0" "count_ok [] h0 (roots ?c)" "free_ok [] h0"
    using run_work_ok [OF inv_cleared [OF inv v]] by blast
  define s0 where "s0 = ?c\<lparr>objs := h0\<rparr>"
  have root: "Some a \<in> set (roots ?c)" if "anchored s p a" for a
    using that by (cases p) (auto simp: anchored_def set_place_def nth_list_update in_set_conv_nth split: option.split)
  have same: "get_place s0 r = get_place ?c r" if r: "case r of Root i \<Rightarrow> True | Field a k \<Rightarrow> anchored s p a" for r
  proof (cases r)
    case (Field a k)
    obtain x y where "obj_at (objs ?c) a = Some x" "obj_at h0 a = Some y" "members y = members x"
      using survivor [OF h0 root] r Field by (metis place.case(2))
    then show ?thesis by (simp add: get_place_def Field s0_def)
  qed (simp add: get_place_def s0_def)
  have p0: "get_place s0 p = Some None" using same [of p] use v by (simp add: get_set_place usable_def)
  have rel: "\<exists>v'. release_place s p = Some (set_place p v' s0) \<and> (v' = None \<or> v' = v \<and> (\<exists>a x. v = Some a \<and> obj_at h0 a = Some x))"
  proof (cases p)
    case (Root i)
    then have c: "objs ?c = objs s" by (simp add: set_place_def)
    then obtain v' where r: "wrapper_releaseRef (objs s) v = Some (h0, v')" using h0(1) by (simp add: wrapper_releaseRef_def)
    have "release_place s p = Some (set_place p v' s0)"
      using v Root r by (simp add: release_place_def WrapMPObject_def get_place_def set_place_def s0_def split: if_splits)
    then show ?thesis using released_pointer [OF _ r, of h0] h0(1) c by auto
  next
    case (Field a k)
    obtain x where x: "obj_at (objs s) a = Some x" "k < length (members x)" "v = members x ! k"
      using v Field by (auto simp: get_place_def split: option.splits if_splits)
    have c: "objs ?c = with_members a ((members x)[k := None]) (objs s)" using set_place_field [OF x(1)] Field by simp
    have orig: "objs s = with_members a (members x) (objs ?c)"
      using x(1) obj_at_nth [OF x(1)] unfolding c by (simp add: with_members_def obj_at_update) (metis list_update_id)
    have "anchored s p a" using use Field by (simp add: usable_def)
    from survivor [OF h0 root [OF this]] obtain x1 y where y: "obj_at (objs ?c) a = Some x1" "obj_at h0 a = Some y"
      "members y = members x1" "m_nRefCount y \<noteq> 0" by blast
    have run: "run_work [Rel v] (objs s) = Some (with_members a (members x) h0)"
      unfolding orig by (rule run_work_frame [OF h0(1) y(2,4)])
    then obtain v' where r: "wrapper_releaseRef (objs s) v = Some (with_members a (members x) h0, v')"
      by (simp add: wrapper_releaseRef_def)
    have "members y = (members x)[k := None]" using y(1,3) x(1) unfolding c by (auto simp: obj_at_with_members)
    then have "release_place s p = Some (set_place p v' s0)"
      using v Field r x(1,2) y(2)
      by (simp add: release_place_def WrapMPObject_def get_place_def obj_at_with_members s0_def)
        (simp add: set_place_def obj_at_with_members with_members_def obj_at_update [OF y(2)])
    moreover have "\<exists>z. obj_at (with_members a (members x) h0) b = Some z \<Longrightarrow> \<exists>z. obj_at h0 b = Some z" for b
      by (auto simp: obj_at_with_members split: if_splits)
    ultimately show ?thesis using released_pointer [OF run r] by blast
  qed
  then obtain v' where v': "release_place s p = Some (set_place p v' s0)" "v' = None \<or> v' = v \<and> (\<exists>a x. v = Some a \<and> obj_at h0 a = Some x)"
    by blast
  show thesis
  proof (rule that [OF v'(1) _ p0])
    show "obj_inv s0" using h0(2,3) by (simp add: obj_inv_def s0_def)
    show "wrappers s0 \<le> wrappers s"
      using run_work_fields [OF h0(1)] wrappers_set_place [of p None s] by (simp add: wrappers_def s0_def)
    show "get_place s0 r = get_place s r" if "r \<noteq> p" "usable s p r" for r
      using same [of r] that v by (simp add: get_set_place usable_def)
    show "\<exists>x. obj_at (objs s0) a = Some x" if "v' = Some a" for a using v'(2) that by (auto simp: s0_def)
  qed
qed

section \<open>Every operation keeps the counts exact\<close>

text \<open>Wrapping a pointer to a live object in a wrapper that is NULL.\<close>

lemma wrap_ok:
  assumes inv: "obj_inv s0" and p: "get_place s0 p = Some None" and "wrappers s0 \<le> n" "int n \<le> INT_MAX"
    and q: "\<And>a. q = Some a \<Longrightarrow> \<exists>x. obj_at (objs s0) a = Some x"
  shows "\<exists>s1. wrap_and_take (set_place p v' s0) p q = Some s1 \<and> obj_inv s1"
proof -
  let ?s = "set_place p q s0"
  have "\<exists>h'. wrapper_takeRef (objs ?s) q = Some h' \<and> length h' = length (objs ?s) \<and> count_ok [] h' (roots ?s) \<and> free_ok [] h' \<and> fields h' = fields (objs ?s)"
  proof (rule take_counts)
    show "int (holders [] (objs ?s) (roots ?s) b) = count_at (objs ?s) b + (if q = Some b then 1 else 0)" for b
      using holders_set_place [OF p, of "[]" q b] inv by (simp add: obj_inv_def count_ok_at)
    have counts: "\<exists>y. obj_at (objs s0) b = Some y \<and> m_nRefCount y = m_nRefCount x" if "obj_at (objs ?s) b = Some x" for b x
      using counts_set_place [of p q s0 b] that by (cases "obj_at (objs s0) b") auto
    then show "obj_at (objs ?s) b = Some x \<Longrightarrow> m_nRefCount x = 0 \<Longrightarrow> q = Some b" for b x
      using inv by (fastforce simp: obj_inv_def free_ok_Nil)
    fix a assume "q = Some a"
    then obtain x where x: "obj_at (objs s0) a = Some x" using q by blast
    then obtain z where z: "obj_at (objs ?s) a = Some z" "m_nRefCount z = m_nRefCount x"
      using counts_set_place [of p q s0 a] by (cases "obj_at (objs ?s) a") auto
    have "m_nRefCount x = int (holders [] (objs s0) (roots s0) a)"
      using inv x by (simp add: obj_inv_def count_ok_at count_at_def)
    then show "\<exists>x. obj_at (objs ?s) a = Some x \<and> 0 \<le> m_nRefCount x \<and> m_nRefCount x < INT_MAX"
      using z holders_below [OF p, of a] assms(3,4) by auto
  qed
  then obtain h' where "wrapper_takeRef (objs ?s) q = Some h'" "count_ok [] h' (roots ?s)" "free_ok [] h'" by blast
  then show ?thesis
    using p by (simp add: wrap_and_take_def WrapMPObject_def get_set_place set_set_place obj_inv_def)
qed

lemma assign_raw_ok:
  assumes "obj_inv s" "usable s p p" "int (wrappers s) \<le> INT_MAX" "\<And>a. v = Some a \<Longrightarrow> held_elsewhere s p a"
  shows "\<exists>s'. assign_raw s p v = Some s' \<and> obj_inv s'"
proof -
  obtain s0 v' where r: "release_place s p = Some (set_place p v' s0)" "obj_inv s0" "get_place s0 p = Some None"
    "wrappers s0 \<le> wrappers s" "\<And>r. r \<noteq> p \<Longrightarrow> usable s p r \<Longrightarrow> get_place s0 r = get_place s r"
    using release_at [OF assms(1,2)] by metis
  have "\<exists>x. obj_at (objs s0) a = Some x" if a: "v = Some a" for a
  proof -
    have root: "get_place s0 (Root j) = Some (roots s ! j)" if "j < length (roots s)" "Root j \<noteq> p" for j
      using r(5) [of "Root j"] that by (simp add: usable_def get_place_def)
    consider j where "j < length (roots s)" "Root j \<noteq> p" "roots s ! j = Some a"
      | j b x k where "j < length (roots s)" "Root j \<noteq> p" "roots s ! j = Some b" "obj_at (objs s) b = Some x"
        "k < length (members x)" "Field b k \<noteq> p" "members x ! k = Some a"
      using assms(4) [OF a] unfolding held_elsewhere_def anchored_def by (fastforce split: option.split_asm)
    then show ?thesis
    proof cases
      case 1
      then show ?thesis using root get_place_live [OF r(2)] by metis
    next
      case 2
      then have "usable s p (Field b k)" "get_place s (Field b k) = Some (Some a)"
        by (auto simp: usable_def anchored_def get_place_def)
      then show ?thesis using r(5) 2(6) get_place_live [OF r(2)] by metis
    qed
  qed
  from wrap_ok [OF r(2,3,4) assms(3) this] show ?thesis by (simp add: assign_raw_def r(1))
qed

lemma assign_wrapper_ok:
  assumes "obj_inv s" "usable s p p" "usable s p q" "int (wrappers s) \<le> INT_MAX"
  shows "\<exists>s'. assign_wrapper s p q = Some s' \<and> obj_inv s'"
proof -
  obtain s0 v' where r: "release_place s p = Some (set_place p v' s0)" "obj_inv s0" "get_place s0 p = Some None"
    "wrappers s0 \<le> wrappers s" "\<And>r. r \<noteq> p \<Longrightarrow> usable s p r \<Longrightarrow> get_place s0 r = get_place s r"
    "\<And>a. v' = Some a \<Longrightarrow> \<exists>x. obj_at (objs s0) a = Some x"
    using release_at [OF assms(1,2)] by metis
  have get: "get_place (set_place p v' s0) q = (if q = p then Some v' else get_place s q)"
    using r(3) r(5) [OF _ assms(3)] by (simp add: get_set_place)
  then obtain v where v: "get_place (set_place p v' s0) q = Some v" using assms(3) by (cases "q = p") (auto simp: usable_def)
  have "\<exists>x. obj_at (objs s0) a = Some x" if "v = Some a" for a
    using v that get r(5) [OF _ assms(3)] r(6) get_place_live [OF r(2)] by (cases "q = p") auto
  from wrap_ok [OF r(2,3,4) assms(4) this] v show ?thesis by (simp add: assign_wrapper_def r(1))
qed

text \<open>New objects: the references of the fields, then the one of the first wrapper.\<close>

lemma take_all_ok:
  "count_ok [] h rs \<Longrightarrow> free_ok [] h \<Longrightarrow> \<forall>p \<in> set ms. p = None \<or> p \<in> set rs \<Longrightarrow> int (length rs + length ms + fields h) \<le> INT_MAX \<Longrightarrow>
     \<exists>h'. take_all h ms = Some h' \<and> length h' = length h \<and> count_ok [] h' (rs @ ms) \<and> free_ok [] h'"
proof (induction ms arbitrary: h rs)
  case (Cons p ms)
  have "\<exists>x. obj_at h a = Some x" if "p = Some a" for a
    using Cons.prems(1,3) that by (intro held_live) auto
  then obtain h1 where h1: "wrapper_takeRef h p = Some h1" "length h1 = length h" "count_ok [] h1 (rs @ [p])" "free_ok [] h1"
    "fields h1 = fields h" using take_snoc [OF Cons.prems(1,2), of p] Cons.prems(4) by auto
  from Cons.IH [OF h1(3,4)] Cons.prems(3,4) h1 show ?case by auto
qed simp

lemma obj_at_new:
  "obj_at (new_object h ms) a = (if a = length h then Some \<lparr>m_nRefCount = 0, members = ms\<rparr> else obj_at h a)"
  by (auto simp: obj_at_def new_object_def nth_append)

lemma new_object_ok:
  assumes counts: "\<And>b. int (holders [] h rs b) + int (count_list ms (Some b)) = count_at h b + (if b = length h then 1 else 0)" and free: "free_ok [] h"
  shows "\<exists>h'. wrapper_takeRef (new_object h ms) (Some (length h)) = Some h' \<and> count_ok [] h' rs \<and> free_ok [] h'"
proof -
  have "\<exists>h'. wrapper_takeRef (new_object h ms) (Some (length h)) = Some h' \<and> length h' = length (new_object h ms) \<and> count_ok [] h' rs
      \<and> free_ok [] h' \<and> fields h' = fields (new_object h ms)"
  proof (rule take_counts)
    have "count_at h (length h) = 0" by (simp add: count_at_def obj_at_def)
    then show "int (holders [] (new_object h ms) rs b) = count_at (new_object h ms) b + (if Some (length h) = Some b then 1 else 0)" for b
      using counts [of b] by (auto simp: holders_def cell_refs_def count_at_def obj_at_new) (simp_all add: new_object_def cell_refs_def)
    show "obj_at (new_object h ms) b = Some x \<Longrightarrow> m_nRefCount x = 0 \<Longrightarrow> Some (length h) = Some b" for b x
      using free by (auto simp: free_ok_Nil obj_at_new split: if_splits)
  qed (auto simp: obj_at_new INT_MAX_def)
  then show ?thesis by blast
qed

text \<open>A cell at the end of the store takes no part in a release.\<close>

lemma obj_at_append: "obj_at h a = Some x \<Longrightarrow> obj_at (h @ ys) a = Some x"
  by (auto simp: obj_at_def nth_append split: if_splits)

lemma run_work_snoc: "run_work ws h = Some h' \<Longrightarrow> run_work ws (h @ ys) = Some (h' @ ys)"
proof (induction ws h rule: run_work.induct)
  case (3 a ws h)
  from "3.prems" obtain x where x: "obj_at h a = Some x" by (auto split: option.splits)
  then have "a < length h" by (simp add: obj_at_nth)
  with 3 x obj_at_append [OF x, of ys] show ?case
    by (simp add: list_update_append1 split: if_splits)
next
  case (4 a ws h)
  from "4.prems" obtain x where x: "obj_at h a = Some x" by (auto split: option.splits)
  then have "a < length h" by (simp add: obj_at_nth)
  with 4 x obj_at_append [OF x, of ys] show ?case
    by (simp add: list_update_append1)
qed simp_all

definition grown :: "store \<Rightarrow> obj_state \<Rightarrow> obj_state" where
  "grown ys s = s\<lparr>objs := objs s @ ys\<rparr>"

lemma grown_place:
  assumes "get_place s p = Some v"
  shows "get_place (grown ys s) p = Some v" "set_place p q (grown ys s) = grown ys (set_place p q s)"
proof -
  have "a < length (objs s) \<and> obj_at (objs s @ ys) a = Some x" if "obj_at (objs s) a = Some x" for a x
    using obj_at_nth [OF that] obj_at_append [OF that] by simp
  then show "get_place (grown ys s) p = Some v" "set_place p q (grown ys s) = grown ys (set_place p q s)"
    using assms by (auto simp: get_place_def set_place_def grown_def list_update_append1 split: place.splits option.splits if_splits)
qed

lemma release_grown:
  assumes "release_place s p = Some s1"
  shows "release_place (grown ys s) p = Some (grown ys s1)"
proof -
  obtain v h v' where v: "get_place s p = Some v" "wrapper_releaseRef (objs s) v = Some (h, v')"
    and w: "get_place (s\<lparr>objs := h\<rparr>) p \<noteq> None" "s1 = set_place p v' (s\<lparr>objs := h\<rparr>)"
    using assms by (auto simp: release_place_def WrapMPObject_def split: option.splits if_splits)
  have run: "run_work [Rel v] (objs s) = Some h" using v(2) by (auto simp: wrapper_releaseRef_def split: option.splits)
  have "wrapper_releaseRef (objs s @ ys) v = Some (h @ ys, v')"
  proof (cases v)
    case (Some a)
    obtain x where x: "obj_at (objs s) a = Some x" using run Some by (auto split: option.splits)
    show ?thesis
      using v(2) Some unfolding wrapper_releaseRef_def run run_work_snoc [OF run, of ys] option.case
      by (simp add: x obj_at_append [OF x])
  qed (use v(2) in \<open>simp add: wrapper_releaseRef_def\<close>)
  moreover obtain u where u: "get_place (s\<lparr>objs := h\<rparr>) p = Some u" using w(1) by blast
  ultimately show ?thesis
    using grown_place(1) [OF v(1), of ys] grown_place(1) [OF u, of ys] grown_place(2) [OF u, where ys = ys] w(2)
    by (simp add: release_place_def WrapMPObject_def grown_def)
qed

lemma set_place_length: "length (objs (set_place p q s)) = length (objs s)"
  by (simp add: set_place_def split: place.split option.split)

lemma release_length: "release_place s p = Some s1 \<Longrightarrow> length (objs s1) = length (objs s)"
  using run_work_fields
  by (fastforce simp: release_place_def wrapper_releaseRef_def WrapMPObject_def set_place_length simp del: run_work.simps
      split: option.splits if_splits)

lemma assign_new_ok:
  assumes "obj_inv s" "usable s p p"
  shows "\<exists>s'. assign_raw (s\<lparr>objs := new_object (objs s) []\<rparr>) p (Some (length (objs s))) = Some s' \<and> obj_inv s'"
proof -
  obtain s0 v' where r: "release_place s p = Some (set_place p v' s0)" "obj_inv s0" "get_place s0 p = Some None"
    using release_at [OF assms] by metis
  let ?n = "length (objs s)" and ?ys = "[Some \<lparr>m_nRefCount = 0, members = []\<rparr>]" and ?s = "set_place p (Some (length (objs s))) s0"
  have n: "length (objs s0) = ?n" using release_length [OF r(1)] by (simp add: set_place_length)
  have "release_place (grown ?ys s) p = Some (grown ?ys (set_place p v' s0))" by (rule release_grown [OF r(1)])
  moreover have "set_place p (Some ?n) (grown ?ys (set_place p v' s0)) = grown ?ys ?s" "get_place (grown ?ys (set_place p v' s0)) p \<noteq> None"
    using grown_place(1) [of "set_place p v' s0" p v' ?ys] grown_place(2) [of "set_place p v' s0" p v' "Some ?n" ?ys] r(3)
    by (simp_all add: get_set_place set_set_place)
  moreover have "\<exists>h'. wrapper_takeRef (new_object (objs ?s) []) (Some (length (objs ?s))) = Some h' \<and> count_ok [] h' (roots ?s) \<and> free_ok [] h'"
  proof (rule new_object_ok)
    show "int (holders [] (objs ?s) (roots ?s) b) + int (count_list [] (Some b)) = count_at (objs ?s) b + (if b = length (objs ?s) then 1 else 0)" for b
      using holders_set_place [OF r(3), of "[]" "Some ?n" b] r(2) n by (auto simp: obj_inv_def count_ok_at set_place_length)
    show "free_ok [] (objs ?s)"
      using r(2) by (simp add: obj_inv_def free_ok_set_place)
  qed
  ultimately show ?thesis
    by (auto simp: assign_raw_def wrap_and_take_def WrapMPObject_def obj_inv_def new_object_def grown_def set_place_length n)
qed

lemma obj_step_inv [w2s_inv]:
  assumes "obj_inv s" "op_ok s oper"
  shows "\<exists>s'. obj_step s oper = Some s' \<and> obj_inv s'"
proof -
  have inv: "count_ok [] (objs s) (roots s)" "free_ok [] (objs s)" using assms(1) by (simp_all add: obj_inv_def)
  have bound: "int (wrappers s + new_wrappers oper) \<le> INT_MAX" using assms(2) by (simp add: op_ok_def)
  then have le: "int (wrappers s) \<le> INT_MAX" by simp
  show ?thesis
  proof (cases oper)
    case (New ms)
    have "\<forall>p \<in> set ms. p = None \<or> p \<in> set (roots s)" using assms(2) New by (simp add: op_ok_def)
    from take_all_ok [OF inv this] bound New obtain h where h: "take_all (objs s) ms = Some h" "count_ok [] h (roots s @ ms)" "free_ok [] h"
      by (auto simp: wrappers_def new_wrappers_def)
    have "\<exists>h'. wrapper_takeRef (new_object h ms) (Some (length h)) = Some h' \<and> count_ok [] h' (roots s @ [Some (length h)]) \<and> free_ok [] h'"
    proof (rule new_object_ok [OF _ h(3)])
      show "int (holders [] h (roots s @ [Some (length h)]) b) + int (count_list ms (Some b)) = count_at h b + (if b = length h then 1 else 0)" for b
        using h(2) [unfolded count_ok_at, rule_format, of b] by (cases "b = length h") (simp_all add: holders_def)
    qed
    with New h(1) show ?thesis by (auto simp: obj_step_def obj_inv_def)
  next
    case (Wrap v)
    have "\<exists>x. obj_at (objs s) a = Some x" if "v = Some a" for a
    proof (rule held_live [OF inv(1)])
      have "held_elsewhere s (Root (length (roots s))) a" using assms(2) Wrap that by (simp add: op_ok_def)
      then show "Some a \<in> set (roots s) \<or> (\<exists>b x. obj_at (objs s) b = Some x \<and> Some a \<in> set (members x))"
        unfolding held_elsewhere_def anchored_def by (fastforce simp: in_set_conv_nth split: option.split_asm)
    qed
    then have "\<exists>h'. wrapper_takeRef (objs s) v = Some h' \<and> length h' = length (objs s) \<and> count_ok [] h' (roots s @ [v]) \<and> free_ok [] h' \<and> fields h' = fields (objs s)"
      using bound Wrap by (intro take_snoc [OF inv]) (auto simp: wrappers_def new_wrappers_def)
    with Wrap show ?thesis by (auto simp: obj_step_def obj_inv_def)
  next
    case (Copy p)
    then obtain v where v: "get_place s p = Some v" using assms(2) by (auto simp: op_ok_def usable_def)
    have "\<exists>x. obj_at (objs s) a = Some x" if "v = Some a" for a using get_place_live [OF assms(1)] v that by simp
    then have "\<exists>h'. wrapper_takeRef (objs s) v = Some h' \<and> length h' = length (objs s) \<and> count_ok [] h' (roots s @ [v]) \<and> free_ok [] h' \<and> fields h' = fields (objs s)"
      using bound Copy by (intro take_snoc [OF inv]) (auto simp: wrappers_def new_wrappers_def)
    with Copy v show ?thesis by (auto simp: obj_step_def obj_inv_def)
  next
    case (AssignWrapper p q)
    then show ?thesis using assms assign_wrapper_ok le by (simp add: obj_step_def op_ok_def)
  next
    case (AssignRaw p v)
    then show ?thesis using assms assign_raw_ok [OF assms(1) _ le, of p v] by (cases v) (simp_all add: obj_step_def op_ok_def)
  next
    case (AssignNew p)
    then show ?thesis using assms assign_new_ok by (simp add: obj_step_def op_ok_def)
  next
    case (Destroy i)
    then have "usable s (Root i) (Root i)" using assms(2) by (simp add: op_ok_def usable_def get_place_def)
    then obtain s0 v' where r: "release_place s (Root i) = Some (set_place (Root i) v' s0)" "obj_inv s0" "get_place s0 (Root i) = Some None"
      using release_at [OF assms(1)] by metis
    have "roots s0 ! i = None" using r(3) by (simp add: get_place_def split: if_splits)
    then have "(roots s0)[i := None] = roots s0" using list_update_id [of "roots s0" i] by simp
    then have "set_place (Root i) None s0 = s0" by (simp add: set_place_def)
    then have "WrapMPObject (set_place (Root i) v' s0) (Root i) None = Some s0"
      using r(3) by (simp add: WrapMPObject_def get_set_place set_set_place)
    then show ?thesis using Destroy r by (simp add: obj_step_def)
  qed
qed

section \<open>Properties of the reference counts\<close>

fun ops_ok :: "obj_state \<Rightarrow> obj_op list \<Rightarrow> bool" where
  "ops_ok s [] \<longleftrightarrow> True"
| "ops_ok s (x # xs) \<longleftrightarrow>
     op_ok s x \<and> (case obj_step s x of None \<Rightarrow> True | Some s' \<Rightarrow> ops_ok s' xs)"

lemma obj_run_inv:
  "obj_inv s \<Longrightarrow> ops_ok s xs \<Longrightarrow> \<exists>s'. obj_run s xs = Some s' \<and> obj_inv s'"
proof (induction xs arbitrary: s)
  case Nil
  then show ?case by simp
next
  case (Cons x xs)
  then obtain s1 where "obj_step s x = Some s1" "obj_inv s1" by (auto dest: obj_step_inv)
  with Cons show ?case by simp
qed

definition empty_objs :: obj_state where
  "empty_objs = \<lparr>objs = [], roots = []\<rparr>"

lemma obj_inv_empty [simp]: "obj_inv empty_objs"
  by (simp add: obj_inv_def empty_objs_def count_ok_def free_ok_Nil holders_def refs_of_def obj_at_def)

text \<open>
  C20. Let a program over wrappers respect the discipline of the code: the wrappers it writes and reads,
  the fields of live objects among them, stay reachable from a wrapper outside the store while it does so,
  a raw pointer is only assigned while another wrapper holds it, and there are never more wrappers than an
  \<open>int\<close> counts. Then it runs without touching a deleted object and without a count out of range; afterwards
  every wrapper that is not NULL, outside the store or a field of a live object, points to a live object,
  and the count of every live object is positive and equals the number of wrappers that hold it.
\<close>

theorem refcount_sound:
  assumes "ops_ok empty_objs xs"
  shows "\<exists>s. obj_run empty_objs xs = Some s
    \<and> (\<forall>p a. get_place s p = Some (Some a) \<longrightarrow> live (objs s) a)
    \<and> (\<forall>a x. obj_at (objs s) a = Some x \<longrightarrow>
         0 < m_nRefCount x \<and> m_nRefCount x = int (count_list (roots s) (Some a) + refs_of (objs s) a))"
proof -
  obtain s where s: "obj_run empty_objs xs = Some s" "obj_inv s"
    using obj_run_inv [OF obj_inv_empty assms] by blast
  have "live (objs s) a" if "get_place s p = Some (Some a)" for p a
    using get_place_live [OF s(2) that] by (auto simp: live_def obj_at_def split: if_splits)
  moreover have "0 < m_nRefCount x \<and> m_nRefCount x = int (count_list (roots s) (Some a) + refs_of (objs s) a)"
    if x: "obj_at (objs s) a = Some x" for a x
  proof -
    have "m_nRefCount x = int (holders [] (objs s) (roots s) a)" "m_nRefCount x \<noteq> 0"
      using s(2) x by (simp_all add: obj_inv_def count_ok_at count_at_def free_ok_Nil)
    then show ?thesis by (simp add: holders_def)
  qed
  ultimately show ?thesis using s(1) by blast
qed

text \<open>
  The two sessions of a call are made each other's opposite, as \<open>MPSipSessionAV\<close> does, the opposites are
  set to NULL when the call ends, and the sessions are released: both are deleted. Without the step that
  sets the opposites to NULL they keep each other alive.
\<close>

definition sample_call :: "obj_op list" where
  "sample_call = [New [None], New [None]] @ set_opposite 0 0 (Copy (Root 1)) 2 @ set_opposite 1 0 (Copy (Root 0)) 3"

definition sample_end :: "obj_op list" where
  "sample_end = set_opposite 0 0 (Wrap None) 4 @ set_opposite 1 0 (Wrap None) 5"

theorem refcount_sound_witness:
  "\<exists>s. obj_run empty_objs (sample_call @ sample_end @ [Destroy 0, Destroy 1]) = Some s \<and> \<not> live (objs s) 0 \<and> \<not> live (objs s) 1"
proof -
  let ?ops = "sample_call @ sample_end @ [Destroy 0, Destroy 1]"
  have "ops_ok empty_objs ?ops" by code_simp
  from refcount_sound [OF this] obtain s where "obj_run empty_objs ?ops = Some s" by blast
  moreover have "map_option objs (obj_run empty_objs ?ops) = Some [None, None]" by code_simp
  ultimately show ?thesis by (auto simp: live_def)
qed

lemma opposites_leak: "map_option (\<lambda>s. live (objs s) 0 \<and> live (objs s) 1) (obj_run empty_objs (sample_call @ [Destroy 0, Destroy 1])) = Some True"
  by code_simp

text \<open>
  Self-assignment is not safe: when a wrapper is the only holder of a leaf object, assigning the
  wrapper to itself deletes the object and leaves the wrapper NULL, and assigning it its own raw
  pointer takes a reference on the deleted object.
\<close>

theorem self_assignment_deletes:
  assumes "i < length (roots s)" "roots s ! i = Some a"
    and "obj_at (objs s) a = Some x" "m_nRefCount x = 1" "members x = []"
  shows "(\<exists>s'. obj_step s (AssignWrapper (Root i) (Root i)) = Some s' \<and> roots s' ! i = None \<and> obj_at (objs s') a = None)
    \<and> obj_step s (AssignRaw (Root i) (Some a)) = None"
proof -
  have a: "a < length (objs s)" "objs s ! a = Some x" using obj_at_nth [OF assms(3)] by auto
  have "obj_at ((objs s)[a := Some (x\<lparr>m_nRefCount := 0, members := []\<rparr>)]) a = Some (x\<lparr>m_nRefCount := 0, members := []\<rparr>)"
    and none: "obj_at ((objs s)[a := None]) a = None"
    using a by (simp_all add: obj_at_def)
  then have "run_work [Rel (Some a)] (objs s) = Some ((objs s)[a := None])"
    using assms(3-5) by (simp add: INT_MIN_def)
  then have "wrapper_releaseRef (objs s) (Some a) = Some ((objs s)[a := None], None)"
    using assms(3,4) by (simp add: wrapper_releaseRef_def)
  then have "release_place s (Root i) = Some (s\<lparr>objs := (objs s)[a := None], roots := (roots s)[i := None]\<rparr>)"
    using assms(1,2) by (simp add: release_place_def get_place_def WrapMPObject_def set_place_def)
  then show ?thesis using assms(1,2) none
    by (simp add: obj_step_def assign_wrapper_def assign_raw_def wrap_and_take_def WrapMPObject_def get_place_def set_place_def
        wrapper_takeRef_def MPObject_takeRef_def)
qed

theorem self_assignment_deletes_witness:
  "obj_step \<lparr>objs = [Some \<lparr>m_nRefCount = 1, members = []\<rparr>], roots = [Some 0]\<rparr> (AssignRaw (Root 0) (Some 0)) = None"
  using self_assignment_deletes [of 0 "\<lparr>objs = [Some \<lparr>m_nRefCount = 1, members = []\<rparr>], roots = [Some 0]\<rparr>" 0
      "\<lparr>m_nRefCount = 1, members = []\<rparr>"]
  by (simp add: obj_at_def)

end
