(* ===== verification/Plugins.thy ===== *)
theory Plugins
  imports Registry
begin

text \<open>
  The media path: \<open>MPProxyPlugin\<close> and its four kinds (audio and video, consumer and producer)
  and the table \<open>MPProxyPluginMgr\<close>. A consumer receives decoded media of one leg and hands it
  to the producer of the opposite leg. Plugin objects outlive their entry in the table (the
  opposite consumer still holds a reference), so objects live in a list of their own and the
  table maps ids to references into it.
\<close>

section \<open>Plugin objects\<close>

text \<open>\<open>int\<close> and \<open>unsigned\<close> parameters are compared and assigned to each other: 32-bit words.\<close>

type_synonym i32 = "32 word"

datatype plugin_kind = AudioProducer | VideoProducer | AudioConsumer | VideoConsumer

text \<open>
  \<open>p1\<close>, \<open>p2\<close>, \<open>p3\<close> are ptime, rate and channels of an audio plugin, width, height and frames
  per second of a video plugin. \<open>m_bPrepared\<close> is not initialised by the constructor: \<open>None\<close>
  stands for an indeterminate value. \<open>m_bByPass\<close> is \<open>m_bByPassEncoding\<close> of a producer and
  \<open>m_bByPassDecoding\<close> of a consumer.
\<close>

record MPProxyPlugin =
  pl_kind :: plugin_kind
  pl_nId :: u64
  m_bValid :: bool
  m_bPrepared :: "bool option"
  pl_bStarted :: bool
  m_bPaused :: bool
  p1 :: i32
  p2 :: i32
  p3 :: i32
  m_bByPass :: bool
  m_oProducerOpposite :: "nat option"

definition MP_AUDIO_PTIME_DEFAULT :: i32 where "MP_AUDIO_PTIME_DEFAULT = 20"
definition MP_AUDIO_RATE_DEFAULT :: i32 where "MP_AUDIO_RATE_DEFAULT = 8000"
definition MP_AUDIO_CHANNELS_DEFAULT :: i32 where "MP_AUDIO_CHANNELS_DEFAULT = 1"
definition MP_VIDEO_WIDTH_DEFAULT :: i32 where "MP_VIDEO_WIDTH_DEFAULT = 1280"
definition MP_VIDEO_HEIGHT_DEFAULT :: i32 where "MP_VIDEO_HEIGHT_DEFAULT = 720"
definition MP_VIDEO_FPS_DEFAULT :: i32 where "MP_VIDEO_FPS_DEFAULT = 15"

text \<open>The base constructor, then the four derived ones with the current bypass defaults.\<close>

definition new_MPProxyPlugin :: "plugin_kind \<Rightarrow> u64 \<Rightarrow> MPProxyPlugin" where
  "new_MPProxyPlugin k i = \<lparr>pl_kind = k, pl_nId = i, m_bValid = True, m_bPrepared = None,
     pl_bStarted = False, m_bPaused = False, p1 = 0, p2 = 0, p3 = 0, m_bByPass = False,
     m_oProducerOpposite = None\<rparr>"

definition new_MPProxyPluginProducerAudio :: "bool \<Rightarrow> u64 \<Rightarrow> MPProxyPlugin" where
  "new_MPProxyPluginProducerAudio bypassEnc i =
     (new_MPProxyPlugin AudioProducer i)\<lparr>p1 := MP_AUDIO_PTIME_DEFAULT, p2 := MP_AUDIO_RATE_DEFAULT,
        p3 := MP_AUDIO_CHANNELS_DEFAULT, m_bByPass := bypassEnc\<rparr>"

definition new_MPProxyPluginConsumerAudio :: "bool \<Rightarrow> u64 \<Rightarrow> MPProxyPlugin" where
  "new_MPProxyPluginConsumerAudio bypassDec i =
     (new_MPProxyPlugin AudioConsumer i)\<lparr>p1 := MP_AUDIO_PTIME_DEFAULT, p2 := MP_AUDIO_RATE_DEFAULT,
        p3 := MP_AUDIO_CHANNELS_DEFAULT, m_bByPass := bypassDec\<rparr>"

definition new_MPProxyPluginProducerVideo :: "bool \<Rightarrow> u64 \<Rightarrow> MPProxyPlugin" where
  "new_MPProxyPluginProducerVideo bypassEnc i =
     (new_MPProxyPlugin VideoProducer i)\<lparr>p1 := MP_VIDEO_WIDTH_DEFAULT, p2 := MP_VIDEO_HEIGHT_DEFAULT,
        p3 := MP_VIDEO_FPS_DEFAULT, m_bByPass := bypassEnc\<rparr>"

definition new_MPProxyPluginConsumerVideo :: "bool \<Rightarrow> u64 \<Rightarrow> MPProxyPlugin" where
  "new_MPProxyPluginConsumerVideo bypassDec i =
     (new_MPProxyPlugin VideoConsumer i)\<lparr>p1 := MP_VIDEO_WIDTH_DEFAULT, p2 := MP_VIDEO_HEIGHT_DEFAULT,
        p3 := MP_VIDEO_FPS_DEFAULT, m_bByPass := bypassDec\<rparr>"

text \<open>The callbacks of the media engine: the same four for every kind.\<close>

datatype plugin_event = Prepare i32 i32 i32 | Start | Pause | Stop

definition prepareCallback :: "i32 \<Rightarrow> i32 \<Rightarrow> i32 \<Rightarrow> MPProxyPlugin \<Rightarrow> MPProxyPlugin" where
  "prepareCallback a b c p = p\<lparr>p1 := a, p2 := b, p3 := c, m_bPrepared := Some True\<rparr>"

definition startCallback :: "MPProxyPlugin \<Rightarrow> MPProxyPlugin" where
  "startCallback p = p\<lparr>pl_bStarted := True\<rparr>"

definition pauseCallback :: "MPProxyPlugin \<Rightarrow> MPProxyPlugin" where
  "pauseCallback p = p\<lparr>m_bPaused := True\<rparr>"

definition stopCallback :: "MPProxyPlugin \<Rightarrow> MPProxyPlugin" where
  "stopCallback p = p\<lparr>pl_bStarted := False\<rparr>"

fun plugin_callback :: "plugin_event \<Rightarrow> MPProxyPlugin \<Rightarrow> MPProxyPlugin" where
  "plugin_callback (Prepare a b c) p = prepareCallback a b c p"
| "plugin_callback Start p = startCallback p"
| "plugin_callback Pause p = pauseCallback p"
| "plugin_callback Stop p = stopCallback p"

section \<open>Producers\<close>

text \<open>
  What a producer asks of the plugin it wraps (tinyWRAP's \<open>ProxyAudioProducer\<close> and
  \<open>ProxyVideoProducer\<close>), with the answers as parameters.
\<close>

datatype media_action =
    SetActualSndCardRecordParams u64 i32 i32 i32
  | SetActualCameraOutputSize u64 i32 i32
  | PushAudio u64 string
  | PushVideo u64 string
  | SendRaw u64 string

record producer_api =
  setSndCard_ok :: "i32 \<Rightarrow> i32 \<Rightarrow> i32 \<Rightarrow> bool"
  setCamera_ok :: "i32 \<Rightarrow> i32 \<Rightarrow> bool"
  push_ret :: "string \<Rightarrow> int"
  sendRaw_ret :: "string \<Rightarrow> int"

definition push_audio ::
  "producer_api \<Rightarrow> string \<Rightarrow> i32 \<Rightarrow> i32 \<Rightarrow> i32 \<Rightarrow> MPProxyPlugin \<Rightarrow> MPProxyPlugin \<times> int \<times> media_action list" where
  "push_audio api buf nPtime nRate nChannels p =
     (if pl_bStarted p then
        if p1 p \<noteq> nPtime \<or> p2 p \<noteq> nRate \<or> p3 p \<noteq> nChannels then
          let q = p\<lparr>p1 := nPtime, p2 := nRate, p3 := nChannels\<rparr>;
              acts = [SetActualSndCardRecordParams (pl_nId p) nPtime nRate nChannels]
          in if \<not> setSndCard_ok api nPtime nRate nChannels then (q, -1, acts)
             else (q, push_ret api buf, acts @ [PushAudio (pl_nId p) buf])
        else (p, push_ret api buf, [PushAudio (pl_nId p) buf])
      else (p, 0, []))"

definition push_video ::
  "producer_api \<Rightarrow> string \<Rightarrow> i32 \<Rightarrow> i32 \<Rightarrow> MPProxyPlugin \<Rightarrow> MPProxyPlugin \<times> int \<times> media_action list" where
  "push_video api buf nWidth nHeight p =
     (if \<not> pl_bStarted p then (p, 0, [])
      else if m_bValid p then
        if p1 p \<noteq> nWidth \<or> p2 p \<noteq> nHeight then
          if \<not> setCamera_ok api nWidth nHeight
          then (p, -1, [SetActualCameraOutputSize (pl_nId p) nWidth nHeight])
          else (p\<lparr>p1 := nWidth, p2 := nHeight\<rparr>, push_ret api buf,
                [SetActualCameraOutputSize (pl_nId p) nWidth nHeight, PushVideo (pl_nId p) buf])
        else (p, push_ret api buf, [PushVideo (pl_nId p) buf])
      else (p, 0, []))"

definition sendRaw ::
  "producer_api \<Rightarrow> string \<Rightarrow> MPProxyPlugin \<Rightarrow> MPProxyPlugin \<times> int \<times> media_action list" where
  "sendRaw api buf p =
     (if pl_bStarted p then (p, sendRaw_ret api buf, [SendRaw (pl_nId p) buf]) else (p, 0, []))"

section \<open>The table of plugins\<close>

record plugin_ref =
  ref_id :: u64
  ref_addr :: nat

record plugin_mgr =
  pm_objects :: "MPProxyPlugin list"
  pm_plugins :: "(u64, plugin_ref) std_map"

definition pm_ok :: "plugin_mgr \<Rightarrow> bool" where
  "pm_ok pm \<longleftrightarrow> map_ok (pm_plugins pm) \<and>
     (\<forall>i r. map_find (pm_plugins pm) i = Some r \<longrightarrow>
        ref_id r = i \<and> ref_addr r < length (pm_objects pm) \<and>
        pl_nId (pm_objects pm ! ref_addr r) = i \<and> m_bValid (pm_objects pm ! ref_addr r))"

definition findPlugin :: "plugin_mgr \<Rightarrow> u64 \<Rightarrow> plugin_ref option" where
  "findPlugin pm i = map_find (pm_plugins pm) i"

definition insertPlugin :: "plugin_ref \<Rightarrow> plugin_mgr \<Rightarrow> plugin_mgr" where
  "insertPlugin r pm = pm\<lparr>pm_plugins := map_insert (ref_id r) r (pm_plugins pm)\<rparr>"

definition invalidate :: "MPProxyPlugin \<Rightarrow> MPProxyPlugin" where
  "invalidate p = p\<lparr>m_bValid := False\<rparr>"

definition erasePlugin :: "u64 \<Rightarrow> plugin_mgr \<Rightarrow> plugin_mgr" where
  "erasePlugin i pm =
     (case findPlugin pm i of
        None \<Rightarrow> pm
      | Some r \<Rightarrow> pm\<lparr>pm_plugins := map_erase i (pm_plugins pm),
                     pm_objects := (pm_objects pm)[ref_addr r := invalidate (pm_objects pm ! ref_addr r)]\<rparr>)"

text \<open>
  \<open>OnPluginCreated\<close>: tinyWRAP's manager is asked for the wrapped plugin first (\<open>found\<close>).
  \<open>OnPluginDestroyed\<close> erases whatever the kind.
\<close>

definition new_plugin :: "bool \<Rightarrow> bool \<Rightarrow> plugin_kind \<Rightarrow> u64 \<Rightarrow> MPProxyPlugin" where
  "new_plugin bypassEnc bypassDec k i =
     (case k of
        AudioProducer \<Rightarrow> new_MPProxyPluginProducerAudio bypassEnc i
      | VideoProducer \<Rightarrow> new_MPProxyPluginProducerVideo bypassEnc i
      | AudioConsumer \<Rightarrow> new_MPProxyPluginConsumerAudio bypassDec i
      | VideoConsumer \<Rightarrow> new_MPProxyPluginConsumerVideo bypassDec i)"

definition OnPluginCreated :: "bool \<Rightarrow> bool \<Rightarrow> (u64 \<Rightarrow> plugin_kind \<Rightarrow> bool) \<Rightarrow> u64 \<Rightarrow> plugin_kind \<Rightarrow> plugin_mgr \<Rightarrow> plugin_mgr" where
  "OnPluginCreated bypassEnc bypassDec found i k pm =
     (if found i k
      then insertPlugin \<lparr>ref_id = i, ref_addr = length (pm_objects pm)\<rparr>
             (pm\<lparr>pm_objects := pm_objects pm @ [new_plugin bypassEnc bypassDec k i]\<rparr>)
      else pm)"

definition OnPluginDestroyed :: "u64 \<Rightarrow> plugin_kind \<Rightarrow> plugin_mgr \<Rightarrow> plugin_mgr" where
  "OnPluginDestroyed i k pm = erasePlugin i pm"

definition setProducerOpposite :: "plugin_ref \<Rightarrow> plugin_ref \<Rightarrow> plugin_mgr \<Rightarrow> plugin_mgr" where
  "setProducerOpposite c p pm =
     pm\<lparr>pm_objects := (pm_objects pm)[ref_addr c := (pm_objects pm ! ref_addr c)\<lparr>m_oProducerOpposite := Some (ref_addr p)\<rparr>]\<rparr>"

text \<open>A callback of the media engine on the object at an address.\<close>

definition on_plugin :: "nat \<Rightarrow> plugin_event \<Rightarrow> plugin_mgr \<Rightarrow> plugin_mgr" where
  "on_plugin a e pm = pm\<lparr>pm_objects := (pm_objects pm)[a := plugin_callback e (pm_objects pm ! a)]\<rparr>"

section \<open>Consumers\<close>

definition run_producer ::
  "nat \<Rightarrow> (MPProxyPlugin \<Rightarrow> MPProxyPlugin \<times> int \<times> media_action list) \<Rightarrow> plugin_mgr \<Rightarrow> plugin_mgr \<times> int \<times> media_action list" where
  "run_producer a f pm =
     (case f (pm_objects pm ! a) of
        (q, ret, acts) \<Rightarrow> (pm\<lparr>pm_objects := (pm_objects pm)[a := q]\<rparr>, ret, acts))"

text \<open>\<open>MPProxyPluginConsumerAudio::consumeCallback\<close> of the consumer at address \<open>a\<close>.\<close>

definition consume_audio ::
  "producer_api \<Rightarrow> nat \<Rightarrow> string \<Rightarrow> plugin_mgr \<Rightarrow> plugin_mgr \<times> int \<times> media_action list" where
  "consume_audio api a buf pm =
     (let c = pm_objects pm ! a in
      case m_oProducerOpposite c of
        Some b \<Rightarrow> if m_bValid (pm_objects pm ! b)
                  then run_producer b (push_audio api buf (p1 c) (p2 c) (p3 c)) pm
                  else (pm, 0, [])
      | None \<Rightarrow> (pm, 0, []))"

text \<open>\<open>MPProxyPluginConsumerVideo::consumeCallback\<close>; a frame carries its own size.\<close>

record video_frame =
  frame_buf :: string
  frame_width :: i32
  frame_height :: i32

definition consume_video ::
  "producer_api \<Rightarrow> nat \<Rightarrow> video_frame option \<Rightarrow> plugin_mgr \<Rightarrow> plugin_mgr \<times> int \<times> media_action list" where
  "consume_video api a frame pm =
     (case (frame, m_oProducerOpposite (pm_objects pm ! a)) of
        (Some f, Some b) \<Rightarrow>
          if m_bValid (pm_objects pm ! b)
          then if m_bByPass (pm_objects pm ! b)
               then run_producer b (sendRaw api (frame_buf f)) pm
               else run_producer b (push_video api (frame_buf f) (frame_width f) (frame_height f)) pm
          else (pm, 0, [])
      | _ \<Rightarrow> (pm, 0, []))"

text \<open>\<open>copyFromHeldBuffer\<close>: the held bytes, then silence up to the requested size.\<close>

definition copyFromHeldBuffer :: "string option \<Rightarrow> nat \<Rightarrow> nat \<Rightarrow> string \<times> nat" where
  "copyFromHeldBuffer held pos n =
     (if n = 0 then ([], 0)
      else let k = (case held of None \<Rightarrow> 0 | Some h \<Rightarrow> min pos n);
               out = (case held of None \<Rightarrow> [] | Some h \<Rightarrow> take k h)
           in (out @ replicate (n - k) (CHR 0x00), k))"

section \<open>The table keeps the registry contract\<close>

interpretation plugins: registry findPlugin insertPlugin
  "\<lambda>i pm. pm\<lparr>pm_plugins := map_erase i (pm_plugins pm)\<rparr>" ref_id "\<lambda>pm. map_ok (pm_plugins pm)"
  by unfold_locales (auto simp: findPlugin_def insertPlugin_def map_find_insert map_find_erase)

lemma erase_find: "map_ok (pm_plugins pm) \<Longrightarrow> findPlugin (erasePlugin i pm) j = (if j = i then None else findPlugin pm j)"
  using plugins.lookup_remove [of pm i j]
  by (auto simp: erasePlugin_def findPlugin_def split: option.splits)

lemma find_ok:
  "pm_ok pm \<Longrightarrow> findPlugin pm i = Some r \<Longrightarrow>
     ref_id r = i \<and> ref_addr r < length (pm_objects pm) \<and> m_bValid (pm_objects pm ! ref_addr r)"
  by (auto simp: pm_ok_def findPlugin_def)

section \<open>Steps of the media path\<close>

text \<open>
  What can happen to the plugins, in any order: the media engine creates a plugin under a new id, calls
  back and destroys those it has, the call logic attaches a consumer to a producer (both found in the
  table), and valid consumers receive media. Nothing is called on a plugin that was destroyed.
\<close>

inductive plugin_step :: "producer_api \<Rightarrow> plugin_mgr \<Rightarrow> media_action list \<Rightarrow> plugin_mgr \<Rightarrow> bool"
  for api :: producer_api where
  created: "findPlugin pm i = None \<Longrightarrow> plugin_step api pm [] (OnPluginCreated be bd found i k pm)"
| destroyed: "findPlugin pm i = Some r \<Longrightarrow> k = pl_kind (pm_objects pm ! ref_addr r) \<Longrightarrow>
     plugin_step api pm [] (OnPluginDestroyed i k pm)"
| event: "a < length (pm_objects pm) \<Longrightarrow> m_bValid (pm_objects pm ! a) \<Longrightarrow> plugin_step api pm [] (on_plugin a e pm)"
| attach: "findPlugin pm i = Some c \<Longrightarrow> findPlugin pm j = Some p \<Longrightarrow>
     plugin_step api pm [] (setProducerOpposite c p pm)"
| audio: "a < length (pm_objects pm) \<Longrightarrow> m_bValid (pm_objects pm ! a) \<Longrightarrow> pl_kind (pm_objects pm ! a) = AudioConsumer \<Longrightarrow>
     consume_audio api a buf pm = (pm', ret, acts) \<Longrightarrow> plugin_step api pm acts pm'"
| video: "a < length (pm_objects pm) \<Longrightarrow> m_bValid (pm_objects pm ! a) \<Longrightarrow> pl_kind (pm_objects pm ! a) = VideoConsumer \<Longrightarrow>
     consume_video api a frame pm = (pm', ret, acts) \<Longrightarrow> plugin_step api pm acts pm'"

inductive plugin_steps :: "producer_api \<Rightarrow> plugin_mgr \<Rightarrow> plugin_mgr \<Rightarrow> bool" for api :: producer_api where
  plugin_none: "plugin_steps api pm pm"
| plugin_more: "plugin_steps api pm pm' \<Longrightarrow> plugin_step api pm' acts pm'' \<Longrightarrow> plugin_steps api pm pm''"

text \<open>References from one object to another stay inside the object list.\<close>

definition opp_ok :: "plugin_mgr \<Rightarrow> bool" where
  "opp_ok pm \<longleftrightarrow> (\<forall>p \<in> set (pm_objects pm). \<forall>b. m_oProducerOpposite p = Some b \<longrightarrow> b < length (pm_objects pm))"

definition plugin_inv :: "plugin_mgr \<Rightarrow> bool" where
  "plugin_inv pm \<longleftrightarrow> pm_ok pm \<and> opp_ok pm"

text \<open>What no step changes in an object: its id and kind; what no step but a removal changes:
  that it is valid.\<close>

definition same_plugin :: "MPProxyPlugin \<Rightarrow> MPProxyPlugin \<Rightarrow> bool" where
  "same_plugin p q \<longleftrightarrow> pl_nId q = pl_nId p \<and> pl_kind q = pl_kind p \<and> m_bValid q = m_bValid p"

lemma same_plugin_refl [simp]: "same_plugin p p"
  by (simp add: same_plugin_def)

lemma same_plugin_callback [simp]: "same_plugin p (plugin_callback e p)"
  by (cases e) (auto simp: same_plugin_def prepareCallback_def startCallback_def pauseCallback_def stopCallback_def)

lemma opposite_callback [simp]: "m_oProducerOpposite (plugin_callback e p) = m_oProducerOpposite p"
  by (cases e) (auto simp: prepareCallback_def startCallback_def pauseCallback_def stopCallback_def)

definition keeps :: "(MPProxyPlugin \<Rightarrow> MPProxyPlugin \<times> int \<times> media_action list) \<Rightarrow> bool" where
  "keeps f \<longleftrightarrow> (\<forall>p q ret acts. f p = (q, ret, acts) \<longrightarrow>
     same_plugin p q \<and> m_oProducerOpposite q = m_oProducerOpposite p)"

lemma keeps_producers [simp]:
  "keeps (push_audio api buf t r c)" "keeps (push_video api buf w h)" "keeps (sendRaw api buf)"
  by (auto simp: keeps_def same_plugin_def push_audio_def push_video_def sendRaw_def Let_def split: if_splits)

text \<open>Replacing an object by one that keeps identity, validity and a bounded opposite.\<close>

lemma plugin_inv_update:
  assumes "plugin_inv pm" "a < length (pm_objects pm)" "same_plugin (pm_objects pm ! a) q"
    and "\<And>b. m_oProducerOpposite q = Some b \<Longrightarrow> b < length (pm_objects pm)"
  shows "plugin_inv (pm\<lparr>pm_objects := (pm_objects pm)[a := q]\<rparr>)"
  using assms unfolding plugin_inv_def pm_ok_def opp_ok_def same_plugin_def
  by (auto simp: nth_list_update dest!: set_update_subset_insert [THEN subsetD])

lemma opp_bound:
  "plugin_inv pm \<Longrightarrow> a < length (pm_objects pm) \<Longrightarrow> m_oProducerOpposite (pm_objects pm ! a) = Some b
     \<Longrightarrow> b < length (pm_objects pm)"
  by (auto simp: plugin_inv_def opp_ok_def)

lemma run_producer_inv:
  assumes "plugin_inv pm" "b < length (pm_objects pm)" "keeps f" "run_producer b f pm = (pm', ret, acts)"
  shows "plugin_inv pm'"
proof -
  obtain q where q: "f (pm_objects pm ! b) = (q, ret, acts)" "pm' = pm\<lparr>pm_objects := (pm_objects pm)[b := q]\<rparr>"
    using assms(4) by (auto simp: run_producer_def split: prod.splits)
  with assms(3) have same: "same_plugin (pm_objects pm ! b) q"
    and "m_oProducerOpposite q = m_oProducerOpposite (pm_objects pm ! b)"
    by (auto simp: keeps_def)
  then have "c < length (pm_objects pm)" if "m_oProducerOpposite q = Some c" for c
    using that opp_bound [OF assms(1,2)] by simp
  with same show ?thesis unfolding q(2) by (intro plugin_inv_update [OF assms(1,2)])
qed

lemma new_plugin_simps [simp]:
  "pl_nId (new_plugin be bd k i) = i" "pl_kind (new_plugin be bd k i) = k"
  "m_bValid (new_plugin be bd k i)" "m_oProducerOpposite (new_plugin be bd k i) = None"
  "\<not> pl_bStarted (new_plugin be bd k i)"
  by (cases k; simp add: new_plugin_def new_MPProxyPlugin_def new_MPProxyPluginProducerAudio_def
      new_MPProxyPluginConsumerAudio_def new_MPProxyPluginProducerVideo_def
      new_MPProxyPluginConsumerVideo_def)+

lemma created_inv: "plugin_inv pm \<Longrightarrow> plugin_inv (OnPluginCreated be bd found i k pm)"
  unfolding plugin_inv_def pm_ok_def opp_ok_def OnPluginCreated_def insertPlugin_def
  by (auto simp: map_find_insert nth_append less_Suc_eq dest: less_trans split: if_splits)

lemma erase_inv: "plugin_inv pm \<Longrightarrow> plugin_inv (erasePlugin i pm)"
proof (cases "findPlugin pm i")
  case None
  then show "plugin_inv pm \<Longrightarrow> plugin_inv (erasePlugin i pm)" by (simp add: erasePlugin_def)
next
  case (Some r)
  assume inv: "plugin_inv pm"
  let ?objs = "(pm_objects pm)[ref_addr r := invalidate (pm_objects pm ! ref_addr r)]"
  have ok: "pm_ok pm" using inv by (simp add: plugin_inv_def)
  have r: "ref_addr r < length (pm_objects pm)" "pl_nId (pm_objects pm ! ref_addr r) = i"
    using ok Some by (auto simp: pm_ok_def findPlugin_def)
  have "ref_id r' = j \<and> ref_addr r' < length ?objs \<and> pl_nId (?objs ! ref_addr r') = j \<and> m_bValid (?objs ! ref_addr r')"
    if "map_find (map_erase i (pm_plugins pm)) j = Some r'" for j r'
  proof -
    from that have j: "j \<noteq> i" "map_find (pm_plugins pm) j = Some r'"
      by (auto simp: map_find_erase split: if_splits)
    with ok have r': "ref_id r' = j" "ref_addr r' < length (pm_objects pm)"
      "pl_nId (pm_objects pm ! ref_addr r') = j" "m_bValid (pm_objects pm ! ref_addr r')"
      by (auto simp: pm_ok_def)
    with j(1) r(2) have "ref_addr r' \<noteq> ref_addr r" by metis
    with r' show ?thesis by simp
  qed
  with ok Some have "pm_ok (erasePlugin i pm)" by (simp add: pm_ok_def erasePlugin_def)
  moreover have "opp_ok (erasePlugin i pm)"
    using inv Some r(1) opp_bound [OF inv r(1)]
    by (auto simp: plugin_inv_def opp_ok_def erasePlugin_def invalidate_def
        dest!: set_update_subset_insert [THEN subsetD])
  ultimately show ?thesis by (simp add: plugin_inv_def)
qed

lemma consume_audio_inv:
  "plugin_inv pm \<Longrightarrow> a < length (pm_objects pm) \<Longrightarrow> consume_audio api a buf pm = (pm', ret, acts) \<Longrightarrow> plugin_inv pm'"
  by (auto simp: consume_audio_def Let_def split: option.splits if_splits dest: opp_bound intro: run_producer_inv [OF _ opp_bound keeps_producers(1)])

lemma consume_video_inv:
  "plugin_inv pm \<Longrightarrow> a < length (pm_objects pm) \<Longrightarrow> consume_video api a f pm = (pm', ret, acts) \<Longrightarrow> plugin_inv pm'"
  by (auto simp: consume_video_def Let_def split: option.splits if_splits
      intro: run_producer_inv [OF _ opp_bound keeps_producers(2)] run_producer_inv [OF _ opp_bound keeps_producers(3)])

lemma attach_inv:
  assumes "plugin_inv pm" "findPlugin pm i = Some c" "findPlugin pm j = Some p"
  shows "plugin_inv (setProducerOpposite c p pm)"
proof -
  have "ref_addr c < length (pm_objects pm)" "ref_addr p < length (pm_objects pm)"
    using assms by (auto simp: plugin_inv_def dest: find_ok)
  then show ?thesis
    unfolding setProducerOpposite_def using assms(1)
    by (intro plugin_inv_update) (auto simp: same_plugin_def)
qed

lemma event_inv:
  assumes "plugin_inv pm" "a < length (pm_objects pm)"
  shows "plugin_inv (on_plugin a e pm)"
  unfolding on_plugin_def using assms opp_bound [OF assms]
  by (intro plugin_inv_update) auto

lemma plugin_step_inv [w2s_inv]: "plugin_step api pm acts pm' \<Longrightarrow> plugin_inv pm \<Longrightarrow> plugin_inv pm'"
  by (induction rule: plugin_step.induct)
    (auto simp: OnPluginDestroyed_def intro: created_inv erase_inv event_inv attach_inv
      consume_audio_inv consume_video_inv)

lemma plugin_steps_inv: "plugin_steps api pm pm' \<Longrightarrow> plugin_inv pm \<Longrightarrow> plugin_inv pm'"
  by (induction rule: plugin_steps.induct) (auto intro: plugin_step_inv)

section \<open>An invalidated object stays invalid\<close>

definition dead :: "nat \<Rightarrow> plugin_mgr \<Rightarrow> bool" where
  "dead b pm \<longleftrightarrow> b < length (pm_objects pm) \<and> \<not> m_bValid (pm_objects pm ! b)"

lemma dead_update:
  "dead b pm \<Longrightarrow> same_plugin (pm_objects pm ! a) q \<Longrightarrow> dead b (pm\<lparr>pm_objects := (pm_objects pm)[a := q]\<rparr>)"
  by (cases "a = b") (auto simp: dead_def same_plugin_def)

lemma run_producer_dead:
  assumes "dead b pm" "keeps f" "run_producer a f pm = (pm', ret, acts)"
  shows "dead b pm'"
  using assms dead_update [OF assms(1), of a]
  by (auto simp: run_producer_def keeps_def split: prod.splits)

lemma erase_dead: "dead b pm \<Longrightarrow> dead b (erasePlugin i pm)"
proof (cases "findPlugin pm i")
  case (Some r)
  assume "dead b pm"
  with Some show ?thesis
    by (cases "ref_addr r = b") (auto simp: dead_def erasePlugin_def invalidate_def)
qed (simp add: erasePlugin_def)

lemma plugin_step_dead: "plugin_step api pm acts pm' \<Longrightarrow> dead b pm \<Longrightarrow> dead b pm'"
proof (induction rule: plugin_step.induct)
  case (created pm i be bd found k)
  then show ?case by (auto simp: dead_def OnPluginCreated_def insertPlugin_def nth_append)
next
  case (destroyed pm i r k)
  then show ?case by (simp add: OnPluginDestroyed_def erase_dead)
next
  case (event a pm e)
  then show ?case by (simp add: on_plugin_def dead_update)
next
  case (attach pm i c j p)
  then show ?case by (simp add: setProducerOpposite_def dead_update same_plugin_def)
next
  case (audio a pm buf pm' ret acts)
  then show ?case
    by (auto simp: consume_audio_def Let_def split: option.splits if_splits intro: run_producer_dead [OF _ keeps_producers(1)])
next
  case (video a pm frame pm' ret acts)
  then show ?case
    by (auto simp: consume_video_def Let_def split: option.splits if_splits
        intro: run_producer_dead [OF _ keeps_producers(2)] run_producer_dead [OF _ keeps_producers(3)])
qed

lemma plugin_steps_dead: "plugin_steps api pm pm' \<Longrightarrow> dead b pm \<Longrightarrow> dead b pm'"
  by (induction rule: plugin_steps.induct) (auto intro: plugin_step_dead)

lemma erase_kills: "plugin_inv pm \<Longrightarrow> findPlugin pm i = Some r \<Longrightarrow> dead (ref_addr r) (erasePlugin i pm)"
  by (auto simp: plugin_inv_def dead_def erasePlugin_def invalidate_def dest: find_ok)

lemma consume_dead:
  assumes "dead b pm" "m_oProducerOpposite (pm_objects pm ! a) = Some b"
  shows "consume_audio api a buf pm = (pm, 0, [])" "consume_video api a f pm = (pm, 0, [])"
  using assms by (auto simp: consume_audio_def consume_video_def dead_def Let_def split: option.splits)

definition empty_plugins :: plugin_mgr where
  "empty_plugins = \<lparr>pm_objects = [], pm_plugins = []\<rparr>"

lemma plugin_inv_empty [simp]: "plugin_inv empty_plugins"
  by (simp add: plugin_inv_def pm_ok_def opp_ok_def empty_plugins_def map_find_def)

section \<open>Properties of the media path\<close>

text \<open>Media never reaches a plugin the media engine has destroyed: once \<open>OnPluginDestroyed\<close>
  ran for a registered plugin, then whatever happens next (including a new plugin under the same
  id), a consumer that is still attached to it forwards nothing, audio or video, and changes
  nothing.\<close>

theorem destroyed_plugin_gets_no_media:
  assumes "plugin_inv pm" "findPlugin pm i = Some r"
    and "plugin_steps api (OnPluginDestroyed i k pm) pm'"
    and "m_oProducerOpposite (pm_objects pm' ! a) = Some (ref_addr r)"
  shows "consume_audio api a buf pm' = (pm', 0, []) \<and> consume_video api a f pm' = (pm', 0, [])"
proof -
  have "dead (ref_addr r) (OnPluginDestroyed i k pm)"
    using assms(1,2) by (simp add: OnPluginDestroyed_def erase_kills)
  with assms(3) have "dead (ref_addr r) pm'" by (rule plugin_steps_dead)
  with assms(4) show ?thesis by (simp add: consume_dead)
qed

text \<open>A consumer and a producer, created and attached, as concrete data for the witnesses.\<close>

definition demo_api :: producer_api where
  "demo_api = \<lparr>setSndCard_ok = (\<lambda>_ _ _. True), setCamera_ok = (\<lambda>_ _. True), push_ret = (\<lambda>_. 0), sendRaw_ret = (\<lambda>_. 0)\<rparr>"

definition demo_plugins :: plugin_mgr where
  "demo_plugins =
     setProducerOpposite \<lparr>ref_id = 1, ref_addr = 0\<rparr> \<lparr>ref_id = 2, ref_addr = 1\<rparr>
       (OnPluginCreated True True (\<lambda>_ _. True) 2 AudioProducer
          (OnPluginCreated True True (\<lambda>_ _. True) 1 AudioConsumer empty_plugins))"

lemma demo_found [simp]:
  "findPlugin demo_plugins 1 = Some \<lparr>ref_id = 1, ref_addr = 0\<rparr>"
  "findPlugin demo_plugins 2 = Some \<lparr>ref_id = 2, ref_addr = 1\<rparr>"
  by (simp_all add: demo_plugins_def setProducerOpposite_def OnPluginCreated_def insertPlugin_def
      findPlugin_def map_find_def empty_plugins_def)

lemma demo_inv [simp]: "plugin_inv demo_plugins"
  unfolding demo_plugins_def
  by (rule attach_inv [where i = 1 and j = 2])
    (simp_all add: created_inv OnPluginCreated_def insertPlugin_def findPlugin_def map_find_def empty_plugins_def
      plugin_inv_def pm_ok_def opp_ok_def map_ok_def)

theorem destroyed_plugin_gets_no_media_witness:
  "consume_audio demo_api 0 ''x'' (OnPluginDestroyed 2 AudioProducer demo_plugins)
     = (OnPluginDestroyed 2 AudioProducer demo_plugins, 0, [])
   \<and> consume_video demo_api 0 None (OnPluginDestroyed 2 AudioProducer demo_plugins)
     = (OnPluginDestroyed 2 AudioProducer demo_plugins, 0, [])"
  by (rule destroyed_plugin_gets_no_media [OF demo_inv demo_found(2) plugin_none])
    (simp add: OnPluginDestroyed_def erasePlugin_def demo_plugins_def setProducerOpposite_def
      OnPluginCreated_def insertPlugin_def findPlugin_def map_find_def empty_plugins_def)

text \<open>The producer a consumer is attached to, when it is able to send.\<close>

definition attached :: "plugin_mgr \<Rightarrow> nat \<Rightarrow> nat \<Rightarrow> bool" where
  "attached pm a b \<longleftrightarrow> m_oProducerOpposite (pm_objects pm ! a) = Some b \<and> a \<noteq> b \<and>
     b < length (pm_objects pm) \<and> m_bValid (pm_objects pm ! b) \<and> pl_bStarted (pm_objects pm ! b)"

definition same_audio_params :: "MPProxyPlugin \<Rightarrow> MPProxyPlugin \<Rightarrow> bool" where
  "same_audio_params c p \<longleftrightarrow> p1 p = p1 c \<and> p2 p = p2 c \<and> p3 p = p3 c"

lemma consume_audio_attached:
  "attached pm a b \<Longrightarrow> consume_audio api a buf pm =
     run_producer b (push_audio api buf (p1 (pm_objects pm ! a)) (p2 (pm_objects pm ! a)) (p3 (pm_objects pm ! a))) pm"
  by (simp add: consume_audio_def attached_def Let_def)

lemma push_audio_same:
  "pl_bStarted p \<Longrightarrow> same_audio_params c p \<Longrightarrow>
     push_audio api buf (p1 c) (p2 c) (p3 c) p = (p, push_ret api buf, [PushAudio (pl_nId p) buf])"
  by (simp add: push_audio_def same_audio_params_def)

text \<open>After any push attempt by a started producer, it records the consumer's parameters.\<close>

lemma push_audio_records:
  assumes "pl_bStarted p" "push_audio api buf (p1 c) (p2 c) (p3 c) p = (q, ret, acts)"
  shows "same_audio_params c q \<and> pl_bStarted q \<and> m_bValid q = m_bValid p \<and> pl_nId q = pl_nId p"
  using assms by (auto simp: push_audio_def same_audio_params_def Let_def split: if_splits)

lemma consume_audio_again:
  assumes "attached pm a b" "consume_audio api a buf pm = (pm', ret, acts)"
  shows "consume_audio api a buf' pm' = (pm', push_ret api buf', [PushAudio (pl_nId (pm_objects pm ! b)) buf'])"
proof -
  let ?c = "pm_objects pm ! a"
  obtain q where q: "push_audio api buf (p1 ?c) (p2 ?c) (p3 ?c) (pm_objects pm ! b) = (q, ret, acts)"
      "pm' = pm\<lparr>pm_objects := (pm_objects pm)[b := q]\<rparr>"
    using assms(2) unfolding consume_audio_attached [OF assms(1)] run_producer_def
    by (auto split: prod.splits)
  have rec: "same_audio_params ?c q \<and> pl_bStarted q \<and> m_bValid q = m_bValid (pm_objects pm ! b) \<and>
      pl_nId q = pl_nId (pm_objects pm ! b)"
    using assms(1) q(1) by (intro push_audio_records [of _ api buf ?c]) (simp_all add: attached_def)
  then have att: "attached pm' a b" using assms(1) q(2) by (simp add: attached_def)
  have "pm_objects pm' ! a = ?c" using assms(1) q(2) by (simp add: attached_def)
  then have "consume_audio api a buf' pm' = run_producer b (push_audio api buf' (p1 ?c) (p2 ?c) (p3 ?c)) pm'"
    by (simp only: consume_audio_attached [OF att])
  also have "\<dots> = (pm', push_ret api buf', [PushAudio (pl_nId (pm_objects pm ! b)) buf'])"
    using push_audio_same [of q ?c api buf'] rec assms(1) q(2) by (simp add: run_producer_def attached_def)
  finally show ?thesis .
qed

text \<open>Audio forwarding: what a consumer hands to a started, valid opposite producer is sent
  unchanged and exactly once; the resampler is requested first, and only when the parameters of
  the two sides differ; the next packet needs no new request.\<close>

theorem audio_forwarding:
  assumes "attached pm a b"
    and "setSndCard_ok api (p1 (pm_objects pm ! a)) (p2 (pm_objects pm ! a)) (p3 (pm_objects pm ! a))"
    and "consume_audio api a buf pm = (pm', ret, acts)"
  shows "ret = push_ret api buf \<and>
    acts = (if same_audio_params (pm_objects pm ! a) (pm_objects pm ! b) then []
            else [SetActualSndCardRecordParams (pl_nId (pm_objects pm ! b))
                    (p1 (pm_objects pm ! a)) (p2 (pm_objects pm ! a)) (p3 (pm_objects pm ! a))])
           @ [PushAudio (pl_nId (pm_objects pm ! b)) buf] \<and>
    consume_audio api a buf' pm' = (pm', push_ret api buf', [PushAudio (pl_nId (pm_objects pm ! b)) buf'])"
  using consume_audio_again [OF assms(1,3)] assms
  unfolding consume_audio_attached [OF assms(1)] run_producer_def push_audio_def
  by (auto simp: attached_def same_audio_params_def Let_def split: if_splits)

definition demo_started :: plugin_mgr where
  "demo_started = on_plugin 0 (Prepare 20 16000 1) (on_plugin 1 Start demo_plugins)"

lemma demo_started_simps [simp]:
  "pm_objects demo_started = [prepareCallback 20 16000 1 ((new_plugin True True AudioConsumer 1)\<lparr>m_oProducerOpposite := Some 1\<rparr>),
     startCallback (new_plugin True True AudioProducer 2)]"
  by (simp add: demo_started_def demo_plugins_def on_plugin_def setProducerOpposite_def
      OnPluginCreated_def insertPlugin_def empty_plugins_def)

lemma demo_attached [simp]: "attached demo_started 0 1"
  by (simp add: attached_def prepareCallback_def startCallback_def)

theorem audio_forwarding_witness:
  "\<exists>pm' ret acts. consume_audio demo_api 0 ''a'' demo_started = (pm', ret, acts) \<and>
     ret = push_ret demo_api ''a'' \<and>
     consume_audio demo_api 0 ''b'' pm' = (pm', 0, [PushAudio 2 ''b''])"
proof -
  obtain pm' ret acts where *: "consume_audio demo_api 0 ''a'' demo_started = (pm', ret, acts)"
    by (metis prod.exhaust)
  have ok: "setSndCard_ok demo_api (p1 (pm_objects demo_started ! 0)) (p2 (pm_objects demo_started ! 0))
      (p3 (pm_objects demo_started ! 0))"
    by (simp add: demo_api_def)
  from audio_forwarding [OF demo_attached ok *, of "''b''"] * show ?thesis
    by (auto simp: startCallback_def demo_api_def)
qed

text \<open>A refused resampler is recorded as if it had been set up: when the parameters differ
  and the sound-card parameters cannot be set, the packet is dropped with -1, but the producer
  already stores the new parameters, so the next packet is sent although no resampler exists.\<close>

theorem refused_resampler_is_forgotten:
  assumes "attached pm a b"
    and "\<not> same_audio_params (pm_objects pm ! a) (pm_objects pm ! b)"
    and "\<not> setSndCard_ok api (p1 (pm_objects pm ! a)) (p2 (pm_objects pm ! a)) (p3 (pm_objects pm ! a))"
    and "consume_audio api a buf pm = (pm', ret, acts)"
  shows "ret = -1 \<and>
    consume_audio api a buf' pm' = (pm', push_ret api buf', [PushAudio (pl_nId (pm_objects pm ! b)) buf'])"
  using consume_audio_again [OF assms(1,4)] assms
  unfolding consume_audio_attached [OF assms(1)] run_producer_def push_audio_def
  by (auto simp: attached_def same_audio_params_def Let_def split: if_splits)

theorem refused_resampler_is_forgotten_witness:
  "let api = demo_api\<lparr>setSndCard_ok := (\<lambda>_ _ _. False)\<rparr>;
       pm' = fst (consume_audio api 0 ''a'' demo_started)
   in fst (snd (consume_audio api 0 ''a'' demo_started)) = -1 \<and>
      consume_audio api 0 ''b'' pm' = (pm', 0, [PushAudio 2 ''b''])"
proof -
  let ?api = "demo_api\<lparr>setSndCard_ok := (\<lambda>_ _ _. False)\<rparr>"
  obtain pm' ret acts where *: "consume_audio ?api 0 ''a'' demo_started = (pm', ret, acts)"
    by (metis prod.exhaust)
  have d: "\<not> same_audio_params (pm_objects demo_started ! 0) (pm_objects demo_started ! 1)"
    by (simp add: same_audio_params_def prepareCallback_def startCallback_def new_plugin_def
        new_MPProxyPluginProducerAudio_def MP_AUDIO_RATE_DEFAULT_def)
  from refused_resampler_is_forgotten [OF demo_attached d _ *, of "''b''"] * show ?thesis
    by (simp add: Let_def startCallback_def demo_api_def)
qed

end
