(* ===== verification/Proxy.thy ===== *)
theory Proxy
  imports Plugins
begin

text \<open>
  The layer between the media engine and the plugins of the gateway (\<open>tinywrap/ProxyPluginMgr\<close>,
  \<open>ProxyConsumer\<close>, \<open>ProxyProducer\<close>). The engine creates, calls and destroys its own consumer and producer
  objects; each has a proxy in the list of the manager, found by its id, and the proxy has a callback,
  the plugin of the gateway (theory \<open>Plugins\<close>). This theory models both sides together: the calls of
  the engine as steps on one state, and what they do to the table of the gateway.

  A proxy is identified by its id, which the counter of the manager gives once. The engine behind the
  objects (codecs, jitter buffers, encoders) is a parameter.
\<close>

section \<open>State\<close>

text \<open>
  An object of the engine: \<open>twrap_consumer_proxy_audio_t\<close> and its three companions with the parameters they
  keep in their base. \<open>tw_alive\<close> is false after the destructor, \<open>tw_pcConsumer\<close> the cached proxy.
\<close>

record twrap =
  tw_kind :: plugin_kind
  tw_id :: u64
  tw_started :: bool
  tw_alive :: bool
  tw_pcConsumer :: "u64 option"
  tw_ptime :: i32
  tw_rate :: i32
  tw_channels :: i32
  tw_out_rate :: i32
  tw_out_channels :: i32
  tw_fps :: i32
  tw_width :: i32
  tw_height :: i32
  tw_display_width :: i32
  tw_display_height :: i32

definition new_twrap :: "plugin_kind \<Rightarrow> u64 \<Rightarrow> twrap" where
  "new_twrap k i = \<lparr>tw_kind = k, tw_id = i, tw_started = False, tw_alive = True, tw_pcConsumer = None, tw_ptime = 0, tw_rate = 0,
     tw_channels = 0, tw_out_rate = 0, tw_out_channels = 0, tw_fps = 0, tw_width = 0, tw_height = 0,
     tw_display_width = 0, tw_display_height = 0\<rparr>"

text \<open>A proxy; its callback is the address of the plugin of the gateway that set it.\<close>

record ProxyPlugin =
  px_id :: u64
  px_type :: plugin_kind
  px_pCallback :: "nat option"
  px_pWrappedPlugin :: nat

record bridge =
  br_uniqueId :: u64
  br_instance :: bool
  br_plugins :: "ProxyPlugin list"
  br_media :: "twrap list"
  br_gateway :: plugin_mgr

text \<open>What the engine tells with a codec: decoding side, encoding side.\<close>

record codec =
  cd_ptime_dec :: i32
  cd_rate_dec :: i32
  cd_channels_dec :: i32
  cd_ptime_enc :: i32
  cd_rate_enc :: i32
  cd_channels_enc :: i32
  cd_in_width :: i32
  cd_in_height :: i32
  cd_in_fps :: i32
  cd_out_width :: i32
  cd_out_height :: i32
  cd_out_fps :: i32

definition set_media :: "nat \<Rightarrow> (twrap \<Rightarrow> twrap) \<Rightarrow> bridge \<Rightarrow> bridge" where
  "set_media w f st = st\<lparr>br_media := (br_media st)[w := f (br_media st ! w)]\<rparr>"

definition set_gateway :: "(plugin_mgr \<Rightarrow> plugin_mgr) \<Rightarrow> bridge \<Rightarrow> bridge" where
  "set_gateway f st = st\<lparr>br_gateway := f (br_gateway st)\<rparr>"

section \<open>The manager\<close>

definition getUniqueId :: "bridge \<Rightarrow> u64 \<times> bridge" where
  "getUniqueId st = (br_uniqueId st + 1, st\<lparr>br_uniqueId := br_uniqueId st + 1\<rparr>)"

definition px_find :: "u64 \<Rightarrow> ProxyPlugin list \<Rightarrow> ProxyPlugin option" where
  "px_find i ps = find (\<lambda>p. px_id p = i) ps"

text \<open>\<open>findAudioConsumer\<close> and the other three.\<close>

definition px_find_kind :: "plugin_kind \<Rightarrow> u64 \<Rightarrow> ProxyPlugin list \<Rightarrow> ProxyPlugin option" where
  "px_find_kind k i ps = (case px_find i ps of Some p \<Rightarrow> if px_type p = k then Some p else None | None \<Rightarrow> None)"

definition addPlugin :: "ProxyPlugin \<Rightarrow> bridge \<Rightarrow> int \<times> bridge" where
  "addPlugin p st =
     (if px_find (px_id p) (br_plugins st) \<noteq> None then (-1, st) else (0, st\<lparr>br_plugins := br_plugins st @ [p]\<rparr>))"

fun remove_first :: "u64 \<Rightarrow> ProxyPlugin list \<Rightarrow> ProxyPlugin list" where
  "remove_first i [] = []"
| "remove_first i (p # ps) = (if px_id p = i then ps else p # remove_first i ps)"

definition removePlugin :: "u64 \<Rightarrow> bridge \<Rightarrow> int \<times> bridge" where
  "removePlugin i st = (0, st\<lparr>br_plugins := remove_first i (br_plugins st)\<rparr>)"

text \<open>
  \<open>OnPluginCreated\<close> of the gateway: it looks the proxy up in this manager, and its new plugin sets itself as
  the callback of the proxy.
\<close>

definition setCallback :: "u64 \<Rightarrow> nat \<Rightarrow> bridge \<Rightarrow> bridge" where
  "setCallback i a st = st\<lparr>br_plugins := map (\<lambda>p. if px_id p = i then p\<lparr>px_pCallback := Some a\<rparr> else p) (br_plugins st)\<rparr>"

definition gateway_created :: "bool \<Rightarrow> bool \<Rightarrow> u64 \<Rightarrow> plugin_kind \<Rightarrow> bridge \<Rightarrow> bridge" where
  "gateway_created be bd i k st =
     (let found = (\<lambda>i k. px_find_kind k i (br_plugins st) \<noteq> None);
          st1 = set_gateway (OnPluginCreated be bd found i k) st
      in if found i k then setCallback i (length (pm_objects (br_gateway st))) st1 else st1)"

section \<open>Construction and destruction\<close>

text \<open>\<open>twrap_consumer_proxy_audio_ctor\<close> and the other three constructors.\<close>

definition twrap_ctor :: "bool \<Rightarrow> bool \<Rightarrow> plugin_kind \<Rightarrow> bridge \<Rightarrow> bridge" where
  "twrap_ctor be bd k st =
     (let w = length (br_media st) in
      if br_instance st then
        case getUniqueId st of (i, st1) \<Rightarrow>
          let st2 = st1\<lparr>br_media := br_media st1 @ [new_twrap k i]\<rparr>;
              st3 = snd (addPlugin \<lparr>px_id = i, px_type = k, px_pCallback = None, px_pWrappedPlugin = w\<rparr> st2)
          in gateway_created be bd i k st3
      else st\<lparr>br_media := br_media st @ [new_twrap k 0]\<rparr>)"

text \<open>The plugin of the gateway behind an object, as every callback finds it.\<close>

definition callback_of :: "nat \<Rightarrow> bridge \<Rightarrow> nat option" where
  "callback_of w st =
     (if br_instance st then
        case px_find_kind (tw_kind (br_media st ! w)) (tw_id (br_media st ! w)) (br_plugins st) of
          Some p \<Rightarrow> px_pCallback p
        | None \<Rightarrow> None
      else None)"

text \<open>A call of the callback: every method of the gateway returns 0.\<close>

definition call_plugin :: "nat option \<Rightarrow> plugin_event \<Rightarrow> bridge \<Rightarrow> int \<times> bridge" where
  "call_plugin cb e st = (case cb of Some a \<Rightarrow> (0, set_gateway (on_plugin a e) st) | None \<Rightarrow> (-1, st))"

text \<open>A producer of audio also starts its push timer, which the gateway does not use.\<close>

definition twrap_start :: "nat \<Rightarrow> bridge \<Rightarrow> int \<times> bridge" where
  "twrap_start w st =
     (case call_plugin (callback_of w st) Start st of
        (ret, st1) \<Rightarrow>
          (ret, if tw_kind (br_media st ! w) = VideoProducer \<and> callback_of w st = None then st1
                else set_media w (\<lambda>m. m\<lparr>tw_started := (ret = 0)\<rparr>) st1))"

definition twrap_pause :: "nat \<Rightarrow> bridge \<Rightarrow> int \<times> bridge" where
  "twrap_pause w st = call_plugin (callback_of w st) Pause st"

text \<open>After a stop that fails the object counts as started.\<close>

definition twrap_stop :: "nat \<Rightarrow> bridge \<Rightarrow> int \<times> bridge" where
  "twrap_stop w st =
     (case call_plugin (callback_of w st) Stop st of
        (ret, st1) \<Rightarrow>
          (ret, if tw_kind (br_media st ! w) = VideoProducer \<and> callback_of w st = None then st1
                else set_media w (\<lambda>m. m\<lparr>tw_started := (ret \<noteq> 0)\<rparr>) st1))"

text \<open>
  \<open>twrap_consumer_proxy_audio_prepare\<close> and the other three: the parameters of the codec an object takes, those
  it gives to its callback, and what a consumer of audio does after the callback, which asks for no
  pivot settings. Without a codec they fail.
\<close>

definition prepared_media :: "codec \<Rightarrow> twrap \<Rightarrow> twrap" where
  "prepared_media c m =
     (case tw_kind m of
        AudioConsumer \<Rightarrow> m\<lparr>tw_ptime := cd_ptime_dec c, tw_channels := cd_channels_dec c, tw_rate := cd_rate_dec c\<rparr>
      | AudioProducer \<Rightarrow> m\<lparr>tw_channels := cd_channels_enc c, tw_rate := cd_rate_enc c, tw_ptime := cd_ptime_enc c\<rparr>
      | VideoConsumer \<Rightarrow>
          m\<lparr>tw_fps := cd_in_fps c, tw_width := cd_in_width c, tw_height := cd_in_height c,
            tw_display_width := (if tw_display_width m = 0 then cd_in_width c else tw_display_width m),
            tw_display_height := (if tw_display_height m = 0 then cd_in_height c else tw_display_height m)\<rparr>
      | VideoProducer \<Rightarrow> m)"

definition prepare_event :: "codec \<Rightarrow> plugin_kind \<Rightarrow> plugin_event" where
  "prepare_event c k =
     (case k of
        AudioConsumer \<Rightarrow> Prepare (cd_ptime_dec c) (cd_rate_dec c) (cd_channels_dec c)
      | AudioProducer \<Rightarrow> Prepare (cd_ptime_enc c) (cd_rate_enc c) (cd_channels_enc c)
      | VideoConsumer \<Rightarrow> Prepare (cd_in_width c) (cd_in_height c) (cd_in_fps c)
      | VideoProducer \<Rightarrow> Prepare (cd_out_width c) (cd_out_height c) (cd_out_fps c))"

definition output_params :: "int \<Rightarrow> twrap \<Rightarrow> twrap" where
  "output_params ret m =
     (if tw_kind m = AudioConsumer \<and> ret = 0 then m\<lparr>tw_out_rate := tw_rate m, tw_out_channels := tw_channels m\<rparr> else m)"

text \<open>A consumer keeps the proxy it finds.\<close>

definition refresh_proxy :: "nat \<Rightarrow> bridge \<Rightarrow> bridge" where
  "refresh_proxy w st =
     (let m = br_media st ! w;
          pc = map_option px_id (px_find_kind (tw_kind m) (tw_id m) (br_plugins st))
      in if br_instance st \<and> tw_kind m \<in> {AudioConsumer, VideoConsumer}
         then set_media w (\<lambda>m. m\<lparr>tw_pcConsumer := pc\<rparr>) st else st)"

definition twrap_prepare :: "codec option \<Rightarrow> nat \<Rightarrow> bridge \<Rightarrow> int \<times> bridge" where
  "twrap_prepare codec w st =
     (case codec of
        None \<Rightarrow> (-1, st)
      | Some c \<Rightarrow>
          let st0 = refresh_proxy w st in
          (case callback_of w st0 of
             None \<Rightarrow> (-1, st0)
           | Some a \<Rightarrow>
               (case call_plugin (Some a) (prepare_event c (tw_kind (br_media st0 ! w))) (set_media w (prepared_media c) st0) of
                  (ret, st1) \<Rightarrow> (ret, set_media w (output_params ret) st1))))"

text \<open>The destructors: stop when started, the notification of the gateway, the removal of the proxy.\<close>

definition twrap_dtor :: "nat \<Rightarrow> bridge \<Rightarrow> bridge" where
  "twrap_dtor w st =
     (let m = br_media st ! w;
          st1 = (if tw_started m then snd (twrap_stop w st) else st);
          st2 = (if br_instance st
                 then snd (removePlugin (tw_id m) (set_gateway (OnPluginDestroyed (tw_id m) (tw_kind m)) st1))
                 else st1)
      in set_media w (\<lambda>m. m\<lparr>tw_alive := False\<rparr>) st2)"

section \<open>Media\<close>

text \<open>
  \<open>audio->pcConsumer\<close>: found once, then kept. A kept proxy that has left the list was deleted, so that
  using it is None in the two definitions after this one.
\<close>

definition cached_proxy :: "nat \<Rightarrow> bridge \<Rightarrow> u64 option \<times> bridge" where
  "cached_proxy w st =
     (let m = br_media st ! w in
      case tw_pcConsumer m of
        Some i \<Rightarrow> (Some i, st)
      | None \<Rightarrow>
          if br_instance st then
            let pc = map_option px_id (px_find_kind (tw_kind m) (tw_id m) (br_plugins st))
            in (pc, set_media w (\<lambda>m. m\<lparr>tw_pcConsumer := pc\<rparr>) st)
          else (None, st))"

text \<open>The callback of the gateway asks for no jitter buffer.\<close>

definition twrap_consume_audio :: "producer_api \<Rightarrow> nat \<Rightarrow> string \<Rightarrow> bridge \<Rightarrow> (bridge \<times> int \<times> media_action list) option" where
  "twrap_consume_audio api w buf st =
     (case cached_proxy w st of
        (None, st1) \<Rightarrow> Some (st1, -1, [])
      | (Some i, st1) \<Rightarrow>
          (case px_find i (br_plugins st1) of
             None \<Rightarrow> None
           | Some p \<Rightarrow>
               (case px_pCallback p of
                  None \<Rightarrow> Some (st1, -1, [])
                | Some a \<Rightarrow>
                    (case consume_audio api a buf (br_gateway st1) of
                       (gw, ret, acts) \<Rightarrow> Some (st1\<lparr>br_gateway := gw\<rparr>, ret, acts)))))"

text \<open>
  A frame with the decoded size, unless the engine keeps a jitter buffer (\<open>jb\<close>, with the result of putting
  the frame there). The gateway registers no consume buffer.
\<close>

definition twrap_consume_video :: "producer_api \<Rightarrow> int option \<Rightarrow> nat \<Rightarrow> string \<Rightarrow> bridge \<Rightarrow> (bridge \<times> int \<times> media_action list) option" where
  "twrap_consume_video api jb w buf st =
     (if buf = [] then Some (st, -1, [])
      else case cached_proxy w st of
        (None, st1) \<Rightarrow> Some (st1, -1, [])
      | (Some i, st1) \<Rightarrow>
          (case px_find i (br_plugins st1) of
             None \<Rightarrow> None
           | Some p \<Rightarrow>
               (case (px_pCallback p, jb) of
                  (None, _) \<Rightarrow> Some (st1, -1, [])
                | (Some a, Some ret) \<Rightarrow> Some (st1, ret, [])
                | (Some a, None) \<Rightarrow>
                    let m = br_media st1 ! px_pWrappedPlugin p in
                    (case consume_video api a (Some \<lparr>frame_buf = buf, frame_width = tw_width m, frame_height = tw_height m\<rparr>) (br_gateway st1) of
                       (gw, ret, acts) \<Rightarrow> Some (st1\<lparr>br_gateway := gw\<rparr>, ret, acts)))))"

text \<open>
  What the gateway asks of a proxy of a producer (\<open>ProxyAudioProducer\<close>, \<open>ProxyVideoProducer\<close>): the changed
  parameters, and what reaches an encoder of the engine. \<open>enc\<close> and \<open>raw\<close> say which objects have the
  callbacks of the encoder set.
\<close>

definition setActualSndCardRecordParams :: "ProxyPlugin \<Rightarrow> i32 \<Rightarrow> i32 \<Rightarrow> i32 \<Rightarrow> bridge \<Rightarrow> bridge" where
  "setActualSndCardRecordParams p nPtime nRate nChannels st =
     set_media (px_pWrappedPlugin p) (\<lambda>m. m\<lparr>tw_ptime := nPtime, tw_rate := nRate, tw_channels := nChannels\<rparr>) st"

definition setActualCameraOutputSize :: "ProxyPlugin \<Rightarrow> i32 \<Rightarrow> i32 \<Rightarrow> bridge \<Rightarrow> bridge" where
  "setActualCameraOutputSize p nWidth nHeight st =
     set_media (px_pWrappedPlugin p) (\<lambda>m. m\<lparr>tw_width := nWidth, tw_height := nHeight\<rparr>) st"

definition audio_push :: "(nat \<Rightarrow> bool) \<Rightarrow> ProxyPlugin \<Rightarrow> string \<Rightarrow> (nat \<times> string) list" where
  "audio_push enc p buf = (if enc (px_pWrappedPlugin p) then [(px_pWrappedPlugin p, buf)] else [])"

definition video_push :: "(nat \<Rightarrow> bool) \<Rightarrow> ProxyPlugin \<Rightarrow> string \<Rightarrow> bridge \<Rightarrow> (nat \<times> string) list" where
  "video_push enc p buf st =
     (if enc (px_pWrappedPlugin p) \<and> tw_started (br_media st ! px_pWrappedPlugin p) then [(px_pWrappedPlugin p, buf)] else [])"

definition video_sendRaw :: "(nat \<Rightarrow> bool) \<Rightarrow> ProxyPlugin \<Rightarrow> string \<Rightarrow> (nat \<times> string) list" where
  "video_sendRaw raw p buf = (if raw (px_pWrappedPlugin p) then [(px_pWrappedPlugin p, buf)] else [])"

text \<open>A call on a proxy that is not in the list any more is None.\<close>

fun action_target :: "media_action \<Rightarrow> u64 \<times> plugin_kind" where
  "action_target (SetActualSndCardRecordParams i _ _ _) = (i, AudioProducer)"
| "action_target (SetActualCameraOutputSize i _ _) = (i, VideoProducer)"
| "action_target (PushAudio i _) = (i, AudioProducer)"
| "action_target (PushVideo i _) = (i, VideoProducer)"
| "action_target (SendRaw i _) = (i, VideoProducer)"

fun run_action :: "(nat \<Rightarrow> bool) \<Rightarrow> (nat \<Rightarrow> bool) \<Rightarrow> ProxyPlugin \<Rightarrow> media_action \<Rightarrow> bridge \<Rightarrow> bridge \<times> (nat \<times> string) list" where
  "run_action enc raw p (SetActualSndCardRecordParams _ t r c) st = (setActualSndCardRecordParams p t r c st, [])"
| "run_action enc raw p (SetActualCameraOutputSize _ w h) st = (setActualCameraOutputSize p w h st, [])"
| "run_action enc raw p (PushAudio _ buf) st = (st, audio_push enc p buf)"
| "run_action enc raw p (PushVideo _ buf) st = (st, video_push enc p buf st)"
| "run_action enc raw p (SendRaw _ buf) st = (st, video_sendRaw raw p buf)"

fun run_media :: "(nat \<Rightarrow> bool) \<Rightarrow> (nat \<Rightarrow> bool) \<Rightarrow> media_action list \<Rightarrow> bridge \<Rightarrow> (bridge \<times> (nat \<times> string) list) option" where
  "run_media enc raw [] st = Some (st, [])"
| "run_media enc raw (a # as) st =
     (case px_find_kind (snd (action_target a)) (fst (action_target a)) (br_plugins st) of
        None \<Rightarrow> None
      | Some p \<Rightarrow>
          (case run_action enc raw p a st of
             (st1, out1) \<Rightarrow> (case run_media enc raw as st1 of None \<Rightarrow> None | Some (st2, out2) \<Rightarrow> Some (st2, out1 @ out2))))"

section \<open>Reachable states\<close>

text \<open>A consumer may feed a producer of the same medium.\<close>

fun couples :: "plugin_kind \<Rightarrow> plugin_kind \<Rightarrow> bool" where
  "couples AudioConsumer AudioProducer = True"
| "couples VideoConsumer VideoProducer = True"
| "couples _ _ = False"

text \<open>
  The calls of the engine on its live objects, and the coupling by the call logic, in any order. The
  counter of ids does not come round.
\<close>

definition live_object :: "bridge \<Rightarrow> nat \<Rightarrow> bool" where
  "live_object st w \<longleftrightarrow> w < length (br_media st) \<and> tw_alive (br_media st ! w)"

inductive bridge_step :: "producer_api \<Rightarrow> (nat \<Rightarrow> bool) \<Rightarrow> (nat \<Rightarrow> bool) \<Rightarrow> bridge \<Rightarrow> bridge \<Rightarrow> bool"
  for api :: producer_api and enc :: "nat \<Rightarrow> bool" and raw :: "nat \<Rightarrow> bool" where
  engine_create: "Suc (length (br_media st)) < 2 ^ 64 \<Longrightarrow> bridge_step api enc raw st (twrap_ctor be bd k st)"
| engine_prepare: "live_object st w \<Longrightarrow> bridge_step api enc raw st (snd (twrap_prepare c w st))"
| engine_start: "live_object st w \<Longrightarrow> bridge_step api enc raw st (snd (twrap_start w st))"
| engine_pause: "live_object st w \<Longrightarrow> bridge_step api enc raw st (snd (twrap_pause w st))"
| engine_stop: "live_object st w \<Longrightarrow> bridge_step api enc raw st (snd (twrap_stop w st))"
| engine_destroy: "live_object st w \<Longrightarrow> bridge_step api enc raw st (twrap_dtor w st)"
| engine_audio: "live_object st w \<Longrightarrow> tw_kind (br_media st ! w) = AudioConsumer \<Longrightarrow>
     twrap_consume_audio api w buf st = Some (st1, ret, acts) \<Longrightarrow> run_media enc raw acts st1 = Some (st2, out) \<Longrightarrow>
     bridge_step api enc raw st st2"
| engine_video: "live_object st w \<Longrightarrow> tw_kind (br_media st ! w) = VideoConsumer \<Longrightarrow>
     twrap_consume_video api jb w buf st = Some (st1, ret, acts) \<Longrightarrow> run_media enc raw acts st1 = Some (st2, out) \<Longrightarrow>
     bridge_step api enc raw st st2"
| calls_attach: "findPlugin (br_gateway st) i = Some c \<Longrightarrow> findPlugin (br_gateway st) j = Some p \<Longrightarrow>
     couples (pl_kind (pm_objects (br_gateway st) ! ref_addr c)) (pl_kind (pm_objects (br_gateway st) ! ref_addr p)) \<Longrightarrow>
     bridge_step api enc raw st (set_gateway (setProducerOpposite c p) st)"

definition bridge_start :: bridge where
  "bridge_start = \<lparr>br_uniqueId = 0, br_instance = True, br_plugins = [], br_media = [], br_gateway = empty_plugins\<rparr>"

inductive bridge_reachable :: "producer_api \<Rightarrow> (nat \<Rightarrow> bool) \<Rightarrow> (nat \<Rightarrow> bool) \<Rightarrow> bridge \<Rightarrow> bool"
  for api :: producer_api and enc :: "nat \<Rightarrow> bool" and raw :: "nat \<Rightarrow> bool" where
  bridge_initial: "bridge_reachable api enc raw bridge_start"
| bridge_next: "bridge_reachable api enc raw st \<Longrightarrow> bridge_step api enc raw st st' \<Longrightarrow> bridge_reachable api enc raw st'"

section \<open>The two tables agree\<close>

definition id_of :: "nat \<Rightarrow> u64" where "id_of w = of_nat (Suc w)"

lemma id_of_less: "Suc v < 2 ^ 64 \<Longrightarrow> Suc w < 2 ^ 64 \<Longrightarrow> id_of v < id_of w \<longleftrightarrow> v < w"
  unfolding id_of_def by (simp add: word_less_nat_alt unsigned_of_nat take_bit_nat_eq_self del: of_nat_Suc)

lemma id_of_eq: "Suc v < 2 ^ 64 \<Longrightarrow> Suc w < 2 ^ 64 \<Longrightarrow> id_of v = id_of w \<longleftrightarrow> v = w"
  by (metis id_of_less less_irrefl linorder_neqE_nat)

definition live :: "bridge \<Rightarrow> nat list" where
  "live st = filter (\<lambda>w. tw_alive (br_media st ! w)) [0..<length (br_media st)]"

definition proxy_of :: "bridge \<Rightarrow> nat \<Rightarrow> ProxyPlugin" where
  "proxy_of st w = \<lparr>px_id = id_of w, px_type = tw_kind (br_media st ! w), px_pCallback = Some w, px_pWrappedPlugin = w\<rparr>"

text \<open>
  The state is determined by the objects of the engine: object \<open>w\<close> has the id \<open>w + 1\<close> and, while it lives,
  one proxy whose callback is plugin \<open>w\<close> of the gateway, which is in the table of the gateway under that
  id and valid exactly as long.
\<close>

definition object_ok :: "bridge \<Rightarrow> nat \<Rightarrow> bool" where
  "object_ok st w \<longleftrightarrow> tw_id (br_media st ! w) = id_of w \<and> tw_pcConsumer (br_media st ! w) \<in> {None, Some (id_of w)}"

definition plugin_matches :: "bridge \<Rightarrow> nat \<Rightarrow> bool" where
  "plugin_matches st w \<longleftrightarrow>
     (let p = pm_objects (br_gateway st) ! w in
      pl_nId p = id_of w \<and> pl_kind p = tw_kind (br_media st ! w) \<and> m_bValid p = tw_alive (br_media st ! w)
      \<and> (\<forall>b. m_oProducerOpposite p = Some b \<longrightarrow> b < length (br_media st) \<and> couples (tw_kind (br_media st ! w)) (tw_kind (br_media st ! b))))"

definition bridge_inv :: "bridge \<Rightarrow> bool" where
  "bridge_inv st \<longleftrightarrow> br_instance st \<and> length (br_media st) < 2 ^ 64 \<and> br_uniqueId st = of_nat (length (br_media st))
     \<and> (\<forall>w < length (br_media st). object_ok st w)
     \<and> br_plugins st = map (proxy_of st) (live st)
     \<and> length (pm_objects (br_gateway st)) = length (br_media st)
     \<and> pm_plugins (br_gateway st) = map (\<lambda>w. (id_of w, \<lparr>ref_id = id_of w, ref_addr = w\<rparr>)) (live st)
     \<and> (\<forall>w < length (br_media st). plugin_matches st w)"

lemma bridge_invD:
  assumes "bridge_inv st"
  shows "br_instance st" "length (br_media st) < 2 ^ 64" "br_uniqueId st = of_nat (length (br_media st))"
    "w < length (br_media st) \<Longrightarrow> object_ok st w" "br_plugins st = map (proxy_of st) (live st)"
    "length (pm_objects (br_gateway st)) = length (br_media st)"
    "pm_plugins (br_gateway st) = map (\<lambda>w. (id_of w, \<lparr>ref_id = id_of w, ref_addr = w\<rparr>)) (live st)"
    "w < length (br_media st) \<Longrightarrow> plugin_matches st w"
  using assms unfolding bridge_inv_def by blast+

lemma bridge_ids:
  assumes "bridge_inv st" "v < length (br_media st)" "w < length (br_media st)"
  shows "id_of v = id_of w \<longleftrightarrow> v = w" "id_of v < id_of w \<longleftrightarrow> v < w"
proof -
  have "length (br_media st) < 2 ^ 64" by (rule bridge_invD(2) [OF assms(1)])
  note bound = le_less_trans [OF Suc_leI [OF assms(2)] this] le_less_trans [OF Suc_leI [OF assms(3)] this]
  show "id_of v = id_of w \<longleftrightarrow> v = w" by (rule id_of_eq [OF bound])
  show "id_of v < id_of w \<longleftrightarrow> v < w" by (rule id_of_less [OF bound])
qed

lemma in_live: "w \<in> set (live st) \<longleftrightarrow> live_object st w"
  by (auto simp: live_def live_object_def)

lemma find_unique:
  assumes "x \<in> set xs" "P x" "\<And>y. y \<in> set xs \<Longrightarrow> P y \<Longrightarrow> y = x"
  shows "find P xs = Some x"
proof -
  have "find P xs \<noteq> None" using assms(1,2) by (auto simp: find_None_iff)
  then obtain y where y: "find P xs = Some y" by blast
  then have "P y" "y \<in> set xs" by (metis find_Some_iff nth_mem)+
  from assms(3) [OF this(2,1)] y show ?thesis by simp
qed

lemma px_find_live:
  assumes "bridge_inv st" "w < length (br_media st)"
  shows "px_find (id_of w) (br_plugins st) = (if tw_alive (br_media st ! w) then Some (proxy_of st w) else None)"
proof -
  have ps: "br_plugins st = map (proxy_of st) (live st)" by (rule bridge_invD(5) [OF assms(1)])
  have uniq: "v = w" if "v \<in> set (live st)" "px_id (proxy_of st v) = id_of w" for v
    using that bridge_ids(1) [OF assms(1) _ assms(2)] by (simp add: in_live live_object_def proxy_of_def)
  show ?thesis
  proof (cases "tw_alive (br_media st ! w)")
    case True
    then have "proxy_of st w \<in> set (br_plugins st)" using assms(2) by (simp add: ps in_live live_object_def)
    then show ?thesis
      unfolding px_find_def using True uniq by (subst find_unique [of "proxy_of st w"]) (force simp: ps proxy_of_def)+
  next
    case False
    then have "w \<notin> set (live st)" by (simp add: in_live live_object_def)
    then have "\<forall>p \<in> set (br_plugins st). px_id p \<noteq> id_of w" unfolding ps using uniq by auto
    then show ?thesis using False by (simp add: px_find_def find_None_iff)
  qed
qed

lemma callback_of_live:
  assumes "bridge_inv st" "live_object st w"
  shows "callback_of w st = Some w"
  using assms(2) px_find_live [OF assms(1), of w] bridge_invD(1) [OF assms(1)] bridge_invD(4) [OF assms(1), of w]
  by (simp add: callback_of_def px_find_kind_def live_object_def object_ok_def proxy_of_def)

section \<open>The steps keep the tables\<close>

text \<open>An object of the engine is replaced by one with the same identity.\<close>

definition keeps_media :: "twrap \<Rightarrow> (twrap \<Rightarrow> twrap) \<Rightarrow> bool" where
  "keeps_media m f \<longleftrightarrow> tw_kind (f m) = tw_kind m \<and> tw_id (f m) = tw_id m \<and> tw_alive (f m) = tw_alive m
     \<and> tw_pcConsumer (f m) \<in> {tw_pcConsumer m, None, Some (tw_id m)}"

lemma set_media_nth:
  "v < length (br_media st) \<Longrightarrow> br_media (set_media w f st) ! v = (if v = w then f (br_media st ! v) else br_media st ! v)"
  "length (br_media (set_media w f st)) = length (br_media st)"
  by (auto simp: set_media_def nth_list_update)

lemma set_media_fields [simp]:
  "br_gateway (set_media w f st) = br_gateway st" "br_plugins (set_media w f st) = br_plugins st"
  "br_instance (set_media w f st) = br_instance st" "br_uniqueId (set_media w f st) = br_uniqueId st"
  by (simp_all add: set_media_def)

lemma keeps_mediaD:
  assumes "keeps_media m f"
  shows "tw_kind (f m) = tw_kind m" "tw_id (f m) = tw_id m" "tw_alive (f m) = tw_alive m"
    "tw_pcConsumer (f m) \<in> {tw_pcConsumer m, None, Some (tw_id m)}"
  using assms unfolding keeps_media_def by blast+

lemma live_keeps: "keeps_media (br_media st ! w) f \<Longrightarrow> live (set_media w f st) = live st"
  unfolding live_def set_media_nth(2) by (rule filter_cong) (auto simp: set_media_nth(1) keeps_mediaD)

lemma map_live_keeps:
  "keeps_media (br_media st ! w) f \<Longrightarrow> map (proxy_of (set_media w f st)) (live st) = map (proxy_of st) (live st)"
  by (auto simp: live_def proxy_of_def set_media_nth(1) keeps_mediaD)

lemma inv_set_media:
  assumes "bridge_inv st" "keeps_media (br_media st ! w) f"
  shows "bridge_inv (set_media w f st)"
proof -
  have each: "tw_id (br_media (set_media w f st) ! v) = tw_id (br_media st ! v)" "tw_kind (br_media (set_media w f st) ! v) = tw_kind (br_media st ! v)"
    "tw_alive (br_media (set_media w f st) ! v) = tw_alive (br_media st ! v)"
    "tw_pcConsumer (br_media (set_media w f st) ! v) \<in> {tw_pcConsumer (br_media st ! v), None, Some (tw_id (br_media st ! v))}"
    if "v < length (br_media st)" for v
    using that keeps_mediaD [OF assms(2)] by (cases "v = w"; simp add: set_media_nth(1))+
  have "object_ok (set_media w f st) v" if "v < length (br_media st)" for v
    using bridge_invD(4) [OF assms(1) that] each [OF that] by (auto simp: object_ok_def)
  moreover have "plugin_matches (set_media w f st) v" if "v < length (br_media st)" for v
    using bridge_invD(8) [OF assms(1) that] each [OF that] each(2) by (auto simp: plugin_matches_def Let_def set_media_nth(2))
  ultimately show ?thesis
    using bridge_invD(1,2,3,5,6,7) [OF assms(1)]
    by (simp add: bridge_inv_def live_keeps [OF assms(2)] map_live_keeps [OF assms(2)] set_media_nth(2))
qed

text \<open>The plugins of the gateway change without their identity.\<close>

definition gw_like :: "plugin_mgr \<Rightarrow> plugin_mgr \<Rightarrow> bool" where
  "gw_like gw gw' \<longleftrightarrow> pm_plugins gw' = pm_plugins gw \<and> length (pm_objects gw') = length (pm_objects gw)
     \<and> (\<forall>w < length (pm_objects gw). same_plugin (pm_objects gw ! w) (pm_objects gw' ! w)
          \<and> m_oProducerOpposite (pm_objects gw' ! w) = m_oProducerOpposite (pm_objects gw ! w))"

lemma gw_like_refl [simp]: "gw_like gw gw"
  by (simp add: gw_like_def)

lemma gw_like_update:
  "same_plugin (pm_objects gw ! a) q \<Longrightarrow> m_oProducerOpposite q = m_oProducerOpposite (pm_objects gw ! a) \<Longrightarrow>
     gw_like gw (gw\<lparr>pm_objects := (pm_objects gw)[a := q]\<rparr>)"
  by (cases "a < length (pm_objects gw)") (auto simp: gw_like_def nth_list_update)

lemma gw_like_event: "gw_like gw (on_plugin a e gw)"
  unfolding on_plugin_def by (rule gw_like_update) simp_all

lemma gw_like_producer: "keeps f \<Longrightarrow> run_producer a f gw = (gw', ret, acts) \<Longrightarrow> gw_like gw gw'"
  by (auto simp: run_producer_def keeps_def intro: gw_like_update split: prod.splits)

lemma gw_like_consume:
  "consume_audio api a buf gw = (gw', ret, acts) \<Longrightarrow> gw_like gw gw'"
  "consume_video api a f gw = (gw', ret, acts) \<Longrightarrow> gw_like gw gw'"
proof -
  show "consume_audio api a buf gw = (gw', ret, acts) \<Longrightarrow> gw_like gw gw'"
    by (auto simp: consume_audio_def Let_def split: option.splits if_splits intro: gw_like_producer [OF keeps_producers(1)])
  show "consume_video api a f gw = (gw', ret, acts) \<Longrightarrow> gw_like gw gw'"
    by (auto simp: consume_video_def Let_def split: option.splits if_splits
        intro: gw_like_producer [OF keeps_producers(2)] gw_like_producer [OF keeps_producers(3)])
qed

lemma live_gateway [simp]: "live (st\<lparr>br_gateway := gw\<rparr>) = live st" "proxy_of (st\<lparr>br_gateway := gw\<rparr>) = proxy_of st"
  by (auto simp: live_def proxy_of_def)

lemma inv_gateway:
  assumes "bridge_inv st" "gw_like (br_gateway st) gw"
  shows "bridge_inv (st\<lparr>br_gateway := gw\<rparr>)"
proof -
  have "plugin_matches (st\<lparr>br_gateway := gw\<rparr>) v" if "v < length (br_media st)" for v
    using assms(2) bridge_invD(8) [OF assms(1) that] bridge_invD(6) [OF assms(1)] that
    by (simp add: plugin_matches_def gw_like_def same_plugin_def Let_def)
  moreover have "object_ok (st\<lparr>br_gateway := gw\<rparr>) v" if "v < length (br_media st)" for v
    using bridge_invD(4) [OF assms(1) that] by (simp add: object_ok_def)
  ultimately show ?thesis
    using bridge_invD(1,2,3,5,6,7) [OF assms(1)] assms(2) by (simp add: bridge_inv_def gw_like_def)
qed

lemma inv_call_plugin:
  assumes "bridge_inv st"
  shows "bridge_inv (snd (call_plugin cb e st))"
  using inv_gateway [OF assms gw_like_event] assms by (simp add: call_plugin_def set_gateway_def split: option.splits)

lemma keeps_media_simps [simp]:
  "keeps_media m0 (\<lambda>m. m\<lparr>tw_started := b\<rparr>)" "keeps_media m0 (\<lambda>m. m\<lparr>tw_ptime := i, tw_rate := j, tw_channels := k\<rparr>)"
  "keeps_media m0 (prepared_media c)" "keeps_media m0 (output_params ret)"
  "keeps_media m0 (\<lambda>m. m\<lparr>tw_width := i, tw_height := j\<rparr>)"
  by (simp_all add: keeps_media_def prepared_media_def output_params_def split: plugin_kind.split)

lemma inv_start_stop:
  assumes "bridge_inv st"
  shows "bridge_inv (snd (twrap_start w st))" "bridge_inv (snd (twrap_stop w st))" "bridge_inv (snd (twrap_pause w st))"
  using inv_call_plugin [OF assms] inv_set_media [OF inv_call_plugin [OF assms]]
  by (auto simp: twrap_start_def twrap_stop_def twrap_pause_def split: prod.splits) (metis keeps_media_simps(1) snd_conv)+

lemma found_kind:
  assumes "bridge_inv st" "w < length (br_media st)"
  shows "px_find_kind (tw_kind (br_media st ! w)) (tw_id (br_media st ! w)) (br_plugins st)
     = (if tw_alive (br_media st ! w) then Some (proxy_of st w) else None)"
  using px_find_live [OF assms] bridge_invD(4) [OF assms] by (simp add: px_find_kind_def object_ok_def proxy_of_def)

lemma inv_cache:
  assumes "bridge_inv st" "pc = map_option px_id (px_find_kind (tw_kind (br_media st ! w)) (tw_id (br_media st ! w)) (br_plugins st))"
  shows "bridge_inv (set_media w (\<lambda>m. m\<lparr>tw_pcConsumer := pc\<rparr>) st)"
proof (cases "w < length (br_media st)")
  case True
  show ?thesis
    using found_kind [OF assms(1) True] bridge_invD(4) [OF assms(1) True] assms(2)
    by (intro inv_set_media [OF assms(1)]) (auto simp: keeps_media_def object_ok_def proxy_of_def)
next
  case False
  then show ?thesis using assms(1) by (simp add: set_media_def list_update_beyond)
qed

lemma inv_prepare:
  assumes "bridge_inv st"
  shows "bridge_inv (snd (twrap_prepare codec w st))"
proof -
  have st0: "bridge_inv (refresh_proxy w st)"
    using inv_cache [OF assms refl] assms by (simp add: refresh_proxy_def Let_def)
  then have "bridge_inv (snd (call_plugin cb e (set_media w (prepared_media c) (refresh_proxy w st))))" for cb e c
    by (intro inv_call_plugin inv_set_media) simp_all
  then have "bridge_inv (set_media w (output_params ret) (snd (call_plugin cb e (set_media w (prepared_media c) (refresh_proxy w st)))))"
    for cb e c ret by (rule inv_set_media) simp
  then show ?thesis
    using assms st0 by (simp add: twrap_prepare_def Let_def case_prod_unfold split: option.split)
qed

text \<open>Creation: a new object, proxy and plugin at the end of each list.\<close>

lemma map_insert_end: "\<forall>p \<in> set m. fst p < k \<Longrightarrow> map_insert k v m = m @ [(k, v)]"
  by (induction k v m rule: map_insert.induct) auto

lemma find_snoc: "find P (xs @ [y]) = (case find P xs of Some x \<Rightarrow> Some x | None \<Rightarrow> if P y then Some y else None)"
  by (induction xs) auto

lemma inv_ctor:
  assumes "bridge_inv st" "Suc (length (br_media st)) < 2 ^ 64"
  shows "bridge_inv (twrap_ctor be bd k st) \<and> br_media (twrap_ctor be bd k st) = br_media st @ [new_twrap k (id_of (length (br_media st)))]
    \<and> br_gateway (twrap_ctor be bd k st) = OnPluginCreated be bd (\<lambda>_ _. True) (id_of (length (br_media st))) k (br_gateway st)"
proof -
  let ?n = "length (br_media st)"
  let ?m = "new_twrap k (id_of ?n)" and ?p = "\<lparr>px_id = id_of ?n, px_type = k, px_pCallback = None, px_pWrappedPlugin = ?n\<rparr>"
  note inv = bridge_invD [OF assms(1)]
  have id: "br_uniqueId st + 1 = id_of ?n" by (simp add: inv(3) id_of_def)
  have below: "id_of v < id_of ?n" if "v < ?n" for v
    using id_of_less [OF _ assms(2), of v] that assms(2) by (meson Suc_mono less_trans)
  have new: "v \<in> set (live st) \<Longrightarrow> id_of v \<noteq> id_of ?n" for v
    using below [of v] by (auto simp: in_live live_object_def)
  then have absent: "px_find (id_of ?n) (br_plugins st) = None"
    by (auto simp: px_find_def find_None_iff inv(5) proxy_of_def)
  define st1 where "st1 = st\<lparr>br_uniqueId := id_of ?n, br_media := br_media st @ [?m], br_plugins := br_plugins st @ [?p]\<rparr>"
  have found: "px_find_kind k (id_of ?n) (br_plugins st1) = Some ?p"
    using absent by (simp add: px_find_kind_def px_find_def find_snoc st1_def)
  have table: "map_insert (id_of ?n) r (pm_plugins (br_gateway st)) = pm_plugins (br_gateway st) @ [(id_of ?n, r)]" for r
    by (rule map_insert_end) (use below in \<open>auto simp: inv(7) in_live live_object_def\<close>)
  have gw: "OnPluginCreated be bd (\<lambda>i k. px_find_kind k i (br_plugins st1) \<noteq> None) (id_of ?n) k (br_gateway st)
      = OnPluginCreated be bd (\<lambda>_ _. True) (id_of ?n) k (br_gateway st)"
    using found by (simp add: OnPluginCreated_def)
  let ?gw = "OnPluginCreated be bd (\<lambda>_ _. True) (id_of ?n) k (br_gateway st)"
  have ctor: "twrap_ctor be bd k st = st1\<lparr>br_plugins := br_plugins st @ [?p\<lparr>px_pCallback := Some ?n\<rparr>], br_gateway := ?gw\<rparr>"
  proof -
    have "twrap_ctor be bd k st = gateway_created be bd (id_of ?n) k st1"
      using inv(1) absent by (simp add: twrap_ctor_def getUniqueId_def id addPlugin_def st1_def Let_def)
    also have "\<dots> = setCallback (id_of ?n) ?n (st1\<lparr>br_gateway := ?gw\<rparr>)"
      using found gw inv(6) by (simp add: gateway_created_def Let_def set_gateway_def st1_def)
    also have "\<dots> = st1\<lparr>br_plugins := br_plugins st @ [?p\<lparr>px_pCallback := Some ?n\<rparr>], br_gateway := ?gw\<rparr>"
      using new by (auto simp: setCallback_def st1_def inv(5) proxy_of_def)
    finally show ?thesis .
  qed
  define st' where "st' = twrap_ctor be bd k st"
  have fields: "br_media st' = br_media st @ [?m]" "br_plugins st' = br_plugins st @ [?p\<lparr>px_pCallback := Some ?n\<rparr>]"
    "br_gateway st' = ?gw" "br_instance st'" "br_uniqueId st' = id_of ?n"
    using inv(1) by (simp_all add: st'_def ctor st1_def)
  have old: "w < ?n \<Longrightarrow> br_media st' ! w = br_media st ! w" "br_media st' ! ?n = ?m" for w by (simp_all add: fields(1) nth_append)
  have live: "live st' = live st @ [?n]"
    unfolding live_def fields(1) by (auto simp: nth_append new_twrap_def intro!: filter_cong)
  have proxies: "br_plugins st' = map (proxy_of st') (live st')"
    by (auto simp: live fields(2) inv(5) proxy_of_def old new_twrap_def in_live live_object_def)
  have plugins: "pm_plugins ?gw = map (\<lambda>w. (id_of w, \<lparr>ref_id = id_of w, ref_addr = w\<rparr>)) (live st')"
    by (simp add: OnPluginCreated_def insertPlugin_def table live inv(6)) (simp add: inv(7))
  have objects: "pm_objects ?gw = pm_objects (br_gateway st) @ [new_plugin be bd k (id_of ?n)]"
    by (simp add: OnPluginCreated_def insertPlugin_def)
  have "object_ok st' w" if "w < Suc ?n" for w
    using that inv(4) [of w] by (auto simp: object_ok_def old new_twrap_def less_Suc_eq)
  moreover have "plugin_matches st' w" if "w < Suc ?n" for w
  proof (cases "w = ?n")
    case True
    then show ?thesis using inv(6) by (simp add: plugin_matches_def fields(3) objects old(2) nth_append new_twrap_def)
  next
    case False
    then have "w < ?n" using that by simp
    from inv(8) [OF this] this show ?thesis
      using inv(6) by (auto simp: plugin_matches_def fields(1,3) objects nth_append Let_def less_Suc_eq)
  qed
  ultimately have "bridge_inv st'"
    using proxies plugins assms(2) inv(6) unfolding bridge_inv_def
    by (simp add: fields(1,3,4,5) objects) (simp add: id_of_def)
  then show ?thesis using fields(1,3) by (simp add: st'_def)
qed

end
