(* ===== verification/MediaPath.thy ===== *)
theory MediaPath
  imports Proxy
begin

text \<open>
  The media path end to end: the engine, its proxies (theory \<open>Proxy\<close>) and the gateway (theory
  \<open>Plugins\<close>) in every reachable state. The remaining steps keep the tables in agreement, media is
  delivered, and each step is, for the gateway, a sequence of the steps of \<open>Plugins\<close>.
\<close>

section \<open>The call logic and destruction\<close>

lemma gateway_lookup:
  assumes "bridge_inv st"
  shows "findPlugin (br_gateway st) i = Some r \<longleftrightarrow> (\<exists>w. live_object st w \<and> i = id_of w \<and> r = \<lparr>ref_id = id_of w, ref_addr = w\<rparr>)"
proof -
  have inj: "inj_on id_of (set (live st))"
    by (rule inj_onI) (simp add: in_live live_object_def bridge_ids(1) [OF assms])
  then have "distinct (map fst (pm_plugins (br_gateway st)))"
    by (simp add: bridge_invD(7) [OF assms] comp_def distinct_map live_def)
  then have "findPlugin (br_gateway st) i = Some r \<longleftrightarrow> (i, r) \<in> set (pm_plugins (br_gateway st))"
    by (simp add: findPlugin_def map_find_def)
  also have "\<dots> \<longleftrightarrow> (\<exists>w. live_object st w \<and> i = id_of w \<and> r = \<lparr>ref_id = id_of w, ref_addr = w\<rparr>)"
    unfolding bridge_invD(7) [OF assms] by (auto simp: in_live)
  finally show ?thesis .
qed

lemma inv_attach:
  assumes inv: "bridge_inv st" and "findPlugin (br_gateway st) i = Some c" "findPlugin (br_gateway st) j = Some p"
    and "couples (pl_kind (pm_objects (br_gateway st) ! ref_addr c)) (pl_kind (pm_objects (br_gateway st) ! ref_addr p))"
  shows "bridge_inv (set_gateway (setProducerOpposite c p) st)"
proof -
  obtain v w where v: "live_object st v" "c = \<lparr>ref_id = id_of v, ref_addr = v\<rparr>"
    and w: "live_object st w" "p = \<lparr>ref_id = id_of w, ref_addr = w\<rparr>"
    using assms(2,3) by (auto simp: gateway_lookup [OF inv])
  have kinds: "pl_kind (pm_objects (br_gateway st) ! u) = tw_kind (br_media st ! u)" if "live_object st u" for u
    using bridge_invD(8) [OF inv] that by (simp add: plugin_matches_def live_object_def Let_def)
  have "couples (tw_kind (br_media st ! v)) (tw_kind (br_media st ! w))"
    using assms(4) unfolding v(2) w(2) by (simp add: kinds v(1) w(1))
  then have "plugin_matches (set_gateway (setProducerOpposite c p) st) u" if "u < length (br_media st)" for u
    using bridge_invD(8) [OF inv that] bridge_invD(6) [OF inv] that v w
    by (cases "u = v") (auto simp: plugin_matches_def set_gateway_def setProducerOpposite_def live_object_def Let_def)
  moreover have "object_ok (set_gateway (setProducerOpposite c p) st) u" if "u < length (br_media st)" for u
    using bridge_invD(4) [OF inv that] by (simp add: object_ok_def set_gateway_def)
  moreover have "live (set_gateway f st) = live st" "proxy_of (set_gateway f st) = proxy_of st" for f
    by (simp_all add: set_gateway_def)
  ultimately show ?thesis
    using bridge_invD(1,2,3,5,6,7) [OF inv] by (simp add: bridge_inv_def) (simp add: set_gateway_def setProducerOpposite_def)
qed

lemma remove_first_filter: "distinct (map px_id ps) \<Longrightarrow> remove_first i ps = filter (\<lambda>p. px_id p \<noteq> i) ps"
proof (induction ps)
  case (Cons p ps)
  then have "filter (\<lambda>q. px_id q \<noteq> px_id p) ps = ps" by (intro filter_True) (auto simp: image_iff)
  with Cons show ?case by auto
qed simp

text \<open>The list of the manager is a table by id, as the table of the gateway is.\<close>

lemma px_find_snoc: "px_find i (ps @ [p]) = (case px_find i ps of Some q \<Rightarrow> Some q | None \<Rightarrow> if px_id p = i then Some p else None)"
  by (simp add: px_find_def find_snoc)

lemma px_find_absent: "px_find i ps = None \<longleftrightarrow> i \<notin> px_id ` set ps"
  by (auto simp: px_find_def find_None_iff)

lemma px_find_filter: "px_find j (filter (\<lambda>p. px_id p \<noteq> i) ps) = (if j = i then None else px_find j ps)"
  unfolding px_find_def by (induction ps) auto

lemma find_add: "px_find i (br_plugins (snd (addPlugin p st)))
    = (if i = px_id p \<and> px_find i (br_plugins st) = None then Some p else px_find i (br_plugins st))"
  by (cases "px_find i (br_plugins st)") (auto simp: addPlugin_def px_find_snoc)

interpretation proxies: registry "\<lambda>st i. px_find i (br_plugins st)" "\<lambda>p st. snd (addPlugin p st)"
  "\<lambda>i st. snd (removePlugin i st)" px_id "\<lambda>st. distinct (map px_id (br_plugins st))"
proof unfold_locales
  show "px_find i (br_plugins (snd (addPlugin p st))) = (if i = px_id p \<and> px_find i (br_plugins st) = None then Some p else px_find i (br_plugins st))"
    for st p i by (rule find_add)
qed (auto simp: addPlugin_def removePlugin_def px_find_absent remove_first_filter px_find_filter distinct_map_filter)

text \<open>The state after an object has left both tables.\<close>

definition removed :: "nat \<Rightarrow> bridge \<Rightarrow> bridge" where
  "removed w st = set_media w (\<lambda>m. m\<lparr>tw_alive := False\<rparr>)
     (snd (removePlugin (tw_id (br_media st ! w)) (set_gateway (OnPluginDestroyed (tw_id (br_media st ! w)) (tw_kind (br_media st ! w))) st)))"

lemma inv_removed:
  assumes inv: "bridge_inv st" and w: "live_object st w"
  shows "bridge_inv (removed w st) \<and> findPlugin (br_gateway (removed w st)) (id_of w) = None
    \<and> px_find (id_of w) (br_plugins (removed w st)) = None \<and> live (removed w st) = filter (\<lambda>v. v \<noteq> w) (live st)"
proof -
  let ?st = "removed w st" and ?n = "length (br_media st)"
  have wn: "w < ?n" and alive: "tw_alive (br_media st ! w)" using w by (simp_all add: live_object_def)
  have id: "tw_id (br_media st ! w) = id_of w" using bridge_invD(4) [OF inv wn] by (simp add: object_ok_def)
  have same: "id_of v = id_of w \<longleftrightarrow> v = w" if "v < ?n" for v by (rule bridge_ids(1) [OF inv that wn])
  have found: "findPlugin (br_gateway st) (id_of w) = Some \<lparr>ref_id = id_of w, ref_addr = w\<rparr>"
    using w by (auto simp: gateway_lookup [OF inv])
  have "inj_on id_of (set (live st))"
    by (rule inj_onI) (simp add: in_live live_object_def bridge_ids(1) [OF inv])
  then have distinct: "distinct (map px_id (br_plugins st))"
    unfolding bridge_invD(5) [OF inv] by (simp add: comp_def proxy_of_def distinct_map live_def)
  have media: "br_media ?st = (br_media st)[w := (br_media st ! w)\<lparr>tw_alive := False\<rparr>]"
    by (simp add: removed_def set_media_def removePlugin_def set_gateway_def)
  have plugins: "br_plugins ?st = filter (\<lambda>p. px_id p \<noteq> id_of w) (br_plugins st)"
    by (simp add: removed_def set_media_def removePlugin_def set_gateway_def id remove_first_filter [OF distinct])
  have gw: "br_gateway ?st = erasePlugin (id_of w) (br_gateway st)"
    by (simp add: removed_def set_media_def removePlugin_def set_gateway_def id OnPluginDestroyed_def)
  have objects: "pm_objects (br_gateway ?st) = (pm_objects (br_gateway st))[w := invalidate (pm_objects (br_gateway st) ! w)]"
    and table: "pm_plugins (br_gateway ?st) = filter (\<lambda>p. fst p \<noteq> id_of w) (pm_plugins (br_gateway st))"
    by (simp_all add: gw erasePlugin_def found map_erase_def)
  have rest: "br_instance ?st = br_instance st" "br_uniqueId ?st = br_uniqueId st"
    by (simp_all add: removed_def removePlugin_def set_gateway_def)
  have live: "live ?st = filter (\<lambda>v. v \<noteq> w) (live st)"
    unfolding live_def media using wn by (auto simp: nth_list_update split: if_splits intro!: filter_cong)
  have keep: "filter (\<lambda>v. id_of v \<noteq> id_of w) (live st) = filter (\<lambda>v. v \<noteq> w) (live st)"
    by (rule filter_cong) (auto simp: same in_live live_object_def)
  have "px_id (proxy_of st v) = id_of v" "v \<noteq> w \<Longrightarrow> proxy_of ?st v = proxy_of st v" for v by (simp_all add: proxy_of_def media)
  then have proxies: "br_plugins ?st = map (proxy_of ?st) (live ?st)"
    by (auto simp: plugins bridge_invD(5) [OF inv] filter_map comp_def live keep)
  have refs: "pm_plugins (br_gateway ?st) = map (\<lambda>w. (id_of w, \<lparr>ref_id = id_of w, ref_addr = w\<rparr>)) (live ?st)"
    by (simp add: table bridge_invD(7) [OF inv] filter_map comp_def live keep)
  have "object_ok ?st v" if "v < ?n" for v
    using bridge_invD(4) [OF inv that] wn by (cases "v = w") (auto simp: object_ok_def media)
  moreover have "plugin_matches ?st v" if "v < ?n" for v
    using bridge_invD(8) [OF inv that] bridge_invD(6) [OF inv] that wn
    by (auto simp: plugin_matches_def media objects nth_list_update invalidate_def Let_def)
  ultimately have "bridge_inv ?st"
    using bridge_invD(1,2,3,6) [OF inv] proxies refs unfolding bridge_inv_def by (simp add: rest media objects)
  moreover have "findPlugin (br_gateway ?st) (id_of w) = None"
    unfolding findPlugin_def map_find_def table by (auto simp: map_of_eq_None_iff)
  moreover have "px_find (id_of w) (br_plugins ?st) = None"
    using proxies.lookup_remove [OF distinct, of "id_of w" "id_of w"] by (simp add: removed_def removePlugin_def set_gateway_def id)
  ultimately show ?thesis using live by blast
qed


lemma dtor_removed:
  assumes inv: "bridge_inv st" and w: "live_object st w"
  shows "twrap_dtor w st = removed w (if tw_started (br_media st ! w) then snd (twrap_stop w st) else st)"
proof -
  have stop: "live_object (snd (twrap_stop w st)) w" "tw_id (br_media (snd (twrap_stop w st)) ! w) = tw_id (br_media st ! w)"
    "tw_kind (br_media (snd (twrap_stop w st)) ! w) = tw_kind (br_media st ! w)" "br_instance (snd (twrap_stop w st)) = br_instance st"
    using w by (simp_all add: twrap_stop_def call_plugin_def set_gateway_def set_media_nth live_object_def split: option.splits)
  show ?thesis
    using stop bridge_invD(1) [OF inv] by (simp add: twrap_dtor_def removed_def Let_def)
qed

lemma live_stop: "live_object (snd (twrap_stop w st)) v \<longleftrightarrow> live_object st v"
  by (auto simp: twrap_stop_def call_plugin_def set_gateway_def live_object_def set_media_nth split: option.splits if_splits)

lemma inv_dtor:
  assumes inv: "bridge_inv st" and w: "live_object st w"
  shows "bridge_inv (twrap_dtor w st) \<and> findPlugin (br_gateway (twrap_dtor w st)) (id_of w) = None
    \<and> px_find (id_of w) (br_plugins (twrap_dtor w st)) = None \<and> \<not> live_object (twrap_dtor w st) w"
proof -
  let ?st = "if tw_started (br_media st ! w) then snd (twrap_stop w st) else st"
  have "bridge_inv ?st" "live_object ?st w" using inv_start_stop [OF inv] inv w by (simp_all add: live_stop)
  from inv_removed [OF this] show ?thesis by (simp add: dtor_removed [OF inv w] flip: in_live)
qed

section \<open>Media\<close>

lemma cached_live:
  assumes inv: "bridge_inv st" and w: "live_object st w" and c: "cached_proxy w st = (pc, st1)"
  shows "pc = Some (id_of w)" "bridge_inv st1" "live_object st1 w" "br_gateway st1 = br_gateway st" "br_plugins st1 = br_plugins st"
    "tw_kind (br_media st1 ! w) = tw_kind (br_media st ! w)"
proof -
  have wn: "w < length (br_media st)" "tw_alive (br_media st ! w)" using w by (simp_all add: live_object_def)
  note found = found_kind [OF inv wn(1)] inv_cache [OF inv refl, of w]
  show "pc = Some (id_of w)" "bridge_inv st1" "live_object st1 w" "br_gateway st1 = br_gateway st" "br_plugins st1 = br_plugins st"
    "tw_kind (br_media st1 ! w) = tw_kind (br_media st ! w)"
    using c bridge_invD(1) [OF inv] bridge_invD(4) [OF inv wn(1)] wn found inv
    by (auto simp: cached_proxy_def Let_def object_ok_def proxy_of_def live_object_def set_media_nth split: option.splits)
qed

text \<open>The proxy a live object reaches its callback through.\<close>

lemma live_proxy:
  "bridge_inv st \<Longrightarrow> live_object st w \<Longrightarrow> px_find (id_of w) (br_plugins st) = Some (proxy_of st w)"
  by (simp add: px_find_live live_object_def)

text \<open>What the gateway asks for is asked of a live producer of the right kind.\<close>

definition targets_live :: "bridge \<Rightarrow> media_action list \<Rightarrow> bool" where
  "targets_live st acts \<longleftrightarrow>
     (\<forall>a \<in> set acts. \<exists>b. live_object st b \<and> action_target a = (id_of b, tw_kind (br_media st ! b)))"

lemma opposite_live:
  assumes inv: "bridge_inv st" and w: "w < length (br_media st)" and b: "m_oProducerOpposite (pm_objects (br_gateway st) ! w) = Some b"
  shows "b < length (br_media st)" "couples (tw_kind (br_media st ! w)) (tw_kind (br_media st ! b))"
    "m_bValid (pm_objects (br_gateway st) ! b) = tw_alive (br_media st ! b)" "pl_nId (pm_objects (br_gateway st) ! b) = id_of b"
proof -
  show *: "b < length (br_media st)" "couples (tw_kind (br_media st ! w)) (tw_kind (br_media st ! b))"
    using bridge_invD(8) [OF inv w] b by (simp_all add: plugin_matches_def Let_def)
  show "m_bValid (pm_objects (br_gateway st) ! b) = tw_alive (br_media st ! b)" "pl_nId (pm_objects (br_gateway st) ! b) = id_of b"
    using bridge_invD(8) [OF inv *(1)] by (simp_all add: plugin_matches_def Let_def)
qed

lemma couples_cases: "couples k k' \<longleftrightarrow> (k = AudioConsumer \<and> k' = AudioProducer) \<or> (k = VideoConsumer \<and> k' = VideoProducer)"
  by (cases k; cases k') simp_all

lemma push_targets:
  "push_audio api buf t r c p = (q, ret, acts) \<Longrightarrow> a \<in> set acts \<Longrightarrow> action_target a = (pl_nId p, AudioProducer)"
  "push_video api buf x y p = (q, ret, acts) \<Longrightarrow> a \<in> set acts \<Longrightarrow> action_target a = (pl_nId p, VideoProducer)"
  "sendRaw api buf p = (q, ret, acts) \<Longrightarrow> a \<in> set acts \<Longrightarrow> action_target a = (pl_nId p, VideoProducer)"
  by (auto simp: push_audio_def push_video_def sendRaw_def Let_def split: if_splits)

lemma consume_audio_targets:
  assumes inv: "bridge_inv st" and w: "w < length (br_media st)" "tw_kind (br_media st ! w) = AudioConsumer"
    and c: "consume_audio api w buf (br_gateway st) = (gw, ret, acts)"
  shows "targets_live st acts"
proof (cases "m_oProducerOpposite (pm_objects (br_gateway st) ! w)")
  case (Some b)
  note opp = opposite_live [OF inv w(1) Some]
  from c Some opp w(2) show ?thesis
    unfolding targets_live_def
    by (auto simp: consume_audio_def run_producer_def couples_cases live_object_def Let_def
        split: if_splits prod.splits dest!: push_targets(1))
qed (use c in \<open>simp add: consume_audio_def targets_live_def\<close>)

lemma consume_video_targets:
  assumes inv: "bridge_inv st" and w: "w < length (br_media st)" "tw_kind (br_media st ! w) = VideoConsumer"
    and c: "consume_video api w f (br_gateway st) = (gw, ret, acts)"
  shows "targets_live st acts"
proof (cases "m_oProducerOpposite (pm_objects (br_gateway st) ! w)")
  case (Some b)
  note opp = opposite_live [OF inv w(1) Some]
  from c Some opp w(2) show ?thesis
    unfolding targets_live_def
    by (auto simp: consume_video_def run_producer_def couples_cases live_object_def Let_def
        split: if_splits prod.splits option.splits dest!: push_targets(2,3))
qed (use c in \<open>simp add: consume_video_def targets_live_def split: option.splits\<close>)

lemma targets_keeps:
  assumes "keeps_media (br_media st ! w) f"
  shows "targets_live (set_media w f st) acts = targets_live st acts"
proof -
  have "tw_alive (br_media (set_media w f st) ! b) = tw_alive (br_media st ! b)" "tw_kind (br_media (set_media w f st) ! b) = tw_kind (br_media st ! b)"
    if "b < length (br_media st)" for b
    using keeps_mediaD [OF assms] by (simp_all add: set_media_nth(1) [OF that])
  then show ?thesis by (simp add: targets_live_def live_object_def set_media_nth(2) cong: conj_cong)
qed

lemma set_media_identity:
  assumes "keeps_media (br_media st ! w) f"
  shows "live_object (set_media w f st) b = live_object st b" "tw_kind (br_media (set_media w f st) ! b) = tw_kind (br_media st ! b)"
proof -
  have "tw_kind (br_media (set_media w f st) ! b) = tw_kind (br_media st ! b) \<and> tw_alive (br_media (set_media w f st) ! b) = tw_alive (br_media st ! b)"
    using keeps_mediaD [OF assms]
    by (cases "b = w"; cases "w < length (br_media st)") (simp_all add: set_media_def list_update_beyond)
  then show "live_object (set_media w f st) b = live_object st b" "tw_kind (br_media (set_media w f st) ! b) = tw_kind (br_media st ! b)"
    by (simp_all add: live_object_def set_media_nth(2))
qed

lemma run_action_same:
  assumes "run_action enc raw p a st = (st1, out)"
  shows "live_object st1 b = live_object st b" "tw_kind (br_media st1 ! b) = tw_kind (br_media st ! b)"
proof -
  have "st1 = st \<or> (\<exists>f. keeps_media (br_media st ! px_pWrappedPlugin p) f \<and> st1 = set_media (px_pWrappedPlugin p) f st)"
    using assms
    by (cases a) (auto simp: setActualSndCardRecordParams_def setActualCameraOutputSize_def intro: keeps_media_simps)
  then show "live_object st1 b = live_object st b" "tw_kind (br_media st1 ! b) = tw_kind (br_media st ! b)"
    by (auto simp: set_media_identity)
qed

lemma run_action_keeps:
  assumes "bridge_inv st"
  shows "bridge_inv (fst (run_action enc raw p a st))" "br_gateway (fst (run_action enc raw p a st)) = br_gateway st"
    "targets_live (fst (run_action enc raw p a st)) acts = targets_live st acts"
proof -
  have "fst (run_action enc raw p a st) = st \<or> (\<exists>f. keeps_media (br_media st ! px_pWrappedPlugin p) f \<and>
      fst (run_action enc raw p a st) = set_media (px_pWrappedPlugin p) f st)"
    by (cases a) (auto simp: setActualSndCardRecordParams_def setActualCameraOutputSize_def intro: keeps_media_simps)
  then show "bridge_inv (fst (run_action enc raw p a st))" "br_gateway (fst (run_action enc raw p a st)) = br_gateway st"
    "targets_live (fst (run_action enc raw p a st)) acts = targets_live st acts"
    using inv_set_media [OF assms] assms by (auto simp: targets_keeps)
qed

lemma run_media_total:
  "bridge_inv st \<Longrightarrow> targets_live st acts \<Longrightarrow>
     \<exists>st' out. run_media enc raw acts st = Some (st', out) \<and> bridge_inv st' \<and> br_gateway st' = br_gateway st"
proof (induction acts arbitrary: st)
  case (Cons a acts)
  from Cons.prems(2) obtain b where b: "live_object st b" "action_target a = (id_of b, tw_kind (br_media st ! b))"
    by (auto simp: targets_live_def)
  have found: "px_find_kind (tw_kind (br_media st ! b)) (id_of b) (br_plugins st) = Some (proxy_of st b)"
    using live_proxy [OF Cons.prems(1) b(1)] by (simp add: px_find_kind_def proxy_of_def)
  obtain st1 out1 where run: "run_action enc raw (proxy_of st b) a st = (st1, out1)" by fastforce
  note keeps = run_action_keeps [OF Cons.prems(1), of enc raw "proxy_of st b" a, unfolded run fst_conv]
  have "targets_live st1 acts" using Cons.prems(2) keeps(3) [of acts] by (simp add: targets_live_def)
  from Cons.IH [OF keeps(1) this] keeps(2) show ?case by (auto simp: b(2) found run)
qed simp


section \<open>Every reachable state\<close>

lemma targets_gateway: "targets_live (st\<lparr>br_gateway := gw\<rparr>) acts = targets_live st acts"
  by (simp add: targets_live_def live_object_def)

lemma cached_same:
  "cached_proxy w st = (pc, st1) \<Longrightarrow> live_object st1 v = live_object st v"
  by (auto simp: cached_proxy_def Let_def live_object_def set_media_nth split: option.splits if_splits)

lemma targets_cached:
  assumes "cached_proxy w st = (pc, st1)"
  shows "live_object st1 b = live_object st b" "tw_kind (br_media st1 ! b) = tw_kind (br_media st ! b)"
  using cached_same [OF assms] assms
  by (cases "b = w"; cases "w < length (br_media st)";
      auto simp: cached_proxy_def Let_def set_media_def list_update_beyond split: option.splits if_splits)+

text \<open>An object keeps its place and kind.\<close>

definition same_objects :: "bridge \<Rightarrow> bridge \<Rightarrow> bool" where
  "same_objects st st1 \<longleftrightarrow> (\<forall>b. live_object st1 b = live_object st b \<and> tw_kind (br_media st1 ! b) = tw_kind (br_media st ! b))"

lemma inv_bridge_start: "bridge_inv bridge_start"
  by (simp add: bridge_inv_def bridge_start_def live_def empty_plugins_def)

text \<open>
  A packet for a live consumer: the engine gets an answer, what the gateway asks for is done on live proxies,
  and the tables stay in agreement.
\<close>

lemma audio_total:
  assumes inv: "bridge_inv st" and w: "live_object st w" "tw_kind (br_media st ! w) = AudioConsumer"
  shows "\<exists>st1 ret acts st2 out. twrap_consume_audio api w buf st = Some (st1, ret, acts) \<and>
    run_media enc raw acts st1 = Some (st2, out) \<and> bridge_inv st2 \<and>
    consume_audio api w buf (br_gateway st) = (br_gateway st2, ret, acts) \<and>
    bridge_inv st1 \<and> targets_live st1 acts \<and> same_objects st st1"
proof -
  obtain pc st1 where c: "cached_proxy w st = (pc, st1)" by fastforce
  note live = cached_live [OF inv w(1) c]
  obtain gw ret acts where g: "consume_audio api w buf (br_gateway st1) = (gw, ret, acts)" by (metis prod_cases3)
  have t: "targets_live (st1\<lparr>br_gateway := gw\<rparr>) acts"
    using consume_audio_targets [OF live(2) _ _ g] live(3,6) w(2) by (simp add: targets_gateway live_object_def)
  have i: "bridge_inv (st1\<lparr>br_gateway := gw\<rparr>)" by (rule inv_gateway [OF live(2) gw_like_consume(1) [OF g]])
  from run_media_total [OF i t, of enc raw] obtain st2 out
    where "run_media enc raw acts (st1\<lparr>br_gateway := gw\<rparr>) = Some (st2, out)" "bridge_inv st2" "br_gateway st2 = gw" by auto
  moreover have "twrap_consume_audio api w buf st = Some (st1\<lparr>br_gateway := gw\<rparr>, ret, acts)"
    using live_proxy [OF live(2,3)] g by (simp add: twrap_consume_audio_def c live(1) proxy_of_def)
  moreover have "same_objects st (st1\<lparr>br_gateway := gw\<rparr>)"
    using targets_cached [OF c] by (simp add: same_objects_def live_object_def)
  ultimately show ?thesis using g live(4) i t by auto
qed

lemma video_total:
  assumes inv: "bridge_inv st" and w: "live_object st w" "tw_kind (br_media st ! w) = VideoConsumer"
  shows "\<exists>st1 ret acts st2 out. twrap_consume_video api jb w buf st = Some (st1, ret, acts) \<and>
    run_media enc raw acts st1 = Some (st2, out) \<and> bridge_inv st2 \<and>
    (br_gateway st2 = br_gateway st \<and> acts = [] \<or>
      (\<exists>f. frame_buf f = buf \<and> consume_video api w (Some f) (br_gateway st) = (br_gateway st2, ret, acts))) \<and>
    bridge_inv st1 \<and> targets_live st1 acts \<and> same_objects st st1"
proof -
  obtain pc st1 where c: "cached_proxy w st = (pc, st1)" by fastforce
  note live = cached_live [OF inv w(1) c]
  let ?f = "Some \<lparr>frame_buf = buf, frame_width = tw_width (br_media st1 ! w), frame_height = tw_height (br_media st1 ! w)\<rparr>"
  obtain gw ret acts where g: "consume_video api w ?f (br_gateway st1) = (gw, ret, acts)" by (metis prod_cases3)
  have t: "targets_live (st1\<lparr>br_gateway := gw\<rparr>) acts"
    using consume_video_targets [OF live(2) _ _ g] live(3,6) w(2) by (simp add: targets_gateway live_object_def)
  have i: "bridge_inv (st1\<lparr>br_gateway := gw\<rparr>)" by (rule inv_gateway [OF live(2) gw_like_consume(2) [OF g]])
  from run_media_total [OF i t, of enc raw] obtain st2 out
    where "run_media enc raw acts (st1\<lparr>br_gateway := gw\<rparr>) = Some (st2, out)" "bridge_inv st2" "br_gateway st2 = gw" by auto
  moreover have "twrap_consume_video api jb w buf st =
      (if buf = [] then Some (st, -1, []) else case jb of Some r \<Rightarrow> Some (st1, r, []) | None \<Rightarrow> Some (st1\<lparr>br_gateway := gw\<rparr>, ret, acts))"
    using live_proxy [OF live(2,3)] g
    by (cases "buf = []"; cases jb) (simp_all add: twrap_consume_video_def c live(1) proxy_of_def)
  moreover have "same_objects st st1" "same_objects st (st1\<lparr>br_gateway := gw\<rparr>)" "same_objects st st"
    using targets_cached [OF c] by (simp_all add: same_objects_def live_object_def)
  moreover have "targets_live st' []" for st' by (simp add: targets_live_def)
  moreover have "\<exists>f. frame_buf f = buf \<and> consume_video api w (Some f) (br_gateway st) = (gw, ret, acts)"
    using g live(4) by (intro exI [of _ "the ?f"]) simp
  ultimately show ?thesis using live(2,4) inv i t by (cases "buf = []"; cases jb) auto
qed

lemma bridge_step_inv [w2s_inv]: "bridge_step api enc raw st st' \<Longrightarrow> bridge_inv st \<Longrightarrow> bridge_inv st'"
proof (induction rule: bridge_step.induct)
  case (engine_create st be bd k)
  then show ?case using inv_ctor by blast
next
  case (engine_audio st w buf st1 ret acts st2 out)
  from audio_total [OF engine_audio.prems engine_audio.hyps(1,2), of api buf enc raw] engine_audio.hyps(3,4)
  show ?case by auto
next
  case (engine_video st w jb buf st1 ret acts st2 out)
  from video_total [OF engine_video.prems engine_video.hyps(1,2), of api jb buf enc raw] engine_video.hyps(3,4)
  show ?case by auto
qed (simp_all add: inv_prepare inv_start_stop inv_dtor inv_attach)

lemma bridge_reachable_inv: "bridge_reachable api enc raw st \<Longrightarrow> bridge_inv st"
  by (induction rule: bridge_reachable.induct) (auto intro: inv_bridge_start bridge_step_inv)


section \<open>The calls of the engine\<close>

lemma call_live: "bridge_inv st \<Longrightarrow> live_object st w \<Longrightarrow> call_plugin (callback_of w st) e st = (0, set_gateway (on_plugin w e) st)"
  by (simp add: callback_of_live call_plugin_def)

lemma live_refresh:
  "live_object (refresh_proxy w st) v = live_object st v" "br_gateway (refresh_proxy w st) = br_gateway st"
  "tw_kind (br_media (refresh_proxy w st) ! w) = tw_kind (br_media st ! w)"
  by (cases "w < length (br_media st)";
      auto simp: refresh_proxy_def Let_def live_object_def set_media_nth set_media_def list_update_beyond nth_list_update)+

lemma inv_refresh: "bridge_inv st \<Longrightarrow> bridge_inv (refresh_proxy w st)"
  using inv_cache [OF _ refl] by (simp add: refresh_proxy_def Let_def)

text \<open>
  The engine reaches the gateway: in every reachable state, preparing a live object with a codec,
  starting, pausing and stopping it succeed, and what the gateway sees is that one callback on the plugin of
  this object, with the parameters of the codec for its kind.
\<close>

theorem engine_calls_reach_gateway:
  assumes "bridge_reachable api enc raw st" "live_object st w"
  shows "fst (twrap_prepare (Some c) w st) = 0
      \<and> br_gateway (snd (twrap_prepare (Some c) w st)) = on_plugin w (prepare_event c (tw_kind (br_media st ! w))) (br_gateway st)
    \<and> fst (twrap_start w st) = 0 \<and> br_gateway (snd (twrap_start w st)) = on_plugin w Start (br_gateway st)
    \<and> fst (twrap_pause w st) = 0 \<and> br_gateway (snd (twrap_pause w st)) = on_plugin w Pause (br_gateway st)
    \<and> fst (twrap_stop w st) = 0 \<and> br_gateway (snd (twrap_stop w st)) = on_plugin w Stop (br_gateway st)"
proof -
  have inv: "bridge_inv st" by (rule bridge_reachable_inv [OF assms(1)])
  have "callback_of w (refresh_proxy w st) = Some w"
    by (rule callback_of_live [OF inv_refresh [OF inv]]) (simp add: live_refresh assms(2))
  then show ?thesis
    by (simp add: twrap_prepare_def twrap_start_def twrap_pause_def twrap_stop_def call_live [OF inv assms(2)]
        callback_of_live [OF inv assms(2)] call_plugin_def live_refresh set_gateway_def Let_def)
qed

section \<open>The gateway sees steps of its own\<close>

lemma one_step: "plugin_step api pm acts pm' \<Longrightarrow> plugin_steps api pm pm'"
  by (rule plugin_more [OF plugin_none])

lemma event_steps: "w < length (pm_objects pm) \<Longrightarrow> m_bValid (pm_objects pm ! w) \<Longrightarrow> plugin_steps api pm (on_plugin w e pm)"
  by (rule one_step [OF event])

lemma gateway_objects:
  assumes "bridge_inv st" "live_object st w"
  shows "w < length (pm_objects (br_gateway st))" "m_bValid (pm_objects (br_gateway st) ! w)"
    "pl_kind (pm_objects (br_gateway st) ! w) = tw_kind (br_media st ! w)" "pl_nId (pm_objects (br_gateway st) ! w) = id_of w"
  using bridge_invD(6) [OF assms(1)] bridge_invD(8) [OF assms(1), of w] assms(2)
  by (simp_all add: live_object_def plugin_matches_def Let_def)

lemma live_found: "bridge_inv st \<Longrightarrow> live_object st w \<Longrightarrow> findPlugin (br_gateway st) (id_of w) = Some \<lparr>ref_id = id_of w, ref_addr = w\<rparr>"
  by (auto simp: gateway_lookup)

lemma new_id_free:
  assumes "bridge_inv st" "Suc (length (br_media st)) < 2 ^ 64"
  shows "findPlugin (br_gateway st) (id_of (length (br_media st))) = None"
proof (rule ccontr)
  assume "\<not> ?thesis"
  then obtain w where w: "live_object st w" "id_of (length (br_media st)) = id_of w" by (auto simp: gateway_lookup [OF assms(1)])
  then have "w < length (br_media st)" by (simp add: live_object_def)
  then show False using w(2) id_of_eq [of "length (br_media st)" w] assms(2) by simp
qed

lemma stop_gateway:
  "bridge_inv st \<Longrightarrow> live_object st w \<Longrightarrow> br_gateway (snd (twrap_stop w st)) = on_plugin w Stop (br_gateway st)"
  by (simp add: twrap_stop_def callback_of_live call_plugin_def set_gateway_def)

lemma start_pause_gateway:
  "bridge_inv st \<Longrightarrow> live_object st w \<Longrightarrow> br_gateway (snd (twrap_start w st)) = on_plugin w Start (br_gateway st)"
  "bridge_inv st \<Longrightarrow> live_object st w \<Longrightarrow> br_gateway (snd (twrap_pause w st)) = on_plugin w Pause (br_gateway st)"
  by (simp_all add: twrap_start_def twrap_pause_def callback_of_live call_plugin_def set_gateway_def)

lemma dtor_gateway:
  assumes inv: "bridge_inv st" and w: "live_object st w"
  shows "br_gateway (twrap_dtor w st) = OnPluginDestroyed (id_of w) (tw_kind (br_media st ! w))
    (if tw_started (br_media st ! w) then on_plugin w Stop (br_gateway st) else br_gateway st)"
proof -
  have gone: "br_gateway (removed w st') = OnPluginDestroyed (tw_id (br_media st' ! w)) (tw_kind (br_media st' ! w)) (br_gateway st')" for st'
    by (simp add: removed_def removePlugin_def set_gateway_def)
  have "tw_id (br_media (snd (twrap_stop w st)) ! w) = tw_id (br_media st ! w)" "tw_kind (br_media (snd (twrap_stop w st)) ! w) = tw_kind (br_media st ! w)"
    using w by (simp_all add: twrap_stop_def call_plugin_def set_gateway_def set_media_nth live_object_def split: option.splits)
  then show ?thesis
    unfolding dtor_removed [OF inv w] gone using stop_gateway [OF inv w] bridge_invD(4) [OF inv, of w] w
    by (simp add: object_ok_def live_object_def)
qed

lemma dtor_steps:
  assumes inv: "bridge_inv st" and w: "live_object st w"
  shows "plugin_steps api (br_gateway st) (br_gateway (twrap_dtor w st))"
proof -
  note g = gateway_objects [OF inv w]
  let ?pm = "if tw_started (br_media st ! w) then on_plugin w Stop (br_gateway st) else br_gateway st"
  have "plugin_steps api (br_gateway st) ?pm" using event_steps [OF g(1,2)] plugin_none by simp
  moreover have "findPlugin ?pm (id_of w) = Some \<lparr>ref_id = id_of w, ref_addr = w\<rparr>" "pl_kind (pm_objects ?pm ! w) = tw_kind (br_media st ! w)"
    using live_found [OF inv w] g(1,3) by (simp_all add: on_plugin_def findPlugin_def stopCallback_def)
  ultimately show ?thesis
    unfolding dtor_gateway [OF inv w] by (intro plugin_more [OF _ destroyed]) auto
qed

text \<open>
  Every step of the engine and of the call logic is, for the table of the gateway, a sequence of its own
  steps, so that what is proved for those (theory \<open>Plugins\<close>) holds of the whole path.
\<close>

lemma step_refines:
  "bridge_step api enc raw st st' \<Longrightarrow> bridge_inv st \<Longrightarrow> plugin_steps api (br_gateway st) (br_gateway st')"
proof (induction rule: bridge_step.induct)
  case (engine_create st be bd k)
  then have "br_gateway (twrap_ctor be bd k st) = OnPluginCreated be bd (\<lambda>_ _. True) (id_of (length (br_media st))) k (br_gateway st)"
    using inv_ctor by blast
  then show ?case using one_step [OF created [OF new_id_free]] engine_create by simp
next
  case (engine_prepare st w c)
  then have "callback_of w (refresh_proxy w st) = Some w"
    by (intro callback_of_live inv_refresh) (simp_all add: live_refresh)
  then have "br_gateway (snd (twrap_prepare c w st)) \<in> insert (br_gateway st) (range (\<lambda>e. on_plugin w e (br_gateway st)))"
    by (cases c) (auto simp: twrap_prepare_def call_plugin_def live_refresh set_gateway_def Let_def)
  with engine_prepare show ?case by (auto intro: plugin_none event_steps [OF gateway_objects(1,2)])
next
  case (engine_audio st w buf st1 ret acts st2 out)
  from audio_total [OF engine_audio.prems engine_audio.hyps(1,2), of api buf enc raw] engine_audio.hyps(3,4)
  have "consume_audio api w buf (br_gateway st) = (br_gateway st2, ret, acts)" by auto
  with engine_audio gateway_objects [OF engine_audio.prems engine_audio.hyps(1)] show ?case by (intro one_step [OF audio]) auto
next
  case (engine_video st w jb buf st1 ret acts st2 out)
  from video_total [OF engine_video.prems engine_video.hyps(1,2), of api jb buf enc raw] engine_video.hyps(3,4)
  have "br_gateway st2 = br_gateway st \<or> (\<exists>f. consume_video api w f (br_gateway st) = (br_gateway st2, ret, acts))" by auto
  with engine_video gateway_objects [OF engine_video.prems engine_video.hyps(1)] show ?case
    by (auto intro: plugin_none one_step [OF video])
next
  case (calls_attach st i c j p)
  then show ?case by (simp add: set_gateway_def) (rule one_step [OF attach])
qed (auto simp: stop_gateway start_pause_gateway dtor_steps intro: event_steps gateway_objects)

section \<open>Delivery\<close>

fun payload :: "media_action \<Rightarrow> string option" where
  "payload (SetActualSndCardRecordParams _ _ _ _) = None"
| "payload (SetActualCameraOutputSize _ _ _) = None"
| "payload (PushAudio _ buf) = Some buf"
| "payload (PushVideo _ buf) = Some buf"
| "payload (SendRaw _ buf) = Some buf"

lemma push_payloads:
  "push_audio api buf t r c p = (q, ret, acts) \<Longrightarrow> a \<in> set acts \<Longrightarrow> payload a \<in> {None, Some buf} \<and> snd (action_target a) = AudioProducer"
  "push_video api buf x y p = (q, ret, acts) \<Longrightarrow> a \<in> set acts \<Longrightarrow> payload a \<in> {None, Some buf} \<and> snd (action_target a) = VideoProducer"
  "sendRaw api buf p = (q, ret, acts) \<Longrightarrow> a \<in> set acts \<Longrightarrow> payload a \<in> {None, Some buf} \<and> snd (action_target a) = VideoProducer"
  by (auto simp: push_audio_def push_video_def sendRaw_def Let_def split: if_splits)

lemma consume_payloads:
  "consume_audio api a buf gw = (gw', ret, acts) \<Longrightarrow> x \<in> set acts \<Longrightarrow> payload x \<in> {None, Some buf} \<and> snd (action_target x) = AudioProducer"
  "consume_video api a (Some f) gw = (gw', ret, acts) \<Longrightarrow> x \<in> set acts \<Longrightarrow> payload x \<in> {None, Some (frame_buf f)} \<and> snd (action_target x) = VideoProducer"
  by (auto simp: consume_audio_def consume_video_def run_producer_def Let_def split: option.splits if_splits prod.splits
      dest: push_payloads)

lemma run_action_out:
  "x \<in> set (snd (run_action enc raw p a st)) \<Longrightarrow> fst x = px_pWrappedPlugin p \<and> payload a = Some (snd x)"
  by (cases a) (auto simp: audio_push_def video_push_def video_sendRaw_def split: if_splits)

lemma run_media_out:
  "bridge_inv st \<Longrightarrow> targets_live st acts \<Longrightarrow> run_media enc raw acts st = Some (st', out) \<Longrightarrow> x \<in> set out \<Longrightarrow>
     live_object st (fst x) \<and> (\<exists>a \<in> set acts. snd (action_target a) = tw_kind (br_media st ! fst x) \<and> payload a = Some (snd x))"
proof (induction acts arbitrary: st st' out)
  case (Cons a acts)
  from Cons.prems(2) obtain b where b: "live_object st b" "action_target a = (id_of b, tw_kind (br_media st ! b))"
    by (auto simp: targets_live_def)
  have found: "px_find_kind (tw_kind (br_media st ! b)) (id_of b) (br_plugins st) = Some (proxy_of st b)"
    using live_proxy [OF Cons.prems(1) b(1)] by (simp add: px_find_kind_def proxy_of_def)
  obtain st1 out1 where run: "run_action enc raw (proxy_of st b) a st = (st1, out1)" by fastforce
  note keeps = run_action_keeps [OF Cons.prems(1), of enc raw "proxy_of st b" a, unfolded run fst_conv]
  have rest: "targets_live st1 acts" using Cons.prems(2) keeps(3) [of acts] by (simp add: targets_live_def)
  obtain out2 where out: "run_media enc raw acts st1 = Some (st', out2)" "out = out1 @ out2"
    using Cons.prems(3) by (auto simp: b(2) found run split: option.splits)
  show ?case
  proof (cases "x \<in> set out1")
    case True
    then have "fst x = px_pWrappedPlugin (proxy_of st b) \<and> payload a = Some (snd x)"
      by (intro run_action_out [of x enc raw "proxy_of st b" a st]) (simp add: run)
    then show ?thesis using b by (auto simp: proxy_of_def)
  next
    case False
    then have "x \<in> set out2" using Cons.prems(4) out(2) by simp
    from Cons.IH [OF keeps(1) rest out(1) this] show ?thesis by (auto simp: run_action_same [OF run])
  qed
qed simp


text \<open>What comes out of a packet, for any list of requests of the gateway that carries only this packet.\<close>

lemma outputs_live:
  assumes "bridge_inv st1" "targets_live st1 acts" "run_media enc raw acts st1 = Some (st2, out)"
    and "\<And>a. a \<in> set acts \<Longrightarrow> payload a \<in> {None, Some buf} \<and> snd (action_target a) = k"
    and "same_objects st st1"
  shows "\<forall>(b, data) \<in> set out. live_object st b \<and> tw_kind (br_media st ! b) = k \<and> data = buf"
  using run_media_out [OF assms(1-3)] assms(4,5) unfolding same_objects_def by fastforce

text \<open>
  C8. Media safety: in every reachable state the engine can hand a packet to any live consumer; no proxy that
  was deleted is used on the way, and whatever comes out of the gateway are the bytes of this packet, to live
  producers of the same medium only.
\<close>

theorem media_only_to_live_producers:
  assumes "bridge_reachable api enc raw st" "live_object st w"
  shows "(tw_kind (br_media st ! w) = AudioConsumer \<longrightarrow>
      (\<exists>st1 ret acts st2 out. twrap_consume_audio api w buf st = Some (st1, ret, acts) \<and> run_media enc raw acts st1 = Some (st2, out) \<and>
        (\<forall>(b, data) \<in> set out. live_object st b \<and> tw_kind (br_media st ! b) = AudioProducer \<and> data = buf)))
    \<and> (tw_kind (br_media st ! w) = VideoConsumer \<longrightarrow>
      (\<exists>st1 ret acts st2 out. twrap_consume_video api jb w buf st = Some (st1, ret, acts) \<and> run_media enc raw acts st1 = Some (st2, out) \<and>
        (\<forall>(b, data) \<in> set out. live_object st b \<and> tw_kind (br_media st ! b) = VideoProducer \<and> data = buf)))"
proof -
  have inv: "bridge_inv st" by (rule bridge_reachable_inv [OF assms(1)])
  have "\<exists>st1 ret acts st2 out. twrap_consume_audio api w buf st = Some (st1, ret, acts) \<and> run_media enc raw acts st1 = Some (st2, out) \<and>
        (\<forall>(b, data) \<in> set out. live_object st b \<and> tw_kind (br_media st ! b) = AudioProducer \<and> data = buf)"
    if kind: "tw_kind (br_media st ! w) = AudioConsumer"
  proof -
    from audio_total [OF inv assms(2) kind, of api buf enc raw] obtain st1 ret acts st2 out
      where *: "twrap_consume_audio api w buf st = Some (st1, ret, acts)" "run_media enc raw acts st1 = Some (st2, out)"
        "consume_audio api w buf (br_gateway st) = (br_gateway st2, ret, acts)"
        "bridge_inv st1" "targets_live st1 acts" "same_objects st st1" by blast
    from outputs_live [OF *(4,5,2) consume_payloads(1) [OF *(3)] *(6)] *(1,2) show ?thesis by blast
  qed
  moreover have "\<exists>st1 ret acts st2 out. twrap_consume_video api jb w buf st = Some (st1, ret, acts) \<and> run_media enc raw acts st1 = Some (st2, out) \<and>
        (\<forall>(b, data) \<in> set out. live_object st b \<and> tw_kind (br_media st ! b) = VideoProducer \<and> data = buf)"
    if kind: "tw_kind (br_media st ! w) = VideoConsumer"
  proof -
    from video_total [OF inv assms(2) kind, of api jb buf enc raw] obtain st1 ret acts st2 out
      where *: "twrap_consume_video api jb w buf st = Some (st1, ret, acts)" "run_media enc raw acts st1 = Some (st2, out)"
        "acts = [] \<or> (\<exists>f. frame_buf f = buf \<and> consume_video api w (Some f) (br_gateway st) = (br_gateway st2, ret, acts))"
        "bridge_inv st1" "targets_live st1 acts" "same_objects st st1" by blast
    have "payload a \<in> {None, Some buf} \<and> snd (action_target a) = VideoProducer" if "a \<in> set acts" for a
      using *(3) that consume_payloads(2) by fastforce
    from outputs_live [OF *(4,5,2) this *(6)] *(1,2) show ?thesis by blast
  qed
  ultimately show ?thesis by blast
qed


text \<open>
  C7. The tables agree: in every reachable state and for every object the engine ever created, its proxy is in the
  list of the manager, its plugin in the table of the gateway and that plugin valid exactly while the object lives; then
  the callback it reaches is its own plugin, of its own kind and id.
\<close>

theorem tables_agree:
  assumes "bridge_reachable api enc raw st" "w < length (br_media st)"
  shows "callback_of w st = (if tw_alive (br_media st ! w) then Some w else None)
    \<and> findPlugin (br_gateway st) (tw_id (br_media st ! w))
        = (if tw_alive (br_media st ! w) then Some \<lparr>ref_id = tw_id (br_media st ! w), ref_addr = w\<rparr> else None)
    \<and> m_bValid (pm_objects (br_gateway st) ! w) = tw_alive (br_media st ! w)
    \<and> pl_nId (pm_objects (br_gateway st) ! w) = tw_id (br_media st ! w)
    \<and> pl_kind (pm_objects (br_gateway st) ! w) = tw_kind (br_media st ! w)"
proof -
  have inv: "bridge_inv st" by (rule bridge_reachable_inv [OF assms(1)])
  have id: "tw_id (br_media st ! w) = id_of w" using bridge_invD(4) [OF inv assms(2)] by (simp add: object_ok_def)
  have "callback_of w st = (if tw_alive (br_media st ! w) then Some w else None)"
    using found_kind [OF inv assms(2)] bridge_invD(1) [OF inv] by (simp add: callback_of_def proxy_of_def)
  moreover have "findPlugin (br_gateway st) (id_of w) = Some r \<longleftrightarrow> tw_alive (br_media st ! w) \<and> r = \<lparr>ref_id = id_of w, ref_addr = w\<rparr>" for r
    using bridge_ids(1) [OF inv assms(2)] assms(2) by (auto simp: gateway_lookup [OF inv] live_object_def)
  then have "findPlugin (br_gateway st) (id_of w) = (if tw_alive (br_media st ! w) then Some \<lparr>ref_id = id_of w, ref_addr = w\<rparr> else None)"
    by (cases "findPlugin (br_gateway st) (id_of w)") auto
  ultimately show ?thesis
    using bridge_invD(8) [OF inv assms(2)] id by (simp add: plugin_matches_def Let_def)
qed

text \<open>
  C10. Audio crosses the gateway: a packet decoded on one leg for a live consumer that is attached to a live,
  started producer with an encoder reaches the encoder of that producer, once and unchanged; when the
  parameters of the two legs differ the engine object of the producer has those of the consumer.
\<close>

theorem audio_reaches_encoder:
  assumes "bridge_reachable api enc raw st" "live_object st w" "tw_kind (br_media st ! w) = AudioConsumer"
    and "m_oProducerOpposite (pm_objects (br_gateway st) ! w) = Some b" "live_object st b"
    and "pl_bStarted (pm_objects (br_gateway st) ! b)" "enc b" "setSndCard_ok api = (\<lambda>_ _ _. True)"
  shows "\<exists>st1 ret acts st2. twrap_consume_audio api w buf st = Some (st1, ret, acts) \<and> ret = push_ret api buf
    \<and> run_media enc raw acts st1 = Some (st2, [(b, buf)])
    \<and> (same_audio_params (pm_objects (br_gateway st) ! w) (pm_objects (br_gateway st) ! b)
       \<or> (tw_ptime (br_media st2 ! b) = p1 (pm_objects (br_gateway st) ! w) \<and> tw_rate (br_media st2 ! b) = p2 (pm_objects (br_gateway st) ! w)
          \<and> tw_channels (br_media st2 ! b) = p3 (pm_objects (br_gateway st) ! w)))"
proof -
  let ?c = "pm_objects (br_gateway st) ! w" and ?p = "pm_objects (br_gateway st) ! b"
  have inv: "bridge_inv st" by (rule bridge_reachable_inv [OF assms(1)])
  have wn: "w < length (br_media st)" using assms(2) by (simp add: live_object_def)
  note opp = opposite_live [OF inv wn assms(4)]
  have kind: "tw_kind (br_media st ! b) = AudioProducer" using opp(2) assms(3) by (simp add: couples_cases)
  obtain st1 ret acts st2 out where run: "twrap_consume_audio api w buf st = Some (st1, ret, acts)"
    "run_media enc raw acts st1 = Some (st2, out)" "consume_audio api w buf (br_gateway st) = (br_gateway st2, ret, acts)"
    "bridge_inv st1" "same_objects st st1"
    using audio_total [OF inv assms(2,3), of api buf enc raw] by blast
  have b1: "live_object st1 b" "tw_kind (br_media st1 ! b) = AudioProducer" using run(5) assms(5) kind by (simp_all add: same_objects_def)
  then have bn: "b < length (br_media st1)" by (simp add: live_object_def)
  have found: "px_find_kind AudioProducer (id_of b) (br_plugins st1) = Some (proxy_of st1 b)"
    using live_proxy [OF run(4) b1(1)] b1(2) by (simp add: px_find_kind_def proxy_of_def)
  have "m_bValid ?p" using opp(3) assms(5) by (simp add: live_object_def)
  then have acts: "ret = push_ret api buf" "acts = (if same_audio_params ?c ?p then [] else
      [SetActualSndCardRecordParams (id_of b) (p1 ?c) (p2 ?c) (p3 ?c)]) @ [PushAudio (id_of b) buf]"
    using run(3) assms(4,6,8) opp(4)
    by (auto simp: consume_audio_def run_producer_def push_audio_def same_audio_params_def Let_def split: if_splits)
  have push: "audio_push enc (proxy_of st' b) buf = [(b, buf)]" for st' using assms(7) by (simp add: audio_push_def proxy_of_def)
  show ?thesis
  proof (cases "same_audio_params ?c ?p")
    case True
    then show ?thesis using run(1,2) acts found push by (intro exI conjI) (auto split: option.splits)
  next
    case False
    let ?st2 = "setActualSndCardRecordParams (proxy_of st1 b) (p1 ?c) (p2 ?c) (p3 ?c) st1"
    have "run_media enc raw acts st1 = Some (?st2, [(b, buf)])"
      using False acts(2) found push by (simp add: setActualSndCardRecordParams_def)
    moreover have "br_media ?st2 ! b = (br_media st1 ! b)\<lparr>tw_ptime := p1 ?c, tw_rate := p2 ?c, tw_channels := p3 ?c\<rparr>"
      using bn by (simp add: setActualSndCardRecordParams_def set_media_def proxy_of_def)
    ultimately show ?thesis using run(1) acts(1) by fastforce
  qed
qed


text \<open>An object that cannot be stopped counts as started, whatever it was before.\<close>

theorem failed_stop_counts_as_started:
  assumes "w < length (br_media st)" "callback_of w st = None" "tw_kind (br_media st ! w) \<noteq> VideoProducer"
  shows "fst (twrap_stop w st) = -1 \<and> tw_started (br_media (snd (twrap_stop w st)) ! w)"
  using assms by (simp add: twrap_stop_def call_plugin_def set_media_nth(1))

section \<open>One call of audio, as data for the witnesses\<close>

definition demo_bridge :: bridge where
  "demo_bridge = snd (twrap_start 1 (set_gateway (setProducerOpposite \<lparr>ref_id = 1, ref_addr = 0\<rparr> \<lparr>ref_id = 2, ref_addr = 1\<rparr>)
     (twrap_ctor True True AudioProducer (twrap_ctor True True AudioConsumer bridge_start))))"

definition demo_legs :: bridge where
  "demo_legs = twrap_ctor True True AudioProducer (twrap_ctor True True AudioConsumer bridge_start)"

lemma demo_legs_fields:
  "br_media demo_legs = [new_twrap AudioConsumer 1, new_twrap AudioProducer 2]"
  "pm_objects (br_gateway demo_legs) = [new_plugin True True AudioConsumer 1, new_plugin True True AudioProducer 2]"
  "findPlugin (br_gateway demo_legs) 1 = Some \<lparr>ref_id = 1, ref_addr = 0\<rparr>"
  "findPlugin (br_gateway demo_legs) 2 = Some \<lparr>ref_id = 2, ref_addr = 1\<rparr>"
  by (simp_all add: demo_legs_def bridge_start_def twrap_ctor_def getUniqueId_def addPlugin_def px_find_def gateway_created_def
      px_find_kind_def set_gateway_def setCallback_def OnPluginCreated_def insertPlugin_def findPlugin_def map_find_def
      empty_plugins_def Let_def)

lemma demo_bridge_reachable: "bridge_reachable api enc raw demo_bridge"
proof -
  have "bridge_reachable api enc raw demo_legs"
    unfolding demo_legs_def
    by (intro bridge_next [OF bridge_next [OF bridge_initial engine_create] engine_create])
      (simp_all add: bridge_start_def twrap_ctor_def getUniqueId_def addPlugin_def px_find_def gateway_created_def
        px_find_kind_def set_gateway_def setCallback_def Let_def)
  then have "bridge_reachable api enc raw (set_gateway (setProducerOpposite \<lparr>ref_id = 1, ref_addr = 0\<rparr> \<lparr>ref_id = 2, ref_addr = 1\<rparr>) demo_legs)"
    by (rule bridge_next) (rule calls_attach [OF demo_legs_fields(3,4)], simp add: demo_legs_fields)
  then show ?thesis
    unfolding demo_bridge_def demo_legs_def [symmetric]
    by (rule bridge_next) (rule engine_start, simp add: live_object_def set_gateway_def demo_legs_fields new_twrap_def)
qed

lemma demo_bridge_fields:
  "br_media demo_bridge = [new_twrap AudioConsumer 1, (new_twrap AudioProducer 2)\<lparr>tw_started := True\<rparr>]"
  "pm_objects (br_gateway demo_bridge) =
     [(new_plugin True True AudioConsumer 1)\<lparr>m_oProducerOpposite := Some 1\<rparr>, startCallback (new_plugin True True AudioProducer 2)]"
proof -
  let ?st = "set_gateway (setProducerOpposite \<lparr>ref_id = 1, ref_addr = 0\<rparr> \<lparr>ref_id = 2, ref_addr = 1\<rparr>) demo_legs"
  have inv: "bridge_inv demo_legs" unfolding demo_legs_def
    using inv_ctor [OF inv_bridge_start] by (simp add: bridge_start_def inv_ctor)
  have st: "bridge_inv ?st" by (rule inv_attach [OF inv demo_legs_fields(3,4)]) (simp add: demo_legs_fields)
  have media: "br_media ?st = [new_twrap AudioConsumer 1, new_twrap AudioProducer 2]"
    "pm_objects (br_gateway ?st) = [(new_plugin True True AudioConsumer 1)\<lparr>m_oProducerOpposite := Some 1\<rparr>, new_plugin True True AudioProducer 2]"
    by (simp_all add: set_gateway_def setProducerOpposite_def demo_legs_fields)
  have "live_object ?st 1" unfolding live_object_def media(1) by (simp add: new_twrap_def)
  note cb = callback_of_live [OF st this]
  show "br_media demo_bridge = [new_twrap AudioConsumer 1, (new_twrap AudioProducer 2)\<lparr>tw_started := True\<rparr>]"
    "pm_objects (br_gateway demo_bridge) =
     [(new_plugin True True AudioConsumer 1)\<lparr>m_oProducerOpposite := Some 1\<rparr>, startCallback (new_plugin True True AudioProducer 2)]"
    unfolding demo_bridge_def demo_legs_def [symmetric]
    unfolding twrap_start_def cb call_plugin_def option.case prod.case set_gateway_def [of "on_plugin 1 Start"] on_plugin_def
    by (simp_all add: set_media_def media [unfolded One_nat_def])
qed

lemma demo_bridge_live: "live_object demo_bridge 0" "live_object demo_bridge 1"
  by (simp_all add: live_object_def demo_bridge_fields new_twrap_def)


abbreviation "always \<equiv> \<lambda>_ :: nat. True"

lemmas demo_run = demo_bridge_reachable [of demo_api always always]

theorem engine_calls_reach_gateway_witness:
  "fst (twrap_pause 0 demo_bridge) = 0 \<and> br_gateway (snd (twrap_pause 0 demo_bridge)) = on_plugin 0 Pause (br_gateway demo_bridge)"
  using engine_calls_reach_gateway [OF demo_run demo_bridge_live(1)] by blast

theorem media_only_to_live_producers_witness:
  "\<exists>st1 ret acts st2 out. twrap_consume_audio demo_api 0 ''a'' demo_bridge = Some (st1, ret, acts)
     \<and> run_media always always acts st1 = Some (st2, out)"
  using media_only_to_live_producers [OF demo_run demo_bridge_live(1), of "''a''"] by (auto simp: demo_bridge_fields new_twrap_def)

theorem tables_agree_witness: "callback_of 0 demo_bridge = Some 0 \<and> m_bValid (pm_objects (br_gateway demo_bridge) ! 0)"
  using tables_agree [OF demo_run, of 0] by (simp add: demo_bridge_fields new_twrap_def)

theorem audio_reaches_encoder_witness:
  "\<exists>st1 acts st2. twrap_consume_audio demo_api 0 ''a'' demo_bridge = Some (st1, 0, acts)
     \<and> run_media always always acts st1 = Some (st2, [(1, ''a'')])"
proof -
  have "tw_kind (br_media demo_bridge ! 0) = AudioConsumer"
    "m_oProducerOpposite (pm_objects (br_gateway demo_bridge) ! 0) = Some 1" "pl_bStarted (pm_objects (br_gateway demo_bridge) ! 1)"
    "setSndCard_ok demo_api = (\<lambda>_ _ _. True)" "push_ret demo_api ''a'' = 0"
    by (simp_all add: demo_bridge_fields new_twrap_def startCallback_def demo_api_def)
  with audio_reaches_encoder [OF demo_run demo_bridge_live(1) _ _ demo_bridge_live(2), of "''a''"] show ?thesis by fastforce
qed

theorem failed_stop_counts_as_started_witness:
  "tw_started (br_media (snd (twrap_stop 0 (demo_bridge\<lparr>br_instance := False\<rparr>))) ! 0)"
  using failed_stop_counts_as_started [of 0 "demo_bridge\<lparr>br_instance := False\<rparr>"]
  by (simp add: callback_of_def demo_bridge_fields new_twrap_def)

end
