(* ===== verification/MediaCalls.thy ===== *)
theory MediaCalls
  imports MediaPath
begin

text \<open>
  The contract of the media path towards the engine. The calls of the engine on its objects, with the
  value each returns and the packets that reach encoders, go through proxies, ids, cached pointers and two
  tables (theories \<open>Proxy\<close>, \<open>MediaPath\<close>); the contract knows none of these: it is a list of plugins, and
  each call acts on the plugin of its object.
\<close>

section \<open>Runs of calls\<close>

text \<open>None is a call that is not permitted in the state, or that aborts.\<close>

fun run_calls :: "('c \<Rightarrow> 's \<Rightarrow> ('s \<times> 'a) option) \<Rightarrow> 'c list \<Rightarrow> 's \<Rightarrow> ('s \<times> 'a list) option" where
  "run_calls exec [] s = Some (s, [])"
| "run_calls exec (c # cs) s =
     (case exec c s of
        None \<Rightarrow> None
      | Some (s1, a) \<Rightarrow> (case run_calls exec cs s1 of None \<Rightarrow> None | Some (s2, as) \<Rightarrow> Some (s2, a # as)))"

locale functional_refinement =
  fixes exec :: "'c \<Rightarrow> 's \<Rightarrow> ('s \<times> 'a) option" and spec :: "'c \<Rightarrow> 't \<Rightarrow> ('t \<times> 'a) option"
    and view :: "'s \<Rightarrow> 't" and good :: "'s \<Rightarrow> bool"
  assumes one_call: "good s \<Longrightarrow> spec c (view s) = map_option (map_prod view id) (exec c s)"
    and kept: "good s \<Longrightarrow> exec c s = Some (s1, a) \<Longrightarrow> good s1"
begin

lemma same_runs: "good s \<Longrightarrow> run_calls spec cs (view s) = map_option (map_prod view id) (run_calls exec cs s)"
proof (induction cs arbitrary: s)
  case (Cons c cs)
  show ?case
  proof (cases "exec c s")
    case None
    then show ?thesis using one_call [OF Cons.prems, of c] by simp
  next
    case (Some r)
    obtain s1 a where r: "r = (s1, a)" by fastforce
    have "good s1" using kept [OF Cons.prems] Some r by simp
    from Cons.IH [OF this] show ?thesis
      using one_call [OF Cons.prems, of c] Some r by (simp split: option.split)
  qed
qed simp

end

section \<open>The calls\<close>

text \<open>
  \<open>Couple\<close> is the call logic: it looks the plugins of two objects up by their ids and couples a consumer
  with a producer of the same medium when it finds both (theory \<open>Calls\<close>). A call answers with the value it
  returns and the packets that reached the encoder of an object.
\<close>

datatype engine_call =
    Create bool bool plugin_kind
  | PrepareFor nat "codec option"
  | StartObject nat
  | PauseObject nat
  | StopObject nat
  | Destroy nat
  | AudioIn nat string
  | VideoIn nat "int option" string
  | Couple nat nat

type_synonym answer = "int \<times> (nat \<times> string) list"

definition on_live :: "bridge \<Rightarrow> nat \<Rightarrow> (bridge \<Rightarrow> int \<times> bridge) \<Rightarrow> (bridge \<times> answer) option" where
  "on_live st w f = (if live_object st w then (case f st of (ret, st1) \<Rightarrow> Some (st1, ret, [])) else None)"

definition deliver :: "(nat \<Rightarrow> bool) \<Rightarrow> (nat \<Rightarrow> bool) \<Rightarrow> (bridge \<times> int \<times> media_action list) option \<Rightarrow> (bridge \<times> answer) option" where
  "deliver enc raw r =
     (case r of
        None \<Rightarrow> None
      | Some (st1, ret, acts) \<Rightarrow>
          (case run_media enc raw acts st1 of None \<Rightarrow> None | Some (st2, out) \<Rightarrow> Some (st2, ret, out)))"

definition coupled :: "nat \<Rightarrow> nat \<Rightarrow> bridge \<Rightarrow> bridge" where
  "coupled v w st =
     (case (findPlugin (br_gateway st) (tw_id (br_media st ! v)), findPlugin (br_gateway st) (tw_id (br_media st ! w))) of
        (Some c, Some p) \<Rightarrow> set_gateway (setProducerOpposite c p) st
      | _ \<Rightarrow> st)"

fun engine_exec :: "producer_api \<Rightarrow> (nat \<Rightarrow> bool) \<Rightarrow> (nat \<Rightarrow> bool) \<Rightarrow> engine_call \<Rightarrow> bridge \<Rightarrow> (bridge \<times> answer) option" where
  "engine_exec api enc raw (Create be bd k) st =
     (if Suc (length (br_media st)) < 2 ^ 64 then Some (twrap_ctor be bd k st, 0, []) else None)"
| "engine_exec api enc raw (PrepareFor w c) st = on_live st w (twrap_prepare c w)"
| "engine_exec api enc raw (StartObject w) st = on_live st w (twrap_start w)"
| "engine_exec api enc raw (PauseObject w) st = on_live st w (twrap_pause w)"
| "engine_exec api enc raw (StopObject w) st = on_live st w (twrap_stop w)"
| "engine_exec api enc raw (Destroy w) st = on_live st w (\<lambda>st. (0, twrap_dtor w st))"
| "engine_exec api enc raw (AudioIn w buf) st =
     (if live_object st w \<and> tw_kind (br_media st ! w) = AudioConsumer
      then deliver enc raw (twrap_consume_audio api w buf st) else None)"
| "engine_exec api enc raw (VideoIn w jb buf) st =
     (if live_object st w \<and> tw_kind (br_media st ! w) = VideoConsumer
      then deliver enc raw (twrap_consume_video api jb w buf st) else None)"
| "engine_exec api enc raw (Couple v w) st =
     (if v < length (br_media st) \<and> w < length (br_media st) \<and> couples (tw_kind (br_media st ! v)) (tw_kind (br_media st ! w))
      then Some (coupled v w st, 0, []) else None)"

section \<open>The contract\<close>

definition usable :: "MPProxyPlugin list \<Rightarrow> nat \<Rightarrow> bool" where
  "usable ps w \<longleftrightarrow> w < length ps \<and> m_bValid (ps ! w)"

definition on_usable :: "MPProxyPlugin list \<Rightarrow> nat \<Rightarrow> (MPProxyPlugin \<Rightarrow> MPProxyPlugin) \<Rightarrow> (MPProxyPlugin list \<times> answer) option" where
  "on_usable ps w f = (if usable ps w then Some (ps[w := f (ps ! w)], 0, []) else None)"

fun codec_params :: "codec \<Rightarrow> plugin_kind \<Rightarrow> i32 \<times> i32 \<times> i32" where
  "codec_params c AudioConsumer = (cd_ptime_dec c, cd_rate_dec c, cd_channels_dec c)"
| "codec_params c AudioProducer = (cd_ptime_enc c, cd_rate_enc c, cd_channels_enc c)"
| "codec_params c VideoConsumer = (cd_in_width c, cd_in_height c, cd_in_fps c)"
| "codec_params c VideoProducer = (cd_out_width c, cd_out_height c, cd_out_fps c)"

definition with_codec :: "codec \<Rightarrow> MPProxyPlugin \<Rightarrow> MPProxyPlugin" where
  "with_codec c p = (case codec_params c (pl_kind p) of (x, y, z) \<Rightarrow> p\<lparr>p1 := x, p2 := y, p3 := z, m_bPrepared := Some True\<rparr>)"

text \<open>The size of the frames of a video consumer: none before it is prepared.\<close>

definition frame_size :: "MPProxyPlugin \<Rightarrow> i32 \<times> i32" where
  "frame_size c = (if m_bPrepared c = Some True then (p1 c, p2 c) else (0, 0))"

text \<open>The producer a packet of a consumer goes to: the coupled one, when it is valid and started.\<close>

definition sink :: "MPProxyPlugin list \<Rightarrow> nat \<Rightarrow> nat option" where
  "sink ps w = (case m_oProducerOpposite (ps ! w) of
     Some b \<Rightarrow> if m_bValid (ps ! b) \<and> pl_bStarted (ps ! b) then Some b else None
   | None \<Rightarrow> None)"

definition audio_contract :: "producer_api \<Rightarrow> (nat \<Rightarrow> bool) \<Rightarrow> nat \<Rightarrow> string \<Rightarrow> MPProxyPlugin list \<Rightarrow> MPProxyPlugin list \<times> answer" where
  "audio_contract api enc w buf ps =
     (case sink ps w of
        None \<Rightarrow> (ps, 0, [])
      | Some b \<Rightarrow>
          let c = ps ! w;
              ps1 = ps[b := (ps ! b)\<lparr>p1 := p1 c, p2 := p2 c, p3 := p3 c\<rparr>]
          in if same_audio_params c (ps ! b) \<or> setSndCard_ok api (p1 c) (p2 c) (p3 c)
             then (ps1, push_ret api buf, if enc b then [(b, buf)] else [])
             else (ps1, -1, []))"

definition video_contract ::
  "producer_api \<Rightarrow> (nat \<Rightarrow> bool) \<Rightarrow> (nat \<Rightarrow> bool) \<Rightarrow> nat \<Rightarrow> string \<Rightarrow> MPProxyPlugin list \<Rightarrow> MPProxyPlugin list \<times> answer" where
  "video_contract api enc raw w buf ps =
     (case sink ps w of
        None \<Rightarrow> (ps, 0, [])
      | Some b \<Rightarrow>
          if m_bByPass (ps ! b) then (ps, sendRaw_ret api buf, if raw b then [(b, buf)] else [])
          else
            let (x, y) = frame_size (ps ! w) in
            if p1 (ps ! b) = x \<and> p2 (ps ! b) = y \<or> setCamera_ok api x y
            then (ps[b := (ps ! b)\<lparr>p1 := x, p2 := y\<rparr>], push_ret api buf, if enc b then [(b, buf)] else [])
            else (ps, -1, []))"

fun contract :: "producer_api \<Rightarrow> (nat \<Rightarrow> bool) \<Rightarrow> (nat \<Rightarrow> bool) \<Rightarrow> engine_call \<Rightarrow> MPProxyPlugin list \<Rightarrow> (MPProxyPlugin list \<times> answer) option" where
  "contract api enc raw (Create be bd k) ps =
     (if Suc (length ps) < 2 ^ 64 then Some (ps @ [new_plugin be bd k (of_nat (Suc (length ps)))], 0, []) else None)"
| "contract api enc raw (PrepareFor w None) ps = (if usable ps w then Some (ps, -1, []) else None)"
| "contract api enc raw (PrepareFor w (Some c)) ps = on_usable ps w (with_codec c)"
| "contract api enc raw (StartObject w) ps = on_usable ps w (\<lambda>p. p\<lparr>pl_bStarted := True\<rparr>)"
| "contract api enc raw (PauseObject w) ps = on_usable ps w (\<lambda>p. p\<lparr>m_bPaused := True\<rparr>)"
| "contract api enc raw (StopObject w) ps = on_usable ps w (\<lambda>p. p\<lparr>pl_bStarted := False\<rparr>)"
| "contract api enc raw (Destroy w) ps = on_usable ps w (\<lambda>p. p\<lparr>pl_bStarted := False, m_bValid := False\<rparr>)"
| "contract api enc raw (AudioIn w buf) ps =
     (if usable ps w \<and> pl_kind (ps ! w) = AudioConsumer then Some (audio_contract api enc w buf ps) else None)"
| "contract api enc raw (VideoIn w jb buf) ps =
     (if usable ps w \<and> pl_kind (ps ! w) = VideoConsumer
      then Some (if buf = [] then (ps, -1, [])
                 else case jb of Some ret \<Rightarrow> (ps, ret, []) | None \<Rightarrow> video_contract api enc raw w buf ps)
      else None)"
| "contract api enc raw (Couple v w) ps =
     (if v < length ps \<and> w < length ps \<and> couples (pl_kind (ps ! v)) (pl_kind (ps ! w))
      then Some (if usable ps v \<and> usable ps w then ps[v := (ps ! v)\<lparr>m_oProducerOpposite := Some w\<rparr>] else ps, 0, [])
      else None)"

section \<open>The engine's own state\<close>

text \<open>
  What the objects of the engine repeat of their plugins: whether they are started, and for a consumer of
  video the size of its frames.
\<close>

definition legs :: "bridge \<Rightarrow> MPProxyPlugin list" where "legs st = pm_objects (br_gateway st)"

definition in_step :: "twrap \<Rightarrow> MPProxyPlugin \<Rightarrow> bool" where
  "in_step m p \<longleftrightarrow> tw_started m = pl_bStarted p \<and> (tw_kind m = VideoConsumer \<longrightarrow> (tw_width m, tw_height m) = frame_size p)"

definition path_inv :: "bridge \<Rightarrow> bool" where
  "path_inv st \<longleftrightarrow> bridge_inv st \<and> (\<forall>w < length (br_media st). in_step (br_media st ! w) (legs st ! w))"

lemma path_invD:
  assumes "path_inv st"
  shows "bridge_inv st" "w < length (br_media st) \<Longrightarrow> in_step (br_media st ! w) (legs st ! w)"
  using assms by (simp_all add: path_inv_def)

lemma legs_match:
  assumes "bridge_inv st"
  shows "length (legs st) = length (br_media st)"
    and "w < length (br_media st) \<Longrightarrow> pl_kind (legs st ! w) = tw_kind (br_media st ! w)"
    and "w < length (br_media st) \<Longrightarrow> m_bValid (legs st ! w) = tw_alive (br_media st ! w)"
    and "w < length (br_media st) \<Longrightarrow> pl_nId (legs st ! w) = id_of w"
    and "usable (legs st) w = live_object st w"
  using bridge_invD(6) [OF assms] bridge_invD(8) [OF assms, of w]
  by (auto simp: legs_def plugin_matches_def Let_def usable_def live_object_def)

text \<open>What changes neither the started flag of an object nor the frame size of a consumer of video.\<close>

definition quiet :: "bridge \<Rightarrow> bridge \<Rightarrow> bool" where
  "quiet st st1 \<longleftrightarrow> length (br_media st1) = length (br_media st) \<and>
     (\<forall>w < length (br_media st). tw_started (br_media st1 ! w) = tw_started (br_media st ! w) \<and> tw_kind (br_media st1 ! w) = tw_kind (br_media st ! w)
        \<and> (tw_kind (br_media st ! w) = VideoConsumer \<longrightarrow>
             tw_width (br_media st1 ! w) = tw_width (br_media st ! w) \<and> tw_height (br_media st1 ! w) = tw_height (br_media st ! w)))"

lemma quiet_refl [simp]: "quiet st st"
  by (simp add: quiet_def)

lemma quiet_trans: "quiet st st1 \<Longrightarrow> quiet st1 st2 \<Longrightarrow> quiet st st2"
  by (auto simp: quiet_def)

lemma quiet_gateway [simp]: "quiet st (st1\<lparr>br_gateway := gw\<rparr>) = quiet st st1"
  by (simp add: quiet_def)

lemma quiet_cached: "cached_proxy w st = (pc, st1) \<Longrightarrow> quiet st st1"
  by (auto simp: cached_proxy_def Let_def quiet_def set_media_nth split: option.splits if_splits)

lemma quiet_action:
  assumes "px_find_kind (snd (action_target a)) i (br_plugins st) = Some (proxy_of st b)"
  shows "quiet st (fst (run_action enc raw (proxy_of st b) a st))"
proof -
  have "tw_kind (br_media st ! b) = snd (action_target a)"
    using assms by (auto simp: px_find_kind_def proxy_of_def split: option.splits if_splits)
  then show ?thesis
    by (cases a) (auto simp: quiet_def setActualSndCardRecordParams_def setActualCameraOutputSize_def set_media_nth proxy_of_def)
qed

lemma quiet_run:
  "bridge_inv st \<Longrightarrow> targets_live st acts \<Longrightarrow> run_media enc raw acts st = Some (st', out) \<Longrightarrow> quiet st st'"
proof (induction acts arbitrary: st st' out)
  case (Cons a acts)
  from Cons.prems(2) obtain b where b: "live_object st b" "action_target a = (id_of b, tw_kind (br_media st ! b))"
    by (auto simp: targets_live_def)
  have found: "px_find_kind (snd (action_target a)) (id_of b) (br_plugins st) = Some (proxy_of st b)"
    using live_proxy [OF Cons.prems(1) b(1)] b(2) by (simp add: px_find_kind_def proxy_of_def)
  obtain st1 out1 where run: "run_action enc raw (proxy_of st b) a st = (st1, out1)" by fastforce
  note keeps = run_action_keeps [OF Cons.prems(1), of enc raw "proxy_of st b" a, unfolded run fst_conv]
  have rest: "targets_live st1 acts" using Cons.prems(2) keeps(3) [of acts] by (simp add: targets_live_def)
  obtain out2 where out: "run_media enc raw acts st1 = Some (st', out2)"
    using Cons.prems(3) b(2) found run by (auto split: option.splits)
  from quiet_action [OF found, of enc raw] Cons.IH [OF keeps(1) rest out] show ?case by (simp add: run quiet_trans)
qed simp

text \<open>What reaches encoders when a live producer is pushed to.\<close>

lemma run_pushes:
  assumes "bridge_inv st" "live_object st b"
  shows "tw_kind (br_media st ! b) = AudioProducer \<Longrightarrow>
      map_option snd (run_media enc raw [PushAudio (id_of b) buf] st) = Some (if enc b then [(b, buf)] else [])"
    and "tw_kind (br_media st ! b) = AudioProducer \<Longrightarrow>
      map_option snd (run_media enc raw [SetActualSndCardRecordParams (id_of b) x y z] st) = Some []"
    and "tw_kind (br_media st ! b) = AudioProducer \<Longrightarrow>
      map_option snd (run_media enc raw [SetActualSndCardRecordParams (id_of b) x y z, PushAudio (id_of b) buf] st)
        = Some (if enc b then [(b, buf)] else [])"
    and "tw_kind (br_media st ! b) = VideoProducer \<Longrightarrow>
      map_option snd (run_media enc raw [SendRaw (id_of b) buf] st) = Some (if raw b then [(b, buf)] else [])"
    and "tw_kind (br_media st ! b) = VideoProducer \<Longrightarrow>
      map_option snd (run_media enc raw [SetActualCameraOutputSize (id_of b) x y] st) = Some []"
    and "tw_kind (br_media st ! b) = VideoProducer \<Longrightarrow> tw_started (br_media st ! b) \<Longrightarrow>
      map_option snd (run_media enc raw [PushVideo (id_of b) buf] st) = Some (if enc b then [(b, buf)] else [])"
    and "tw_kind (br_media st ! b) = VideoProducer \<Longrightarrow> tw_started (br_media st ! b) \<Longrightarrow>
      map_option snd (run_media enc raw [SetActualCameraOutputSize (id_of b) x y, PushVideo (id_of b) buf] st)
        = Some (if enc b then [(b, buf)] else [])"
proof -
  have found: "px_find_kind (tw_kind (br_media st ! b)) (id_of b) (br_plugins st) = Some (proxy_of st b)"
    using live_proxy [OF assms] by (simp add: px_find_kind_def proxy_of_def)
  have px: "px_pWrappedPlugin (proxy_of st b) = b" by (simp add: proxy_of_def)
  have bn: "b < length (br_media st)" using assms(2) by (simp add: live_object_def)
  note defs = found px audio_push_def video_push_def video_sendRaw_def setActualSndCardRecordParams_def setActualCameraOutputSize_def
    set_media_nth(1) [OF bn]
  show "tw_kind (br_media st ! b) = AudioProducer \<Longrightarrow>
      map_option snd (run_media enc raw [PushAudio (id_of b) buf] st) = Some (if enc b then [(b, buf)] else [])"
    and "tw_kind (br_media st ! b) = AudioProducer \<Longrightarrow>
      map_option snd (run_media enc raw [SetActualSndCardRecordParams (id_of b) x y z] st) = Some []"
    and "tw_kind (br_media st ! b) = AudioProducer \<Longrightarrow>
      map_option snd (run_media enc raw [SetActualSndCardRecordParams (id_of b) x y z, PushAudio (id_of b) buf] st)
        = Some (if enc b then [(b, buf)] else [])"
    using found by (simp_all add: defs)
  show "tw_kind (br_media st ! b) = VideoProducer \<Longrightarrow>
      map_option snd (run_media enc raw [SendRaw (id_of b) buf] st) = Some (if raw b then [(b, buf)] else [])"
    and "tw_kind (br_media st ! b) = VideoProducer \<Longrightarrow>
      map_option snd (run_media enc raw [SetActualCameraOutputSize (id_of b) x y] st) = Some []"
    and "tw_kind (br_media st ! b) = VideoProducer \<Longrightarrow> tw_started (br_media st ! b) \<Longrightarrow>
      map_option snd (run_media enc raw [PushVideo (id_of b) buf] st) = Some (if enc b then [(b, buf)] else [])"
    and "tw_kind (br_media st ! b) = VideoProducer \<Longrightarrow> tw_started (br_media st ! b) \<Longrightarrow>
      map_option snd (run_media enc raw [SetActualCameraOutputSize (id_of b) x y, PushVideo (id_of b) buf] st)
        = Some (if enc b then [(b, buf)] else [])"
    using found by (simp_all add: defs)
qed

section \<open>Each call keeps the contract\<close>

lemma path_inv_update:
  assumes "path_inv st" "bridge_inv st1" "legs st1 = (legs st)[w := q]" "length (br_media st1) = length (br_media st)"
    and "\<And>v. v < length (br_media st) \<Longrightarrow> v \<noteq> w \<Longrightarrow> br_media st1 ! v = br_media st ! v"
    and "w < length (br_media st) \<Longrightarrow> in_step (br_media st1 ! w) q"
  shows "path_inv st1"
  unfolding path_inv_def
proof (intro conjI allI impI)
  fix v assume "v < length (br_media st1)"
  then show "in_step (br_media st1 ! v) (legs st1 ! v)"
    using assms path_invD(2) [OF assms(1), of v] legs_match(1) [OF path_invD(1) [OF assms(1)]] by (cases "v = w") auto
qed (rule assms(2))

lemma live_calls:
  assumes "bridge_inv st" "live_object st w"
  shows "twrap_start w st = (0, set_media w (\<lambda>m. m\<lparr>tw_started := True\<rparr>) (set_gateway (on_plugin w Start) st))"
    and "twrap_stop w st = (0, set_media w (\<lambda>m. m\<lparr>tw_started := False\<rparr>) (set_gateway (on_plugin w Stop) st))"
    and "twrap_pause w st = (0, set_gateway (on_plugin w Pause) st)"
    and "twrap_prepare (Some c) w st = (0, set_media w (output_params 0) (set_gateway (on_plugin w (prepare_event c (tw_kind (br_media st ! w))))
      (set_media w (prepared_media c) (refresh_proxy w st))))"
proof -
  have "callback_of w (refresh_proxy w st) = Some w"
    by (rule callback_of_live [OF inv_refresh [OF assms(1)]]) (simp add: live_refresh assms(2))
  then show "twrap_start w st = (0, set_media w (\<lambda>m. m\<lparr>tw_started := True\<rparr>) (set_gateway (on_plugin w Start) st))"
    and "twrap_stop w st = (0, set_media w (\<lambda>m. m\<lparr>tw_started := False\<rparr>) (set_gateway (on_plugin w Stop) st))"
    and "twrap_pause w st = (0, set_gateway (on_plugin w Pause) st)"
    and "twrap_prepare (Some c) w st = (0, set_media w (output_params 0) (set_gateway (on_plugin w (prepare_event c (tw_kind (br_media st ! w))))
      (set_media w (prepared_media c) (refresh_proxy w st))))"
    by (simp_all add: twrap_start_def twrap_stop_def twrap_pause_def twrap_prepare_def callback_of_live [OF assms] call_plugin_def
        live_refresh Let_def)
qed

lemma legs_simps [simp]:
  "legs (set_media w f st) = legs st" "legs (refresh_proxy w st) = legs st"
  "legs (set_gateway (on_plugin w e) st) = (legs st)[w := plugin_callback e (legs st ! w)]"
  "br_media (set_gateway h st) = br_media st"
  by (simp_all add: legs_def live_refresh set_gateway_def on_plugin_def)

lemma refresh_nth:
  "length (br_media (refresh_proxy w st)) = length (br_media st)"
  "v < length (br_media st) \<Longrightarrow> v \<noteq> w \<Longrightarrow> br_media (refresh_proxy w st) ! v = br_media st ! v"
  "w < length (br_media st) \<Longrightarrow> tw_started (br_media (refresh_proxy w st) ! w) = tw_started (br_media st ! w)"
  by (auto simp: refresh_proxy_def Let_def set_media_nth)

lemma frame_size_simps [simp]:
  "frame_size (startCallback p) = frame_size p" "frame_size (stopCallback p) = frame_size p" "frame_size (pauseCallback p) = frame_size p"
  "frame_size (p\<lparr>pl_bStarted := b\<rparr>) = frame_size p" "frame_size (p\<lparr>m_bValid := b\<rparr>) = frame_size p"
  by (simp_all add: frame_size_def startCallback_def stopCallback_def pauseCallback_def)

lemma callback_codec:
  "pl_kind p = k \<Longrightarrow> plugin_callback (prepare_event c k) p = with_codec c p"
  by (cases k) (simp_all add: prepare_event_def with_codec_def prepareCallback_def)

text \<open>Preparing, starting, pausing and stopping.\<close>

definition matches :: "(bridge \<times> answer) option \<Rightarrow> (MPProxyPlugin list \<times> answer) option \<Rightarrow> bool" where
  "matches r a \<longleftrightarrow> a = map_option (map_prod legs id) r \<and> (\<forall>st1 x. r = Some (st1, x) \<longrightarrow> path_inv st1)"

lemma matches_simps:
  "matches None a = (a = None)" "matches (Some (st1, x)) a = (a = Some (legs st1, x) \<and> path_inv st1)"
  by (auto simp: matches_def)

lemma object_call:
  assumes path: "path_inv st" and f: "\<And>st1. live_object st w \<Longrightarrow> st1 = snd (F st) \<Longrightarrow> F st = (0, st1) \<and> bridge_inv st1
      \<and> legs st1 = (legs st)[w := g (legs st ! w)] \<and> length (br_media st1) = length (br_media st)
      \<and> (\<forall>v < length (br_media st). v \<noteq> w \<longrightarrow> br_media st1 ! v = br_media st ! v) \<and> in_step (br_media st1 ! w) (g (legs st ! w))"
  shows "matches (on_live st w F) (on_usable (legs st) w g)"
proof (cases "live_object st w")
  case True
  note r = f [OF True refl]
  then have "path_inv (snd (F st))" using path_inv_update [OF path, of "snd (F st)" w "g (legs st ! w)"] by blast
  moreover obtain st1 where "F st = (0, st1)" using r by blast
  ultimately show ?thesis
    using True r legs_match(5) [OF path_invD(1) [OF path]] by (simp add: on_live_def on_usable_def matches_def)
qed (use legs_match(5) [OF path_invD(1) [OF path]] in \<open>simp add: on_live_def on_usable_def matches_def\<close>)

lemma plain_calls:
  assumes path: "path_inv st"
  shows "matches (engine_exec api enc raw (StartObject w) st) (contract api enc raw (StartObject w) (legs st))"
    and "matches (engine_exec api enc raw (PauseObject w) st) (contract api enc raw (PauseObject w) (legs st))"
    and "matches (engine_exec api enc raw (StopObject w) st) (contract api enc raw (StopObject w) (legs st))"
    and "matches (engine_exec api enc raw (PrepareFor w (Some c)) st) (contract api enc raw (PrepareFor w (Some c)) (legs st))"
proof -
  note inv = path_invD(1) [OF path]
  have m: "w < length (br_media st)" "in_step (br_media st ! w) (legs st ! w)" "pl_kind (legs st ! w) = tw_kind (br_media st ! w)"
    if "live_object st w"
    using that path_invD(2) [OF path, of w] legs_match(2) [OF inv, of w] by (simp_all add: live_object_def)
  have start: "bridge_inv (snd (twrap_start w st))" "bridge_inv (snd (twrap_stop w st))" "bridge_inv (snd (twrap_pause w st))"
    "bridge_inv (snd (twrap_prepare (Some c) w st))"
    using inv_start_stop [OF inv] inv_prepare [OF inv] by blast+
  show "matches (engine_exec api enc raw (StartObject w) st) (contract api enc raw (StartObject w) (legs st))"
    and "matches (engine_exec api enc raw (PauseObject w) st) (contract api enc raw (PauseObject w) (legs st))"
    and "matches (engine_exec api enc raw (StopObject w) st) (contract api enc raw (StopObject w) (legs st))"
    unfolding engine_exec.simps contract.simps
    by (rule object_call [OF path]; use m start live_calls [OF inv, of w] in
        \<open>simp add: set_media_nth in_step_def startCallback_def pauseCallback_def stopCallback_def frame_size_def\<close>)+
  show "matches (engine_exec api enc raw (PrepareFor w (Some c)) st) (contract api enc raw (PrepareFor w (Some c)) (legs st))"
    unfolding engine_exec.simps contract.simps
  proof (rule object_call [OF path])
    fix st1 assume live: "live_object st w" and st1: "st1 = snd (twrap_prepare (Some c) w st)"
    note l = live_calls(4) [OF inv live, of c] m [OF live] callback_codec [OF m(3) [OF live], of c]
    let ?m = "output_params 0 (prepared_media c (br_media (refresh_proxy w st) ! w))"
    have "tw_kind ?m = tw_kind (br_media st ! w)" "tw_started ?m = tw_started (br_media st ! w)"
      using refresh_nth(3) [OF l(2)] live_refresh(3) [of w st]
      by (simp_all add: output_params_def prepared_media_def split: plugin_kind.split)
    moreover have "tw_kind (br_media st ! w) = VideoConsumer \<Longrightarrow> tw_width ?m = cd_in_width c \<and> tw_height ?m = cd_in_height c"
      using live_refresh(3) [of w st] by (simp add: output_params_def prepared_media_def)
    moreover have "pl_bStarted (with_codec c p) = pl_bStarted p" "pl_kind p = VideoConsumer \<Longrightarrow> frame_size (with_codec c p) = (cd_in_width c, cd_in_height c)" for p
      by (simp_all add: with_codec_def frame_size_def case_prod_beta)
    ultimately have "in_step ?m (with_codec c (legs st ! w))"
      using l(3,4) by (simp add: in_step_def)
    then show "twrap_prepare (Some c) w st = (0, st1) \<and> bridge_inv st1 \<and> legs st1 = (legs st)[w := with_codec c (legs st ! w)]
      \<and> length (br_media st1) = length (br_media st)
      \<and> (\<forall>v < length (br_media st). v \<noteq> w \<longrightarrow> br_media st1 ! v = br_media st ! v) \<and> in_step (br_media st1 ! w) (with_codec c (legs st ! w))"
      using l start(4) st1 refresh_nth(1,2) by (simp add: set_media_nth)
  qed
qed

text \<open>Creation, destruction and coupling.\<close>

lemma call_create:
  assumes path: "path_inv st"
  shows "matches (engine_exec api enc raw (Create be bd k) st) (contract api enc raw (Create be bd k) (legs st))"
proof (cases "Suc (length (br_media st)) < 2 ^ 64")
  case True
  let ?n = "length (br_media st)" and ?st = "twrap_ctor be bd k st"
  note inv = path_invD(1) [OF path] and len = legs_match(1) [OF path_invD(1) [OF path]]
  have r: "bridge_inv ?st" "br_media ?st = br_media st @ [new_twrap k (id_of ?n)]"
    "br_gateway ?st = OnPluginCreated be bd (\<lambda>_ _. True) (id_of ?n) k (br_gateway st)"
    using inv_ctor [OF inv True] by blast+
  have legs: "legs ?st = legs st @ [new_plugin be bd k (id_of ?n)]"
    unfolding legs_def r(3) by (simp add: OnPluginCreated_def insertPlugin_def)
  have "in_step (new_twrap k (id_of ?n)) (new_plugin be bd k (id_of ?n))"
    by (cases k) (simp_all add: in_step_def new_twrap_def frame_size_def new_plugin_def new_MPProxyPlugin_def
        new_MPProxyPluginProducerAudio_def new_MPProxyPluginConsumerAudio_def new_MPProxyPluginProducerVideo_def
        new_MPProxyPluginConsumerVideo_def)
  then have "in_step (br_media ?st ! v) (legs ?st ! v)" if "v < length (br_media ?st)" for v
    using that path_invD(2) [OF path, of v] len by (cases "v = ?n") (auto simp: r(2) legs nth_append)
  then have "path_inv ?st" using r(1) by (simp add: path_inv_def)
  then show ?thesis using True len by (simp add: matches_simps legs id_of_def)
next
  case False
  then show ?thesis using legs_match(1) [OF path_invD(1) [OF path]] by (simp add: matches_simps)
qed

lemma call_destroy:
  assumes path: "path_inv st"
  shows "matches (engine_exec api enc raw (Destroy w) st) (contract api enc raw (Destroy w) (legs st))"
  unfolding engine_exec.simps contract.simps
proof (rule object_call [OF path])
  note inv = path_invD(1) [OF path]
  fix st1 assume live: "live_object st w" and st1: "st1 = snd (0 :: int, twrap_dtor w st)"
  have w: "w < length (br_media st)" "in_step (br_media st ! w) (legs st ! w)"
    using live path_invD(2) [OF path, of w] by (simp_all add: live_object_def)
  let ?q = "(legs st ! w)\<lparr>pl_bStarted := False, m_bValid := False\<rparr>"
  have found: "findPlugin (br_gateway st) (id_of w) = Some \<lparr>ref_id = id_of w, ref_addr = w\<rparr>" by (rule live_found [OF inv live])
  have wl: "w < length (pm_objects (br_gateway st))" using gateway_objects(1) [OF inv live] .
  have idle: "\<not> pl_bStarted p \<Longrightarrow> p\<lparr>pl_bStarted := False\<rparr> = p" for p :: MPProxyPlugin by (cases p) simp
  have legs: "legs st1 = (legs st)[w := ?q]"
    using w(2) found wl unfolding st1 snd_conv legs_def dtor_gateway [OF inv live]
    by (auto simp: OnPluginDestroyed_def erasePlugin_def findPlugin_def on_plugin_def stopCallback_def invalidate_def in_step_def idle)
  have stop: "twrap_stop w st = (0, set_media w (\<lambda>m. m\<lparr>tw_started := False\<rparr>) (set_gateway (on_plugin w Stop) st))"
    by (rule live_calls(2) [OF inv live])
  have media: "length (br_media st1) = length (br_media st)" "\<And>v. v < length (br_media st) \<Longrightarrow> v \<noteq> w \<Longrightarrow> br_media st1 ! v = br_media st ! v"
    "br_media st1 ! w = (br_media st ! w)\<lparr>tw_started := False, tw_alive := False\<rparr>"
    using w(1) unfolding st1 snd_conv dtor_removed [OF inv live] stop
    by (auto simp: removed_def set_media_nth removePlugin_def set_media_def set_gateway_def)
  have "in_step (br_media st1 ! w) ?q" using w(2) unfolding media(3) by (simp add: in_step_def)
  moreover have "bridge_inv st1" using inv_dtor [OF inv live] st1 by simp
  ultimately show "(0, twrap_dtor w st) = (0 :: int, st1) \<and> bridge_inv st1 \<and> legs st1 = (legs st)[w := ?q] \<and> length (br_media st1) = length (br_media st)
      \<and> (\<forall>v < length (br_media st). v \<noteq> w \<longrightarrow> br_media st1 ! v = br_media st ! v) \<and> in_step (br_media st1 ! w) ?q"
    using legs media st1 by simp
qed

lemma call_couple:
  assumes path: "path_inv st"
  shows "matches (engine_exec api enc raw (Couple v w) st) (contract api enc raw (Couple v w) (legs st))"
proof (cases "v < length (br_media st) \<and> w < length (br_media st) \<and> couples (tw_kind (br_media st ! v)) (tw_kind (br_media st ! w))")
  case True
  note inv = path_invD(1) [OF path]
  have id: "tw_id (br_media st ! u) = id_of u" if "u < length (br_media st)" for u
    using bridge_invD(4) [OF inv that] by (simp add: object_ok_def)
  have found: "findPlugin (br_gateway st) (id_of u) = (if live_object st u then Some \<lparr>ref_id = id_of u, ref_addr = u\<rparr> else None)"
    if u: "u < length (br_media st)" for u
  proof (cases "live_object st u")
    case False
    have "findPlugin (br_gateway st) (id_of u) \<noteq> Some r" for r
      using False bridge_ids(1) [OF inv u] by (auto simp: gateway_lookup [OF inv] live_object_def)
    then show ?thesis using False by (metis not_None_eq)
  qed (simp add: live_found [OF inv])
  let ?c = "\<lparr>ref_id = id_of v, ref_addr = v\<rparr>" and ?p = "\<lparr>ref_id = id_of w, ref_addr = w\<rparr>"
  have coupled: "coupled v w st = (if live_object st v \<and> live_object st w then set_gateway (setProducerOpposite ?c ?p) st else st)"
    using True by (simp add: coupled_def id found)
  have legs: "legs (set_gateway (setProducerOpposite ?c ?p) st) = (legs st)[v := (legs st ! v)\<lparr>m_oProducerOpposite := Some w\<rparr>]"
    by (simp add: legs_def set_gateway_def setProducerOpposite_def)
  have "path_inv (set_gateway (setProducerOpposite ?c ?p) st)" if "live_object st v" "live_object st w"
  proof (rule path_inv_update [OF path _ legs])
    show "bridge_inv (set_gateway (setProducerOpposite ?c ?p) st)"
      using inv_attach [OF inv live_found [OF inv that(1)] live_found [OF inv that(2)]] True
        gateway_objects(3) [OF inv that(1)] gateway_objects(3) [OF inv that(2)] by simp
  qed (use path_invD(2) [OF path] True in \<open>simp_all add: in_step_def frame_size_def\<close>)
  then show ?thesis
    using True path legs_match(1,2,5) [OF inv] by (simp add: matches_simps coupled legs)
next
  case False
  then show ?thesis using legs_match(1,2) [OF path_invD(1) [OF path]] by (auto simp: matches_simps)
qed

text \<open>Media.\<close>

lemma sink_live:
  assumes path: "path_inv st" and w: "live_object st w" and b: "sink (legs st) w = Some b"
  shows "live_object st b" "m_oProducerOpposite (legs st ! w) = Some b" "tw_started (br_media st ! b)"
    "tw_kind (br_media st ! w) = AudioConsumer \<Longrightarrow> tw_kind (br_media st ! b) = AudioProducer"
    "tw_kind (br_media st ! w) = VideoConsumer \<Longrightarrow> tw_kind (br_media st ! b) = VideoProducer"
    "m_bValid (legs st ! b)" "pl_bStarted (legs st ! b)" "pl_nId (legs st ! b) = id_of b" "b \<noteq> w"
proof -
  note inv = path_invD(1) [OF path]
  have wn: "w < length (br_media st)" using w by (simp add: live_object_def)
  show o: "m_oProducerOpposite (legs st ! w) = Some b" "m_bValid (legs st ! b)" "pl_bStarted (legs st ! b)"
    using b by (auto simp: sink_def split: option.splits if_splits)
  note opp = opposite_live [OF inv wn o(1) [unfolded legs_def]]
  show "live_object st b" using opp(1,3) o(2) by (simp add: live_object_def legs_def)
  show "pl_nId (legs st ! b) = id_of b" using opp(4) by (simp add: legs_def)
  show "tw_kind (br_media st ! w) = AudioConsumer \<Longrightarrow> tw_kind (br_media st ! b) = AudioProducer"
    "tw_kind (br_media st ! w) = VideoConsumer \<Longrightarrow> tw_kind (br_media st ! b) = VideoProducer" "b \<noteq> w"
    using opp(2) by (auto simp: couples_cases)
  show "tw_started (br_media st ! b)" using path_invD(2) [OF path opp(1)] o(3) by (simp add: in_step_def)
qed

text \<open>A packet is delivered when the gateway's part is known and what it asks for is done.\<close>

lemma delivered:
  assumes path: "path_inv st" and inv: "bridge_inv st1" and t: "targets_live st1 acts" and q: "quiet st st1"
    and out: "map_option snd (run_media enc raw acts st1) = Some out" and legs: "legs st1 = ps"
    and same: "\<And>v. v < length (br_media st) \<Longrightarrow> pl_bStarted (ps ! v) = pl_bStarted (legs st ! v)
      \<and> (tw_kind (br_media st ! v) = VideoConsumer \<longrightarrow> frame_size (ps ! v) = frame_size (legs st ! v))"
  shows "matches (deliver enc raw (Some (st1, ret, acts))) (Some (ps, ret, out))"
proof -
  from run_media_total [OF inv t, of enc raw] obtain st2 out2
    where run: "run_media enc raw acts st1 = Some (st2, out2)" "bridge_inv st2" "br_gateway st2 = br_gateway st1" by blast
  have "quiet st st2" using quiet_trans [OF q quiet_run [OF inv t run(1)]] .
  moreover have "legs st2 = ps" using run(3) legs by (simp add: legs_def)
  moreover from this have "in_step (br_media st2 ! v) (legs st2 ! v)" if "v < length (br_media st2)" for v
    using \<open>quiet st st2\<close> that path_invD(2) [OF path, of v] same [of v] by (auto simp: quiet_def in_step_def)
  ultimately have "path_inv st2" "legs st2 = ps" using run(2) by (simp_all add: path_inv_def)
  then show ?thesis using run(1) out by (simp add: deliver_def matches_simps)
qed

lemma audio_stack:
  assumes inv: "bridge_inv st" and w: "live_object st w" "tw_kind (br_media st ! w) = AudioConsumer"
    and g: "consume_audio api w buf (br_gateway st) = (gw, ret, acts)"
  shows "\<exists>st1. twrap_consume_audio api w buf st = Some (st1, ret, acts) \<and> bridge_inv st1 \<and> targets_live st1 acts
    \<and> same_objects st st1 \<and> quiet st st1 \<and> br_gateway st1 = gw"
proof -
  obtain pc st1 where c: "cached_proxy w st = (pc, st1)" by fastforce
  note live = cached_live [OF inv w(1) c]
  have g1: "consume_audio api w buf (br_gateway st1) = (gw, ret, acts)" using g live(4) by simp
  have "targets_live (st1\<lparr>br_gateway := gw\<rparr>) acts"
    using consume_audio_targets [OF live(2) _ _ g1] live(3,6) w(2) by (simp add: targets_gateway live_object_def)
  moreover have "bridge_inv (st1\<lparr>br_gateway := gw\<rparr>)" by (rule inv_gateway [OF live(2) gw_like_consume(1) [OF g1]])
  moreover have "twrap_consume_audio api w buf st = Some (st1\<lparr>br_gateway := gw\<rparr>, ret, acts)"
    using live_proxy [OF live(2,3)] g1 by (simp add: twrap_consume_audio_def c live(1) proxy_of_def)
  moreover have "same_objects st (st1\<lparr>br_gateway := gw\<rparr>)" using targets_cached [OF c] by (simp add: same_objects_def live_object_def)
  moreover have "quiet st (st1\<lparr>br_gateway := gw\<rparr>)" using quiet_cached [OF c] by simp
  ultimately show ?thesis by (intro exI [of _ "st1\<lparr>br_gateway := gw\<rparr>"]) simp
qed

text \<open>Replacing the parameters of the producer leaves what the objects of the engine repeat.\<close>

lemma producer_same:
  assumes "b < length ps" "pl_kind (ps ! b) \<noteq> VideoConsumer" "pl_bStarted q = pl_bStarted (ps ! b)" "\<And>v. v < length ps \<Longrightarrow> pl_kind (ps ! v) = kind v"
    and "v < length ps"
  shows "pl_bStarted (ps[b := q] ! v) = pl_bStarted (ps ! v) \<and> (kind v = VideoConsumer \<longrightarrow> frame_size (ps[b := q] ! v) = frame_size (ps ! v))"
  using assms by (auto simp: nth_list_update)

lemma run_producerD:
  "run_producer b f pm = (gw, ret, acts) \<Longrightarrow> f (pm_objects pm ! b) = (q, ret', acts') \<Longrightarrow>
     pm_objects gw = (pm_objects pm)[b := q] \<and> ret = ret' \<and> acts = acts'"
  by (auto simp: run_producer_def)

lemma push_audio_contract:
  assumes "pl_bStarted p"
  shows "push_audio api buf (p1 c) (p2 c) (p3 c) p = (p\<lparr>p1 := p1 c, p2 := p2 c, p3 := p3 c\<rparr>,
     if same_audio_params c p \<or> setSndCard_ok api (p1 c) (p2 c) (p3 c) then push_ret api buf else -1,
     (if same_audio_params c p then [] else [SetActualSndCardRecordParams (pl_nId p) (p1 c) (p2 c) (p3 c)])
       @ (if same_audio_params c p \<or> setSndCard_ok api (p1 c) (p2 c) (p3 c) then [PushAudio (pl_nId p) buf] else []))"
proof (cases "same_audio_params c p")
  case True
  then have "p\<lparr>p1 := p1 c, p2 := p2 c, p3 := p3 c\<rparr> = p" by (cases p) (simp add: same_audio_params_def)
  then show ?thesis using assms True by (simp add: push_audio_same)
next
  case False
  then show ?thesis using assms by (auto simp: push_audio_def same_audio_params_def Let_def)
qed

lemma call_audio:
  assumes path: "path_inv st"
  shows "matches (engine_exec api enc raw (AudioIn w buf) st) (contract api enc raw (AudioIn w buf) (legs st))"
proof (cases "live_object st w \<and> tw_kind (br_media st ! w) = AudioConsumer")
  case True
  then have w: "live_object st w" "tw_kind (br_media st ! w) = AudioConsumer" by simp_all
  note inv = path_invD(1) [OF path] and match = legs_match [OF path_invD(1) [OF path]]
  obtain gw ret acts where g: "consume_audio api w buf (br_gateway st) = (gw, ret, acts)" by (metis prod_cases3)
  obtain st1 where st1: "twrap_consume_audio api w buf st = Some (st1, ret, acts)" "bridge_inv st1" "targets_live st1 acts"
    "same_objects st st1" "quiet st st1" "br_gateway st1 = gw" using audio_stack [OF inv w g] by blast
  obtain ps r out where c: "audio_contract api enc w buf (legs st) = (ps, r, out)" by (metis prod_cases3)
  have "r = ret \<and> legs st1 = ps \<and> map_option snd (run_media enc raw acts st1) = Some out \<and>
    (\<forall>v < length (br_media st). pl_bStarted (ps ! v) = pl_bStarted (legs st ! v)
      \<and> (tw_kind (br_media st ! v) = VideoConsumer \<longrightarrow> frame_size (ps ! v) = frame_size (legs st ! v)))"
  proof (cases "sink (legs st) w")
    case None
    have "gw = br_gateway st \<and> ret = 0 \<and> acts = []"
      using g None by (auto simp: consume_audio_def sink_def legs_def run_producer_def push_audio_def Let_def split: option.splits if_splits)
    then show ?thesis using c None st1(6) by (auto simp: audio_contract_def legs_def)
  next
    case (Some b)
    note sink = sink_live [OF path w(1) Some]
    have b: "live_object st1 b" "tw_kind (br_media st1 ! b) = AudioProducer"
      using st1(4) sink(1,4) w(2) by (simp_all add: same_objects_def)
    have bn: "b < length (legs st)" using sink(1) match(1) by (simp add: live_object_def)
    let ?c = "legs st ! w" and ?p = "legs st ! b"
    let ?q = "?p\<lparr>p1 := p1 ?c, p2 := p2 ?c, p3 := p3 ?c\<rparr>"
    have run: "consume_audio api w buf (br_gateway st) = run_producer b (push_audio api buf (p1 ?c) (p2 ?c) (p3 ?c)) (br_gateway st)"
      using sink(2,6) by (simp add: consume_audio_def legs_def Let_def)
    have g2: "legs st1 = (legs st)[b := ?q] \<and> ret = (if same_audio_params ?c ?p \<or> setSndCard_ok api (p1 ?c) (p2 ?c) (p3 ?c) then push_ret api buf else -1)
      \<and> acts = (if same_audio_params ?c ?p then [] else [SetActualSndCardRecordParams (id_of b) (p1 ?c) (p2 ?c) (p3 ?c)])
          @ (if same_audio_params ?c ?p \<or> setSndCard_ok api (p1 ?c) (p2 ?c) (p3 ?c) then [PushAudio (id_of b) buf] else [])"
      using run_producerD [OF g [unfolded run], folded legs_def, OF push_audio_contract [OF sink(7)]] sink(8)
      by (simp add: legs_def [of st1] st1(6))
    have "map_option snd (run_media enc raw acts st1) = Some out"
      using c g2 run_pushes(1-3) [OF st1(2) b(1,2)] by (auto simp: audio_contract_def Some Let_def)
    moreover have "ps = (legs st)[b := ?q]" "r = ret" using c g2 by (auto simp: audio_contract_def Some Let_def split: if_splits)
    moreover have "pl_bStarted ((legs st)[b := ?q] ! v) = pl_bStarted (legs st ! v)
        \<and> (tw_kind (br_media st ! v) = VideoConsumer \<longrightarrow> frame_size ((legs st)[b := ?q] ! v) = frame_size (legs st ! v))"
      if "v < length (br_media st)" for v
      by (rule producer_same [OF bn]) (use match(1,2) sink(1,4) w(2) that in \<open>auto simp: live_object_def\<close>)
    ultimately show ?thesis using g2 by simp
  qed
  then have "matches (deliver enc raw (Some (st1, ret, acts))) (Some (ps, ret, out))" "r = ret"
    using delivered [OF path st1(2,3,5)] by blast+
  moreover have "usable (legs st) w" "pl_kind (legs st ! w) = AudioConsumer"
    using match(2,5) w by (simp_all add: live_object_def)
  ultimately show ?thesis using w st1(1) c by simp
next
  case False
  then show ?thesis using legs_match(2,5) [OF path_invD(1) [OF path]] by (auto simp: matches_simps live_object_def)
qed

lemma push_video_contract:
  assumes "pl_bStarted p" "m_bValid p"
  shows "push_video api buf x y p =
    (if p1 p = x \<and> p2 p = y \<or> setCamera_ok api x y
     then (p\<lparr>p1 := x, p2 := y\<rparr>, push_ret api buf,
       (if p1 p = x \<and> p2 p = y then [] else [SetActualCameraOutputSize (pl_nId p) x y]) @ [PushVideo (pl_nId p) buf])
     else (p, -1, [SetActualCameraOutputSize (pl_nId p) x y]))"
proof (cases "p1 p = x \<and> p2 p = y")
  case True
  then have "p\<lparr>p1 := x, p2 := y\<rparr> = p" by (cases p) simp
  then show ?thesis using assms True by (simp add: push_video_def)
next
  case False
  then show ?thesis using assms by (auto simp: push_video_def)
qed

lemma video_stack:
  assumes inv: "bridge_inv st" and w: "live_object st w" "tw_kind (br_media st ! w) = VideoConsumer" and "buf \<noteq> []"
    and f: "f = \<lparr>frame_buf = buf, frame_width = tw_width (br_media st ! w), frame_height = tw_height (br_media st ! w)\<rparr>"
    and g: "consume_video api w (Some f) (br_gateway st) = (gw, ret, acts)"
  shows "\<exists>st1. twrap_consume_video api None w buf st = Some (st1, ret, acts) \<and> bridge_inv st1 \<and> targets_live st1 acts
    \<and> same_objects st st1 \<and> quiet st st1 \<and> br_gateway st1 = gw"
    and "\<exists>st1. twrap_consume_video api (Some r) w buf st = Some (st1, r, []) \<and> bridge_inv st1 \<and> targets_live st1 []
    \<and> quiet st st1 \<and> br_gateway st1 = br_gateway st"
proof -
  obtain pc st1 where c: "cached_proxy w st = (pc, st1)" by fastforce
  note live = cached_live [OF inv w(1) c]
  have quiet: "quiet st st1" by (rule quiet_cached [OF c])
  have size: "tw_width (br_media st1 ! w) = tw_width (br_media st ! w)" "tw_height (br_media st1 ! w) = tw_height (br_media st ! w)"
    using quiet w by (simp_all add: quiet_def live_object_def)
  have g1: "consume_video api w (Some f) (br_gateway st1) = (gw, ret, acts)" using g live(4) by simp
  have "targets_live (st1\<lparr>br_gateway := gw\<rparr>) acts"
    using consume_video_targets [OF live(2) _ _ g1] live(3,6) w(2) by (simp add: targets_gateway live_object_def)
  moreover have "bridge_inv (st1\<lparr>br_gateway := gw\<rparr>)" by (rule inv_gateway [OF live(2) gw_like_consume(2) [OF g1]])
  moreover have "twrap_consume_video api None w buf st = Some (st1\<lparr>br_gateway := gw\<rparr>, ret, acts)"
    using live_proxy [OF live(2,3)] g1 assms(4) f size by (simp add: twrap_consume_video_def c live(1) proxy_of_def)
  moreover have "same_objects st (st1\<lparr>br_gateway := gw\<rparr>)" using targets_cached [OF c] by (simp add: same_objects_def live_object_def)
  ultimately show "\<exists>st1. twrap_consume_video api None w buf st = Some (st1, ret, acts) \<and> bridge_inv st1 \<and> targets_live st1 acts
      \<and> same_objects st st1 \<and> quiet st st1 \<and> br_gateway st1 = gw"
    using quiet by (intro exI [of _ "st1\<lparr>br_gateway := gw\<rparr>"]) simp
  have "twrap_consume_video api (Some r) w buf st = Some (st1, r, [])"
    using live_proxy [OF live(2,3)] assms(4) by (simp add: twrap_consume_video_def c live(1) proxy_of_def)
  then show "\<exists>st1. twrap_consume_video api (Some r) w buf st = Some (st1, r, []) \<and> bridge_inv st1 \<and> targets_live st1 []
      \<and> quiet st st1 \<and> br_gateway st1 = br_gateway st"
    using live(2,4) quiet by (intro exI [of _ st1]) (simp add: targets_live_def)
qed

lemma video_delivered:
  assumes path: "path_inv st" and w: "live_object st w" "tw_kind (br_media st ! w) = VideoConsumer"
    and f: "f = \<lparr>frame_buf = buf, frame_width = tw_width (br_media st ! w), frame_height = tw_height (br_media st ! w)\<rparr>"
    and g: "consume_video api w (Some f) (br_gateway st) = (gw, ret, acts)"
    and st1: "bridge_inv st1" "same_objects st st1" "quiet st st1" "br_gateway st1 = gw"
    and c: "video_contract api enc raw w buf (legs st) = (ps, r, out)"
  shows "r = ret \<and> legs st1 = ps \<and> map_option snd (run_media enc raw acts st1) = Some out \<and>
    (\<forall>v < length (br_media st). pl_bStarted (ps ! v) = pl_bStarted (legs st ! v)
      \<and> (tw_kind (br_media st ! v) = VideoConsumer \<longrightarrow> frame_size (ps ! v) = frame_size (legs st ! v)))"
proof (cases "sink (legs st) w")
  case None
  have "gw = br_gateway st \<and> ret = 0 \<and> acts = []"
    using g None by (auto simp: consume_video_def sink_def legs_def run_producer_def push_video_def sendRaw_def Let_def split: option.splits if_splits)
  then show ?thesis using c None st1(4) by (auto simp: video_contract_def legs_def)
next
  case (Some b)
  note inv = path_invD(1) [OF path] and match = legs_match [OF path_invD(1) [OF path]] and sink = sink_live [OF path w(1) Some]
  have b: "live_object st1 b" "tw_kind (br_media st1 ! b) = VideoProducer"
    using st1(2) sink(1,5) w(2) by (simp_all add: same_objects_def)
  have bn: "b < length (legs st)" "b < length (br_media st)" using sink(1) match(1) by (simp_all add: live_object_def)
  have started: "tw_started (br_media st1 ! b)" using st1(3) sink(3) bn(2) by (simp add: quiet_def)
  let ?p = "legs st ! b" and ?x = "tw_width (br_media st ! w)" and ?y = "tw_height (br_media st ! w)"
  have size: "frame_size (legs st ! w) = (?x, ?y)"
    using path_invD(2) [OF path, of w] w by (simp add: in_step_def live_object_def)
  let ?q = "if m_bByPass ?p then ?p else if p1 ?p = ?x \<and> p2 ?p = ?y \<or> setCamera_ok api ?x ?y then ?p\<lparr>p1 := ?x, p2 := ?y\<rparr> else ?p"
  have run: "consume_video api w (Some f) (br_gateway st) =
      run_producer b (if m_bByPass ?p then sendRaw api buf else push_video api buf ?x ?y) (br_gateway st)"
    using sink(2,6) by (simp add: consume_video_def legs_def Let_def f)
  have pushed: "(if m_bByPass ?p then sendRaw api buf else push_video api buf ?x ?y) ?p = (?q, r, acts') \<and> map_option snd (run_media enc raw acts' st1) = Some out
      \<and> ps = (legs st)[b := ?q]"
    if "acts' = snd (snd ((if m_bByPass ?p then sendRaw api buf else push_video api buf ?x ?y) ?p))" for acts'
    using c that sink(7,8) run_pushes(4-7) [OF st1(1) b(1,2)] started
    by (auto simp: video_contract_def Some size sendRaw_def push_video_contract [OF sink(7,6)] Let_def)
  have g2: "pm_objects gw = (legs st)[b := ?q] \<and> ret = r \<and> map_option snd (run_media enc raw acts st1) = Some out \<and> ps = (legs st)[b := ?q]"
    using run_producerD [OF g [unfolded run], folded legs_def, OF pushed [OF refl, THEN conjunct1]] pushed [OF refl] by simp
  have "pl_bStarted ((legs st)[b := ?q] ! v) = pl_bStarted (legs st ! v)
        \<and> (tw_kind (br_media st ! v) = VideoConsumer \<longrightarrow> frame_size ((legs st)[b := ?q] ! v) = frame_size (legs st ! v))"
    if "v < length (br_media st)" for v
    by (rule producer_same [OF bn(1)]) (use match(1,2) sink(1,5) w(2) that in \<open>auto simp: live_object_def\<close>)
  then show ?thesis using g2 st1(4) by (simp add: legs_def [of st1])
qed

lemma call_video:
  assumes path: "path_inv st"
  shows "matches (engine_exec api enc raw (VideoIn w jb buf) st) (contract api enc raw (VideoIn w jb buf) (legs st))"
proof (cases "live_object st w \<and> tw_kind (br_media st ! w) = VideoConsumer")
  case True
  then have w: "live_object st w" "tw_kind (br_media st ! w) = VideoConsumer" by simp_all
  note inv = path_invD(1) [OF path] and match = legs_match [OF path_invD(1) [OF path]]
  have usable: "usable (legs st) w" "pl_kind (legs st ! w) = VideoConsumer"
    using match(2,5) w by (simp_all add: live_object_def)
  define f where f: "f = \<lparr>frame_buf = buf, frame_width = tw_width (br_media st ! w), frame_height = tw_height (br_media st ! w)\<rparr>"
  obtain gw ret acts where g: "consume_video api w (Some f) (br_gateway st) = (gw, ret, acts)" by (metis prod_cases3)
  obtain ps r out where c: "video_contract api enc raw w buf (legs st) = (ps, r, out)" by (metis prod_cases3)
  consider (empty) "buf = []" | (held) k where "buf \<noteq> []" "jb = Some k" | (pushed) "buf \<noteq> []" "jb = None" by blast
  then show ?thesis
  proof cases
    case empty
    then have "twrap_consume_video api jb w buf st = Some (st, -1, [])" by (simp add: twrap_consume_video_def)
    moreover have "matches (deliver enc raw (Some (st, -1, []))) (Some (legs st, -1, []))"
      by (rule delivered [OF path inv]) (simp_all add: targets_live_def)
    ultimately show ?thesis using w usable empty by simp
  next
    case (held k)
    obtain st1 where st1: "twrap_consume_video api jb w buf st = Some (st1, k, [])" "bridge_inv st1" "targets_live st1 []"
      "quiet st st1" "br_gateway st1 = br_gateway st" using video_stack(2) [OF inv w held(1) f g, of k] held(2) by blast
    have "matches (deliver enc raw (Some (st1, k, []))) (Some (legs st, k, []))"
      by (rule delivered [OF path st1(2,3,4)]) (simp_all add: legs_def st1(5))
    then show ?thesis using w usable held st1(1) by simp
  next
    case pushed
    obtain st1 where st1: "twrap_consume_video api jb w buf st = Some (st1, ret, acts)" "bridge_inv st1" "targets_live st1 acts"
      "same_objects st st1" "quiet st st1" "br_gateway st1 = gw" using video_stack(1) [OF inv w pushed(1) f g] pushed(2) by blast
    from video_delivered [OF path w f g st1(2,4,5,6) c]
    have "matches (deliver enc raw (Some (st1, ret, acts))) (Some (ps, ret, out))" "r = ret"
      using delivered [OF path st1(2,3,5)] by blast+
    then show ?thesis using w usable pushed st1(1) c by simp
  qed
next
  case False
  then show ?thesis using legs_match(2,5) [OF path_invD(1) [OF path]] by (auto simp: matches_simps live_object_def)
qed

lemma every_call:
  assumes "path_inv st"
  shows "matches (engine_exec api enc raw c st) (contract api enc raw c (legs st))"
proof (cases c)
  case (PrepareFor w codec)
  show ?thesis
  proof (cases codec)
    case None
    then show ?thesis using PrepareFor assms legs_match(5) [OF path_invD(1) [OF assms]] by (simp add: on_live_def twrap_prepare_def matches_simps)
  qed (use PrepareFor plain_calls(4) [OF assms] in simp)
qed (simp_all only: plain_calls(1-3) [OF assms] call_create [OF assms] call_destroy [OF assms] call_couple [OF assms]
    call_audio [OF assms] call_video [OF assms])

interpretation media_path: functional_refinement "engine_exec api enc raw" "contract api enc raw" legs path_inv for api enc raw
proof unfold_locales
  fix st c st1 x
  assume path: "path_inv st"
  note m = every_call [OF path, of api enc raw c, unfolded matches_def]
  show "contract api enc raw c (legs st) = map_option (map_prod legs id) (engine_exec api enc raw c st)" using m by blast
  show "engine_exec api enc raw c st = Some (st1, x) \<Longrightarrow> path_inv st1" using m by blast
qed

section \<open>Runs and reachable states\<close>

text \<open>The runs of calls reach exactly the reachable states of theory \<open>MediaPath\<close>.\<close>

lemma run_calls_snoc:
  "run_calls exec (cs @ [c]) s = (case run_calls exec cs s of None \<Rightarrow> None
     | Some (s1, as) \<Rightarrow> (case exec c s1 of None \<Rightarrow> None | Some (s2, a) \<Rightarrow> Some (s2, as @ [a])))"
  by (induction cs arbitrary: s) (auto split: option.split)

lemma on_liveD: "on_live st w f = Some (st1, a) \<Longrightarrow> live_object st w \<and> st1 = snd (f st)"
  by (auto simp: on_live_def split: if_splits prod.splits)

lemma deliverD:
  "deliver enc raw r = Some (st2, a) \<Longrightarrow>
     \<exists>st1 ret acts out. r = Some (st1, ret, acts) \<and> run_media enc raw acts st1 = Some (st2, out)"
  by (auto simp: deliver_def split: option.splits)

lemma found_live:
  assumes "bridge_inv st" "u < length (br_media st)" "findPlugin (br_gateway st) (tw_id (br_media st ! u)) = Some r"
  shows "live_object st u \<and> r = \<lparr>ref_id = id_of u, ref_addr = u\<rparr>"
  using assms bridge_invD(4) [OF assms(1,2)] bridge_ids(1) [OF assms(1,2)]
  by (auto simp: gateway_lookup [OF assms(1)] object_ok_def live_object_def)

lemma exec_step:
  assumes "engine_exec api enc raw c st = Some (st1, a)" "bridge_inv st"
  shows "st1 = st \<or> bridge_step api enc raw st st1"
proof (cases c)
  case (Create be bd k)
  then show ?thesis using assms(1) engine_create by (auto split: if_splits)
next
  case (PrepareFor w c)
  then show ?thesis using on_liveD assms(1) engine_prepare by fastforce
next
  case (StartObject w)
  then show ?thesis using on_liveD assms(1) engine_start by fastforce
next
  case (PauseObject w)
  then show ?thesis using on_liveD assms(1) engine_pause by fastforce
next
  case (StopObject w)
  then show ?thesis using on_liveD assms(1) engine_stop by fastforce
next
  case (Destroy w)
  then show ?thesis using on_liveD assms(1) engine_destroy by fastforce
next
  case (AudioIn w buf)
  then have "live_object st w" "tw_kind (br_media st ! w) = AudioConsumer" "deliver enc raw (twrap_consume_audio api w buf st) = Some (st1, a)"
    using assms(1) by (simp_all split: if_splits)
  then show ?thesis using deliverD engine_audio by meson
next
  case (VideoIn w jb buf)
  then have "live_object st w" "tw_kind (br_media st ! w) = VideoConsumer" "deliver enc raw (twrap_consume_video api jb w buf st) = Some (st1, a)"
    using assms(1) by (simp_all split: if_splits)
  then show ?thesis using deliverD engine_video by meson
next
  case (Couple v w)
  then have g: "v < length (br_media st)" "w < length (br_media st)" "couples (tw_kind (br_media st ! v)) (tw_kind (br_media st ! w))"
    "st1 = coupled v w st" using assms(1) by (auto split: if_splits)
  show ?thesis
  proof (cases "st1 = st")
    case False
    then obtain r q where f: "findPlugin (br_gateway st) (tw_id (br_media st ! v)) = Some r"
      "findPlugin (br_gateway st) (tw_id (br_media st ! w)) = Some q" "st1 = set_gateway (setProducerOpposite r q) st"
      using g(4) by (auto simp: coupled_def split: option.splits)
    then have "couples (pl_kind (pm_objects (br_gateway st) ! ref_addr r)) (pl_kind (pm_objects (br_gateway st) ! ref_addr q))"
      using g(3) found_live [OF assms(2) g(1) f(1)] found_live [OF assms(2) g(2) f(2)] gateway_objects(3) [OF assms(2)] by simp
    then show ?thesis using calls_attach [OF f(1,2)] f(3) by simp
  qed simp
qed

lemma on_live_exec: "live_object st w \<Longrightarrow> \<exists>a. on_live st w f = Some (snd (f st), a)"
  by (simp add: on_live_def split: prod.split)

lemma step_exec:
  assumes "bridge_step api enc raw st st1" "bridge_inv st"
  shows "\<exists>c a. engine_exec api enc raw c st = Some (st1, a)"
  using assms(1)
proof cases
  case (engine_create be bd k)
  then show ?thesis by (intro exI [of _ "Create be bd k"]) simp
next
  case (engine_prepare w c)
  then show ?thesis using on_live_exec [of st w "twrap_prepare c w"] by (intro exI [of _ "PrepareFor w c"]) simp
next
  case (engine_start w)
  then show ?thesis using on_live_exec [of st w "twrap_start w"] by (intro exI [of _ "StartObject w"]) simp
next
  case (engine_pause w)
  then show ?thesis using on_live_exec [of st w "twrap_pause w"] by (intro exI [of _ "PauseObject w"]) simp
next
  case (engine_stop w)
  then show ?thesis using on_live_exec [of st w "twrap_stop w"] by (intro exI [of _ "StopObject w"]) simp
next
  case (engine_destroy w)
  then show ?thesis using on_live_exec [of st w "\<lambda>st. (0, twrap_dtor w st)"] by (intro exI [of _ "Destroy w"]) simp
next
  case (engine_audio w buf st1 ret acts out)
  then show ?thesis by (intro exI [of _ "AudioIn w buf"]) (simp add: deliver_def)
next
  case (engine_video w jb buf st1 ret acts out)
  then show ?thesis by (intro exI [of _ "VideoIn w jb buf"]) (simp add: deliver_def)
next
  case (calls_attach i r j q)
  obtain v w where v: "live_object st v" "r = \<lparr>ref_id = id_of v, ref_addr = v\<rparr>" and w: "live_object st w" "q = \<lparr>ref_id = id_of w, ref_addr = w\<rparr>"
    using calls_attach(2,3) by (auto simp: gateway_lookup [OF assms(2)])
  have "tw_id (br_media st ! v) = id_of v" "tw_id (br_media st ! w) = id_of w" "v < length (br_media st)" "w < length (br_media st)"
    using bridge_invD(4) [OF assms(2)] v(1) w(1) by (simp_all add: object_ok_def live_object_def)
  then show ?thesis
    using calls_attach(1,4) v w live_found [OF assms(2)] gateway_objects(3) [OF assms(2)]
    by (intro exI [of _ "Couple v w"]) (simp add: coupled_def)
qed

lemma reachable_runs:
  "bridge_reachable api enc raw st \<longleftrightarrow> (\<exists>calls as. run_calls (engine_exec api enc raw) calls bridge_start = Some (st, as))"
proof
  assume "bridge_reachable api enc raw st"
  then show "\<exists>calls as. run_calls (engine_exec api enc raw) calls bridge_start = Some (st, as)"
  proof (induction rule: bridge_reachable.induct)
    case bridge_initial
    have "run_calls (engine_exec api enc raw) [] bridge_start = Some (bridge_start, [])" by simp
    then show ?case by blast
  next
    case (bridge_next st st')
    obtain calls as where r: "run_calls (engine_exec api enc raw) calls bridge_start = Some (st, as)" using bridge_next.IH by blast
    obtain c a where "engine_exec api enc raw c st = Some (st', a)"
      using step_exec [OF bridge_next.hyps(2) bridge_reachable_inv [OF bridge_next.hyps(1)]] by blast
    then have "run_calls (engine_exec api enc raw) (calls @ [c]) bridge_start = Some (st', as @ [a])" using r by (simp add: run_calls_snoc)
    then show ?case by blast
  qed
next
  have "run_calls (engine_exec api enc raw) calls bridge_start = Some (st, as) \<Longrightarrow> bridge_reachable api enc raw st" for calls as
  proof (induction calls arbitrary: st as rule: rev_induct)
    case Nil
    then show ?case using bridge_initial by simp
  next
    case (snoc c calls)
    then obtain st0 as0 a where r: "run_calls (engine_exec api enc raw) calls bridge_start = Some (st0, as0)"
      "engine_exec api enc raw c st0 = Some (st, a)" by (auto simp: run_calls_snoc split: option.splits)
    from exec_step [OF r(2) bridge_reachable_inv [OF snoc.IH [OF r(1)]]] snoc.IH [OF r(1)] show ?case
      using bridge_next by blast
  qed
  then show "\<exists>calls as. run_calls (engine_exec api enc raw) calls bridge_start = Some (st, as) \<Longrightarrow> bridge_reachable api enc raw st" by blast
qed

section \<open>The property\<close>

lemma path_inv_start: "path_inv bridge_start" "legs bridge_start = []"
  by (simp_all add: path_inv_def inv_bridge_start) (simp_all add: bridge_start_def legs_def empty_plugins_def)

text \<open>
  C9. Refinement: the media path keeps its contract. Whatever sequence of calls the engine and the call
  logic make from the start, the calls are permitted in the path exactly when the contract permits them,
  none of them aborts, each returns the value and delivers the packets the contract says, and the plugins
  of the gateway are at the end those of the contract.
\<close>

theorem engine_refines_plugins:
  "map_option (map_prod legs id) (run_calls (engine_exec api enc raw) calls bridge_start)
     = run_calls (contract api enc raw) calls []"
  using media_path.same_runs [OF path_inv_start(1), of api enc raw calls] by (simp add: path_inv_start(2))

text \<open>An audio call between two objects: the packet that comes in reaches the encoder of the producer.\<close>

theorem engine_refines_plugins_witness:
  "\<exists>st. run_calls (engine_exec demo_api always always)
       [Create True True AudioConsumer, Create True True AudioProducer, Couple 0 1, AudioIn 0 ''a'', StartObject 1, AudioIn 0 ''a''] bridge_start
     = Some (st, [(0, []), (0, []), (0, []), (0, []), (0, []), (0, [(1, ''a'')])])"
proof -
  let ?cs = "[Create True True AudioConsumer, Create True True AudioProducer, Couple 0 1, AudioIn 0 ''a'', StartObject 1, AudioIn 0 ''a'']"
  have "map_option snd (run_calls (contract demo_api always always) ?cs []) = Some [(0, []), (0, []), (0, []), (0, []), (0, []), (0, [(1, ''a'')])]"
    by (simp add: usable_def on_usable_def audio_contract_def sink_def same_audio_params_def demo_api_def Let_def)
  then show ?thesis
    unfolding engine_refines_plugins [of demo_api always always ?cs, symmetric] by (auto simp: option.map_comp)
qed

end
