(* ===== verification/Peers.thy ===== *)
theory Peers
  imports Registry
begin

text \<open>
  The two legs of a call: \<open>MPSipSession\<close> and \<open>MPSipSessionAV\<close> (\<open>mp_session.h\<close>, \<open>mp_session_av.cc\<close>),
  the peer that couples a left and a right leg (\<open>mp_peer.h\<close>, \<open>mp_peer.cc\<close>) and the table of peers
  of the engine (\<open>mp_engine.cc\<close>), which interprets the contract \<open>registry\<close>.
\<close>

unbundle bit_operations_syntax

section \<open>Enumerations of mp_common.h\<close>

text \<open>Media types are bit masks, as in the code.\<close>

type_synonym media_mask = "32 word"

definition MPMediaType_None :: media_mask where "MPMediaType_None = 0"
definition MPMediaType_Audio :: media_mask where "MPMediaType_Audio = 1"
definition MPMediaType_Video :: media_mask where "MPMediaType_Video = 2"
definition twrap_media_audio :: media_mask where "twrap_media_audio = 1"
definition twrap_media_video :: media_mask where "twrap_media_video = 2"
definition twrap_media_audio_video :: media_mask where "twrap_media_audio_video = 3"

definition MPMediaType_GetNative :: "media_mask \<Rightarrow> media_mask" where
  "MPMediaType_GetNative eType =
     (let n0 = 0;
          n1 = (if eType AND MPMediaType_Audio \<noteq> 0 then n0 OR twrap_media_audio else n0)
      in if eType AND MPMediaType_Video \<noteq> 0 then n1 OR twrap_media_video else n1)"

datatype MPPeerState_t = MPPeerState_None | MPPeerState_Connecting | MPPeerState_Connected | MPPeerState_Terminated

datatype MPSessionState_t = MPSessionState_None | MPSessionState_Connecting | MPSessionState_Connected | MPSessionState_Terminated

fun MPPeerState_getSessionState :: "MPPeerState_t \<Rightarrow> MPSessionState_t" where
  "MPPeerState_getSessionState MPPeerState_Connecting = MPSessionState_Connecting"
| "MPPeerState_getSessionState MPPeerState_Connected = MPSessionState_Connected"
| "MPPeerState_getSessionState MPPeerState_Terminated = MPSessionState_Terminated"
| "MPPeerState_getSessionState MPPeerState_None = MPSessionState_None"

section \<open>Sessions\<close>

text \<open>
  A wrapped session is named by its id (an \<open>unsigned\<close>); the opposite session, a pointer in the
  code, is named by the id of the session it wraps. \<open>av_rtcp\<close> says whether the RTCP callback is
  installed.
\<close>

type_synonym sid = "32 word"

record MPSipSessionAV =
  av_id :: sid
  av_eState :: MPSessionState_t
  av_rtcp :: bool
  av_opposite :: "sid option"
  av_eMediaType :: media_mask

definition new_MPSipSessionAV :: "sid \<Rightarrow> media_mask \<Rightarrow> MPSipSessionAV" where
  "new_MPSipSessionAV i m =
     \<lparr>av_id = i, av_eState = MPSessionState_None, av_rtcp = False, av_opposite = None, av_eMediaType = m\<rparr>"

definition setSessionOpposite :: "sid option \<Rightarrow> MPSipSessionAV \<Rightarrow> MPSipSessionAV" where
  "setSessionOpposite q s = s\<lparr>av_opposite := q\<rparr>"

text \<open>\<open>MPSipSessionAV::setState\<close>; \<open>bypass\<close> is the pair of the two media-engine defaults.\<close>

definition MPSipSessionAV_setState :: "bool \<times> bool \<Rightarrow> MPSessionState_t \<Rightarrow> MPSipSessionAV \<Rightarrow> MPSipSessionAV" where
  "MPSipSessionAV_setState bypass eState s0 =
     (let s = s0\<lparr>av_eState := eState\<rparr> in
      case eState of
        MPSessionState_None \<Rightarrow> s
      | MPSessionState_Connecting \<Rightarrow> s
      | MPSessionState_Connected \<Rightarrow> if \<not> av_rtcp s \<and> fst bypass \<and> snd bypass then s\<lparr>av_rtcp := True\<rparr> else s
      | MPSessionState_Terminated \<Rightarrow> setSessionOpposite None s)"

text \<open>\<open>onRtcpEventCallback\<close>: the session the event is sent to, if any.\<close>

definition onRtcpEventCallback :: "bool \<Rightarrow> MPSipSessionAV \<Rightarrow> sid option" where
  "onRtcpEventCallback haveEvent s = (if haveEvent then av_opposite s else None)"

section \<open>Peers\<close>

record MPPeer =
  m_nId :: u64
  m_nSessionIdLeft :: u64
  m_nSessionIdRight :: u64
  m_nLastSipResponseLeft :: int
  m_nLastSipResponseRight :: int
  m_oCallSessionLeft :: MPSipSessionAV
  m_oCallSessionRight :: "MPSipSessionAV option"
  m_eSessionLeftState :: MPPeerState_t
  m_eSessionRightState :: MPPeerState_t
  m_eMediaType :: media_mask

text \<open>The global id counter and the table.\<close>

record peer_table =
  g_nId :: u64
  m_Peers :: "(u64, MPPeer) std_map"

definition new_MPPeer :: "MPSipSessionAV \<Rightarrow> peer_table \<Rightarrow> MPPeer \<times> peer_table" where
  "new_MPPeer left pt =
     (let n = g_nId pt + 1 in
      (\<lparr>m_nId = n, m_nSessionIdLeft = ucast (av_id left), m_nSessionIdRight = 0,
        m_nLastSipResponseLeft = 0, m_nLastSipResponseRight = 0,
        m_oCallSessionLeft = left, m_oCallSessionRight = None,
        m_eSessionLeftState = MPPeerState_None, m_eSessionRightState = MPPeerState_None,
        m_eMediaType = MPMediaType_None\<rparr>,
       pt\<lparr>g_nId := n\<rparr>))"

definition setCallSessionRight :: "MPSipSessionAV \<Rightarrow> MPPeer \<Rightarrow> MPPeer" where
  "setCallSessionRight s p = p\<lparr>m_oCallSessionRight := Some s, m_nSessionIdRight := ucast (av_id s)\<rparr>"

definition state_active :: "MPPeerState_t \<Rightarrow> bool" where
  "state_active st =
     (case st of MPPeerState_Connecting \<Rightarrow> True | MPPeerState_Connected \<Rightarrow> True | _ \<Rightarrow> False)"

definition isSessionLeftActive :: "MPPeer \<Rightarrow> bool" where
  "isSessionLeftActive p = state_active (m_eSessionLeftState p)"

definition isSessionRightActive :: "MPPeer \<Rightarrow> bool" where
  "isSessionRightActive p = state_active (m_eSessionRightState p)"

definition isSessionLeftConnected :: "MPPeer \<Rightarrow> bool" where
  "isSessionLeftConnected p \<longleftrightarrow> m_eSessionLeftState p = MPPeerState_Connected"

definition isSessionRightConnected :: "MPPeer \<Rightarrow> bool" where
  "isSessionRightConnected p \<longleftrightarrow> m_eSessionRightState p = MPPeerState_Connected"

definition setSessionLeftState :: "bool \<times> bool \<Rightarrow> MPPeerState_t \<Rightarrow> MPPeer \<Rightarrow> MPPeer" where
  "setSessionLeftState bypass st p =
     p\<lparr>m_eSessionLeftState := st,
       m_oCallSessionLeft := MPSipSessionAV_setState bypass (MPPeerState_getSessionState st) (m_oCallSessionLeft p)\<rparr>"

definition setSessionRightState :: "bool \<times> bool \<Rightarrow> MPPeerState_t \<Rightarrow> MPPeer \<Rightarrow> MPPeer" where
  "setSessionRightState bypass st p =
     p\<lparr>m_eSessionRightState := st,
       m_oCallSessionRight :=
         map_option (MPSipSessionAV_setState bypass (MPPeerState_getSessionState st)) (m_oCallSessionRight p)\<rparr>"

definition setLastSipResponseLeft :: "int \<Rightarrow> MPPeer \<Rightarrow> MPPeer" where
  "setLastSipResponseLeft c p = p\<lparr>m_nLastSipResponseLeft := c\<rparr>"

definition setLastSipResponseRight :: "int \<Rightarrow> MPPeer \<Rightarrow> MPPeer" where
  "setLastSipResponseRight c p = p\<lparr>m_nLastSipResponseRight := c\<rparr>"

section \<open>The table of peers of the engine\<close>

definition getPeerById :: "peer_table \<Rightarrow> u64 \<Rightarrow> MPPeer option" where
  "getPeerById pt i = map_find (m_Peers pt) i"

definition PeerBySessionIdLeft :: "u64 \<Rightarrow> MPPeer \<Rightarrow> bool" where
  "PeerBySessionIdLeft i p \<longleftrightarrow> m_nSessionIdLeft p = i"

definition PeerBySessionIdRight :: "u64 \<Rightarrow> MPPeer \<Rightarrow> bool" where
  "PeerBySessionIdRight i p \<longleftrightarrow> m_nSessionIdRight p = i"

definition getPeerBySessionId :: "peer_table \<Rightarrow> u64 \<Rightarrow> bool \<Rightarrow> MPPeer option" where
  "getPeerBySessionId pt i left =
     (if left then map_find_if (PeerBySessionIdLeft i) (m_Peers pt)
      else map_find_if (PeerBySessionIdRight i) (m_Peers pt))"

definition insertPeer :: "MPPeer \<Rightarrow> peer_table \<Rightarrow> peer_table" where
  "insertPeer p pt = pt\<lparr>m_Peers := map_insert (m_nId p) p (m_Peers pt)\<rparr>"

definition removePeer :: "u64 \<Rightarrow> peer_table \<Rightarrow> peer_table" where
  "removePeer i pt =
     (case map_find (m_Peers pt) i of None \<Rightarrow> pt | Some _ \<Rightarrow> pt\<lparr>m_Peers := map_erase i (m_Peers pt)\<rparr>)"

text \<open>A peer obtained from the table is a pointer: changing it changes the table's peer.\<close>

definition updatePeer :: "MPPeer \<Rightarrow> peer_table \<Rightarrow> peer_table" where
  "updatePeer p pt = pt\<lparr>m_Peers := map_modify (m_nId p) (\<lambda>_. p) (m_Peers pt)\<rparr>"

definition table_ok :: "peer_table \<Rightarrow> bool" where
  "table_ok pt \<longleftrightarrow> map_ok (m_Peers pt)"

interpretation peers: registry getPeerById insertPeer removePeer m_nId table_ok
  by unfold_locales
    (auto simp: getPeerById_def insertPeer_def removePeer_def table_ok_def map_find_insert
      map_find_erase split: option.splits)

lemma getPeerById_update:
  "getPeerById (updatePeer p pt) i = (if i = m_nId p then map_option (\<lambda>_. p) (getPeerById pt i) else getPeerById pt i)"
  by (simp add: getPeerById_def updatePeer_def map_find_modify)

lemma table_ok_simps [simp]:
  "table_ok pt \<Longrightarrow> table_ok (insertPeer p pt)" "table_ok pt \<Longrightarrow> table_ok (removePeer i pt)"
  "table_ok (updatePeer p pt) \<longleftrightarrow> table_ok pt"
  using peers.wf_add peers.wf_remove by (auto simp: table_ok_def updatePeer_def)

lemma getPeerById_g_nId [simp]: "getPeerById (pt\<lparr>g_nId := n\<rparr>) i = getPeerById pt i"
  by (simp add: getPeerById_def)

lemma table_ok_g_nId [simp]: "table_ok (pt\<lparr>g_nId := n\<rparr>) \<longleftrightarrow> table_ok pt"
  by (simp add: table_ok_def)

text \<open>A lookup by session id returns a peer of the table with that session id.\<close>

lemma bySession_Some:
  assumes "table_ok pt" "getPeerBySessionId pt i left = Some p"
  shows "\<exists>k. getPeerById pt k = Some p"
    and "if left then m_nSessionIdLeft p = i else m_nSessionIdRight p = i"
proof -
  let ?P = "if left then PeerBySessionIdLeft i else PeerBySessionIdRight i"
  have "map_find_if ?P (m_Peers pt) = Some p"
    using assms(2) by (simp add: getPeerBySessionId_def split: if_splits)
  then obtain k where "(k, p) \<in> set (m_Peers pt)" "?P p"
    by (blast dest: map_find_if_Some)
  with assms(1) show "\<exists>k. getPeerById pt k = Some p"
    and "if left then m_nSessionIdLeft p = i else m_nSessionIdRight p = i"
    by (auto simp: getPeerById_def table_ok_def map_find_set PeerBySessionIdLeft_def
        PeerBySessionIdRight_def split: if_splits)
qed

lemma bySession_None:
  assumes "table_ok pt" "getPeerBySessionId pt i left = None" "getPeerById pt k = Some p"
  shows "if left then m_nSessionIdLeft p \<noteq> i else m_nSessionIdRight p \<noteq> i"
  using assms
  by (auto simp: getPeerBySessionId_def getPeerById_def table_ok_def map_find_set map_find_if_None
      PeerBySessionIdLeft_def PeerBySessionIdRight_def split: if_splits)

end
