(* ===== verification/DbModel.thy ===== *)
theory DbModel
  imports Prelude
begin

text \<open>
  The rows of the click-to-call database as the code sees them (\<open>db/mp_db_model.h\<close>,
  \<open>db/mp_db_model.cc\<close>): SIP addresses, SIP callers and accounts, with the constructors that fill
  in a random password, the authentication token and a random activation code.
\<close>

definition MPDB_ACCOUNT_INVALID_ID :: int where "MPDB_ACCOUNT_INVALID_ID = -1"
definition MPDB_ACCOUNT_SIP_INVALID_ID :: int where "MPDB_ACCOUNT_SIP_INVALID_ID = -1"

record MPDbAccountSip =
  sip_nId :: int
  sip_pAddress64 :: cstr
  sip_nAccountId :: int

definition new_MPDbAccountSip :: "int \<Rightarrow> cstr \<Rightarrow> int \<Rightarrow> MPDbAccountSip" where
  "new_MPDbAccountSip nId addr nAccountId = \<lparr>sip_nId = nId, sip_pAddress64 = addr, sip_nAccountId = nAccountId\<rparr>"

record MPDbAccountSipCaller =
  clr_nId :: int
  clr_pDisplayName :: cstr
  clr_pImpu :: cstr
  clr_pImpi :: cstr
  clr_pRealm :: cstr
  clr_pHa1 :: cstr
  clr_nAccountSipId :: int

definition new_MPDbAccountSipCaller ::
  "int \<Rightarrow> cstr \<Rightarrow> cstr \<Rightarrow> cstr \<Rightarrow> cstr \<Rightarrow> cstr \<Rightarrow> int \<Rightarrow> MPDbAccountSipCaller" where
  "new_MPDbAccountSipCaller nId name impu impi realm ha1 nSip =
     \<lparr>clr_nId = nId, clr_pDisplayName = name, clr_pImpu = impu, clr_pImpi = impi,
      clr_pRealm = realm, clr_pHa1 = ha1, clr_nAccountSipId = nSip\<rparr>"

record MPDbAccount =
  acc_nId :: int
  acc_nSoftVersion :: int
  acc_nDatabaseVersion :: int
  acc_pName :: cstr
  acc_pEmail :: cstr
  acc_pPassword :: cstr
  acc_pAuthToken :: cstr
  acc_bActivated :: bool
  acc_pActivationCode :: cstr
  acc_nEpoch :: u64

section \<open>Random passwords, tokens and codes\<close>

text \<open>The table of the source, with its second \<open>k\<close> where a \<open>q\<close> would stand.\<close>

definition password_chars :: string where
  "password_chars = ''abcdefghijklmnopkrstuvwxyz'' @ ''ABCDEFGHIJKLMNOPKRSTUVWXYZ'' @ ''0123456789''"

lemma length_password_chars: "length password_chars = 62"
  by (simp add: password_chars_def)

text \<open>
  What a constructor call draws from the libraries: for each of the nine letters the values of
  \<open>rand()\<close> and \<open>tsk_time_now()\<close>, a UUID, and the wall clock in milliseconds.
\<close>

record draws =
  draw_rand :: "nat \<Rightarrow> 32 word"
  draw_now :: "nat \<Rightarrow> u64"
  draw_uuid :: string
  draw_epoch :: u64

definition buildRandomPassword :: "draws \<Rightarrow> string" where
  "buildRandomPassword r =
     map (\<lambda>i. password_chars ! unat ((xor (scast (draw_rand r i)) (draw_now r i)) mod (62 :: u64))) [0..<9]"

definition buildRandomActivationCode :: "draws \<Rightarrow> string" where
  "buildRandomActivationCode r = draw_uuid r"

definition buildAuthToken :: "tsk_api \<Rightarrow> string \<Rightarrow> string \<Rightarrow> string" where
  "buildAuthToken T pw email = tsk_md5compute T (pw @ '':'' @ email @ '':click2call.org'')"

text \<open>
  \<open>MPDbAccount::MPDbAccount\<close>. \<open>buildAuthToken\<close> asserts both of its arguments, so a missing e-mail
  address aborts when no token is given; None stands for that abort.
\<close>

definition new_MPDbAccount ::
  "tsk_api \<Rightarrow> draws \<Rightarrow> int \<Rightarrow> int \<Rightarrow> int \<Rightarrow> cstr \<Rightarrow> cstr \<Rightarrow> cstr \<Rightarrow> cstr \<Rightarrow> bool \<Rightarrow> cstr \<Rightarrow> u64 \<Rightarrow> MPDbAccount option" where
  "new_MPDbAccount T r nId soft dbv name email pw tok act code epoch =
     (let pw' = (case pw of Some p \<Rightarrow> p | None \<Rightarrow> buildRandomPassword r);
          tok' = (case tok of Some t \<Rightarrow> Some t
                  | None \<Rightarrow> map_option (buildAuthToken T pw') email);
          code' = (case code of Some c \<Rightarrow> c | None \<Rightarrow> buildRandomActivationCode r)
      in case tok' of
           None \<Rightarrow> None
         | Some t \<Rightarrow> Some
             \<lparr>acc_nId = nId, acc_nSoftVersion = soft, acc_nDatabaseVersion = dbv, acc_pName = name,
              acc_pEmail = email, acc_pPassword = Some pw', acc_pAuthToken = Some t,
              acc_bActivated = act, acc_pActivationCode = Some code',
              acc_nEpoch = (if epoch \<noteq> 0 then epoch else draw_epoch r)\<rparr>)"

section \<open>Properties\<close>

lemma password_chars_nth: "i < 62 \<Longrightarrow> password_chars ! i \<in> set password_chars"
  by (rule nth_mem) (simp add: length_password_chars)

text \<open>
  A generated password has nine characters, each a letter or digit of the source's table,
  whatever the random source and the clock return: the index never leaves the table.
\<close>

theorem random_password_alphabet:
  "length (buildRandomPassword r) = 9 \<and> set (buildRandomPassword r) \<subseteq> set password_chars"
proof -
  have "unat (x mod 62) < 62" for x :: u64
  proof -
    have "unat (x mod 62) = unat x mod unat (62 :: u64)" by (rule unat_mod)
    moreover have "unat (62 :: u64) = 62" by simp
    ultimately show ?thesis by simp
  qed
  then show ?thesis
    by (auto simp: buildRandomPassword_def intro: password_chars_nth)
qed

lemma new_MPDbAccount_fields:
  assumes "new_MPDbAccount T r i sv dv name email pw tok act code ep = Some a"
  shows "acc_nId a = i" "acc_nSoftVersion a = sv" "acc_nDatabaseVersion a = dv" "acc_pName a = name"
    "acc_pEmail a = email" "acc_bActivated a = act" "acc_pPassword a \<noteq> None"
    "acc_pAuthToken a \<noteq> None" "acc_pActivationCode a \<noteq> None"
    "pw \<noteq> None \<Longrightarrow> acc_pPassword a = pw" "tok \<noteq> None \<Longrightarrow> acc_pAuthToken a = tok"
    "code \<noteq> None \<Longrightarrow> acc_pActivationCode a = code"
    "ep \<noteq> 0 \<Longrightarrow> acc_nEpoch a = ep" "ep = 0 \<Longrightarrow> acc_nEpoch a = draw_epoch r"
  using assms by (auto simp: new_MPDbAccount_def Let_def split: option.splits if_splits)

lemma new_MPDbAccount_ok: "email \<noteq> None \<Longrightarrow> \<exists>a. new_MPDbAccount T r i sv dv name email pw tok act code ep = Some a"
  by (auto simp: new_MPDbAccount_def Let_def split: option.splits)

end
