(* ===== verification/Database.thy ===== *)
theory Database
  imports DbModel "HOL-Library.Monad_Syntax"
begin

text \<open>
  The database of the click-to-call service: the statements of \<open>db/mp_db.cc\<close> over the rows of the
  three tables, and the operations of \<open>MPDbSQLite\<close> (\<open>db/sqlite/mp_db_sqlite.cc\<close>) that prepare, bind
  and step them inside a transaction, with the retry loops on \<open>SQLITE_BUSY\<close>.

  The engine is reached through result codes. Every call to it takes the next entry of a fault
  oracle: \<open>Some c\<close> means that the call fails with the code \<open>c\<close> and changes nothing, \<open>None\<close> that it does
  what its SQL text says. The database shown is the one this connection sees. Foreign keys are
  declared by the schema but never switched on by the code (\<open>PRAGMA foreign_keys\<close> is off by default),
  so \<open>ON DELETE CASCADE\<close> does nothing.
\<close>

section \<open>Result codes\<close>

definition SQLITE_OK :: int where "SQLITE_OK = 0"
definition SQLITE_BUSY :: int where "SQLITE_BUSY = 5"
definition SQLITE_FULL :: int where "SQLITE_FULL = 13"
definition SQLITE_CONSTRAINT :: int where "SQLITE_CONSTRAINT = 19"
definition SQLITE_ROW :: int where "SQLITE_ROW = 100"
definition SQLITE_DONE :: int where "SQLITE_DONE = 101"

lemmas sqlite_codes = SQLITE_OK_def SQLITE_BUSY_def SQLITE_FULL_def SQLITE_CONSTRAINT_def
  SQLITE_ROW_def SQLITE_DONE_def

section \<open>Tables\<close>

text \<open>
  Rows in rowid order; \<open>seq_*\<close> is what AUTOINCREMENT remembers for the table.
\<close>

record sqdb =
  db_account :: "MPDbAccount list"
  db_account_sip :: "MPDbAccountSip list"
  db_account_sip_caller :: "MPDbAccountSipCaller list"
  seq_account :: int
  seq_account_sip :: int
  seq_account_sip_caller :: int

text \<open>
  An \<open>MPDbSQLite\<close> object: whether \<open>m_pEngine\<close> is set, the flag of \<open>isOpened\<close>, the database behind the
  connection, the number of calls made into the engine and the waits of the retry loops.
\<close>

record MPDbSQLite =
  m_pEngine :: bool
  m_bOpened :: bool
  c_db :: sqdb
  calls :: nat
  slept :: "nat list"

definition max_rowid :: int where "max_rowid = 9223372036854775807"

type_synonym sq_faults = "nat \<Rightarrow> int option"

definition tick :: "MPDbSQLite \<Rightarrow> MPDbSQLite" where "tick c = c\<lparr>calls := Suc (calls c)\<rparr>"

section \<open>The statements of mp_db.cc\<close>

text \<open>NOT NULL and UNIQUE are checked before the row is written; the new rowid follows the largest
  one ever used.\<close>

definition sSQL_InsertAccount :: "MPDbAccount \<Rightarrow> sqdb \<Rightarrow> int \<times> sqdb" where
  "sSQL_InsertAccount a d =
     (if acc_pName a = None \<or> acc_pEmail a = None \<or> (\<exists>b \<in> set (db_account d). acc_pEmail b = acc_pEmail a)
      then (SQLITE_CONSTRAINT, d)
      else if max_rowid \<le> seq_account d then (SQLITE_FULL, d)
      else (SQLITE_DONE,
            d\<lparr>db_account := db_account d @ [a\<lparr>acc_nId := seq_account d + 1\<rparr>],
              seq_account := seq_account d + 1\<rparr>))"

definition sSQL_UpdateAccountById :: "MPDbAccount \<Rightarrow> sqdb \<Rightarrow> int \<times> sqdb" where
  "sSQL_UpdateAccountById a d =
     (if (\<exists>b \<in> set (db_account d). acc_nId b = acc_nId a)
         \<and> (acc_pName a = None \<or> acc_pEmail a = None
            \<or> (\<exists>b \<in> set (db_account d). acc_nId b \<noteq> acc_nId a \<and> acc_pEmail b = acc_pEmail a))
      then (SQLITE_CONSTRAINT, d)
      else (SQLITE_DONE, d\<lparr>db_account := map (\<lambda>b. if acc_nId b = acc_nId a then a else b) (db_account d)\<rparr>))"

text \<open>The bound value is a signed 64-bit integer, as is the column.\<close>

definition sSQL_DeleteZombies :: "u64 \<Rightarrow> sqdb \<Rightarrow> int \<times> sqdb" where
  "sSQL_DeleteZombies limit d =
     (SQLITE_DONE,
      d\<lparr>db_account := filter (\<lambda>a. \<not> (sint (acc_nEpoch a) < sint limit \<and> \<not> acc_bActivated a)) (db_account d)\<rparr>)"

definition sSQL_SelectAccountByEmail :: "string \<Rightarrow> sqdb \<Rightarrow> MPDbAccount option" where
  "sSQL_SelectAccountByEmail email d = find (\<lambda>a. acc_pEmail a = Some email) (db_account d)"

definition sSQL_InsertAccountSip :: "MPDbAccountSip \<Rightarrow> sqdb \<Rightarrow> int \<times> sqdb" where
  "sSQL_InsertAccountSip s d =
     (if sip_pAddress64 s = None then (SQLITE_CONSTRAINT, d)
      else if max_rowid \<le> seq_account_sip d then (SQLITE_FULL, d)
      else (SQLITE_DONE,
            d\<lparr>db_account_sip := db_account_sip d @ [s\<lparr>sip_nId := seq_account_sip d + 1\<rparr>],
              seq_account_sip := seq_account_sip d + 1\<rparr>))"

definition sSQL_DeleteAccountSip :: "int \<Rightarrow> sqdb \<Rightarrow> int \<times> sqdb" where
  "sSQL_DeleteAccountSip i d =
     (SQLITE_DONE, d\<lparr>db_account_sip := filter (\<lambda>s. sip_nId s \<noteq> i) (db_account_sip d)\<rparr>)"

definition sSQL_SelectAccountSipByAddress :: "string \<Rightarrow> sqdb \<Rightarrow> MPDbAccountSip option" where
  "sSQL_SelectAccountSipByAddress addr d = find (\<lambda>s. sip_pAddress64 s = Some addr) (db_account_sip d)"

definition sSQL_SelectAccountSipByAccountId :: "int \<Rightarrow> sqdb \<Rightarrow> MPDbAccountSip option" where
  "sSQL_SelectAccountSipByAccountId i d = find (\<lambda>s. sip_nAccountId s = i) (db_account_sip d)"

definition sSQL_SelectAccountSipByAccountIdAndAddress :: "int \<Rightarrow> string \<Rightarrow> sqdb \<Rightarrow> MPDbAccountSip option" where
  "sSQL_SelectAccountSipByAccountIdAndAddress i addr d =
     find (\<lambda>s. sip_nAccountId s = i \<and> sip_pAddress64 s = Some addr) (db_account_sip d)"

definition sSQL_InsertAccountSipCaller :: "MPDbAccountSipCaller \<Rightarrow> sqdb \<Rightarrow> int \<times> sqdb" where
  "sSQL_InsertAccountSipCaller c d =
     (if clr_pImpu c = None \<or> clr_pImpi c = None \<or> clr_pRealm c = None \<or> clr_pHa1 c = None
      then (SQLITE_CONSTRAINT, d)
      else if max_rowid \<le> seq_account_sip_caller d then (SQLITE_FULL, d)
      else (SQLITE_DONE,
            d\<lparr>db_account_sip_caller := db_account_sip_caller d @ [c\<lparr>clr_nId := seq_account_sip_caller d + 1\<rparr>],
              seq_account_sip_caller := seq_account_sip_caller d + 1\<rparr>))"

definition sSQL_DeleteAccountSipCaller :: "int \<Rightarrow> sqdb \<Rightarrow> int \<times> sqdb" where
  "sSQL_DeleteAccountSipCaller i d =
     (SQLITE_DONE, d\<lparr>db_account_sip_caller := filter (\<lambda>c. clr_nId c \<noteq> i) (db_account_sip_caller d)\<rparr>)"

definition sSQL_SelectAccountSipCallerById :: "int \<Rightarrow> sqdb \<Rightarrow> MPDbAccountSipCaller option" where
  "sSQL_SelectAccountSipCallerById i d = find (\<lambda>c. clr_nId c = i) (db_account_sip_caller d)"

definition sSQL_SelectAccountSipCallerByAccountSipId :: "int \<Rightarrow> sqdb \<Rightarrow> MPDbAccountSipCaller option" where
  "sSQL_SelectAccountSipCallerByAccountSipId i d = find (\<lambda>c. clr_nAccountSipId c = i) (db_account_sip_caller d)"

section \<open>Calls into the engine\<close>

text \<open>A call whose success is \<open>SQLITE_OK\<close>: prepare, bind, and the exec of BEGIN and COMMIT.\<close>

definition sq_call :: "sq_faults \<Rightarrow> MPDbSQLite \<Rightarrow> int \<times> MPDbSQLite" where
  "sq_call F c = ((case F (calls c) of Some e \<Rightarrow> e | None \<Rightarrow> SQLITE_OK), tick c)"

text \<open>One step of a compiled statement.\<close>

definition sq_step :: "sq_faults \<Rightarrow> (sqdb \<Rightarrow> int \<times> sqdb) \<Rightarrow> MPDbSQLite \<Rightarrow> int \<times> MPDbSQLite" where
  "sq_step F stmt c =
     (case F (calls c) of
        Some e \<Rightarrow> (e, tick c)
      | None \<Rightarrow> (case stmt (c_db c) of (ret, d) \<Rightarrow> (ret, tick (c\<lparr>c_db := d\<rparr>))))"

definition sq_sleep :: "nat \<Rightarrow> MPDbSQLite \<Rightarrow> MPDbSQLite" where
  "sq_sleep t c = c\<lparr>slept := slept c @ [t]\<rparr>"

text \<open>
  The loop \<open>while (nTimeOut < (200 << 5) && (ret = call) == SQLITE_BUSY) { sleep; nTimeOut <<= 1; }\<close>
  of \<open>dbStep\<close> and \<open>dbTransacExec\<close>. It has no bound of its own but the timeout.
\<close>

partial_function (option) retry_loop ::
  "(MPDbSQLite \<Rightarrow> int \<times> MPDbSQLite) \<Rightarrow> nat \<Rightarrow> int \<Rightarrow> MPDbSQLite \<Rightarrow> (int \<times> MPDbSQLite) option" where
  "retry_loop call nTimeOut ret c =
     (if nTimeOut < 200 * 2 ^ 5 then
        (case call c of (ret', c') \<Rightarrow>
           if ret' = SQLITE_BUSY then retry_loop call (nTimeOut * 2) ret' (sq_sleep nTimeOut c')
           else Some (ret', c'))
      else Some (ret, c))"

definition dbTransacExec :: "sq_faults \<Rightarrow> MPDbSQLite \<Rightarrow> (int \<times> MPDbSQLite) option" where
  "dbTransacExec F c = (if \<not> m_bOpened c then None else retry_loop (sq_call F) 200 0 c)"

definition dbStep :: "sq_faults \<Rightarrow> (sqdb \<Rightarrow> int \<times> sqdb) \<Rightarrow> MPDbSQLite \<Rightarrow> (int \<times> MPDbSQLite) option" where
  "dbStep F stmt c = retry_loop (sq_step F stmt) 200 0 c"

section \<open>The operations of MPDbSQLite\<close>

text \<open>\<open>ret += sqlite3_bind_...\<close>, n times.\<close>

fun sq_binds :: "sq_faults \<Rightarrow> nat \<Rightarrow> int \<Rightarrow> MPDbSQLite \<Rightarrow> int \<times> MPDbSQLite" where
  "sq_binds F 0 ret c = (ret, c)"
| "sq_binds F (Suc n) ret c = (case sq_call F c of (e, c') \<Rightarrow> sq_binds F n (ret + e) c')"

text \<open>Prepare, bind \<open>n\<close> arguments, step when every code was OK, finalize: the shape every writing
operation shares. The result is what \<open>ret\<close> holds at the end.\<close>

definition run_stmt :: "sq_faults \<Rightarrow> nat \<Rightarrow> (sqdb \<Rightarrow> int \<times> sqdb) \<Rightarrow> MPDbSQLite \<Rightarrow> (int \<times> MPDbSQLite) option" where
  "run_stmt F n stmt c =
     (case sq_call F c of (ret, c1) \<Rightarrow>
        if ret \<noteq> SQLITE_OK then Some (ret, c1)
        else (case sq_binds F n ret c1 of (ret2, c2) \<Rightarrow>
                if ret2 = SQLITE_OK then dbStep F stmt c2 else Some (ret2, c2)))"

definition updateAccount :: "sq_faults \<Rightarrow> MPDbAccount \<Rightarrow> MPDbSQLite \<Rightarrow> (bool \<times> MPDbSQLite) option" where
  "updateAccount F a c = do {
     (_, c1) \<leftarrow> dbTransacExec F c;
     (ret, c2) \<leftarrow> run_stmt F 10 (sSQL_UpdateAccountById a) c1;
     (_, c3) \<leftarrow> dbTransacExec F c2;
     Some (ret = SQLITE_DONE, c3) }"

text \<open>\<open>killZombieAccounts\<close> overwrites the statement's code with that of the COMMIT; \<open>now\<close> is
\<open>tsk_time_epoch()\<close>, and the difference wraps.\<close>

definition killZombieAccounts :: "sq_faults \<Rightarrow> u64 \<Rightarrow> u64 \<Rightarrow> MPDbSQLite \<Rightarrow> (bool \<times> MPDbSQLite) option" where
  "killZombieAccounts F now nMax c = do {
     (_, c1) \<leftarrow> dbTransacExec F c;
     (_, c2) \<leftarrow> run_stmt F 1 (sSQL_DeleteZombies (now - nMax)) c1;
     (ret, c3) \<leftarrow> dbTransacExec F c2;
     Some (ret = SQLITE_DONE, c3) }"

definition addAccount :: "sq_faults \<Rightarrow> MPDbAccount \<Rightarrow> MPDbSQLite \<Rightarrow> (bool \<times> MPDbSQLite) option" where
  "addAccount F a c = do {
     (_, c1) \<leftarrow> dbTransacExec F c;
     (ret, c2) \<leftarrow> run_stmt F 9 (sSQL_InsertAccount a) c1;
     (_, c3) \<leftarrow> dbTransacExec F c2;
     Some (ret = SQLITE_DONE, c3) }"

definition addAccountSip :: "sq_faults \<Rightarrow> MPDbAccountSip \<Rightarrow> MPDbSQLite \<Rightarrow> (bool \<times> MPDbSQLite) option" where
  "addAccountSip F s c = do {
     (_, c1) \<leftarrow> dbTransacExec F c;
     (ret, c2) \<leftarrow> run_stmt F 2 (sSQL_InsertAccountSip s) c1;
     (_, c3) \<leftarrow> dbTransacExec F c2;
     Some (ret = SQLITE_DONE, c3) }"

definition addAccountSipCaller :: "sq_faults \<Rightarrow> MPDbAccountSipCaller \<Rightarrow> MPDbSQLite \<Rightarrow> (bool \<times> MPDbSQLite) option" where
  "addAccountSipCaller F s c = do {
     (_, c1) \<leftarrow> dbTransacExec F c;
     (ret, c2) \<leftarrow> run_stmt F 6 (sSQL_InsertAccountSipCaller s) c1;
     (_, c3) \<leftarrow> dbTransacExec F c2;
     Some (ret = SQLITE_DONE, c3) }"

definition deleteAccountSipById :: "sq_faults \<Rightarrow> int \<Rightarrow> MPDbSQLite \<Rightarrow> (bool \<times> MPDbSQLite) option" where
  "deleteAccountSipById F i c =
     (if \<not> m_bOpened c then None
      else do { (ret, c1) \<leftarrow> run_stmt F 1 (sSQL_DeleteAccountSip i) c; Some (ret = SQLITE_DONE, c1) })"

definition deleteAccountSipCallerById :: "sq_faults \<Rightarrow> int \<Rightarrow> MPDbSQLite \<Rightarrow> (bool \<times> MPDbSQLite) option" where
  "deleteAccountSipCallerById F i c =
     (if \<not> m_bOpened c then None
      else do { (ret, c1) \<leftarrow> run_stmt F 1 (sSQL_DeleteAccountSipCaller i) c; Some (ret = SQLITE_DONE, c1) })"

subsection \<open>Queries\<close>

text \<open>The code of a step of a SELECT: a row, or no more rows.\<close>

definition select_stmt :: "(sqdb \<Rightarrow> 'r option) \<Rightarrow> sqdb \<Rightarrow> int \<times> sqdb" where
  "select_stmt q d = ((case q d of Some _ \<Rightarrow> SQLITE_ROW | None \<Rightarrow> SQLITE_DONE), d)"

text \<open>Prepare, bind one argument after the other until one fails, step: the row when the step
reports one.\<close>

fun sq_binds_until :: "sq_faults \<Rightarrow> nat \<Rightarrow> MPDbSQLite \<Rightarrow> int \<times> MPDbSQLite" where
  "sq_binds_until F 0 c = (SQLITE_OK, c)"
| "sq_binds_until F (Suc n) c =
     (case sq_call F c of (e, c') \<Rightarrow> if e \<noteq> SQLITE_OK then (e, c') else sq_binds_until F n c')"

definition run_select :: "sq_faults \<Rightarrow> nat \<Rightarrow> (sqdb \<Rightarrow> 'r option) \<Rightarrow> MPDbSQLite \<Rightarrow> ('r option \<times> MPDbSQLite) option" where
  "run_select F n q c =
     (if \<not> m_bOpened c then None
      else case sq_call F c of (ret, c1) \<Rightarrow>
        if ret \<noteq> SQLITE_OK then Some (None, c1)
        else (case sq_binds_until F n c1 of (ret2, c2) \<Rightarrow>
          if ret2 \<noteq> SQLITE_OK then Some (None, c2)
          else do { (ret3, c3) \<leftarrow> dbStep F (select_stmt q) c2;
                    Some ((if ret3 = SQLITE_ROW then q (c_db c2) else None), c3) }))"

text \<open>The account is rebuilt by its constructor without the epoch column.\<close>

definition selectAccountByEmail ::
  "tsk_api \<Rightarrow> draws \<Rightarrow> sq_faults \<Rightarrow> string \<Rightarrow> MPDbSQLite \<Rightarrow> (MPDbAccount option \<times> MPDbSQLite) option" where
  "selectAccountByEmail T r F email c = do {
     (row, c1) \<leftarrow> run_select F 1 (sSQL_SelectAccountByEmail email) c;
     (case row of
        None \<Rightarrow> Some (None, c1)
      | Some b \<Rightarrow>
          do { a \<leftarrow> new_MPDbAccount T r (acc_nId b) (acc_nSoftVersion b) (acc_nDatabaseVersion b) (acc_pName b)
                     (acc_pEmail b) (acc_pPassword b) (acc_pAuthToken b) (acc_bActivated b)
                     (acc_pActivationCode b) 0;
               Some (Some a, c1) }) }"

text \<open>The three queries on SIP addresses read the account id from column 0, which is the row id.\<close>

definition row_to_sip :: "MPDbAccountSip \<Rightarrow> MPDbAccountSip" where
  "row_to_sip s = new_MPDbAccountSip (sip_nId s) (sip_pAddress64 s) (sip_nId s)"

definition selectAccountSipByAddress ::
  "sq_faults \<Rightarrow> string \<Rightarrow> MPDbSQLite \<Rightarrow> (MPDbAccountSip option \<times> MPDbSQLite) option" where
  "selectAccountSipByAddress F addr c =
     do { (row, c1) \<leftarrow> run_select F 1 (sSQL_SelectAccountSipByAddress addr) c;
          Some (map_option row_to_sip row, c1) }"

definition selectAccountSipByAccountId ::
  "sq_faults \<Rightarrow> int \<Rightarrow> MPDbSQLite \<Rightarrow> (MPDbAccountSip option \<times> MPDbSQLite) option" where
  "selectAccountSipByAccountId F i c =
     (if i = MPDB_ACCOUNT_INVALID_ID then None
      else do { (row, c1) \<leftarrow> run_select F 1 (sSQL_SelectAccountSipByAccountId i) c;
                Some (map_option row_to_sip row, c1) })"

definition selectAccountSipByAccountIdAndAddress ::
  "sq_faults \<Rightarrow> int \<Rightarrow> cstr \<Rightarrow> MPDbSQLite \<Rightarrow> (MPDbAccountSip option \<times> MPDbSQLite) option" where
  "selectAccountSipByAccountIdAndAddress F i addr c =
     (case addr of
        None \<Rightarrow> None
      | Some s \<Rightarrow>
          if i = MPDB_ACCOUNT_INVALID_ID then None
          else do { (row, c1) \<leftarrow> run_select F 2 (sSQL_SelectAccountSipByAccountIdAndAddress i s) c;
                    Some (map_option row_to_sip row, c1) })"

definition row_to_caller :: "MPDbAccountSipCaller \<Rightarrow> MPDbAccountSipCaller" where
  "row_to_caller s =
     new_MPDbAccountSipCaller (clr_nId s) (clr_pDisplayName s) (clr_pImpu s) (clr_pImpi s) (clr_pRealm s)
       (clr_pHa1 s) (clr_nAccountSipId s)"

definition selectAccountSipCaller ::
  "sq_faults \<Rightarrow> int \<Rightarrow> bool \<Rightarrow> MPDbSQLite \<Rightarrow> (MPDbAccountSipCaller option \<times> MPDbSQLite) option" where
  "selectAccountSipCaller F i bByAccountSipId c =
     (let sql = (if bByAccountSipId then sSQL_SelectAccountSipCallerByAccountSipId i else sSQL_SelectAccountSipCallerById i) in
      do { (row, c1) \<leftarrow> run_select F 1 sql c; Some (map_option row_to_caller row, c1) })"

definition selectAccountSipCallerById ::
  "sq_faults \<Rightarrow> int \<Rightarrow> MPDbSQLite \<Rightarrow> (MPDbAccountSipCaller option \<times> MPDbSQLite) option" where
  "selectAccountSipCallerById F i c = selectAccountSipCaller F i False c"

definition selectAccountSipCallerByAccountSipId ::
  "sq_faults \<Rightarrow> int \<Rightarrow> MPDbSQLite \<Rightarrow> (MPDbAccountSipCaller option \<times> MPDbSQLite) option" where
  "selectAccountSipCallerByAccountSipId F i c = selectAccountSipCaller F i True c"

subsection \<open>Open and close\<close>

definition close_db :: "MPDbSQLite \<Rightarrow> bool \<times> MPDbSQLite" where
  "close_db c = (True, c\<lparr>m_pEngine := False, m_bOpened := False\<rparr>)"

text \<open>
  \<open>open\<close>: \<open>sqlite3_open\<close> (its code, and whether it returned a handle), then three \<open>sqlite3_exec\<close>. A failed
  PRAGMA only logs: the flag is overwritten by the next call. The schema statement creates no row.
\<close>

definition open_db :: "sq_faults \<Rightarrow> bool \<Rightarrow> MPDbSQLite \<Rightarrow> bool \<times> MPDbSQLite" where
  "open_db F handle c0 =
     (let c1 = snd (close_db c0);
          (ret, c2) = sq_call F c1;
          c2 = c2\<lparr>m_pEngine := handle, m_bOpened := (ret = SQLITE_OK)\<rparr>
      in if \<not> m_bOpened c2 \<or> \<not> m_pEngine c2 then (False, c2)
         else let (_, c3) = sq_call F c2;
                  (_, c4) = sq_call F c3;
                  (ret, c5) = sq_call F c4;
                  c6 = c5\<lparr>m_bOpened := (ret = SQLITE_OK)\<rparr>
              in (m_bOpened c6, c6))"

section \<open>The retry loops\<close>

text \<open>The loop unfolds at most five times: 200, 400, 800, 1600 and 3200 ms.\<close>

lemma retry_stop: "6400 \<le> t \<Longrightarrow> retry_loop call t ret c = Some (ret, c)"
  by (subst retry_loop.simps) simp

lemma retry_go:
  "t < 6400 \<Longrightarrow> retry_loop call t ret c =
     (if fst (call c) = SQLITE_BUSY then retry_loop call (2 * t) SQLITE_BUSY (sq_sleep t (snd (call c)))
      else Some (call c))"
  by (subst retry_loop.simps) (auto split: prod.split simp: mult.commute)

text \<open>
  What a loop that starts at 200 ms does, when a call that answers BUSY changes only the counters:
  it returns, with the code of a call made in a state with the same database, after at most five
  calls.
\<close>

definition same_db :: "MPDbSQLite \<Rightarrow> MPDbSQLite \<Rightarrow> bool" where
  "same_db c c' \<longleftrightarrow> m_pEngine c' = m_pEngine c \<and> m_bOpened c' = m_bOpened c \<and> c_db c' = c_db c"

lemma same_db_refl [simp]: "same_db c c"
  by (simp add: same_db_def)

lemma same_db_trans: "same_db a b \<Longrightarrow> same_db b c \<Longrightarrow> same_db a c"
  by (simp add: same_db_def)

lemma same_db_sleep [simp]: "same_db c (sq_sleep t c') \<longleftrightarrow> same_db c c'"
  by (simp add: same_db_def sq_sleep_def)

lemma same_db_tick [simp]:
  "same_db c (tick c') \<longleftrightarrow> same_db c c'" "same_db (tick c) c' \<longleftrightarrow> same_db c c'"
  by (simp_all add: same_db_def tick_def)

lemma retry_spec:
  assumes busy: "\<And>c. fst (call c) = SQLITE_BUSY \<Longrightarrow> same_db c (snd (call c))"
    and start: "t = 200 * 2 ^ k" "k < 5"
  obtains ret' c' c1 where "retry_loop call t ret c = Some (ret', c')" "same_db c c1"
    "ret' = SQLITE_BUSY \<and> same_db c c' \<or> ret' \<noteq> SQLITE_BUSY \<and> call c1 = (ret', c')"
proof -
  have "\<exists>ret' c' c1. retry_loop call t ret c = Some (ret', c') \<and> same_db c c1 \<and>
      (ret' = SQLITE_BUSY \<and> same_db c c' \<or> ret' \<noteq> SQLITE_BUSY \<and> call c1 = (ret', c'))"
    using start
  proof (induction "4 - k" arbitrary: k t ret c)
    case 0
    then have "k = 4" by simp
    then have t: "t = 3200" using 0 by simp
    have "same_db c (sq_sleep t (snd (call c)))" if "fst (call c) = SQLITE_BUSY"
      using busy [OF that] by simp
    then show ?case
      using t by (cases "call c"; cases "fst (call c) = SQLITE_BUSY")
        (auto simp: retry_go retry_stop intro: exI [of _ c])
  next
    case (Suc m)
    have lt: "t < 6400"
    proof -
      have "k \<le> 4" using Suc by simp
      then have "(2::nat) ^ k \<le> 2 ^ 4" by (rule power_increasing) simp
      then show ?thesis using Suc.prems by simp
    qed
    show ?case
    proof (cases "fst (call c) = SQLITE_BUSY")
      case True
      have k: "m = 4 - Suc k" "Suc k < 5" "2 * t = 200 * 2 ^ Suc k" using Suc by auto
      let ?d = "sq_sleep t (snd (call c))"
      have cd: "same_db c ?d" using busy [OF True] by simp
      from Suc.hyps(1) [OF k(1) k(3) k(2), of SQLITE_BUSY ?d] cd
      show ?thesis using True lt by (auto simp: retry_go dest: same_db_trans [OF cd])
    next
      case False
      then show ?thesis using lt
        by (cases "call c") (auto simp: retry_go intro: exI [of _ c])
    qed
  qed
  with that show ?thesis by blast
qed

lemma retry_trace:
  assumes step: "\<And>c. calls (snd (call c)) = Suc (calls c)" "\<And>c. slept (snd (call c)) = slept c"
  shows "\<exists>ret' c' n. retry_loop call 200 ret c = Some (ret', c') \<and> n \<le> 5
    \<and> slept c' = slept c @ take n [200, 400, 800, 1600, 3200] \<and> calls c' \<le> calls c + 5 \<and> calls c < calls c'
    \<and> (ret' = SQLITE_BUSY \<longleftrightarrow> n = 5)"
proof -
  have one: "call c = (fst (call c), snd (call c))" for c by simp
  have sl: "slept (sq_sleep t c) = slept c @ [t]" "calls (sq_sleep t c) = calls c" for t c
    by (simp_all add: sq_sleep_def)
  define c1 where "c1 = sq_sleep 200 (snd (call c))"
  define c2 where "c2 = sq_sleep 400 (snd (call c1))"
  define c3 where "c3 = sq_sleep 800 (snd (call c2))"
  define c4 where "c4 = sq_sleep 1600 (snd (call c3))"
  define c5 where "c5 = sq_sleep 3200 (snd (call c4))"
  have s: "slept c1 = slept c @ [200]" "calls c1 = calls c + 1"
    "slept c2 = slept c @ [200, 400]" "calls c2 = calls c + 2"
    "slept c3 = slept c @ [200, 400, 800]" "calls c3 = calls c + 3"
    "slept c4 = slept c @ [200, 400, 800, 1600]" "calls c4 = calls c + 4"
    "slept c5 = slept c @ [200, 400, 800, 1600, 3200]" "calls c5 = calls c + 5"
    by (simp_all add: c1_def c2_def c3_def c4_def c5_def sl step)
  have unfold: "retry_loop call 200 ret c =
      (if fst (call c) = SQLITE_BUSY then
       if fst (call c1) = SQLITE_BUSY then
       if fst (call c2) = SQLITE_BUSY then
       if fst (call c3) = SQLITE_BUSY then
       if fst (call c4) = SQLITE_BUSY then Some (SQLITE_BUSY, c5)
       else Some (call c4) else Some (call c3) else Some (call c2) else Some (call c1) else Some (call c))"
    by (simp add: retry_go retry_stop c1_def c2_def c3_def c4_def c5_def)
  consider "fst (call c) \<noteq> SQLITE_BUSY"
    | "fst (call c) = SQLITE_BUSY" "fst (call c1) \<noteq> SQLITE_BUSY"
    | "fst (call c) = SQLITE_BUSY" "fst (call c1) = SQLITE_BUSY" "fst (call c2) \<noteq> SQLITE_BUSY"
    | "fst (call c) = SQLITE_BUSY" "fst (call c1) = SQLITE_BUSY" "fst (call c2) = SQLITE_BUSY"
      "fst (call c3) \<noteq> SQLITE_BUSY"
    | "fst (call c) = SQLITE_BUSY" "fst (call c1) = SQLITE_BUSY" "fst (call c2) = SQLITE_BUSY"
      "fst (call c3) = SQLITE_BUSY" "fst (call c4) \<noteq> SQLITE_BUSY"
    | "fst (call c) = SQLITE_BUSY" "fst (call c1) = SQLITE_BUSY" "fst (call c2) = SQLITE_BUSY"
      "fst (call c3) = SQLITE_BUSY" "fst (call c4) = SQLITE_BUSY"
    by blast
  then show ?thesis
  proof cases
    case 1
    then show ?thesis using s step [of c]
      by (intro exI [of _ "fst (call c)"] exI [of _ "snd (call c)"] exI [of _ 0]) (simp add: unfold)
  next
    case 2
    then show ?thesis using s step [of c1]
      by (intro exI [of _ "fst (call c1)"] exI [of _ "snd (call c1)"] exI [of _ 1]) (simp add: unfold)
  next
    case 3
    then show ?thesis using s step [of c2]
      by (intro exI [of _ "fst (call c2)"] exI [of _ "snd (call c2)"] exI [of _ 2])
        (simp add: unfold numeral_2_eq_2)
  next
    case 4
    then show ?thesis using s step [of c3]
      by (intro exI [of _ "fst (call c3)"] exI [of _ "snd (call c3)"] exI [of _ 3])
        (simp add: unfold numeral_3_eq_3)
  next
    case 5
    then show ?thesis using s step [of c4]
      by (intro exI [of _ "fst (call c4)"] exI [of _ "snd (call c4)"] exI [of _ 4])
        (simp add: unfold)
  next
    case 6
    then show ?thesis using s
      by (intro exI [of _ SQLITE_BUSY] exI [of _ c5] exI [of _ 5]) (simp add: unfold)
  qed
qed

section \<open>What a statement run through the engine does\<close>

text \<open>
  The documented behaviour of the engine's codes: a failing call reports an error code, never OK, ROW
  or DONE, and the codes summed over the binds of one statement never add up to DONE.
\<close>

fun bind_sum :: "sq_faults \<Rightarrow> nat \<Rightarrow> nat \<Rightarrow> int" where
  "bind_sum F k 0 = 0"
| "bind_sum F k (Suc n) = (case F k of Some e \<Rightarrow> e | None \<Rightarrow> SQLITE_OK) + bind_sum F (Suc k) n"

definition faults_ok :: "sq_faults \<Rightarrow> bool" where
  "faults_ok F \<longleftrightarrow>
     (\<forall>n e. F n = Some e \<longrightarrow> e \<noteq> SQLITE_OK \<and> e \<noteq> SQLITE_ROW \<and> e \<noteq> SQLITE_DONE)
     \<and> (\<forall>k n. n \<le> 10 \<longrightarrow> bind_sum F k n \<noteq> SQLITE_DONE)"

definition no_faults :: sq_faults where "no_faults = (\<lambda>_. None)"

lemma bind_sum_none [simp]: "bind_sum no_faults k n = 0"
  by (induction n arbitrary: k) (auto simp: no_faults_def sqlite_codes)

lemma faults_ok_none [simp]: "faults_ok no_faults"
  by (simp add: faults_ok_def) (simp add: no_faults_def sqlite_codes)

lemma sq_call_same: "sq_call F c = (e, c') \<Longrightarrow> same_db c c'"
  by (auto simp: sq_call_def)

lemma sq_binds_spec:
  "sq_binds F n ret c = (ret', c') \<Longrightarrow> same_db c c' \<and> ret' = ret + bind_sum F (calls c) n"
proof (induction n arbitrary: ret c)
  case 0
  then show ?case by simp
next
  case (Suc n)
  have "calls (tick c) = Suc (calls c)" by (simp add: tick_def)
  with Suc.IH [of "ret + fst (sq_call F c)" "tick c"] Suc.prems show ?case
    by (auto simp: sq_call_def dest: same_db_trans [rotated])
qed

lemma sq_binds_until_same: "sq_binds_until F n c = (e, c') \<Longrightarrow> same_db c c'"
proof (induction n arbitrary: c)
  case 0
  then show ?case by simp
next
  case (Suc n)
  then show ?case
    by (auto split: prod.splits if_splits dest!: sq_call_same Suc.IH dest: same_db_trans)
qed

text \<open>A statement that does not answer DONE changes nothing, and never answers BUSY by itself.\<close>

definition stmt_ok :: "(sqdb \<Rightarrow> int \<times> sqdb) \<Rightarrow> bool" where
  "stmt_ok stmt \<longleftrightarrow> (\<forall>d. fst (stmt d) \<noteq> SQLITE_BUSY \<and> (fst (stmt d) \<noteq> SQLITE_DONE \<longrightarrow> snd (stmt d) = d))"

lemma stmt_ok_busy: "stmt_ok stmt \<Longrightarrow> stmt d \<noteq> (SQLITE_BUSY, d')"
  by (metis fst_conv stmt_ok_def)

lemma stmts_ok [simp]:
  "stmt_ok (sSQL_InsertAccount a)" "stmt_ok (sSQL_UpdateAccountById a)" "stmt_ok (sSQL_DeleteZombies l)"
  "stmt_ok (sSQL_InsertAccountSip s)" "stmt_ok (sSQL_DeleteAccountSip i)"
  "stmt_ok (sSQL_InsertAccountSipCaller k)" "stmt_ok (sSQL_DeleteAccountSipCaller i)"
  "stmt_ok (select_stmt q)"
  by (simp_all add: stmt_ok_def sqlite_codes sSQL_InsertAccount_def sSQL_UpdateAccountById_def
      sSQL_DeleteZombies_def sSQL_InsertAccountSip_def sSQL_DeleteAccountSip_def
      sSQL_InsertAccountSipCaller_def sSQL_DeleteAccountSipCaller_def select_stmt_def split: option.splits)

lemma exec_spec:
  "m_bOpened c \<Longrightarrow> \<exists>ret c'. dbTransacExec F c = Some (ret, c') \<and> same_db c c'
     \<and> (faults_ok F \<longrightarrow> ret \<noteq> SQLITE_DONE)"
proof -
  assume o: "m_bOpened c"
  obtain ret' c' c1 where r: "retry_loop (sq_call F) 200 0 c = Some (ret', c')" "same_db c c1"
    "ret' = SQLITE_BUSY \<and> same_db c c' \<or> ret' \<noteq> SQLITE_BUSY \<and> sq_call F c1 = (ret', c')"
    by (rule retry_spec [of "sq_call F" 200 0 0 c]) (auto simp: sq_call_def)
  from r(3) show ?thesis
  proof
    assume "ret' = SQLITE_BUSY \<and> same_db c c'"
    with r o show ?thesis by (simp add: dbTransacExec_def sqlite_codes)
  next
    assume a: "ret' \<noteq> SQLITE_BUSY \<and> sq_call F c1 = (ret', c')"
    then have "same_db c c'" using r(2) sq_call_same same_db_trans by blast
    moreover have "faults_ok F \<longrightarrow> ret' \<noteq> SQLITE_DONE"
      using a by (auto simp: sq_call_def faults_ok_def sqlite_codes split: option.splits)
    ultimately show ?thesis using r(1) o by (simp add: dbTransacExec_def)
  qed
qed

text \<open>The handles of a connection do not change while a statement runs.\<close>

definition same_conn :: "MPDbSQLite \<Rightarrow> MPDbSQLite \<Rightarrow> bool" where
  "same_conn c c' \<longleftrightarrow> m_pEngine c' = m_pEngine c \<and> m_bOpened c' = m_bOpened c"

lemma step_spec:
  assumes "stmt_ok stmt" "faults_ok F"
  shows "\<exists>ret c'. dbStep F stmt c = Some (ret, c') \<and> same_conn c c'
    \<and> ((ret, c_db c') = stmt (c_db c) \<or> ret \<noteq> SQLITE_DONE \<and> ret \<noteq> SQLITE_ROW \<and> ret \<noteq> SQLITE_OK \<and> c_db c' = c_db c)"
proof -
  have busy: "fst (sq_step F stmt c) = SQLITE_BUSY \<Longrightarrow> same_db c (snd (sq_step F stmt c))" for c
    using assms(1) by (cases "stmt (c_db c)") (auto simp: sq_step_def stmt_ok_busy split: option.splits)
  obtain ret' c' c1 where r: "retry_loop (sq_step F stmt) 200 0 c = Some (ret', c')" "same_db c c1"
    "ret' = SQLITE_BUSY \<and> same_db c c' \<or> ret' \<noteq> SQLITE_BUSY \<and> sq_step F stmt c1 = (ret', c')"
    by (rule retry_spec [of "sq_step F stmt" 200 0 0 c]) (auto dest: busy)
  from r(3) show ?thesis
  proof
    assume "ret' = SQLITE_BUSY \<and> same_db c c'"
    with r show ?thesis by (simp add: dbStep_def sqlite_codes same_db_def same_conn_def)
  next
    assume a: "ret' \<noteq> SQLITE_BUSY \<and> sq_step F stmt c1 = (ret', c')"
    with r assms(2) show ?thesis
      by (cases "stmt (c_db c1)")
        (auto simp: dbStep_def sq_step_def same_db_def same_conn_def tick_def faults_ok_def split: option.splits)
  qed
qed

lemma run_stmt_spec:
  assumes "stmt_ok stmt" "faults_ok F" "n \<le> 10"
  shows "\<exists>ret c'. run_stmt F n stmt c = Some (ret, c') \<and> same_conn c c'
    \<and> ((ret, c_db c') = stmt (c_db c) \<or> ret \<noteq> SQLITE_DONE \<and> c_db c' = c_db c)"
proof -
  obtain e1 c1 where c1: "sq_call F c = (e1, c1)" by fastforce
  obtain e2 c2 where c2: "sq_binds F n e1 c1 = (e2, c2)" by fastforce
  have s1: "same_db c c1" using c1 by (rule sq_call_same)
  have s2: "same_db c1 c2" "e2 = e1 + bind_sum F (calls c1) n" using sq_binds_spec [OF c2] by auto
  have e1: "e1 \<noteq> SQLITE_DONE" using c1 assms(2)
    by (auto simp: sq_call_def faults_ok_def sqlite_codes split: option.splits)
  have e2: "e1 = SQLITE_OK \<Longrightarrow> e2 \<noteq> SQLITE_DONE"
    using s2(2) assms(2,3) by (auto simp: faults_ok_def sqlite_codes)
  obtain ret c' where st: "dbStep F stmt c2 = Some (ret, c')" "same_conn c2 c'"
    "(ret, c_db c') = stmt (c_db c2) \<or> ret \<noteq> SQLITE_DONE \<and> c_db c' = c_db c2"
    using step_spec [OF assms(1,2), of c2] by blast
  have d: "c_db c1 = c_db c" "c_db c2 = c_db c" "same_conn c c1" "same_conn c c2" "same_conn c c'"
    using s1 s2(1) st(2) by (auto simp: same_db_def same_conn_def)
  show ?thesis
  proof (cases "e1 = SQLITE_OK")
    case True
    then show ?thesis using e2 st(1,3) d c2 by (auto simp: run_stmt_def c1)
  next
    case False
    then show ?thesis using e1 d by (simp add: run_stmt_def c1)
  qed
qed

text \<open>What a writing operation does: it returns, and it either ran its statement to DONE and says
true, or it says false and the database is as before.\<close>

lemma transaction_spec:
  assumes "stmt_ok stmt" "faults_ok F" "n \<le> 10" "m_bOpened c"
  shows "\<exists>b c'. do { (_, c1) \<leftarrow> dbTransacExec F c;
                     (ret, c2) \<leftarrow> run_stmt F n stmt c1;
                     (_, c3) \<leftarrow> dbTransacExec F c2;
                     Some (ret = SQLITE_DONE, c3) } = Some (b, c') \<and> same_conn c c'
    \<and> (if b then stmt (c_db c) = (SQLITE_DONE, c_db c') else c_db c' = c_db c)"
proof -
  obtain r1 c1 where x1: "dbTransacExec F c = Some (r1, c1)" "same_db c c1"
    using exec_spec [OF assms(4)] by blast
  obtain ret c2 where x2: "run_stmt F n stmt c1 = Some (ret, c2)" "same_conn c1 c2"
    "(ret, c_db c2) = stmt (c_db c1) \<or> ret \<noteq> SQLITE_DONE \<and> c_db c2 = c_db c1"
    using run_stmt_spec [OF assms(1-3)] by blast
  have "m_bOpened c2" using assms(4) x1(2) x2(2) by (simp add: same_db_def same_conn_def)
  then obtain r3 c3 where x3: "dbTransacExec F c2 = Some (r3, c3)" "same_db c2 c3"
    using exec_spec by blast
  have d: "c_db c1 = c_db c" "c_db c3 = c_db c2" "same_conn c c3"
    using x1(2) x2(2) x3(2) by (auto simp: same_db_def same_conn_def)
  have "if ret = SQLITE_DONE then stmt (c_db c) = (SQLITE_DONE, c_db c3) else c_db c3 = c_db c"
    using x2(3) d assms(1) by (auto simp: stmt_ok_def) (metis fst_conv snd_conv)+
  then show ?thesis using x1(1) x2(1) x3(1) d(3) by simp
qed

text \<open>A query returns the row its text selects, or none when the engine reports an error.\<close>

lemma run_select_spec:
  assumes "faults_ok F" "m_bOpened c"
  shows "\<exists>res c'. run_select F n q c = Some (res, c') \<and> same_db c c' \<and> (res = q (c_db c) \<or> res = None)"
proof -
  obtain e1 c1 where c1: "sq_call F c = (e1, c1)" by fastforce
  obtain e2 c2 where c2: "sq_binds_until F n c1 = (e2, c2)" by fastforce
  have s: "same_db c c1" "same_db c c2"
    using sq_call_same [OF c1] sq_binds_until_same [OF c2] by (auto intro: same_db_trans)
  obtain ret c' where st: "dbStep F (select_stmt q) c2 = Some (ret, c')" "same_conn c2 c'"
    "(ret, c_db c') = select_stmt q (c_db c2) \<or> ret \<noteq> SQLITE_ROW \<and> c_db c' = c_db c2"
    using step_spec [OF stmts_ok(8) assms(1), of q c2] by blast
  have "c_db c' = c_db c2" using st(3) by (auto simp: select_stmt_def)
  then have d: "same_db c c'" "c_db c2 = c_db c"
    using s st(2) by (auto simp: same_db_def same_conn_def)
  have r: "(if ret = SQLITE_ROW then q (c_db c2) else None) = q (c_db c) \<or>
      (if ret = SQLITE_ROW then q (c_db c2) else None) = None"
    using d by simp
  show ?thesis
    using assms(2) s st(1) d r by (cases "e1 = SQLITE_OK"; cases "e2 = SQLITE_OK") (simp_all add: run_select_def c1 c2)
qed

lemma no_faults_None [simp]: "no_faults n = None"
  by (simp add: no_faults_def)

lemma sq_binds_until_ok [simp]: "fst (sq_binds_until no_faults n c) = SQLITE_OK"
  by (induction n arbitrary: c) (auto simp: sq_call_def split: prod.splits)

lemma run_select_no_faults:
  assumes "m_bOpened c"
  shows "\<exists>c'. run_select no_faults n q c = Some (q (c_db c), c') \<and> same_db c c'"
proof -
  obtain c2 where c2: "sq_binds_until no_faults n (tick c) = (SQLITE_OK, c2)"
    by (metis prod.collapse sq_binds_until_ok)
  have s: "same_db c c2" using sq_binds_until_same [OF c2] by simp
  have st: "dbStep no_faults (select_stmt q) c2 =
      Some (fst (select_stmt q (c_db c2)), tick (c2\<lparr>c_db := c_db c2\<rparr>))"
    by (simp add: dbStep_def retry_go sq_step_def select_stmt_def sqlite_codes split: option.split)
  have "same_db c (tick (c2\<lparr>c_db := c_db c2\<rparr>))" using s by simp
  with s st c2 assms show ?thesis
    by (auto simp: run_select_def sq_call_def select_stmt_def same_db_def sqlite_codes split: option.splits)
qed

section \<open>The invariant of the tables\<close>

definition ids_ok :: "int list \<Rightarrow> int \<Rightarrow> bool" where
  "ids_ok is n \<longleftrightarrow> sorted_wrt (<) is \<and> (\<forall>i \<in> set is. 0 < i \<and> i \<le> n) \<and> 0 \<le> n \<and> n \<le> max_rowid"

definition db_ok :: "sqdb \<Rightarrow> bool" where
  "db_ok d \<longleftrightarrow>
     ids_ok (map acc_nId (db_account d)) (seq_account d)
     \<and> ids_ok (map sip_nId (db_account_sip d)) (seq_account_sip d)
     \<and> ids_ok (map clr_nId (db_account_sip_caller d)) (seq_account_sip_caller d)
     \<and> distinct (map acc_pEmail (db_account d))
     \<and> (\<forall>a \<in> set (db_account d). acc_pEmail a \<noteq> None \<and> acc_pName a \<noteq> None)"

lemma ids_ok_append: "ids_ok is n \<Longrightarrow> n < max_rowid \<Longrightarrow> ids_ok (is @ [n + 1]) (n + 1)"
  by (auto simp: ids_ok_def sorted_wrt_append)

lemma ids_ok_filter: "ids_ok (map f xs) n \<Longrightarrow> ids_ok (map f (filter P xs)) n"
  by (auto simp: ids_ok_def sorted_wrt_map intro: sorted_wrt_filter)

lemma ids_ok_distinct: "ids_ok is n \<Longrightarrow> distinct is"
  by (auto simp: ids_ok_def strict_sorted_iff)

lemma db_ok_insert_account [w2s_inv]: "db_ok d \<Longrightarrow> db_ok (snd (sSQL_InsertAccount a d))"
  using ids_ok_append [of "map acc_nId (db_account d)" "seq_account d"]
  by (auto simp: db_ok_def sSQL_InsertAccount_def)

lemma db_ok_delete_zombies [w2s_inv]: "db_ok d \<Longrightarrow> db_ok (snd (sSQL_DeleteZombies l d))"
  by (auto simp: db_ok_def sSQL_DeleteZombies_def ids_ok_filter distinct_map_filter)

lemma db_ok_insert_sip [w2s_inv]: "db_ok d \<Longrightarrow> db_ok (snd (sSQL_InsertAccountSip s d))"
  using ids_ok_append [of "map sip_nId (db_account_sip d)" "seq_account_sip d"]
  by (auto simp: db_ok_def sSQL_InsertAccountSip_def)

lemma db_ok_delete_sip [w2s_inv]: "db_ok d \<Longrightarrow> db_ok (snd (sSQL_DeleteAccountSip i d))"
  by (auto simp: db_ok_def sSQL_DeleteAccountSip_def ids_ok_filter)

lemma db_ok_insert_caller [w2s_inv]: "db_ok d \<Longrightarrow> db_ok (snd (sSQL_InsertAccountSipCaller s d))"
  using ids_ok_append [of "map clr_nId (db_account_sip_caller d)" "seq_account_sip_caller d"]
  by (auto simp: db_ok_def sSQL_InsertAccountSipCaller_def)

lemma db_ok_delete_caller [w2s_inv]: "db_ok d \<Longrightarrow> db_ok (snd (sSQL_DeleteAccountSipCaller i d))"
  by (auto simp: db_ok_def sSQL_DeleteAccountSipCaller_def ids_ok_filter)

lemma map_id_update: "map acc_nId (map (\<lambda>b. if acc_nId b = acc_nId a then a else b) xs) = map acc_nId xs"
  by (induction xs) auto

lemma distinct_email_update:
  assumes "distinct (map acc_nId xs)" "distinct (map acc_pEmail xs)"
    and "\<forall>b \<in> set xs. acc_nId b \<noteq> acc_nId a \<longrightarrow> acc_pEmail b \<noteq> acc_pEmail a"
  shows "distinct (map acc_pEmail (map (\<lambda>b. if acc_nId b = acc_nId a then a else b) xs))"
  using assms
proof (induction xs)
  case Nil
  then show ?case by simp
next
  case (Cons b xs)
  show ?case
  proof (cases "acc_nId b = acc_nId a")
    case True
    then have "\<forall>x \<in> set xs. acc_nId x \<noteq> acc_nId a" using Cons.prems(1) by (auto simp: image_iff)
    then have "map (\<lambda>b. if acc_nId b = acc_nId a then a else b) xs = xs"
      by (induction xs) auto
    then show ?thesis using True Cons.prems \<open>\<forall>x \<in> set xs. acc_nId x \<noteq> acc_nId a\<close> by auto
  next
    case False
    then show ?thesis using Cons by (auto split: if_splits)
  qed
qed

lemma db_ok_update [w2s_inv]:
  assumes "db_ok d" shows "db_ok (snd (sSQL_UpdateAccountById a d))"
proof (cases "\<exists>b \<in> set (db_account d). acc_nId b = acc_nId a")
  case False
  then have "map (\<lambda>b. if acc_nId b = acc_nId a then a else b) (db_account d) = db_account d"
    by (simp add: map_idI)
  then show ?thesis using assms by (simp add: sSQL_UpdateAccountById_def)
next
  case True
  note upd = distinct_email_update [of "db_account d" a] map_id_update [of a "db_account d"]
  show ?thesis
  proof (cases "acc_pName a = None \<or> acc_pEmail a = None \<or>
      (\<exists>b \<in> set (db_account d). acc_nId b \<noteq> acc_nId a \<and> acc_pEmail b = acc_pEmail a)")
    case True
    then show ?thesis using assms \<open>\<exists>b \<in> set (db_account d). acc_nId b = acc_nId a\<close>
      by (auto simp: sSQL_UpdateAccountById_def)
  next
    case ok: False
    then have "sSQL_UpdateAccountById a d =
        (SQLITE_DONE, d\<lparr>db_account := map (\<lambda>b. if acc_nId b = acc_nId a then a else b) (db_account d)\<rparr>)"
      by (auto simp: sSQL_UpdateAccountById_def)
    then show ?thesis using assms upd ok ids_ok_distinct [of "map acc_nId (db_account d)"]
      by (auto simp: db_ok_def simp del: map_map)
  qed
qed

section \<open>Operation results\<close>

lemmas write_specs =
  transaction_spec [of "sSQL_InsertAccount a" F 9 c for a F c]
  transaction_spec [of "sSQL_UpdateAccountById a" F 10 c for a F c]
  transaction_spec [of "sSQL_InsertAccountSip s" F 2 c for s F c]
  transaction_spec [of "sSQL_InsertAccountSipCaller s" F 6 c for s F c]

lemma addAccount_spec:
  "faults_ok F \<Longrightarrow> m_bOpened c \<Longrightarrow> \<exists>b c'. addAccount F a c = Some (b, c') \<and> same_conn c c'
     \<and> (if b then sSQL_InsertAccount a (c_db c) = (SQLITE_DONE, c_db c') else c_db c' = c_db c)"
  using write_specs(1) by (simp add: addAccount_def)

lemma updateAccount_spec:
  "faults_ok F \<Longrightarrow> m_bOpened c \<Longrightarrow> \<exists>b c'. updateAccount F a c = Some (b, c') \<and> same_conn c c'
     \<and> (if b then sSQL_UpdateAccountById a (c_db c) = (SQLITE_DONE, c_db c') else c_db c' = c_db c)"
  using write_specs(2) by (simp add: updateAccount_def)

lemma addAccountSip_spec:
  "faults_ok F \<Longrightarrow> m_bOpened c \<Longrightarrow> \<exists>b c'. addAccountSip F s c = Some (b, c') \<and> same_conn c c'
     \<and> (if b then sSQL_InsertAccountSip s (c_db c) = (SQLITE_DONE, c_db c') else c_db c' = c_db c)"
  using write_specs(3) by (simp add: addAccountSip_def)

lemma addAccountSipCaller_spec:
  "faults_ok F \<Longrightarrow> m_bOpened c \<Longrightarrow> \<exists>b c'. addAccountSipCaller F s c = Some (b, c') \<and> same_conn c c'
     \<and> (if b then sSQL_InsertAccountSipCaller s (c_db c) = (SQLITE_DONE, c_db c') else c_db c' = c_db c)"
  using write_specs(4) by (simp add: addAccountSipCaller_def)

lemma run_stmt_delete:
  assumes "stmt_ok stmt" "faults_ok F" "n \<le> 10" "m_bOpened c"
  shows "\<exists>b c'. do { (ret, c1) \<leftarrow> run_stmt F n stmt c; Some (ret = SQLITE_DONE, c1) } = Some (b, c')
     \<and> same_conn c c' \<and> (if b then stmt (c_db c) = (SQLITE_DONE, c_db c') else c_db c' = c_db c)"
proof -
  obtain ret c' where r: "run_stmt F n stmt c = Some (ret, c')" "same_conn c c'"
    "(ret, c_db c') = stmt (c_db c) \<or> ret \<noteq> SQLITE_DONE \<and> c_db c' = c_db c"
    using run_stmt_spec [OF assms(1-3)] by blast
  have "if ret = SQLITE_DONE then stmt (c_db c) = (SQLITE_DONE, c_db c') else c_db c' = c_db c"
    using r(3) assms(1) by (auto simp: stmt_ok_def) (metis fst_conv snd_conv)+
  then show ?thesis using r by simp
qed

lemma deleteAccountSipById_spec:
  "faults_ok F \<Longrightarrow> m_bOpened c \<Longrightarrow> \<exists>b c'. deleteAccountSipById F i c = Some (b, c') \<and> same_conn c c'
     \<and> (if b then sSQL_DeleteAccountSip i (c_db c) = (SQLITE_DONE, c_db c') else c_db c' = c_db c)"
  using run_stmt_delete [of "sSQL_DeleteAccountSip i" F 1 c] by (simp add: deleteAccountSipById_def)

lemma deleteAccountSipCallerById_spec:
  "faults_ok F \<Longrightarrow> m_bOpened c \<Longrightarrow> \<exists>b c'. deleteAccountSipCallerById F i c = Some (b, c') \<and> same_conn c c'
     \<and> (if b then sSQL_DeleteAccountSipCaller i (c_db c) = (SQLITE_DONE, c_db c') else c_db c' = c_db c)"
  using run_stmt_delete [of "sSQL_DeleteAccountSipCaller i" F 1 c] by (simp add: deleteAccountSipCallerById_def)

lemma killZombieAccounts_spec:
  assumes "faults_ok F" "m_bOpened c"
  shows "\<exists>c'. killZombieAccounts F now nMax c = Some (False, c') \<and> same_conn c c'
     \<and> (c_db c' = snd (sSQL_DeleteZombies (now - nMax) (c_db c)) \<or> c_db c' = c_db c)"
proof -
  let ?s = "sSQL_DeleteZombies (now - nMax)"
  obtain r1 c1 where x1: "dbTransacExec F c = Some (r1, c1)" "same_db c c1"
    using exec_spec [OF assms(2)] by blast
  obtain ret c2 where x2: "run_stmt F 1 ?s c1 = Some (ret, c2)" "same_conn c1 c2"
    "(ret, c_db c2) = ?s (c_db c1) \<or> ret \<noteq> SQLITE_DONE \<and> c_db c2 = c_db c1"
    using run_stmt_spec [of ?s F 1 c1] assms(1) by auto
  have "m_bOpened c2" using assms(2) x1(2) x2(2) by (simp add: same_db_def same_conn_def)
  then obtain r3 c3 where x3: "dbTransacExec F c2 = Some (r3, c3)" "same_db c2 c3" "r3 \<noteq> SQLITE_DONE"
    using exec_spec assms(1) by blast
  have d: "c_db c1 = c_db c" "c_db c3 = c_db c2" "same_conn c c3"
    using x1(2) x2(2) x3(2) by (auto simp: same_db_def same_conn_def)
  have "c_db c3 = snd (?s (c_db c)) \<or> c_db c3 = c_db c"
    using x2(3) d by (metis snd_conv)
  then show ?thesis using x1(1) x2(1) x3(1,3) d(3)
    by (simp add: killZombieAccounts_def)
qed

section \<open>Sequences of operations\<close>

datatype db_op =
    AddAccount MPDbAccount
  | UpdateAccount MPDbAccount
  | KillZombies u64 u64
  | AddAccountSip MPDbAccountSip
  | AddAccountSipCaller MPDbAccountSipCaller
  | DeleteAccountSip int
  | DeleteAccountSipCaller int

fun db_exec :: "sq_faults \<Rightarrow> db_op \<Rightarrow> MPDbSQLite \<Rightarrow> (bool \<times> MPDbSQLite) option" where
  "db_exec F (AddAccount a) c = addAccount F a c"
| "db_exec F (UpdateAccount a) c = updateAccount F a c"
| "db_exec F (KillZombies now nMax) c = killZombieAccounts F now nMax c"
| "db_exec F (AddAccountSip s) c = addAccountSip F s c"
| "db_exec F (AddAccountSipCaller s) c = addAccountSipCaller F s c"
| "db_exec F (DeleteAccountSip i) c = deleteAccountSipById F i c"
| "db_exec F (DeleteAccountSipCaller i) c = deleteAccountSipCallerById F i c"

fun db_run :: "sq_faults \<Rightarrow> db_op list \<Rightarrow> MPDbSQLite \<Rightarrow> (bool list \<times> MPDbSQLite) option" where
  "db_run F [] c = Some ([], c)"
| "db_run F (x # xs) c =
     do { (b, c1) \<leftarrow> db_exec F x c; (bs, c2) \<leftarrow> db_run F xs c1; Some (b # bs, c2) }"

lemma w2s_inv_if: "(if b then s d = (r, d') else d' = d) \<Longrightarrow> db_ok d \<Longrightarrow> (db_ok d \<Longrightarrow> db_ok (snd (s d))) \<Longrightarrow> db_ok d'"
  by (auto split: if_splits)

lemma db_exec_inv:
  assumes "faults_ok F" "m_bOpened c" "db_ok (c_db c)"
  shows "\<exists>b c'. db_exec F x c = Some (b, c') \<and> m_bOpened c' \<and> db_ok (c_db c')"
proof (cases x)
  case (AddAccount a)
  with addAccount_spec [OF assms(1,2), of a] assms(2,3) show ?thesis
    by (fastforce simp: same_conn_def intro: w2s_inv_if db_ok_insert_account)
next
  case (UpdateAccount a)
  with updateAccount_spec [OF assms(1,2), of a] assms(2,3) show ?thesis
    by (fastforce simp: same_conn_def intro: w2s_inv_if db_ok_update)
next
  case (KillZombies now m)
  with killZombieAccounts_spec [OF assms(1,2), of now m] assms(2,3) show ?thesis
    by (auto simp: same_conn_def db_ok_delete_zombies)
next
  case (AddAccountSip s)
  with addAccountSip_spec [OF assms(1,2), of s] assms(2,3) show ?thesis
    by (fastforce simp: same_conn_def intro: w2s_inv_if db_ok_insert_sip)
next
  case (AddAccountSipCaller s)
  with addAccountSipCaller_spec [OF assms(1,2), of s] assms(2,3) show ?thesis
    by (fastforce simp: same_conn_def intro: w2s_inv_if db_ok_insert_caller)
next
  case (DeleteAccountSip i)
  with deleteAccountSipById_spec [OF assms(1,2), of i] assms(2,3) show ?thesis
    by (fastforce simp: same_conn_def intro: w2s_inv_if db_ok_delete_sip)
next
  case (DeleteAccountSipCaller i)
  with deleteAccountSipCallerById_spec [OF assms(1,2), of i] assms(2,3) show ?thesis
    by (fastforce simp: same_conn_def intro: w2s_inv_if db_ok_delete_caller)
qed

lemma db_run_inv:
  assumes "faults_ok F" "m_bOpened c" "db_ok (c_db c)"
  shows "\<exists>bs c'. db_run F xs c = Some (bs, c') \<and> m_bOpened c' \<and> db_ok (c_db c')"
  using assms(2,3)
proof (induction xs arbitrary: c)
  case Nil
  then show ?case by simp
next
  case (Cons x xs)
  from db_exec_inv [OF assms(1) Cons.prems, of x] obtain b c1 where
    "db_exec F x c = Some (b, c1)" "m_bOpened c1" "db_ok (c_db c1)" by blast
  with Cons.IH [of c1] show ?case by auto
qed

section \<open>The contract of the account table\<close>

text \<open>
  What the click-to-call service relies on: accounts are looked up by e-mail address, an insertion
  either succeeds and the new account is found, or fails and changes nothing, and it fails when the
  address is taken.
\<close>

locale account_store =
  fixes lookup :: "'s \<Rightarrow> 'e \<Rightarrow> 'a option"
    and add :: "'a \<Rightarrow> 's \<Rightarrow> bool \<times> 's"
    and email :: "'a \<Rightarrow> 'e option"
    and stamp :: "'s \<Rightarrow> 'a \<Rightarrow> 'a"
  assumes add_fail: "add a s = (False, s') \<Longrightarrow> s' = s"
    and add_ok: "add a s = (True, s') \<Longrightarrow> email a = Some e \<Longrightarrow>
        lookup s e = None \<and> lookup s' e = Some (stamp s a) \<and> (\<forall>e'. e' \<noteq> e \<longrightarrow> lookup s' e' = lookup s e')"
begin

lemma add_taken: "email a = Some e \<Longrightarrow> lookup s e = Some b \<Longrightarrow> add a s = (False, s)"
  by (cases "add a s"; cases "fst (add a s)") (auto dest: add_ok add_fail)

lemma add_twice:
  assumes "add a s = (True, s')" "email a = Some e" "email b = Some e"
  shows "add b s' = (False, s')"
  using add_ok [OF assms(1,2)] assms(3) by (auto intro: add_taken)

lemma add_keeps:
  assumes "add a s = (r, s')" "lookup s e = Some b" "email a \<noteq> None"
  shows "lookup s' e = Some b"
proof (cases r)
  case True
  obtain e' where e': "email a = Some e'" using assms(3) by blast
  show ?thesis using add_ok [of a s s' e'] assms(1,2) e' True by (cases "e = e'") auto
next
  case False
  then show ?thesis using assms(1,2) add_fail by auto
qed

end

definition account_lookup :: "sqdb \<Rightarrow> string \<Rightarrow> MPDbAccount option" where
  "account_lookup d e = sSQL_SelectAccountByEmail e d"

definition account_add :: "MPDbAccount \<Rightarrow> sqdb \<Rightarrow> bool \<times> sqdb" where
  "account_add a d = (case sSQL_InsertAccount a d of (r, d') \<Rightarrow> (r = SQLITE_DONE, d'))"

definition account_stamp :: "sqdb \<Rightarrow> MPDbAccount \<Rightarrow> MPDbAccount" where
  "account_stamp d a = a\<lparr>acc_nId := seq_account d + 1\<rparr>"

lemma find_append: "find P (xs @ ys) = (case find P xs of Some x \<Rightarrow> Some x | None \<Rightarrow> find P ys)"
  by (induction xs) auto

interpretation accounts: account_store account_lookup account_add acc_pEmail account_stamp
proof
  fix a s s' assume "account_add a s = (False, s')"
  then show "s' = s" by (auto simp: account_add_def sSQL_InsertAccount_def split: if_splits)
next
  fix a s s' e assume ok: "account_add a s = (True, s')" and e: "acc_pEmail a = Some e"
  then have "\<forall>b \<in> set (db_account s). acc_pEmail b \<noteq> Some e"
    and s': "db_account s' = db_account s @ [account_stamp s a]"
    by (auto simp: account_add_def account_stamp_def sSQL_InsertAccount_def sqlite_codes split: if_splits)
  then have none: "account_lookup s e = None"
    by (simp add: account_lookup_def sSQL_SelectAccountByEmail_def find_None_iff')
  have "acc_pEmail (account_stamp s a) = Some e" using e by (simp add: account_stamp_def)
  with none s' show "account_lookup s e = None \<and> account_lookup s' e = Some (account_stamp s a) \<and>
      (\<forall>e'. e' \<noteq> e \<longrightarrow> account_lookup s' e' = account_lookup s e')"
    by (auto simp: account_lookup_def sSQL_SelectAccountByEmail_def find_append split: option.split)
qed

lemma addAccount_store:
  "faults_ok F \<Longrightarrow> m_bOpened c \<Longrightarrow> addAccount F a c = Some (b, c') \<Longrightarrow>
     m_bOpened c' \<and> (if b then account_add a (c_db c) = (True, c_db c') else c_db c' = c_db c)"
  using addAccount_spec [of F c a] by (auto simp: account_add_def same_conn_def split: if_splits)

lemma selectAccountByEmail_no_faults:
  assumes "m_bOpened c" "sSQL_SelectAccountByEmail e (c_db c) = Some b"
  shows "\<exists>a c'. selectAccountByEmail T r no_faults e c = Some (Some a, c') \<and> same_db c c'
    \<and> Some a = new_MPDbAccount T r (acc_nId b) (acc_nSoftVersion b) (acc_nDatabaseVersion b) (acc_pName b)
         (acc_pEmail b) (acc_pPassword b) (acc_pAuthToken b) (acc_bActivated b) (acc_pActivationCode b) 0"
proof -
  have "acc_pEmail b = Some e"
    using assms(2) by (auto simp: sSQL_SelectAccountByEmail_def dest: find_SomeD)
  then obtain a where a: "new_MPDbAccount T r (acc_nId b) (acc_nSoftVersion b) (acc_nDatabaseVersion b)
      (acc_pName b) (acc_pEmail b) (acc_pPassword b) (acc_pAuthToken b) (acc_bActivated b)
      (acc_pActivationCode b) 0 = Some a"
    using new_MPDbAccount_ok by (metis option.discI)
  obtain c' where "run_select no_faults 1 (sSQL_SelectAccountByEmail e) c = Some (Some b, c')" "same_db c c'"
    using run_select_no_faults [OF assms(1), of 1 "sSQL_SelectAccountByEmail e"] assms(2) by auto
  with a show ?thesis by (simp add: selectAccountByEmail_def)
qed

section \<open>Properties\<close>

definition empty_db :: sqdb where
  "empty_db = \<lparr>db_account = [], db_account_sip = [], db_account_sip_caller = [],
     seq_account = 0, seq_account_sip = 0, seq_account_sip_caller = 0\<rparr>"

definition fresh_conn :: "sqdb \<Rightarrow> MPDbSQLite" where
  "fresh_conn d = \<lparr>m_pEngine = True, m_bOpened = True, c_db = d, calls = 0, slept = []\<rparr>"

lemma empty_db_ok [simp]: "db_ok empty_db"
  by (simp add: db_ok_def ids_ok_def empty_db_def max_rowid_def)

text \<open>
  C15. Whatever sequence of operations is run on an open database, and whatever calls into the engine
  fail on the way, every operation returns and the tables stay well formed: row ids strictly increase
  and never exceed what AUTOINCREMENT remembers, no two accounts share an e-mail address, and every
  account has a name and an address.
\<close>

theorem database_invariant:
  assumes "faults_ok F" "m_bOpened c" "db_ok (c_db c)"
  shows "\<exists>bs c'. db_run F ops c = Some (bs, c') \<and> m_bOpened c' \<and> db_ok (c_db c')"
  using assms by (rule db_run_inv)

theorem database_invariant_witness:
  "\<exists>bs c'. db_run no_faults [DeleteAccountSip 3, KillZombies 5 9] (fresh_conn empty_db) = Some (bs, c')
     \<and> m_bOpened c' \<and> db_ok (c_db c')"
  using database_invariant [of no_faults "fresh_conn empty_db" "[DeleteAccountSip 3, KillZombies 5 9]"]
  by (simp add: fresh_conn_def)

text \<open>
  C16. An account that was added is read back by its e-mail address with the fields it was written
  with and a new row id, except for the epoch, which the query leaves out and the constructor replaces
  by the time of the reading; a second insertion with the same address fails and changes nothing.
\<close>

theorem account_roundtrip:
  assumes "faults_ok F" "m_bOpened c" "addAccount F a c = Some (True, c')"
    and "acc_pEmail a = Some e" "acc_pPassword a \<noteq> None" "acc_pAuthToken a \<noteq> None" "acc_pActivationCode a \<noteq> None"
  shows "(\<exists>c''. selectAccountByEmail T r no_faults e c' =
            Some (Some (a\<lparr>acc_nId := seq_account (c_db c) + 1, acc_nEpoch := draw_epoch r\<rparr>), c''))
    \<and> (\<forall>b. acc_pEmail b = Some e \<longrightarrow> (\<exists>c''. addAccount F b c' = Some (False, c'') \<and> c_db c'' = c_db c'))"
proof (intro conjI allI impI)
  have st: "m_bOpened c'" "account_add a (c_db c) = (True, c_db c')"
    using addAccount_store [OF assms(1-3)] by auto
  show "\<exists>c''. selectAccountByEmail T r no_faults e c' =
      Some (Some (a\<lparr>acc_nId := seq_account (c_db c) + 1, acc_nEpoch := draw_epoch r\<rparr>), c'')"
  proof -
  let ?s = "account_stamp (c_db c) a"
  have row: "sSQL_SelectAccountByEmail e (c_db c') = Some ?s"
    using accounts.add_ok [OF st(2) assms(4)] by (simp add: account_lookup_def)
  then obtain a' c'' where s: "selectAccountByEmail T r no_faults e c' = Some (Some a', c'')"
    "Some a' = new_MPDbAccount T r (acc_nId ?s) (acc_nSoftVersion ?s) (acc_nDatabaseVersion ?s) (acc_pName ?s)
         (acc_pEmail ?s) (acc_pPassword ?s) (acc_pAuthToken ?s) (acc_bActivated ?s) (acc_pActivationCode ?s) 0"
    using selectAccountByEmail_no_faults [OF st(1) row, of T r] by blast
  have "a' = a\<lparr>acc_nId := seq_account (c_db c) + 1, acc_nEpoch := draw_epoch r\<rparr>"
    using s(2) assms(5-7) by (auto simp: new_MPDbAccount_def account_stamp_def)
  with s(1) show ?thesis by blast
  qed
  fix b :: MPDbAccount assume "acc_pEmail b = Some e"
  then have "account_add b (c_db c') = (False, c_db c')"
    using accounts.add_twice [OF st(2) assms(4)] by simp
  then show "\<exists>c''. addAccount F b c' = Some (False, c'') \<and> c_db c'' = c_db c'"
    using addAccount_spec [OF assms(1) st(1), of b] by (auto simp: account_add_def split: if_splits)
qed

definition sample_account :: MPDbAccount where
  "sample_account = \<lparr>acc_nId = -1, acc_nSoftVersion = 0, acc_nDatabaseVersion = 0, acc_pName = Some ''n'',
     acc_pEmail = Some ''e'', acc_pPassword = Some ''p'', acc_pAuthToken = Some ''t'',
     acc_bActivated = False, acc_pActivationCode = Some ''c'', acc_nEpoch = 7\<rparr>"

lemma dbTransacExec_no_faults: "m_bOpened c \<Longrightarrow> dbTransacExec no_faults c = Some (SQLITE_OK, tick c)"
  by (simp add: dbTransacExec_def retry_go sq_call_def sqlite_codes)

lemma dbStep_no_faults:
  "stmt (c_db c) = (r, d) \<Longrightarrow> r \<noteq> SQLITE_BUSY \<Longrightarrow> dbStep no_faults stmt c = Some (r, tick (c\<lparr>c_db := d\<rparr>))"
  by (simp add: dbStep_def retry_go sq_step_def)

lemma sq_call_no_faults: "sq_call no_faults c = (SQLITE_OK, tick c)"
  by (simp add: sq_call_def)

lemmas no_faults_eval = dbTransacExec_no_faults sq_call_no_faults dbStep_no_faults run_stmt_def
  eval_nat_numeral sqlite_codes

theorem account_roundtrip_witness:
  "\<exists>c' c''. addAccount no_faults sample_account (fresh_conn empty_db) = Some (True, c')
     \<and> selectAccountByEmail tsk_ref \<lparr>draw_rand = \<lambda>_. 0, draw_now = \<lambda>_. 0, draw_uuid = ''u'', draw_epoch = 9\<rparr>
         no_faults ''e'' c' = Some (Some (sample_account\<lparr>acc_nId := 1, acc_nEpoch := 9\<rparr>), c'')"
proof -
  have "\<exists>c'. addAccount no_faults sample_account (fresh_conn empty_db) = Some (True, c')"
    by (simp add: addAccount_def no_faults_eval fresh_conn_def tick_def sSQL_InsertAccount_def
        sample_account_def empty_db_def max_rowid_def)
  then obtain c' where c': "addAccount no_faults sample_account (fresh_conn empty_db) = Some (True, c')" ..
  have "m_bOpened (fresh_conn empty_db)" "acc_pEmail sample_account = Some ''e''"
    "acc_pPassword sample_account \<noteq> None" "acc_pAuthToken sample_account \<noteq> None"
    "acc_pActivationCode sample_account \<noteq> None" "seq_account (c_db (fresh_conn empty_db)) = 0"
    by (simp_all add: fresh_conn_def sample_account_def empty_db_def)
  from account_roundtrip [OF faults_ok_none this(1) c' this(2-5), of tsk_ref
      "\<lparr>draw_rand = \<lambda>_. 0, draw_now = \<lambda>_. 0, draw_uuid = ''u'', draw_epoch = 9\<rparr>"] c' this(6)
  show ?thesis by auto
qed

lemma sq_step_counts: "calls (snd (sq_step F stmt c)) = Suc (calls c)" "slept (snd (sq_step F stmt c)) = slept c"
  by (auto simp: sq_step_def tick_def split: option.split prod.split)

lemma sum_waits: "n \<le> 5 \<Longrightarrow> sum_list (take n [200, 400, 800, 1600, 3200 :: nat]) \<le> 6200"
proof -
  assume "n \<le> 5"
  then consider "n = 0" | "n = 1" | "n = 2" | "n = 3" | "n = 4" | "n = 5" by linarith
  then show ?thesis by cases (simp_all add: numeral_2_eq_2 numeral_3_eq_3)
qed

text \<open>
  Stepping a statement always returns, after at least one and at most five calls into the engine:
  it waits 200, 400, 800, 1600 and 3200 ms between busy answers, 6200 ms in all, and reports BUSY
  exactly when all five calls did.
\<close>

theorem step_retries_bounded:
  "\<exists>ret c' n. dbStep F stmt c = Some (ret, c')
     \<and> calls c < calls c' \<and> calls c' \<le> calls c + 5
     \<and> n \<le> 5 \<and> slept c' = slept c @ take n [200, 400, 800, 1600, 3200]
     \<and> sum_list (slept c') \<le> sum_list (slept c) + 6200 \<and> (ret = SQLITE_BUSY \<longleftrightarrow> n = 5)"
proof -
  obtain ret' c' n where *: "retry_loop (sq_step F stmt) 200 0 c = Some (ret', c')" "n \<le> 5"
    "slept c' = slept c @ take n [200, 400, 800, 1600, 3200]" "calls c' \<le> calls c + 5" "calls c < calls c'"
    "ret' = SQLITE_BUSY \<longleftrightarrow> n = 5"
    using retry_trace [of "sq_step F stmt" 0 c] sq_step_counts by blast
  with sum_waits [of n] show ?thesis by (auto simp: dbStep_def)
qed

text \<open>
  Killing zombies returns false always, its result being that of the COMMIT and not of the
  statement. When nothing fails the accounts that remain are those that are activated or whose epoch,
  read as a signed 64-bit number, is not before the limit \<open>now - max\<close>, computed modulo 2 ^ 64; in any
  case an activated account is never lost.
\<close>

theorem zombies_spec:
  assumes "faults_ok F" "m_bOpened c"
  shows "\<exists>c'. killZombieAccounts F now nMax c = Some (False, c')
    \<and> (\<forall>a \<in> set (db_account (c_db c)). acc_bActivated a \<longrightarrow> a \<in> set (db_account (c_db c')))
    \<and> (F = no_faults \<longrightarrow> db_account (c_db c') =
         filter (\<lambda>a. acc_bActivated a \<or> sint (now - nMax) \<le> sint (acc_nEpoch a)) (db_account (c_db c)))"
proof -
  obtain c' where c': "killZombieAccounts F now nMax c = Some (False, c')"
    "c_db c' = snd (sSQL_DeleteZombies (now - nMax) (c_db c)) \<or> c_db c' = c_db c"
    using killZombieAccounts_spec [OF assms] by blast
  have "c_db c' = snd (sSQL_DeleteZombies (now - nMax) (c_db c))" if "F = no_faults"
    using c'(1) that assms(2)
    by (auto simp: killZombieAccounts_def no_faults_eval sSQL_DeleteZombies_def tick_def)
  then show ?thesis using c' by (auto simp: sSQL_DeleteZombies_def not_less intro!: filter_cong)
qed

theorem zombies_spec_witness:
  "\<exists>c'. killZombieAccounts no_faults 10 2 (fresh_conn (empty_db\<lparr>db_account := [sample_account]\<rparr>)) = Some (False, c')
     \<and> db_account (c_db c') = []"
  using zombies_spec [OF faults_ok_none, of "fresh_conn (empty_db\<lparr>db_account := [sample_account]\<rparr>)" 10 2]
  by (auto simp: fresh_conn_def sample_account_def empty_db_def)

text \<open>
  Deleting a SIP address keeps its callers: the schema declares \<open>ON DELETE CASCADE\<close>, but foreign
  keys are never enabled, so every caller of the deleted address is still found by the id of that
  address.
\<close>

theorem deleted_address_keeps_callers:
  assumes "faults_ok F" "m_bOpened c" "deleteAccountSipById F i c = Some (True, c')"
  shows "\<not> (\<exists>s \<in> set (db_account_sip (c_db c')). sip_nId s = i)
    \<and> (\<exists>c''. selectAccountSipCallerByAccountSipId no_faults i c' =
          Some (map_option row_to_caller (sSQL_SelectAccountSipCallerByAccountSipId i (c_db c)), c''))"
proof -
  have d: "m_bOpened c'" "sSQL_DeleteAccountSip i (c_db c) = (SQLITE_DONE, c_db c')"
    using deleteAccountSipById_spec [OF assms(1,2), of i] assms(2,3) by (auto simp: same_conn_def)
  then have c': "c_db c' = snd (sSQL_DeleteAccountSip i (c_db c))" by simp
  then have gone: "\<not> (\<exists>s \<in> set (db_account_sip (c_db c')). sip_nId s = i)"
    by (simp add: sSQL_DeleteAccountSip_def)
  from c' have "sSQL_SelectAccountSipCallerByAccountSipId i (c_db c') = sSQL_SelectAccountSipCallerByAccountSipId i (c_db c)"
    by (simp add: sSQL_DeleteAccountSip_def sSQL_SelectAccountSipCallerByAccountSipId_def)
  with d run_select_no_faults [OF d(1), of 1 "sSQL_SelectAccountSipCallerByAccountSipId i"] show ?thesis
    by (auto simp: gone selectAccountSipCallerByAccountSipId_def selectAccountSipCaller_def)
qed

definition sample_caller :: MPDbAccountSipCaller where
  "sample_caller = new_MPDbAccountSipCaller 1 (Some ''d'') (Some ''u'') (Some ''i'') (Some ''r'') (Some ''h'') 4"

theorem deleted_address_keeps_callers_witness:
  "\<exists>c' c''. deleteAccountSipById no_faults 4 (fresh_conn (empty_db\<lparr>db_account_sip_caller := [sample_caller]\<rparr>)) = Some (True, c')
     \<and> selectAccountSipCallerByAccountSipId no_faults 4 c' = Some (Some sample_caller, c'')"
proof -
  let ?c = "fresh_conn (empty_db\<lparr>db_account_sip_caller := [sample_caller]\<rparr>)"
  have o: "m_bOpened ?c" "db_account_sip_caller (c_db ?c) = [sample_caller]" by (simp_all add: fresh_conn_def)
  have "\<exists>c'. deleteAccountSipById no_faults 4 ?c = Some (True, c')"
    by (simp add: deleteAccountSipById_def no_faults_eval fresh_conn_def tick_def sSQL_DeleteAccountSip_def)
  then obtain c' where c': "deleteAccountSipById no_faults 4 ?c = Some (True, c')" ..
  from deleted_address_keeps_callers [OF faults_ok_none o(1) c'] c' o(2) show ?thesis
    by (auto simp: sSQL_SelectAccountSipCallerByAccountSipId_def sample_caller_def row_to_caller_def
        new_MPDbAccountSipCaller_def)
qed

text \<open>
  A SIP address is read back with its row id and text, but the account id it carries is the row
  id of the address: the three queries take it from column 0 instead of column 2.
\<close>

theorem address_query_result:
  assumes "m_bOpened c" "addr \<noteq> None" "i \<noteq> MPDB_ACCOUNT_INVALID_ID"
    and "find (\<lambda>s. sip_nAccountId s = i \<and> sip_pAddress64 s = addr) (db_account_sip (c_db c)) = Some row"
  shows "\<exists>c'. selectAccountSipByAccountIdAndAddress no_faults i addr c =
      Some (Some \<lparr>sip_nId = sip_nId row, sip_pAddress64 = addr, sip_nAccountId = sip_nId row\<rparr>, c')"
proof -
  from assms(2) obtain s where s: "addr = Some s" by blast
  with assms(4) have row: "sSQL_SelectAccountSipByAccountIdAndAddress i s (c_db c) = Some row"
    by (simp add: sSQL_SelectAccountSipByAccountIdAndAddress_def)
  have "sip_pAddress64 row = addr" using assms(4) by (auto dest: find_SomeD)
  with run_select_no_faults [OF assms(1), of 2 "sSQL_SelectAccountSipByAccountIdAndAddress i s"] row s assms(3)
  show ?thesis
    by (auto simp: selectAccountSipByAccountIdAndAddress_def row_to_sip_def new_MPDbAccountSip_def)
qed

theorem address_query_result_witness:
  "\<exists>c'. selectAccountSipByAccountIdAndAddress no_faults 7 (Some ''a'')
       (fresh_conn (empty_db\<lparr>db_account_sip := [new_MPDbAccountSip 2 (Some ''a'') 7]\<rparr>)) =
     Some (Some \<lparr>sip_nId = 2, sip_pAddress64 = Some ''a'', sip_nAccountId = 2\<rparr>, c')"
  using address_query_result [of "fresh_conn (empty_db\<lparr>db_account_sip := [new_MPDbAccountSip 2 (Some ''a'') 7]\<rparr>)"
      "Some ''a''" 7 "new_MPDbAccountSip 2 (Some ''a'') 7"]
  by (simp add: fresh_conn_def new_MPDbAccountSip_def MPDB_ACCOUNT_INVALID_ID_def)

end
