(* ===== verification/Varint.thy ===== *)
theory Varint
  imports Prelude
begin

text \<open>
  The variable-length integers of the SQLite copy in \<open>db/sqlite/sqlite3.c\<close>, in which the rows of the
  accounts are stored: 1 to 9 bytes, seven bits each with the most significant first, and all eight bits
  of a ninth byte. Memory is a list of bytes; reading past its end is None. The optimised decoder is proved
  equal to the plain one.
\<close>

unbundle bit_operations_syntax

type_synonym u8 = "8 word"
type_synonym u32 = "32 word"

section \<open>Writing\<close>

text \<open>\<open>sqlite3PutVarint\<close>: the loop of a value of more than 56 bits, that of the others, and both together.\<close>

fun put_high :: "nat \<Rightarrow> u64 \<Rightarrow> u8 list" where
  "put_high 0 v = []"
| "put_high (Suc i) v = put_high i (drop_bit 7 v) @ [ucast (v AND 0x7f) OR 0x80]"

lemma drop_less: "drop_bit 7 v \<noteq> 0 \<Longrightarrow> unat (drop_bit 7 v) < unat (v :: u64)"
proof -
  assume d: "drop_bit 7 v \<noteq> 0"
  have "unat (drop_bit 7 v) = unat v div 128" unfolding unat_drop_bit_eq by (simp add: drop_bit_eq_div)
  moreover have "unat v \<noteq> 0" using d by (auto simp: unat_eq_0)
  ultimately show ?thesis by linarith
qed

function put_digits :: "u64 \<Rightarrow> u8 list" where
  "put_digits v = (ucast (v AND 0x7f) OR 0x80) # (if drop_bit 7 v = 0 then [] else put_digits (drop_bit 7 v))"
  by auto
termination by (relation "measure unat") (auto intro: drop_less)

declare put_digits.simps [simp del]

definition sqlite3PutVarint :: "u64 \<Rightarrow> u8 list" where
  "sqlite3PutVarint v =
     (if v AND push_bit 32 0xff000000 \<noteq> 0 then put_high 8 (drop_bit 8 v) @ [ucast v]
      else case put_digits v of [] \<Rightarrow> [] | b # bs \<Rightarrow> rev ((b AND 0x7f) # bs))"

text \<open>The two-byte case of \<open>sqlite3PutVarint32\<close>, and the macro before it.\<close>

definition sqlite3PutVarint32 :: "u32 \<Rightarrow> u8 list" where
  "sqlite3PutVarint32 v =
     (if v AND NOT 0x3fff = 0 then [ucast (drop_bit 7 v) OR 0x80, ucast (v AND 0x7f)]
      else sqlite3PutVarint (ucast v))"

definition putVarint32 :: "u32 \<Rightarrow> u8 list" where
  "putVarint32 v = (if v < 0x80 then [ucast v] else sqlite3PutVarint32 v)"

fun varint_len :: "nat \<Rightarrow> u64 \<Rightarrow> nat" where
  "varint_len 0 v = 0"
| "varint_len (Suc k) v = (if drop_bit 7 v \<noteq> 0 \<and> k \<noteq> 0 then Suc (varint_len k (drop_bit 7 v)) else 1)"

definition sqlite3VarintLen :: "u64 \<Rightarrow> nat" where
  "sqlite3VarintLen v = varint_len 9 v"

section \<open>Reading\<close>

text \<open>
  \<open>sqlite3GetVarint\<close>, unrolled: \<open>a\<close> and \<open>b\<close> take the bytes alternately, \<open>s\<close> saves the upper half.
\<close>

definition SLOT_2_0 :: u32 where "SLOT_2_0 = 0x001fc07f"
definition SLOT_4_2_0 :: u32 where "SLOT_4_2_0 = 0xf01fc07f"

definition sqlite3GetVarint :: "u8 list \<Rightarrow> (u64 \<times> nat) option" where
  "sqlite3GetVarint p =
     (case p of [] \<Rightarrow> None | p0 # p \<Rightarrow>
      let a = ucast p0 :: u32 in
      if a AND 0x80 = 0 then Some (ucast a, 1)
      else (case p of [] \<Rightarrow> None | p1 # p \<Rightarrow>
      let b = ucast p1 :: u32 in
      if b AND 0x80 = 0 then Some (ucast (push_bit 7 (a AND 0x7f) OR b), 2)
      else (case p of [] \<Rightarrow> None | p2 # p \<Rightarrow>
      let a = push_bit 14 a OR ucast p2 in
      if a AND 0x80 = 0 then Some (ucast (a AND SLOT_2_0 OR push_bit 7 (b AND 0x7f)), 3)
      else (case p of [] \<Rightarrow> None | p3 # p \<Rightarrow>
      let a = a AND SLOT_2_0; b = push_bit 14 b OR ucast p3 in
      if b AND 0x80 = 0 then Some (ucast (push_bit 7 a OR b AND SLOT_2_0), 4)
      else (case p of [] \<Rightarrow> None | p4 # p \<Rightarrow>
      let b = b AND SLOT_2_0; s = a; a = push_bit 14 a OR ucast p4 in
      if a AND 0x80 = 0 then Some (push_bit 32 (ucast (drop_bit 18 s)) OR ucast (a OR push_bit 7 b), 5)
      else (case p of [] \<Rightarrow> None | p5 # p \<Rightarrow>
      let s = push_bit 7 s OR b; b = push_bit 14 b OR ucast p5 in
      if b AND 0x80 = 0 then Some (push_bit 32 (ucast (drop_bit 18 s)) OR ucast (push_bit 7 (a AND SLOT_2_0) OR b), 6)
      else (case p of [] \<Rightarrow> None | p6 # p \<Rightarrow>
      let a = push_bit 14 a OR ucast p6 in
      if a AND 0x80 = 0
      then Some (push_bit 32 (ucast (drop_bit 11 s)) OR ucast (a AND SLOT_4_2_0 OR push_bit 7 (b AND SLOT_2_0)), 7)
      else (case p of [] \<Rightarrow> None | p7 # p \<Rightarrow>
      let a = a AND SLOT_2_0; b = push_bit 14 b OR ucast p7 in
      if b AND 0x80 = 0
      then Some (push_bit 32 (ucast (drop_bit 4 s)) OR ucast (push_bit 7 a OR b AND SLOT_4_2_0), 8)
      else (case p of [] \<Rightarrow> None | p8 # p \<Rightarrow>
      let a = push_bit 15 a OR ucast p8; b = b AND SLOT_2_0; a = a OR push_bit 8 b;
          s = push_bit 4 s OR drop_bit 3 (ucast p4 AND 0x7f)
      in Some (push_bit 32 (ucast s) OR ucast a, 9))))))))))"

text \<open>\<open>sqlite3GetVarint32\<close> and its macro: a value beyond 32 bits reads as the largest one.\<close>

definition sqlite3GetVarint32 :: "u8 list \<Rightarrow> (u32 \<times> nat) option" where
  "sqlite3GetVarint32 bytes =
     (case bytes of [] \<Rightarrow> None | p0 # p \<Rightarrow>
      let a = ucast p0 :: u32 in
      (case p of [] \<Rightarrow> None | p1 # p \<Rightarrow>
      let b = ucast p1 :: u32 in
      if b AND 0x80 = 0 then Some (push_bit 7 (a AND 0x7f) OR b, 2)
      else (case p of [] \<Rightarrow> None | p2 # p \<Rightarrow>
      let a = push_bit 14 a OR ucast p2 in
      if a AND 0x80 = 0 then Some (a AND SLOT_2_0 OR push_bit 7 (b AND 0x7f), 3)
      else (case sqlite3GetVarint bytes of
              None \<Rightarrow> None
            | Some (v64, n) \<Rightarrow> Some (if v64 AND 0xffffffff \<noteq> v64 then 0xffffffff else ucast v64, n)))))"

definition getVarint32 :: "u8 list \<Rightarrow> (u32 \<times> nat) option" where
  "getVarint32 p =
     (case p of [] \<Rightarrow> None | p0 # _ \<Rightarrow> if p0 < 0x80 then Some (ucast p0, 1) else sqlite3GetVarint32 p)"

section \<open>The optimised decoder\<close>

text \<open>The format as a plain loop over the bytes.\<close>

fun varint_value :: "nat \<Rightarrow> u64 \<Rightarrow> u8 list \<Rightarrow> (u64 \<times> nat) option" where
  "varint_value n acc [] = None"
| "varint_value n acc (b # bs) =
     (if n = 8 then Some (push_bit 8 acc OR ucast b, 9)
      else if bit b 7 then varint_value (Suc n) (push_bit 7 acc OR ucast (b AND 0x7f)) bs
      else Some (push_bit 7 acc OR ucast b, Suc n))"

lemma word64_eqI: "list_all (\<lambda>n. bit x n = bit y n) [0..<64] \<Longrightarrow> x = (y :: u64)"
  by (rule bit_word_eqI) (simp add: list_all_iff)

lemma upt64: "[0..<64] = 0 # 1 # [2..<64]"
  by (simp add: upt_rec)

lemma byte_bit [simp]: "8 \<le> n \<Longrightarrow> \<not> bit (b :: u8) n"
  using bit_imp_le_length [of b n] by auto

lemma long_bit [simp]: "64 \<le> n \<Longrightarrow> \<not> bit (v :: u64) n"
  using bit_imp_le_length [of v n] by auto

lemma half_bit [simp]: "32 \<le> n \<Longrightarrow> \<not> bit (v :: u32) n"
  using bit_imp_le_length [of v n] by auto

lemma and_128: "(w :: u32) AND 0x80 = 0 \<longleftrightarrow> \<not> bit w 7"
  using and_exp_eq_0_iff_not_bit [of w 7] by simp

lemma tests:
  "(ucast p0 :: u32) AND 0x80 = 0 \<longleftrightarrow> \<not> bit (p0 :: u8) 7"
  "(push_bit 14 a OR ucast p0 :: u32) AND 0x80 = 0 \<longleftrightarrow> \<not> bit (p0 :: u8) 7"
  by (simp_all add: and_128 bit_simps)

lemma varint_step:
  assumes "n < 8" "\<And>b. \<not> bit b 7 \<Longrightarrow> f b = Some (push_bit 7 acc OR ucast b, Suc n)"
    and "\<And>b bs. bit b 7 \<Longrightarrow> g b bs = varint_value (Suc n) (push_bit 7 acc OR ucast (b AND 0x7f)) bs"
  shows "(case p of [] \<Rightarrow> None | b # bs \<Rightarrow> if \<not> bit b 7 then f b else g b bs) = varint_value n acc p"
  using assms by (cases p) simp_all

lemma varint_last:
  assumes "\<And>b. f b = Some (push_bit 8 acc OR ucast b, 9)"
  shows "(case p of [] \<Rightarrow> None | b # bs \<Rightarrow> f b) = varint_value (Suc (Suc (Suc (Suc (Suc (Suc (Suc (Suc 0)))))))) acc p"
  using assms by (cases p) simp_all

lemma getVarint_value: "sqlite3GetVarint p = varint_value 0 0 p"
  unfolding sqlite3GetVarint_def Let_def tests
  by (((rule varint_step, simp) | rule varint_last),
      (simp, rule word64_eqI, simp add: upt64 bit_simps SLOT_2_0_def SLOT_4_2_0_def; fail))+

section \<open>What was written is read back\<close>

text \<open>The value of a list of seven-bit digits, most significant first.\<close>

abbreviation add_digit :: "u64 \<Rightarrow> u8 \<Rightarrow> u64" where
  "add_digit acc b \<equiv> push_bit 7 acc OR ucast (b AND 0x7f)"

lemma varint_value_high:
  "(\<forall>b \<in> set hs. bit b 7) \<Longrightarrow> n + length hs \<le> 8 \<Longrightarrow>
     varint_value n acc (hs @ r) = varint_value (n + length hs) (foldl add_digit acc hs) r"
  by (induction hs arbitrary: n acc) simp_all

lemma digit_of: "push_bit 7 (drop_bit 7 v) OR ucast ((ucast (v AND 0x7f) OR 0x80) AND 0x7f :: u8) = (v :: u64)"
  by (rule word64_eqI) (simp add: upt64 bit_simps del: push_bit_numeral)

lemma put_digits_value: "foldl add_digit 0 (rev (put_digits v)) = v"
proof (induction v rule: put_digits.induct)
  case (1 v)
  then show ?case by (subst put_digits.simps) (use digit_of [of v] in \<open>auto simp del: push_bit_numeral\<close>)
qed

lemma put_digits_high: "b \<in> set (put_digits v) \<Longrightarrow> bit b 7"
  by (induction v rule: put_digits.induct)
    (subst (asm) (2) put_digits.simps, auto simp: bit_simps split: if_splits)

lemma put_digits_length: "drop_bit (7 * k) v = 0 \<Longrightarrow> k \<noteq> 0 \<Longrightarrow> length (put_digits v) \<le> k"
proof (induction v arbitrary: k rule: put_digits.induct)
  case (1 v)
  show ?case
  proof (cases "drop_bit 7 v = 0")
    case True
    then show ?thesis using "1.prems"(2) by (subst put_digits.simps) simp
  next
    case False
    then obtain j where j: "k = Suc j" "j \<noteq> 0" using "1.prems" by (cases k; cases "k - 1") auto
    have "drop_bit (7 * j) (drop_bit 7 v) = 0" using "1.prems"(1) by (simp add: j(1) add.commute)
    from "1.IH" [OF False this j(2)] show ?thesis by (subst put_digits.simps) (simp add: j(1))
  qed
qed

lemma all_64: "list_all P [0..<64] \<longleftrightarrow> (\<forall>n < 64. P n)"
  by (simp only: list_all_iff set_upt) auto

lemma high_byte: "v AND push_bit 32 0xff000000 = 0 \<longleftrightarrow> drop_bit 56 v = (0 :: u64)"
proof -
  have "v AND push_bit 32 0xff000000 = 0 \<longleftrightarrow> (\<forall>n < 64. \<not> (bit v n \<and> bit (push_bit 32 0xff000000 :: u64) n))"
    by (auto simp: bit_eq_iff bit_and_iff dest: bit_imp_le_length)
  also have "\<dots> \<longleftrightarrow> (\<forall>n < 64. \<not> bit (drop_bit 56 v) n)"
    unfolding all_64 [symmetric] by (simp add: upt64 bit_simps)
  also have "\<dots> \<longleftrightarrow> drop_bit 56 v = 0" by (auto simp: bit_eq_iff dest: bit_imp_le_length)
  finally show ?thesis .
qed

lemma put_high_simps: "length (put_high k v) = k" "b \<in> set (put_high k v) \<Longrightarrow> bit b 7"
  by (induction k arbitrary: v) (auto simp: bit_simps)

lemma digit_bits: "ucast ((ucast (v AND 0x7f) OR 0x80) AND 0x7f :: u8) = take_bit 7 (v :: u64)"
  by (rule word64_eqI) (simp add: upt64 bit_simps)

lemma digits_join: "push_bit 7 (take_bit m (drop_bit 7 v)) OR take_bit 7 v = take_bit (7 + m) (v :: u64)"
  by (rule bit_word_eqI) (auto simp: bit_simps simp del: push_bit_numeral)

lemma put_high_value: "foldl add_digit 0 (put_high k v) = take_bit (7 * k) v"
  by (induction k arbitrary: v) (simp_all add: digit_bits digits_join del: push_bit_numeral)

lemma high_join: "push_bit 8 (take_bit 56 (drop_bit 8 v)) OR ucast (ucast v :: u8) = (v :: u64)"
  by (rule word64_eqI) (simp add: upt64 bit_simps del: push_bit_numeral)

text \<open>What is written for a value: all bytes but the last have the high bit.\<close>

lemma put_shape:
  "\<exists>hs b. sqlite3PutVarint v = hs @ [b] \<and> (\<forall>h \<in> set hs. bit h 7) \<and>
     (length hs = 8 \<and> push_bit 8 (foldl add_digit 0 hs) OR ucast b = v
      \<or> length hs < 8 \<and> \<not> bit b 7 \<and> push_bit 7 (foldl add_digit 0 hs) OR ucast b = v)"
proof (cases "drop_bit 56 v = 0")
  case True
  obtain b bs where d: "put_digits v = b # bs" by (subst (asm) put_digits.simps) simp
  have "length bs < 8" using put_digits_length [of 8 v] True d by simp
  moreover have "push_bit 7 (foldl add_digit 0 (rev bs)) OR ucast (b AND 0x7f) = v"
    using put_digits_value [of v] d by (simp del: push_bit_numeral)
  moreover have "\<forall>h \<in> set (rev bs). bit h 7" using put_digits_high [of _ v] d by simp
  moreover have "sqlite3PutVarint v = rev bs @ [b AND 0x7f]" unfolding sqlite3PutVarint_def high_byte True d by simp
  moreover have "\<not> bit (b AND 0x7f) 7" by (simp add: bit_simps)
  ultimately show ?thesis by (intro exI [of _ "rev bs"] exI [of _ "b AND 0x7f"]) auto
next
  case False
  then have "sqlite3PutVarint v = put_high 8 (drop_bit 8 v) @ [ucast v]" unfolding sqlite3PutVarint_def high_byte by simp
  then show ?thesis
    using high_join [of v] put_high_value [of 8 "drop_bit 8 v"] put_high_simps
    by (intro exI [of _ "put_high 8 (drop_bit 8 v)"] exI [of _ "ucast v"]) (simp del: push_bit_numeral)
qed

lemma varint_value_put: "varint_value 0 0 (sqlite3PutVarint v @ rest) = Some (v, length (sqlite3PutVarint v))"
proof -
  from put_shape [of v] obtain hs b where p: "sqlite3PutVarint v = hs @ [b]" "\<forall>h \<in> set hs. bit h 7"
    "length hs = 8 \<and> push_bit 8 (foldl add_digit 0 hs) OR ucast b = v
      \<or> length hs < 8 \<and> \<not> bit b 7 \<and> push_bit 7 (foldl add_digit 0 hs) OR ucast b = v" by blast
  have "varint_value 0 0 (hs @ b # rest) = varint_value (length hs) (foldl add_digit 0 hs) (b # rest)"
    using varint_value_high [OF p(2), of 0 0 "b # rest"] p(3) by auto
  then show ?thesis using p(1,3) by auto
qed

lemma varint_len_digits: "drop_bit (7 * k) v = 0 \<Longrightarrow> k \<noteq> 0 \<Longrightarrow> varint_len k v = length (put_digits v)"
proof (induction k arbitrary: v)
  case (Suc k)
  show ?case
  proof (cases "drop_bit 7 v = 0")
    case False
    then have "k \<noteq> 0" "drop_bit (7 * k) (drop_bit 7 v) = 0" using Suc.prems(1) by (auto simp: add.commute intro: ccontr)
    with Suc.IH [of "drop_bit 7 v"] False show ?thesis by (subst put_digits.simps) simp
  qed (subst put_digits.simps, simp)
qed simp

lemma varint_len_high: "drop_bit (7 * k) v \<noteq> 0 \<Longrightarrow> varint_len (Suc k) v = Suc k"
proof (induction k arbitrary: v)
  case (Suc k)
  then have "drop_bit (7 * k) (drop_bit 7 v) \<noteq> 0" by (simp add: add.commute)
  moreover from this have "drop_bit 7 v \<noteq> 0" by (metis drop_bit_of_0)
  ultimately show ?case using Suc.IH [of "drop_bit 7 v"] by simp
qed simp

lemma put_length: "length (sqlite3PutVarint v) = sqlite3VarintLen v"
proof (cases "drop_bit 56 v = 0")
  case True
  have "drop_bit 63 v = drop_bit 7 (drop_bit 56 v)" unfolding drop_bit_drop_bit by simp
  then have "length (put_digits v) = varint_len 9 v" using varint_len_digits [of 9 v] True by simp
  moreover obtain b bs where "put_digits v = b # bs" by (subst (asm) put_digits.simps) simp
  ultimately show ?thesis unfolding sqlite3PutVarint_def high_byte sqlite3VarintLen_def by (simp add: True)
next
  case False
  then show ?thesis using varint_len_high [of 8 v]
    unfolding sqlite3PutVarint_def high_byte sqlite3VarintLen_def by (simp add: put_high_simps)
qed

text \<open>A value of 32 bits, as the macros and their routines read and write it.\<close>

definition clamp32 :: "u64 \<Rightarrow> u32" where
  "clamp32 v = (if v AND 0xffffffff \<noteq> v then 0xffffffff else ucast v)"

lemma clamp32_of: "clamp32 (ucast (v :: u32)) = v"
proof -
  have "(ucast v :: u64) AND 0xffffffff = ucast v" by (rule word64_eqI) (simp add: upt64 bit_simps)
  moreover have "ucast (ucast v :: u64) = v" by (rule bit_word_eqI) (simp add: bit_simps)
  ultimately show ?thesis by (simp add: clamp32_def)
qed

lemma byte_low: "p0 < 0x80 \<longleftrightarrow> \<not> bit (p0 :: u8) 7"
proof -
  have "bit p0 7 = bit (unat p0) 7" by (simp add: bit_simps)
  then have "bit p0 7 \<longleftrightarrow> odd (unat p0 div 128)" by (simp add: bit_iff_odd)
  moreover have "unat p0 < 2 ^ LENGTH(8)" by (rule unsigned_less)
  then have "unat p0 div 128 = (if unat p0 < 128 then 0 else 1)" by (auto intro: div_nat_eqI)
  ultimately show ?thesis by (simp add: word_less_nat_alt)
qed

lemma getVarint_short:
  "sqlite3GetVarint [] = None"
  "\<not> bit p0 7 \<Longrightarrow> sqlite3GetVarint (p0 # r) = Some (ucast (ucast p0 :: u32), 1)"
  "bit p0 7 \<Longrightarrow> sqlite3GetVarint [p0] = None"
  "bit p0 7 \<Longrightarrow> \<not> bit p1 7 \<Longrightarrow> sqlite3GetVarint (p0 # p1 # r) = Some (ucast (push_bit 7 (ucast p0 AND 0x7f) OR ucast p1 :: u32), 2)"
  "bit p0 7 \<Longrightarrow> bit p1 7 \<Longrightarrow> sqlite3GetVarint [p0, p1] = None"
  "bit p0 7 \<Longrightarrow> bit p1 7 \<Longrightarrow> \<not> bit p2 7 \<Longrightarrow> sqlite3GetVarint (p0 # p1 # p2 # r)
     = Some (ucast ((push_bit 14 (ucast p0) OR ucast p2) AND SLOT_2_0 OR push_bit 7 (ucast p1 AND 0x7f) :: u32), 3)"
  unfolding sqlite3GetVarint_def Let_def tests by simp_all

lemma getVarint32_value: "getVarint32 p = map_option (\<lambda>(v, n). (clamp32 v, n)) (sqlite3GetVarint p)"
proof -
  have long: "sqlite3GetVarint32 (p0 # r) = map_option (\<lambda>(v, n). (clamp32 v, n)) (sqlite3GetVarint (p0 # r))" if "bit p0 7" for p0 r
    unfolding sqlite3GetVarint32_def Let_def tests clamp32_def [symmetric]
    by (auto simp: that getVarint_short clamp32_of split: list.split option.split)
  show ?thesis
    by (cases p) (simp_all add: getVarint32_def byte_low long getVarint_short clamp32_of)
qed

lemma all_32: "list_all P [0..<32] \<longleftrightarrow> (\<forall>n < 32. P n)"
  by (simp only: list_all_iff set_upt) auto

lemma word32_eqI: "list_all (\<lambda>n. bit x n = bit y n) [0..<32] \<Longrightarrow> x = (y :: u32)"
  by (rule bit_word_eqI) (simp add: list_all_iff)

lemma upt32: "[0..<32] = 0 # 1 # [2..<32]"
  by (simp add: upt_rec)

lemma word8_eqI: "list_all (\<lambda>n. bit x n = bit y n) [0..<8] \<Longrightarrow> x = (y :: u8)"
  by (rule bit_word_eqI) (simp add: list_all_iff)

lemma upt8: "[0..<8] = 0 # 1 # [2..<8]"
  by (simp add: upt_rec)

lemma zero32: "(v :: u32) = 0 \<longleftrightarrow> (\<forall>n < 32. \<not> bit v n)"
  by (auto simp: bit_eq_iff dest: bit_imp_le_length)

lemma low_bits:
  "v < 0x80 \<longleftrightarrow> drop_bit 7 v = (0 :: u32)" "v AND NOT 0x3fff = 0 \<longleftrightarrow> drop_bit 14 v = (0 :: u32)"
proof -
  have "drop_bit 7 v = 0 \<longleftrightarrow> unat v div 128 = 0"
    unfolding unat_eq_0 [symmetric] unat_drop_bit_eq by (simp add: drop_bit_eq_div)
  then show "v < 0x80 \<longleftrightarrow> drop_bit 7 v = 0" by (simp add: word_less_nat_alt div_eq_0_iff)
  show "v AND NOT 0x3fff = 0 \<longleftrightarrow> drop_bit 14 v = 0"
    unfolding zero32 all_32 [symmetric] by (simp add: upt32 bit_simps)
qed

lemma drop_ucast: "drop_bit k (ucast (v :: u32) :: u64) = ucast (drop_bit k v)"
  by (rule bit_word_eqI) (auto simp: bit_simps dest: bit_imp_le_length)

lemma ucast_zero: "(ucast (v :: u32) :: u64) = 0 \<longleftrightarrow> v = 0"
  by (metis clamp32_of ucast_0)

lemma putVarint32_value: "putVarint32 v = sqlite3PutVarint (ucast v)"
proof -
  have top: "drop_bit 56 (ucast v :: u64) = 0" by (simp add: drop_ucast zero32 bit_simps)
  have put: "sqlite3PutVarint (ucast v) = rev (((ucast (ucast v AND 0x7f :: u64) OR 0x80) AND 0x7f)
      # (if drop_bit 7 v = 0 then [] else put_digits (ucast (drop_bit 7 v))))"
    unfolding sqlite3PutVarint_def high_byte top by (subst put_digits.simps) (simp add: drop_ucast ucast_zero)
  have low: "(ucast (ucast w AND 0x7f :: u64) OR 0x80) AND 0x7f = (ucast (w AND 0x7f) :: u8)"
    "ucast (ucast w AND 0x7f :: u64) OR 0x80 = (ucast (w AND 0x7f) OR 0x80 :: u8)" for w :: u32
    by (rule word8_eqI, simp add: upt8 bit_simps)+
  have mask: "(0x7f :: u32) = mask 7" by (simp add: mask_numeral)
  have small: "w AND 0x7f = w" if "drop_bit 7 w = 0" for w :: u32
    using that unfolding mask take_bit_eq_mask [symmetric] by (simp add: take_bit_eq_self_iff_drop_bit_eq_0)
  show ?thesis
  proof (cases "drop_bit 7 v = 0")
    case True
    then show ?thesis by (simp add: putVarint32_def low_bits put low(1) small)
  next
    case False
    have "drop_bit 7 (drop_bit 7 v) = 0" if "drop_bit 14 v = 0" using that by simp
    then have "put_digits (ucast (drop_bit 7 v)) = [ucast (drop_bit 7 v) OR 0x80]" if "drop_bit 14 v = 0"
      using that by (subst put_digits.simps) (simp add: drop_ucast ucast_zero low small)
    then show ?thesis using False unfolding putVarint32_def sqlite3PutVarint32_def low_bits by (simp add: put low(1))
  qed
qed

section \<open>Properties\<close>

text \<open>
  C37. The decoders, which work on two 32-bit halves with precomputed masks and are unrolled by length, read from any
  bytes what the plain loop over seven-bit digits reads; the one for 32 bits clamps larger values.
\<close>

theorem get_varint_reference:
  "sqlite3GetVarint p = varint_value 0 0 p
   \<and> getVarint32 p = map_option (\<lambda>(v, n). (clamp32 v, n)) (varint_value 0 0 p)"
  using getVarint_value [of p] getVarint32_value [of p] by simp

lemma getVarint_put: "sqlite3GetVarint (sqlite3PutVarint v @ rest) = Some (v, length (sqlite3PutVarint v))"
  by (simp add: getVarint_value varint_value_put)

lemma getVarint32_put: "getVarint32 (putVarint32 w @ rest) = Some (w, length (putVarint32 w))"
  by (simp add: getVarint32_value getVarint_put putVarint32_value clamp32_of)

lemma varint_len_bounds: "1 \<le> sqlite3VarintLen v \<and> sqlite3VarintLen v \<le> 9"
proof -
  have "0 < k \<Longrightarrow> 1 \<le> varint_len k w \<and> varint_len k w \<le> k" for k w by (induction k w rule: varint_len.induct) auto
  then show ?thesis by (simp add: sqlite3VarintLen_def)
qed

text \<open>
  An integer that was written is read back with the number of bytes it took, whatever follows it in memory; the
  number of bytes is the one \<open>sqlite3VarintLen\<close> announces, from 1 to 9.
\<close>

theorem varint_roundtrip:
  "sqlite3GetVarint (sqlite3PutVarint v @ rest) = Some (v, sqlite3VarintLen v)
   \<and> getVarint32 (putVarint32 w @ rest) = Some (w, sqlite3VarintLen (ucast w))
   \<and> length (sqlite3PutVarint v) = sqlite3VarintLen v \<and> 1 \<le> sqlite3VarintLen v \<and> sqlite3VarintLen v \<le> 9"
  using varint_len_bounds [of v] getVarint32_put [of w rest] by (simp add: getVarint_put put_length putVarint32_value)

end
