(* ===== verification/Cells.thy ===== *)
theory Cells
  imports Varint
begin

text \<open>
  The record format of the SQLite copy in \<open>db/sqlite/sqlite3.c\<close>: how a row is laid out in bytes
  (\<open>OP_MakeRecord\<close>), read column by column (\<open>OP_Column\<close>) or at once, and compared without being unpacked.
  A cell holds one value: numbers at their width, a real as its 64 bits, text and blobs as bytes; a blob may
  end in zero bytes that are only counted. Affinities are applied before.
\<close>

section \<open>Cells and serial types\<close>

datatype Mem =
    MEM_Null
  | MEM_Int u64
  | MEM_Real u64
  | MEM_Str "u8 list"
  | MEM_Blob "u8 list" nat

definition MAX_6BYTE :: u64 where "MAX_6BYTE = push_bit 32 0x00008000 - 1"

text \<open>The type of text or a blob of \<open>n\<close> bytes.\<close>

definition varlen_type :: "nat \<Rightarrow> bool \<Rightarrow> u32" where
  "varlen_type n str = of_nat n * 2 + 12 + of_bool str"

definition sqlite3VdbeSerialType :: "Mem \<Rightarrow> int \<Rightarrow> u32" where
  "sqlite3VdbeSerialType pMem file_format =
     (case pMem of
        MEM_Null \<Rightarrow> 0
      | MEM_Int i \<Rightarrow>
          if i <s 0 \<and> i <s - MAX_6BYTE then 6
          else let u = (if i <s 0 then - i else i) in
               if u \<le> 127 then (if i AND 1 = i \<and> 4 \<le> file_format then 8 + ucast u else 1)
               else if u \<le> 32767 then 2
               else if u \<le> 8388607 then 3
               else if u \<le> 2147483647 then 4
               else if u \<le> MAX_6BYTE then 5
               else 6
      | MEM_Real r \<Rightarrow> 7
      | MEM_Str z \<Rightarrow> varlen_type (length z) True
      | MEM_Blob z nZero \<Rightarrow> varlen_type (length z + nZero) False)"

definition aSize :: "u32 list" where "aSize = [0, 1, 2, 3, 4, 6, 8, 8, 0, 0, 0, 0]"

definition sqlite3VdbeSerialTypeLen :: "u32 \<Rightarrow> u32" where
  "sqlite3VdbeSerialTypeLen serial_type = (if 12 \<le> serial_type then (serial_type - 12) div 2 else aSize ! unat serial_type)"

section \<open>The data of one value\<close>

fun put_bytes :: "nat \<Rightarrow> u64 \<Rightarrow> u8 list" where
  "put_bytes 0 v = []"
| "put_bytes (Suc i) v = put_bytes i (drop_bit 8 v) @ [ucast (v AND 0xFF)]"

text \<open>The zero bytes at the end of a blob are written as far as there is space.\<close>

definition sqlite3VdbeSerialPut :: "nat \<Rightarrow> Mem \<Rightarrow> int \<Rightarrow> u8 list" where
  "sqlite3VdbeSerialPut nBuf pMem file_format =
     (let serial_type = sqlite3VdbeSerialType pMem file_format; len = unat (sqlite3VdbeSerialTypeLen serial_type) in
      case pMem of
        MEM_Real r \<Rightarrow> put_bytes len r
      | MEM_Int i \<Rightarrow> if serial_type \<le> 7 then put_bytes len i else []
      | MEM_Str z \<Rightarrow> z
      | MEM_Blob z nZero \<Rightarrow> z @ replicate (min (length z + nZero) nBuf - length z) 0
      | MEM_Null \<Rightarrow> [])"

text \<open>\<open>sqlite3IsNaN\<close> on the bits of a double.\<close>

definition sqlite3IsNaN :: "u64 \<Rightarrow> bool" where
  "sqlite3IsNaN x \<longleftrightarrow> drop_bit 52 x AND 0x7ff = 0x7ff \<and> take_bit 52 x \<noteq> 0"

definition get_u32 :: "u8 list \<Rightarrow> nat \<Rightarrow> u32" where
  "get_u32 buf i = push_bit 24 (ucast (buf ! i)) OR push_bit 16 (ucast (buf ! (i + 1))) OR push_bit 8 (ucast (buf ! (i + 2)))
     OR ucast (buf ! (i + 3))"

text \<open>Fewer bytes than the type asks for are None. Arithmetic on bytes is that of \<open>int\<close>, then widened with the sign.\<close>

definition sqlite3VdbeSerialGet :: "u8 list \<Rightarrow> u32 \<Rightarrow> (Mem \<times> u32) option" where
  "sqlite3VdbeSerialGet buf serial_type =
     (if length buf < unat (sqlite3VdbeSerialTypeLen serial_type) then None
      else Some (
        if serial_type = 10 \<or> serial_type = 11 \<or> serial_type = 0 then (MEM_Null, 0)
        else if serial_type = 1 then (MEM_Int (scast (buf ! 0)), 1)
        else if serial_type = 2 then (MEM_Int (scast (push_bit 8 (scast (buf ! 0)) OR ucast (buf ! 1) :: u32)), 2)
        else if serial_type = 3
          then (MEM_Int (scast (push_bit 16 (scast (buf ! 0)) OR push_bit 8 (ucast (buf ! 1)) OR ucast (buf ! 2) :: u32)), 3)
        else if serial_type = 4 then (MEM_Int (scast (get_u32 buf 0)), 4)
        else if serial_type = 5
          then (MEM_Int (push_bit 32 (scast (push_bit 8 (scast (buf ! 0)) OR ucast (buf ! 1) :: u32)) OR ucast (get_u32 buf 2)), 6)
        else if serial_type = 6 then (MEM_Int (push_bit 32 (scast (get_u32 buf 0)) OR ucast (get_u32 buf 4)), 8)
        else if serial_type = 7
          then let x = push_bit 32 (scast (get_u32 buf 0)) OR ucast (get_u32 buf 4)
               in (if sqlite3IsNaN x then MEM_Null else MEM_Real x, 8)
        else if serial_type = 8 \<or> serial_type = 9 then (MEM_Int (ucast (serial_type - 8)), 0)
        else let len = (serial_type - 12) div 2; z = take (unat len) buf
             in (if serial_type AND 1 = 1 then MEM_Str z else MEM_Blob z 0, len)))"

section \<open>A value is read back\<close>

text \<open>What is read for a value: no number is NaN, and the zero bytes are there.\<close>

fun stored :: "Mem \<Rightarrow> Mem" where
  "stored (MEM_Real r) = (if sqlite3IsNaN r then MEM_Null else MEM_Real r)"
| "stored (MEM_Blob z nZero) = MEM_Blob (z @ replicate nZero 0) 0"
| "stored m = m"

fun bytes_total :: "Mem \<Rightarrow> nat" where
  "bytes_total (MEM_Str z) = length z"
| "bytes_total (MEM_Blob z nZero) = length z + nZero"
| "bytes_total _ = 0"

text \<open>\<open>SQLITE_MAX_LENGTH\<close> bounds text and blobs.\<close>

definition mem_ok :: "Mem \<Rightarrow> bool" where
  "mem_ok m \<longleftrightarrow> bytes_total m \<le> 1000000000"

lemma get_put_bytes:
  "put_bytes (Suc 0) v = [ucast v]"
  "put_bytes 2 v = [ucast (drop_bit 8 v), ucast v]"
  "put_bytes 3 v = [ucast (drop_bit 16 v), ucast (drop_bit 8 v), ucast v]"
  "put_bytes 4 v = [ucast (drop_bit 24 v), ucast (drop_bit 16 v), ucast (drop_bit 8 v), ucast v]"
  "put_bytes 6 v = [ucast (drop_bit 40 v), ucast (drop_bit 32 v), ucast (drop_bit 24 v), ucast (drop_bit 16 v), ucast (drop_bit 8 v), ucast v]"
  "put_bytes 8 v = [ucast (drop_bit 56 v), ucast (drop_bit 48 v), ucast (drop_bit 40 v), ucast (drop_bit 32 v),
     ucast (drop_bit 24 v), ucast (drop_bit 16 v), ucast (drop_bit 8 v), ucast v]"
proof -
  have "ucast (w AND 0xFF) = (ucast w :: u8)" for w :: u64 by (rule word8_eqI) (simp add: upt8 bit_simps)
  then show "put_bytes (Suc 0) v = [ucast v]"
    "put_bytes 2 v = [ucast (drop_bit 8 v), ucast v]"
    "put_bytes 3 v = [ucast (drop_bit 16 v), ucast (drop_bit 8 v), ucast v]"
    "put_bytes 4 v = [ucast (drop_bit 24 v), ucast (drop_bit 16 v), ucast (drop_bit 8 v), ucast v]"
    "put_bytes 6 v = [ucast (drop_bit 40 v), ucast (drop_bit 32 v), ucast (drop_bit 24 v), ucast (drop_bit 16 v), ucast (drop_bit 8 v), ucast v]"
    "put_bytes 8 v = [ucast (drop_bit 56 v), ucast (drop_bit 48 v), ucast (drop_bit 40 v), ucast (drop_bit 32 v),
       ucast (drop_bit 24 v), ucast (drop_bit 16 v), ucast (drop_bit 8 v), ucast v]"
    by (simp_all add: eval_nat_numeral)
qed

text \<open>The bytes of a width read as a number with its sign.\<close>

lemma sign_widths:
  "scast (ucast v :: u8) = signed_take_bit 7 (v :: u64)"
  "scast (push_bit 8 (scast (ucast (drop_bit 8 v) :: u8)) OR ucast (ucast v :: u8) :: u32) = signed_take_bit 15 v"
  "scast (push_bit 16 (scast (ucast (drop_bit 16 v) :: u8)) OR push_bit 8 (ucast (ucast (drop_bit 8 v) :: u8)) OR ucast (ucast v :: u8) :: u32)
     = signed_take_bit 23 v"
  by (rule word64_eqI, simp add: upt64 bit_simps)+

lemma get_u32_put:
  "get_u32 (ucast (drop_bit 24 v) # ucast (drop_bit 16 v) # ucast (drop_bit 8 v) # ucast v # r) 0 = ucast (v :: u64)"
  by (rule word32_eqI) (simp add: get_u32_def upt32 bit_simps)

lemma sign_words:
  "scast (ucast v :: u32) = signed_take_bit 31 (v :: u64)"
  "push_bit 32 (scast (push_bit 8 (scast (ucast (drop_bit 40 v) :: u8)) OR ucast (ucast (drop_bit 32 v) :: u8) :: u32)) OR ucast (ucast v :: u32)
     = signed_take_bit 47 v"
  "push_bit 32 (signed_take_bit 31 (drop_bit 32 v)) OR ucast (ucast v :: u32) = v"
  by (rule word64_eqI, simp add: upt64 bit_simps)+

lemma signed_take_fits:
  assumes "- (2 ^ n) \<le> sint v" "sint v < 2 ^ n" "n < 64"
  shows "signed_take_bit n v = (v :: u64)"
proof (rule bit_word_eqI)
  fix k assume "k < LENGTH(64)"
  have "bit (sint v) k = bit (signed_take_bit n (sint v)) k" using assms(1,2) by (simp add: signed_take_bit_int_eq_self)
  then show "bit (signed_take_bit n v) k = bit v k"
    using \<open>k < LENGTH(64)\<close> assms(3) by (simp add: bit_simps split: if_splits)
qed

lemma magnitude: "uint (if i <s 0 then - i else i) = \<bar>sint (i :: u64)\<bar>"
proof -
  have r: "- (2 ^ 63) \<le> sint i" "sint i < 2 ^ 63" using sint_greater_eq [of i] sint_less [of i] by simp_all
  have word: "uint (word_of_int k :: u64) = k" if "0 \<le> k" "k < 2 ^ 64" for k
    using that by (simp add: uint_word_of_int take_bit_int_eq_self)
  show ?thesis
  proof (cases "sint i < 0")
    case True
    then have "uint (word_of_int (- sint i) :: u64) = - sint i" by (intro word) (use r in simp_all)
    then show ?thesis using True by (simp add: word_sless_alt)
  next
    case False
    then have "uint (word_of_int (sint i) :: u64) = sint i" by (intro word) (use r in simp_all)
    then show ?thesis using False by (simp add: word_sless_alt)
  qed
qed

text \<open>A type of a width is given only to numbers that fit.\<close>

lemma int_type:
  assumes "sqlite3VdbeSerialType (MEM_Int i) ff = t"
  shows "t = 1 \<and> signed_take_bit 7 i = i \<or> t = 2 \<and> signed_take_bit 15 i = i \<or> t = 3 \<and> signed_take_bit 23 i = i
    \<or> t = 4 \<and> signed_take_bit 31 i = i \<or> t = 5 \<and> signed_take_bit 47 i = i \<or> t = 6 \<or> t = 8 \<and> i = 0 \<or> t = 9 \<and> i = 1"
proof -
  let ?u = "if i <s 0 then - i else i"
  have fits: "?u \<le> b \<Longrightarrow> uint b < 2 ^ n \<Longrightarrow> n < 64 \<Longrightarrow> signed_take_bit n i = i" for b n
    using magnitude [of i] by (intro signed_take_fits) (simp_all add: word_le_def split: if_splits)
  have bit: "i = 0 \<or> i = 1" if "i AND 1 = i" using that by (cases "odd i") (auto simp: and_one_eq mod_2_eq_odd)
  have eight: "8 + ucast ?u = (8 :: u32)" if "i = 0" using that by simp
  have nine: "8 + ucast ?u = (9 :: u32)" if "i = 1" using that by (simp add: word_sless_alt)
  have small: "?u \<le> 127 \<Longrightarrow> signed_take_bit 7 i = i" "?u \<le> 32767 \<Longrightarrow> signed_take_bit 15 i = i"
    "?u \<le> 8388607 \<Longrightarrow> signed_take_bit 23 i = i" "?u \<le> 2147483647 \<Longrightarrow> signed_take_bit 31 i = i"
    "?u \<le> MAX_6BYTE \<Longrightarrow> signed_take_bit 47 i = i"
    by (erule fits, simp add: MAX_6BYTE_def, simp)+
  have t: "t = (if i <s 0 \<and> i <s - MAX_6BYTE then 6 else if ?u \<le> 127 then (if i AND 1 = i \<and> 4 \<le> ff then 8 + ucast ?u else 1)
      else if ?u \<le> 32767 then 2 else if ?u \<le> 8388607 then 3 else if ?u \<le> 2147483647 then 4 else if ?u \<le> MAX_6BYTE then 5 else 6)"
    unfolding assms [symmetric] sqlite3VdbeSerialType_def Mem.case Let_def by (rule refl)
  have if_elim: "t = (if P then a else b) \<Longrightarrow> (P \<Longrightarrow> t = a \<Longrightarrow> Q) \<Longrightarrow> (\<not> P \<Longrightarrow> t = b \<Longrightarrow> Q) \<Longrightarrow> Q" for P Q a b
    by (simp split: if_splits)
  from t show ?thesis
    by (elim if_elim) (use small bit eight nine in \<open>simp_all only:, auto\<close>)
qed

lemma type_len:
  "sqlite3VdbeSerialTypeLen 0 = 0" "sqlite3VdbeSerialTypeLen 1 = 1" "sqlite3VdbeSerialTypeLen 2 = 2" "sqlite3VdbeSerialTypeLen 3 = 3"
  "sqlite3VdbeSerialTypeLen 4 = 4" "sqlite3VdbeSerialTypeLen 5 = 6" "sqlite3VdbeSerialTypeLen 6 = 8" "sqlite3VdbeSerialTypeLen 7 = 8"
  "sqlite3VdbeSerialTypeLen 8 = 0" "sqlite3VdbeSerialTypeLen 9 = 0"
  by (simp_all add: sqlite3VdbeSerialTypeLen_def aSize_def word_le_nat_alt)

lemma text_type:
  assumes "n \<le> 1000000000"
  shows "sqlite3VdbeSerialTypeLen (varlen_type n b) = of_nat n" "unat (of_nat n :: u32) = n"
    "unat (varlen_type n b) = n * 2 + 12 + of_bool b"
proof -
  have of: "unat (of_nat k :: u32) = k" if "k < 2 ^ 32" for k
    using that by (simp add: unsigned_of_nat take_bit_nat_eq_self)
  show n: "unat (of_nat n :: u32) = n" by (rule of) (use assms in simp)
  have "unat (of_nat (n * 2 + 12 + of_bool b) :: u32) = n * 2 + 12 + of_bool b" by (rule of) (use assms in auto)
  then show t: "unat (varlen_type n b) = n * 2 + 12 + of_bool b" by (simp add: varlen_type_def)
  show "sqlite3VdbeSerialTypeLen (varlen_type n b) = of_nat n"
    by (auto simp: sqlite3VdbeSerialTypeLen_def word_unat_eq_iff unat_div unat_sub word_le_nat_alt n t)
qed

lemma type_values:
  "sqlite3VdbeSerialType MEM_Null ff = 0" "sqlite3VdbeSerialType (MEM_Real r) ff = 7"
  "sqlite3VdbeSerialType (MEM_Str z) ff = varlen_type (length z) True"
  "sqlite3VdbeSerialType (MEM_Blob z k) ff = varlen_type (length z + k) False"
  by (simp_all add: sqlite3VdbeSerialType_def)

lemma get_text:
  assumes "n \<le> 1000000000" "n \<le> length buf"
  shows "sqlite3VdbeSerialGet buf (varlen_type n b) = Some (if b then MEM_Str (take n buf) else MEM_Blob (take n buf) 0, of_nat n)"
proof -
  let ?t = "varlen_type n b"
  have "12 \<le> ?t" by (simp add: word_le_nat_alt text_type [OF assms(1)])
  then have "(?t - 12) div 2 = of_nat n" using text_type(1) [OF assms(1), of b] by (simp add: sqlite3VdbeSerialTypeLen_def)
  moreover have "?t \<noteq> k" if "unat k < 12" for k using that text_type(3) [OF assms(1), of b] by auto
  moreover have "odd ?t \<longleftrightarrow> odd (unat ?t)" by (simp add: bit_unsigned_iff flip: bit_0)
  then have "?t AND 1 = 1 \<longleftrightarrow> b" unfolding text_type [OF assms(1)] by (cases b) (simp_all add: and_one_eq mod_2_eq_odd)
  ultimately show ?thesis
    using assms(2) unfolding sqlite3VdbeSerialGet_def by (simp only: text_type [OF assms(1)] Let_def) simp
qed

lemma serial_put_length:
  assumes "mem_ok m" "bytes_total m \<le> nBuf"
  shows "length (sqlite3VdbeSerialPut nBuf m ff) = unat (sqlite3VdbeSerialTypeLen (sqlite3VdbeSerialType m ff))"
proof -
  have len: "length (put_bytes k v) = k" for k v by (induction k arbitrary: v) simp_all
  show ?thesis
  proof (cases m)
    case (MEM_Int i)
    have "\<not> t \<le> 7 \<Longrightarrow> unat (sqlite3VdbeSerialTypeLen t) = 0" if "t = sqlite3VdbeSerialType (MEM_Int i) ff" for t
      using int_type [OF that [symmetric]] by (auto simp: type_len word_le_nat_alt)
    then show ?thesis using MEM_Int by (simp add: sqlite3VdbeSerialPut_def Let_def len)
  qed (use assms in \<open>simp_all add: sqlite3VdbeSerialPut_def Let_def len type_values text_type mem_ok_def type_len del: of_nat_add\<close>)
qed

declare put_bytes.simps [simp del]

lemma get_u32_later:
  "get_u32 (x # y # buf) 2 = get_u32 buf 0" "get_u32 (x # y # x' # y' # buf) 4 = get_u32 buf 0"
  by (simp_all add: get_u32_def numeral_eq_Suc)

lemma get_widths:
  "sqlite3VdbeSerialGet (put_bytes (Suc 0) i @ r) 1 = Some (MEM_Int (signed_take_bit 7 i), 1)"
  "sqlite3VdbeSerialGet (put_bytes 2 i @ r) 2 = Some (MEM_Int (signed_take_bit 15 i), 2)"
  "sqlite3VdbeSerialGet (put_bytes 3 i @ r) 3 = Some (MEM_Int (signed_take_bit 23 i), 3)"
  "sqlite3VdbeSerialGet (put_bytes 4 i @ r) 4 = Some (MEM_Int (signed_take_bit 31 i), 4)"
  "sqlite3VdbeSerialGet (put_bytes 6 i @ r) 5 = Some (MEM_Int (signed_take_bit 47 i), 6)"
  "sqlite3VdbeSerialGet (put_bytes 8 i @ r) 6 = Some (MEM_Int i, 8)"
  "sqlite3VdbeSerialGet (put_bytes 8 i @ r) 7 = Some (stored (MEM_Real i), 8)"
proof -
  have high: "get_u32 (ucast (drop_bit 56 i) # ucast (drop_bit 48 i) # ucast (drop_bit 40 i) # ucast (drop_bit 32 i) # l) 0 = ucast (drop_bit 32 i)" for l
    using get_u32_put [of "drop_bit 32 i" l] by simp
  show "sqlite3VdbeSerialGet (put_bytes (Suc 0) i @ r) 1 = Some (MEM_Int (signed_take_bit 7 i), 1)"
    "sqlite3VdbeSerialGet (put_bytes 2 i @ r) 2 = Some (MEM_Int (signed_take_bit 15 i), 2)"
    "sqlite3VdbeSerialGet (put_bytes 3 i @ r) 3 = Some (MEM_Int (signed_take_bit 23 i), 3)"
    "sqlite3VdbeSerialGet (put_bytes 4 i @ r) 4 = Some (MEM_Int (signed_take_bit 31 i), 4)"
    "sqlite3VdbeSerialGet (put_bytes 6 i @ r) 5 = Some (MEM_Int (signed_take_bit 47 i), 6)"
    "sqlite3VdbeSerialGet (put_bytes 8 i @ r) 6 = Some (MEM_Int i, 8)"
    "sqlite3VdbeSerialGet (put_bytes 8 i @ r) 7 = Some (stored (MEM_Real i), 8)"
    by (simp_all add: get_put_bytes sqlite3VdbeSerialGet_def type_len sign_widths sign_words get_u32_put get_u32_later high Let_def)
qed

lemma get_constants:
  "sqlite3VdbeSerialGet r 0 = Some (MEM_Null, 0)" "sqlite3VdbeSerialGet r 8 = Some (MEM_Int 0, 0)" "sqlite3VdbeSerialGet r 9 = Some (MEM_Int 1, 0)"
  by (simp_all add: sqlite3VdbeSerialGet_def type_len)

lemma get_put:
  assumes "mem_ok m" "bytes_total m \<le> nBuf"
  shows "sqlite3VdbeSerialGet (sqlite3VdbeSerialPut nBuf m ff @ r) (sqlite3VdbeSerialType m ff)
    = Some (stored m, sqlite3VdbeSerialTypeLen (sqlite3VdbeSerialType m ff))"
proof (cases m)
  case (MEM_Int i)
  let ?t = "sqlite3VdbeSerialType (MEM_Int i) ff"
  have put: "sqlite3VdbeSerialPut nBuf m ff = (if ?t \<le> 7 then put_bytes (unat (sqlite3VdbeSerialTypeLen ?t)) i else [])"
    by (simp add: MEM_Int sqlite3VdbeSerialPut_def Let_def)
  from int_type [OF refl, of i ff] show ?thesis
    unfolding put unfolding MEM_Int by (elim disjE conjE) (simp_all add: type_len get_widths get_constants word_le_nat_alt)
next
  case (MEM_Real i)
  then show ?thesis using get_widths(7) [of i r] by (simp add: sqlite3VdbeSerialPut_def type_values type_len Let_def)
next
  case (MEM_Str z)
  then show ?thesis using assms(1) by (simp add: sqlite3VdbeSerialPut_def type_values get_text text_type mem_ok_def Let_def)
next
  case (MEM_Blob z k)
  then show ?thesis using assms
    by (simp add: sqlite3VdbeSerialPut_def type_values get_text text_type mem_ok_def Let_def min_absorb1 del: of_nat_add)
qed (simp add: sqlite3VdbeSerialPut_def type_values get_constants type_len Let_def)

end
