(* ===== verification/Rows.thy ===== *)
theory Rows
  imports Cells
begin

text \<open>
  Rows as records: \<open>OP_MakeRecord\<close> writes the cells of a row, \<open>OP_Column\<close> reads one of them,
  \<open>sqlite3VdbeRecordUnpack\<close> all of them, \<open>sqlite3VdbeRecordCompare\<close> compares a record with cells. Of a cursor
  only the payload of its row is modelled, in one piece; the opcodes are functions of it.
\<close>

section \<open>Writing a row\<close>

text \<open>\<open>sqlite3VdbeMemExpandBlob\<close>, which \<open>OP_MakeRecord\<close> calls for a blob with bytes before its zero bytes.\<close>

fun expand_blob :: "Mem \<Rightarrow> Mem" where
  "expand_blob (MEM_Blob z nZero) = (if nZero \<noteq> 0 \<and> z \<noteq> [] then MEM_Blob (z @ replicate nZero 0) 0 else MEM_Blob z nZero)"
| "expand_blob m = m"

definition type_len_of :: "int \<Rightarrow> Mem \<Rightarrow> nat" where
  "type_len_of ff m = unat (sqlite3VdbeSerialTypeLen (sqlite3VdbeSerialType m ff))"

text \<open>The zero bytes that end the record and are not written.\<close>

fun zero_count :: "Mem \<Rightarrow> nat" where
  "zero_count (MEM_Blob z nZero) = nZero"
| "zero_count _ = 0"

fun zero_tail :: "int \<Rightarrow> nat \<Rightarrow> Mem list \<Rightarrow> nat" where
  "zero_tail ff nZero [] = nZero"
| "zero_tail ff nZero (m # ms) =
     zero_tail ff (if zero_count m \<noteq> 0 then nZero + zero_count m else if type_len_of ff m \<noteq> 0 then 0 else nZero) ms"

definition header_types :: "int \<Rightarrow> Mem list \<Rightarrow> nat" where
  "header_types ff ms = (\<Sum>m\<leftarrow>ms. sqlite3VarintLen (ucast (sqlite3VdbeSerialType m ff)))"

definition header_size :: "nat \<Rightarrow> nat" where
  "header_size nHdr =
     (let nVarint = sqlite3VarintLen (of_nat nHdr); nHdr = nHdr + nVarint
      in if nVarint < sqlite3VarintLen (of_nat nHdr) then nHdr + 1 else nHdr)"

fun put_fields :: "int \<Rightarrow> nat \<Rightarrow> Mem list \<Rightarrow> u8 list" where
  "put_fields ff nBuf [] = []"
| "put_fields ff nBuf (m # ms) =
     (let w = sqlite3VdbeSerialPut nBuf m ff in w @ put_fields ff (nBuf - length w) ms)"

text \<open>The bytes of the record and the number of zero bytes after them; None is \<open>too_big\<close>.\<close>

definition OP_MakeRecord :: "int \<Rightarrow> nat \<Rightarrow> Mem list \<Rightarrow> (u8 list \<times> nat) option" where
  "OP_MakeRecord file_format limit cells =
     (let fields = map expand_blob cells;
          nData = (\<Sum>m\<leftarrow>fields. type_len_of file_format m);
          nZero = zero_tail file_format 0 fields;
          nHdr = header_size (header_types file_format fields);
          nByte = nHdr + nData - nZero
      in if limit < nByte then None
         else let hdr = putVarint32 (of_nat nHdr) @ concat (map (\<lambda>m. putVarint32 (sqlite3VdbeSerialType m file_format)) fields)
              in Some (hdr @ put_fields file_format (nByte - length hdr) fields, nZero))"

section \<open>Reading a column\<close>

text \<open>
  The loop over the header: for each column the type and the offset of its data, None for a column the
  record does not have; then the place it came to and the offset. A sum of offsets that wraps around ends it.
\<close>

fun scan_header :: "u8 list \<Rightarrow> nat \<Rightarrow> nat \<Rightarrow> nat \<Rightarrow> u32 \<Rightarrow> ((u32 \<times> u32) option list \<times> nat \<times> u32) option" where
  "scan_header data zEndHdr 0 zIdx offset = Some ([], zIdx, offset)"
| "scan_header data zEndHdr (Suc n) zIdx offset =
     (if zIdx < zEndHdr then
        (case getVarint32 (drop zIdx data) of
           None \<Rightarrow> None
         | Some (t, k) \<Rightarrow>
             let szField = sqlite3VdbeSerialTypeLen t in
             if offset + szField < szField then Some ([Some (t, offset)], zEndHdr + 1, offset + szField)
             else map_option (\<lambda>(cols, r). (Some (t, offset) # cols, r)) (scan_header data zEndHdr n (zIdx + k) (offset + szField)))
      else map_option (\<lambda>(cols, r). (None # cols, r)) (scan_header data zEndHdr n zIdx offset))"

datatype column = Column Mem | SQLITE_CORRUPT | SQLITE_TOOBIG

definition OP_Column :: "nat \<Rightarrow> nat \<Rightarrow> Mem \<Rightarrow> nat \<Rightarrow> u8 list \<Rightarrow> column option" where
  "OP_Column nField p2 p4 limit zRec =
     (if zRec = [] then Some (Column MEM_Null)
      else if limit < length zRec then Some SQLITE_TOOBIG
      else case getVarint32 zRec of
             None \<Rightarrow> None
           | Some (offset, szHdr) \<Rightarrow>
               if 98307 < offset then Some SQLITE_CORRUPT
               else let zEndHdr = min (nField * 5 + 3) (unat offset) in
                    (case scan_header zRec zEndHdr nField szHdr offset of
                       None \<Rightarrow> None
                     | Some (cols, zIdx, end) \<Rightarrow>
                         if zEndHdr < zIdx \<or> length zRec < unat end \<or> zIdx = zEndHdr \<and> unat end \<noteq> length zRec then Some SQLITE_CORRUPT
                         else case cols ! p2 of
                                Some (t, off) \<Rightarrow> map_option (\<lambda>(m, _). Column m) (sqlite3VdbeSerialGet (drop (unat off) zRec) t)
                              | None \<Rightarrow> Some (Column p4)))"

section \<open>Reading all cells\<close>

text \<open>
  The loop of \<open>sqlite3VdbeRecordUnpack\<close>: at most as many cells as there is space for. A header size that the
  code's \<open>int d\<close> does not hold makes it read before the key: None, as for every read outside it.
\<close>

fun unpack_loop :: "u8 list \<Rightarrow> nat \<Rightarrow> nat \<Rightarrow> nat \<Rightarrow> nat \<Rightarrow> Mem list option" where
  "unpack_loop aKey szHdr 0 idx d = Some []"
| "unpack_loop aKey szHdr (Suc n) idx d =
     (if idx < szHdr \<and> d \<le> length aKey then
        (case getVarint32 (drop idx aKey) of
           None \<Rightarrow> None
         | Some (t, k) \<Rightarrow>
             (case sqlite3VdbeSerialGet (drop d aKey) t of
                None \<Rightarrow> None
              | Some (m, len) \<Rightarrow> map_option (\<lambda>ms. m # ms) (unpack_loop aKey szHdr n (idx + k) (d + unat len))))
      else Some [])"

definition sqlite3VdbeRecordUnpack :: "nat \<Rightarrow> u8 list \<Rightarrow> Mem list option" where
  "sqlite3VdbeRecordUnpack nField aKey =
     (case getVarint32 aKey of
        None \<Rightarrow> None
      | Some (szHdr, idx) \<Rightarrow>
          if 2 ^ 31 \<le> unat szHdr then None else unpack_loop aKey (unat szHdr) nField idx (unat szHdr))"

section \<open>Comparing\<close>

text \<open>\<open>memcmp\<close> of equally long bytes, by its sign; \<open><\<close> on doubles and their conversion are those of the machine.\<close>

fun memcmp :: "u8 list \<Rightarrow> u8 list \<Rightarrow> int" where
  "memcmp (a # as) (b # bs) = (if a < b then -1 else if b < a then 1 else memcmp as bs)"
| "memcmp _ _ = 0"

definition blob_compare :: "u8 list \<Rightarrow> u8 list \<Rightarrow> int" where
  "blob_compare z1 z2 =
     (let n = min (length z1) (length z2); rc = memcmp (take n z1) (take n z2)
      in if rc = 0 then int (length z1) - int (length z2) else rc)"

record real_api =
  r_less :: "u64 \<Rightarrow> u64 \<Rightarrow> bool"
  r_of_int :: "u64 \<Rightarrow> u64"

fun mem_real :: "real_api \<Rightarrow> Mem \<Rightarrow> u64" where
  "mem_real D (MEM_Int i) = r_of_int D i"
| "mem_real D (MEM_Real r) = r"
| "mem_real D _ = 0"

fun mem_bytes :: "Mem \<Rightarrow> u8 list" where
  "mem_bytes (MEM_Str z) = z"
| "mem_bytes (MEM_Blob z _) = z"
| "mem_bytes _ = []"

fun is_number :: "Mem \<Rightarrow> bool" where
  "is_number (MEM_Int _) = True"
| "is_number (MEM_Real _) = True"
| "is_number _ = False"

fun is_text :: "Mem \<Rightarrow> bool" where
  "is_text (MEM_Str _) = True"
| "is_text _ = False"

type_synonym collation = "u8 list \<Rightarrow> u8 list \<Rightarrow> int"

definition sqlite3MemCompare :: "real_api \<Rightarrow> collation option \<Rightarrow> Mem \<Rightarrow> Mem \<Rightarrow> int" where
  "sqlite3MemCompare D pColl m1 m2 =
     (if m1 = MEM_Null \<or> m2 = MEM_Null then of_bool (m2 = MEM_Null) - of_bool (m1 = MEM_Null)
      else if is_number m1 \<or> is_number m2 then
        (if \<not> is_number m1 then 1
         else if \<not> is_number m2 then -1
         else case (m1, m2) of
                (MEM_Int i, MEM_Int j) \<Rightarrow> if i <s j then -1 else if j <s i then 1 else 0
              | _ \<Rightarrow> if r_less D (mem_real D m1) (mem_real D m2) then -1
                     else if r_less D (mem_real D m2) (mem_real D m1) then 1 else 0)
      else if is_text m1 \<or> is_text m2 then
        (if \<not> is_text m1 then 1
         else if \<not> is_text m2 then -1
         else case pColl of
                Some xCmp \<Rightarrow> xCmp (mem_bytes m1) (mem_bytes m2)
              | None \<Rightarrow> blob_compare (mem_bytes m1) (mem_bytes m2))
      else blob_compare (mem_bytes m1) (mem_bytes m2))"

record KeyInfo =
  ki_nField :: nat
  ki_aColl :: "collation option list"
  ki_aSortOrder :: "bool list"

record UnpackedRecord =
  up_aMem :: "Mem list"
  up_INCRKEY :: bool
  up_PREFIX_MATCH :: bool
  up_PREFIX_SEARCH :: bool
  up_rowid :: u64

text \<open>How the loop ends: at a cell that differs, with the order of its column, or with types left or not.\<close>

datatype compare_end = Differ int nat Mem | Same bool

definition compare_cell :: "real_api \<Rightarrow> KeyInfo \<Rightarrow> nat \<Rightarrow> Mem \<Rightarrow> Mem \<Rightarrow> int" where
  "compare_cell D K i m1 m2 =
     (let rc = sqlite3MemCompare D (if i < ki_nField K then ki_aColl K ! i else None) m1 m2
      in if i < ki_nField K \<and> ki_aSortOrder K ! i then - rc else rc)"

fun compare_loop :: "real_api \<Rightarrow> KeyInfo \<Rightarrow> u8 list \<Rightarrow> nat \<Rightarrow> nat \<Rightarrow> nat \<Rightarrow> nat \<Rightarrow> Mem list \<Rightarrow> compare_end option" where
  "compare_loop D K aKey1 szHdr1 idx1 d1 i [] = Some (Same (idx1 < szHdr1))"
| "compare_loop D K aKey1 szHdr1 idx1 d1 i (u # us) =
     (if idx1 < szHdr1 then
        (case getVarint32 (drop idx1 aKey1) of
           None \<Rightarrow> None
         | Some (t, k) \<Rightarrow>
             if length aKey1 \<le> d1 \<and> sqlite3VdbeSerialTypeLen t \<noteq> 0 then Some (Same (idx1 + k < szHdr1))
             else (case sqlite3VdbeSerialGet (drop d1 aKey1) t of
                     None \<Rightarrow> None
                   | Some (mem1, len) \<Rightarrow>
                       if compare_cell D K i mem1 u \<noteq> 0 then Some (Differ (compare_cell D K i mem1 u) i mem1)
                       else compare_loop D K aKey1 szHdr1 (idx1 + k) (d1 + unat len) (Suc i) us))
      else Some (Same False))"

text \<open>
  The result, and what a search for a row id leaves in the right key: the last cell, which the code
  asserts to be an integer.
\<close>

definition compare_result :: "UnpackedRecord \<Rightarrow> compare_end \<Rightarrow> int \<times> UnpackedRecord" where
  "compare_result p e =
     (case e of
        Differ rc i mem1 \<Rightarrow>
          (rc, if up_PREFIX_SEARCH p \<and> Suc i = length (up_aMem p)
               then p\<lparr>up_PREFIX_SEARCH := False, up_rowid := (case mem1 of MEM_Int r \<Rightarrow> r | _ \<Rightarrow> up_rowid p)\<rparr> else p)
      | Same left \<Rightarrow> (if up_INCRKEY p then -1 else if up_PREFIX_MATCH p then 0 else if left then 1 else 0, p))"

definition sqlite3VdbeRecordCompare :: "real_api \<Rightarrow> KeyInfo \<Rightarrow> u8 list \<Rightarrow> UnpackedRecord \<Rightarrow> (int \<times> UnpackedRecord) option" where
  "sqlite3VdbeRecordCompare D K aKey1 pPKey2 =
     (case getVarint32 aKey1 of
        None \<Rightarrow> None
      | Some (szHdr1, idx1) \<Rightarrow>
          if 2 ^ 31 \<le> unat szHdr1 then None
          else map_option (compare_result pPKey2) (compare_loop D K aKey1 (unat szHdr1) idx1 (unat szHdr1) 0 (up_aMem pPKey2)))"

section \<open>The bytes of a record\<close>

definition full :: "int \<Rightarrow> Mem \<Rightarrow> u8 list" where
  "full ff m = sqlite3VdbeSerialPut (bytes_total m) m ff"

text \<open>After \<open>expand_blob\<close> a blob has bytes or zero bytes.\<close>

definition expanded :: "Mem \<Rightarrow> bool" where
  "expanded m \<longleftrightarrow> mem_ok m \<and> expand_blob m = m"

lemma expanded_ok: "mem_ok m \<Longrightarrow> expanded (expand_blob m)" "stored (expand_blob m) = stored m" "bytes_total (expand_blob m) = bytes_total m"
  by (cases m; simp add: expanded_def mem_ok_def)+

lemma length_full: "mem_ok m \<Longrightarrow> length (full ff m) = type_len_of ff m"
  by (simp add: full_def type_len_of_def serial_put_length)

lemma put_enough: "bytes_total m \<le> n \<Longrightarrow> sqlite3VdbeSerialPut n m ff = full ff m"
  by (cases m) (simp_all add: full_def sqlite3VdbeSerialPut_def Let_def min_absorb1)

lemma zero_blob: "expanded m \<Longrightarrow> zero_count m \<noteq> 0 \<Longrightarrow> m = MEM_Blob [] (zero_count m)"
  by (cases m) (auto simp: expanded_def split: if_splits)

lemma put_zero: "sqlite3VdbeSerialPut n (MEM_Blob [] k) ff = replicate (min k n) 0"
  by (simp add: sqlite3VdbeSerialPut_def Let_def)

lemma full_zero: "full ff (MEM_Blob [] k) = replicate k 0"
  by (simp add: full_def put_zero)

lemma zero_tail_from:
  "zero_tail ff n ms = (if \<forall>m \<in> set ms. zero_count m \<noteq> 0 \<or> type_len_of ff m = 0 then n + (\<Sum>m\<leftarrow>ms. zero_count m) else zero_tail ff 0 ms)"
proof (induction ms arbitrary: n)
  case (Cons m ms)
  show ?case
    using Cons.IH [of "n + zero_count m"] Cons.IH [of n] Cons.IH [of "zero_count m"] Cons.IH [of 0] by auto
qed simp

lemma full_zeros:
  assumes "\<forall>m \<in> set ms. expanded m" "\<forall>m \<in> set ms. zero_count m \<noteq> 0 \<or> type_len_of ff m = 0"
  shows "concat (map (full ff) ms) = replicate (\<Sum>m\<leftarrow>ms. zero_count m) 0"
  using assms
proof (induction ms)
  case (Cons m ms)
  have "full ff m = replicate (zero_count m) 0"
  proof (cases "zero_count m = 0")
    case True
    then show ?thesis using Cons.prems length_full [of m ff] by (auto simp: expanded_def)
  next
    case False
    then show ?thesis using zero_blob [of m] Cons.prems(1) full_zero [of ff "zero_count m"] by simp
  qed
  with Cons show ?case by (simp add: replicate_add)
qed simp

text \<open>The record ends in the zero bytes that are counted; the rest is written.\<close>

lemma zero_tail_split:
  "\<forall>m \<in> set ms. expanded m \<Longrightarrow> \<exists>pre. concat (map (full ff) ms) = pre @ replicate (zero_tail ff 0 ms) 0"
proof (induction ms)
  case (Cons m ms)
  let ?z = "\<forall>m \<in> set ms. zero_count m \<noteq> 0 \<or> type_len_of ff m = 0"
  from Cons obtain pre where pre: "concat (map (full ff) ms) = pre @ replicate (zero_tail ff 0 ms) 0" by auto
  show ?case
  proof (cases "?z \<and> zero_count m \<noteq> 0")
    case True
    then have "zero_tail ff 0 (m # ms) = zero_count m + (\<Sum>m\<leftarrow>ms. zero_count m)" by (simp add: zero_tail_from [of ff "zero_count m"])
    moreover have "full ff m = replicate (zero_count m) 0"
      using zero_blob [of m] Cons.prems True full_zero [of ff "zero_count m"] by simp
    ultimately show ?thesis using full_zeros [of ms ff] Cons.prems True by (intro exI [of _ "[]"]) (simp add: replicate_add)
  next
    case False
    then have "zero_tail ff 0 (m # ms) = zero_tail ff 0 ms" by (auto simp: zero_tail_from [of ff "zero_count m"])
    with pre show ?thesis by (intro exI [of _ "full ff m @ pre"]) simp
  qed
qed simp

lemma zero_tail_step:
  assumes "\<forall>m \<in> set (m # ms). expanded m"
    and "length (concat (map (full ff) (m # ms))) - zero_tail ff 0 (m # ms) \<le> n"
  shows "sqlite3VdbeSerialPut n m ff = take n (full ff m)"
    and "length (concat (map (full ff) ms)) - zero_tail ff 0 ms \<le> n - length (take n (full ff m))"
proof -
  let ?z = "\<forall>m \<in> set ms. zero_count m \<noteq> 0 \<or> type_len_of ff m = 0"
  obtain pre where pre: "concat (map (full ff) ms) = pre @ replicate (zero_tail ff 0 ms) 0"
    using zero_tail_split [of ms ff] assms(1) by auto
  have total: "bytes_total m \<le> length (full ff m)"
    by (cases m) (simp_all add: full_def sqlite3VdbeSerialPut_def Let_def)
  have "sqlite3VdbeSerialPut n m ff = take n (full ff m) \<and> length (concat (map (full ff) ms)) - zero_tail ff 0 ms \<le> n - length (take n (full ff m))"
  proof (cases "zero_count m = 0 \<or> \<not> ?z")
    case True
    then have "zero_tail ff 0 (m # ms) = zero_tail ff 0 ms" by (auto simp: zero_tail_from [of ff "zero_count m"])
    then have "length (full ff m) + length pre \<le> n" using assms(2) pre by simp
    then show ?thesis using pre put_enough [of m n ff] total by simp
  next
    case False
    then have z: "m = MEM_Blob [] (zero_count m)" using zero_blob [of m] assms(1) by simp
    have "zero_tail ff 0 ms = (\<Sum>m\<leftarrow>ms. zero_count m)" using False by (simp add: zero_tail_from [of ff 0])
    moreover have "length (concat (map (full ff) ms)) = (\<Sum>m\<leftarrow>ms. zero_count m)" using full_zeros [of ms ff] assms(1) False by simp
    ultimately show ?thesis
      using put_zero [of n "zero_count m" ff] full_zero [of ff "zero_count m"] z by simp
  qed
  then show "sqlite3VdbeSerialPut n m ff = take n (full ff m)"
    "length (concat (map (full ff) ms)) - zero_tail ff 0 ms \<le> n - length (take n (full ff m))" by blast+
qed

lemma put_fields_take:
  "\<forall>m \<in> set ms. expanded m \<Longrightarrow> length (concat (map (full ff) ms)) - zero_tail ff 0 ms \<le> n \<Longrightarrow>
     put_fields ff n ms = take n (concat (map (full ff) ms))"
proof (induction ms arbitrary: n)
  case (Cons m ms)
  note step = zero_tail_step [OF Cons.prems]
  have "put_fields ff (n - length (take n (full ff m))) ms = take (n - length (take n (full ff m))) (concat (map (full ff) ms))"
    using Cons.prems(1) step(2) by (intro Cons.IH) simp_all
  then show ?case using step(1) by (simp add: Let_def min_def)
qed simp

lemma record_data:
  assumes "\<forall>m \<in> set ms. expanded m"
  shows "put_fields ff ((\<Sum>m\<leftarrow>ms. type_len_of ff m) - zero_tail ff 0 ms) ms @ replicate (zero_tail ff 0 ms) 0 = concat (map (full ff) ms)"
proof -
  obtain pre where pre: "concat (map (full ff) ms) = pre @ replicate (zero_tail ff 0 ms) 0" using zero_tail_split [OF assms] by blast
  have "(\<Sum>m\<leftarrow>ms. type_len_of ff m) = length (concat (map (full ff) ms))"
    using assms by (induction ms) (simp_all add: length_full expanded_def)
  then show ?thesis by (simp add: put_fields_take [OF assms] pre)
qed

section \<open>The header\<close>

lemma varint_len_le: "drop_bit (7 * k) v = 0 \<Longrightarrow> k \<noteq> 0 \<Longrightarrow> varint_len n v \<le> k"
proof (induction n v arbitrary: k rule: varint_len.induct)
  case (2 n v)
  show ?case
  proof (cases "drop_bit 7 v \<noteq> 0 \<and> n \<noteq> 0")
    case True
    then obtain j where j: "k = Suc j" "j \<noteq> 0" using "2.prems" by (cases k; cases "k - 1") auto
    have "drop_bit (7 * j) (drop_bit 7 v) = 0" using "2.prems"(1) by (simp add: j(1) add.commute)
    from "2.IH" [OF True this j(2)] True show ?thesis by (simp add: j(1))
  qed (use "2.prems"(2) in auto)
qed simp

lemma varint_len_ge: "drop_bit (7 * k) v \<noteq> 0 \<Longrightarrow> k < n \<Longrightarrow> k < varint_len n v"
proof (induction n v arbitrary: k rule: varint_len.induct)
  case (2 n v)
  show ?case
  proof (cases k)
    case (Suc j)
    then have j: "drop_bit (7 * j) (drop_bit 7 v) \<noteq> 0" "j < n" using "2.prems" by (simp_all add: add.commute)
    then have step: "drop_bit 7 v \<noteq> 0 \<and> n \<noteq> 0" by (metis drop_bit_of_0 not_less_zero)
    from "2.IH" [OF step j] step show ?thesis by (simp add: Suc)
  qed simp
qed simp

lemma drop_of_nat: "n < 2 ^ 64 \<Longrightarrow> drop_bit k (of_nat n :: u64) = 0 \<longleftrightarrow> n < 2 ^ k"
proof -
  assume "n < 2 ^ 64"
  then have "unat (of_nat n :: u64) = n" by (simp add: unsigned_of_nat take_bit_nat_eq_self)
  then have "unat (drop_bit k (of_nat n :: u64)) = n div 2 ^ k" unfolding unat_drop_bit_eq by (simp add: drop_bit_eq_div)
  then show ?thesis by (simp add: unat_eq_0 [symmetric] div_eq_0_iff)
qed

lemma len_le: "n < 2 ^ (7 * k) \<Longrightarrow> n < 2 ^ 64 \<Longrightarrow> k \<noteq> 0 \<Longrightarrow> sqlite3VarintLen (of_nat n) \<le> k"
  unfolding sqlite3VarintLen_def by (rule varint_len_le) (simp_all add: drop_of_nat)

lemma len_gt: "2 ^ (7 * k) \<le> n \<Longrightarrow> n < 2 ^ 64 \<Longrightarrow> k < 9 \<Longrightarrow> k < sqlite3VarintLen (of_nat n)"
  unfolding sqlite3VarintLen_def by (rule varint_len_ge) (simp_all add: drop_of_nat)

text \<open>The size of the header counts the bytes that hold it.\<close>

lemma header_size_exact:
  assumes "n \<le> 16383"
  shows "header_size n = n + sqlite3VarintLen (of_nat (header_size n))" "header_size n \<le> n + 3"
proof -
  define L where "L k = sqlite3VarintLen (of_nat k)" for k
  have pos: "1 \<le> L k" for k using varint_len_bounds unfolding L_def by blast
  have L: "L k = (if k < 128 then 1 else if k < 16384 then 2 else 3)" if "k \<le> 16386" for k
    using that pos [of k] len_le [of k 1] len_le [of k 2] len_le [of k 3] len_gt [of 1 k] len_gt [of 2 k]
    unfolding L_def [symmetric] by (auto intro: le_antisym)
  have size: "header_size n = (if L n < L (n + L n) then n + L n + 1 else n + L n)"
    by (simp only: header_size_def Let_def L_def)
  then show "header_size n = n + sqlite3VarintLen (of_nat (header_size n))"
    using assms unfolding L_def [symmetric] by (auto simp: L)
  show "header_size n \<le> n + 3" using assms by (auto simp: size L)
qed

lemma type_varint: "sqlite3VarintLen (ucast (t :: u32)) \<le> 5"
proof -
  have "drop_bit 35 (ucast t :: u64) = 0" by (simp add: drop_ucast zero32 bit_simps)
  then show ?thesis unfolding sqlite3VarintLen_def by (intro varint_len_le [of 5]) simp_all
qed

lemma header_types_bound: "header_types ff ms \<le> 5 * length ms"
  unfolding header_types_def by (induction ms) (auto intro: add_mono type_varint)

definition header_bytes :: "int \<Rightarrow> Mem list \<Rightarrow> u8 list" where
  "header_bytes ff ms = concat (map (\<lambda>m. putVarint32 (sqlite3VdbeSerialType m ff)) ms)"

lemma length_putVarint32: "length (putVarint32 t) = sqlite3VarintLen (ucast t)"
  by (simp add: putVarint32_value Varint.put_length)

lemma length_header_bytes: "length (header_bytes ff ms) = header_types ff ms"
  by (induction ms) (simp_all add: header_bytes_def header_types_def length_putVarint32)

definition data_bytes :: "int \<Rightarrow> Mem list \<Rightarrow> u8 list" where
  "data_bytes ff ms = concat (map (full ff) ms)"

text \<open>The whole payload of a row: the size of the header, the types, the data.\<close>

definition record_bytes :: "int \<Rightarrow> Mem list \<Rightarrow> u8 list" where
  "record_bytes ff ms = putVarint32 (of_nat (header_size (header_types ff ms))) @ header_bytes ff ms @ data_bytes ff ms"

lemma ucast_of_nat32: "n < 2 ^ 32 \<Longrightarrow> (ucast (of_nat n :: u32) :: u64) = of_nat n"
  by (simp add: word_unat_eq_iff unsigned_ucast_eq unsigned_of_nat take_bit_nat_eq_self)

lemma header_length:
  assumes "length ms \<le> 2000"
  shows "length (putVarint32 (of_nat (header_size (header_types ff ms))) @ header_bytes ff ms) = header_size (header_types ff ms)"
    and "header_size (header_types ff ms) \<le> 10003" and "header_size (header_types ff ms) \<le> 5 * length ms + 3"
proof -
  have n: "header_types ff ms \<le> 5 * length ms" by (rule header_types_bound)
  note size = header_size_exact [of "header_types ff ms"]
  show "header_size (header_types ff ms) \<le> 10003" "header_size (header_types ff ms) \<le> 5 * length ms + 3"
    using n assms size(2) by simp_all
  then have "header_size (header_types ff ms) < 2 ^ 32" by simp
  then show "length (putVarint32 (of_nat (header_size (header_types ff ms))) @ header_bytes ff ms) = header_size (header_types ff ms)"
    using n assms size(1) by (simp add: length_putVarint32 length_header_bytes ucast_of_nat32)
qed

lemma make_record:
  assumes "OP_MakeRecord ff limit cells = Some (bytes, nz)" "\<forall>m \<in> set cells. mem_ok m" "length cells \<le> 2000"
  shows "bytes @ replicate nz 0 = record_bytes ff (map expand_blob cells)"
proof -
  let ?f = "map expand_blob cells"
  have ok: "\<forall>m \<in> set ?f. expanded m" using assms(2) expanded_ok(1) by auto
  have short: "length ?f \<le> 2000" using assms(3) by simp
  note hdr = header_length(1) [OF short, of ff]
  obtain pre where pre: "concat (map (full ff) ?f) = pre @ replicate (zero_tail ff 0 ?f) 0" using zero_tail_split [OF ok] by blast
  have total: "(\<Sum>m\<leftarrow>?f. type_len_of ff m) = length (concat (map (full ff) ?f))"
    using ok by (induction cells) (simp_all add: length_full expanded_def)
  have "bytes = (putVarint32 (of_nat (header_size (header_types ff ?f))) @ header_bytes ff ?f)
      @ put_fields ff ((\<Sum>m\<leftarrow>?f. type_len_of ff m) - zero_tail ff 0 ?f) ?f" "nz = zero_tail ff 0 ?f"
    using assms(1) unfolding OP_MakeRecord_def Let_def header_bytes_def [symmetric] hdr
    by (auto simp: total pre split: if_splits)
  then show ?thesis using record_data [OF ok, of ff] by (simp add: record_bytes_def data_bytes_def)
qed

section \<open>Columns are read back\<close>

fun columns :: "int \<Rightarrow> nat \<Rightarrow> Mem list \<Rightarrow> (u32 \<times> u32) list" where
  "columns ff q [] = []"
| "columns ff q (m # ms) = (sqlite3VdbeSerialType m ff, of_nat q) # columns ff (q + type_len_of ff m) ms"

lemma unat_of_nat32: "n < 2 ^ 32 \<Longrightarrow> unat (of_nat n :: u32) = n"
  by (simp add: unsigned_of_nat take_bit_nat_eq_self)

lemma length_data_bytes: "\<forall>m \<in> set ms. expanded m \<Longrightarrow> length (data_bytes ff ms) = (\<Sum>m\<leftarrow>ms. type_len_of ff m)"
  unfolding data_bytes_def by (induction ms) (simp_all add: length_full expanded_def)

lemma scan_past: "\<not> z < e \<Longrightarrow> scan_header data e n z off = Some (replicate n None, z, off)"
  by (induction n) simp_all

lemma scan_columns:
  assumes "drop z data = header_bytes ff ms @ r" "e = z + header_types ff ms" "q + (\<Sum>m\<leftarrow>ms. type_len_of ff m) < 2 ^ 32"
    and "length ms \<le> n"
  shows "scan_header data e n z (of_nat q)
    = Some (map Some (columns ff q ms) @ replicate (n - length ms) None, e, of_nat (q + (\<Sum>m\<leftarrow>ms. type_len_of ff m)))"
  using assms
proof (induction ms arbitrary: z q n)
  case Nil
  then show ?case by (simp add: scan_past header_types_def)
next
  case (Cons m ms)
  let ?t = "sqlite3VdbeSerialType m ff" and ?k = "sqlite3VarintLen (ucast (sqlite3VdbeSerialType m ff))"
  from Cons.prems(4) obtain n' where n: "n = Suc n'" "length ms \<le> n'" by (cases n) auto
  have k: "1 \<le> ?k" using varint_len_bounds by blast
  have types: "header_types ff (m # ms) = ?k + header_types ff ms" by (simp add: header_types_def)
  have get: "getVarint32 (drop z data) = Some (?t, ?k)"
    using Cons.prems(1) getVarint32_put [of ?t "header_bytes ff ms @ r"] by (simp add: header_bytes_def length_putVarint32)
  have next_off: "of_nat q + sqlite3VdbeSerialTypeLen ?t = of_nat (q + type_len_of ff m)" by (simp add: type_len_of_def)
  have "unat (of_nat (q + type_len_of ff m) :: u32) = q + type_len_of ff m"
    using Cons.prems(3) by (intro unat_of_nat32) simp
  then have no_wrap: "\<not> of_nat (q + type_len_of ff m) < sqlite3VdbeSerialTypeLen ?t"
    by (simp only: word_less_nat_alt) (simp add: type_len_of_def)
  have "drop (z + ?k) data = header_bytes ff ms @ r"
    using arg_cong [OF Cons.prems(1), of "drop ?k"] by (simp add: header_bytes_def length_putVarint32 add.commute)
  then have "scan_header data e n' (z + ?k) (of_nat (q + type_len_of ff m)) = Some (map Some (columns ff (q + type_len_of ff m) ms)
      @ replicate (n' - length ms) None, e, of_nat (q + type_len_of ff m + (\<Sum>m\<leftarrow>ms. type_len_of ff m)))"
    using Cons.prems(2,3) n(2) types by (intro Cons.IH) simp_all
  then show ?case
    using k Cons.prems(2) types get no_wrap by (simp add: n(1) next_off Let_def del: of_nat_add) (simp add: add.assoc)
qed

lemma columns_nth:
  "i < length ms \<Longrightarrow> columns ff q ms ! i = (sqlite3VdbeSerialType (ms ! i) ff, of_nat (q + (\<Sum>m\<leftarrow>take i ms. type_len_of ff m)))"
  by (induction ms arbitrary: i q) (auto simp: nth_Cons add.assoc split: nat.split)

lemma length_columns [simp]: "length (columns ff q ms) = length ms"
  by (induction ms arbitrary: q) simp_all

lemma data_at:
  "\<forall>m \<in> set ms. expanded m \<Longrightarrow> i < length ms \<Longrightarrow>
     \<exists>r. drop (\<Sum>m\<leftarrow>take i ms. type_len_of ff m) (data_bytes ff ms) = full ff (ms ! i) @ r"
proof (induction ms arbitrary: i)
  case (Cons m ms)
  then show ?case by (cases i) (auto simp: data_bytes_def length_full expanded_def)
qed simp

text \<open>The parts of a record that can be read: its header ends where its size says.\<close>

lemma record_parts:
  fixes ff :: int
  assumes "\<forall>m \<in> set ms. expanded m" "length ms \<le> 2000"
  defines "H \<equiv> header_size (header_types ff ms)"
  shows "getVarint32 (record_bytes ff ms) = Some (of_nat H, sqlite3VarintLen (of_nat H))"
    and "drop (sqlite3VarintLen (of_nat H)) (record_bytes ff ms) = header_bytes ff ms @ data_bytes ff ms"
    and "drop H (record_bytes ff ms) = data_bytes ff ms" "H = sqlite3VarintLen (of_nat H) + header_types ff ms"
    and "H \<le> 10003" "H \<le> 5 * length ms + 3" "1 \<le> H" "length (record_bytes ff ms) = H + (\<Sum>m\<leftarrow>ms. type_len_of ff m)"
proof -
  note hdr = header_length [OF assms(2), of ff, folded H_def]
  have small: "(ucast (of_nat H :: u32) :: u64) = of_nat H" using hdr(2) by (intro ucast_of_nat32) simp
  have bytes: "record_bytes ff ms = (putVarint32 (of_nat H) @ header_bytes ff ms) @ data_bytes ff ms"
    by (simp add: record_bytes_def H_def)
  show "getVarint32 (record_bytes ff ms) = Some (of_nat H, sqlite3VarintLen (of_nat H))"
    using getVarint32_put [of "of_nat H" "header_bytes ff ms @ data_bytes ff ms"] by (simp add: bytes length_putVarint32 small)
  show "drop (sqlite3VarintLen (of_nat H)) (record_bytes ff ms) = header_bytes ff ms @ data_bytes ff ms"
    by (simp add: bytes length_putVarint32 small)
  show "drop H (record_bytes ff ms) = data_bytes ff ms" using hdr(1) bytes by (metis append_eq_conv_conj)
  show H: "H = sqlite3VarintLen (of_nat H) + header_types ff ms" using hdr(1) by (simp add: length_putVarint32 length_header_bytes small)
  show "H \<le> 10003" "H \<le> 5 * length ms + 3" by (rule hdr)+
  show "1 \<le> H" using H varint_len_bounds [of "of_nat H"] by linarith
  show "length (record_bytes ff ms) = H + (\<Sum>m\<leftarrow>ms. type_len_of ff m)"
    unfolding bytes by (subst length_append) (simp only: hdr(1) length_data_bytes [OF assms(1)])
qed

lemma column_read:
  assumes ms: "\<forall>m \<in> set ms. expanded m" "length ms \<le> 2000" and n: "length ms \<le> nField" "i < nField"
    and limit: "length (record_bytes ff ms) \<le> limit" "limit \<le> 1000000000"
  shows "OP_Column nField i p4 limit (record_bytes ff ms) = Some (Column (if i < length ms then stored (ms ! i) else p4))"
proof -
  let ?H = "header_size (header_types ff ms)" and ?z = "record_bytes ff ms" and ?S = "\<Sum>m\<leftarrow>ms. type_len_of ff m"
  note parts = record_parts [OF ms, of ff]
  have H: "unat (of_nat ?H :: u32) = ?H" using parts(5) by (intro unat_of_nat32) simp
  have total: "?H + ?S < 2 ^ 32" using limit parts(8) by simp
  have end_off: "unat (of_nat (?H + ?S) :: u32) = ?H + ?S" by (rule unat_of_nat32 [OF total])
  have e: "min (nField * 5 + 3) ?H = ?H" using parts(6) n(1) by simp
  have scan: "scan_header ?z ?H nField (sqlite3VarintLen (of_nat ?H)) (of_nat ?H)
      = Some (map Some (columns ff ?H ms) @ replicate (nField - length ms) None, ?H, of_nat (?H + ?S))"
    by (rule scan_columns [OF parts(2,4) total n(1)])
  have not_big: "\<not> 98307 < (of_nat ?H :: u32)" using parts(5) by (simp only: word_less_nat_alt H) simp
  have "?z \<noteq> []" using parts(7,8) by auto
  then have col: "OP_Column nField i p4 limit ?z = (case (map Some (columns ff ?H ms) @ replicate (nField - length ms) None) ! i of
      Some (t, off) \<Rightarrow> map_option (\<lambda>(m, _). Column m) (sqlite3VdbeSerialGet (drop (unat off) ?z) t) | None \<Rightarrow> Some (Column p4))"
    using limit(1) not_big unfolding OP_Column_def parts(1) Let_def
    by (simp only: option.case prod.case H e scan end_off parts(8)) simp
  show ?thesis
  proof (cases "i < length ms")
    case True
    let ?d = "\<Sum>m\<leftarrow>take i ms. type_len_of ff m"
    have "?d \<le> ?S" using sum_list_append [of "map (type_len_of ff) (take i ms)" "map (type_len_of ff) (drop i ms)"]
      by (simp flip: map_append)
    then have off: "unat (of_nat (?H + ?d) :: u32) = ?H + ?d" using total by (intro unat_of_nat32) simp
    obtain r where r: "drop ?d (data_bytes ff ms) = full ff (ms ! i) @ r" using data_at [OF ms(1) True] by blast
    have "drop (?H + ?d) ?z = full ff (ms ! i) @ r" using r parts(3) by (metis add.commute drop_drop)
    moreover have "mem_ok (ms ! i)" using ms(1) True by (simp add: expanded_def)
    ultimately show ?thesis
      using col True get_put [of "ms ! i" "bytes_total (ms ! i)" ff r] by (simp only: columns_nth nth_append length_map nth_map length_columns option.case prod.case off if_True full_def) simp
  next
    case False
    then show ?thesis using col n by (simp add: nth_append)
  qed
qed

section \<open>Records as rows\<close>

text \<open>One turn of the loops: the next type and the next cell.\<close>

lemma next_cell:
  assumes "drop idx key = header_bytes ff (m # ms) @ r" "drop d key = data_bytes ff (m # ms)" "mem_ok m" "d \<le> length key"
  defines "t \<equiv> sqlite3VdbeSerialType m ff"
  defines "k \<equiv> sqlite3VarintLen (ucast t)"
  shows "getVarint32 (drop idx key) = Some (t, k)" "drop (idx + k) key = header_bytes ff ms @ r"
    and "sqlite3VdbeSerialGet (drop d key) t = Some (stored m, sqlite3VdbeSerialTypeLen t)"
    and "drop (d + unat (sqlite3VdbeSerialTypeLen t)) key = data_bytes ff ms" "d + unat (sqlite3VdbeSerialTypeLen t) \<le> length key"
    and "header_types ff (m # ms) = k + header_types ff ms" "1 \<le> k" "sqlite3VdbeSerialTypeLen t \<noteq> 0 \<Longrightarrow> d < length key"
proof -
  show "getVarint32 (drop idx key) = Some (t, k)"
    using assms(1) getVarint32_put [of t "header_bytes ff ms @ r"] by (simp add: header_bytes_def length_putVarint32 t_def k_def)
  show "drop (idx + k) key = header_bytes ff ms @ r"
    using arg_cong [OF assms(1), of "drop k"] by (simp add: header_bytes_def length_putVarint32 t_def k_def add.commute)
  have data: "drop d key = full ff m @ data_bytes ff ms" using assms(2) by (simp add: data_bytes_def)
  then show "sqlite3VdbeSerialGet (drop d key) t = Some (stored m, sqlite3VdbeSerialTypeLen t)"
    using get_put [OF assms(3) order.refl, of ff "data_bytes ff ms"] by (simp add: full_def t_def)
  have len: "length (full ff m) = unat (sqlite3VdbeSerialTypeLen t)" using length_full [OF assms(3), of ff] by (simp add: type_len_of_def t_def)
  show "drop (d + unat (sqlite3VdbeSerialTypeLen t)) key = data_bytes ff ms"
    using arg_cong [OF data, of "drop (unat (sqlite3VdbeSerialTypeLen t))"] by (simp add: len add.commute)
  have "length key = d + (unat (sqlite3VdbeSerialTypeLen t) + length (data_bytes ff ms))"
    using arg_cong [OF data, of length] assms(4) by (simp add: len)
  then show "d + unat (sqlite3VdbeSerialTypeLen t) \<le> length key" "sqlite3VdbeSerialTypeLen t \<noteq> 0 \<Longrightarrow> d < length key"
    by (simp_all add: unat_gt_0 [symmetric])
  show "header_types ff (m # ms) = k + header_types ff ms" by (simp add: header_types_def t_def k_def)
  show "1 \<le> k" unfolding k_def using varint_len_bounds by blast
qed

lemma unpack_cells:
  "drop idx key = header_bytes ff ms @ r \<Longrightarrow> drop d key = data_bytes ff ms \<Longrightarrow> \<forall>m \<in> set ms. expanded m \<Longrightarrow> d \<le> length key \<Longrightarrow>
     unpack_loop key (idx + header_types ff ms) n idx d = Some (take n (map stored ms))"
proof (induction ms arbitrary: idx d n)
  case Nil
  then show ?case by (cases n) (simp_all add: header_types_def)
next
  case (Cons m ms)
  have "mem_ok m" using Cons.prems(3) by (simp add: expanded_def)
  note cell = next_cell [OF Cons.prems(1,2) this Cons.prems(4)]
  show ?case
  proof (cases n)
    case (Suc n')
    note ih = Cons.IH [OF cell(2,4) _ cell(5), of n']
    show ?thesis using ih Cons.prems(3,4) cell(7) by (simp add: Suc cell(1,3,6) add.assoc)
  qed simp
qed

text \<open>The comparison of a row, cell by cell.\<close>

fun compare_rows :: "real_api \<Rightarrow> KeyInfo \<Rightarrow> nat \<Rightarrow> Mem list \<Rightarrow> Mem list \<Rightarrow> compare_end" where
  "compare_rows D K i [] us = Same False"
| "compare_rows D K i (m # ms) [] = Same True"
| "compare_rows D K i (m # ms) (u # us) =
     (if compare_cell D K i m u \<noteq> 0 then Differ (compare_cell D K i m u) i m else compare_rows D K (Suc i) ms us)"

lemma compare_cells:
  "drop idx key = header_bytes ff ms @ r \<Longrightarrow> drop d key = data_bytes ff ms \<Longrightarrow> \<forall>m \<in> set ms. expanded m \<Longrightarrow> d \<le> length key \<Longrightarrow>
     compare_loop D K key (idx + header_types ff ms) idx d i us = Some (compare_rows D K i (map stored ms) us)"
proof (induction ms arbitrary: idx d i us)
  case Nil
  then show ?case by (cases us) (simp_all add: header_types_def)
next
  case (Cons m ms)
  have "mem_ok m" using Cons.prems(3) by (simp add: expanded_def)
  note cell = next_cell [OF Cons.prems(1,2) this Cons.prems(4)]
  show ?case
  proof (cases us)
    case (Cons u us')
    note ih = Cons.IH [OF cell(2,4) _ cell(5), of "Suc i" us']
    have no_break: "\<not> (length key \<le> d \<and> sqlite3VdbeSerialTypeLen (sqlite3VdbeSerialType m ff) \<noteq> 0)"
      using cell(8) by (auto simp: not_le)
    have more: "idx < idx + header_types ff (m # ms)" using cell(6,7) by simp
    have "compare_loop D K key (idx + header_types ff (m # ms)) idx d i (u # us') =
        (if compare_cell D K i (stored m) u \<noteq> 0 then Some (Differ (compare_cell D K i (stored m) u) i (stored m))
         else Some (compare_rows D K (Suc i) (map stored ms) us'))"
      using ih Cons.prems(3) cell(7)
      by (simp only: compare_loop.simps more if_True cell(1,3) option.case prod.case if_not_P [OF no_break] cell(6) add.assoc) simp
    then show ?thesis by (simp add: Cons)
  qed (use cell(6,7) in simp)
qed

section \<open>The record format\<close>

lemma stored_expanded: "map stored (map expand_blob cells) = map stored cells"
  by (simp add: expanded_ok(2))

lemma unpack_record:
  assumes "\<forall>m \<in> set ms. expanded m" "length ms \<le> 2000"
  shows "sqlite3VdbeRecordUnpack n (record_bytes ff ms) = Some (take n (map stored ms))"
proof -
  note parts = record_parts [OF assms, of ff]
  let ?H = "header_size (header_types ff ms)"
  have H: "unat (of_nat ?H :: u32) = ?H" using parts(5) by (intro unat_of_nat32) simp
  have "?H \<le> length (record_bytes ff ms)" using parts(8) by simp
  from unpack_cells [OF parts(2,3) assms(1) this, of n] show ?thesis
    using parts(5) unfolding sqlite3VdbeRecordUnpack_def parts(1) option.case prod.case H parts(4) [symmetric] by simp
qed

lemma compare_record:
  assumes "\<forall>m \<in> set ms. expanded m" "length ms \<le> 2000"
  shows "sqlite3VdbeRecordCompare D K (record_bytes ff ms) p
    = Some (compare_result p (compare_rows D K 0 (map stored ms) (up_aMem p)))"
proof -
  note parts = record_parts [OF assms, of ff]
  let ?H = "header_size (header_types ff ms)"
  have H: "unat (of_nat ?H :: u32) = ?H" using parts(5) by (intro unat_of_nat32) simp
  have "?H \<le> length (record_bytes ff ms)" using parts(8) by simp
  from compare_cells [OF parts(2,3) assms(1) this, of D K 0 "up_aMem p"] show ?thesis
    using parts(5) unfolding sqlite3VdbeRecordCompare_def parts(1) option.case prod.case H parts(4) [symmetric] by simp
qed

lemma row_read:
  assumes "OP_MakeRecord ff limit cells = Some (bytes, nz)" "\<forall>m \<in> set cells. mem_ok m" "length cells \<le> 2000"
    and "length cells \<le> nField" "i < nField" "length bytes + nz \<le> limit" "limit \<le> 1000000000"
  shows "OP_Column nField i p4 limit (bytes @ replicate nz 0) = Some (Column (if i < length cells then stored (cells ! i) else p4))"
proof -
  let ?ms = "map expand_blob cells"
  have bytes: "bytes @ replicate nz 0 = record_bytes ff ?ms" by (rule make_record [OF assms(1-3)])
  have ok: "\<forall>m \<in> set ?ms. expanded m" and short: "length ?ms \<le> 2000" using assms(2,3) expanded_ok(1) by auto
  have "length (record_bytes ff ?ms) \<le> limit" using assms(6) by (simp flip: bytes)
  then have "OP_Column nField i p4 limit (record_bytes ff ?ms) = Some (Column (if i < length ?ms then stored (?ms ! i) else p4))"
    using assms(4,5,7) by (intro column_read [OF ok short]) simp_all
  then show ?thesis by (simp add: bytes expanded_ok(2) del: map_map)
qed

text \<open>
  C34. A row that \<open>OP_MakeRecord\<close> writes is read back: \<open>OP_Column\<close> gives each of its cells, and the default
  for a column added to the table after the row was written; \<open>sqlite3VdbeRecordUnpack\<close> gives all of them, as
  many as it has space for. Nothing of a number is lost at any width, a NaN is read as NULL, and the zero bytes
  that a blob only counts are there.
\<close>

theorem row_roundtrip:
  assumes "OP_MakeRecord ff limit cells = Some (bytes, nz)" "\<forall>m \<in> set cells. mem_ok m" "length cells \<le> 2000"
    and "length cells \<le> nField" "i < nField" "length bytes + nz \<le> limit" "limit \<le> 1000000000"
  shows "OP_Column nField i p4 limit (bytes @ replicate nz 0) = Some (Column (if i < length cells then stored (cells ! i) else p4))
    \<and> sqlite3VdbeRecordUnpack n (bytes @ replicate nz 0) = Some (take n (map stored cells))"
proof -
  have "\<forall>m \<in> set (map expand_blob cells). expanded m" using assms(2) expanded_ok(1) by auto
  from unpack_record [OF this, of n ff] show ?thesis
    using assms(3) row_read [OF assms, of p4] by (simp add: make_record [OF assms(1-3)] stored_expanded del: map_map)
qed

theorem row_roundtrip_witness:
  "OP_Column 3 1 MEM_Null 100 [3, 1, 15, 5, 0x61] = Some (Column (MEM_Str [0x61]))
   \<and> sqlite3VdbeRecordUnpack 3 [3, 1, 15, 5, 0x61] = Some [MEM_Int 5, MEM_Str [0x61]]"
proof -
  have "OP_MakeRecord 4 100 [MEM_Int 5, MEM_Str [0x61]] = Some ([3, 1, 15, 5, 0x61], 0)" by code_simp
  then show ?thesis
    using row_roundtrip [of 4 100 "[MEM_Int 5, MEM_Str [0x61]]" "[3, 1, 15, 5, 0x61]" 0 3 1 MEM_Null 3]
    by (simp add: mem_ok_def)
qed

text \<open>
  C38. Comparing the bytes of a record with cells compares the row it was written from with them: cell by cell up
  to the first that differs, in the order and collation of its column, without unpacking the record.
\<close>

theorem record_compare_rows:
  assumes "OP_MakeRecord ff limit cells = Some (bytes, nz)" "\<forall>m \<in> set cells. mem_ok m" "length cells \<le> 2000"
  shows "sqlite3VdbeRecordCompare D K (bytes @ replicate nz 0) p
    = Some (compare_result p (compare_rows D K 0 (map stored cells) (up_aMem p)))"
proof -
  have "\<forall>m \<in> set (map expand_blob cells). expanded m" using assms(2) expanded_ok(1) by auto
  from compare_record [OF this, of D K ff p] show ?thesis
    using assms(3) by (simp add: make_record [OF assms] stored_expanded del: map_map)
qed

definition plain_key :: "Mem list \<Rightarrow> UnpackedRecord" where
  "plain_key ms = \<lparr>up_aMem = ms, up_INCRKEY = False, up_PREFIX_MATCH = False, up_PREFIX_SEARCH = False, up_rowid = 0\<rparr>"

definition machine_reals :: real_api where
  "machine_reals = \<lparr>r_less = (<), r_of_int = (\<lambda>i. i)\<rparr>"

definition two_columns :: KeyInfo where
  "two_columns = \<lparr>ki_nField = 2, ki_aColl = [None, None], ki_aSortOrder = [False, True]\<rparr>"

theorem record_compare_rows_witness:
  "sqlite3VdbeRecordCompare machine_reals two_columns [3, 1, 15, 5, 0x61] (plain_key [MEM_Int 5, MEM_Str [0x62]])
   = Some (1, plain_key [MEM_Int 5, MEM_Str [0x62]])"
proof -
  have "OP_MakeRecord 4 100 [MEM_Int 5, MEM_Str [0x61]] = Some ([3, 1, 15, 5, 0x61], 0)" by code_simp
  from record_compare_rows [OF this, of machine_reals two_columns "plain_key [MEM_Int 5, MEM_Str [0x62]]"] show ?thesis
    by (simp add: mem_ok_def plain_key_def two_columns_def compare_cell_def sqlite3MemCompare_def blob_compare_def compare_result_def Let_def
        word_sless_alt)
qed

text \<open>A left key that ends first is equal to the longer right key, not less than it.\<close>

lemma compare_rows_prefix: "\<forall>m \<in> set ms. \<forall>j. compare_cell D K j m m = 0 \<Longrightarrow> compare_rows D K i ms (ms @ us) = Same False"
  by (induction ms arbitrary: i) simp_all

theorem shorter_left_key_is_equal:
  assumes "OP_MakeRecord ff limit cells = Some (bytes, nz)" "\<forall>m \<in> set cells. mem_ok m" "length cells \<le> 2000"
    and "up_aMem p = map stored cells @ us" "\<not> up_INCRKEY p" "\<forall>m \<in> set (map stored cells). \<forall>j. compare_cell D K j m m = 0"
  shows "sqlite3VdbeRecordCompare D K (bytes @ replicate nz 0) p = Some (0, p)"
proof -
  have "\<forall>m \<in> set (map expand_blob cells). expanded m" using assms(2) expanded_ok(1) by auto
  from compare_record [OF this, of D K ff p] show ?thesis
    using assms(3,4,5) compare_rows_prefix [OF assms(6), of 0 us]
    by (simp add: make_record [OF assms(1-3)] stored_expanded compare_result_def del: map_map)
qed

end
