(* ===== verification/Payload.thy ===== *)
theory Payload
  imports Varint "HOL-Library.Monad_Syntax"
begin

text \<open>
  The cells of the B-tree pages of \<open>db/sqlite/sqlite3.c\<close>, in which the rows of the accounts are kept: how much of
  a payload stays on the page, how a cell is written with the rest of it on a chain of overflow pages, how it
  is parsed and measured, and how any part of the payload is read back. The database has no auto-vacuum (the
  default) and the cursor is not one of an incremental blob. Memory is a set of buffers: the scratch buffer of a
  new cell, and the pages of the pager; reading or writing outside a buffer is None. What each call of
  \<open>allocateBtreePage\<close> returns is an argument.
\<close>

unbundle bit_operations_syntax

type_synonym u16 = "16 word"

section \<open>Pages and their limits\<close>

record BtShared =
  usableSize :: u32
  bt_max1bytePayload :: u8
  bt_maxLocal :: u16
  bt_minLocal :: u16
  bt_maxLeaf :: u16
  bt_minLeaf :: u16

record MemPage =
  intKey :: bool
  leaf :: u8
  hasData :: bool
  childPtrSize :: u8
  max1bytePayload :: u8
  maxLocal :: u16
  minLocal :: u16
  pBt :: BtShared

text \<open>The limits that \<open>lockBtree\<close> derives from the usable size of a page.\<close>

definition lockBtree_limits :: "u32 \<Rightarrow> BtShared" where
  "lockBtree_limits usable =
     (let most = ucast ((usable - 12) * 64 div 255 - 23) :: u16; least = ucast ((usable - 12) * 32 div 255 - 23) :: u16
      in \<lparr>usableSize = usable,
          bt_max1bytePayload = (if 127 < most then 127 else ucast most),
          bt_maxLocal = most, bt_minLocal = least,
          bt_maxLeaf = ucast (usable - 35), bt_minLeaf = least\<rparr>)"

definition PTF_INTKEY :: u8 where "PTF_INTKEY = 0x01"
definition PTF_ZERODATA :: u8 where "PTF_ZERODATA = 0x02"
definition PTF_LEAFDATA :: u8 where "PTF_LEAFDATA = 0x04"
definition PTF_LEAF :: u8 where "PTF_LEAF = 0x08"

text \<open>The page of a flags byte; None is a corrupt one.\<close>

definition decodeFlags :: "BtShared \<Rightarrow> u8 \<Rightarrow> MemPage option" where
  "decodeFlags bt flagByte =
     (let leaf = drop_bit 3 flagByte; flagByte = flagByte AND NOT PTF_LEAF; child = 4 - 4 * leaf
      in if flagByte = PTF_LEAFDATA OR PTF_INTKEY then
           Some \<lparr>intKey = True, leaf = leaf, hasData = leaf \<noteq> 0, childPtrSize = child,
                 max1bytePayload = bt_max1bytePayload bt, maxLocal = bt_maxLeaf bt, minLocal = bt_minLeaf bt, pBt = bt\<rparr>
         else if flagByte = PTF_ZERODATA then
           Some \<lparr>intKey = False, leaf = leaf, hasData = False, childPtrSize = child,
                 max1bytePayload = bt_max1bytePayload bt, maxLocal = bt_maxLocal bt, minLocal = bt_minLocal bt, pBt = bt\<rparr>
         else None)"

section \<open>Parsing and measuring a cell\<close>

record CellInfo =
  ci_nKey :: u64
  ci_nData :: u32
  ci_nPayload :: u32
  ci_nHeader :: u16
  ci_nLocal :: u16
  ci_iOverflow :: u16
  ci_nSize :: u16

text \<open>The header: key, data and payload sizes, and its length.\<close>

definition parse_header :: "MemPage \<Rightarrow> u8 list \<Rightarrow> (u64 \<times> u32 \<times> u32 \<times> nat) option" where
  "parse_header p pCell =
     (let n = unat (childPtrSize p)
      in if intKey p then do {
           (len, k) \<leftarrow> (if hasData p then getVarint32 (drop n pCell) else Some (0, 0));
           (key, k') \<leftarrow> sqlite3GetVarint (drop (n + k) pCell);
           Some (key, len, len, n + k + k') }
         else do {
           (len, k) \<leftarrow> getVarint32 (drop n pCell);
           Some (ucast len, 0, len, n + k) })"

text \<open>How much of the payload is kept locally, where the overflow page number is, and the size of the cell.\<close>

definition local_part :: "MemPage \<Rightarrow> nat \<Rightarrow> u32 \<Rightarrow> u16 \<times> u16 \<times> u16" where
  "local_part p n len =
     (if len \<le> ucast (maxLocal p) then
        (let s = ucast (of_nat n + len) :: u16 in (ucast len, 0, if s < 4 then 4 else s))
      else
        (let least = ucast (minLocal p) :: u32;
             surplus = least + (len - least) mod (usableSize (pBt p) - 4);
             part = (if sint surplus \<le> sint (ucast (maxLocal p) :: u32) then ucast surplus else ucast least) :: u16;
             ovfl = part + of_nat n
         in (part, ovfl, ovfl + 4)))"

definition btreeParseCellPtr :: "MemPage \<Rightarrow> u8 list \<Rightarrow> CellInfo option" where
  "btreeParseCellPtr p pCell = do {
     (key, dat, len, n) \<leftarrow> parse_header p pCell;
     let (loc, ovfl, size) = local_part p n len;
     Some \<lparr>ci_nKey = key, ci_nData = dat, ci_nPayload = len, ci_nHeader = of_nat n, ci_nLocal = loc, ci_iOverflow = ovfl,
           ci_nSize = size\<rparr> }"

text \<open>\<open>cellSizePtr\<close> skips the key instead of decoding it: at most \<open>k\<close> bytes.\<close>

fun skip_key :: "nat \<Rightarrow> u8 list \<Rightarrow> nat option" where
  "skip_key k [] = None"
| "skip_key k (b # bs) = (if b AND 0x80 \<noteq> 0 \<and> 1 < k then map_option Suc (skip_key (k - 1) bs) else Some 1)"

definition cell_size :: "MemPage \<Rightarrow> nat \<Rightarrow> u32 \<Rightarrow> u16" where
  "cell_size p pIter len =
     (let most = ucast (maxLocal p) :: u32;
          least = ucast (minLocal p) :: u32;
          len = (if most < len
                 then (let s = least + (len - least) mod (usableSize (pBt p) - 4)
                       in (if most < s then least else s) + 4)
                 else len);
          len = len + of_nat pIter
      in ucast (if len < 4 then 4 else len))"

definition cellSizePtr :: "MemPage \<Rightarrow> u8 list \<Rightarrow> u16 option" where
  "cellSizePtr p pCell =
     (let pIter = unat (childPtrSize p)
      in do {
        (size, pIter) \<leftarrow>
          (if intKey p then do {
             (size, k) \<leftarrow> (if hasData p then getVarint32 (drop pIter pCell) else Some (0, 0));
             k' \<leftarrow> skip_key 9 (drop (pIter + k) pCell);
             Some (size, pIter + k + k') }
           else do {
             (size, k) \<leftarrow> getVarint32 (drop pIter pCell);
             Some (size, pIter + k) });
        Some (cell_size p pIter size) })"

section \<open>Memory\<close>

datatype buf = Cell | Page u32

type_synonym mem = "buf \<Rightarrow> u8 list option"

definition peek :: "mem \<Rightarrow> buf \<times> nat \<Rightarrow> nat \<Rightarrow> u8 list option" where
  "peek m a n =
     (case m (fst a) of None \<Rightarrow> None | Some d \<Rightarrow> if snd a + n \<le> length d then Some (take n (drop (snd a) d)) else None)"

definition poke :: "mem \<Rightarrow> buf \<times> nat \<Rightarrow> u8 list \<Rightarrow> mem option" where
  "poke m a bs =
     (case m (fst a) of
        None \<Rightarrow> None
      | Some d \<Rightarrow> if snd a + length bs \<le> length d
                  then Some (m(fst a \<mapsto> take (snd a) d @ bs @ drop (snd a + length bs) d)) else None)"

fun sqlite3Get4byte :: "u8 list \<Rightarrow> u32" where
  "sqlite3Get4byte (a # b # c # d # _) =
     push_bit 24 (ucast a) OR push_bit 16 (ucast b) OR push_bit 8 (ucast c) OR ucast d"
| "sqlite3Get4byte _ = 0"

definition sqlite3Put4byte :: "u32 \<Rightarrow> u8 list" where
  "sqlite3Put4byte v = [ucast (drop_bit 24 v), ucast (drop_bit 16 v), ucast (drop_bit 8 v), ucast v]"

section \<open>Writing a cell\<close>

text \<open>The variables of the loop of \<open>fillInCell\<close>; the memory and what is left of the allocator's answers among them.\<close>

record fill =
  f_mem :: mem
  f_nPayload :: nat
  f_pSrc :: "u8 list"
  f_nSrc :: int
  f_spaceLeft :: nat
  f_pPayload :: "buf \<times> nat"
  f_pPrior :: "buf \<times> nat"
  f_allocs :: "(u32 \<times> u8 list) option list"

text \<open>A new overflow page is linked behind the prior one; \<open>Inl\<close> is a failed allocation.\<close>

definition next_overflow :: "nat \<Rightarrow> fill \<Rightarrow> (mem + fill) option" where
  "next_overflow usable s =
     (case f_allocs s of
        [] \<Rightarrow> None
      | None # _ \<Rightarrow> Some (Inl (f_mem s))
      | Some (pgnoOvfl, aData) # rest \<Rightarrow> do {
          m \<leftarrow> poke ((f_mem s)(Page pgnoOvfl \<mapsto> aData)) (f_pPrior s) (sqlite3Put4byte pgnoOvfl);
          m \<leftarrow> poke m (Page pgnoOvfl, 0) (sqlite3Put4byte 0);
          Some (Inr (s\<lparr>f_mem := m, f_spaceLeft := usable - 4, f_pPayload := (Page pgnoOvfl, 4),
                       f_pPrior := (Page pgnoOvfl, 0), f_allocs := rest\<rparr>)) })"

text \<open>One copy: from the source while it lasts, else zeros; then on to the data.\<close>

definition copy_payload :: "u8 list \<Rightarrow> int \<Rightarrow> fill \<Rightarrow> fill option" where
  "copy_payload pData nData s =
     (let n = min (f_nPayload s) (f_spaceLeft s);
          n = (if 0 < f_nSrc s \<and> f_nSrc s < int n then nat (f_nSrc s) else n);
          bytes = (if 0 < f_nSrc s then take n (f_pSrc s) else replicate n 0);
          nSrc = f_nSrc s - int n;
          (pSrc, nSrc) = (if nSrc = 0 then (pData, nData) else (drop n (f_pSrc s), nSrc))
      in if length bytes < n then None
         else map_option
           (\<lambda>m. s\<lparr>f_mem := m, f_nPayload := f_nPayload s - n, f_pSrc := pSrc, f_nSrc := nSrc,
                   f_spaceLeft := f_spaceLeft s - n, f_pPayload := (fst (f_pPayload s), snd (f_pPayload s) + n)\<rparr>)
           (poke (f_mem s) (f_pPayload s) bytes))"

fun fill_payload :: "nat \<Rightarrow> nat \<Rightarrow> u8 list \<Rightarrow> int \<Rightarrow> fill \<Rightarrow> (mem + mem) option" where
  "fill_payload fuel usable pData nData s =
     (if f_nPayload s = 0 then Some (Inr (f_mem s))
      else case fuel of
        0 \<Rightarrow> None
      | Suc k \<Rightarrow>
          (case (if f_spaceLeft s = 0 then next_overflow usable s else Some (Inr s)) of
             None \<Rightarrow> None
           | Some (Inl m) \<Rightarrow> Some (Inl m)
           | Some (Inr s) \<Rightarrow>
               (case copy_payload pData nData s of None \<Rightarrow> None | Some s \<Rightarrow> fill_payload k usable pData nData s)))"

declare fill_payload.simps [simp del]

datatype fill_result = Filled mem u16 | Fill_failed mem | Fill_corrupt mem

definition fillInCell ::
  "MemPage \<Rightarrow> mem \<Rightarrow> (u32 \<times> u8 list) option list \<Rightarrow> u8 list option \<Rightarrow> u64 \<Rightarrow> u8 list \<Rightarrow> nat \<Rightarrow> nat \<Rightarrow> fill_result option" where
  "fillInCell p m allocs pKey key pData len nZero =
     (let hd0 = (if leaf p = 0 then 4 else 0);
          size = (if hasData p then sqlite3PutVarint (of_nat (len + nZero)) else []);
          (len, nZero) = (if hasData p then (len, nZero) else (0, 0));
          hd1 = hd0 + length size;
          hd2 = hd1 + length (sqlite3PutVarint key)
      in do {
        m \<leftarrow> poke m (Cell, hd0) size;
        m \<leftarrow> poke m (Cell, hd1) (sqlite3PutVarint key);
        c \<leftarrow> m Cell;
        info \<leftarrow> btreeParseCellPtr p c;
        (if \<not> intKey p \<and> (0x7fffffff < sint key \<or> pKey = None) then Some (Fill_corrupt m)
        else do {
          let nK = sint (ucast key :: u32);
          let (nPay, pSrc, nSrc, len) =
            (if intKey p then (len + nZero, pData, int len, 0)
             else (nat (int (len + nZero) + nK), (case pKey of Some k \<Rightarrow> k | None \<Rightarrow> []), nK, len));
          let s = \<lparr>f_mem = m, f_nPayload = nPay, f_pSrc = pSrc, f_nSrc = nSrc, f_spaceLeft = unat (ci_nLocal info),
                   f_pPayload = (Cell, hd2), f_pPrior = (Cell, unat (ci_iOverflow info)), f_allocs = allocs\<rparr>;
          r \<leftarrow> fill_payload nPay (unat (usableSize (pBt p))) pData (int len) s;
          Some (case r of Inl m \<Rightarrow> Fill_failed m | Inr m \<Rightarrow> Filled m (ci_nSize info)) }) })"

section \<open>Reading a payload\<close>

datatype payload_result = Payload "u8 list" | Payload_failed | Payload_corrupt

text \<open>The next page of a chain; \<open>Inl\<close> is a page that the pager cannot get.\<close>

definition getOverflowPage :: "mem \<Rightarrow> u32 \<Rightarrow> (unit + u32) option" where
  "getOverflowPage m ovfl =
     (if m (Page ovfl) = None then Some (Inl ())
      else map_option (\<lambda>h. Inr (sqlite3Get4byte h)) (peek m (Page ovfl, 0) 4))"

fun read_overflow :: "nat \<Rightarrow> nat \<Rightarrow> mem \<Rightarrow> nat \<Rightarrow> nat \<Rightarrow> u32 \<Rightarrow> u8 list \<Rightarrow> payload_result option" where
  "read_overflow fuel ovflSize m offset amt nextPage pBuf =
     (if amt = 0 then Some (Payload pBuf)
      else if nextPage = 0 then Some Payload_corrupt
      else case fuel of
        0 \<Rightarrow> None
      | Suc k \<Rightarrow>
          if ovflSize \<le> offset then
            (case getOverflowPage m nextPage of
               None \<Rightarrow> None
             | Some (Inl _) \<Rightarrow> Some Payload_failed
             | Some (Inr n) \<Rightarrow> read_overflow k ovflSize m (offset - ovflSize) amt n pBuf)
          else if m (Page nextPage) = None then Some Payload_failed
          else
            (let a = (if ovflSize < (amt + offset) mod 2 ^ 32 then ovflSize - offset else amt)
             in do {
               h \<leftarrow> peek m (Page nextPage, 0) 4;
               bs \<leftarrow> peek m (Page nextPage, offset + 4) a;
               read_overflow k ovflSize m 0 (amt - a) (sqlite3Get4byte h) (pBuf @ bs) }))"

declare read_overflow.simps [simp del]

text \<open>Reading with \<open>accessPayload\<close>: the cell is at \<open>c\<close> on the page \<open>pg\<close>.\<close>

definition accessPayload :: "mem \<Rightarrow> MemPage \<Rightarrow> u32 \<Rightarrow> nat \<Rightarrow> u32 \<Rightarrow> u32 \<Rightarrow> payload_result option" where
  "accessPayload m p pg c offset amt = do {
     aData \<leftarrow> m (Page pg);
     info \<leftarrow> btreeParseCellPtr p (drop c aData);
     let aPayload = c + unat (ci_nHeader info);
     let loc = unat (ci_nLocal info);
     let key = (if intKey p then 0 else ucast (ci_nKey info) :: u32);
     let usable = unat (usableSize (pBt p));
     (if key + ci_nData info < offset + amt \<or> usable < aPayload + loc then Some Payload_corrupt
     else do {
       let off = unat offset;
       let todo = unat amt;
       let a = (if off < loc then (if loc < unat (amt + offset) then loc - off else todo) else 0);
       bs \<leftarrow> (if off < loc then peek m (Page pg, aPayload + off) a else Some []);
       let rest = todo - a;
       if rest = 0 then Some (Payload bs)
       else do {
         h \<leftarrow> peek m (Page pg, aPayload + loc) 4;
         let skip = (if off < loc then 0 else off - loc);
         read_overflow (skip + rest) (usable - 4) m skip rest (sqlite3Get4byte h) bs } }) }"

section \<open>The limits\<close>

lemma unat_sub_small: "k \<le> unat a \<Longrightarrow> k < 2 ^ 32 \<Longrightarrow> unat (a - of_nat k :: u32) = unat a - k"
  by (subst unat_sub) (auto simp: word_le_nat_alt unat_of_nat take_bit_nat_eq_self)

lemma share_unat:
  assumes "480 \<le> unat u" "unat u \<le> 65536" "k \<le> 64" "32 \<le> k"
  shows "unat ((u - 12) * of_nat k div 255 - 23 :: u32) = (unat u - 12) * k div 255 - 23"
    "(unat u - 12) * k div 255 - 23 \<le> unat u - 35"
proof -
  have u: "unat (u - 12) = unat u - 12" using unat_sub_small [of 12 u] assms by simp
  have "(unat u - 12) * k \<le> 65524 * 64" using assms by (intro mult_le_mono) auto
  then have m: "unat ((u - 12) * of_nat k :: u32) = (unat u - 12) * k"
    using assms u by (simp add: unat_mult_lem [THEN iffD1] unat_word_ariths(2) unat_of_nat take_bit_nat_eq_self)
  have lo: "23 \<le> (unat u - 12) * k div 255"
  proof -
    have "468 * 32 \<le> (unat u - 12) * k" using assms by (intro mult_le_mono) auto
    then have "468 * 32 div 255 \<le> (unat u - 12) * k div 255" by (rule div_le_mono)
    then show ?thesis by simp
  qed
  have d: "unat ((u - 12) * of_nat k div 255 :: u32) = (unat u - 12) * k div 255"
    by (simp add: unat_div m)
  show "unat ((u - 12) * of_nat k div 255 - 23 :: u32) = (unat u - 12) * k div 255 - 23"
    using unat_sub_small [of 23 "(u - 12) * of_nat k div 255"] lo d by simp
  have "(unat u - 12) * k div 255 \<le> (unat u - 12) * 64 div 255" using assms by (intro div_le_mono mult_le_mono) auto
  also have "\<dots> \<le> unat u - 12" by simp
  finally show "(unat u - 12) * k div 255 - 23 \<le> unat u - 35" using assms by linarith
qed

lemma limits:
  assumes "480 \<le> unat u" "unat u \<le> 65536"
  shows "unat (bt_maxLocal (lockBtree_limits u)) = (unat u - 12) * 64 div 255 - 23"
    "unat (bt_minLocal (lockBtree_limits u)) = (unat u - 12) * 32 div 255 - 23"
    "unat (bt_minLeaf (lockBtree_limits u)) = (unat u - 12) * 32 div 255 - 23"
    "unat (bt_maxLeaf (lockBtree_limits u)) = unat u - 35"
    "usableSize (lockBtree_limits u) = u"
proof -
  have e: "unat (u - 35) = unat u - 35" using unat_sub_small [of 35 u] assms by simp
  have "unat u - 35 < 65536" using assms by linarith
  then have fits: "unat (ucast x :: u16) = n" if "unat x = n" "n \<le> unat u - 35" for x :: u32 and n
    using that by (simp add: unsigned_ucast_eq take_bit_nat_eq_self)
  note d = share_unat [OF assms, of 64] share_unat [OF assms, of 32]
  show "unat (bt_maxLocal (lockBtree_limits u)) = (unat u - 12) * 64 div 255 - 23"
    using fits [OF d(1,2)] by (simp add: lockBtree_limits_def Let_def)
  show "unat (bt_minLocal (lockBtree_limits u)) = (unat u - 12) * 32 div 255 - 23"
    "unat (bt_minLeaf (lockBtree_limits u)) = (unat u - 12) * 32 div 255 - 23"
    using fits [OF d(3,4)] by (simp_all add: lockBtree_limits_def Let_def)
  show "unat (bt_maxLeaf (lockBtree_limits u)) = unat u - 35" "usableSize (lockBtree_limits u) = u"
    using fits [OF e order_refl] by (simp_all add: lockBtree_limits_def Let_def)
qed

lemma flags_cases:
  assumes "f AND NOT (8 :: u8) = x" "x = 5 \<or> x = 2"
  shows "f = x \<or> f = x OR 8"
proof -
  have "f = (f AND NOT 8) OR (f AND 8)" by (rule bit_word_eqI) (auto simp: bit_simps)
  moreover have "f AND 8 = (if bit f 3 then 8 else 0)"
    by (rule word8_eqI) (simp add: upt8 upt_rec bit_simps bit_numeral_rec numeral_3_eq_3)
  ultimately show ?thesis using assms by (auto split: if_splits)
qed

lemma decode_cases:
  assumes "decodeFlags bt f = Some p"
  shows "pBt p = bt" "unat (childPtrSize p) = (if leaf p = 0 then 4 else 0)"
    "intKey p \<and> hasData p = (leaf p \<noteq> 0) \<and> maxLocal p = bt_maxLeaf bt \<and> minLocal p = bt_minLeaf bt
     \<or> \<not> intKey p \<and> \<not> hasData p \<and> maxLocal p = bt_maxLocal bt \<and> minLocal p = bt_minLocal bt"
proof -
  note flags = PTF_LEAF_def PTF_LEAFDATA_def PTF_INTKEY_def PTF_ZERODATA_def
  have "f = 5 \<or> f = 13 \<or> f = 2 \<or> f = 10"
    using assms(1) flags_cases [of f 5] flags_cases [of f 2]
    by (auto simp: decodeFlags_def Let_def flags split: if_splits)
  then show "unat (childPtrSize p) = (if leaf p = 0 then 4 else 0)"
    using assms by (elim disjE) (simp_all add: decodeFlags_def Let_def flags, auto)
qed (use assms in \<open>auto simp: decodeFlags_def Let_def split: if_splits\<close>)

text \<open>What every page that \<open>decodeFlags\<close> accepts has.\<close>

definition page_ok :: "nat \<Rightarrow> MemPage \<Rightarrow> bool" where
  "page_ok u p \<longleftrightarrow> 480 \<le> u \<and> u \<le> 65536 \<and> unat (usableSize (pBt p)) = u
     \<and> unat (childPtrSize p) = (if leaf p = 0 then 4 else 0) \<and> (hasData p \<longleftrightarrow> intKey p \<and> leaf p \<noteq> 0)
     \<and> unat (minLocal p) \<le> unat (maxLocal p) \<and> unat (maxLocal p) + 35 \<le> u"

lemma decoded_page:
  assumes "decodeFlags (lockBtree_limits u) f = Some p" "480 \<le> unat u" "unat u \<le> 65536"
  shows "page_ok (unat u) p"
proof -
  have b: "(unat u - 12) * 32 div 255 - 23 \<le> (unat u - 12) * 64 div 255 - 23"
    by (intro diff_le_mono div_le_mono mult_le_mono) auto
  note d = share_unat(2) [OF assms(2,3), of 32] share_unat(2) [OF assms(2,3), of 64]
  have "unat (minLocal p) \<le> unat (maxLocal p) \<and> unat (maxLocal p) \<le> unat u - 35"
    using decode_cases(3) [OF assms(1)] b d by (elim disjE conjE) (simp_all only: limits [OF assms(2,3)], simp_all)
  then show ?thesis
    using decode_cases [OF assms(1)] assms(2,3) unfolding page_ok_def by (auto simp: limits(5) [OF assms(2,3)])
qed

section \<open>Local parts and sizes\<close>

lemma unat_small_add: "unat (a :: u32) + n < 2 ^ 32 \<Longrightarrow> unat (a + of_nat n) = unat a + n"
  by (subst unat_add_lem [THEN iffD1]) (auto simp: unat_of_nat take_bit_nat_eq_self)

lemma unat_to_u16: "unat x < 65536 \<Longrightarrow> unat (ucast (x :: u32) :: u16) = unat x"
  by (simp add: unsigned_ucast_eq take_bit_nat_eq_self)

lemma u16_less: "unat (x :: u16) < 65536"
  using unsigned_less [of x, where ?'a = nat] by simp

lemma unat_from_u16 [simp]: "unat (ucast (x :: u16) :: u32) = unat x"
  using u16_less [of x] by (simp add: unsigned_ucast_eq take_bit_nat_eq_self)

lemma unat_add_u16: "unat (a :: u16) + n < 65536 \<Longrightarrow> unat (a + of_nat n) = unat a + n"
  by (subst unat_add_lem [THEN iffD1]) (auto simp: unat_of_nat take_bit_nat_eq_self)

lemma sint_small:
  assumes "unat (x :: u32) < 2 ^ 31"
  shows "sint x = int (unat x)"
proof -
  have "uint x < 2 ^ 31" using assms by (metis of_nat_less_iff of_nat_numeral of_nat_power uint_nat)
  moreover have "- (2 ^ 31) \<le> uint x" by (rule order_trans [OF _ uint_ge_0]) simp
  ultimately have "signed_take_bit 31 (uint x) = uint x" by (intro signed_take_bit_int_eq_self)
  then show ?thesis by (simp add: sint_uint)
qed

lemma surplus_bound:
  assumes "page_ok u p"
  shows "unat (ucast (minLocal p) + (len - ucast (minLocal p)) mod (usableSize (pBt p) - 4) :: u32) < 131072"
proof -
  let ?l = "ucast (minLocal p) :: u32" and ?v = "usableSize (pBt p) - 4 :: u32"
  have v: "unat ?v = u - 4" using unat_sub_small [of 4 "usableSize (pBt p)"] assms by (simp add: page_ok_def)
  have "unat ((len - ?l) mod ?v) < u - 4" using assms by (simp add: unat_mod v page_ok_def)
  moreover have "u \<le> 65536" using assms by (simp add: page_ok_def)
  moreover have "unat ?l < 65536" by (simp add: u16_less)
  ultimately show ?thesis using unat_small_add [of ?l "unat ((len - ?l) mod ?v)"] by simp
qed

lemma local_part_fits:
  assumes "page_ok u p" "n \<le> 22" "local_part p n len = (loc, ov, sz)" "unat len \<le> unat (maxLocal p)"
  shows "unat loc = unat len" "unat sz = max 4 (n + unat len)"
proof -
  have b: "unat len \<le> 65501" using assms by (simp add: page_ok_def)
  then have s: "unat (len + of_nat n) = unat len + n" using assms(2) by (simp add: unat_small_add)
  then have t: "unat (ucast (of_nat n + len) :: u16) = unat len + n"
    using b assms(2) by (simp add: unat_to_u16 add.commute)
  show "unat loc = unat len" using assms b by (auto simp: local_part_def Let_def word_le_nat_alt unat_to_u16)
  show "unat sz = max 4 (n + unat len)"
    using assms(3,4) t by (auto simp: local_part_def Let_def word_le_nat_alt word_less_nat_alt)
qed

lemma spill_loc:
  fixes len :: u32
  assumes "page_ok u p" "local_part p n len = (loc, ov, sz)" "unat (maxLocal p) < unat len"
  defines "s \<equiv> ucast (minLocal p) + (len - ucast (minLocal p)) mod (usableSize (pBt p) - 4) :: u32"
  shows "unat loc = (if unat s \<le> unat (maxLocal p) then unat s else unat (minLocal p))"
proof -
  have m: "sint (ucast (maxLocal p) :: u32) = int (unat (maxLocal p))"
    by (subst sint_small) (simp_all add: less_trans [OF u16_less])
  have t: "sint s = int (unat s)" unfolding s_def using surplus_bound [OF assms(1), of len] by (intro sint_small) simp
  have c: "(sint s \<le> sint (ucast (maxLocal p) :: u32)) = (unat s \<le> unat (maxLocal p))"
    unfolding m t by (rule of_nat_le_iff)
  have "loc = (if unat s \<le> unat (maxLocal p) then ucast s else ucast (ucast (minLocal p) :: u32))"
    using assms(2,3) unfolding local_part_def Let_def s_def [symmetric] c by (simp add: word_le_nat_alt split: if_splits)
  moreover have "unat (ucast s :: u16) = unat s" if "unat s \<le> unat (maxLocal p)"
    using that u16_less [of "maxLocal p"] by (intro unat_to_u16) simp
  ultimately show ?thesis by (simp add: unat_to_u16 u16_less)
qed

lemma local_part_spills:
  assumes "page_ok u p" "n \<le> 22" "local_part p n len = (loc, ov, sz)" "unat (maxLocal p) < unat len"
  shows "unat loc \<le> unat (maxLocal p)" "unat ov = unat loc + n" "unat sz = unat loc + n + 4"
proof -
  show l: "unat loc \<le> unat (maxLocal p)"
    using spill_loc [OF assms(1,3,4)] assms(1) by (simp add: page_ok_def)
  have b: "unat loc + n + 4 < 65536" using l assms(1,2) by (simp add: page_ok_def)
  have o: "ov = loc + of_nat n" "sz = ov + 4"
    using assms(3,4) by (auto simp: local_part_def Let_def word_le_nat_alt)
  show e: "unat ov = unat loc + n" using b by (simp add: o unat_add_u16)
  show "unat sz = unat loc + n + 4" using b unat_add_u16 [of ov 4] by (simp add: o(2) e)
qed

section \<open>Measuring is parsing\<close>

lemma skip_key_value:
  "n \<le> 8 \<Longrightarrow> map_option snd (varint_value n acc bs) = map_option ((+) n) (skip_key (9 - n) bs)"
proof (induction bs arbitrary: n acc)
  case (Cons b bs)
  have t: "(b AND 0x80 \<noteq> 0) = bit b 7" using and_exp_eq_0_iff_not_bit [of b 7] by simp
  show ?case
  proof (cases "n = 8")
    case False
    then have "Suc n \<le> 8" "9 - n - 1 = 9 - Suc n" using Cons.prems by auto
    then show ?thesis using Cons.IH [of "Suc n"] False t by (auto simp: option.map_comp comp_def)
  qed simp
qed simp

lemma skip_key_getVarint: "skip_key 9 bs = map_option snd (sqlite3GetVarint bs)"
  using skip_key_value [of 0 0 bs] by (simp add: getVarint_value option.map_ident plus_nat_def [symmetric] cong: option.map_cong)

lemma cell_size_local:
  assumes "page_ok u p" "n \<le> 22"
  shows "cell_size p n len = snd (snd (local_part p n len))"
proof (rule word_unat_eq_iff [THEN iffD2])
  obtain loc ov sz where l: "local_part p n len = (loc, ov, sz)" by (metis prod_cases3)
  have small: "unat (ucast (if x + of_nat n < 4 then 4 else x + of_nat n) :: u16) = max 4 (n + unat x)"
    if "unat x + n < 65536" for x :: u32
    using that unat_small_add [of x n] by (simp add: unat_to_u16 word_less_nat_alt max_def)
  have "unat (cell_size p n len) = unat sz"
  proof (cases "unat len \<le> unat (maxLocal p)")
    case True
    then have "cell_size p n len = ucast (if len + of_nat n < 4 then 4 else len + of_nat n)"
      by (simp add: cell_size_def Let_def word_less_nat_alt)
    moreover have "unat len + n < 65536" using True assms by (simp add: page_ok_def)
    ultimately show ?thesis using local_part_fits [OF assms l True] by (simp only: small)
  next
    case False
    define s where "s = ucast (minLocal p) + (len - ucast (minLocal p)) mod (usableSize (pBt p) - 4)"
    let ?x = "if ucast (maxLocal p) < s then ucast (minLocal p) else s"
    have x: "unat ?x = unat loc"
      using spill_loc [OF assms(1) l] False by (simp add: s_def word_less_nat_alt)
    note r = local_part_spills [OF assms l]
    have "unat loc + 26 < 65536" using r False assms(1) by (simp add: page_ok_def)
    then have "unat (?x + 4) = unat loc + 4" using unat_small_add [of ?x 4] x by simp
    moreover have "cell_size p n len = ucast (if ?x + 4 + of_nat n < 4 then 4 else ?x + 4 + of_nat n)"
      using False by (simp add: cell_size_def Let_def s_def word_less_nat_alt)
    ultimately show ?thesis using r False assms \<open>unat loc + 26 < 65536\<close> by (simp only: small)
  qed
  then show "unat (cell_size p n len) = unat (snd (snd (local_part p n len)))" by (simp add: l)
qed

lemma varint_value_length: "varint_value n acc bs = Some (v, k) \<Longrightarrow> n \<le> 8 \<Longrightarrow> n < k \<and> k \<le> 9"
proof (induction bs arbitrary: n acc)
  case (Cons b bs)
  then show ?case using Cons.IH [of "Suc n"] by (fastforce split: if_splits)
qed simp

lemma getVarint_length: "sqlite3GetVarint bs = Some (v, k) \<Longrightarrow> k \<le> 9"
  using varint_value_length [of 0 0 bs v k] by (simp add: getVarint_value)

lemma getVarint32_length: "getVarint32 bs = Some (w, k) \<Longrightarrow> k \<le> 9"
  by (auto simp: getVarint32_value dest: getVarint_length)

lemma parse_header_length:
  assumes "page_ok u p" "parse_header p c = Some (key, dat, len, n)"
  shows "n \<le> 22"
proof -
  have "unat (childPtrSize p) \<le> 4" using assms(1) by (simp add: page_ok_def)
  then show ?thesis using assms(2)
    by (fastforce simp: parse_header_def Let_def bind_eq_Some_conv split: if_splits
        dest!: getVarint_length getVarint32_length)
qed

text \<open>The two ways of measuring need the same bytes of the cell, and find the same size.\<close>

lemma cellSizePtr_parse:
  assumes "page_ok u p"
  shows "cellSizePtr p c = map_option ci_nSize (btreeParseCellPtr p c)"
proof -
  have "cellSizePtr p c = map_option (\<lambda>(key, dat, len, n). cell_size p n len) (parse_header p c)"
    by (auto simp: cellSizePtr_def parse_header_def Let_def skip_key_getVarint
        split: option.split Option.bind_split)
  also have "\<dots> = map_option ci_nSize (btreeParseCellPtr p c)"
    using parse_header_length [OF assms, of c] cell_size_local [OF assms]
    by (cases "parse_header p c") (auto simp: btreeParseCellPtr_def split: prod.splits)
  finally show ?thesis .
qed

section \<open>Bytes of memory\<close>

definition byte :: "mem \<Rightarrow> buf \<Rightarrow> nat \<Rightarrow> u8 option" where
  "byte m b i = (case m b of None \<Rightarrow> None | Some d \<Rightarrow> if i < length d then Some (d ! i) else None)"

definition room :: "mem \<Rightarrow> buf \<Rightarrow> nat \<Rightarrow> bool" where
  "room m b n \<longleftrightarrow> (\<exists>d. m b = Some d \<and> n \<le> length d)"

definition holds :: "mem \<Rightarrow> buf \<Rightarrow> nat \<Rightarrow> u8 list \<Rightarrow> bool" where
  "holds m b i bs \<longleftrightarrow> (\<forall>j < length bs. byte m b (i + j) = Some (bs ! j))"

lemma poke_effect:
  assumes "room m b (i + length bs)"
  obtains m' where "poke m (b, i) bs = Some m'" "\<And>b' n. room m' b' n = room m b' n" "\<And>b'. b' \<noteq> b \<Longrightarrow> m' b' = m b'"
    "\<And>b' j. byte m' b' j = (if b' = b \<and> i \<le> j \<and> j < i + length bs then Some (bs ! (j - i)) else byte m b' j)"
proof -
  obtain d where d: "m b = Some d" "i + length bs \<le> length d" using assms by (auto simp: room_def)
  let ?m = "m(b \<mapsto> take i d @ bs @ drop (i + length bs) d)"
  have "byte ?m b' j = (if b' = b \<and> i \<le> j \<and> j < i + length bs then Some (bs ! (j - i)) else byte m b' j)" for b' j
    using d by (auto simp: byte_def nth_append min_def)
  moreover have "room ?m b' n = room m b' n" for b' n using d by (auto simp: room_def)
  ultimately show thesis using that [of ?m] d by (simp add: poke_def)
qed

lemma holds_peek: "holds m b i bs \<Longrightarrow> bs \<noteq> [] \<Longrightarrow> peek m (b, i) (length bs) = Some bs"
proof -
  assume h: "holds m b i bs" and ne: "bs \<noteq> []"
  then have "byte m b (i + (length bs - 1)) \<noteq> None" by (simp add: holds_def)
  then obtain d where d: "m b = Some d" "i + length bs \<le> length d"
    using ne by (auto simp: byte_def neq_Nil_conv split: option.splits if_splits)
  have "take (length bs) (drop i d) = bs"
    using h d by (intro nth_equalityI) (auto simp: holds_def byte_def)
  then show ?thesis using d by (simp add: peek_def)
qed

lemma holds_cong: "(\<And>j. i \<le> j \<Longrightarrow> j < i + length bs \<Longrightarrow> byte m b j = byte m' b j) \<Longrightarrow> holds m b i bs = holds m' b i bs"
  by (simp add: holds_def)

lemma holds_Nil [simp]: "holds m b i []"
  by (simp add: holds_def)

lemma holds_append: "holds m b i (xs @ ys) \<longleftrightarrow> holds m b i xs \<and> holds m b (i + length xs) ys"
proof
  assume h: "holds m b i (xs @ ys)"
  have "byte m b (i + length xs + j) = Some (ys ! j)" if "j < length ys" for j
    using h [unfolded holds_def, rule_format, of "length xs + j"] that by (simp add: add.assoc)
  moreover have "byte m b (i + j) = Some (xs ! j)" if "j < length xs" for j
    using h [unfolded holds_def, rule_format, of j] that by (simp add: nth_append)
  ultimately show "holds m b i xs \<and> holds m b (i + length xs) ys" by (simp add: holds_def)
next
  assume h: "holds m b i xs \<and> holds m b (i + length xs) ys"
  have "byte m b (i + j) = Some ((xs @ ys) ! j)" if "j < length (xs @ ys)" for j
  proof (cases "j < length xs")
    case False
    then show ?thesis using h that by (auto simp: holds_def nth_append dest!: spec [of _ "j - length xs"])
  qed (use h in \<open>simp add: holds_def nth_append\<close>)
  then show "holds m b i (xs @ ys)" by (simp add: holds_def)
qed

lemma holds_sub: "holds m b i bs \<Longrightarrow> k + n \<le> length bs \<Longrightarrow> holds m b (i + k) (take n (drop k bs))"
  by (auto simp: holds_def add.assoc)

lemma peek_sub:
  assumes "holds m b i bs" "k + n \<le> length bs" "bs \<noteq> []"
  shows "peek m (b, i + k) n = Some (take n (drop k bs))"
proof -
  obtain d where d: "m b = Some d" "i + length bs \<le> length d" "bs = take (length bs) (drop i d)"
    using holds_peek [OF assms(1,3)] by (auto simp: peek_def split: option.splits if_splits)
  have "take n (drop k bs) = take n (drop (i + k) d)"
    using assms(2) by (subst d(3)) (simp add: drop_take min_absorb1 add.commute)
  then show ?thesis using d(1,2) assms(2) by (simp add: peek_def)
qed

lemma put4_length [simp]: "length (sqlite3Put4byte v) = 4"
  by (simp add: sqlite3Put4byte_def)

lemma get4_put4 [simp]: "sqlite3Get4byte (sqlite3Put4byte v) = v"
proof (rule bit_word_eqI)
  fix n
  assume "n < LENGTH(32)"
  then have "n < 8 \<or> 8 \<le> n \<and> n < 16 \<or> 16 \<le> n \<and> n < 24 \<or> 24 \<le> n \<and> n < 32" by auto
  then show "bit (sqlite3Get4byte (sqlite3Put4byte v)) n = bit v n"
    by (elim disjE conjE) (simp_all add: sqlite3Put4byte_def bit_simps, auto)
qed

section \<open>The chain of overflow pages\<close>

text \<open>The pages \<open>ks\<close> from \<open>pg\<close> on hold \<open>bs\<close>, \<open>v\<close> bytes on each.\<close>

fun chain :: "mem \<Rightarrow> nat \<Rightarrow> u32 list \<Rightarrow> u32 \<Rightarrow> u8 list \<Rightarrow> bool" where
  "chain m v [] pg bs \<longleftrightarrow> pg = 0 \<and> bs = []"
| "chain m v (k # ks) pg bs \<longleftrightarrow>
     pg = k \<and> k \<noteq> 0 \<and> bs \<noteq> [] \<and> holds m (Page k) 4 (take v bs)
     \<and> (\<exists>next. holds m (Page k) 0 (sqlite3Put4byte next) \<and> chain m v ks next (drop v bs))"

lemma chain_cong: "(\<And>k. k \<in> set ks \<Longrightarrow> m (Page k) = m' (Page k)) \<Longrightarrow> chain m v ks pg bs = chain m' v ks pg bs"
proof (induction ks arbitrary: pg bs)
  case (Cons k ks)
  have "holds m (Page k) i xs = holds m' (Page k) i xs" for i xs
    using Cons.prems [of k] by (simp add: holds_def byte_def)
  then show ?case using Cons by auto
qed simp

lemma chain_read:
  assumes "chain m v ks pg bs" "0 < v" "offset + amt \<le> length bs" "offset + amt \<le> fuel" "length bs < 2 ^ 32"
  shows "read_overflow fuel v m offset amt pg got = Some (Payload (got @ take amt (drop offset bs)))"
  using assms
proof (induction ks arbitrary: pg bs offset amt fuel got)
  case Nil
  then show ?case by (simp add: read_overflow.simps)
next
  case (Cons k ks)
  show ?case
  proof (cases "amt = 0")
    case False
    then obtain f where f: "fuel = Suc f" using Cons.prems(4) by (cases fuel) auto
    obtain "next" where hd: "holds m (Page k) 0 (sqlite3Put4byte next)" and ch: "chain m v ks next (drop v bs)"
      and pg: "pg = k" "k \<noteq> 0" and here: "holds m (Page k) 4 (take v bs)"
      using Cons.prems(1) by auto
    have p: "peek m (Page k, 0) 4 = Some (sqlite3Put4byte next)"
      using peek_sub [OF hd, of 0 4] put4_length [of "next"] by (auto simp: simp flip: length_greater_0_conv)
    then have nz: "m (Page k) \<noteq> None" by (cases "m (Page k)") (simp_all add: peek_def)
    show ?thesis
    proof (cases "v \<le> offset")
      case True
      have "read_overflow f v m (offset - v) amt next got = Some (Payload (got @ take amt (drop (offset - v) (drop v bs))))"
        using Cons.prems True f by (intro Cons.IH [OF ch]) auto
      then show ?thesis using False f pg p nz True
        by (simp add: read_overflow.simps [of "Suc f"] getOverflowPage_def)
    next
      case over: False
      define a where "a = (if v < amt + offset then v - offset else amt)"
      have a: "0 < a" "a \<le> amt" "offset + a \<le> v" "a = amt \<or> offset + a = v" using False over by (auto simp: a_def)
      have "peek m (Page k, 4 + offset) a = Some (take a (drop offset (take v bs)))"
        using a Cons.prems(3) Cons.prems(1) by (intro peek_sub [OF here]) auto
      moreover have "take a (drop offset (take v bs)) = take a (drop offset bs)" using a by (simp add: drop_take)
      ultimately have q: "peek m (Page k, offset + 4) a = Some (take a (drop offset bs))" by (simp add: add.commute)
      have r: "read_overflow f v m 0 (amt - a) next (got @ take a (drop offset bs))
          = Some (Payload ((got @ take a (drop offset bs)) @ take (amt - a) (drop 0 (drop v bs))))"
        using Cons.prems a f by (intro Cons.IH [OF ch]) auto
      have "take a (drop offset bs) @ take (amt - a) (drop v bs) = take amt (drop offset bs)"
        using a take_add [of a "amt - a" "drop offset bs"] by (auto simp: add.commute)
      moreover have "(amt + offset) mod 2 ^ 32 = amt + offset" using Cons.prems(3,5) by simp
      ultimately show ?thesis using False f pg p nz over q r
        by (simp only: read_overflow.simps [of "Suc f"] a_def [symmetric]) simp
    qed
  qed (simp add: read_overflow.simps)
qed

section \<open>What the loop of \<open>fillInCell\<close> leaves in memory\<close>

text \<open>
  \<open>R\<close> is still to be written: \<open>sp\<close> bytes of it at \<open>(qb, qo)\<close>, the others on pages whose number is left at
  \<open>(pb, po)\<close>. Nothing else of the memory changes.
\<close>

definition filled :: "mem \<Rightarrow> mem \<Rightarrow> nat \<Rightarrow> u8 list \<Rightarrow> nat \<Rightarrow> buf \<Rightarrow> nat \<Rightarrow> buf \<Rightarrow> nat \<Rightarrow> u32 list \<Rightarrow> bool" where
  "filled m m' v R sp qb qo pb po ks \<longleftrightarrow>
     holds m' qb qo (take sp R)
     \<and> (sp < length R \<longrightarrow> (\<exists>pg j. holds m' pb po (sqlite3Put4byte pg) \<and> chain m' v (take j ks) pg (drop sp R)))
     \<and> (\<forall>b. b \<noteq> qb \<and> b \<noteq> pb \<and> b \<notin> Page ` set ks \<longrightarrow> m' b = m b)
     \<and> (\<forall>b i. b \<notin> Page ` set ks \<and> \<not> (b = qb \<and> qo \<le> i \<and> i < qo + sp) \<and> \<not> (sp < length R \<and> b = pb \<and> po \<le> i \<and> i < po + 4)
          \<longrightarrow> byte m' b i = byte m b i)"

text \<open>The two places do not overlap.\<close>

definition apart :: "nat \<Rightarrow> buf \<Rightarrow> nat \<Rightarrow> buf \<Rightarrow> nat \<Rightarrow> bool" where
  "apart sp qb qo pb po \<longleftrightarrow> pb \<noteq> qb \<or> po + 4 \<le> qo \<or> qo + sp \<le> po"

lemma filled_after_copy:
  assumes c: "poke m (qb, qo) (take n R) = Some m1" "room m qb (qo + n)" "n \<le> sp" "n \<le> length R"
    and f: "filled m1 m' v (drop n R) (sp - n) qb (qo + n) pb po ks"
    and a: "sp < length R \<longrightarrow> apart sp qb qo pb po" and q: "qb \<notin> Page ` set ks"
  shows "filled m m' v R sp qb qo pb po ks"
proof -
  have n: "length (take n R) = n" using c(4) by simp
  obtain m1' where "poke m (qb, qo) (take n R) = Some m1'" and o: "\<And>b. b \<noteq> qb \<Longrightarrow> m1' b = m b"
    and b: "\<And>b' j. byte m1' b' j = (if b' = qb \<and> qo \<le> j \<and> j < qo + n then Some (take n R ! (j - qo)) else byte m b' j)"
    using poke_effect [of m qb qo "take n R"] c(2) n by metis
  then have m1: "m1' = m1" using c(1) by simp
  have sz: "sp - n < length (drop n R) \<longleftrightarrow> sp < length R" using c(3,4) by auto
  note f' = f [unfolded filled_def sz]
  have rest: "byte m' b i = byte m1 b i"
    if "b \<notin> Page ` set ks" "\<not> (b = qb \<and> qo + n \<le> i \<and> i < qo + sp)" "\<not> (sp < length R \<and> b = pb \<and> po \<le> i \<and> i < po + 4)" for b i
    using f' that c(3) by auto
  have "byte m' qb (qo + j) = Some (take n R ! j)" if "j < n" for j
    using rest [of qb "qo + j"] a q that c(3) b [of qb "qo + j"] m1 by (auto simp: apart_def)
  then have h: "holds m' qb qo (take n R)" using n by (simp add: holds_def)
  have "take n R @ take (sp - n) (drop n R) = take sp R" using take_add [of n "sp - n" R] c(3) by simp
  moreover have "holds m' qb qo (take n R @ take (sp - n) (drop n R))"
    using h f' n by (simp add: holds_append)
  ultimately have "holds m' qb qo (take sp R)" by simp
  moreover have "drop (sp - n) (drop n R) = drop sp R" using c(3) by simp
  moreover have "byte m' b' i = byte m b' i"
    if "b' \<notin> Page ` set ks" "\<not> (b' = qb \<and> qo \<le> i \<and> i < qo + sp)" "\<not> (sp < length R \<and> b' = pb \<and> po \<le> i \<and> i < po + 4)" for b' i
    using rest [of b' i] b [of b' i] that m1 c(3) by auto
  ultimately show ?thesis using f' o m1 unfolding filled_def by auto
qed

lemma page_linked:
  assumes "room m pb (po + 4)" "pb \<noteq> Page k" "4 \<le> length d"
  obtains m1 m2 where "poke (m(Page k \<mapsto> d)) (pb, po) (sqlite3Put4byte k) = Some m1"
    "poke m1 (Page k, 0) (sqlite3Put4byte 0) = Some m2"
    "holds m2 pb po (sqlite3Put4byte k)" "holds m2 (Page k) 0 (sqlite3Put4byte 0)" "\<And>n. n \<le> length d \<Longrightarrow> room m2 (Page k) n"
    "\<And>b. b \<noteq> pb \<Longrightarrow> b \<noteq> Page k \<Longrightarrow> m2 b = m b"
    "\<And>b i. b \<noteq> Page k \<Longrightarrow> \<not> (b = pb \<and> po \<le> i \<and> i < po + 4) \<Longrightarrow> byte m2 b i = byte m b i"
proof -
  have r: "room (m(Page k \<mapsto> d)) pb (po + length (sqlite3Put4byte k))" using assms by (simp add: room_def)
  obtain m1 where m1: "poke (m(Page k \<mapsto> d)) (pb, po) (sqlite3Put4byte k) = Some m1"
    "\<And>b n. room m1 b n = room (m(Page k \<mapsto> d)) b n" "\<And>b. b \<noteq> pb \<Longrightarrow> m1 b = (m(Page k \<mapsto> d)) b"
    "\<And>b j. byte m1 b j = (if b = pb \<and> po \<le> j \<and> j < po + 4 then Some (sqlite3Put4byte k ! (j - po)) else byte (m(Page k \<mapsto> d)) b j)"
    using poke_effect [OF r] by (metis put4_length)
  have r2: "room m1 (Page k) (0 + length (sqlite3Put4byte 0))"
    unfolding m1(2) using assms by (simp add: room_def)
  obtain m2 where m2: "poke m1 (Page k, 0) (sqlite3Put4byte 0) = Some m2"
    "\<And>b n. room m2 b n = room m1 b n" "\<And>b. b \<noteq> Page k \<Longrightarrow> m2 b = m1 b"
    "\<And>b j. byte m2 b j = (if b = Page k \<and> 0 \<le> j \<and> j < 0 + 4 then Some (sqlite3Put4byte 0 ! (j - 0)) else byte m1 b j)"
    using poke_effect [OF r2] by (metis put4_length)
  have other: "byte (m(Page k \<mapsto> d)) b i = byte m b i" if "b \<noteq> Page k" for b i using that by (simp add: byte_def)
  show thesis
  proof (rule that [OF m1(1) m2(1)])
    show "room m2 (Page k) n" if "n \<le> length d" for n unfolding m2(2) m1(2) using that by (simp add: room_def)
    show "byte m2 b i = byte m b i" if "b \<noteq> Page k" "\<not> (b = pb \<and> po \<le> i \<and> i < po + 4)" for b i
      using that by (auto simp: m2(4) m1(4) other)
  qed (use assms in \<open>simp_all add: holds_def m2 m1 other\<close>)
qed

lemma filled_after_page:
  assumes h: "holds m2 pb po (sqlite3Put4byte k)" "holds m2 (Page k) 0 (sqlite3Put4byte 0)"
    and o: "\<And>b. b \<noteq> pb \<Longrightarrow> b \<noteq> Page k \<Longrightarrow> m2 b = m b"
      "\<And>b i. b \<noteq> Page k \<Longrightarrow> \<not> (b = pb \<and> po \<le> i \<and> i < po + 4) \<Longrightarrow> byte m2 b i = byte m b i"
    and f: "filled m2 m' v R v (Page k) 4 (Page k) 0 ks"
    and d: "k \<notin> set ks" "k \<noteq> 0" "pb \<notin> Page ` set (k # ks)" "qb \<notin> Page ` set (k # ks)" "R \<noteq> []"
  shows "filled m m' v R 0 qb qo pb po (k # ks)"
proof -
  note f' = f [unfolded filled_def]
  have b: "byte m' b i = byte m2 b i" if "b \<noteq> Page k" "b \<notin> Page ` set ks" for b i using f' that by auto
  have pb: "holds m' pb po (sqlite3Put4byte k)"
    using h(1) d(3) by (subst holds_cong [where m' = m2]) (auto intro: b)
  have "\<exists>j next. holds m' (Page k) 0 (sqlite3Put4byte next) \<and> chain m' v (take j ks) next (drop v R)"
  proof (cases "v < length R")
    case True
    then show ?thesis using f' by auto
  next
    case False
    have "Page k \<notin> Page ` set ks" using d(1) by auto
    then have "byte m' (Page k) i = byte m2 (Page k) i" if "i < 4" for i using f' False that by simp
    then have "holds m' (Page k) 0 (sqlite3Put4byte 0)"
      using h(2) by (subst holds_cong [where m' = m2]) auto
    moreover have "chain m' v (take 0 ks) 0 (drop v R)" using False by simp
    ultimately show ?thesis by blast
  qed
  then obtain j "next" where "holds m' (Page k) 0 (sqlite3Put4byte next)" "chain m' v (take j ks) next (drop v R)" by blast
  then have "chain m' v (take (Suc j) (k # ks)) k (drop 0 R)" using f' d(2,5) by auto
  then have "\<exists>pg j. holds m' pb po (sqlite3Put4byte pg) \<and> chain m' v (take j (k # ks)) pg (drop 0 R)" using pb by blast
  moreover have "m' b = m b" if "b \<noteq> pb" "b \<notin> Page ` set (k # ks)" for b
    using f' o(1) [of b] that by auto
  moreover have "byte m' b i = byte m b i"
    if "b \<notin> Page ` set (k # ks)" "\<not> (b = pb \<and> po \<le> i \<and> i < po + 4)" for b i
    using b [of b i] o(2) [of b i] that by auto
  ultimately show ?thesis using d(5) unfolding filled_def by auto
qed

text \<open>One copy writes the next bytes.\<close>

lemma copy_payload_effect:
  assumes s: "f_nPayload s = length R" "f_pPayload s = (qb, qo)" "0 < f_spaceLeft s" "R \<noteq> []"
    and R: "R = take (nat (f_nSrc s)) (f_pSrc s) @ replicate z 0" "nat (f_nSrc s) \<le> length (f_pSrc s)"
    and r: "room (f_mem s) qb (qo + min (f_spaceLeft s) (length R))"
  obtains n m1 src ns z' where "0 < n" "n \<le> f_spaceLeft s" "n \<le> length R" "poke (f_mem s) (qb, qo) (take n R) = Some m1"
    "copy_payload pData 0 s = Some (s\<lparr>f_mem := m1, f_nPayload := length (drop n R), f_pSrc := src, f_nSrc := ns,
        f_spaceLeft := f_spaceLeft s - n, f_pPayload := (qb, qo + n)\<rparr>)"
    "drop n R = take (nat ns) src @ replicate z' 0" "nat ns \<le> length src"
proof -
  define n where "n = (let n = min (length R) (f_spaceLeft s) in if 0 < f_nSrc s \<and> f_nSrc s < int n then nat (f_nSrc s) else n)"
  have len: "length R = nat (f_nSrc s) + z" using R by simp
  have l0: "0 < length R" using s(4) by simp
  have n: "0 < n" "n \<le> f_spaceLeft s" "n \<le> length R" "0 < f_nSrc s \<Longrightarrow> n \<le> nat (f_nSrc s)"
    using s len l0 by (auto simp: n_def Let_def min_def split: if_splits)
  have bytes: "(if 0 < f_nSrc s then take n (f_pSrc s) else replicate n 0) = take n R"
  proof (cases "0 < f_nSrc s")
    case True
    have "take n R = take n (take (nat (f_nSrc s)) (f_pSrc s))" using n(4) [OF True] R(2) by (subst R(1)) simp
    then show ?thesis using n(4) [OF True] True by (simp add: min_absorb1)
  next
    case False
    then have "R = replicate z 0" using R(1) by simp
    then show ?thesis using n(3) False by (simp add: min_absorb1)
  qed
  have lb: "length (take n R) = n" using n by simp
  have "room (f_mem s) qb (qo + length (take n R))" using r n lb by (auto simp: room_def)
  then obtain m1 where m1: "poke (f_mem s) (qb, qo) (take n R) = Some m1" by (rule poke_effect)
  define r1 where "r1 = (if f_nSrc s - int n = 0 then (pData, 0) else (drop n (f_pSrc s), f_nSrc s - int n))"
  have c: "copy_payload pData 0 s = Some (s\<lparr>f_mem := m1, f_nPayload := length (drop n R), f_pSrc := fst r1, f_nSrc := snd r1,
        f_spaceLeft := f_spaceLeft s - n, f_pPayload := (qb, qo + n)\<rparr>)"
    unfolding copy_payload_def Let_def s(1,2) n_def [unfolded Let_def, symmetric] bytes lb
    using m1 by (simp add: r1_def)
  show thesis
  proof (cases "0 < f_nSrc s")
    case True
    have "drop n R = take (nat (snd r1)) (fst r1) @ replicate z 0"
      using R n(4) [OF True] True by (auto simp: r1_def drop_take nat_diff_distrib)
    moreover have "nat (snd r1) \<le> length (fst r1)" using R(2) n(4) [OF True] by (auto simp: r1_def)
    ultimately show thesis using that n m1 c by blast
  next
    case False
    have "drop n R = take (nat (snd r1)) (fst r1) @ replicate (z - n) 0"
      using R False by (auto simp: r1_def drop_replicate)
    moreover have "nat (snd r1) \<le> length (fst r1)" using False by (auto simp: r1_def)
    ultimately show thesis using that n m1 c by blast
  qed
qed

text \<open>
  Enough answers of the allocator: page numbers that are not 0 and not given twice, of pages with room for \<open>u\<close> bytes.
\<close>

definition fresh_pages :: "nat \<Rightarrow> (u32 \<times> u8 list) list \<Rightarrow> bool" where
  "fresh_pages u pgs \<longleftrightarrow> distinct (map fst pgs) \<and> (\<forall>(k, d) \<in> set pgs. k \<noteq> 0 \<and> u \<le> length d)"

text \<open>The invariant of the loop, and what it has done to the memory at its end.\<close>

definition ready :: "nat \<Rightarrow> fill \<Rightarrow> u8 list \<Rightarrow> (u32 \<times> u8 list) list \<Rightarrow> bool" where
  "ready u s R pgs \<longleftrightarrow>
     f_nPayload s = length R \<and> f_allocs s = map Some pgs \<and> fresh_pages u pgs
     \<and> (\<exists>z. R = take (nat (f_nSrc s)) (f_pSrc s) @ replicate z 0) \<and> nat (f_nSrc s) \<le> length (f_pSrc s)
     \<and> room (f_mem s) (fst (f_pPayload s)) (snd (f_pPayload s) + min (f_spaceLeft s) (length R))
     \<and> (f_spaceLeft s < length R \<longrightarrow> room (f_mem s) (fst (f_pPrior s)) (snd (f_pPrior s) + 4)
          \<and> apart (f_spaceLeft s) (fst (f_pPayload s)) (snd (f_pPayload s)) (fst (f_pPrior s)) (snd (f_pPrior s)))
     \<and> fst (f_pPayload s) \<notin> Page ` set (map fst pgs) \<and> fst (f_pPrior s) \<notin> Page ` set (map fst pgs)
     \<and> length R \<le> f_spaceLeft s + length pgs * (u - 4)"

definition left_by :: "nat \<Rightarrow> fill \<Rightarrow> mem \<Rightarrow> u8 list \<Rightarrow> (u32 \<times> u8 list) list \<Rightarrow> bool" where
  "left_by u s m' R pgs \<longleftrightarrow>
     filled (f_mem s) m' (u - 4) R (f_spaceLeft s) (fst (f_pPayload s)) (snd (f_pPayload s))
       (fst (f_pPrior s)) (snd (f_pPrior s)) (map fst pgs)"

lemma ready_copy:
  assumes "ready u s R pgs" "0 < f_spaceLeft s" "R \<noteq> []"
  obtains s1 n where "copy_payload pData 0 s = Some s1" "0 < n" "n \<le> length R" "ready u s1 (drop n R) pgs"
    "\<And>m'. left_by u s1 m' (drop n R) pgs \<Longrightarrow> left_by u s m' R pgs"
proof -
  obtain qb qo where q: "f_pPayload s = (qb, qo)" by fastforce
  obtain pb po where p: "f_pPrior s = (pb, po)" by fastforce
  note r = assms(1) [unfolded ready_def q p fst_conv snd_conv]
  obtain z where z: "R = take (nat (f_nSrc s)) (f_pSrc s) @ replicate z 0" using r by blast
  obtain n m1 src ns z' where n: "0 < n" "n \<le> f_spaceLeft s" "n \<le> length R"
    and m1: "poke (f_mem s) (qb, qo) (take n R) = Some m1"
    and c: "copy_payload pData 0 s = Some (s\<lparr>f_mem := m1, f_nPayload := length (drop n R), f_pSrc := src, f_nSrc := ns,
        f_spaceLeft := f_spaceLeft s - n, f_pPayload := (qb, qo + n)\<rparr>)"
    and rest: "drop n R = take (nat ns) src @ replicate z' 0" "nat ns \<le> length src"
    by (rule copy_payload_effect [OF _ q assms(2,3) z, of pData]) (use r in auto)
  have rm: "room (f_mem s) qb (qo + n)" using r n by (auto simp: room_def)
  then have "room (f_mem s) qb (qo + length (take n R))" using n by (simp add: min_def)
  then obtain m1' where "poke (f_mem s) (qb, qo) (take n R) = Some m1'" and same: "\<And>b k. room m1' b k = room (f_mem s) b k"
    by (rule poke_effect) blast
  then have same: "room m1 b k = room (f_mem s) b k" for b k using m1 by simp
  let ?s1 = "s\<lparr>f_mem := m1, f_nPayload := length (drop n R), f_pSrc := src, f_nSrc := ns,
        f_spaceLeft := f_spaceLeft s - n, f_pPayload := (qb, qo + n)\<rparr>"
  have e: "qo + n + min (f_spaceLeft s - n) (length R - n) = qo + min (f_spaceLeft s) (length R)" using n by auto
  have src: "\<exists>z. drop n R = take (nat ns) src @ replicate z 0" using rest(1) by blast
  have prior: "f_spaceLeft s - n < length R - n \<longrightarrow> room m1 pb (po + 4) \<and> apart (f_spaceLeft s - n) qb (qo + n) pb po"
    using r n by (auto simp: same apart_def)
  have len: "length R - n \<le> f_spaceLeft s - n + length pgs * (u - 4)" using r n by linarith
  have "ready u ?s1 (drop n R) pgs"
    unfolding ready_def using r src rest(2) prior len by (simp add: p same e)
  moreover have "left_by u s m' R pgs" if "left_by u ?s1 m' (drop n R) pgs" for m'
    using filled_after_copy [OF m1 rm n(2,3), of m' "u - 4" pb po "map fst pgs"] that r
    by (simp add: left_by_def p q)
  ultimately show thesis using that [OF c n(1,3)] by blast
qed

lemma ready_page:
  assumes "ready u s R ((k, d) # pgs)" "f_spaceLeft s = 0" "R \<noteq> []" "4 < u"
  obtains s1 where "next_overflow u s = Some (Inr s1)" "f_spaceLeft s1 = u - 4" "ready u s1 R pgs"
    "\<And>m'. left_by u s1 m' R pgs \<Longrightarrow> left_by u s m' R ((k, d) # pgs)"
proof -
  obtain qb qo where q: "f_pPayload s = (qb, qo)" by fastforce
  obtain pb po where p: "f_pPrior s = (pb, po)" by fastforce
  note r = assms(1) [unfolded ready_def q p fst_conv snd_conv]
  have fr: "k \<noteq> 0" "k \<notin> set (map fst pgs)" "u \<le> length d" "fresh_pages u pgs" using r by (auto simp: fresh_pages_def)
  have pb: "pb \<notin> Page ` set (k # map fst pgs)" "qb \<notin> Page ` set (k # map fst pgs)" using r by auto
  have rm: "room (f_mem s) pb (po + 4)" using r assms(2,3) by simp
  have ne: "pb \<noteq> Page k" "4 \<le> length d" using pb fr assms(4) by auto
  obtain m1 m2 where m: "poke ((f_mem s)(Page k \<mapsto> d)) (pb, po) (sqlite3Put4byte k) = Some m1"
      "poke m1 (Page k, 0) (sqlite3Put4byte 0) = Some m2"
    and h: "holds m2 pb po (sqlite3Put4byte k)" "holds m2 (Page k) 0 (sqlite3Put4byte 0)"
    and room2: "\<And>n. n \<le> length d \<Longrightarrow> room m2 (Page k) n"
    and o: "\<And>b. b \<noteq> pb \<Longrightarrow> b \<noteq> Page k \<Longrightarrow> m2 b = f_mem s b"
      "\<And>b i. b \<noteq> Page k \<Longrightarrow> \<not> (b = pb \<and> po \<le> i \<and> i < po + 4) \<Longrightarrow> byte m2 b i = byte (f_mem s) b i"
    by (rule page_linked [OF rm ne]) blast
  let ?s1 = "s\<lparr>f_mem := m2, f_spaceLeft := u - 4, f_pPayload := (Page k, 4), f_pPrior := (Page k, 0), f_allocs := map Some pgs\<rparr>"
  have "next_overflow u s = Some (Inr ?s1)" using r m by (simp add: next_overflow_def p)
  moreover have "ready u ?s1 R pgs"
    using r fr assms(2,4) by (auto simp: ready_def room2 apart_def)
  moreover have "left_by u s m' R ((k, d) # pgs)" if "left_by u ?s1 m' R pgs" for m'
    using filled_after_page [OF h o _ fr(2,1) pb assms(3), of m' "u - 4" qo] that assms(2)
    by (simp add: left_by_def p q)
  ultimately show thesis using that [of ?s1] by simp
qed

lemma fill_loop:
  "ready u s R pgs \<Longrightarrow> length R \<le> fuel \<Longrightarrow> 4 < u
   \<Longrightarrow> \<exists>m'. fill_payload fuel u pData 0 s = Some (Inr m') \<and> left_by u s m' R pgs"
proof (induction fuel arbitrary: s R pgs)
  case 0
  then show ?case by (simp add: fill_payload.simps ready_def left_by_def filled_def)
next
  case (Suc fuel)
  show ?case
  proof (cases "R = []")
    case True
    then show ?thesis using Suc.prems(1) by (simp add: fill_payload.simps ready_def left_by_def filled_def)
  next
    case R: False
    have copy: "\<exists>m'. (case copy_payload pData 0 s of None \<Rightarrow> None | Some s \<Rightarrow> fill_payload fuel u pData 0 s) = Some (Inr m')
        \<and> left_by u s m' R pgs" if s: "ready u s R pgs" "0 < f_spaceLeft s" for s pgs
    proof -
      obtain s1 n where c: "copy_payload pData 0 s = Some s1" and n: "0 < n" "n \<le> length R" and s1: "ready u s1 (drop n R) pgs"
        and bk: "\<And>m'. left_by u s1 m' (drop n R) pgs \<Longrightarrow> left_by u s m' R pgs"
        by (rule ready_copy [OF s R]) blast
      have "length (drop n R) \<le> fuel" using Suc.prems(2) n by simp
      then show ?thesis using Suc.IH [OF s1 _ Suc.prems(3)] c bk by auto
    qed
    have ne: "f_nPayload s \<noteq> 0" using Suc.prems(1) R by (simp add: ready_def)
    show ?thesis
    proof (cases "f_spaceLeft s = 0")
      case False
      then show ?thesis using copy [OF Suc.prems(1)] ne by (simp add: fill_payload.simps [of "Suc fuel"])
    next
      case True
      then obtain k d pgs' where pgs: "pgs = (k, d) # pgs'"
        using Suc.prems(1) R by (cases pgs) (auto simp: ready_def)
      obtain s1 where "next_overflow u s = Some (Inr s1)" "f_spaceLeft s1 = u - 4" "ready u s1 R pgs'"
        "\<And>m'. left_by u s1 m' R pgs' \<Longrightarrow> left_by u s m' R ((k, d) # pgs')"
        using ready_page [OF Suc.prems(1) [unfolded pgs] True R Suc.prems(3)] by blast
      then show ?thesis using copy [of s1 pgs'] True ne Suc.prems(3) pgs by (auto simp: fill_payload.simps [of "Suc fuel"])
    qed
  qed
qed

section \<open>A cell and its payload\<close>

definition cell_payload :: "MemPage \<Rightarrow> u8 list \<Rightarrow> u8 list \<Rightarrow> nat \<Rightarrow> u8 list" where
  "cell_payload p pKey pData nZero =
     (if \<not> intKey p then pKey else if hasData p then pData @ replicate nZero 0 else [])"

text \<open>The header without the child page, of a cell with a payload of \<open>n\<close> bytes.\<close>

definition header_bytes :: "MemPage \<Rightarrow> nat \<Rightarrow> u64 \<Rightarrow> u8 list" where
  "header_bytes p n key = (if hasData p then sqlite3PutVarint (of_nat n) else []) @ sqlite3PutVarint key"

definition header_length :: "MemPage \<Rightarrow> nat \<Rightarrow> u64 \<Rightarrow> nat" where
  "header_length p n key = unat (childPtrSize p) + length (header_bytes p n key)"

lemma getVarint32_put64:
  assumes "n < 2 ^ 31"
  shows "getVarint32 (sqlite3PutVarint (of_nat n) @ rest) = Some (of_nat n, length (sqlite3PutVarint (of_nat n)))"
proof -
  have "(of_nat n :: u64) = ucast (of_nat n :: u32)"
    using assms by (simp add: unsigned_of_nat take_bit_nat_eq_self)
  then show ?thesis by (simp add: getVarint32_value getVarint_put clamp32_of)
qed

text \<open>The length is right for the kind of page.\<close>

definition sized :: "MemPage \<Rightarrow> nat \<Rightarrow> u64 \<Rightarrow> bool" where
  "sized p n key \<longleftrightarrow> n < 2 ^ 31 \<and> (\<not> intKey p \<longrightarrow> key = of_nat n) \<and> (intKey p \<and> \<not> hasData p \<longrightarrow> n = 0)"

lemma parse_written:
  assumes "page_ok u p" "sized p n key" "drop (unat (childPtrSize p)) c = header_bytes p n key @ rest"
  shows "parse_header p c = Some (key, if intKey p then of_nat n else 0, of_nat n, header_length p n key)"
proof -
  define h where "h = unat (childPtrSize p)"
  define w where "w = (of_nat n :: u64)"
  define x where "x = (of_nat n :: u32)"
  have d: "drop (h + k) c = drop k (header_bytes p n key @ rest)" for k
    using assms(3) by (metis add.commute drop_drop h_def)
  have n: "n < 2 ^ 31" "\<not> intKey p \<Longrightarrow> key = w" "intKey p \<Longrightarrow> \<not> hasData p \<Longrightarrow> x = 0" "hasData p \<Longrightarrow> intKey p"
    using assms(1,2) by (auto simp: sized_def w_def x_def page_ok_def)
  have g: "getVarint32 (sqlite3PutVarint w @ r) = Some (x, length (sqlite3PutVarint w))" for r
    unfolding w_def x_def by (rule getVarint32_put64 [OF n(1)])
  have u: "ucast x = w" unfolding w_def x_def using n(1) by (simp add: unsigned_of_nat take_bit_nat_eq_self)
  consider "intKey p" "hasData p" | "intKey p" "\<not> hasData p" | "\<not> intKey p" "\<not> hasData p" using n(4) by blast
  then show ?thesis
  proof cases
    case 1
    then show ?thesis using d [of 0] d [of "length (sqlite3PutVarint w)"]
      by (simp add: parse_header_def Let_def header_bytes_def header_length_def h_def [symmetric] w_def [symmetric]
          x_def [symmetric] g getVarint_put)
  next
    case 2
    then show ?thesis using d [of 0] n(3)
      by (simp add: parse_header_def Let_def header_bytes_def header_length_def h_def [symmetric] x_def [symmetric] getVarint_put)
  next
    case 3
    then show ?thesis using d [of 0] n(2)
      by (simp add: parse_header_def Let_def header_bytes_def header_length_def h_def [symmetric] x_def [symmetric] g u)
  qed
qed

lemma header_small:
  assumes "page_ok u p"
  shows "header_length p n key \<le> 22"
proof -
  have "length (sqlite3PutVarint v) \<le> 9" for v using varint_len_bounds [of v] by (simp add: put_length)
  then have "length (header_bytes p n key) \<le> 9 + 9" unfolding header_bytes_def length_append by (intro add_mono) auto
  then show ?thesis using assms by (simp add: header_length_def page_ok_def)
qed

text \<open>How many bytes of a payload are kept on the page.\<close>

definition local_length :: "MemPage \<Rightarrow> nat \<Rightarrow> u64 \<Rightarrow> nat" where
  "local_length p n key = unat (fst (local_part p (header_length p n key) (of_nat n)))"

lemma parsed_cell:
  assumes "page_ok u p" "sized p n key" "drop (unat (childPtrSize p)) c = header_bytes p n key @ rest"
  obtains info where "btreeParseCellPtr p c = Some info" "ci_nKey info = key" "ci_nData info = (if intKey p then of_nat n else 0)"
    "unat (ci_nHeader info) = header_length p n key" "unat (ci_nLocal info) = local_length p n key"
    "local_length p n key \<le> n" "local_length p n key + 35 \<le> u"
    "local_length p n key < n \<Longrightarrow> unat (ci_iOverflow info) = local_length p n key + header_length p n key"
    "unat (ci_nSize info) = max 4 (header_length p n key + local_length p n key + (if local_length p n key < n then 4 else 0))"
proof -
  let ?h = "header_length p n key" and ?l = "local_length p n key"
  obtain loc ov sz where l: "local_part p ?h (of_nat n) = (loc, ov, sz)" by (metis prod_cases3)
  have h: "?h \<le> 22" using header_small [OF assms(1)] .
  have n: "unat (of_nat n :: u32) = n" using assms(2) by (simp add: sized_def unat_of_nat take_bit_nat_eq_self)
  have lh: "unat (of_nat ?h :: u16) = ?h" using h by (simp add: unat_of_nat take_bit_nat_eq_self)
  have loc: "?l = unat loc" by (simp add: local_length_def l)
  have max: "unat (maxLocal p) + 35 \<le> u" using assms(1) by (simp add: page_ok_def)
  let ?i = "\<lparr>ci_nKey = key, ci_nData = if intKey p then of_nat n else 0, ci_nPayload = of_nat n, ci_nHeader = of_nat ?h,
      ci_nLocal = loc, ci_iOverflow = ov, ci_nSize = sz\<rparr>"
  have p: "btreeParseCellPtr p c = Some ?i"
    by (simp add: btreeParseCellPtr_def parse_written [OF assms] l)
  show thesis
  proof (cases "n \<le> unat (maxLocal p)")
    case True
    then show thesis using that [OF p] local_part_fits [OF assms(1) h l] max by (simp add: n lh loc)
  next
    case False
    then show thesis using that [OF p] local_part_spills [OF assms(1) h l] max by (simp add: n lh loc)
  qed
qed

text \<open>A cell with the payload \<open>R\<close> is at \<open>(b, c)\<close>, and continues on pages of \<open>ks\<close>.\<close>

definition cell_at :: "nat \<Rightarrow> MemPage \<Rightarrow> mem \<Rightarrow> buf \<Rightarrow> nat \<Rightarrow> u64 \<Rightarrow> u8 list \<Rightarrow> u32 list \<Rightarrow> bool" where
  "cell_at u p m b c key R ks \<longleftrightarrow>
     (let l = local_length p (length R) key; h = header_length p (length R) key
      in holds m b (c + unat (childPtrSize p)) (header_bytes p (length R) key)
         \<and> holds m b (c + h) (take l R)
         \<and> (l < length R \<longrightarrow> (\<exists>pg j. holds m b (c + h + l) (sqlite3Put4byte pg) \<and> chain m (u - 4) (take j ks) pg (drop l R))))"

definition cell_length :: "MemPage \<Rightarrow> nat \<Rightarrow> u64 \<Rightarrow> nat" where
  "cell_length p n key =
     max 4 (header_length p n key + local_length p n key + (if local_length p n key < n then 4 else 0))"

lemma cell_moved:
  assumes "cell_at u p m b c key R ks" "\<And>i. i < cell_length p (length R) key \<Longrightarrow> byte m' b' (c' + i) = byte m b (c + i)"
    "\<And>k. k \<in> set ks \<Longrightarrow> m' (Page k) = m (Page k)"
    "local_length p (length R) key \<le> length R"
  shows "cell_at u p m' b' c' key R ks"
proof -
  have move: "holds m' b' (c' + i) bs" if "holds m b (c + i) bs" "i + length bs \<le> cell_length p (length R) key" for i bs
    using that assms(2) by (simp add: holds_def add.assoc)
  have "chain m' v (take j ks) pg bs = chain m v (take j ks) pg bs" for v j pg bs
    using assms(3) by (intro chain_cong) (auto dest: in_set_takeD)
  then have ch: "\<exists>j. chain m (u - 4) (take j ks) pg bs \<Longrightarrow> \<exists>j. chain m' (u - 4) (take j ks) pg bs" for pg bs by simp
  let ?l = "local_length p (length R) key" and ?h = "header_length p (length R) key"
  note a = assms(1) [unfolded cell_at_def Let_def]
  have "holds m' b' (c' + unat (childPtrSize p)) (header_bytes p (length R) key)"
    using a by (intro move) (auto simp: header_length_def cell_length_def)
  moreover have "holds m' b' (c' + ?h) (take ?l R)" using a assms(4) by (intro move) (auto simp: cell_length_def)
  moreover have "\<exists>pg. holds m' b' (c' + (?h + ?l)) (sqlite3Put4byte pg) \<and> (\<exists>j. chain m' (u - 4) (take j ks) pg (drop ?l R))"
    if l: "?l < length R"
  proof -
    obtain pg where "holds m b (c + (?h + ?l)) (sqlite3Put4byte pg)" and "\<exists>j. chain m (u - 4) (take j ks) pg (drop ?l R)"
      using a l by (auto simp: add.assoc)
    then show ?thesis using ch l by (intro exI [of _ pg] conjI move) (auto simp: cell_length_def)
  qed
  ultimately show ?thesis by (simp add: cell_at_def Let_def add.assoc)
qed

lemma holds_drop: "m b = Some d \<Longrightarrow> holds m b i bs \<Longrightarrow> bs \<noteq> [] \<Longrightarrow> \<exists>rest. drop i d = bs @ rest"
  using holds_peek [of m b i bs] by (auto simp: peek_def split: if_splits) (metis append_take_drop_id)

lemma header_nonempty: "header_bytes p n key \<noteq> []"
  using varint_len_bounds [of key] by (auto simp: header_bytes_def simp flip: length_0_conv simp: put_length)

lemma cell_read:
  assumes p: "page_ok u p" "sized p (length R) key" and c: "cell_at u p m (Page pg) c key R ks"
    and fits: "c + cell_length p (length R) key \<le> u" and o: "offset + amt \<le> length R"
  shows "accessPayload m p pg c (of_nat offset) (of_nat amt) = Some (Payload (take amt (drop offset R)))"
proof -
  let ?n = "length R" and ?hd = "header_bytes p (length R) key" and ?h = "header_length p (length R) key"
  let ?l = "local_length p (length R) key"
  note c' = c [unfolded cell_at_def Let_def]
  obtain d where d: "m (Page pg) = Some d"
    using holds_peek [OF conjunct1 [OF c'] header_nonempty] by (cases "m (Page pg)") (auto simp: peek_def)
  obtain rest where "drop (c + unat (childPtrSize p)) d = ?hd @ rest"
    using holds_drop [OF d conjunct1 [OF c'] header_nonempty] by blast
  then have hd: "drop (unat (childPtrSize p)) (drop c d) = ?hd @ rest" by (simp add: add.commute)
  obtain info where i: "btreeParseCellPtr p (drop c d) = Some info" "ci_nKey info = key"
    "ci_nData info = (if intKey p then of_nat ?n else 0)" "unat (ci_nHeader info) = ?h" "unat (ci_nLocal info) = ?l" "?l \<le> ?n"
    by (rule parsed_cell [OF p hd]) blast
  have n31: "?n < 2 ^ 31" and idx: "\<not> intKey p \<Longrightarrow> key = of_nat ?n" using p(2) by (auto simp: sized_def)
  have w: "unat (of_nat k :: u32) = k" if "k \<le> ?n" for k using that n31 by (simp add: unat_of_nat take_bit_nat_eq_self)
  have "ucast (of_nat k :: u64) = (of_nat k :: u32)" if "k < 2 ^ 31" for k
    using that by (intro word_unat_eq_iff [THEN iffD2]) (simp add: unsigned_ucast_eq unsigned_of_nat take_bit_nat_eq_self)
  then have tot: "(if intKey p then 0 else ucast key) + ci_nData info = (of_nat ?n :: u32)"
    using idx i(3) n31 by simp
  define rest where "rest = amt - (if offset < ?l then (if ?l < amt + offset then ?l - offset else amt) else 0)"
  have h: "?h + ?l \<le> cell_length p ?n key" by (simp add: cell_length_def)
  have lt: "length (take ?l R) = ?l" using i(6) by simp
  have now: "(if offset < ?l then peek m (Page pg, c + ?h + offset) (amt - rest) else Some []) = Some (take (amt - rest) (drop offset R))"
  proof (cases "offset < ?l")
    case True
    have "peek m (Page pg, c + ?h + offset) (amt - rest) = Some (take (amt - rest) (drop offset (take ?l R)))"
      using c' True lt by (intro peek_sub) (auto simp: rest_def)
    moreover have "take (amt - rest) (drop offset (take ?l R)) = take (amt - rest) (drop offset R)"
      using True by (simp add: drop_take rest_def min_def)
    ultimately show ?thesis using True by simp
  qed (simp add: rest_def)
  define skip where "skip = (if offset < ?l then 0 else offset - ?l)"
  have later: "take (amt - rest) (drop offset R) @ take rest (drop skip (drop ?l R)) = take amt (drop offset R)" if "rest \<noteq> 0"
  proof (cases "offset < ?l")
    case True
    then have "offset + (amt - rest) = ?l" "rest \<le> amt" using that by (auto simp: rest_def split: if_splits)
    then show ?thesis using True take_add [of "amt - rest" rest "drop offset R"] by (simp add: skip_def add.commute)
  qed (simp add: rest_def skip_def)
  have read: "read_overflow (skip + rest) (u - 4) m skip rest pg' bs = Some (Payload (bs @ take rest (drop skip (drop ?l R))))"
    if "chain m (u - 4) ks' pg' (drop ?l R)" for bs ks' pg'
    using p(1) o that i(6) n31 by (intro chain_read) (auto simp: page_ok_def skip_def rest_def)
  have us: "unat (usableSize (pBt p)) = u" using p(1) by (simp add: page_ok_def)
  have over: "(if intKey p then 0 else ucast (ci_nKey info)) + ci_nData info < (of_nat offset + of_nat amt :: u32) = False"
    "(u < c + ?h + ?l) = False"
    unfolding i(2) tot using o fits h w [of "offset + amt"] w [of ?n] by (simp_all add: word_less_nat_alt)
  have big: "?l < ?n" if "rest \<noteq> 0" using that o by (auto simp: rest_def split: if_splits)
  have todo: "unat (of_nat offset :: u32) = offset" "unat (of_nat amt :: u32) = amt" "unat (of_nat amt + of_nat offset :: u32) = amt + offset"
    using o w [of "amt + offset"] by (auto intro: w)
  have ar: "amt - rest = (if offset < ?l then (if ?l < amt + offset then ?l - offset else amt) else 0)"
    by (auto simp: rest_def)
  have left: "amt - (amt - rest) = rest" by (simp add: rest_def)
  have acc: "accessPayload m p pg c (of_nat offset) (of_nat amt) =
    (if rest = 0 then Some (Payload (take (amt - rest) (drop offset R)))
     else case peek m (Page pg, c + ?h + ?l) 4 of
       None \<Rightarrow> None
     | Some h \<Rightarrow> read_overflow (skip + rest) (u - 4) m skip rest (sqlite3Get4byte h) (take (amt - rest) (drop offset R)))"
    unfolding accessPayload_def d i(1) Option.bind.bind_lunit Let_def over(1) todo i(4,5) us over(2) ar [symmetric] left now
    by (simp add: skip_def split: option.split)
  show ?thesis
  proof (cases "rest = 0")
    case True
    then show ?thesis using acc by simp
  next
    case False
    then obtain pg' j where q: "holds m (Page pg) (c + ?h + ?l) (sqlite3Put4byte pg')" "chain m (u - 4) (take j ks) pg' (drop ?l R)"
      using c' big by blast
    have "peek m (Page pg, c + ?h + ?l) 4 = Some (sqlite3Put4byte pg')"
      using peek_sub [OF q(1), of 0 4] put4_length [of pg'] by (auto simp flip: length_greater_0_conv)
    then show ?thesis using acc False read [OF q(2)] later by simp
  qed
qed

lemma sint_key: "n < 2 ^ 31 \<Longrightarrow> sint (of_nat n :: u64) = int n" "n < 2 ^ 31 \<Longrightarrow> sint (ucast (of_nat n :: u64) :: u32) = int n"
proof -
  assume n: "n < 2 ^ 31"
  have "signed_take_bit 63 (int n) = int n" using n by (intro signed_take_bit_int_eq_self) simp_all
  then show "sint (of_nat n :: u64) = int n" using signed_of_int [where ?'a = int and ?'b = 64, of "int n"] by simp
  have "unat (ucast (of_nat n :: u64) :: u32) = n"
    using n by (simp add: unsigned_ucast_eq unsigned_of_nat take_bit_nat_eq_self)
  then show "sint (ucast (of_nat n :: u64) :: u32) = int n" using n by (simp add: sint_small)
qed

text \<open>The header is in place before the payload is copied.\<close>

lemma header_written:
  assumes p: "page_ok u p" and m: "m Cell = Some buf" "u \<le> length buf" and n: "hasData p \<Longrightarrow> n = len"
  defines "v \<equiv> (if hasData p then sqlite3PutVarint (of_nat len) else [])"
  obtains m1 m2 c rest where "poke m (Cell, unat (childPtrSize p)) v = Some m1"
    "poke m1 (Cell, unat (childPtrSize p) + length v) (sqlite3PutVarint key) = Some m2" "m2 Cell = Some c"
    "drop (unat (childPtrSize p)) c = header_bytes p n key @ rest"
    "holds m2 Cell (unat (childPtrSize p)) (header_bytes p n key)" "\<And>k. k \<le> u \<Longrightarrow> room m2 Cell k" "\<And>b. b \<noteq> Cell \<Longrightarrow> m2 b = m b"
proof -
  let ?h = "unat (childPtrSize p)"
  have hb: "header_bytes p n key = v @ sqlite3PutVarint key" using n by (auto simp: header_bytes_def v_def)
  have small: "?h + length (v @ sqlite3PutVarint key) \<le> u"
    using header_small [OF p, of n key] p unfolding hb [symmetric] by (simp add: header_length_def page_ok_def)
  then have "room m Cell (?h + length v)" using m by (simp add: room_def)
  then obtain m1 where m1: "poke m (Cell, ?h) v = Some m1" "\<And>b n. room m1 b n = room m b n" "\<And>b. b \<noteq> Cell \<Longrightarrow> m1 b = m b"
    "\<And>b j. byte m1 b j = (if b = Cell \<and> ?h \<le> j \<and> j < ?h + length v then Some (v ! (j - ?h)) else byte m b j)"
    by (rule poke_effect) blast
  have "room m1 Cell (?h + length v + length (sqlite3PutVarint key))" unfolding m1(2) using small m by (simp add: room_def)
  then obtain m2 where m2: "poke m1 (Cell, ?h + length v) (sqlite3PutVarint key) = Some m2" "\<And>b n. room m2 b n = room m1 b n"
    "\<And>b. b \<noteq> Cell \<Longrightarrow> m2 b = m1 b"
    "\<And>b j. byte m2 b j = (if b = Cell \<and> ?h + length v \<le> j \<and> j < ?h + length v + length (sqlite3PutVarint key)
        then Some (sqlite3PutVarint key ! (j - (?h + length v))) else byte m1 b j)"
    by (rule poke_effect) blast
  have hd: "holds m2 Cell ?h (header_bytes p n key)"
    unfolding hb holds_append by (auto simp: holds_def m1 m2)
  have room: "room m2 Cell k" if "k \<le> u" for k unfolding m2(2) m1(2) using that m by (simp add: room_def)
  then obtain c where c: "m2 Cell = Some c" by (auto simp: room_def)
  obtain rest where "drop ?h c = header_bytes p n key @ rest" using holds_drop [OF c hd header_nonempty] by blast
  then show thesis using that m1 m2 c hd room by simp
qed

lemma cell_written:
  assumes p: "page_ok u p" and m: "m Cell = Some buf" "u \<le> length buf" and pgs: "fresh_pages u pgs"
    and R: "R = cell_payload p k pData nZero" "length R < 2 ^ 31" "length R \<le> length pgs * (u - 4)"
    and key: "\<not> intKey p \<Longrightarrow> pKey = Some k \<and> key = of_nat (length k)"
  shows "\<exists>m' sz. fillInCell p m (map Some pgs) pKey key pData (length pData) nZero = Some (Filled m' sz)
    \<and> unat sz = cell_length p (length R) key \<and> cell_at u p m' Cell 0 key R (map fst pgs)
    \<and> (\<forall>b. b \<noteq> Cell \<and> b \<notin> Page ` set (map fst pgs) \<longrightarrow> m' b = m b)"
proof -
  let ?n = "length R" and ?hd = "header_bytes p (length R) key" and ?h = "header_length p (length R) key"
  let ?l = "local_length p (length R) key"
  have us: "unat (usableSize (pBt p)) = u" "4 < u" and hp: "hasData p \<Longrightarrow> intKey p"
    and child: "unat (childPtrSize p) = (if leaf p = 0 then 4 else 0)" using p by (auto simp: page_ok_def)
  have sz: "sized p ?n key" using R key by (auto simp: sized_def cell_payload_def)
  have n: "hasData p \<Longrightarrow> ?n = length pData + nZero" using R hp by (simp add: cell_payload_def)
  obtain m1 m2 c rest where w: "poke m (Cell, unat (childPtrSize p)) (if hasData p then sqlite3PutVarint (of_nat (length pData + nZero)) else []) = Some m1"
    "poke m1 (Cell, unat (childPtrSize p) + length (if hasData p then sqlite3PutVarint (of_nat (length pData + nZero)) else [])) (sqlite3PutVarint key) = Some m2"
    "m2 Cell = Some c" and c: "drop (unat (childPtrSize p)) c = ?hd @ rest"
    and hd: "holds m2 Cell (unat (childPtrSize p)) ?hd" and room2: "\<And>k. k \<le> u \<Longrightarrow> room m2 Cell k" and same: "\<And>b. b \<noteq> Cell \<Longrightarrow> m2 b = m b"
    by (rule header_written [where m = m and n = "length R" and len = "length pData + nZero" and key = key, OF p m n]) blast+
  obtain info where i: "btreeParseCellPtr p c = Some info" "unat (ci_nLocal info) = ?l" "?l \<le> ?n" "?l + 35 \<le> u"
    "?l < ?n \<Longrightarrow> unat (ci_iOverflow info) = ?l + ?h" "unat (ci_nSize info) = cell_length p ?n key"
    unfolding cell_length_def by (rule parsed_cell [OF p sz c]) blast
  have h: "?h \<le> 22" using header_small [OF p] .
  have len: "unat (childPtrSize p) + length (if hasData p then sqlite3PutVarint (of_nat (length pData + nZero)) else [])
      + length (sqlite3PutVarint key) = ?h"
    using n by (auto simp: header_length_def header_bytes_def)
  define s where "s = \<lparr>f_mem = m2, f_nPayload = ?n, f_pSrc = (if intKey p then pData else k),
      f_nSrc = (if intKey p then (if hasData p then int (length pData) else 0) else int ?n),
      f_spaceLeft = ?l, f_pPayload = (Cell, ?h), f_pPrior = (Cell, unat (ci_iOverflow info)), f_allocs = map Some pgs\<rparr>"
  have src: "\<exists>z. R = take (nat (f_nSrc s)) (f_pSrc s) @ replicate z 0" "nat (f_nSrc s) \<le> length (f_pSrc s)"
    using R by (auto simp: s_def cell_payload_def)
  have "ready u s R pgs"
    unfolding ready_def using src pgs i h R(3) by (auto simp: s_def apart_def intro!: room2)
  then obtain m' where m': "fill_payload ?n u pData 0 s = Some (Inr m')" "left_by u s m' R pgs"
    using fill_loop [of u s R pgs ?n pData] us(2) by auto
  have "fillInCell p m (map Some pgs) pKey key pData (length pData) nZero = Some (Filled m' (ci_nSize info))"
  proof -
    consider "intKey p" "hasData p" | "intKey p" "\<not> hasData p" | "\<not> intKey p" "\<not> hasData p" using hp by blast
    then show ?thesis
    proof cases
      case 1
      then show ?thesis
        unfolding fillInCell_def Let_def child [symmetric] using w len n m'(1) i(1,2)
        by (simp add: us(1) s_def)
    next
      case 2
      then have "?n = 0" using R by (simp add: cell_payload_def)
      then show ?thesis
        unfolding fillInCell_def Let_def child [symmetric] using 2 w len m'(1) i(1,2)
        by (simp add: us(1) s_def)
    next
      case 3
      then have "pKey = Some k" "key = of_nat ?n" using R key by (auto simp: cell_payload_def)
      moreover have "k = R" using 3 R by (simp add: cell_payload_def)
      ultimately show ?thesis
        unfolding fillInCell_def Let_def child [symmetric] using 3 w len m'(1) i(1,2) R(2)
        by (simp add: us(1) s_def sint_key)
    qed
  qed
  moreover have "cell_at u p m' Cell 0 key R (map fst pgs)"
  proof -
    have f: "filled m2 m' (u - 4) R ?l Cell ?h Cell (unat (ci_iOverflow info)) (map fst pgs)"
      using m'(2) by (simp add: left_by_def s_def)
    have "byte m' Cell j = byte m2 Cell j" if "j < ?h" for j
      using f [unfolded filled_def, THEN conjunct2, THEN conjunct2, THEN conjunct2, rule_format, of Cell j] i(5) that
      by (cases "?l < ?n") auto
    then have "holds m' Cell (unat (childPtrSize p)) ?hd"
      using hd by (subst holds_cong [where m' = m2]) (auto simp: header_length_def)
    then show ?thesis using f [unfolded filled_def] i(5) by (auto simp: cell_at_def Let_def add.commute)
  qed
  moreover have "m' b = m b" if "b \<noteq> Cell" "b \<notin> Page ` set (map fst pgs)" for b
    using m'(2) that same [of b] by (simp add: left_by_def filled_def s_def)
  ultimately show ?thesis using i(6) by blast
qed

text \<open>Writing and reading together, before the property of it is stated.\<close>

lemma payload_stored:
  assumes "decodeFlags (lockBtree_limits usable) flagByte = Some p" "480 \<le> unat usable" "unat usable \<le> 65536"
    and "m Cell = Some buf" "unat usable \<le> length buf" "fresh_pages (unat usable) pgs"
    and "R = cell_payload p k pData nZero" "length R < 2 ^ 31" "length R \<le> length pgs * (unat usable - 4)"
    and "\<not> intKey p \<Longrightarrow> pKey = Some k \<and> key = of_nat (length k)"
  shows "\<exists>m' n. fillInCell p m (map Some pgs) pKey key pData (length pData) nZero = Some (Filled m' n)
    \<and> unat n \<le> unat usable \<and> (\<forall>pg. pg \<notin> set (map fst pgs) \<longrightarrow> m' (Page pg) = m (Page pg))
    \<and> (\<forall>m'' pg c offset amt. (\<forall>i < unat n. byte m'' (Page pg) (c + i) = byte m' Cell i) \<longrightarrow> c + unat n \<le> unat usable
         \<longrightarrow> (\<forall>ov \<in> set (map fst pgs). m'' (Page ov) = m' (Page ov)) \<longrightarrow> offset + amt \<le> length R
         \<longrightarrow> accessPayload m'' p pg c (of_nat offset) (of_nat amt) = Some (Payload (take amt (drop offset R))))"
proof -
  note p = decoded_page [OF assms(1-3)]
  have s: "sized p (length R) key" using assms(7,8,10) by (auto simp: sized_def cell_payload_def)
  obtain m' sz where w: "fillInCell p m (map Some pgs) pKey key pData (length pData) nZero = Some (Filled m' sz)"
    "unat sz = cell_length p (length R) key" "cell_at (unat usable) p m' Cell 0 key R (map fst pgs)"
    "\<And>b. b \<noteq> Cell \<Longrightarrow> b \<notin> Page ` set (map fst pgs) \<Longrightarrow> m' b = m b"
    using cell_written [where m = m, OF p assms(4-10)] by blast
  have l: "local_length p (length R) key \<le> length R \<and> local_length p (length R) key + 35 \<le> unat usable"
    by (rule parsed_cell [OF p s, of "replicate (unat (childPtrSize p)) 0 @ header_bytes p (length R) key" "[]"]) simp_all
  have "accessPayload m'' p pg c (of_nat offset) (of_nat amt) = Some (Payload (take amt (drop offset R)))"
    if "\<forall>i < unat sz. byte m'' (Page pg) (c + i) = byte m' Cell i" "c + unat sz \<le> unat usable"
      "\<forall>ov \<in> set (map fst pgs). m'' (Page ov) = m' (Page ov)" "offset + amt \<le> length R" for m'' pg c offset amt
  proof (rule cell_read [OF p s])
    show "cell_at (unat usable) p m'' (Page pg) c key R (map fst pgs)"
      by (rule cell_moved [OF w(3)]) (use that w(2) l in auto)
  qed (use that w(2) in auto)
  moreover have "unat sz \<le> unat usable"
    using l header_small [OF p, of "length R" key] unfolding w(2) cell_length_def by auto
  moreover have "m' (Page pg) = m (Page pg)" if "pg \<notin> set (map fst pgs)" for pg using w(4) [of "Page pg"] that by auto
  ultimately show ?thesis using w(1) by blast
qed

section \<open>Properties\<close>

text \<open>
  C36. Measuring a cell and parsing it agree. For every page that \<open>decodeFlags\<close> accepts and every sequence of bytes,
  \<open>cellSizePtr\<close>, which skips the key without decoding it, gives the size that \<open>btreeParseCellPtr\<close> finds, and
  both read past the end of the bytes on the same inputs. (The debug assertion at the end of \<open>cellSizePtr\<close>.)
\<close>

theorem cell_size_is_parsed:
  assumes "decodeFlags (lockBtree_limits usable) flagByte = Some p" "480 \<le> unat usable" "unat usable \<le> 65536"
  shows "cellSizePtr p pCell = map_option ci_nSize (btreeParseCellPtr p pCell)"
  by (rule cellSizePtr_parse [OF decoded_page [OF assms]])

text \<open>
  C35. Payloads of any length are stored and read back. On every kind of page, with a scratch buffer of a page
  and enough new pages from the allocator, \<open>fillInCell\<close> succeeds, changes no page but those, and leaves a cell that fits a
  page and such that, once it is anywhere on a page, \<open>accessPayload\<close> reads every part of the payload, whatever of it is on the page
  and on the chain of overflow pages.
\<close>

theorem payload_roundtrip:
  assumes "decodeFlags (lockBtree_limits usable) flagByte = Some p" "480 \<le> unat usable" "unat usable \<le> 65536"
    and "m Cell = Some buf" "unat usable \<le> length buf" "fresh_pages (unat usable) pgs"
    and "R = cell_payload p k pData nZero" "length R < 2 ^ 31" "length R \<le> length pgs * (unat usable - 4)"
    and "\<not> intKey p \<Longrightarrow> pKey = Some k \<and> key = of_nat (length k)"
  shows "\<exists>m' n. fillInCell p m (map Some pgs) pKey key pData (length pData) nZero = Some (Filled m' n)
    \<and> unat n \<le> unat usable \<and> (\<forall>pg. pg \<notin> set (map fst pgs) \<longrightarrow> m' (Page pg) = m (Page pg))
    \<and> (\<forall>m'' pg c offset amt. (\<forall>i < unat n. byte m'' (Page pg) (c + i) = byte m' Cell i) \<longrightarrow> c + unat n \<le> unat usable
         \<longrightarrow> (\<forall>ov \<in> set (map fst pgs). m'' (Page ov) = m' (Page ov)) \<longrightarrow> offset + amt \<le> length R
         \<longrightarrow> accessPayload m'' p pg c (of_nat offset) (of_nat amt) = Some (Payload (take amt (drop offset R))))"
  by (rule payload_stored [where m = m, OF assms])

section \<open>A row of a table of 480-byte pages\<close>

definition sample_page :: MemPage where
  "sample_page = \<lparr>intKey = True, leaf = 1, hasData = True, childPtrSize = 0, max1bytePayload = 94, maxLocal = 445, minLocal = 35,
     pBt = lockBtree_limits 480\<rparr>"

lemma sample_page_decoded: "decodeFlags (lockBtree_limits 480) 13 = Some sample_page"
  by code_simp

definition sample_mem :: mem where
  "sample_mem = [Cell \<mapsto> replicate 480 0, Page 2 \<mapsto> replicate 480 0]"

definition sample_pages :: "(u32 \<times> u8 list) list" where
  "sample_pages = [(7, replicate 480 1), (9, replicate 480 2), (3, replicate 480 3)]"

theorem cell_size_is_parsed_witness:
  "cellSizePtr sample_page [136, 76, 5] = map_option ci_nSize (btreeParseCellPtr sample_page [136, 76, 5])
   \<and> cellSizePtr sample_page [136, 76, 5] = Some 155"
proof
  show "cellSizePtr sample_page [136, 76, 5] = map_option ci_nSize (btreeParseCellPtr sample_page [136, 76, 5])"
    by (rule cell_size_is_parsed [OF sample_page_decoded]) simp_all
  show "cellSizePtr sample_page [136, 76, 5] = Some 155" by code_simp
qed

theorem payload_roundtrip_witness:
  "\<exists>m' n. fillInCell sample_page sample_mem (map Some sample_pages) None 5 (replicate 1000 7) 1000 100 = Some (Filled m' n)
     \<and> accessPayload (m'(Page 2 := m' Cell)) sample_page 2 0 990 30 = Some (Payload (replicate 10 7 @ replicate 20 0))"
proof -
  define R :: "u8 list" where "R = replicate 1000 7 @ replicate 100 0"
  have len: "length R = 1100" by (simp add: R_def)
  have c: "R = cell_payload sample_page k (replicate 1000 7) 100" for k
    by (simp add: cell_payload_def sample_page_def R_def)
  obtain m' n where f: "fillInCell sample_page sample_mem (map Some sample_pages) None 5 (replicate 1000 7) (length (replicate 1000 (7 :: u8))) 100 = Some (Filled m' n)"
    "unat n \<le> 480" "\<forall>m'' pg c offset amt. (\<forall>i < unat n. byte m'' (Page pg) (c + i) = byte m' Cell i) \<longrightarrow> c + unat n \<le> 480
         \<longrightarrow> (\<forall>ov \<in> set (map fst sample_pages). m'' (Page ov) = m' (Page ov)) \<longrightarrow> offset + amt \<le> length R
         \<longrightarrow> accessPayload m'' sample_page pg c (of_nat offset) (of_nat amt) = Some (Payload (take amt (drop offset R)))"
    using payload_roundtrip [where m = sample_mem and buf = "replicate 480 0" and pgs = sample_pages and pKey = None and key = 5,
        OF sample_page_decoded _ _ _ _ _ c [of "[]"]]
    by (auto simp: len sample_mem_def sample_pages_def fresh_pages_def sample_page_def)
  have "accessPayload (m'(Page 2 := m' Cell)) sample_page 2 0 (of_nat 990) (of_nat 30) = Some (Payload (take 30 (drop 990 R)))"
    using f(2) by (intro f(3) [rule_format]) (auto simp: byte_def sample_pages_def len)
  then show ?thesis using f(1) by (auto simp: R_def)
qed

end
