(* ===== verification/Storage.thy ===== *)
theory Storage
  imports Database Rows Payload
begin

text \<open>
  The tables of the gateway as SQLite stores them: each row of the schema in \<open>db/mp_db.cc\<close> is a record of
  \<open>Rows\<close> under its row id, written from the values that \<open>MPDbSQLite\<close> binds and read through the columns it asks for.
  The first column, \<open>INTEGER PRIMARY KEY\<close>, is the row id and null in the record. The rows of \<open>Database\<close> are what
  is read back; a record is the payload of a cell of \<open>Payload\<close>.
\<close>

section \<open>Values that are bound and read\<close>

definition sql_int :: "int \<Rightarrow> Mem" where "sql_int i = MEM_Int (word_of_int i)"

fun sql_text :: "cstr \<Rightarrow> Mem" where
  "sql_text None = MEM_Null"
| "sql_text (Some s) = MEM_Str (map of_char s)"

text \<open>What the queries read: null is 0 or no text. The conversions of other types are not needed and are None.\<close>

fun column_int64 :: "Mem \<Rightarrow> int option" where
  "column_int64 (MEM_Int i) = Some (sint i)"
| "column_int64 MEM_Null = Some 0"
| "column_int64 _ = None"

definition column_int :: "Mem \<Rightarrow> int option" where
  "column_int m = map_option (signed_take_bit 31) (column_int64 m)"

fun column_text :: "Mem \<Rightarrow> cstr option" where
  "column_text (MEM_Str z) = Some (Some (map (\<lambda>b. char_of (unat b)) z))"
| "column_text MEM_Null = Some None"
| "column_text _ = None"

section \<open>The rows of the three tables\<close>

definition account_cells :: "MPDbAccount \<Rightarrow> Mem list" where
  "account_cells a =
     [MEM_Null, sql_int (acc_nSoftVersion a), sql_int (acc_nDatabaseVersion a), sql_text (acc_pName a), sql_text (acc_pEmail a),
      sql_text (acc_pPassword a), sql_text (acc_pAuthToken a), sql_int (if acc_bActivated a then 1 else 0),
      sql_text (acc_pActivationCode a), MEM_Int (acc_nEpoch a)]"

definition account_sip_cells :: "MPDbAccountSip \<Rightarrow> Mem list" where
  "account_sip_cells s = [MEM_Null, sql_text (sip_pAddress64 s), sql_int (sip_nAccountId s)]"

definition caller_cells :: "MPDbAccountSipCaller \<Rightarrow> Mem list" where
  "caller_cells k =
     [MEM_Null, sql_text (clr_pDisplayName k), sql_text (clr_pImpu k), sql_text (clr_pImpi k), sql_text (clr_pRealm k),
      sql_text (clr_pHa1 k), sql_int (clr_nAccountSipId k)]"

text \<open>A row on disk: its row id and its record.\<close>

type_synonym disk_row = "int \<times> u8 list"

definition store_row :: "int \<Rightarrow> nat \<Rightarrow> int \<Rightarrow> Mem list \<Rightarrow> disk_row option" where
  "store_row ff limit nId cells = map_option (\<lambda>(z, nZero). (nId, z @ replicate nZero 0)) (OP_MakeRecord ff limit cells)"

text \<open>A column of the row under the cursor of a table with \<open>nField\<close> columns.\<close>

definition row_column :: "nat \<Rightarrow> nat \<Rightarrow> disk_row \<Rightarrow> nat \<Rightarrow> Mem option" where
  "row_column nField limit row i =
     (if i = 0 then Some (sql_int (fst row))
      else case OP_Column nField i MEM_Null limit (snd row) of Some (Column m) \<Rightarrow> Some m | _ \<Rightarrow> None)"

definition read_account :: "tsk_api \<Rightarrow> draws \<Rightarrow> nat \<Rightarrow> disk_row \<Rightarrow> MPDbAccount option" where
  "read_account T r limit row =
     (let col = row_column 10 limit row in do {
        nId \<leftarrow> Option.bind (col 0) column_int64;
        nSoftVersion \<leftarrow> Option.bind (col 1) column_int;
        nDatabaseVersion \<leftarrow> Option.bind (col 2) column_int;
        pcName \<leftarrow> Option.bind (col 3) column_text;
        pcEmail \<leftarrow> Option.bind (col 4) column_text;
        pcPassword \<leftarrow> Option.bind (col 5) column_text;
        pctAuthToken \<leftarrow> Option.bind (col 6) column_text;
        bActivated \<leftarrow> Option.bind (col 7) column_int;
        pcActivationCode \<leftarrow> Option.bind (col 8) column_text;
        new_MPDbAccount T r nId nSoftVersion nDatabaseVersion pcName pcEmail pcPassword pctAuthToken (bActivated \<noteq> 0) pcActivationCode 0 })"

text \<open>As in the code, the account id of an address is read from column 0.\<close>

definition read_account_sip :: "nat \<Rightarrow> disk_row \<Rightarrow> MPDbAccountSip option" where
  "read_account_sip limit row =
     (let col = row_column 3 limit row in do {
        nId \<leftarrow> Option.bind (col 0) column_int64;
        pcAddress \<leftarrow> Option.bind (col 1) column_text;
        nAccountId \<leftarrow> Option.bind (col 0) column_int64;
        Some (new_MPDbAccountSip nId pcAddress nAccountId) })"

definition read_caller :: "nat \<Rightarrow> disk_row \<Rightarrow> MPDbAccountSipCaller option" where
  "read_caller limit row =
     (let col = row_column 7 limit row in do {
        nAccountSipCallerId \<leftarrow> Option.bind (col 0) column_int64;
        pcDisplayName \<leftarrow> Option.bind (col 1) column_text;
        pcImpu \<leftarrow> Option.bind (col 2) column_text;
        pcImpi \<leftarrow> Option.bind (col 3) column_text;
        pcRealm \<leftarrow> Option.bind (col 4) column_text;
        pcHa1 \<leftarrow> Option.bind (col 5) column_text;
        nAccountSipId \<leftarrow> Option.bind (col 6) column_int64;
        Some (new_MPDbAccountSipCaller nAccountSipCallerId pcDisplayName pcImpu pcImpi pcRealm pcHa1 nAccountSipId) })"

text \<open>
  The query for an account, over the stored rows: the first whose e-mail column has the bytes of the
  argument. (The engine finds it through the index of the column, which is unique.)
\<close>

fun query_account :: "tsk_api \<Rightarrow> draws \<Rightarrow> nat \<Rightarrow> string \<Rightarrow> disk_row list \<Rightarrow> MPDbAccount option option" where
  "query_account T r limit email [] = Some None"
| "query_account T r limit email (row # rows) =
     (case row_column 10 limit row 4 of
        None \<Rightarrow> None
      | Some m \<Rightarrow> if m = sql_text (Some email) then map_option Some (read_account T r limit row)
                 else query_account T r limit email rows)"

definition store_accounts :: "int \<Rightarrow> nat \<Rightarrow> sqdb \<Rightarrow> disk_row list option" where
  "store_accounts ff limit d = those (map (\<lambda>a. store_row ff limit (acc_nId a) (account_cells a)) (db_account d))"

section \<open>Reading back\<close>

definition int64 :: "int \<Rightarrow> bool" where "int64 i \<longleftrightarrow> - (2 ^ 63) \<le> i \<and> i < 2 ^ 63"
definition int32 :: "int \<Rightarrow> bool" where "int32 i \<longleftrightarrow> - (2 ^ 31) \<le> i \<and> i < 2 ^ 31"

fun text_fits :: "cstr \<Rightarrow> bool" where
  "text_fits None = True"
| "text_fits (Some s) = (length s \<le> 1000000000)"

definition account_fits :: "MPDbAccount \<Rightarrow> bool" where
  "account_fits a \<longleftrightarrow> int64 (acc_nId a) \<and> int32 (acc_nSoftVersion a) \<and> int32 (acc_nDatabaseVersion a) \<and> text_fits (acc_pName a)
     \<and> text_fits (acc_pEmail a) \<and> text_fits (acc_pPassword a) \<and> text_fits (acc_pAuthToken a) \<and> text_fits (acc_pActivationCode a)"

definition sip_fits :: "MPDbAccountSip \<Rightarrow> bool" where
  "sip_fits s \<longleftrightarrow> int64 (sip_nId s) \<and> text_fits (sip_pAddress64 s)"

definition caller_fits :: "MPDbAccountSipCaller \<Rightarrow> bool" where
  "caller_fits k \<longleftrightarrow> int64 (clr_nId k) \<and> text_fits (clr_pDisplayName k) \<and> text_fits (clr_pImpu k) \<and> text_fits (clr_pImpi k)
     \<and> text_fits (clr_pRealm k) \<and> text_fits (clr_pHa1 k) \<and> int64 (clr_nAccountSipId k)"

lemma int64_read: "int64 i \<Longrightarrow> column_int64 (sql_int i) = Some i"
  by (simp add: int64_def sql_int_def signed_of_int signed_take_bit_int_eq_self)

lemma int32_read: "int32 i \<Longrightarrow> column_int (sql_int i) = Some i"
proof -
  assume i: "int32 i"
  then have "int64 i" by (simp add: int32_def int64_def)
  then show ?thesis using i by (simp add: column_int_def int64_read int32_def signed_take_bit_int_eq_self)
qed

lemma text_read: "column_text (sql_text s) = Some s"
proof -
  have "char_of (unat (of_char c :: u8)) = c" for c
  proof -
    have "(of_char c :: nat) mod 256 = of_char c" by (rule of_char_mod_256)
    then have "unat (of_nat (of_char c) :: u8) = of_char c" by (simp add: unsigned_of_nat take_bit_eq_mod)
    then show ?thesis by (simp only: of_nat_of_char char_of_char)
  qed
  then show ?thesis by (cases s) (simp_all add: comp_def)
qed

lemma text_is: "sql_text s = MEM_Str (map of_char e) \<longleftrightarrow> s = Some e"
proof
  assume "sql_text s = MEM_Str (map of_char e)"
  then have "column_text (sql_text s) = column_text (sql_text (Some e))" by simp
  then show "s = Some e" unfolding text_read by simp
qed simp

text \<open>Without blobs nothing is left out of the record, which then is within the limit.\<close>

fun plain_cell :: "Mem \<Rightarrow> bool" where
  "plain_cell (MEM_Real _) = False"
| "plain_cell (MEM_Blob _ _) = False"
| "plain_cell m = (bytes_total m \<le> 1000000000)"

lemma plain_cell_ok: "plain_cell m \<Longrightarrow> mem_ok m \<and> expand_blob m = m \<and> stored m = m \<and> zero_count m = 0"
  by (cases m) (simp_all add: mem_ok_def)

lemma plain_sql [simp]: "plain_cell (sql_int i)" "text_fits s \<Longrightarrow> plain_cell (sql_text s)"
  by (simp add: sql_int_def, cases s, simp_all)

lemma plain_record:
  assumes "OP_MakeRecord ff limit cells = Some (z, nz)" "\<forall>m \<in> set cells. plain_cell m" "length cells \<le> 2000"
  shows "nz = 0" "length z \<le> limit"
proof -
  have expand: "map expand_blob cells = cells" using assms(2) plain_cell_ok by (simp add: map_idI)
  have ok: "\<forall>m \<in> set cells. expanded m" using assms(2) plain_cell_ok by (auto simp: expanded_def)
  have tail: "zero_tail ff 0 cells = 0" using assms(2) by (induction cells) (auto dest: plain_cell_ok)
  then show nz: "nz = 0" using assms(1) expand by (simp add: OP_MakeRecord_def Let_def split: if_splits)
  have "z = record_bytes ff cells"
    using make_record [OF assms(1) _ assms(3)] ok nz expand by (simp add: expanded_def)
  then show "length z \<le> limit"
    using record_parts(8) [OF ok assms(3), of ff] assms(1) expand tail by (simp add: OP_MakeRecord_def Let_def split: if_splits)
qed

lemma stored_column:
  assumes "store_row ff limit nId cells = Some row" "\<forall>m \<in> set cells. plain_cell m" "length cells \<le> 2000" "limit \<le> 1000000000"
  shows "row_column (length cells) limit row 0 = Some (sql_int nId)"
    and "0 < i \<Longrightarrow> i < length cells \<Longrightarrow> row_column (length cells) limit row i = Some (cells ! i)"
proof -
  obtain z nz where z: "OP_MakeRecord ff limit cells = Some (z, nz)" "row = (nId, z @ replicate nz 0)"
    using assms(1) by (auto simp: store_row_def)
  note plain = plain_record [OF z(1) assms(2,3)]
  show "row_column (length cells) limit row 0 = Some (sql_int nId)" by (simp add: row_column_def z(2))
  assume i: "0 < i" "i < length cells"
  have "\<forall>m \<in> set cells. mem_ok m" using assms(2) plain_cell_ok by blast
  moreover have "stored (cells ! i) = cells ! i" using assms(2) i(2) plain_cell_ok by simp
  ultimately show "row_column (length cells) limit row i = Some (cells ! i)"
    using row_read [OF z(1) _ assms(3) order.refl i(2) _ assms(4), of MEM_Null] i plain z(2) by (simp add: row_column_def)
qed

section \<open>The rows of the model are those on disk\<close>

lemma account_stored:
  assumes "store_row ff limit (acc_nId a) (account_cells a) = Some row" "account_fits a" "limit \<le> 1000000000"
  shows "read_account T r limit row = new_MPDbAccount T r (acc_nId a) (acc_nSoftVersion a) (acc_nDatabaseVersion a) (acc_pName a)
      (acc_pEmail a) (acc_pPassword a) (acc_pAuthToken a) (acc_bActivated a) (acc_pActivationCode a) 0"
    and "row_column 10 limit row 4 = Some (sql_text (acc_pEmail a))"
proof -
  have fits: "int64 (acc_nId a)" "int32 (acc_nSoftVersion a)" "int32 (acc_nDatabaseVersion a)" "text_fits (acc_pName a)"
    "text_fits (acc_pEmail a)" "text_fits (acc_pPassword a)" "text_fits (acc_pAuthToken a)" "text_fits (acc_pActivationCode a)"
    using assms(2) by (simp_all add: account_fits_def)
  have flag: "int32 (if acc_bActivated a then 1 else 0)" by (simp add: int32_def)
  have "\<forall>m \<in> set (account_cells a). plain_cell m" "length (account_cells a) = 10" by (simp_all add: account_cells_def fits)
  note col = stored_column [OF assms(1) this(1) _ assms(3), unfolded this(2)]
  have cols: "row_column 10 limit row 0 = Some (sql_int (acc_nId a))" "row_column 10 limit row 1 = Some (sql_int (acc_nSoftVersion a))"
    "row_column 10 limit row 2 = Some (sql_int (acc_nDatabaseVersion a))" "row_column 10 limit row 3 = Some (sql_text (acc_pName a))"
    "row_column 10 limit row 4 = Some (sql_text (acc_pEmail a))" "row_column 10 limit row 5 = Some (sql_text (acc_pPassword a))"
    "row_column 10 limit row 6 = Some (sql_text (acc_pAuthToken a))"
    "row_column 10 limit row 7 = Some (sql_int (if acc_bActivated a then 1 else 0))"
    "row_column 10 limit row 8 = Some (sql_text (acc_pActivationCode a))"
    by (simp_all only: col) (simp_all add: account_cells_def)
  show "row_column 10 limit row 4 = Some (sql_text (acc_pEmail a))" by (rule cols)
  show "read_account T r limit row = new_MPDbAccount T r (acc_nId a) (acc_nSoftVersion a) (acc_nDatabaseVersion a) (acc_pName a)
      (acc_pEmail a) (acc_pPassword a) (acc_pAuthToken a) (acc_bActivated a) (acc_pActivationCode a) 0"
    unfolding read_account_def Let_def cols Option.bind.bind_lunit int64_read [OF fits(1)] int32_read [OF fits(2)]
      int32_read [OF fits(3)] int32_read [OF flag] text_read by simp
qed

text \<open>The rows of the addresses and callers.\<close>

lemma sip_stored:
  assumes "store_row ff limit (sip_nId s) (account_sip_cells s) = Some row" "sip_fits s" "limit \<le> 1000000000"
  shows "read_account_sip limit row = Some (row_to_sip s)"
proof -
  have fits: "int64 (sip_nId s)" "text_fits (sip_pAddress64 s)" using assms(2) by (simp_all add: sip_fits_def)
  have "\<forall>m \<in> set (account_sip_cells s). plain_cell m" "length (account_sip_cells s) = 3" by (simp_all add: account_sip_cells_def fits)
  note col = stored_column [OF assms(1) this(1) _ assms(3), unfolded this(2)]
  have cols: "row_column 3 limit row 0 = Some (sql_int (sip_nId s))" "row_column 3 limit row 1 = Some (sql_text (sip_pAddress64 s))"
    by (simp_all only: col) (simp_all add: account_sip_cells_def)
  show ?thesis
    unfolding read_account_sip_def Let_def cols Option.bind.bind_lunit int64_read [OF fits(1)] text_read by (simp add: row_to_sip_def)
qed

lemma caller_stored:
  assumes "store_row ff limit (clr_nId k) (caller_cells k) = Some row" "caller_fits k" "limit \<le> 1000000000"
  shows "read_caller limit row = Some (row_to_caller k)"
proof -
  have fits: "int64 (clr_nId k)" "text_fits (clr_pDisplayName k)" "text_fits (clr_pImpu k)" "text_fits (clr_pImpi k)"
    "text_fits (clr_pRealm k)" "text_fits (clr_pHa1 k)" "int64 (clr_nAccountSipId k)"
    using assms(2) by (simp_all add: caller_fits_def)
  have "\<forall>m \<in> set (caller_cells k). plain_cell m" "length (caller_cells k) = 7" by (simp_all add: caller_cells_def fits)
  note col = stored_column [OF assms(1) this(1) _ assms(3), unfolded this(2)]
  have cols: "row_column 7 limit row 0 = Some (sql_int (clr_nId k))" "row_column 7 limit row 1 = Some (sql_text (clr_pDisplayName k))"
    "row_column 7 limit row 2 = Some (sql_text (clr_pImpu k))" "row_column 7 limit row 3 = Some (sql_text (clr_pImpi k))"
    "row_column 7 limit row 4 = Some (sql_text (clr_pRealm k))" "row_column 7 limit row 5 = Some (sql_text (clr_pHa1 k))"
    "row_column 7 limit row 6 = Some (sql_int (clr_nAccountSipId k))"
    by (simp_all only: col) (simp_all add: caller_cells_def)
  show ?thesis
    unfolding read_caller_def Let_def cols Option.bind.bind_lunit int64_read [OF fits(1)] int64_read [OF fits(7)] text_read
    by (simp add: row_to_caller_def)
qed

lemma query_stored:
  assumes "those (map (\<lambda>a. store_row ff limit (acc_nId a) (account_cells a)) as) = Some rows"
    and "\<forall>a \<in> set as. account_fits a" "limit \<le> 1000000000"
  shows "query_account T r limit email rows =
    (case find (\<lambda>a. acc_pEmail a = Some email) as of
       None \<Rightarrow> Some None
     | Some a \<Rightarrow> map_option Some (new_MPDbAccount T r (acc_nId a) (acc_nSoftVersion a) (acc_nDatabaseVersion a) (acc_pName a)
         (acc_pEmail a) (acc_pPassword a) (acc_pAuthToken a) (acc_bActivated a) (acc_pActivationCode a) 0))"
  using assms(1,2)
proof (induction as arbitrary: rows)
  case (Cons a as)
  obtain row rest where row: "store_row ff limit (acc_nId a) (account_cells a) = Some row"
    and rest: "those (map (\<lambda>a. store_row ff limit (acc_nId a) (account_cells a)) as) = Some rest" "rows = row # rest"
    using Cons.prems(1) by (auto split: option.splits)
  note stored = account_stored [OF row _ assms(3)]
  show ?case using stored Cons.IH [OF rest(1)] Cons.prems(2) by (simp add: rest(2) text_is)
qed simp

text \<open>
  C32. The rows of the account table as records on disk are the rows of the database model: asking for an account by
  its e-mail address gives what reading the columns of the stored record through \<open>OP_Column\<close> gives, for every account
  whose version numbers are 32-bit and whose texts are within SQLite's limit.
\<close>

theorem stored_accounts_refine:
  assumes "m_bOpened c" "store_accounts ff limit (c_db c) = Some rows"
    and "\<forall>a \<in> set (db_account (c_db c)). account_fits a" "limit \<le> 1000000000"
  shows "map_option fst (selectAccountByEmail T r no_faults email c) = query_account T r limit email rows"
proof (cases "sSQL_SelectAccountByEmail email (c_db c)")
  case None
  then obtain c' where "run_select no_faults 1 (sSQL_SelectAccountByEmail email) c = Some (None, c')"
    using run_select_no_faults [OF assms(1), of 1 "sSQL_SelectAccountByEmail email"] by auto
  then show ?thesis
    using None query_stored [OF assms(2) [unfolded store_accounts_def] assms(3,4), of T r email]
    by (simp add: selectAccountByEmail_def sSQL_SelectAccountByEmail_def)
next
  case (Some b)
  then obtain a c' where a: "selectAccountByEmail T r no_faults email c = Some (Some a, c')"
    "new_MPDbAccount T r (acc_nId b) (acc_nSoftVersion b) (acc_nDatabaseVersion b) (acc_pName b) (acc_pEmail b) (acc_pPassword b)
       (acc_pAuthToken b) (acc_bActivated b) (acc_pActivationCode b) 0 = Some a"
    using selectAccountByEmail_no_faults [OF assms(1) Some, of T r] by metis
  have "find (\<lambda>a. acc_pEmail a = Some email) (db_account (c_db c)) = Some b"
    using Some by (simp add: sSQL_SelectAccountByEmail_def)
  with query_stored [OF assms(2) [unfolded store_accounts_def] assms(3,4), of T r email] a show ?thesis by simp
qed

text \<open>
  A row is inserted in a leaf page of its table with its row id as the key, its record as the data and the zeros behind
  it counted, and its payload is the record of the row whatever its length.
\<close>

lemma row_on_pages:
  assumes "decodeFlags (lockBtree_limits usable) (PTF_INTKEY OR PTF_LEAFDATA OR PTF_LEAF) = Some p" "480 \<le> unat usable"
    "unat usable \<le> 65536" "m Cell = Some buf" "unat usable \<le> length buf" "fresh_pages (unat usable) pgs"
    and row: "OP_MakeRecord ff limit cells = Some (z, nZero)" "store_row ff limit nId cells = Some row"
    and "length (snd row) < 2 ^ 31" "length (snd row) \<le> length pgs * (unat usable - 4)"
  shows "\<exists>m' n. fillInCell p m (map Some pgs) None (word_of_int nId) z (length z) nZero = Some (Filled m' n)
    \<and> (\<forall>m'' pg c. (\<forall>i < unat n. byte m'' (Page pg) (c + i) = byte m' Cell i) \<longrightarrow> c + unat n \<le> unat usable
         \<longrightarrow> (\<forall>ov \<in> set (map fst pgs). m'' (Page ov) = m' (Page ov))
         \<longrightarrow> accessPayload m'' p pg c 0 (of_nat (length (snd row))) = Some (Payload (snd row)))"
proof -
  have k: "intKey p" "hasData p"
    using assms(1) by (auto simp: decodeFlags_def Let_def PTF_INTKEY_def PTF_LEAFDATA_def PTF_LEAF_def PTF_ZERODATA_def split: if_splits)
  have R: "snd row = cell_payload p [] z nZero" using row k by (auto simp: store_row_def cell_payload_def)
  obtain m' n where w: "fillInCell p m (map Some pgs) None (word_of_int nId) z (length z) nZero = Some (Filled m' n)"
    and r: "\<And>m'' pg c offset amt. \<forall>i < unat n. byte m'' (Page pg) (c + i) = byte m' Cell i \<Longrightarrow> c + unat n \<le> unat usable
         \<Longrightarrow> \<forall>ov \<in> set (map fst pgs). m'' (Page ov) = m' (Page ov) \<Longrightarrow> offset + amt \<le> length (snd row)
         \<Longrightarrow> accessPayload m'' p pg c (of_nat offset) (of_nat amt) = Some (Payload (take amt (drop offset (snd row))))"
    using payload_stored [where m = m, OF assms(1-6) R assms(9,10), of None "word_of_int nId"] k(1) by blast
  show ?thesis using w r [of _ _ _ 0 "length (snd row)"] by auto
qed

definition sample_draws :: draws where
  "sample_draws = \<lparr>draw_rand = \<lambda>_. 0, draw_now = \<lambda>_. 0, draw_uuid = ''u'', draw_epoch = 9\<rparr>"

definition one_account :: sqdb where
  "one_account = empty_db\<lparr>db_account := [sample_account\<lparr>acc_nId := 1\<rparr>], seq_account := 1\<rparr>"

lemma sample_row:
  "store_accounts 4 100 one_account = Some [(1, [11, 0, 8, 8, 15, 15, 15, 15, 8, 15, 1, 0x6E, 0x65, 0x70, 0x74, 0x63, 7])]"
  by code_simp

theorem stored_accounts_refine_witness:
  "map_option fst (selectAccountByEmail tsk_ref sample_draws no_faults ''e'' (fresh_conn one_account))
   = query_account tsk_ref sample_draws 100 ''e''
       [(1, [11, 0, 8, 8, 15, 15, 15, 15, 8, 15, 1, 0x6E, 0x65, 0x70, 0x74, 0x63, 7])]
   \<and> query_account tsk_ref sample_draws 100 ''e''
       [(1, [11, 0, 8, 8, 15, 15, 15, 15, 8, 15, 1, 0x6E, 0x65, 0x70, 0x74, 0x63, 7])]
     = Some (Some (sample_account\<lparr>acc_nId := 1, acc_nEpoch := 9\<rparr>))"
proof -
  let ?rows = "[(1, [11, 0, 8, 8, 15, 15, 15, 15, 8, 15, 1, 0x6E, 0x65, 0x70, 0x74, 0x63, 7])] :: disk_row list"
  have fits: "\<forall>a \<in> set (db_account one_account). account_fits a"
    by (simp add: one_account_def empty_db_def sample_account_def account_fits_def int64_def int32_def)
  have "m_bOpened (fresh_conn one_account)" "c_db (fresh_conn one_account) = one_account" by (simp_all add: fresh_conn_def)
  with fits sample_row have eq: "map_option fst (selectAccountByEmail tsk_ref sample_draws no_faults ''e'' (fresh_conn one_account))
      = query_account tsk_ref sample_draws 100 ''e'' ?rows"
    using stored_accounts_refine [of "fresh_conn one_account" 4 100 ?rows tsk_ref sample_draws "''e''"] by simp
  have "query_account tsk_ref sample_draws 100 ''e'' ?rows = Some (Some (sample_account\<lparr>acc_nId := 1, acc_nEpoch := 9\<rparr>))"
    using query_stored [OF sample_row [unfolded store_accounts_def] fits, of tsk_ref sample_draws "''e''"]
    by (simp add: one_account_def empty_db_def sample_account_def sample_draws_def new_MPDbAccount_def)
  with eq show ?thesis by simp
qed

end
