(* ===== verification/HashTable.thy ===== *)
theory HashTable
  imports Varint "HOL-Library.Multiset"
begin

text \<open>
  The hash tables of the SQLite copy (\<open>hash.c\<close>), in which it keeps the names of tables, functions and
  collations: all elements on one linked list, in which those of a bucket follow each other. The list is a
  list of addresses with their elements; a chain is the address of its first one. Keys are bytes and are
  compared without regard to case. It is proved to be a map, whatever allocations fail.

  The numbers of elements and of buckets are naturals; the \<open>unsigned int\<close>s of the source are the same as long as a
  table has less than \<open>2 ^ 32\<close> elements, each of which is a structure of several pointers in memory.
\<close>

section \<open>Elements and keys\<close>

record 'd HashElem =
  elem_pKey :: "u8 list"
  elem_data :: 'd

type_synonym 'd entry = "nat \<times> 'd HashElem"

record ht_bucket =
  ht_count :: nat
  ht_chain :: "nat option"

record 'd Hash =
  htsize :: nat
  h_count :: nat
  h_list :: "'d entry list"
  h_ht :: "ht_bucket list option"

definition sqlite3UpperToLower :: "u8 \<Rightarrow> u8" where
  "sqlite3UpperToLower c = (if 65 \<le> c \<and> c \<le> 90 then c + 32 else c)"

text \<open>The hash is computed in an \<open>int\<close> of 32 bits.\<close>

definition strHash :: "u8 list \<Rightarrow> u32" where
  "strHash z = foldl (\<lambda>h c. xor (xor (push_bit 3 h) h) (ucast (sqlite3UpperToLower c))) 0 z"

text \<open>\<open>sqlite3StrNICmp\<close> on keys of at least \<open>n\<close> bytes; a NUL ends the comparison.\<close>

fun sqlite3StrNICmp :: "nat \<Rightarrow> u8 list \<Rightarrow> u8 list \<Rightarrow> int" where
  "sqlite3StrNICmp (Suc n) (a # as) (b # bs) =
     (if a \<noteq> 0 \<and> sqlite3UpperToLower a = sqlite3UpperToLower b then sqlite3StrNICmp n as bs
      else uint (sqlite3UpperToLower a) - uint (sqlite3UpperToLower b))"
| "sqlite3StrNICmp _ _ _ = 0"

section \<open>The table\<close>

definition sqlite3HashInit :: "'d Hash" where
  "sqlite3HashInit = \<lparr>htsize = 0, h_count = 0, h_list = [], h_ht = None\<rparr>"

definition sqlite3HashClear :: "'d Hash \<Rightarrow> 'd Hash" where
  "sqlite3HashClear H = \<lparr>htsize = 0, h_count = 0, h_list = [], h_ht = None\<rparr>"

text \<open>Linking an element in before the one at \<open>p\<close>.\<close>

fun link_before :: "nat \<Rightarrow> 'd entry \<Rightarrow> 'd entry list \<Rightarrow> 'd entry list" where
  "link_before p e [] = [e]"
| "link_before p e (x # xs) = (if fst x = p then e # x # xs else x # link_before p e xs)"

definition insertElement :: "'d Hash \<Rightarrow> nat option \<Rightarrow> 'd entry \<Rightarrow> 'd Hash" where
  "insertElement H pEntry pNew =
     (case (pEntry, h_ht H) of
        (Some h, Some ht) \<Rightarrow>
          let b = ht ! h; pHead = (if ht_count b \<noteq> 0 then ht_chain b else None) in
          H\<lparr>h_ht := Some (ht[h := \<lparr>ht_count = ht_count b + 1, ht_chain = Some (fst pNew)\<rparr>]),
            h_list := (case pHead of Some p \<Rightarrow> link_before p pNew (h_list H) | None \<Rightarrow> pNew # h_list H)\<rparr>
      | _ \<Rightarrow> H\<lparr>h_list := pNew # h_list H\<rparr>)"

text \<open>
  \<open>SQLITE_MALLOC_SOFT_LIMIT\<close> over the size of a bucket. \<open>alloc n\<close> is the number of buckets in the block that
  the allocator gives for \<open>n\<close> of them, None when it fails.
\<close>

definition max_buckets :: nat where "max_buckets = 1024 div 16"

definition hash_relink :: "nat \<Rightarrow> 'd Hash \<Rightarrow> 'd entry \<Rightarrow> 'd Hash" where
  "hash_relink new_size H e = insertElement H (Some (unat (strHash (elem_pKey (snd e))) mod new_size)) e"

definition rehash :: "(nat \<Rightarrow> nat option) \<Rightarrow> 'd Hash \<Rightarrow> nat \<Rightarrow> bool \<times> 'd Hash" where
  "rehash alloc H new_size =
     (let new_size = (if 1024 < new_size * 16 then max_buckets else new_size) in
      if new_size = htsize H then (False, H)
      else case alloc new_size of
             None \<Rightarrow> (False, H)
           | Some n \<Rightarrow>
               (True, foldl (hash_relink n)
                  (H\<lparr>htsize := n, h_ht := Some (replicate n \<lparr>ht_count = 0, ht_chain = None\<rparr>), h_list := []\<rparr>) (h_list H)))"

definition findElementGivenHash :: "'d Hash \<Rightarrow> u8 list \<Rightarrow> nat \<Rightarrow> 'd entry option" where
  "findElementGivenHash H pKey h =
     find (\<lambda>e. length (elem_pKey (snd e)) = length pKey \<and> sqlite3StrNICmp (length pKey) (elem_pKey (snd e)) pKey = 0)
       (case h_ht H of
          Some ht \<Rightarrow> (case ht_chain (ht ! h) of
                       Some p \<Rightarrow> take (ht_count (ht ! h)) (dropWhile (\<lambda>e. fst e \<noteq> p) (h_list H))
                     | None \<Rightarrow> [])
        | None \<Rightarrow> take (h_count H) (h_list H))"

definition elem_next :: "nat \<Rightarrow> 'd entry list \<Rightarrow> nat option" where
  "elem_next p xs = (case dropWhile (\<lambda>e. fst e \<noteq> p) xs of _ # x # _ \<Rightarrow> Some (fst x) | _ \<Rightarrow> None)"

definition removeElementGivenHash :: "'d Hash \<Rightarrow> nat \<Rightarrow> nat \<Rightarrow> 'd Hash" where
  "removeElementGivenHash H p h =
     (let H1 = H\<lparr>h_list := filter (\<lambda>e. fst e \<noteq> p) (h_list H), h_count := h_count H - 1,
            h_ht := (case h_ht H of
                       Some ht \<Rightarrow>
                         let b = ht ! h in
                         Some (ht[h := \<lparr>ht_count = ht_count b - 1,
                                       ht_chain = (if ht_chain b = Some p then elem_next p (h_list H) else ht_chain b)\<rparr>])
                     | None \<Rightarrow> None)\<rparr>
      in if h_count H1 = 0 then sqlite3HashClear H1 else H1)"

definition key_slot :: "'d Hash \<Rightarrow> u8 list \<Rightarrow> nat" where
  "key_slot H pKey = (if htsize H \<noteq> 0 then unat (strHash pKey) mod htsize H else 0)"

definition sqlite3HashFind :: "'d Hash \<Rightarrow> u8 list \<Rightarrow> 'd option" where
  "sqlite3HashFind H pKey = map_option (elem_data \<circ> snd) (findElementGivenHash H pKey (key_slot H pKey))"

text \<open>The data NULL removes the key; \<open>new_elem\<close> is the address of the new element, None when there is no memory for it.\<close>

definition sqlite3HashInsert ::
  "(nat \<Rightarrow> nat option) \<Rightarrow> nat option \<Rightarrow> 'd Hash \<Rightarrow> u8 list \<Rightarrow> 'd option \<Rightarrow> 'd option \<times> 'd Hash" where
  "sqlite3HashInsert alloc new_elem H pKey data =
     (let h = key_slot H pKey in
      case findElementGivenHash H pKey h of
        Some (p, e) \<Rightarrow>
          (Some (elem_data e),
           (case data of
              None \<Rightarrow> removeElementGivenHash H p h
            | Some d \<Rightarrow> H\<lparr>h_list := map (\<lambda>x. if fst x = p then (p, \<lparr>elem_pKey = pKey, elem_data = d\<rparr>) else x) (h_list H)\<rparr>))
      | None \<Rightarrow>
          (case (data, new_elem) of
             (None, _) \<Rightarrow> (None, H)
           | (_, None) \<Rightarrow> (data, H)
           | (Some d, Some p) \<Rightarrow>
               let H1 = H\<lparr>h_count := h_count H + 1\<rparr>;
                   (resized, H2) = (if 10 \<le> h_count H1 \<and> 2 * htsize H1 < h_count H1 then rehash alloc H1 (h_count H1 * 2) else (False, H1));
                   h2 = (if resized then unat (strHash pKey) mod htsize H2 else h)
               in (None, insertElement H2 (if h_ht H2 = None then None else Some h2) (p, \<lparr>elem_pKey = pKey, elem_data = d\<rparr>))))"

section \<open>Keys\<close>

definition lkey :: "'d entry \<Rightarrow> u8 list" where
  "lkey e = map sqlite3UpperToLower (elem_pKey (snd e))"

definition slot :: "nat \<Rightarrow> 'd entry \<Rightarrow> nat" where
  "slot n e = unat (strHash (elem_pKey (snd e))) mod n"

lemma strHash_lower: "map sqlite3UpperToLower a = map sqlite3UpperToLower b \<Longrightarrow> strHash a = strHash b"
proof -
  have "strHash z = foldl (\<lambda>h c. xor (xor (push_bit 3 h) h) (ucast c)) 0 (map sqlite3UpperToLower z)" for z
    by (simp add: strHash_def foldl_map)
  then show "map sqlite3UpperToLower a = map sqlite3UpperToLower b \<Longrightarrow> strHash a = strHash b" by simp
qed

lemma same_key:
  "length a = n \<Longrightarrow> length b = n \<Longrightarrow> 0 \<notin> set a \<Longrightarrow>
     sqlite3StrNICmp n a b = 0 \<longleftrightarrow> map sqlite3UpperToLower a = map sqlite3UpperToLower b"
  by (induction n a b rule: sqlite3StrNICmp.induct) (auto simp flip: word_uint_eq_iff)

section \<open>The list and its buckets\<close>

text \<open>Elements of the same slot follow each other.\<close>

fun grouped :: "('e \<Rightarrow> nat) \<Rightarrow> 'e list \<Rightarrow> bool" where
  "grouped s [] \<longleftrightarrow> True"
| "grouped s (x # xs) \<longleftrightarrow> grouped s xs \<and> (xs = [] \<or> s x = s (hd xs) \<or> s x \<notin> s ` set xs)"

lemma grouped_block:
  "grouped s xs \<Longrightarrow> take (length (filter (\<lambda>z. s z = h) xs)) (dropWhile (\<lambda>z. s z \<noteq> h) xs) = filter (\<lambda>z. s z = h) xs"
proof (induction xs)
  case (Cons x xs)
  show ?case
  proof (cases "s x = h")
    case True
    have "filter (\<lambda>z. s z = h) xs = [] \<or> dropWhile (\<lambda>z. s z \<noteq> h) xs = xs"
      using Cons.prems True by (cases xs) (auto simp: filter_empty_conv image_iff)
    then show ?thesis using Cons True by auto
  qed (use Cons in auto)
qed simp

lemma first_later:
  assumes "filter (\<lambda>z. s z = h) (x # xs) = y # ys" "s x \<noteq> h" "distinct (map fst (x # xs))"
  shows "filter (\<lambda>z. s z = h) xs = y # ys" "fst x \<noteq> fst y" "s y = h" "xs \<noteq> []" "fst (hd xs) = fst y \<Longrightarrow> s (hd xs) = h"
proof -
  show f: "filter (\<lambda>z. s z = h) xs = y # ys" using assms by simp
  then have "y \<in> set (filter (\<lambda>z. s z = h) xs)" by simp
  then have y: "y \<in> set xs" "s y = h" by auto
  show "fst x \<noteq> fst y" using y assms(3) by force
  show "s y = h" "xs \<noteq> []" using y by auto
  assume "fst (hd xs) = fst y"
  moreover have "hd xs \<in> set xs" using y by (cases xs) auto
  ultimately have "hd xs = y" using y assms(3) by (auto simp: distinct_map inj_on_eq_iff)
  then show "s (hd xs) = h" using y by simp
qed

lemma drop_to_first:
  "filter (\<lambda>z. s z = h) xs = y # ys \<Longrightarrow> distinct (map fst xs) \<Longrightarrow>
     dropWhile (\<lambda>z. fst z \<noteq> fst y) xs = dropWhile (\<lambda>z. s z \<noteq> h) xs"
proof (induction xs)
  case (Cons x xs)
  show ?case
  proof (cases "s x = h")
    case False
    note later = first_later [OF Cons.prems(1) False Cons.prems(2)]
    show ?thesis using Cons.IH [OF later(1)] Cons.prems(2) later(2) False by simp
  qed (use Cons.prems in auto)
qed simp

lemma hd_filter:
  "grouped s xs \<Longrightarrow> xs \<noteq> [] \<Longrightarrow> s (hd xs) \<in> s ` set (filter P xs) \<Longrightarrow> s (hd (filter P xs)) = s (hd xs)"
proof (induction xs)
  case (Cons x xs)
  show ?case
  proof (cases "P x")
    case False
    then have "s x \<in> s ` set (filter P xs)" "s x \<in> s ` set xs" "xs \<noteq> []" using Cons.prems(3) by auto
    then show ?thesis using Cons False by auto
  qed simp
qed simp

lemma grouped_filter: "grouped s xs \<Longrightarrow> grouped s (filter P xs)"
proof (induction xs)
  case (Cons x xs)
  then show ?case using hd_filter [of s xs P] by (cases "xs = []") auto
qed simp

lemma link_before_mset: "mset (link_before p e xs) = add_mset e (mset xs)"
  by (induction xs) auto

lemma link_before_set: "set (link_before p e xs) = insert e (set xs)"
  by (induction xs) auto

lemma link_before_hd: "xs \<noteq> [] \<Longrightarrow> hd (link_before p e xs) = (if fst (hd xs) = p then e else hd xs)" "link_before p e xs \<noteq> []"
  by (cases xs; simp)+

lemma link_before_filter:
  "filter (\<lambda>z. s z = h) xs = y # ys \<Longrightarrow> distinct (map fst xs) \<Longrightarrow> s e = h \<Longrightarrow>
     filter (\<lambda>z. s z = h') (link_before (fst y) e xs) = (if h' = h then e # y # ys else filter (\<lambda>z. s z = h') xs)"
proof (induction xs)
  case (Cons x xs)
  show ?case
  proof (cases "s x = h")
    case False
    note later = first_later [OF Cons.prems(1) False Cons.prems(2)]
    show ?thesis using Cons.IH [OF later(1)] Cons.prems(2,3) later(2) False by auto
  qed (use Cons.prems in auto)
qed simp

lemma link_before_grouped:
  "filter (\<lambda>z. s z = h) xs = y # ys \<Longrightarrow> distinct (map fst xs) \<Longrightarrow> s e = h \<Longrightarrow> grouped s xs \<Longrightarrow>
     grouped s (link_before (fst y) e xs)"
proof (induction xs)
  case (Cons x xs)
  show ?case
  proof (cases "s x = h")
    case False
    note later = first_later [OF Cons.prems(1) False Cons.prems(2)]
    have "grouped s (link_before (fst y) e xs)" using Cons.IH [OF later(1)] Cons.prems by simp
    moreover have "s (hd (link_before (fst y) e xs)) = s (hd xs)"
      using link_before_hd(1) [OF later(4), of "fst y" e] later(5) Cons.prems(3) by simp
    moreover have "s x \<notin> s ` set xs \<Longrightarrow> s x \<notin> s ` set (link_before (fst y) e xs)"
      using False Cons.prems(3) by (auto simp: link_before_set)
    ultimately show ?thesis using Cons.prems(4) later(2,4) by auto
  qed (use Cons.prems in auto)
qed simp

section \<open>The invariant\<close>

definition list_ok :: "'d entry list \<Rightarrow> bool" where
  "list_ok xs \<longleftrightarrow> distinct (map fst xs) \<and> distinct (map lkey xs) \<and> (\<forall>e \<in> set xs. 0 \<notin> set (elem_pKey (snd e)))"

definition bucket_ok :: "ht_bucket \<Rightarrow> 'd entry list \<Rightarrow> bool" where
  "bucket_ok b ys \<longleftrightarrow> ht_count b = length ys \<and> (ys \<noteq> [] \<longrightarrow> ht_chain b = Some (fst (hd ys)))"

definition buckets_ok :: "'d Hash \<Rightarrow> bool" where
  "buckets_ok H \<longleftrightarrow>
     (case h_ht H of
        None \<Rightarrow> htsize H = 0
      | Some ht \<Rightarrow> 0 < htsize H \<and> length ht = htsize H \<and> grouped (slot (htsize H)) (h_list H)
          \<and> (\<forall>h < htsize H. bucket_ok (ht ! h) (filter (\<lambda>e. slot (htsize H) e = h) (h_list H))))"

definition hash_ok :: "'d Hash \<Rightarrow> bool" where
  "hash_ok H \<longleftrightarrow> list_ok (h_list H) \<and> buckets_ok H \<and> h_count H = length (h_list H)"

definition pairs :: "'d entry list \<Rightarrow> (u8 list \<times> 'd) list" where
  "pairs xs = map (\<lambda>e. (lkey e, elem_data (snd e))) xs"

text \<open>The map that a table stands for; its keys are in lower case.\<close>

definition hash_map :: "'d Hash \<Rightarrow> u8 list \<Rightarrow> 'd option" where
  "hash_map H = map_of (pairs (h_list H))"

lemma list_ok_mset: "mset xs = mset ys \<Longrightarrow> list_ok xs \<longleftrightarrow> list_ok ys"
proof -
  assume m: "mset xs = mset ys"
  then have "mset (map fst xs) = mset (map fst ys)" "mset (map lkey xs) = mset (map lkey ys)" by (simp_all only: mset_map)
  then have "distinct (map fst xs) \<longleftrightarrow> distinct (map fst ys)" "distinct (map lkey xs) \<longleftrightarrow> distinct (map lkey ys)"
    using mset_eq_imp_distinct_iff by blast+
  with mset_eq_setD [OF m] show ?thesis by (simp only: list_ok_def)
qed

lemma hash_init_ok: "hash_ok sqlite3HashInit" "hash_map sqlite3HashInit = Map.empty"
  by (simp_all add: sqlite3HashInit_def hash_ok_def list_ok_def buckets_ok_def hash_map_def pairs_def)

lemma slot_less: "0 < n \<Longrightarrow> slot n e < n"
  by (simp add: slot_def)

text \<open>Linking an element in keeps the buckets.\<close>

lemma insert_element:
  assumes "list_ok (e # h_list H)" "buckets_ok H"
  defines "H' \<equiv> insertElement H (if h_ht H = None then None else Some (slot (htsize H) e)) e"
  shows "buckets_ok H'" "mset (h_list H') = add_mset e (mset (h_list H))" "htsize H' = htsize H" "h_count H' = h_count H"
    "h_ht H' = None \<longleftrightarrow> h_ht H = None"
proof -
  let ?n = "htsize H" and ?s = "slot (htsize H)" and ?xs = "h_list H"
  have all: "buckets_ok H' \<and> mset (h_list H') = add_mset e (mset ?xs) \<and> htsize H' = ?n \<and> h_count H' = h_count H \<and> (h_ht H' = None \<longleftrightarrow> h_ht H = None)"
  proof (cases "h_ht H")
    case None
    then show ?thesis using assms(2) by (simp add: H'_def insertElement_def buckets_ok_def)
  next
    case (Some ht)
    let ?h = "?s e" and ?ys = "filter (\<lambda>x. ?s x = ?s e) ?xs"
    have n: "0 < ?n" "length ht = ?n" "grouped ?s ?xs" and b: "\<And>h. h < ?n \<Longrightarrow> bucket_ok (ht ! h) (filter (\<lambda>x. ?s x = h) ?xs)"
      using assms(2) Some by (simp_all add: buckets_ok_def)
    have h: "?h < ?n" by (rule slot_less [OF n(1)])
    have bh: "ht_count (ht ! ?h) = length ?ys" "?ys \<noteq> [] \<Longrightarrow> ht_chain (ht ! ?h) = Some (fst (hd ?ys))"
      using b [OF h] by (simp_all add: bucket_ok_def)
    have dist: "distinct (map fst ?xs)" using assms(1) by (simp add: list_ok_def)
    show ?thesis
    proof (cases ?ys)
      case Nil
      have H': "H' = H\<lparr>h_ht := Some (ht[?h := \<lparr>ht_count = 1, ht_chain = Some (fst e)\<rparr>]), h_list := e # ?xs\<rparr>"
        using Some bh(1) Nil by (simp add: H'_def insertElement_def Let_def)
      have "?s e \<notin> ?s ` set ?xs" using Nil by (auto simp: filter_empty_conv)
      then show ?thesis using n b Nil Some by (auto simp: H' buckets_ok_def bucket_ok_def nth_list_update)
    next
      case (Cons y ys)
      have H': "H' = H\<lparr>h_ht := Some (ht[?h := \<lparr>ht_count = length ?ys + 1, ht_chain = Some (fst e)\<rparr>]), h_list := link_before (fst y) e ?xs\<rparr>"
        using Some bh Cons by (simp add: H'_def insertElement_def Let_def)
      note f = link_before_filter [OF Cons dist refl] and g = link_before_grouped [OF Cons dist refl n(3)]
      have "bucket_ok (ht[?h := \<lparr>ht_count = length ?ys + 1, ht_chain = Some (fst e)\<rparr>] ! k) (filter (\<lambda>x. ?s x = k) (link_before (fst y) e ?xs))"
        if "k < ?n" for k
        using b [OF that] that n(2) by (simp add: f Cons bucket_ok_def nth_list_update)
      then show ?thesis using n g Some by (simp add: H' buckets_ok_def link_before_mset)
    qed
  qed
  then show "buckets_ok H'" "mset (h_list H') = add_mset e (mset (h_list H))" "htsize H' = htsize H" "h_count H' = h_count H"
    "h_ht H' = None \<longleftrightarrow> h_ht H = None" by blast+
qed

text \<open>So does rehashing, which links all elements in again.\<close>

lemma hash_relink_all:
  "list_ok (xs @ h_list H) \<Longrightarrow> buckets_ok H \<Longrightarrow> h_ht H \<noteq> None \<Longrightarrow> htsize H = n \<Longrightarrow>
     buckets_ok (foldl (hash_relink n) H xs) \<and> mset (h_list (foldl (hash_relink n) H xs)) = mset xs + mset (h_list H)
     \<and> h_count (foldl (hash_relink n) H xs) = h_count H \<and> h_ht (foldl (hash_relink n) H xs) \<noteq> None"
proof (induction xs arbitrary: H)
  case (Cons e xs)
  have "list_ok (e # h_list H)" using Cons.prems(1) by (simp add: list_ok_def)
  note one = insert_element [OF this Cons.prems(2)]
  have one: "buckets_ok (hash_relink n H e)" "mset (h_list (hash_relink n H e)) = add_mset e (mset (h_list H))" "htsize (hash_relink n H e) = n"
    "h_count (hash_relink n H e) = h_count H" "h_ht (hash_relink n H e) \<noteq> None"
    using one Cons.prems(3,4) by (simp_all add: hash_relink_def slot_def)
  have "mset (xs @ h_list (hash_relink n H e)) = mset ((e # xs) @ h_list H)" using one(2) by simp
  from list_ok_mset [OF this] have "list_ok (xs @ h_list (hash_relink n H e))" using Cons.prems(1) by simp
  from Cons.IH [OF this one(1,5,3)] one show ?case by simp
qed simp

lemma rehash_ok:
  assumes "rehash alloc H n = (r, H')" "list_ok (h_list H)" "buckets_ok H" "\<And>n m. alloc n = Some m \<Longrightarrow> n \<le> m" "0 < n"
  shows "buckets_ok H'" "mset (h_list H') = mset (h_list H)" "h_count H' = h_count H" "r \<Longrightarrow> h_ht H' \<noteq> None" "\<not> r \<Longrightarrow> H' = H"
proof -
  define m where "m = (if 1024 < n * 16 then max_buckets else n)"
  have m: "0 < m" using assms(5) by (simp add: m_def max_buckets_def)
  have "(\<not> r \<and> H' = H) \<or> (\<exists>k. r \<and> m \<le> k \<and> H' = foldl (hash_relink k)
      (H\<lparr>htsize := k, h_ht := Some (replicate k \<lparr>ht_count = 0, ht_chain = None\<rparr>), h_list := []\<rparr>) (h_list H))"
  proof (cases "m = htsize H \<or> alloc m = None")
    case True
    then have "rehash alloc H n = (False, H)" unfolding rehash_def m_def [symmetric] Let_def by auto
    then show ?thesis using assms(1) by simp
  next
    case False
    then obtain k where k: "alloc m = Some k" by blast
    have "rehash alloc H n = (True, foldl (hash_relink k)
        (H\<lparr>htsize := k, h_ht := Some (replicate k \<lparr>ht_count = 0, ht_chain = None\<rparr>), h_list := []\<rparr>) (h_list H))"
      using False unfolding rehash_def m_def [symmetric] Let_def k by simp
    then show ?thesis using assms(1) assms(4) [OF k] by auto
  qed
  then consider "\<not> r" "H' = H" | k where "r" "m \<le> k" "H' = foldl (hash_relink k)
      (H\<lparr>htsize := k, h_ht := Some (replicate k \<lparr>ht_count = 0, ht_chain = None\<rparr>), h_list := []\<rparr>) (h_list H)"
    by blast
  then have "buckets_ok H' \<and> mset (h_list H') = mset (h_list H) \<and> h_count H' = h_count H \<and> (r \<longrightarrow> h_ht H' \<noteq> None) \<and> (\<not> r \<longrightarrow> H' = H)"
  proof cases
    case (2 k)
    let ?H0 = "H\<lparr>htsize := k, h_ht := Some (replicate k \<lparr>ht_count = 0, ht_chain = None\<rparr>), h_list := []\<rparr>"
    have "buckets_ok ?H0" using 2(2) m by (simp add: buckets_ok_def bucket_ok_def)
    from hash_relink_all [OF _ this, of "h_list H" k] show ?thesis using assms(2) 2(1,3) by simp
  qed (use assms in auto)
  then show "buckets_ok H'" "mset (h_list H') = mset (h_list H)" "h_count H' = h_count H" "r \<Longrightarrow> h_ht H' \<noteq> None" "\<not> r \<Longrightarrow> H' = H" by blast+
qed

section \<open>Finding\<close>

lemma find_filter: "(\<And>x. P x \<Longrightarrow> Q x) \<Longrightarrow> find P (filter Q xs) = find P xs"
  by (induction xs) auto

lemma map_of_find: "map_of (pairs xs) k = map_option (elem_data \<circ> snd) (find (\<lambda>e. lkey e = k) xs)"
  by (induction xs) (auto simp: pairs_def)

lemma key_slot: "0 < htsize H \<Longrightarrow> lkey e = map sqlite3UpperToLower k \<Longrightarrow> slot (htsize H) e = key_slot H k"
  using strHash_lower [of "elem_pKey (snd e)" k] by (simp add: lkey_def slot_def key_slot_def)

lemma bucket_elements:
  assumes "list_ok xs" "grouped s xs" "bucket_ok b (filter (\<lambda>e. s e = h) xs)"
  shows "(case ht_chain b of Some p \<Rightarrow> take (ht_count b) (dropWhile (\<lambda>e. fst e \<noteq> p) xs) | None \<Rightarrow> []) = filter (\<lambda>e. s e = h) xs"
proof (cases "filter (\<lambda>e. s e = h) xs")
  case Nil
  then show ?thesis using assms(3) by (simp add: bucket_ok_def split: option.split)
next
  case (Cons y ys)
  have "distinct (map fst xs)" using assms(1) by (simp add: list_ok_def)
  from drop_to_first [OF Cons this] grouped_block [OF assms(2), of h] show ?thesis
    using assms(3) Cons by (simp add: bucket_ok_def)
qed

lemma find_element:
  assumes "hash_ok H"
  shows "findElementGivenHash H k (key_slot H k) = find (\<lambda>e. lkey e = map sqlite3UpperToLower k) (h_list H)"
proof -
  let ?P = "\<lambda>e. length (elem_pKey (snd e)) = length k \<and> sqlite3StrNICmp (length k) (elem_pKey (snd e)) k = 0"
  have ok: "list_ok (h_list H)" "buckets_ok H" "h_count H = length (h_list H)" using assms by (simp_all add: hash_ok_def)
  have P: "?P e \<longleftrightarrow> lkey e = map sqlite3UpperToLower k" if "e \<in> set (h_list H)" for e
  proof -
    have "0 \<notin> set (elem_pKey (snd e))" using ok(1) that by (simp add: list_ok_def)
    show ?thesis
    proof (cases "length (elem_pKey (snd e)) = length k")
      case True
      from same_key [OF this refl \<open>0 \<notin> set (elem_pKey (snd e))\<close>] True show ?thesis by (simp add: lkey_def)
    next
      case False
      then have "lkey e \<noteq> map sqlite3UpperToLower k" unfolding lkey_def by (metis length_map)
      then show ?thesis using False by simp
    qed
  qed
  have all: "find ?P (h_list H) = find (\<lambda>e. lkey e = map sqlite3UpperToLower k) (h_list H)" by (rule find_cong [OF refl P])
  show ?thesis
  proof (cases "h_ht H")
    case None
    then show ?thesis using all ok(3) by (simp add: findElementGivenHash_def)
  next
    case (Some ht)
    let ?h = "key_slot H k"
    have n: "0 < htsize H" "grouped (slot (htsize H)) (h_list H)" and h: "?h < htsize H"
      using ok(2) Some by (simp_all add: buckets_ok_def key_slot_def)
    have "bucket_ok (ht ! ?h) (filter (\<lambda>e. slot (htsize H) e = ?h) (h_list H))"
      using ok(2) Some h by (simp add: buckets_ok_def)
    note els = bucket_elements [OF ok(1) n(2) this]
    have "findElementGivenHash H k ?h = find ?P (filter (\<lambda>e. slot (htsize H) e = ?h) (h_list H))"
      by (simp only: findElementGivenHash_def Some option.case els)
    also have "\<dots> = find (\<lambda>e. lkey e = map sqlite3UpperToLower k) (filter (\<lambda>e. slot (htsize H) e = ?h) (h_list H))"
      by (rule find_cong [OF refl]) (use P in simp)
    also have "\<dots> = find (\<lambda>e. lkey e = map sqlite3UpperToLower k) (h_list H)"
      by (rule find_filter) (rule key_slot [OF n(1)])
    finally show ?thesis .
  qed
qed

lemma hash_find: "hash_ok H \<Longrightarrow> sqlite3HashFind H k = hash_map H (map sqlite3UpperToLower k)"
  by (simp add: sqlite3HashFind_def find_element hash_map_def map_of_find)

section \<open>Removing, replacing, adding\<close>

lemma filter_rest: "distinct (map fst (y # ys)) \<Longrightarrow> filter (\<lambda>e. fst e \<noteq> fst y) (y # ys) = ys"
  by (induction ys) auto

lemma length_without: "distinct (map fst xs) \<Longrightarrow> (p, e) \<in> set xs \<Longrightarrow> length (filter (\<lambda>x. fst x \<noteq> p) xs) = length xs - 1"
proof (induction xs)
  case (Cons x xs)
  show ?case
  proof (cases "fst x = p")
    case True
    then have "\<forall>z \<in> set xs. fst z \<noteq> p" using Cons.prems(1) by (auto simp: image_iff)
    then show ?thesis using True by simp
  next
    case False
    then have e: "(p, e) \<in> set xs" using Cons.prems(2) by auto
    moreover from e have "0 < length xs" by (rule length_pos_if_in_set)
    ultimately show ?thesis using Cons False by simp
  qed
qed simp

lemma next_in_block:
  assumes "filter (\<lambda>e. s e = h) xs = y # z # zs" "grouped s xs" "distinct (map fst xs)"
  shows "elem_next (fst y) xs = Some (fst z)"
proof -
  have "take (Suc (Suc (length zs))) (dropWhile (\<lambda>e. fst e \<noteq> fst y) xs) = y # z # zs"
    using grouped_block [OF assms(2), of h] drop_to_first [OF assms(1,3)] assms(1) by simp
  then show ?thesis by (cases "dropWhile (\<lambda>e. fst e \<noteq> fst y) xs"; cases "tl (dropWhile (\<lambda>e. fst e \<noteq> fst y) xs)") (auto simp: elem_next_def)
qed

lemma map_of_without: "map_of (filter (\<lambda>x. fst x \<noteq> k) l) = (map_of l)(k := None)"
  by (induction l) auto

lemma map_of_replace: "k \<in> fst ` set l \<Longrightarrow> map_of (map (\<lambda>x. if fst x = k then (k, d) else x) l) = (map_of l)(k \<mapsto> d)"
proof -
  have "map_of (map (\<lambda>x. if fst x = k then (k, d) else x) l) j = (if j = k \<and> k \<in> fst ` set l then Some d else map_of l j)" for j
    by (induction l) (auto simp: image_iff, (metis fst_conv)+)
  then show "k \<in> fst ` set l \<Longrightarrow> map_of (map (\<lambda>x. if fst x = k then (k, d) else x) l) = (map_of l)(k \<mapsto> d)" by auto
qed

lemma same_entry: "list_ok xs \<Longrightarrow> x \<in> set xs \<Longrightarrow> y \<in> set xs \<Longrightarrow> fst x = fst y \<longleftrightarrow> x = y"
  "list_ok xs \<Longrightarrow> x \<in> set xs \<Longrightarrow> y \<in> set xs \<Longrightarrow> lkey x = lkey y \<longleftrightarrow> x = y"
  by (auto simp: list_ok_def distinct_map inj_on_eq_iff)

lemma remove_element:
  assumes "hash_ok H" "(p, e) \<in> set (h_list H)" "0 < htsize H \<Longrightarrow> h = slot (htsize H) (p, e)"
  shows "hash_ok (removeElementGivenHash H p h)" "hash_map (removeElementGivenHash H p h) = (hash_map H)(lkey (p, e) := None)"
proof -
  let ?xs = "h_list H" and ?s = "slot (htsize H)"
  let ?ys = "filter (\<lambda>e. fst e \<noteq> p) ?xs"
  define H1 where "H1 = H\<lparr>h_list := ?ys, h_count := h_count H - 1,
      h_ht := (case h_ht H of Some ht \<Rightarrow> Some (ht[h := \<lparr>ht_count = ht_count (ht ! h) - 1,
          ht_chain = (if ht_chain (ht ! h) = Some p then elem_next p ?xs else ht_chain (ht ! h))\<rparr>]) | None \<Rightarrow> None)\<rparr>"
  have ok: "list_ok ?xs" "buckets_ok H" "h_count H = length ?xs" using assms(1) by (simp_all add: hash_ok_def)
  have dist: "distinct (map fst ?xs)" using ok(1) by (simp add: list_ok_def)
  have entry: "fst x \<noteq> p \<longleftrightarrow> x \<noteq> (p, e)" "lkey x \<noteq> lkey (p, e) \<longleftrightarrow> x \<noteq> (p, e)" if "x \<in> set ?xs" for x
    using same_entry [OF ok(1) that assms(2)] by auto
  have list: "list_ok ?ys" using ok(1) by (auto simp: list_ok_def distinct_map_filter)
  have len: "length ?ys = length ?xs - 1" by (rule length_without [OF dist assms(2)])
  have "pairs ?ys = filter (\<lambda>x. fst x \<noteq> lkey (p, e)) (pairs ?xs)"
    unfolding pairs_def filter_map by (rule arg_cong [of _ _ "map _"], rule filter_cong [OF refl]) (simp add: entry)
  then have maps: "map_of (pairs ?ys) = (map_of (pairs ?xs))(lkey (p, e) := None)" by (simp add: map_of_without)
  have buckets: "buckets_ok H1"
  proof (cases "h_ht H")
    case None
    then show ?thesis using ok(2) by (simp add: H1_def buckets_ok_def)
  next
    case (Some ht)
    have n: "0 < htsize H" "length ht = htsize H" "grouped ?s ?xs"
      and b: "\<And>k. k < htsize H \<Longrightarrow> bucket_ok (ht ! k) (filter (\<lambda>e. ?s e = k) ?xs)"
      using ok(2) Some by (simp_all add: buckets_ok_def)
    have h: "h = ?s (p, e)" "h < htsize H" using assms(3) n(1) slot_less by auto
    have swap: "filter (\<lambda>e. ?s e = k) ?ys = filter (\<lambda>e. fst e \<noteq> p) (filter (\<lambda>e. ?s e = k) ?xs)" for k by (simp add: conj_commute)
    have other: "filter (\<lambda>e. fst e \<noteq> p) (filter (\<lambda>e. ?s e = k) ?xs) = filter (\<lambda>e. ?s e = k) ?xs" if "k \<noteq> h" for k
    proof (rule filter_True, rule ballI)
      fix x assume "x \<in> set (filter (\<lambda>e. ?s e = k) ?xs)"
      then show "fst x \<noteq> p" using entry(1) [of x] that h(1) by auto
    qed
    obtain y zs where y: "filter (\<lambda>e. ?s e = h) ?xs = y # zs"
      using assms(2) h(1) by (cases "filter (\<lambda>e. ?s e = h) ?xs") (auto simp: filter_empty_conv)
    have block: "distinct (map fst (y # zs))" using distinct_map_filter [OF dist, of "\<lambda>e. ?s e = h"] y by simp
    have bh: "ht_count (ht ! h) = Suc (length zs)" "ht_chain (ht ! h) = Some (fst y)" using b [OF h(2)] y by (simp_all add: bucket_ok_def)
    have "(p, e) \<in> set (filter (\<lambda>e. ?s e = h) ?xs)" using assms(2) h(1) by simp
    then have pe: "(p, e) \<in> set (y # zs)" by (simp only: y)
    have "bucket_ok \<lparr>ht_count = ht_count (ht ! h) - 1,
          ht_chain = (if ht_chain (ht ! h) = Some p then elem_next p ?xs else ht_chain (ht ! h))\<rparr> (filter (\<lambda>e. ?s e = h) ?ys)"
    proof (cases "fst y = p")
      case True
      then have "filter (\<lambda>e. ?s e = h) ?ys = zs" using filter_rest [OF block] by (simp only: swap y)
      then show ?thesis using bh True next_in_block [OF _ n(3) dist, of h y] y by (cases zs) (auto simp: bucket_ok_def)
    next
      case False
      then have "(p, e) \<in> set zs" using pe by auto
      then have "length (filter (\<lambda>e. fst e \<noteq> p) zs) = length zs - 1" "zs \<noteq> []"
        using length_without [of zs p e] block by auto
      moreover have "filter (\<lambda>e. ?s e = h) ?ys = y # filter (\<lambda>e. fst e \<noteq> p) zs" unfolding swap y using False by simp
      ultimately show ?thesis using bh False by (simp only: bucket_ok_def) (cases zs; simp)
    qed
    then have "bucket_ok (ht[h := \<lparr>ht_count = ht_count (ht ! h) - 1,
          ht_chain = (if ht_chain (ht ! h) = Some p then elem_next p ?xs else ht_chain (ht ! h))\<rparr>] ! k) (filter (\<lambda>e. ?s e = k) ?ys)"
      if "k < htsize H" for k
      using b [OF that] other [of k] h(2) n(2)
      by (cases "k = h") (simp_all only: nth_list_update_eq nth_list_update_neq not_False_eq_True swap simp_thms)
    then show ?thesis using n grouped_filter [OF n(3)] Some by (simp add: H1_def buckets_ok_def)
  qed
  have removed: "removeElementGivenHash H p h = (if ?ys = [] then sqlite3HashClear H1 else H1)"
    using len ok(3) by (simp add: removeElementGivenHash_def Let_def H1_def length_0_conv [symmetric] del: length_0_conv cong: option.case_cong)
  show "hash_ok (removeElementGivenHash H p h)"
  proof (cases "?ys = []")
    case True
    then show ?thesis using hash_init_ok(1) by (simp add: removed sqlite3HashClear_def sqlite3HashInit_def)
  next
    case False
    then show ?thesis using buckets list len ok(3) by (simp add: removed hash_ok_def) (simp add: H1_def)
  qed
  show "hash_map (removeElementGivenHash H p h) = (hash_map H)(lkey (p, e) := None)"
    using maps by (auto simp: removed hash_map_def H1_def sqlite3HashClear_def)
qed

lemma grouped_map: "(\<And>x. x \<in> set xs \<Longrightarrow> s (f x) = s x) \<Longrightarrow> grouped s (map f xs) = grouped s xs"
proof (induction xs)
  case (Cons x xs)
  have "s ` f ` set xs = s ` set xs" unfolding image_image using Cons.prems by (intro image_cong) simp_all
  then show ?case using Cons by (cases xs) (auto simp: image_image)
qed simp

lemma replace_element:
  fixes d :: 'd and H :: "'d Hash"
  assumes "hash_ok H" "(p, e) \<in> set (h_list H)" "lkey (p, e) = map sqlite3UpperToLower k" "0 \<notin> set k"
  defines "H' \<equiv> H\<lparr>h_list := map (\<lambda>x. if fst x = p then (p, \<lparr>elem_pKey = k, elem_data = d\<rparr>) else x) (h_list H)\<rparr>"
  shows "hash_ok H'" "hash_map H' = (hash_map H)(lkey (p, e) \<mapsto> d)"
proof -
  let ?xs = "h_list H" and ?s = "slot (htsize H)"
  define f where "f = (\<lambda>x. if fst x = p then (p, \<lparr>elem_pKey = k, elem_data = d\<rparr>) else x)"
  have ok: "list_ok ?xs" "buckets_ok H" "h_count H = length ?xs" using assms(1) by (simp_all add: hash_ok_def)
  have new: "lkey (p, \<lparr>elem_pKey = k, elem_data = d\<rparr>) = lkey (p, e)" using assms(3) by (simp add: lkey_def)
  have "?s (p, \<lparr>elem_pKey = k, elem_data = d\<rparr>) = ?s (p, e)"
    using strHash_lower [of "elem_pKey e" k] assms(3) by (simp add: slot_def lkey_def)
  then have f: "fst (f x) = fst x" "lkey (f x) = lkey x" "?s (f x) = ?s x" if "x \<in> set ?xs" for x
    using same_entry(1) [OF ok(1) that assms(2)] new by (auto simp: f_def)
  have maps: "map fst (map f ?xs) = map fst ?xs" "map lkey (map f ?xs) = map lkey ?xs" using f by simp_all
  have "\<forall>x \<in> set (map f ?xs). 0 \<notin> set (elem_pKey (snd x))" using ok(1) assms(4) by (auto simp: list_ok_def f_def)
  then have list: "list_ok (map f ?xs)" using ok(1) maps by (simp add: list_ok_def del: map_map)
  have "filter (\<lambda>e. ?s e = j) (map f ?xs) = map f (filter (\<lambda>e. ?s e = j) ?xs)" for j
    unfolding filter_map comp_def by (rule arg_cong [of _ _ "map f"], rule filter_cong [OF refl]) (simp add: f)
  moreover have "fst (hd (map f (filter (\<lambda>e. ?s e = j) ?xs))) = fst (hd (filter (\<lambda>e. ?s e = j) ?xs))"
    if "filter (\<lambda>e. ?s e = j) ?xs \<noteq> []" for j
  proof -
    have "hd (filter (\<lambda>e. ?s e = j) ?xs) \<in> set ?xs" using hd_in_set [OF that] by auto
    then show ?thesis using that by (simp add: hd_map f)
  qed
  ultimately have "bucket_ok b (filter (\<lambda>e. ?s e = j) (map f ?xs)) \<longleftrightarrow> bucket_ok b (filter (\<lambda>e. ?s e = j) ?xs)" for b j
    by (auto simp: bucket_ok_def)
  then have buckets: "buckets_ok H'"
    using ok(2) grouped_map [of ?xs ?s f] f by (simp add: H'_def f_def [symmetric] buckets_ok_def cong: option.case_cong)
  show "hash_ok H'" using list buckets ok(3) by (simp add: hash_ok_def H'_def f_def [symmetric])
  have "map (\<lambda>e. (lkey e, elem_data (snd e))) (map f ?xs)
      = map (\<lambda>x. if fst x = lkey (p, e) then (lkey (p, e), d) else x) (map (\<lambda>e. (lkey e, elem_data (snd e))) ?xs)"
    using f same_entry [OF ok(1) _ assms(2)] new by (auto simp: f_def)
  moreover have "lkey (p, e) \<in> fst ` set (map (\<lambda>e. (lkey e, elem_data (snd e))) ?xs)" using assms(2) by force
  ultimately show "hash_map H' = (hash_map H)(lkey (p, e) \<mapsto> d)"
    by (simp add: hash_map_def H'_def f_def [symmetric] pairs_def map_of_replace del: map_map)
qed

text \<open>A new element: the table may be rehashed before it is linked in.\<close>

lemma add_element:
  fixes d :: 'd and H H2 :: "'d Hash"
  assumes "hash_ok H" "p \<notin> fst ` set (h_list H)" "hash_map H (map sqlite3UpperToLower k) = None" "0 \<notin> set k"
    and "\<And>n m. alloc n = Some m \<Longrightarrow> n \<le> m"
    and "(if 10 \<le> h_count H + 1 \<and> 2 * htsize H < h_count H + 1
          then rehash alloc (H\<lparr>h_count := h_count H + 1\<rparr>) ((h_count H + 1) * 2) else (False, H\<lparr>h_count := h_count H + 1\<rparr>)) = (r, H2)"
  defines "h \<equiv> (if r then unat (strHash k) mod htsize H2 else key_slot H k)"
  defines "H' \<equiv> insertElement H2 (if h_ht H2 = None then None else Some h) (p, \<lparr>elem_pKey = k, elem_data = d\<rparr>)"
  shows "hash_ok H'" "hash_map H' = (hash_map H)(map sqlite3UpperToLower k \<mapsto> d)"
proof -
  let ?e = "(p, \<lparr>elem_pKey = k, elem_data = d\<rparr>)"
  have ok: "list_ok (h_list H)" "buckets_ok H" "h_count H = length (h_list H)" using assms(1) by (simp_all add: hash_ok_def)
  have key: "lkey ?e = map sqlite3UpperToLower k" by (simp add: lkey_def)
  have "lkey ?e \<notin> lkey ` set (h_list H)"
    using assms(3) unfolding key hash_map_def pairs_def by (force simp: map_of_eq_None_iff)
  then have new: "list_ok (?e # h_list H)" using ok(1) assms(2,4) by (simp add: list_ok_def)
  have H1: "list_ok (h_list (H\<lparr>h_count := h_count H + 1\<rparr>))" "buckets_ok (H\<lparr>h_count := h_count H + 1\<rparr>)"
    using ok(1,2) by (simp, cases "h_ht H") (simp_all add: buckets_ok_def)
  have H2: "buckets_ok H2" "mset (h_list H2) = mset (h_list H)" "h_count H2 = h_count H + 1" "r \<Longrightarrow> h_ht H2 \<noteq> None"
    "\<not> r \<Longrightarrow> H2 = H\<lparr>h_count := h_count H + 1\<rparr>"
    using assms(6) rehash_ok [OF _ H1 assms(5), of alloc "(h_count H + 1) * 2" r H2] H1 by (auto split: if_splits)
  have slot: "h = slot (htsize H2) ?e" if "h_ht H2 \<noteq> None"
    using H2(1,5) that by (auto simp: h_def slot_def key_slot_def buckets_ok_def split: option.splits)
  have "mset (?e # h_list H2) = mset (?e # h_list H)" using H2(2) by simp
  from list_ok_mset [OF this] new have l2: "list_ok (?e # h_list H2)" by simp
  note ins = insert_element [OF l2 H2(1)]
  have H': "H' = insertElement H2 (if h_ht H2 = None then None else Some (slot (htsize H2) ?e)) ?e"
    using slot by (simp add: H'_def)
  have ms: "mset (h_list H') = mset (?e # h_list H)" unfolding H' using ins(2) H2(2) by simp
  from list_ok_mset [OF ms] new have lists: "list_ok (h_list H')" by simp
  have len: "length (h_list H') = h_count H + 1" using arg_cong [OF ms, of size] ok(3) by simp
  have count: "h_count H' = h_count H + 1" unfolding H' using ins(4) H2(3) by simp
  show "hash_ok H'" using lists len count ins(1) by (simp add: hash_ok_def H')
  have keys: "distinct (map fst (pairs (h_list H')))" "distinct (map fst (pairs (?e # h_list H)))"
    using lists new by (simp_all add: pairs_def list_ok_def comp_def)
  have "set (pairs (h_list H')) = set (pairs (?e # h_list H))" using mset_eq_setD [OF ms] by (simp add: pairs_def)
  then have "map_of (pairs (h_list H')) = map_of (pairs (?e # h_list H))" using map_of_inject_set [OF keys] by simp
  then show "hash_map H' = (hash_map H)(map sqlite3UpperToLower k \<mapsto> d)" by (simp add: hash_map_def pairs_def lkey_def)
qed

lemma hash_insert:
  assumes "hash_ok H" "0 \<notin> set k" "\<And>n m. alloc n = Some m \<Longrightarrow> n \<le> m" "\<And>p. new_elem = Some p \<Longrightarrow> p \<notin> fst ` set (h_list H)"
    and "sqlite3HashInsert alloc new_elem H k data = (r, H')"
  shows "hash_ok H' \<and>
    (if data \<noteq> None \<and> new_elem = None \<and> hash_map H (map sqlite3UpperToLower k) = None then r = data \<and> hash_map H' = hash_map H
     else r = hash_map H (map sqlite3UpperToLower k) \<and> hash_map H' = (hash_map H)(map sqlite3UpperToLower k := data))"
proof -
  let ?lk = "map sqlite3UpperToLower k"
  have found: "hash_map H ?lk = map_option (elem_data \<circ> snd) (findElementGivenHash H k (key_slot H k))"
    using hash_find [OF assms(1), of k] by (simp add: sqlite3HashFind_def)
  show ?thesis
  proof (cases "findElementGivenHash H k (key_slot H k)")
    case (Some x)
    obtain p e where x: "x = (p, e)" by (cases x)
    have pe: "(p, e) \<in> set (h_list H)" "lkey (p, e) = ?lk"
      using Some x find_element [OF assms(1), of k] by (auto dest: find_SomeD)
    have m: "hash_map H ?lk = Some (elem_data e)" using found Some x by simp
    show ?thesis
    proof (cases data)
      case None
      then have "r = Some (elem_data e)" "H' = removeElementGivenHash H p (key_slot H k)"
        using assms(5) Some x by (simp_all add: sqlite3HashInsert_def Let_def)
      then show ?thesis using remove_element [OF assms(1) pe(1) key_slot [OF _ pe(2), symmetric]] pe(2) m None by simp
    next
      case (Some d)
      then have "r = Some (elem_data e)"
        "H' = H\<lparr>h_list := map (\<lambda>x. if fst x = p then (p, \<lparr>elem_pKey = k, elem_data = d\<rparr>) else x) (h_list H)\<rparr>"
        using assms(5) \<open>findElementGivenHash H k (key_slot H k) = Some x\<close> x by (simp_all add: sqlite3HashInsert_def Let_def)
      then show ?thesis using replace_element [OF assms(1) pe assms(2)] pe(2) m Some by simp
    qed
  next
    case None
    have m: "hash_map H ?lk = None" using found None by simp
    show ?thesis
    proof (cases "data = None \<or> new_elem = None")
      case True
      then have "r = data" "H' = H" using assms(5) None by (auto simp: sqlite3HashInsert_def Let_def split: option.splits)
      then show ?thesis using assms(1) m True by auto
    next
      case False
      then obtain d p where dp: "data = Some d" "new_elem = Some p" by auto
      obtain b H2 where step: "(if 10 \<le> h_count H + 1 \<and> 2 * htsize H < h_count H + 1
          then rehash alloc (H\<lparr>h_count := h_count H + 1\<rparr>) ((h_count H + 1) * 2) else (False, H\<lparr>h_count := h_count H + 1\<rparr>)) = (b, H2)"
        by (rule prod.exhaust)
      have "sqlite3HashInsert alloc new_elem H k data = (case (if 10 \<le> h_count H + 1 \<and> 2 * htsize H < h_count H + 1
          then rehash alloc (H\<lparr>h_count := h_count H + 1\<rparr>) ((h_count H + 1) * 2) else (False, H\<lparr>h_count := h_count H + 1\<rparr>)) of
          (b, H2) \<Rightarrow> (None, insertElement H2 (if h_ht H2 = None then None else Some (if b then unat (strHash k) mod htsize H2 else key_slot H k))
          (p, \<lparr>elem_pKey = k, elem_data = d\<rparr>)))"
        by (simp add: sqlite3HashInsert_def Let_def None dp)
      then have "r = None" "H' = insertElement H2 (if h_ht H2 = None then None else Some (if b then unat (strHash k) mod htsize H2 else key_slot H k))
          (p, \<lparr>elem_pKey = k, elem_data = d\<rparr>)"
        unfolding step prod.case assms(5) by simp_all
      then show ?thesis
        using add_element [OF assms(1) assms(4) [OF dp(2)] m assms(2,3) step, of d] m dp by simp
    qed
  qed
qed

section \<open>A table is a map\<close>

datatype 'd hash_op = HashFind "u8 list" | HashInsert "nat option" "nat option" "u8 list" "'d option"

text \<open>The block for buckets has room for so many more than asked for, or is not given.\<close>

definition buckets_for :: "nat option \<Rightarrow> nat \<Rightarrow> nat option" where
  "buckets_for room n = map_option (\<lambda>k. n + k) room"

fun hash_step :: "'d Hash \<Rightarrow> 'd hash_op \<Rightarrow> 'd option \<times> 'd Hash" where
  "hash_step H (HashFind k) = (sqlite3HashFind H k, H)"
| "hash_step H (HashInsert room new_elem k data) = sqlite3HashInsert (buckets_for room) new_elem H k data"

fun hash_run :: "'d Hash \<Rightarrow> 'd hash_op list \<Rightarrow> 'd option list" where
  "hash_run H [] = []"
| "hash_run H (p # ps) = (case hash_step H p of (r, H') \<Rightarrow> r # hash_run H' ps)"

text \<open>The same on a map; with no memory for a new element the data comes back and nothing changes.\<close>

fun map_step :: "(u8 list \<Rightarrow> 'd option) \<Rightarrow> 'd hash_op \<Rightarrow> 'd option \<times> (u8 list \<Rightarrow> 'd option)" where
  "map_step m (HashFind k) = (m (map sqlite3UpperToLower k), m)"
| "map_step m (HashInsert room new_elem k data) =
     (let lk = map sqlite3UpperToLower k in
      if data \<noteq> None \<and> new_elem = None \<and> m lk = None then (data, m) else (m lk, m(lk := data)))"

fun map_run :: "(u8 list \<Rightarrow> 'd option) \<Rightarrow> 'd hash_op list \<Rightarrow> 'd option list" where
  "map_run m [] = []"
| "map_run m (p # ps) = (case map_step m p of (r, m') \<Rightarrow> r # map_run m' ps)"

text \<open>What the callers and the allocator ensure: keys without NUL, and addresses that are not in use.\<close>

fun hash_op_ok :: "'d Hash \<Rightarrow> 'd hash_op \<Rightarrow> bool" where
  "hash_op_ok H (HashFind k) \<longleftrightarrow> True"
| "hash_op_ok H (HashInsert room new_elem k data) \<longleftrightarrow>
     0 \<notin> set k \<and> (case new_elem of Some p \<Rightarrow> p \<notin> fst ` set (h_list H) | None \<Rightarrow> True)"

fun hash_ops_ok :: "'d Hash \<Rightarrow> 'd hash_op list \<Rightarrow> bool" where
  "hash_ops_ok H [] \<longleftrightarrow> True"
| "hash_ops_ok H (p # ps) \<longleftrightarrow> hash_op_ok H p \<and> hash_ops_ok (snd (hash_step H p)) ps"

lemma hash_step_map:
  assumes "hash_ok H" "hash_op_ok H p" "hash_step H p = (r, H')"
  shows "hash_ok H'" "map_step (hash_map H) p = (r, hash_map H')"
proof -
  have "hash_ok H' \<and> map_step (hash_map H) p = (r, hash_map H')"
  proof (cases p)
    case (HashFind k)
    then show ?thesis using assms hash_find [OF assms(1), of k] by auto
  next
    case (HashInsert room new_elem k data)
    have alloc: "n \<le> m" if "buckets_for room n = Some m" for n m using that by (auto simp: buckets_for_def)
    have "0 \<notin> set k" "sqlite3HashInsert (buckets_for room) new_elem H k data = (r, H')" using assms(2,3) HashInsert by simp_all
    moreover have "q \<notin> fst ` set (h_list H)" if "new_elem = Some q" for q using assms(2) HashInsert that by simp
    ultimately show ?thesis
      using hash_insert [where alloc = "buckets_for room", OF assms(1) _ alloc, of k new_elem data r H'] HashInsert
      by (simp add: Let_def split: if_splits)
  qed
  then show "hash_ok H'" "map_step (hash_map H) p = (r, hash_map H')" by blast+
qed

lemma hash_run_map: "hash_ok H \<Longrightarrow> hash_ops_ok H ps \<Longrightarrow> hash_run H ps = map_run (hash_map H) ps"
proof (induction ps arbitrary: H)
  case (Cons p ps)
  obtain r H' where step: "hash_step H p = (r, H')" by (rule prod.exhaust)
  note one = hash_step_map [OF Cons.prems(1) _ step]
  show ?case using Cons.IH [of H'] one Cons.prems(2) step by simp
qed simp

text \<open>
  C33. A hash table of SQLite is a map on keys without regard to case: any sequence of insertions, replacements,
  removals and searches on a new table gives the results it gives on a map, whichever allocations fail on the way.
  In particular the chains, which only tell where a bucket starts in the common list, and rehashing, which may
  fail, never lose or mix up an element.
\<close>

theorem hash_table_is_a_map:
  assumes "hash_ops_ok sqlite3HashInit ops"
  shows "hash_run sqlite3HashInit ops = map_run Map.empty ops"
  using hash_run_map [OF hash_init_ok(1) assms] by (simp only: hash_init_ok(2))

definition sample_ops :: "nat hash_op list" where
  "sample_ops = map (\<lambda>i. HashInsert (Some 0) (Some i) [of_nat i + 65] (Some i)) [0..<10]
     @ [HashFind [99], HashInsert None (Some 20) [100] (Some 7), HashInsert None None [66] None, HashFind [66], HashFind [68]]"

theorem hash_table_is_a_map_witness:
  "hash_run sqlite3HashInit sample_ops = replicate 10 None @ [Some 2, Some 3, Some 1, None, Some 7]"
proof -
  have "hash_ops_ok sqlite3HashInit sample_ops" by code_simp
  from hash_table_is_a_map [OF this] show ?thesis by (simp, code_simp)
qed

end
