(* ===== verification/Calls.thy ===== *)
theory Calls
  imports Peers Plugins Database
begin

text \<open>
  The call logic of \<open>mp_wrap.cc\<close>: \<open>MPSipCallback\<close> receives the events of the SIP stack, bridges an
  incoming call to an outgoing one, relays DTMF digits, tears a leg down when the other ends and
  couples the media plugins of two connected legs. What a handler asks of the SIP stack is a list of
  actions, in the order of the calls; None stands for a failed assertion or an access through a NULL
  pointer or past the end of a buffer.
\<close>

section \<open>Requests to the SIP stack\<close>

text \<open>The addressee is the session the request is made on. A response line is a code and a phrase.\<close>

datatype sip_action =
    Reject sid int string
  | Hangup sid "(int \<times> cstr) option"
  | Accept sid
  | SetFromUri sid cstr
  | SetAuth sid cstr cstr
  | SetSupportedCodecs sid int
  | AddHeader sid string string
  | SetWebSocketSrc sid string int string
  | Call sid string media_mask
  | SendInfo sid string "(string \<times> string) list"
  | SendDTMF sid int
  | AcceptRegistration

section \<open>What the handlers read\<close>

text \<open>
  The parts of the left INVITE the code reads, as parsed by tinySIP. \<open>inv_ws\<close> and \<open>inv_wss\<close> are the
  type of the socket it came from, \<open>inv_local\<close> the address of that socket, \<open>inv_routes\<close> the values of
  its Route headers.
\<close>

record sip_invite =
  inv_click2call :: cstr
  inv_from_user :: cstr
  inv_to_user :: cstr
  inv_f :: cstr
  inv_t :: cstr
  inv_ha1 :: cstr
  inv_impi :: cstr
  inv_ws_src_ip :: cstr
  inv_ws_src_port :: int
  inv_ws_src_proto :: cstr
  inv_ws :: bool
  inv_wss :: bool
  inv_local :: "(string \<times> int) option"
  inv_routes :: "string list"

text \<open>The libraries, the media engine's settings and the engine's configuration.\<close>

record call_env =
  ce_T :: tsk_api
  ce_draws :: draws
  ce_faults :: sq_faults
  ce_base64_decode :: "cstr \<Rightarrow> cstr"
  ce_url_decode :: "string \<Rightarrow> cstr"
  ce_uri :: "cstr \<Rightarrow> cstr option"
  ce_bypass :: "bool \<times> bool"
  ce_negotiated :: "sid \<Rightarrow> int"
  ce_mediaMgr :: "sid \<Rightarrow> bool"
  ce_findProxyPlugin :: "sid \<Rightarrow> plugin_kind \<Rightarrow> u64 option"
  ce_dtmfType :: cstr
  ce_callers :: "MPDbAccountSipCaller list"

text \<open>The state the handlers change: the peers, the database connection, the plugins.\<close>

record gateway =
  gw_peers :: peer_table
  gw_db :: "MPDbSQLite option"
  gw_plugins :: plugin_mgr

section \<open>attachMediaProxyPlugins\<close>

definition leg_plugin :: "call_env \<Rightarrow> plugin_mgr \<Rightarrow> sid \<Rightarrow> plugin_kind \<Rightarrow> plugin_ref option" where
  "leg_plugin E pm s k =
     (case ce_findProxyPlugin E s k of None \<Rightarrow> None | Some i \<Rightarrow> findPlugin pm i)"

definition attach_opt :: "plugin_ref option \<Rightarrow> plugin_ref option \<Rightarrow> plugin_mgr \<Rightarrow> plugin_mgr" where
  "attach_opt c p pm = (case (c, p) of (Some c', Some p') \<Rightarrow> setProducerOpposite c' p' pm | _ \<Rightarrow> pm)"

text \<open>One medium: look the four plugins up, then couple left to right and right to left.\<close>

definition attach_medium :: "call_env \<Rightarrow> plugin_kind \<Rightarrow> plugin_kind \<Rightarrow> sid \<Rightarrow> sid \<Rightarrow> plugin_mgr \<Rightarrow> plugin_mgr" where
  "attach_medium E ck pk l r pm =
     (let consumerLeft = leg_plugin E pm l ck;
          producerLeft = leg_plugin E pm l pk;
          consumerRight = leg_plugin E pm r ck;
          producerRight = leg_plugin E pm r pk
      in attach_opt consumerRight producerLeft (attach_opt consumerLeft producerRight pm))"

definition attachMediaProxyPlugins :: "call_env \<Rightarrow> MPPeer \<Rightarrow> plugin_mgr \<Rightarrow> plugin_mgr" where
  "attachMediaProxyPlugins E p pm =
     (let l = av_id (m_oCallSessionLeft p) in
      case m_oCallSessionRight p of
        None \<Rightarrow> pm
      | Some sr \<Rightarrow>
          if ce_mediaMgr E (av_id sr) \<and> ce_mediaMgr E l then
            let pm1 = (if m_eMediaType p AND MPMediaType_Audio \<noteq> 0
                       then attach_medium E AudioConsumer AudioProducer l (av_id sr) pm else pm)
            in if m_eMediaType p AND MPMediaType_Video \<noteq> 0
               then attach_medium E VideoConsumer VideoProducer l (av_id sr) pm1 else pm1
          else pm)"

section \<open>OnInviteEvent: DTMF in an INFO request\<close>

definition MP_DTMF_CONTENT_TYPE :: string where "MP_DTMF_CONTENT_TYPE = ''application/dtmf-relay''"
definition MP_DTMF_TYPE_RFC2833 :: string where "MP_DTMF_TYPE_RFC2833 = ''rfc2833''"
definition MP_DTMF_TYPE_RFC4733 :: string where "MP_DTMF_TYPE_RFC4733 = ''rfc4733''"

text \<open>The table \<open>__dtmf_codes\<close> and its search; the loop has no break, so the last match counts.\<close>

definition dtmf_codes :: "(int \<times> char) list" where
  "dtmf_codes = zip [0, 1, 2, 3, 4, 5, 6, 7, 8, 9, 10, 11, 12, 13, 14, 15] ''0123456789*#ABCD''"

definition dtmf_code :: "char \<Rightarrow> int" where
  "dtmf_code c = foldl (\<lambda>code (k, v). if v = c then k else code) (-1) dtmf_codes"

record sip_info =
  info_isInfo :: bool
  info_hasContent :: bool
  info_contentType :: cstr
  info_content :: cstr
  info_session :: "sid option"

text \<open>
  \<open>pcContent[nSignalIndex + 7]\<close> reads the octet after \<open>Signal=\<close>, which is past the end of the content
  when the content ends there. The leg the digit goes to must exist.
\<close>

definition relay_dtmf :: "call_env \<Rightarrow> sid \<Rightarrow> string \<Rightarrow> sip_action list option" where
  "relay_dtmf E s content =
     (if tsk_striequals (ce_T E) (ce_dtmfType E) (Some MP_DTMF_TYPE_RFC2833)
      then Some [SendInfo s content [(''Content-Type'', MP_DTMF_CONTENT_TYPE)]]
      else let nSignalIndex = tsk_strindexOf (ce_T E) content ''Signal='' in
           if nSignalIndex = -1 then Some []
           else if length content \<le> nat (nSignalIndex + 7) then None
           else let dtmfCode = dtmf_code (content ! nat (nSignalIndex + 7)) in
                if dtmfCode = -1 then Some [] else Some [SendDTMF s dtmfCode])"

definition OnInfo :: "call_env \<Rightarrow> sip_info \<Rightarrow> gateway \<Rightarrow> sip_action list option" where
  "OnInfo E m g =
     (if \<not> (info_isInfo m \<and> info_hasContent m
            \<and> tsk_striequals (ce_T E) (info_contentType m) (Some MP_DTMF_CONTENT_TYPE)) then Some []
      else case info_session m of
        None \<Rightarrow> Some []
      | Some s \<Rightarrow>
          (case (getPeerBySessionId (gw_peers g) (ucast s) True, getPeerBySessionId (gw_peers g) (ucast s) False) of
             (Some p, _) \<Rightarrow>
               (case info_content m of
                  Some (c # cs) \<Rightarrow> (case m_oCallSessionRight p of
                      None \<Rightarrow> None | Some r \<Rightarrow> relay_dtmf E (av_id r) (c # cs))
                | _ \<Rightarrow> Some [])
           | (None, Some p) \<Rightarrow>
               (case info_content m of
                  Some (c # cs) \<Rightarrow> relay_dtmf E (av_id (m_oCallSessionLeft p)) (c # cs)
                | _ \<Rightarrow> Some [])
           | (None, None) \<Rightarrow> Some []))"

section \<open>OnInviteEvent: a new call\<close>

text \<open>\<open>MPEngine::findAccountSipCallerByRealm\<close>.\<close>

definition findAccountSipCallerByRealm :: "tsk_api \<Rightarrow> MPDbAccountSipCaller list \<Rightarrow> cstr \<Rightarrow> MPDbAccountSipCaller option option" where
  "findAccountSipCallerByRealm T callers realm =
     (case realm of None \<Rightarrow> None | Some _ \<Rightarrow> Some (find (\<lambda>k. tsk_striequals T (clr_pRealm k) realm) callers))"

text \<open>The click-to-call resolution: a rejection, or the source, destination and credentials.\<close>

datatype resolution = Rejected int string | Resolved (res_src: cstr) (res_dst: cstr) (res_ha1: cstr) (res_impi: cstr)

text \<open>The address of the account: the given one, else the first of the account.\<close>

definition click2call_address ::
  "call_env \<Rightarrow> int \<Rightarrow> cstr \<Rightarrow> MPDbSQLite \<Rightarrow> (MPDbAccountSip option \<times> MPDbSQLite) option" where
  "click2call_address E accountId addr64 c = do {
     (s1, c1) \<leftarrow> selectAccountSipByAccountIdAndAddress (ce_faults E) accountId addr64 c;
     (case s1 of
        Some s \<Rightarrow> Some (Some s, c1)
      | None \<Rightarrow> selectAccountSipByAccountId (ce_faults E) accountId c1) }"

text \<open>The caller of the address: from the database, else from the configuration by realm.\<close>

definition click2call_caller ::
  "call_env \<Rightarrow> int \<Rightarrow> cstr \<Rightarrow> MPDbSQLite \<Rightarrow> (MPDbAccountSipCaller option \<times> MPDbSQLite) option" where
  "click2call_caller E sipId host c = do {
     (k1, c1) \<leftarrow> selectAccountSipCallerByAccountSipId (ce_faults E) sipId c;
     (case k1 of
        Some k \<Rightarrow> Some (Some k, c1)
      | None \<Rightarrow> do { k \<leftarrow> findAccountSipCallerByRealm (ce_T E) (ce_callers E) host; Some (k, c1) }) }"

definition click2call ::
  "call_env \<Rightarrow> sip_invite \<Rightarrow> MPDbSQLite option \<Rightarrow> (resolution \<times> MPDbSQLite option) option" where
  "click2call E m db =
     (case db of
        None \<Rightarrow> Some (Rejected 500 ''No database to look into for the click2call operation'', None)
      | Some c \<Rightarrow>
         (case ce_base64_decode E (inv_from_user m) of
            None \<Rightarrow> None
          | Some email \<Rightarrow> do {
              (acc, c1) \<leftarrow> selectAccountByEmail (ce_T E) (ce_draws E) (ce_faults E) email c;
              (case acc of
                 None \<Rightarrow> Some (Rejected 404 ''Failed to find user account (click2call operation)'', Some c1)
               | Some a \<Rightarrow>
                   if \<not> acc_bActivated a
                   then Some (Rejected 403 ''Account not activated (click2call operation)'', Some c1)
                   else do {
                     (sip, c2) \<leftarrow> click2call_address E (acc_nId a) (inv_to_user m) c1;
                     (case sip of
                        None \<Rightarrow> Some (Rejected 404 ''Failed to find SIP address (click2call operation)'', Some c2)
                      | Some s \<Rightarrow>
                          let dst = ce_base64_decode E (sip_pAddress64 s) in
                          (case ce_uri E dst of
                             None \<Rightarrow> Some (Rejected 483 ''Failed to parse SIP address (click2call operation)'', Some c2)
                           | Some host \<Rightarrow> do {
                               (clr, c3) \<leftarrow> click2call_caller E (sip_nId s) host c2;
                               (case clr of
                                  None \<Rightarrow> Some (Rejected 404 ''Failed to find SIP caller account (click2call operation)'', Some c3)
                                | Some k \<Rightarrow> Some (Resolved (clr_pImpu k) dst (clr_pHa1 k) (clr_pImpi k), Some c3)) })) }) }))"

definition resolve ::
  "call_env \<Rightarrow> sip_invite \<Rightarrow> MPDbSQLite option \<Rightarrow> (resolution \<times> MPDbSQLite option) option" where
  "resolve E m db =
     (if tsk_striequals (ce_T E) (inv_click2call m) (Some ''yes'') then click2call E m db
      else Some (Resolved (inv_f m) (inv_t m) (inv_ha1 m)
                   (case inv_impi m of None \<Rightarrow> None | Some i \<Rightarrow> ce_url_decode E i), db))"

definition event_media :: "media_mask \<Rightarrow> media_mask" where
  "event_media native =
     (let e0 = MPMediaType_None;
          e1 = (if native AND twrap_media_audio \<noteq> 0 then e0 OR MPMediaType_Audio else e0)
      in if native AND twrap_media_video \<noteq> 0 then e1 OR MPMediaType_Video else e1)"

text \<open>The Route of a WebSocket address.\<close>

definition ws_route :: "string \<Rightarrow> int \<Rightarrow> string \<Rightarrow> string" where
  "ws_route ip port proto =
     ''<sip:'' @ ip @ '':'' @ dec_of_int port @ '';transport='' @ proto @ '';lr>''"

text \<open>What is asked of the two sessions between their creation and the call, in order.\<close>

definition bridge_actions ::
  "call_env \<Rightarrow> sip_invite \<Rightarrow> sid \<Rightarrow> sid \<Rightarrow> cstr \<Rightarrow> cstr \<Rightarrow> cstr \<Rightarrow> sip_action list" where
  "bridge_actions E m l r src ha1 impi =
     [SetFromUri r src, SetAuth r ha1 impi]
     @ (if fst (ce_bypass E) then [SetSupportedCodecs r (ce_negotiated E l)] else [])
     @ (if \<not> tsk_strnullORempty (ce_T E) (inv_ws_src_ip m) \<and> 0 < inv_ws_src_port m
        then [AddHeader r ''Route''
                (ws_route (pct_s (inv_ws_src_ip m)) (inv_ws_src_port m)
                   (case inv_ws_src_proto m of None \<Rightarrow> ''ws'' | Some p \<Rightarrow> p))]
        else [])
     @ (if inv_ws m \<or> inv_wss m then
          (case inv_local m of
             None \<Rightarrow> []
           | Some (ip, port) \<Rightarrow>
               let proto = (if inv_ws m then ''ws'' else ''wss'') in
               [SetWebSocketSrc r ip port proto, AddHeader l ''Route'' (ws_route ip port proto)])
        else [])
     @ map (AddHeader r ''Route'') (inv_routes m)"

text \<open>The two legs of the new peer, each the opposite of the other and connecting.\<close>

definition bridge_peer :: "bool \<times> bool \<Rightarrow> sid \<Rightarrow> sid \<Rightarrow> media_mask \<Rightarrow> peer_table \<Rightarrow> peer_table" where
  "bridge_peer bypass l r eMediaType pt =
     (let (p0, pt0) = new_MPPeer (new_MPSipSessionAV l eMediaType) pt;
          p1 = (setSessionLeftState bypass MPPeerState_Connecting p0)\<lparr>m_eMediaType := eMediaType\<rparr>;
          pt1 = insertPeer p1 pt0;
          right = setSessionOpposite (Some l) (new_MPSipSessionAV r eMediaType);
          p2 = p1\<lparr>m_oCallSessionLeft := setSessionOpposite (Some r) (m_oCallSessionLeft p1)\<rparr>;
          p3 = setSessionRightState bypass MPPeerState_Connecting (setCallSessionRight right p2)
      in updatePeer p3 pt1)"

text \<open>
  The case \<open>tsip_i_newcall\<close>. \<open>left\<close> is the session taken over from the event, \<open>right\<close> the id the stack
  gives to the outgoing one. Once \<open>pCallSessionLeft\<close> is wrapped it is NULL, so that the rejection of the
  last branch is a call on a NULL pointer.
\<close>

definition OnNewCall ::
  "call_env \<Rightarrow> sip_invite \<Rightarrow> media_mask \<Rightarrow> sid option \<Rightarrow> sid \<Rightarrow> gateway \<Rightarrow> (gateway \<times> sip_action list) option" where
  "OnNewCall E m native left right g =
     (case left of
        None \<Rightarrow> Some (g, [])
      | Some l \<Rightarrow> do {
          (res, db') \<leftarrow> resolve E m (gw_db g);
          (case res of
             Rejected code phrase \<Rightarrow> Some (g\<lparr>gw_db := db'\<rparr>, [Reject l code phrase])
           | Resolved src dst ha1 impi \<Rightarrow>
               let eMediaType = event_media native in
               (case dst of
                  Some d \<Rightarrow>
                    if ce_mediaMgr E l \<and> eMediaType \<noteq> MPMediaType_None then
                      if getPeerBySessionId (gw_peers g) (ucast l) True \<noteq> None then None
                      else Some
                        (g\<lparr>gw_db := db', gw_peers := bridge_peer (ce_bypass E) l right eMediaType (gw_peers g)\<rparr>,
                         bridge_actions E m l right src ha1 impi
                         @ [Call right d
                              (if eMediaType AND MPMediaType_Audio \<noteq> 0 \<and> eMediaType AND MPMediaType_Video \<noteq> 0
                               then twrap_media_audio_video
                               else if eMediaType AND MPMediaType_Audio \<noteq> 0 then twrap_media_audio
                               else twrap_media_video)])
                    else None
                | None \<Rightarrow> None)) })"

section \<open>OnDialogEvent\<close>

datatype dialog_code = DialogTerminated | DialogTerminating | DialogConnected | DialogOther

text \<open>\<open>dlg_msg\<close> is the message of the event, if any: whether it is a response, its code and phrase.\<close>

record dialog_event =
  dlg_session :: "sid option"
  dlg_code :: dialog_code
  dlg_msg :: "(bool \<times> int \<times> cstr) option"

definition dlg_response :: "dialog_event \<Rightarrow> int \<times> cstr" where
  "dlg_response e = (case dlg_msg e of Some (True, code, phrase) \<Rightarrow> (code, phrase) | _ \<Rightarrow> (0, None))"

text \<open>The peer of the session, and whether it is the left leg.\<close>

definition find_leg :: "peer_table \<Rightarrow> sid \<Rightarrow> (MPPeer \<times> bool) option" where
  "find_leg pt s =
     (case getPeerBySessionId pt (ucast s) True of
        Some p \<Rightarrow> Some (p, True)
      | None \<Rightarrow> map_option (\<lambda>p. (p, False)) (getPeerBySessionId pt (ucast s) False))"

definition OnDialogTerminated ::
  "call_env \<Rightarrow> MPPeer \<Rightarrow> bool \<Rightarrow> dialog_event \<Rightarrow> gateway \<Rightarrow> gateway \<times> sip_action list" where
  "OnDialogTerminated E p bIsLeft e g =
     (let (nSipCode, phrase) = dlg_response e;
          q = (if bIsLeft
               then setLastSipResponseLeft nSipCode (setSessionLeftState (ce_bypass E) MPPeerState_Terminated p)
               else setLastSipResponseRight nSipCode (setSessionRightState (ce_bypass E) MPPeerState_Terminated p));
          config = (if 0 < nSipCode then Some (nSipCode, phrase) else None);
          acts1 = (if isSessionLeftActive q then [Hangup (av_id (m_oCallSessionLeft q)) config] else []);
          acts2 = (case m_oCallSessionRight q of
                     Some r \<Rightarrow> if isSessionRightActive q then [Hangup (av_id r) config] else []
                   | None \<Rightarrow> []);
          pt = updatePeer q (gw_peers g)
      in (g\<lparr>gw_peers := (if \<not> isSessionLeftActive q \<and> \<not> isSessionRightActive q
                         then removePeer (m_nId q) pt else pt)\<rparr>,
          acts1 @ acts2))"

definition OnDialogConnected ::
  "call_env \<Rightarrow> MPPeer \<Rightarrow> bool \<Rightarrow> gateway \<Rightarrow> gateway \<times> sip_action list" where
  "OnDialogConnected E p bIsLeft g =
     (let (q, acts) =
            (if bIsLeft then (setSessionLeftState (ce_bypass E) MPPeerState_Connected p, [])
             else let q = setSessionRightState (ce_bypass E) MPPeerState_Connected p;
                      l = av_id (m_oCallSessionLeft q)
                  in (q, case m_oCallSessionRight q of
                           None \<Rightarrow> []
                         | Some r \<Rightarrow>
                             if \<not> isSessionLeftConnected q
                             then (if fst (ce_bypass E) then [SetSupportedCodecs l (ce_negotiated E (av_id r))] else [])
                                  @ [Accept l]
                             else []));
          g1 = g\<lparr>gw_peers := updatePeer q (gw_peers g)\<rparr>
      in if isSessionLeftConnected q \<and> isSessionRightConnected q
         then (g1\<lparr>gw_plugins := attachMediaProxyPlugins E q (gw_plugins g1)\<rparr>, acts)
         else (g1, acts))"

definition OnDialogEvent :: "call_env \<Rightarrow> dialog_event \<Rightarrow> gateway \<Rightarrow> gateway \<times> sip_action list" where
  "OnDialogEvent E e g =
     (case dlg_session e of
        None \<Rightarrow> (g, [])
      | Some s \<Rightarrow>
          (case find_leg (gw_peers g) s of
             None \<Rightarrow> (g, [])
           | Some (p, bIsLeft) \<Rightarrow>
               (case dlg_code e of
                  DialogTerminated \<Rightarrow> OnDialogTerminated E p bIsLeft e g
                | DialogTerminating \<Rightarrow> OnDialogTerminated E p bIsLeft e g
                | DialogConnected \<Rightarrow> OnDialogConnected E p bIsLeft g
                | DialogOther \<Rightarrow> (g, []))))"

section \<open>OnRegistrationEvent, MPSipStack\<close>

definition OnRegistrationEvent :: "bool \<Rightarrow> bool \<Rightarrow> sip_action list" where
  "OnRegistrationEvent isNewReg owned = (if isNewReg \<and> owned then [AcceptRegistration] else [])"

text \<open>\<open>MPSipStack::New\<close>: the wrapper is NULL unless the wrapped stack exists and is valid.\<close>

definition MPSipStack_isValid :: "bool option \<Rightarrow> bool" where
  "MPSipStack_isValid st = (case st of None \<Rightarrow> False | Some valid \<Rightarrow> valid)"

definition MPSipStack_New :: "bool option \<Rightarrow> bool option option" where
  "MPSipStack_New st = (if MPSipStack_isValid st then Some st else None)"

section \<open>The gateway as a sequence of events\<close>

datatype call_event =
    NewCall sip_invite media_mask "sid option" sid
  | Info sip_info
  | Dialog dialog_event

definition handle :: "call_env \<Rightarrow> call_event \<Rightarrow> gateway \<Rightarrow> (gateway \<times> sip_action list) option" where
  "handle E e g =
     (case e of
        NewCall m native left right \<Rightarrow> OnNewCall E m native left right g
      | Info m \<Rightarrow> map_option (\<lambda>acts. (g, acts)) (OnInfo E m g)
      | Dialog d \<Rightarrow> Some (OnDialogEvent E d g))"

section \<open>Invariant of the table of peers\<close>

lemma ucast_sid_eq [simp]: "(ucast (a :: 32 word) :: u64) = ucast b \<longleftrightarrow> a = b"
proof -
  have "unat (ucast a :: u64) = unat a" "unat (ucast b :: u64) = unat b"
    by (transfer, simp)+
  then show ?thesis by (metis word_unat_eq_iff)
qed

text \<open>A peer of the table: both sessions there and named by the session ids, at least one leg alive.\<close>

definition peer_wf :: "MPPeer \<Rightarrow> bool" where
  "peer_wf p \<longleftrightarrow>
     m_nSessionIdLeft p = ucast (av_id (m_oCallSessionLeft p))
     \<and> (case m_oCallSessionRight p of None \<Rightarrow> False
        | Some r \<Rightarrow> m_nSessionIdRight p = ucast (av_id r) \<and> av_id r \<noteq> av_id (m_oCallSessionLeft p))
     \<and> (isSessionLeftActive p \<or> isSessionRightActive p)"

text \<open>The sessions of a peer.\<close>

definition peer_sids :: "MPPeer \<Rightarrow> u64 set" where
  "peer_sids p = {m_nSessionIdLeft p, m_nSessionIdRight p}"

definition call_inv :: "peer_table \<Rightarrow> bool" where
  "call_inv pt \<longleftrightarrow> table_ok pt
     \<and> (\<forall>k p. getPeerById pt k = Some p \<longrightarrow> m_nId p = k \<and> k \<le> g_nId pt \<and> peer_wf p)
     \<and> (\<forall>k p k' p'. getPeerById pt k = Some p \<longrightarrow> getPeerById pt k' = Some p' \<longrightarrow> k \<noteq> k' \<longrightarrow>
          peer_sids p \<inter> peer_sids p' = {})"

lemma call_inv_peer:
  "call_inv pt \<Longrightarrow> getPeerById pt k = Some p \<Longrightarrow> m_nId p = k \<and> k \<le> g_nId pt \<and> peer_wf p"
  by (simp add: call_inv_def)

lemma call_inv_disjoint:
  assumes "call_inv pt" "getPeerById pt k = Some p" "getPeerById pt k' = Some p'"
    and "x \<in> peer_sids p" "x \<in> peer_sids p'"
  shows "k = k'"
proof (rule ccontr)
  assume "k \<noteq> k'"
  with assms(1-3) have "peer_sids p \<inter> peer_sids p' = {}"
    unfolding call_inv_def by blast
  with assms(4,5) show False by blast
qed

lemma find_leg_Some:
  assumes "table_ok pt" "find_leg pt s = Some (p, left)"
  shows "\<exists>k. getPeerById pt k = Some p"
    and "if left then m_nSessionIdLeft p = ucast s else m_nSessionIdRight p = ucast s"
  using assms bySession_Some [of pt "ucast s" left p]
  by (cases left; auto simp: find_leg_def split: option.splits)+

text \<open>The search by session id finds the peer that has the session, and the leg.\<close>

lemma find_leg_left:
  assumes "call_inv pt" "getPeerById pt k = Some p" "av_id (m_oCallSessionLeft p) = s"
  shows "find_leg pt s = Some (p, True)"
proof -
  have p: "m_nSessionIdLeft p = ucast s" using call_inv_peer [OF assms(1,2)] assms(3) by (simp add: peer_wf_def)
  have ok: "table_ok pt" using assms(1) by (simp add: call_inv_def)
  obtain p' where p': "getPeerBySessionId pt (ucast s) True = Some p'"
    using bySession_None [OF ok _ assms(2), of "ucast s" True] p
    by (cases "getPeerBySessionId pt (ucast s) True") auto
  obtain k' where k': "getPeerById pt k' = Some p'" "m_nSessionIdLeft p' = ucast s"
    using bySession_Some [OF ok p'] by auto
  have "k' = k" using call_inv_disjoint [OF assms(1) assms(2) k'(1), of "ucast s"] p k'(2) by (simp add: peer_sids_def)
  with k'(1) assms(2) p' show ?thesis by (simp add: find_leg_def)
qed

lemma find_leg_right:
  assumes "call_inv pt" "getPeerById pt k = Some p" "m_oCallSessionRight p = Some r" "av_id r = s"
  shows "find_leg pt s = Some (p, False)"
proof -
  have wf: "peer_wf p" and k: "m_nId p = k" using call_inv_peer [OF assms(1,2)] by auto
  have p: "m_nSessionIdRight p = ucast s" "m_nSessionIdLeft p \<noteq> ucast s"
    using wf assms(3,4) by (auto simp: peer_wf_def)
  have ok: "table_ok pt" using assms(1) by (simp add: call_inv_def)
  have none: "getPeerBySessionId pt (ucast s) True = None"
  proof (rule ccontr)
    assume "getPeerBySessionId pt (ucast s) True \<noteq> None"
    then obtain p' k' where "getPeerById pt k' = Some p'" "m_nSessionIdLeft p' = ucast s"
      using bySession_Some [OF ok] by fastforce
    with call_inv_disjoint [OF assms(1,2) this(1), of "ucast s"] p assms(2) show False
      by (auto simp: peer_sids_def)
  qed
  obtain p' where p': "getPeerBySessionId pt (ucast s) False = Some p'"
    using bySession_None [OF ok _ assms(2), of "ucast s" False] p
    by (cases "getPeerBySessionId pt (ucast s) False") auto
  obtain k' where k': "getPeerById pt k' = Some p'" "m_nSessionIdRight p' = ucast s"
    using bySession_Some [OF ok p'] by auto
  have "k' = k" using call_inv_disjoint [OF assms(1) assms(2) k'(1), of "ucast s"] p k'(2) by (simp add: peer_sids_def)
  with k'(1) assms(2) p' none show ?thesis by (simp add: find_leg_def)
qed

text \<open>Replacing a peer by one with the same identity and sessions.\<close>

lemma call_inv_update:
  assumes "call_inv pt" "getPeerById pt (m_nId p) = Some p0"
    and "peer_sids p = peer_sids p0" "peer_wf p"
  shows "call_inv (updatePeer p pt)"
proof -
  have t: "table_ok (updatePeer p pt)" using assms(1) by (simp add: call_inv_def)
  have g: "g_nId (updatePeer p pt) = g_nId pt" by (simp add: updatePeer_def)
  have one: "m_nId q = k \<and> k \<le> g_nId pt \<and> peer_wf q" if "getPeerById (updatePeer p pt) k = Some q" for k q
    using that assms call_inv_peer [OF assms(1)] by (auto simp: getPeerById_update split: if_splits)
  have same: "\<exists>q0. getPeerById pt k = Some q0 \<and> peer_sids q0 = peer_sids q"
    if "getPeerById (updatePeer p pt) k = Some q" for k q
    using that assms(2,3) by (auto simp: getPeerById_update split: if_splits)
  have "peer_sids q \<inter> peer_sids q' = {}"
    if "getPeerById (updatePeer p pt) k = Some q" "getPeerById (updatePeer p pt) k' = Some q'" "k \<noteq> k'" for k q k' q'
    using same [OF that(1)] same [OF that(2)] that(3) assms(1) by (auto simp: call_inv_def) blast
  with t g one show ?thesis unfolding call_inv_def by auto
qed

lemma call_inv_remove:
  assumes "call_inv pt" shows "call_inv (removePeer k pt)"
proof -
  have t: "table_ok pt" using assms by (simp add: call_inv_def)
  have "g_nId (removePeer k pt) = g_nId pt" by (simp add: removePeer_def split: option.splits)
  with assms t show ?thesis by (auto simp: call_inv_def peers.lookup_remove split: if_splits)
qed

text \<open>Removal cancels an update of the same peer.\<close>

lemma remove_update: "removePeer (m_nId p) (updatePeer p pt) = removePeer (m_nId p) pt"
proof -
  have *: "map_erase k (map_modify k f m) = map_erase k m" for k f and m :: "('a, 'b) std_map"
    by (induction m) (auto simp: map_erase_def map_modify_def)
  have **: "map_find m k = None \<Longrightarrow> map_modify k f m = m" for k f and m :: "('a, 'b) std_map"
    by (induction m) (auto simp: map_find_def map_modify_def split: if_splits)
  show ?thesis by (auto simp: removePeer_def updatePeer_def map_find_modify * ** split: option.splits)
qed

subsection \<open>The handlers keep it\<close>

lemma av_id_setState [simp]: "av_id (MPSipSessionAV_setState b st s) = av_id s"
  by (cases st) (auto simp: MPSipSessionAV_setState_def setSessionOpposite_def Let_def)

lemma state_simps [simp]:
  "m_nId (setSessionLeftState b st p) = m_nId p" "m_nId (setSessionRightState b st p) = m_nId p"
  "m_nSessionIdLeft (setSessionLeftState b st p) = m_nSessionIdLeft p"
  "m_nSessionIdLeft (setSessionRightState b st p) = m_nSessionIdLeft p"
  "m_nSessionIdRight (setSessionLeftState b st p) = m_nSessionIdRight p"
  "m_nSessionIdRight (setSessionRightState b st p) = m_nSessionIdRight p"
  "av_id (m_oCallSessionLeft (setSessionLeftState b st p)) = av_id (m_oCallSessionLeft p)"
  "m_oCallSessionLeft (setSessionRightState b st p) = m_oCallSessionLeft p"
  "m_oCallSessionRight (setSessionLeftState b st p) = m_oCallSessionRight p"
  "map_option av_id (m_oCallSessionRight (setSessionRightState b st p)) = map_option av_id (m_oCallSessionRight p)"
  "m_eSessionLeftState (setSessionLeftState b st p) = st"
  "m_eSessionRightState (setSessionLeftState b st p) = m_eSessionRightState p"
  "m_eSessionLeftState (setSessionRightState b st p) = m_eSessionLeftState p"
  "m_eSessionRightState (setSessionRightState b st p) = st"
  "m_eMediaType (setSessionLeftState b st p) = m_eMediaType p"
  "m_eMediaType (setSessionRightState b st p) = m_eMediaType p"
  by (auto simp: setSessionLeftState_def setSessionRightState_def option.map_comp o_def)

lemma response_simps [simp]:
  "m_nId (setLastSipResponseLeft n p) = m_nId p" "m_nId (setLastSipResponseRight n p) = m_nId p"
  "peer_sids (setLastSipResponseLeft n p) = peer_sids p" "peer_sids (setLastSipResponseRight n p) = peer_sids p"
  "m_oCallSessionLeft (setLastSipResponseLeft n p) = m_oCallSessionLeft p"
  "m_oCallSessionLeft (setLastSipResponseRight n p) = m_oCallSessionLeft p"
  "m_oCallSessionRight (setLastSipResponseLeft n p) = m_oCallSessionRight p"
  "m_oCallSessionRight (setLastSipResponseRight n p) = m_oCallSessionRight p"
  "m_eSessionLeftState (setLastSipResponseLeft n p) = m_eSessionLeftState p"
  "m_eSessionRightState (setLastSipResponseLeft n p) = m_eSessionRightState p"
  "m_eSessionLeftState (setLastSipResponseRight n p) = m_eSessionLeftState p"
  "m_eSessionRightState (setLastSipResponseRight n p) = m_eSessionRightState p"
  "m_nSessionIdLeft (setLastSipResponseLeft n p) = m_nSessionIdLeft p"
  "m_nSessionIdLeft (setLastSipResponseRight n p) = m_nSessionIdLeft p"
  "m_nSessionIdRight (setLastSipResponseLeft n p) = m_nSessionIdRight p"
  "m_nSessionIdRight (setLastSipResponseRight n p) = m_nSessionIdRight p"
  by (auto simp: setLastSipResponseLeft_def setLastSipResponseRight_def peer_sids_def)

text \<open>A peer is well formed when it has the identity of a well-formed one and a leg that is alive.\<close>

lemma peer_wf_state:
  assumes "peer_wf p" "m_nSessionIdLeft q = m_nSessionIdLeft p" "m_nSessionIdRight q = m_nSessionIdRight p"
    and "av_id (m_oCallSessionLeft q) = av_id (m_oCallSessionLeft p)"
    and "map_option av_id (m_oCallSessionRight q) = map_option av_id (m_oCallSessionRight p)"
    and "isSessionLeftActive q \<or> isSessionRightActive q"
  shows "peer_wf q"
  using assms by (auto simp: peer_wf_def split: option.splits)

lemma active_simps [simp]:
  "state_active MPPeerState_Connecting" "state_active MPPeerState_Connected"
  "\<not> state_active MPPeerState_Terminated" "\<not> state_active MPPeerState_None"
  by (simp_all add: state_active_def)

lemma call_inv_terminated:
  assumes inv: "call_inv (gw_peers g)" and leg: "getPeerById (gw_peers g) k = Some p"
  shows "call_inv (gw_peers (fst (OnDialogTerminated E p left e g)))"
proof -
  have k: "m_nId p = k" "peer_wf p" using call_inv_peer [OF inv leg] by auto
  define q where "q = (if left
       then setLastSipResponseLeft (fst (dlg_response e)) (setSessionLeftState (ce_bypass E) MPPeerState_Terminated p)
       else setLastSipResponseRight (fst (dlg_response e)) (setSessionRightState (ce_bypass E) MPPeerState_Terminated p))"
  have q: "m_nId q = k" "peer_sids q = peer_sids p" "m_nSessionIdLeft q = m_nSessionIdLeft p"
    "m_nSessionIdRight q = m_nSessionIdRight p" "av_id (m_oCallSessionLeft q) = av_id (m_oCallSessionLeft p)"
    "map_option av_id (m_oCallSessionRight q) = map_option av_id (m_oCallSessionRight p)"
    using k by (simp_all add: q_def peer_sids_def)
  have eq: "gw_peers (fst (OnDialogTerminated E p left e g)) =
      (if \<not> isSessionLeftActive q \<and> \<not> isSessionRightActive q
       then removePeer (m_nId q) (updatePeer q (gw_peers g)) else updatePeer q (gw_peers g))"
    by (simp add: OnDialogTerminated_def Let_def q_def split: prod.split)
  show ?thesis
  proof (cases "\<not> isSessionLeftActive q \<and> \<not> isSessionRightActive q")
    case True
    then show ?thesis using eq inv by (simp add: remove_update call_inv_remove)
  next
    case False
    then have "peer_wf q" using peer_wf_state [OF k(2) q(3-6)] by blast
    then show ?thesis using eq False inv leg q by (auto intro: call_inv_update)
  qed
qed

lemma call_inv_connected:
  assumes inv: "call_inv (gw_peers g)" and leg: "getPeerById (gw_peers g) k = Some p"
  shows "call_inv (gw_peers (fst (OnDialogConnected E p left g)))"
proof -
  have k: "m_nId p = k" "peer_wf p" using call_inv_peer [OF inv leg] by auto
  define q where "q = (if left then setSessionLeftState (ce_bypass E) MPPeerState_Connected p
       else setSessionRightState (ce_bypass E) MPPeerState_Connected p)"
  have q: "m_nId q = k" "peer_sids q = peer_sids p" "m_nSessionIdLeft q = m_nSessionIdLeft p"
    "m_nSessionIdRight q = m_nSessionIdRight p" "av_id (m_oCallSessionLeft q) = av_id (m_oCallSessionLeft p)"
    "map_option av_id (m_oCallSessionRight q) = map_option av_id (m_oCallSessionRight p)"
    "isSessionLeftActive q \<or> isSessionRightActive q"
    using k by (simp_all add: q_def peer_sids_def isSessionLeftActive_def isSessionRightActive_def)
  have "gw_peers (fst (OnDialogConnected E p left g)) = updatePeer q (gw_peers g)"
    by (simp add: OnDialogConnected_def Let_def q_def)
  then show ?thesis using inv leg q peer_wf_state [OF k(2) q(3-7)] by (auto intro: call_inv_update)
qed

lemma call_inv_dialog [w2s_inv]:
  assumes "call_inv (gw_peers g)"
  shows "call_inv (gw_peers (fst (OnDialogEvent E e g)))"
proof (cases "dlg_session e")
  case None
  then show ?thesis using assms by (simp add: OnDialogEvent_def)
next
  case (Some s)
  show ?thesis
  proof (cases "find_leg (gw_peers g) s")
    case None
    then show ?thesis using Some assms by (simp add: OnDialogEvent_def)
  next
    case leg: (Some pl)
    then obtain p left where pl: "pl = (p, left)" by fastforce
    have "table_ok (gw_peers g)" using assms by (simp add: call_inv_def)
    from find_leg_Some(1) [OF this] leg pl obtain k where "getPeerById (gw_peers g) k = Some p" by blast
    then show ?thesis using Some leg pl assms
      by (cases "dlg_code e") (auto simp: OnDialogEvent_def call_inv_terminated call_inv_connected)
  qed
qed

text \<open>
  A new call keeps the invariant when the two session ids are new to the table and the id counter is
  not exhausted: the stack numbers its sessions, and 2 ^ 64 calls are never made.
\<close>

definition call_fresh :: "peer_table \<Rightarrow> sid option \<Rightarrow> sid \<Rightarrow> bool" where
  "call_fresh pt left right \<longleftrightarrow> g_nId pt < g_nId pt + 1 \<and>
     (\<forall>l. left = Some l \<longrightarrow> l \<noteq> right \<and>
        (\<forall>k p. getPeerById pt k = Some p \<longrightarrow> ucast l \<notin> peer_sids p \<and> ucast right \<notin> peer_sids p))"

definition bridged_peer :: "bool \<times> bool \<Rightarrow> sid \<Rightarrow> sid \<Rightarrow> media_mask \<Rightarrow> u64 \<Rightarrow> MPPeer" where
  "bridged_peer bypass l r m i =
     \<lparr>m_nId = i, m_nSessionIdLeft = ucast l, m_nSessionIdRight = ucast r,
      m_nLastSipResponseLeft = 0, m_nLastSipResponseRight = 0,
      m_oCallSessionLeft = \<lparr>av_id = l, av_eState = MPSessionState_Connecting, av_rtcp = False,
         av_opposite = Some r, av_eMediaType = m\<rparr>,
      m_oCallSessionRight = Some \<lparr>av_id = r, av_eState = MPSessionState_Connecting, av_rtcp = False,
         av_opposite = Some l, av_eMediaType = m\<rparr>,
      m_eSessionLeftState = MPPeerState_Connecting, m_eSessionRightState = MPPeerState_Connecting,
      m_eMediaType = m\<rparr>"

lemma bridge_peer_lookup:
  assumes "call_inv pt" "g_nId pt < g_nId pt + 1"
  shows "getPeerById (bridge_peer b l r m pt) k =
      (if k = g_nId pt + 1 then Some (bridged_peer b l r m (g_nId pt + 1)) else getPeerById pt k)"
    and "g_nId (bridge_peer b l r m pt) = g_nId pt + 1" and "table_ok (bridge_peer b l r m pt)"
proof -
  have ok: "table_ok pt" using assms(1) by (simp add: call_inv_def)
  have "getPeerById pt (g_nId pt + 1) = None"
    using assms call_inv_peer [OF assms(1), of "g_nId pt + 1"]
    by (cases "getPeerById pt (g_nId pt + 1)") (auto simp: leD)
  with ok show "getPeerById (bridge_peer b l r m pt) k =
      (if k = g_nId pt + 1 then Some (bridged_peer b l r m (g_nId pt + 1)) else getPeerById pt k)"
    by (simp add: bridge_peer_def bridged_peer_def Let_def new_MPPeer_def new_MPSipSessionAV_def
        setSessionLeftState_def setSessionRightState_def setCallSessionRight_def setSessionOpposite_def
        MPSipSessionAV_setState_def getPeerById_update peers.lookup_add)
  show "g_nId (bridge_peer b l r m pt) = g_nId pt + 1"
    by (simp add: bridge_peer_def Let_def new_MPPeer_def updatePeer_def insertPeer_def)
  show "table_ok (bridge_peer b l r m pt)"
    using ok by (simp add: bridge_peer_def Let_def new_MPPeer_def)
qed

lemma call_inv_bridge [w2s_inv]:
  assumes "call_inv pt" "call_fresh pt (Some l) r"
  shows "call_inv (bridge_peer b l r m pt)"
proof -
  have n: "g_nId pt < g_nId pt + 1" using assms(2) by (simp add: call_fresh_def)
  note lk = bridge_peer_lookup [OF assms(1) n, of b l r m]
  have fresh: "l \<noteq> r" "\<And>k p. getPeerById pt k = Some p \<Longrightarrow> ucast l \<notin> peer_sids p \<and> ucast r \<notin> peer_sids p"
    using assms(2) by (auto simp: call_fresh_def)
  have wf: "peer_wf (bridged_peer b l r m i)" "peer_sids (bridged_peer b l r m i) = {ucast l, ucast r}"
    "m_nId (bridged_peer b l r m i) = i" for i
    using fresh(1) by (simp_all add: bridged_peer_def peer_wf_def peer_sids_def isSessionLeftActive_def)
  have le: "k \<le> g_nId pt \<Longrightarrow> k \<le> g_nId pt + 1" for k using n by (meson order.trans less_imp_le)
  have one: "m_nId p = k \<and> k \<le> g_nId pt + 1 \<and> peer_wf p"
    if "getPeerById (bridge_peer b l r m pt) k = Some p" for k p
    using that call_inv_peer [OF assms(1), of k p] le wf by (auto simp: lk(1) split: if_splits)
  have "peer_sids p \<inter> peer_sids p' = {}"
    if "getPeerById (bridge_peer b l r m pt) k = Some p" "getPeerById (bridge_peer b l r m pt) k' = Some p'"
      "k \<noteq> k'" for k p k' p'
  proof (rule ccontr)
    assume "peer_sids p \<inter> peer_sids p' \<noteq> {}"
    then obtain x where x: "x \<in> peer_sids p" "x \<in> peer_sids p'" by blast
    show False
      using that x wf(2) fresh(2) call_inv_disjoint [OF assms(1) _ _ x]
      by (auto simp: lk(1) split: if_splits)
  qed
  with one lk(2,3) show ?thesis unfolding call_inv_def by auto
qed

lemma OnNewCall_peers:
  assumes "OnNewCall E m native left right g = Some (g', acts)"
  shows "gw_peers g' = gw_peers g \<or>
    (\<exists>l. left = Some l \<and> gw_peers g' = bridge_peer (ce_bypass E) l right (event_media native) (gw_peers g))"
  using assms by (auto simp: OnNewCall_def Let_def split: option.splits resolution.splits if_splits bind_splits)

section \<open>Reachable states\<close>

definition empty_peers :: peer_table where "empty_peers = \<lparr>g_nId = 0, m_Peers = []\<rparr>"

fun event_fresh :: "peer_table \<Rightarrow> call_event \<Rightarrow> bool" where
  "event_fresh pt (NewCall m native left right) \<longleftrightarrow> call_fresh pt left right"
| "event_fresh pt (Info m) \<longleftrightarrow> True"
| "event_fresh pt (Dialog e) \<longleftrightarrow> True"

text \<open>The environment may answer differently at every event.\<close>

inductive call_step :: "gateway \<Rightarrow> sip_action list \<Rightarrow> gateway \<Rightarrow> bool" where
  handled: "event_fresh (gw_peers g) e \<Longrightarrow> handle E e g = Some (g', acts) \<Longrightarrow> call_step g acts g'"

inductive call_reach :: "gateway \<Rightarrow> bool" where
  call_init: "gw_peers g = empty_peers \<Longrightarrow> call_reach g"
| call_more: "call_reach g \<Longrightarrow> call_step g acts g' \<Longrightarrow> call_reach g'"

inductive_cases call_stepE: "call_step g acts g'"

lemma call_inv_empty [simp]: "call_inv empty_peers"
  by (simp add: call_inv_def empty_peers_def table_ok_def getPeerById_def map_find_def)

lemma call_inv_step:
  assumes "call_step g acts g'" "call_inv (gw_peers g)"
  shows "call_inv (gw_peers g')"
proof -
  from assms(1) obtain e E where 1: "event_fresh (gw_peers g) e" "handle E e g = Some (g', acts)"
    by (blast elim: call_stepE)
  show ?thesis
  proof (cases e)
    case (NewCall m native left right)
    then have "OnNewCall E m native left right g = Some (g', acts)" using 1 by (simp add: handle_def)
    from OnNewCall_peers [OF this] show ?thesis
      using 1(1) NewCall assms(2) by (auto intro: call_inv_bridge)
  next
    case (Info m)
    then show ?thesis using 1 assms(2) by (auto simp: handle_def)
  next
    case (Dialog d)
    then show ?thesis using 1 assms(2) call_inv_dialog by (auto simp: handle_def) (metis fst_conv)
  qed
qed

lemma reach_inv: "call_reach g \<Longrightarrow> call_inv (gw_peers g)"
  by (induction rule: call_reach.induct) (auto intro: call_inv_step)

section \<open>Properties\<close>

text \<open>
  C1. In every state reached by any sequence of SIP events, the table of peers is well formed: a peer
  is stored under its own id, its two session ids name its two sessions, no two peers share a session,
  and at least one of its legs is connecting or connected: a call with two dead legs never stays
  in the table.
\<close>

theorem peers_invariant:
  assumes "call_reach g" "getPeerById (gw_peers g) k = Some p"
  shows "m_nId p = k \<and> (isSessionLeftActive p \<or> isSessionRightActive p)
    \<and> (\<exists>r. m_oCallSessionRight p = Some r \<and> m_nSessionIdRight p = ucast (av_id r))
    \<and> m_nSessionIdLeft p = ucast (av_id (m_oCallSessionLeft p))
    \<and> (\<forall>k' p'. getPeerById (gw_peers g) k' = Some p' \<longrightarrow> k' \<noteq> k \<longrightarrow>
         m_nSessionIdLeft p' \<notin> {m_nSessionIdLeft p, m_nSessionIdRight p}
         \<and> m_nSessionIdRight p' \<notin> {m_nSessionIdLeft p, m_nSessionIdRight p})"
proof -
  have inv: "call_inv (gw_peers g)" using assms(1) by (rule reach_inv)
  have "m_nSessionIdLeft p' \<notin> peer_sids p \<and> m_nSessionIdRight p' \<notin> peer_sids p"
    if "getPeerById (gw_peers g) k' = Some p'" "k' \<noteq> k" for k' p'
    using call_inv_disjoint [OF inv that(1) assms(2)] that(2) by (auto simp: peer_sids_def)
  with call_inv_peer [OF inv assms(2)] show ?thesis
    by (auto simp: peer_wf_def peer_sids_def split: option.splits)
qed

definition sample_env :: call_env where
  "sample_env = \<lparr>ce_T = tsk_ref,
     ce_draws = \<lparr>draw_rand = \<lambda>_. 0, draw_now = \<lambda>_. 0, draw_uuid = ''u'', draw_epoch = 9\<rparr>,
     ce_faults = no_faults, ce_base64_decode = id, ce_url_decode = Some, ce_uri = Some,
     ce_bypass = (False, False), ce_negotiated = \<lambda>_. 0, ce_mediaMgr = \<lambda>_. True,
     ce_findProxyPlugin = \<lambda>_ _. None, ce_dtmfType = Some ''rfc4733'', ce_callers = []\<rparr>"

definition sample_invite :: sip_invite where
  "sample_invite = \<lparr>inv_click2call = None, inv_from_user = None, inv_to_user = None, inv_f = Some ''f'',
     inv_t = Some ''t'', inv_ha1 = None, inv_impi = None, inv_ws_src_ip = None, inv_ws_src_port = 0,
     inv_ws_src_proto = None, inv_ws = True, inv_wss = False, inv_local = Some (''h'', 5), inv_routes = [''r'']\<rparr>"

definition start_gw :: gateway where
  "start_gw = \<lparr>gw_peers = empty_peers, gw_db = None, gw_plugins = \<lparr>pm_objects = [], pm_plugins = []\<rparr>\<rparr>"

text \<open>A first call between the sessions 5 and 6.\<close>

definition call_gw :: gateway where
  "call_gw = start_gw\<lparr>gw_peers := \<lparr>g_nId = 1, m_Peers = [(1, bridged_peer (False, False) 5 6 1 1)]\<rparr>\<rparr>"

lemma sample_call:
  "OnNewCall sample_env sample_invite twrap_media_audio (Some 5) 6 start_gw =
     Some (call_gw, [SetFromUri 6 (Some ''f''), SetAuth 6 None None, SetWebSocketSrc 6 ''h'' 5 ''ws'',
        AddHeader 5 ''Route'' (ws_route ''h'' 5 ''ws''), AddHeader 6 ''Route'' ''r'', Call 6 ''t'' 1])"
  by (simp add: OnNewCall_def sample_env_def sample_invite_def resolve_def start_gw_def call_gw_def
      event_media_def twrap_media_audio_def twrap_media_video_def MPMediaType_None_def MPMediaType_Audio_def
      MPMediaType_Video_def bridge_actions_def bridge_peer_def new_MPPeer_def empty_peers_def
      getPeerBySessionId_def map_find_if_def bridged_peer_def new_MPSipSessionAV_def setSessionLeftState_def
      setSessionRightState_def setCallSessionRight_def setSessionOpposite_def MPSipSessionAV_setState_def
      updatePeer_def insertPeer_def map_modify_def Let_def)

lemma reach_call_gw [simp]: "call_reach call_gw"
proof (rule call_more)
  show "call_reach start_gw" by (rule call_init) (simp add: start_gw_def)
  have "event_fresh (gw_peers start_gw) (NewCall sample_invite twrap_media_audio (Some 5) 6)"
    by (simp add: start_gw_def empty_peers_def call_fresh_def getPeerById_def map_find_def)
  then show "call_step start_gw [SetFromUri 6 (Some ''f''), SetAuth 6 None None, SetWebSocketSrc 6 ''h'' 5 ''ws'',
        AddHeader 5 ''Route'' (ws_route ''h'' 5 ''ws''), AddHeader 6 ''Route'' ''r'', Call 6 ''t'' 1] call_gw"
    by (rule call_step.handled [where E = sample_env]) (simp add: handle_def sample_call)
qed

lemma call_gw_peer: "getPeerById (gw_peers call_gw) 1 = Some (bridged_peer (False, False) 5 6 1 1)"
  by (simp add: call_gw_def getPeerById_def map_find_def)

theorem peers_invariant_witness:
  "isSessionLeftActive (bridged_peer (False, False) 5 6 1 1) \<or> isSessionRightActive (bridged_peer (False, False) 5 6 1 1)"
  using peers_invariant [OF reach_call_gw call_gw_peer] by blast

text \<open>
  C2. When one leg of a call ends, the other one, if it is still connecting or connected, is hung up
  once, with the response line of the ending leg when there is a response, and the peer stays in the
  table with the ending leg terminated and its response code recorded; if the other leg was already
  over nothing is sent and the peer is removed. No other peer changes.
\<close>

theorem leg_teardown:
  assumes "call_reach g" "getPeerById (gw_peers g) k = Some p" "m_oCallSessionRight p = Some r"
    and "dlg_session e = Some (if left then av_id (m_oCallSessionLeft p) else av_id r)"
    and "dlg_code e = DialogTerminated \<or> dlg_code e = DialogTerminating"
    and "dlg_response e = (code, phrase)"
    and "OnDialogEvent E e g = (g', acts)"
  shows "acts = (if left then (if isSessionRightActive p then [Hangup (av_id r) (if 0 < code then Some (code, phrase) else None)] else [])
           else (if isSessionLeftActive p then [Hangup (av_id (m_oCallSessionLeft p)) (if 0 < code then Some (code, phrase) else None)] else []))
    \<and> (if (if left then isSessionRightActive p else isSessionLeftActive p)
       then \<exists>q. getPeerById (gw_peers g') k = Some q \<and>
         (if left then m_eSessionLeftState q = MPPeerState_Terminated \<and> m_nLastSipResponseLeft q = code
            \<and> m_eSessionRightState q = m_eSessionRightState p
          else m_eSessionRightState q = MPPeerState_Terminated \<and> m_nLastSipResponseRight q = code
            \<and> m_eSessionLeftState q = m_eSessionLeftState p)
       else getPeerById (gw_peers g') k = None)
    \<and> (\<forall>k'. k' \<noteq> k \<longrightarrow> getPeerById (gw_peers g') k' = getPeerById (gw_peers g) k')"
proof -
  have inv: "call_inv (gw_peers g)" and ok: "table_ok (gw_peers g)" and k: "m_nId p = k"
    using reach_inv [OF assms(1)] call_inv_peer [OF _ assms(2)] by (auto simp: call_inv_def)
  have upd: "table_ok (updatePeer q (gw_peers g))" for q using ok by simp
  note defs = OnDialogEvent_def OnDialogTerminated_def isSessionLeftActive_def isSessionRightActive_def
    setLastSipResponseLeft_def setLastSipResponseRight_def getPeerById_update peers.lookup_remove [OF upd]
    remove_update peers.lookup_remove [OF ok] Let_def
  show ?thesis
  proof (cases left)
    case True
    have "find_leg (gw_peers g) (av_id (m_oCallSessionLeft p)) = Some (p, True)"
      by (rule find_leg_left [OF inv assms(2) refl])
    then show ?thesis using True assms(2-7) k by (auto simp: defs)
  next
    case False
    have "find_leg (gw_peers g) (av_id r) = Some (p, False)"
      by (rule find_leg_right [OF inv assms(2,3) refl])
    then show ?thesis using False assms(2-7) k
      by (auto simp: defs setSessionRightState_def)
  qed
qed

definition busy_event :: dialog_event where
  "busy_event = \<lparr>dlg_session = Some 6, dlg_code = DialogTerminated, dlg_msg = Some (True, 486, Some ''Busy'')\<rparr>"

theorem leg_teardown_witness:
  "snd (OnDialogEvent sample_env busy_event call_gw) = [Hangup 5 (Some (486, Some ''Busy''))]"
proof -
  obtain g' acts where o: "OnDialogEvent sample_env busy_event call_gw = (g', acts)" by fastforce
  show ?thesis
    using leg_teardown [OF reach_call_gw call_gw_peer, of _ busy_event False 486 "Some ''Busy''" sample_env g' acts] o
    by (simp add: bridged_peer_def busy_event_def dlg_response_def isSessionLeftActive_def)
qed

text \<open>
  C14. When the right leg connects, the left leg is accepted exactly when it is not connected yet, its
  codecs restricted first to those the right leg negotiated if the media encoder is bypassed; when the
  left leg is connected already nothing is sent and the media plugins of the two legs are coupled.
\<close>

theorem right_connected_accepts_left:
  assumes "call_reach g" "getPeerById (gw_peers g) k = Some p" "m_oCallSessionRight p = Some r"
    and "dlg_session e = Some (av_id r)" "dlg_code e = DialogConnected"
    and "OnDialogEvent E e g = (g', acts)"
  shows "acts = (if isSessionLeftConnected p then []
       else (if fst (ce_bypass E) then [SetSupportedCodecs (av_id (m_oCallSessionLeft p)) (ce_negotiated E (av_id r))] else [])
            @ [Accept (av_id (m_oCallSessionLeft p))])
    \<and> (\<exists>q. getPeerById (gw_peers g') k = Some q \<and> isSessionRightConnected q
         \<and> m_eSessionLeftState q = m_eSessionLeftState p
         \<and> gw_plugins g' = (if isSessionLeftConnected p then attachMediaProxyPlugins E q (gw_plugins g) else gw_plugins g))"
proof -
  have inv: "call_inv (gw_peers g)" and k: "m_nId p = k"
    using reach_inv [OF assms(1)] call_inv_peer [OF _ assms(2)] by auto
  have "find_leg (gw_peers g) (av_id r) = Some (p, False)"
    by (rule find_leg_right [OF inv assms(2,3) refl])
  moreover obtain r' where "m_oCallSessionRight (setSessionRightState (ce_bypass E) MPPeerState_Connected p) = Some r'"
    "av_id r' = av_id r"
    using assms(3) by (simp add: setSessionRightState_def)
  ultimately show ?thesis using assms(2,4-6) k
    by (auto simp: OnDialogEvent_def OnDialogConnected_def Let_def isSessionLeftConnected_def
        isSessionRightConnected_def getPeerById_update split: if_splits)
qed

definition answer_event :: dialog_event where
  "answer_event = \<lparr>dlg_session = Some 6, dlg_code = DialogConnected, dlg_msg = None\<rparr>"

theorem right_connected_accepts_left_witness:
  "snd (OnDialogEvent sample_env answer_event call_gw) = [Accept 5]"
proof -
  obtain g' acts where o: "OnDialogEvent sample_env answer_event call_gw = (g', acts)" by fastforce
  show ?thesis
    using right_connected_accepts_left [OF reach_call_gw call_gw_peer, of _ answer_event sample_env g' acts] o
    by (simp add: bridged_peer_def answer_event_def isSessionLeftConnected_def sample_env_def)
qed

subsection \<open>DTMF\<close>

lemma dtmf_code_nth: "i < 16 \<Longrightarrow> dtmf_code (''0123456789*#ABCD'' ! i) = int i"
proof -
  have "\<forall>i \<in> set [0..<16]. dtmf_code (''0123456789*#ABCD'' ! i) = int i"
    by code_simp
  then show "i < 16 \<Longrightarrow> ?thesis" by simp
qed

lemma length_dtmf: "length ''0123456789*#ABCD'' = 16"
  by simp

lemma dtmf_code_none: "c \<notin> set ''0123456789*#ABCD'' \<Longrightarrow> dtmf_code c = -1"
  by (auto simp: dtmf_code_def dtmf_codes_def)

text \<open>The leg that gets the digits of the leg \<open>s\<close>.\<close>

lemma OnInfo_peer:
  assumes "call_inv (gw_peers g)" "getPeerById (gw_peers g) k = Some p" "m_oCallSessionRight p = Some r"
    and "info_isInfo m" "info_hasContent m"
    and "tsk_striequals (ce_T E) (info_contentType m) (Some MP_DTMF_CONTENT_TYPE)"
    and "info_session m = Some (if left then av_id (m_oCallSessionLeft p) else av_id r)"
    and "info_content m = Some c" "c \<noteq> []"
  shows "OnInfo E m g = relay_dtmf E (if left then av_id r else av_id (m_oCallSessionLeft p)) c"
proof -
  obtain x xs where c: "c = x # xs" using assms(9) by (cases c) auto
  have "find_leg (gw_peers g) (if left then av_id (m_oCallSessionLeft p) else av_id r) = Some (p, left)"
    using find_leg_left [OF assms(1,2) refl] find_leg_right [OF assms(1-3) refl] by simp
  then show ?thesis using assms(3-8) c
    by (cases left) (auto simp: OnInfo_def find_leg_def split: option.splits)
qed

text \<open>
  In in-band mode the digit that follows the first \<open>Signal=\<close> of a DTMF INFO received on one leg is
  relayed to the opposite leg as its RFC 4733 code, its position in \<open>0123456789*#ABCD\<close>; any other
  character is dropped and nothing is sent.
\<close>

theorem dtmf_relayed:
  assumes "call_reach g" "getPeerById (gw_peers g) k = Some p" "m_oCallSessionRight p = Some r"
    and "info_isInfo m" "info_hasContent m"
    and "tsk_striequals (ce_T E) (info_contentType m) (Some MP_DTMF_CONTENT_TYPE)"
    and "info_session m = Some (if left then av_id (m_oCallSessionLeft p) else av_id r)"
    and "strindexOf_law (ce_T E)" "\<not> tsk_striequals (ce_T E) (ce_dtmfType E) (Some MP_DTMF_TYPE_RFC2833)"
    and "info_content m = Some (pre @ ''Signal='' @ d # rest)"
    and "\<forall>j < length pre. \<not> occurs_at (pre @ ''Signal='' @ d # rest) ''Signal='' j"
  shows "OnInfo E m g =
    Some (if d \<in> set ''0123456789*#ABCD''
          then [SendDTMF (if left then av_id r else av_id (m_oCallSessionLeft p))
                  (int (LEAST i. i < 16 \<and> ''0123456789*#ABCD'' ! i = d))]
          else [])"
proof -
  define c where "c = pre @ ''Signal='' @ d # rest"
  let ?s = "if left then av_id r else av_id (m_oCallSessionLeft p)"
  have occ: "occurs_at c ''Signal='' (length pre)" by (simp add: occurs_at_def c_def)
  then have "(LEAST i. occurs_at c ''Signal='' i) = length pre"
    using assms(11) unfolding c_def [symmetric]
    by (intro Least_equality) (auto simp: not_less [symmetric])
  with occ have idx: "tsk_strindexOf (ce_T E) c ''Signal='' = int (length pre)"
    using assms(8) unfolding strindexOf_law_def by metis
  have at: "c ! nat (int (length pre) + 7) = d" "length pre + 7 < length c"
    by (simp_all add: nat_add_distrib nth_append c_def)
  then have relay: "relay_dtmf E ?s c = Some (if dtmf_code d = -1 then [] else [SendDTMF ?s (dtmf_code d)])"
    using assms(9) by (simp add: relay_dtmf_def idx Let_def nat_add_distrib)
  have info: "OnInfo E m g = relay_dtmf E ?s c"
    by (rule OnInfo_peer [OF reach_inv [OF assms(1)] assms(2-7)]) (simp_all add: assms(10) c_def)
  show ?thesis
  proof (cases "d \<in> set ''0123456789*#ABCD''")
    case True
    then have ex: "\<exists>i. i < 16 \<and> ''0123456789*#ABCD'' ! i = d"
      unfolding in_set_conv_nth by (simp only: length_dtmf)
    define n where "n = (LEAST i. i < 16 \<and> ''0123456789*#ABCD'' ! i = d)"
    have "n < 16 \<and> ''0123456789*#ABCD'' ! n = d" unfolding n_def by (rule LeastI_ex [OF ex])
    then have "dtmf_code d = int (LEAST i. i < 16 \<and> ''0123456789*#ABCD'' ! i = d)"
      using dtmf_code_nth [of n] n_def by auto
    with True info relay show ?thesis by simp
  next
    case False
    with info relay dtmf_code_none [OF False] show ?thesis by simp
  qed
qed

definition info_hash :: sip_info where
  "info_hash = \<lparr>info_isInfo = True, info_hasContent = True, info_contentType = Some ''application/dtmf-relay'',
     info_content = Some ''Signal=2'', info_session = Some 5\<rparr>"

theorem dtmf_relayed_witness: "\<exists>acts. OnInfo sample_env info_hash call_gw = Some acts \<and> acts \<noteq> []"
  using dtmf_relayed [OF reach_call_gw call_gw_peer, of _ info_hash sample_env True "[]" "CHR ''2''" "[]"]
  by (simp add: bridged_peer_def info_hash_def sample_env_def MP_DTMF_CONTENT_TYPE_def
      MP_DTMF_TYPE_RFC2833_def ascii_lower_def)

text \<open>
  In a reachable state an INFO request makes the handler read outside its content, or go through a
  missing session, only in one case: the first \<open>Signal=\<close> is the last thing in the content of a DTMF
  INFO, so that the octet read as the digit is the one after the content.
\<close>

theorem info_overread_only_after_signal:
  assumes "call_reach g" "strindexOf_law (ce_T E)" "OnInfo E m g = None"
  shows "\<exists>pre. info_content m = Some (pre @ ''Signal='')
    \<and> \<not> tsk_striequals (ce_T E) (ce_dtmfType E) (Some MP_DTMF_TYPE_RFC2833)"
proof -
  have inv: "call_inv (gw_peers g)" and ok: "table_ok (gw_peers g)"
    using reach_inv [OF assms(1)] by (auto simp: call_inv_def)
  have right: "m_oCallSessionRight p \<noteq> None" if "getPeerBySessionId (gw_peers g) i left = Some p" for i left p
  proof -
    from bySession_Some(1) [OF ok that] obtain k where "getPeerById (gw_peers g) k = Some p" by blast
    then have "peer_wf p" using call_inv_peer [OF inv] by blast
    then show ?thesis by (auto simp: peer_wf_def split: option.splits)
  qed
  obtain s c where sc: "info_content m = Some c" "relay_dtmf E s c = None"
    using assms(3) by (auto simp: OnInfo_def split: if_splits option.splits list.splits dest: right)
  let ?i = "tsk_strindexOf (ce_T E) c ''Signal=''"
  have i: "?i \<noteq> -1" "length c \<le> nat (?i + 7)" "\<not> tsk_striequals (ce_T E) (ce_dtmfType E) (Some MP_DTMF_TYPE_RFC2833)"
    using sc(2) by (auto simp: relay_dtmf_def Let_def split: if_splits)
  have "0 \<le> ?i"
    using assms(2) i(1) unfolding strindexOf_law_def by (metis of_nat_0_le_iff)
  from strindexOf_bound [OF assms(2) this] have occ: "occurs_at c ''Signal='' (nat ?i)"
    and len: "nat ?i + 7 \<le> length c" by simp_all
  have "nat (?i + 7) = nat ?i + 7" using \<open>0 \<le> ?i\<close> by (simp add: nat_add_distrib)
  then have "length c = nat ?i + 7" using i(2) len by simp
  then have "drop (nat ?i) c = ''Signal=''" using occ by (simp add: occurs_at_def)
  then have "c = take (nat ?i) c @ ''Signal=''" by (metis append_take_drop_id)
  then obtain pre where "c = pre @ ''Signal=''" by blast
  then show ?thesis using sc(1) i(3) by auto
qed

definition info_cut :: sip_info where
  "info_cut = info_hash\<lparr>info_content := Some ''Signal=''\<rparr>"

theorem info_overread_only_after_signal_witness:
  "OnInfo sample_env info_cut call_gw = None \<and> (\<exists>pre. info_content info_cut = Some (pre @ ''Signal=''))"
proof -
  have none: "OnInfo sample_env info_cut call_gw = None"
    using OnInfo_peer [OF reach_inv [OF reach_call_gw] call_gw_peer, of _ info_cut sample_env True "''Signal=''"]
    by (simp add: info_cut_def info_hash_def sample_env_def MP_DTMF_CONTENT_TYPE_def bridged_peer_def
        relay_dtmf_def MP_DTMF_TYPE_RFC2833_def ascii_lower_def)
  from info_overread_only_after_signal [OF reach_call_gw _ none] none show ?thesis
    by (auto simp: sample_env_def)
qed

subsection \<open>New calls\<close>

lemma event_media_cases:
  "event_media native = (if native AND 1 \<noteq> 0 then (if native AND 2 \<noteq> 0 then 3 else 1)
                         else (if native AND 2 \<noteq> 0 then 2 else 0))"
  by (simp add: event_media_def Let_def twrap_media_audio_def twrap_media_video_def MPMediaType_None_def
      MPMediaType_Audio_def MPMediaType_Video_def)

text \<open>The media of the outgoing call are those of the incoming one.\<close>

lemma call_mask:
  assumes "event_media native \<noteq> MPMediaType_None"
  shows "(if event_media native AND MPMediaType_Audio \<noteq> 0 \<and> event_media native AND MPMediaType_Video \<noteq> 0
     then twrap_media_audio_video
     else if event_media native AND MPMediaType_Audio \<noteq> 0 then twrap_media_audio else twrap_media_video)
     = event_media native"
  using assms
  by (auto simp: event_media_cases MPMediaType_None_def MPMediaType_Audio_def MPMediaType_Video_def
      twrap_media_audio_video_def twrap_media_audio_def twrap_media_video_def)

lemma click2call_codes:
  "click2call E m db = Some (Rejected code phrase, db') \<Longrightarrow> code \<in> {403, 404, 483, 500}"
  by (auto simp: click2call_def Let_def bind_eq_Some_conv split: option.splits if_splits)

definition is_call :: "sip_action \<Rightarrow> bool" where
  "is_call a = (case a of Call _ _ _ \<Rightarrow> True | _ \<Rightarrow> False)"

lemma is_call_simps [simp]:
  "\<not> is_call (SetFromUri x y)" "\<not> is_call (SetAuth x y z)" "\<not> is_call (SetSupportedCodecs x w)"
  "\<not> is_call (AddHeader x u v)" "\<not> is_call (SetWebSocketSrc x u n v)" "is_call (Call x u z1)"
  by (simp_all add: is_call_def)

lemma bridge_actions_set: "a \<in> set (bridge_actions E m l r src ha1 impi) \<Longrightarrow> \<not> is_call a"
  apply (unfold bridge_actions_def set_append Un_iff)
  apply (elim disjE)
  subgoal by simp (elim disjE, simp_all)
  subgoal by (cases "fst (ce_bypass E)") simp_all
  subgoal by (cases "\<not> tsk_strnullORempty (ce_T E) (inv_ws_src_ip m) \<and> 0 < inv_ws_src_port m") simp_all
  subgoal by (cases "inv_local m"; cases "inv_ws m"; cases "inv_wss m") (auto simp: Let_def)
  subgoal by auto
  done

lemma bridge_actions_no_call: "filter is_call (bridge_actions E m l r src ha1 impi) = []"
  using bridge_actions_set unfolding filter_empty_conv by blast

text \<open>
  C3. An incoming call that is handled ends in one of two ways: a click-to-call request is rejected,
  with code 403, 404, 483 or 500, and the table of peers is as before; or exactly one outgoing call is
  made, last, with the media of the incoming one, and the table gains one peer, whose two legs are
  connecting and are each other's opposite, every other peer being unchanged.
\<close>

theorem new_call_outcome:
  assumes "call_reach g" "call_fresh (gw_peers g) (Some l) r"
    and "OnNewCall E m native (Some l) r g = Some (g', acts)"
  shows "(\<exists>code phrase. acts = [Reject l code phrase] \<and> code \<in> {403, 404, 483, 500} \<and> gw_peers g' = gw_peers g
            \<and> tsk_striequals (ce_T E) (inv_click2call m) (Some ''yes''))
    \<or> (\<exists>dst pre. acts = pre @ [Call r dst (event_media native)] \<and> filter is_call pre = []
          \<and> (\<forall>k. getPeerById (gw_peers g') k =
               (if k = g_nId (gw_peers g) + 1
                then Some (bridged_peer (ce_bypass E) l r (event_media native) k) else getPeerById (gw_peers g) k)))"
proof -
  have inv: "call_inv (gw_peers g)" using assms(1) by (rule reach_inv)
  have n: "g_nId (gw_peers g) < g_nId (gw_peers g) + 1" using assms(2) by (simp add: call_fresh_def)
  obtain res db' where res: "resolve E m (gw_db g) = Some (res, db')"
    using assms(3) by (auto simp: OnNewCall_def bind_eq_Some_conv)
  show ?thesis
  proof (cases res)
    case (Rejected code phrase)
    then have "tsk_striequals (ce_T E) (inv_click2call m) (Some ''yes'')"
      and "click2call E m (gw_db g) = Some (Rejected code phrase, db')"
      using res by (auto simp: resolve_def split: if_splits)
    with click2call_codes [OF this(2)] Rejected res assms(3) show ?thesis
      by (auto simp: OnNewCall_def)
  next
    case (Resolved src dst ha1 impi)
    with res assms(3) obtain d where d: "dst = Some d" "event_media native \<noteq> MPMediaType_None"
      by (auto simp: OnNewCall_def Let_def split: option.splits if_splits)
    then have "gw_peers g' = bridge_peer (ce_bypass E) l r (event_media native) (gw_peers g)"
      and "acts = bridge_actions E m l r src ha1 impi @ [Call r d (event_media native)]"
      using res Resolved assms(3) call_mask [OF d(2)]
      by (auto simp: OnNewCall_def Let_def split: if_splits)
    then show ?thesis
      using bridge_peer_lookup(1) [OF inv n] bridge_actions_no_call by auto
  qed
qed

lemma start_gw_fresh: "call_fresh (gw_peers start_gw) (Some 5) 6"
  by (simp add: start_gw_def empty_peers_def call_fresh_def getPeerById_def map_find_def)

theorem new_call_outcome_witness:
  "getPeerById (gw_peers call_gw) 1 = Some (bridged_peer (False, False) 5 6 1 1)"
proof -
  have "call_reach start_gw" by (rule call_init) (simp add: start_gw_def)
  from new_call_outcome [OF this start_gw_fresh sample_call] show ?thesis
    by (auto simp: start_gw_def empty_peers_def sample_env_def event_media_cases twrap_media_audio_def)
qed

text \<open>
  C13. A click-to-call request for an account that is not activated never leads to an outgoing call: it
  is rejected with 403, or with 404 when the query of the account fails, whatever else the request says
  and whatever calls into the database engine fail.
\<close>

theorem inactive_account_makes_no_call:
  assumes "tsk_striequals (ce_T E) (inv_click2call m) (Some ''yes'')" "faults_ok (ce_faults E)"
    and "gw_db g = Some c" "m_bOpened c" "ce_base64_decode E (inv_from_user m) = Some email"
    and "sSQL_SelectAccountByEmail email (c_db c) = Some b" "\<not> acc_bActivated b"
  shows "\<exists>g' code phrase. OnNewCall E m native (Some l) r g = Some (g', [Reject l code phrase])
    \<and> code \<in> {403, 404} \<and> gw_peers g' = gw_peers g"
proof -
  have eb: "acc_pEmail b = Some email"
    using assms(6) by (auto simp: sSQL_SelectAccountByEmail_def dest: find_SomeD)
  obtain res c' where sel: "run_select (ce_faults E) 1 (sSQL_SelectAccountByEmail email) c = Some (res, c')"
    "res = Some b \<or> res = None"
    using run_select_spec [OF assms(2,4), of 1 "sSQL_SelectAccountByEmail email"] assms(6) by auto
  obtain a where a: "new_MPDbAccount (ce_T E) (ce_draws E) (acc_nId b) (acc_nSoftVersion b) (acc_nDatabaseVersion b)
      (acc_pName b) (acc_pEmail b) (acc_pPassword b) (acc_pAuthToken b) (acc_bActivated b)
      (acc_pActivationCode b) 0 = Some a"
    using new_MPDbAccount_ok [of "acc_pEmail b"] eb by blast
  have "\<not> acc_bActivated a" using new_MPDbAccount_fields(6) [OF a] assms(7) by simp
  with sel a show ?thesis
    using assms(1,3,5)
    by (auto simp: OnNewCall_def resolve_def click2call_def selectAccountByEmail_def)
qed

theorem inactive_account_makes_no_call_witness:
  "\<exists>g' code phrase. OnNewCall sample_env (sample_invite\<lparr>inv_click2call := Some ''yes'', inv_from_user := Some ''e''\<rparr>)
      1 (Some 5) 6 (start_gw\<lparr>gw_db := Some (fresh_conn (empty_db\<lparr>db_account := [sample_account]\<rparr>))\<rparr>)
     = Some (g', [Reject 5 code phrase])"
  using inactive_account_makes_no_call [of sample_env
      "sample_invite\<lparr>inv_click2call := Some ''yes'', inv_from_user := Some ''e''\<rparr>"
      "start_gw\<lparr>gw_db := Some (fresh_conn (empty_db\<lparr>db_account := [sample_account]\<rparr>))\<rparr>"
      "fresh_conn (empty_db\<lparr>db_account := [sample_account]\<rparr>)" "''e''" sample_account 1 5 6]
  by (auto simp: sample_env_def fresh_conn_def sSQL_SelectAccountByEmail_def sample_account_def)

text \<open>
  A plain incoming call is handled exactly when it has a destination, a media manager and audio or
  video: otherwise the handler rejects the call through the session pointer it has just given away,
  a NULL pointer, and there is no outcome.
\<close>

theorem plain_call_without_media_fails:
  assumes "call_reach g" "call_fresh (gw_peers g) (Some l) r"
    and "\<not> tsk_striequals (ce_T E) (inv_click2call m) (Some ''yes'')"
  shows "OnNewCall E m native (Some l) r g = None
    \<longleftrightarrow> inv_t m = None \<or> \<not> ce_mediaMgr E l \<or> (native AND twrap_media_audio = 0 \<and> native AND twrap_media_video = 0)"
proof -
  have ok: "table_ok (gw_peers g)" using reach_inv [OF assms(1)] by (simp add: call_inv_def)
  have fresh: "getPeerBySessionId (gw_peers g) (ucast l) True = None"
  proof (rule ccontr)
    assume "getPeerBySessionId (gw_peers g) (ucast l) True \<noteq> None"
    then obtain p where "getPeerBySessionId (gw_peers g) (ucast l) True = Some p" by blast
    from bySession_Some [OF ok this] obtain k where "getPeerById (gw_peers g) k = Some p"
      and "ucast l = m_nSessionIdLeft p" by auto
    moreover from this(1) assms(2) have "ucast l \<noteq> m_nSessionIdLeft p"
      unfolding call_fresh_def peer_sids_def by blast
    ultimately show False by simp
  qed
  have "event_media native = MPMediaType_None \<longleftrightarrow> native AND twrap_media_audio = 0 \<and> native AND twrap_media_video = 0"
    by (auto simp: event_media_cases MPMediaType_None_def twrap_media_audio_def twrap_media_video_def)
  with fresh assms(3) show ?thesis
    by (auto simp: OnNewCall_def resolve_def Let_def split: option.splits)
qed

theorem plain_call_without_media_fails_witness:
  "OnNewCall sample_env sample_invite 0 (Some 5) 6 start_gw = None"
proof -
  have "call_reach start_gw" by (rule call_init) (simp add: start_gw_def)
  from plain_call_without_media_fails [OF this start_gw_fresh, of sample_env sample_invite 0] show ?thesis
    by (simp add: sample_env_def sample_invite_def)
qed

subsection \<open>Coupling the media\<close>

text \<open>
  What tinyWRAP promises: the plugin of a session found under a kind has that kind, and two sessions
  do not share a plugin.
\<close>

definition plugins_law :: "call_env \<Rightarrow> plugin_mgr \<Rightarrow> bool" where
  "plugins_law E pm \<longleftrightarrow>
     (\<forall>s k ref. leg_plugin E pm s k = Some ref \<longrightarrow> pl_kind (pm_objects pm ! ref_addr ref) = k
        \<and> ref_addr ref < length (pm_objects pm))
     \<and> (\<forall>s s' k ref. leg_plugin E pm s k = Some ref \<longrightarrow> leg_plugin E pm s' k = Some ref \<longrightarrow> s = s')
     \<and> (\<forall>s s' k ref ref'. leg_plugin E pm s k = Some ref \<longrightarrow> leg_plugin E pm s' k = Some ref' \<longrightarrow>
          ref_addr ref = ref_addr ref' \<longrightarrow> ref = ref')"

lemma leg_plugin_table: "pm_plugins pm' = pm_plugins pm \<Longrightarrow> leg_plugin E pm' s k = leg_plugin E pm s k"
  by (simp add: leg_plugin_def findPlugin_def split: option.split)

lemma attach_opt_simps [simp]:
  "pm_plugins (attach_opt c p pm) = pm_plugins pm"
  "length (pm_objects (attach_opt c p pm)) = length (pm_objects pm)"
  by (auto simp: attach_opt_def setProducerOpposite_def split: option.split)

lemma attach_opt_other:
  "(\<And>c'. c = Some c' \<Longrightarrow> ref_addr c' \<noteq> a) \<Longrightarrow> pm_objects (attach_opt c p pm) ! a = pm_objects pm ! a"
  by (auto simp: attach_opt_def setProducerOpposite_def split: option.split)

lemma attach_opt_this:
  "ref_addr c < length (pm_objects pm) \<Longrightarrow>
     m_oProducerOpposite (pm_objects (attach_opt (Some c) (Some p) pm) ! ref_addr c) = Some (ref_addr p)"
  by (auto simp: attach_opt_def setProducerOpposite_def)

text \<open>One medium, when all four plugins are there: each consumer feeds the producer of the other leg.\<close>

lemma attach_medium_coupled:
  assumes law: "plugins_law E pm" and "pm_plugins pm' = pm_plugins pm"
    and "length (pm_objects pm') = length (pm_objects pm)" and lr: "l \<noteq> r"
    and cl: "leg_plugin E pm l ck = Some cl" and pl: "leg_plugin E pm l pk = Some pl"
    and cr: "leg_plugin E pm r ck = Some cr" and pr: "leg_plugin E pm r pk = Some pr"
  shows "m_oProducerOpposite (pm_objects (attach_medium E ck pk l r pm') ! ref_addr cl) = Some (ref_addr pr)"
    and "m_oProducerOpposite (pm_objects (attach_medium E ck pk l r pm') ! ref_addr cr) = Some (ref_addr pl)"
    and "a \<noteq> ref_addr cl \<Longrightarrow> a \<noteq> ref_addr cr \<Longrightarrow> pm_objects (attach_medium E ck pk l r pm') ! a = pm_objects pm' ! a"
proof -
  have eq: "attach_medium E ck pk l r pm' = attach_opt (Some cr) (Some pl) (attach_opt (Some cl) (Some pr) pm')"
    using leg_plugin_table [OF assms(2)] cl pl cr pr by (simp add: attach_medium_def)
  have bound: "ref_addr cl < length (pm_objects pm')" "ref_addr cr < length (pm_objects pm')"
    using law cl cr assms(3) unfolding plugins_law_def by metis+
  have ne: "ref_addr cr \<noteq> ref_addr cl"
    using law cl cr lr unfolding plugins_law_def by metis
  show "m_oProducerOpposite (pm_objects (attach_medium E ck pk l r pm') ! ref_addr cl) = Some (ref_addr pr)"
    unfolding eq using bound ne by (subst attach_opt_other) (auto simp: attach_opt_this)
  show "m_oProducerOpposite (pm_objects (attach_medium E ck pk l r pm') ! ref_addr cr) = Some (ref_addr pl)"
    using bound by (simp add: eq attach_opt_this)
  show "a \<noteq> ref_addr cl \<Longrightarrow> a \<noteq> ref_addr cr \<Longrightarrow> pm_objects (attach_medium E ck pk l r pm') ! a = pm_objects pm' ! a"
    by (auto simp: eq attach_opt_def setProducerOpposite_def)
qed

lemma attach_medium_frame [simp]:
  "pm_plugins (attach_medium E ck pk l r pm) = pm_plugins pm"
  "length (pm_objects (attach_medium E ck pk l r pm)) = length (pm_objects pm)"
  by (simp_all add: attach_medium_def Let_def)

lemma attach_medium_other:
  "(\<And>s v. leg_plugin E pm s ck = Some v \<Longrightarrow> ref_addr v \<noteq> a) \<Longrightarrow>
     pm_objects (attach_medium E ck pk l r pm) ! a = pm_objects pm ! a"
  by (simp add: attach_medium_def Let_def attach_opt_other)

text \<open>
  For an audio call with both legs ready and their four audio plugins in the table, attaching the
  plugins makes each leg's audio consumer feed the other leg's audio producer, and coupling the video
  of the call afterwards does not disturb it.
\<close>

theorem audio_legs_coupled:
  assumes "plugins_law E pm" "m_oCallSessionRight p = Some s" "av_id s = r" "av_id (m_oCallSessionLeft p) = l" "l \<noteq> r"
    and "ce_mediaMgr E l" "ce_mediaMgr E r" "m_eMediaType p AND MPMediaType_Audio \<noteq> 0"
    and "leg_plugin E pm l AudioConsumer = Some cl" "leg_plugin E pm l AudioProducer = Some pl"
    and "leg_plugin E pm r AudioConsumer = Some cr" "leg_plugin E pm r AudioProducer = Some pr"
  shows "m_oProducerOpposite (pm_objects (attachMediaProxyPlugins E p pm) ! ref_addr cl) = Some (ref_addr pr)
    \<and> m_oProducerOpposite (pm_objects (attachMediaProxyPlugins E p pm) ! ref_addr cr) = Some (ref_addr pl)"
proof -
  let ?pm1 = "attach_medium E AudioConsumer AudioProducer l r pm"
  note coupled = attach_medium_coupled [OF assms(1) refl refl assms(5,9-12)]
  have kind: "pl_kind (pm_objects pm ! ref_addr x) = k" if "leg_plugin E pm y k = Some x" for x y k
    using assms(1) that unfolding plugins_law_def by metis
  have video: "pm_objects (attach_medium E VideoConsumer VideoProducer l r ?pm1) ! a = pm_objects ?pm1 ! a"
    if "pl_kind (pm_objects pm ! a) = AudioConsumer" for a
  proof -
    have "ref_addr v \<noteq> a" if "leg_plugin E pm y VideoConsumer = Some v" for v y
      using kind [OF that] \<open>pl_kind (pm_objects pm ! a) = AudioConsumer\<close> by auto
    then show ?thesis
      by (intro attach_medium_other) (simp add: leg_plugin_table [of ?pm1 pm])
  qed
  show ?thesis
    using assms(2-8) coupled(1,2) video [OF kind [OF assms(9)]] video [OF kind [OF assms(11)]]
    by (simp add: attachMediaProxyPlugins_def Let_def)
qed

definition four_plugins :: plugin_mgr where
  "four_plugins = \<lparr>pm_objects = [new_MPProxyPluginConsumerAudio False 1, new_MPProxyPluginProducerAudio False 2,
       new_MPProxyPluginConsumerAudio False 3, new_MPProxyPluginProducerAudio False 4],
     pm_plugins = [(1, \<lparr>ref_id = 1, ref_addr = 0\<rparr>), (2, \<lparr>ref_id = 2, ref_addr = 1\<rparr>),
       (3, \<lparr>ref_id = 3, ref_addr = 2\<rparr>), (4, \<lparr>ref_id = 4, ref_addr = 3\<rparr>)]\<rparr>"

definition media_env :: call_env where
  "media_env = sample_env\<lparr>ce_findProxyPlugin := \<lambda>s k.
     (case k of AudioConsumer \<Rightarrow> if s = 5 then Some 1 else if s = 6 then Some 3 else None
      | AudioProducer \<Rightarrow> if s = 5 then Some 2 else if s = 6 then Some 4 else None
      | _ \<Rightarrow> None)\<rparr>"

lemma media_env_plugin:
  "leg_plugin media_env four_plugins s k =
     (case k of AudioConsumer \<Rightarrow> if s = 5 then Some \<lparr>ref_id = 1, ref_addr = 0\<rparr>
                  else if s = 6 then Some \<lparr>ref_id = 3, ref_addr = 2\<rparr> else None
      | AudioProducer \<Rightarrow> if s = 5 then Some \<lparr>ref_id = 2, ref_addr = 1\<rparr>
                  else if s = 6 then Some \<lparr>ref_id = 4, ref_addr = 3\<rparr> else None
      | _ \<Rightarrow> None)"
  by (cases k) (simp_all add: leg_plugin_def media_env_def four_plugins_def findPlugin_def map_find_def)

lemma four_plugins_kinds:
  "pl_kind (pm_objects four_plugins ! 0) = AudioConsumer" "pl_kind (pm_objects four_plugins ! Suc 0) = AudioProducer"
  "pl_kind (pm_objects four_plugins ! 2) = AudioConsumer" "pl_kind (pm_objects four_plugins ! 3) = AudioProducer"
  "length (pm_objects four_plugins) = 4"
  by (simp_all add: four_plugins_def new_MPProxyPluginConsumerAudio_def new_MPProxyPluginProducerAudio_def
      new_MPProxyPlugin_def)

lemma media_env_law: "plugins_law media_env four_plugins"
  unfolding plugins_law_def
proof (intro conjI allI impI)
  fix s k r assume "leg_plugin media_env four_plugins s k = Some r"
  then show "pl_kind (pm_objects four_plugins ! ref_addr r) = k" "ref_addr r < length (pm_objects four_plugins)"
    by (cases k; auto simp: media_env_plugin four_plugins_kinds split: if_splits)+
next
  fix s s' k r assume "leg_plugin media_env four_plugins s k = Some r" "leg_plugin media_env four_plugins s' k = Some r"
  then show "s = s'" by (cases k) (auto simp: media_env_plugin split: if_splits)
next
  fix s s' k r r' assume "leg_plugin media_env four_plugins s k = Some r"
    "leg_plugin media_env four_plugins s' k = Some r'" "ref_addr r = ref_addr r'"
  then show "r = r'" by (cases k) (auto simp: media_env_plugin split: if_splits)
qed

theorem audio_legs_coupled_witness:
  "m_oProducerOpposite (pm_objects (attachMediaProxyPlugins media_env (bridged_peer (False, False) 5 6 1 1)
      four_plugins) ! 0) = Some 3"
proof -
  let ?p = "bridged_peer (False, False) 5 6 1 1"
  let ?s = "\<lparr>av_id = 6, av_eState = MPSessionState_Connecting, av_rtcp = False, av_opposite = Some 5, av_eMediaType = 1\<rparr>"
  have p: "m_oCallSessionRight ?p = Some ?s" "av_id (m_oCallSessionLeft ?p) = 5" "m_eMediaType ?p = 1"
    by (simp_all add: bridged_peer_def)
  have m: "ce_mediaMgr media_env x" for x by (simp add: media_env_def sample_env_def)
  show ?thesis
    using audio_legs_coupled [OF media_env_law p(1) _ p(2), of 6 "\<lparr>ref_id = 1, ref_addr = 0\<rparr>"
        "\<lparr>ref_id = 2, ref_addr = 1\<rparr>" "\<lparr>ref_id = 3, ref_addr = 2\<rparr>" "\<lparr>ref_id = 4, ref_addr = 3\<rparr>"] p(3) m
    by (simp add: media_env_plugin MPMediaType_Audio_def)
qed

end
