(* ===== verification/NetTransport.thy ===== *)
theory NetTransport
  imports Registry
begin

text \<open>
  \<open>MPNetTransport\<close> (\<open>mp_net_transport.cc\<close>, \<open>mp_net_transport.h\<close>): the table of connections by
  descriptor, the stream buffers with their limit, the filter on the remote host, and the dispatch of
  the events of tinyNET to the callback object. tinyNET and the buffers of tinySAK are parameters.
  The callback contract (\<open>onData\<close> consumes no more than it is given) is the locale \<open>net_callback\<close>; the
  three protocols on top of the transport interpret it.
\<close>

section \<open>Peers\<close>

record MPNetPeer =
  np_nFd :: MPNetFd
  np_bConnected :: bool
  np_data :: string

definition new_MPNetPeerStream :: "MPNetFd \<Rightarrow> bool \<Rightarrow> MPNetPeer" where
  "new_MPNetPeerStream fd c = \<lparr>np_nFd = fd, np_bConnected = c, np_data = []\<rparr>"

text \<open>tinySAK's buffers: the new content, None when the call fails and leaves the buffer alone.\<close>

record buf_api =
  tsk_buffer_append :: "string \<Rightarrow> string \<Rightarrow> string option"
  tsk_buffer_remove :: "string \<Rightarrow> nat \<Rightarrow> nat \<Rightarrow> string option"
  tsk_buffer_cleanup :: "string \<Rightarrow> string option"

definition buf_law :: "buf_api \<Rightarrow> bool" where
  "buf_law B \<longleftrightarrow>
     (\<forall>s t r. tsk_buffer_append B s t = Some r \<longrightarrow> r = s @ t)
     \<and> (\<forall>s n. n \<le> length s \<longrightarrow> tsk_buffer_remove B s 0 n = Some (drop n s))
     \<and> (\<forall>s n r. tsk_buffer_remove B s 0 n = Some r \<longrightarrow> length r \<le> length s)
     \<and> (\<forall>s. tsk_buffer_cleanup B s = Some [])"

definition appenData :: "buf_api \<Rightarrow> string \<Rightarrow> MPNetPeer \<Rightarrow> bool \<times> MPNetPeer" where
  "appenData B t p = (case tsk_buffer_append B (np_data p) t of
     None \<Rightarrow> (False, p) | Some r \<Rightarrow> (True, p\<lparr>np_data := r\<rparr>))"

definition remoteData :: "buf_api \<Rightarrow> nat \<Rightarrow> nat \<Rightarrow> MPNetPeer \<Rightarrow> bool \<times> MPNetPeer" where
  "remoteData B pos n p = (case tsk_buffer_remove B (np_data p) pos n of
     None \<Rightarrow> (False, p) | Some r \<Rightarrow> (True, p\<lparr>np_data := r\<rparr>))"

definition cleanupData :: "buf_api \<Rightarrow> MPNetPeer \<Rightarrow> bool \<times> MPNetPeer" where
  "cleanupData B p = (case tsk_buffer_cleanup B (np_data p) of
     None \<Rightarrow> (False, p) | Some r \<Rightarrow> (True, p\<lparr>np_data := r\<rparr>))"

section \<open>The transport\<close>

datatype MPNetTransporType_t = MPNetTransporType_None | MPNetTransporType_TCP | MPNetTransporType_TLS

definition MPNetTransporType_isStream :: "MPNetTransporType_t \<Rightarrow> bool" where
  "MPNetTransporType_isStream t =
     (case t of MPNetTransporType_TCP \<Rightarrow> True | MPNetTransporType_TLS \<Rightarrow> True | _ \<Rightarrow> False)"

record MPNetTransport =
  nt_eType :: MPNetTransporType_t
  nt_bValid :: bool
  nt_bStarted :: bool
  nt_bIPv6 :: bool
  nt_Peers :: "(MPNetFd, MPNetPeer) std_map"
  nt_pAllowedRemoteHost :: cstr

definition kMPMaxStreamBufferSize :: nat where "kMPMaxStreamBufferSize = 0xFFFF"

text \<open>What the transport asks of tinyNET.\<close>

datatype net_action = NetSend MPNetFd string | NetRemoveSocket MPNetFd | NetConnect string nat | NetShutdown

text \<open>
  tinyNET's answers: the bytes sent, the start and shutdown codes, whether a started transport is on
  IPv6, whether the family of the local address is IPv6, the peer's address, and the two steps that
  resolve the allowed host.
\<close>

record net_env =
  ne_T :: tsk_api
  ne_B :: buf_api
  ne_send :: "MPNetFd \<Rightarrow> string \<Rightarrow> int"
  ne_start :: int
  ne_masterIPv6 :: bool
  ne_familyIPv6 :: "cstr \<Rightarrow> nat \<Rightarrow> bool"
  ne_mutex :: bool
  ne_shutdown :: int
  ne_connect :: "string \<Rightarrow> nat \<Rightarrow> MPNetFd"
  ne_peerip :: "MPNetFd \<Rightarrow> int \<times> string"
  ne_sockaddr :: "string \<Rightarrow> int \<times> string"
  ne_sockip :: "string \<Rightarrow> int \<times> string"

text \<open>The constructor; any other type than TCP and TLS fails an assertion.\<close>

definition new_MPNetTransport :: "net_env \<Rightarrow> MPNetTransporType_t \<Rightarrow> cstr \<Rightarrow> nat \<Rightarrow> MPNetTransport option" where
  "new_MPNetTransport E t ip port =
     (if \<not> MPNetTransporType_isStream t then None
      else Some \<lparr>nt_eType = t, nt_bValid = ne_mutex E, nt_bStarted = False,
             nt_bIPv6 = (ip \<noteq> None \<and> port \<noteq> 0 \<and> ne_familyIPv6 E ip port), nt_Peers = [],
             nt_pAllowedRemoteHost = None\<rparr>)"

definition setAllowedRemoteHost :: "cstr \<Rightarrow> MPNetTransport \<Rightarrow> bool \<times> MPNetTransport" where
  "setAllowedRemoteHost h nt = (True, nt\<lparr>nt_pAllowedRemoteHost := h\<rparr>)"

definition net_start :: "net_env \<Rightarrow> MPNetTransport \<Rightarrow> bool \<times> MPNetTransport" where
  "net_start E nt =
     (let nt1 = nt\<lparr>nt_bStarted := (ne_start E = 0)\<rparr>;
          nt2 = (if nt_bStarted nt1 then nt1\<lparr>nt_bIPv6 := ne_masterIPv6 E\<rparr> else nt1)
      in (nt_bStarted nt2, nt2))"

definition net_stop :: "net_env \<Rightarrow> MPNetTransport \<Rightarrow> bool \<times> MPNetTransport \<times> net_action list" where
  "net_stop E nt = (ne_shutdown E = 0, nt\<lparr>nt_bStarted := False\<rparr>, [NetShutdown])"

definition connectTo :: "net_env \<Rightarrow> cstr \<Rightarrow> nat \<Rightarrow> MPNetTransport \<Rightarrow> MPNetFd \<times> net_action list" where
  "connectTo E host port nt =
     (case host of
        None \<Rightarrow> (kMPNetFdInvalid, [])
      | Some h \<Rightarrow>
          if port = 0 \<or> \<not> nt_bValid nt \<or> \<not> nt_bStarted nt then (kMPNetFdInvalid, [])
          else (ne_connect E h port, [NetConnect h port]))"

definition net_sendData :: "net_env \<Rightarrow> MPNetFd \<Rightarrow> cstr \<Rightarrow> bool \<times> net_action list" where
  "net_sendData E fd d =
     (case d of
        None \<Rightarrow> (False, [])
      | Some s \<Rightarrow>
          if s = [] \<or> \<not> MPNetFd_IsValid fd then (False, [])
          else (ne_send E fd s = int (length s), [NetSend fd s]))"

definition getPeerByFd :: "MPNetTransport \<Rightarrow> MPNetFd \<Rightarrow> MPNetPeer option" where
  "getPeerByFd nt fd = map_find (nt_Peers nt) fd"

definition insertNetPeer :: "MPNetPeer \<Rightarrow> MPNetTransport \<Rightarrow> MPNetTransport" where
  "insertNetPeer p nt = nt\<lparr>nt_Peers := map_insert (np_nFd p) p (nt_Peers nt)\<rparr>"

definition removeNetPeer :: "MPNetFd \<Rightarrow> MPNetTransport \<Rightarrow> MPNetTransport" where
  "removeNetPeer fd nt =
     (case map_find (nt_Peers nt) fd of None \<Rightarrow> nt | Some _ \<Rightarrow> nt\<lparr>nt_Peers := map_erase fd (nt_Peers nt)\<rparr>)"

text \<open>The peer of the table changed through its pointer.\<close>

definition setNetPeer :: "MPNetPeer \<Rightarrow> MPNetTransport \<Rightarrow> MPNetTransport" where
  "setNetPeer p nt = nt\<lparr>nt_Peers := map_modify (np_nFd p) (\<lambda>_. p) (nt_Peers nt)\<rparr>"

definition havePeer :: "MPNetTransport \<Rightarrow> MPNetFd \<Rightarrow> bool" where
  "havePeer nt fd \<longleftrightarrow> getPeerByFd nt fd \<noteq> None"

definition net_isConnected :: "MPNetTransport \<Rightarrow> MPNetFd \<Rightarrow> bool" where
  "net_isConnected nt fd = (case getPeerByFd nt fd of None \<Rightarrow> False | Some p \<Rightarrow> np_bConnected p)"

definition net_ok :: "MPNetTransport \<Rightarrow> bool" where
  "net_ok nt \<longleftrightarrow> map_ok (nt_Peers nt)"

interpretation net_peers: registry getPeerByFd insertNetPeer removeNetPeer np_nFd net_ok
  by unfold_locales
    (auto simp: getPeerByFd_def insertNetPeer_def removeNetPeer_def net_ok_def map_find_insert
      map_find_erase split: option.splits)

section \<open>Events of the stream\<close>

datatype net_event =
    EvClosed MPNetFd
  | EvRemoved MPNetFd
  | EvError MPNetFd
  | EvConnected MPNetFd
  | EvAccepted MPNetFd
  | EvData MPNetFd string
  | EvOther

text \<open>The callback object with a state of its own; it may look at the transport. \<open>onData\<close> takes the
bytes available and gives the bytes consumed.\<close>

record 'a net_cb =
  cb_onData :: "MPNetTransport \<Rightarrow> MPNetPeer \<Rightarrow> nat \<Rightarrow> 'a \<Rightarrow> nat \<times> 'a"
  cb_onConnectionStateChanged :: "MPNetTransport \<Rightarrow> MPNetPeer \<Rightarrow> 'a \<Rightarrow> 'a"

definition notify :: "'a net_cb option \<Rightarrow> MPNetPeer \<Rightarrow> MPNetTransport \<times> 'a \<Rightarrow> MPNetTransport \<times> 'a" where
  "notify cb p s =
     (case cb of None \<Rightarrow> s | Some c \<Rightarrow> (fst s, cb_onConnectionStateChanged c (fst s) p (snd s)))"

text \<open>The refusal, sent with \<open>sizeof\<close>: it ends with a NUL and its \<open>%u\<close> is never formatted.\<close>

definition ERROR_MSG_INVALID_DOMAIN :: "string \<Rightarrow> string" where
  "ERROR_MSG_INVALID_DOMAIN version =
     ''HTTP/1.1 403 Invalid domain'' @ crlf @ ''Server: webrtc2sip Media Server '' @ version @ crlf
     @ ''Access-Control-Allow-Origin: *'' @ crlf @ ''Content-Length: %u'' @ crlf
     @ ''Connection: Close'' @ crlf @ crlf @ [CHR 0x00]"

text \<open>
  The check of a new connection: 0 to let it in, otherwise the code the handler returns after it has
  sent the refusal and removed the socket.
\<close>

definition check_remote_host :: "net_env \<Rightarrow> MPNetFd \<Rightarrow> MPNetTransport \<Rightarrow> int" where
  "check_remote_host E fd nt =
     (if tsk_strnullORempty (ne_T E) (nt_pAllowedRemoteHost nt) then 0
      else let (ret1, ip_remote) = ne_peerip E fd in
        if ret1 \<noteq> 0 then ret1
        else let (ret2, addr) = ne_sockaddr E (pct_s (nt_pAllowedRemoteHost nt)) in
          if ret2 \<noteq> 0 then ret2
          else let (ret3, ip_domain) = ne_sockip E addr in
            if ret3 \<noteq> 0 then ret3
            else if \<not> tsk_striequals (ne_T E) (Some ip_remote) (Some ip_domain) then -1 else 0)"

definition on_closed :: "'a net_cb option \<Rightarrow> MPNetFd \<Rightarrow> MPNetTransport \<times> 'a \<Rightarrow> MPNetTransport \<times> 'a" where
  "on_closed cb fd s =
     (case getPeerByFd (fst s) fd of
        None \<Rightarrow> s
      | Some p \<Rightarrow> notify cb (p\<lparr>np_bConnected := False\<rparr>) (removeNetPeer fd (fst s), snd s))"

definition on_connected ::
  "string \<Rightarrow> net_env \<Rightarrow> 'a net_cb option \<Rightarrow> MPNetFd \<Rightarrow> MPNetTransport \<times> 'a \<Rightarrow> (MPNetTransport \<times> 'a) \<times> int \<times> net_action list" where
  "on_connected version E cb fd s =
     (let ret = check_remote_host E fd (fst s) in
      if ret \<noteq> 0
      then (s, ret, snd (net_sendData E fd (Some (ERROR_MSG_INVALID_DOMAIN version))) @ [NetRemoveSocket fd])
      else (case getPeerByFd (fst s) fd of
              Some p \<Rightarrow> let q = p\<lparr>np_bConnected := True\<rparr> in (notify cb q (setNetPeer q (fst s), snd s), 0, [])
            | None \<Rightarrow> let q = new_MPNetPeerStream fd True in (notify cb q (insertNetPeer q (fst s), snd s), 0, [])))"

definition on_data ::
  "net_env \<Rightarrow> 'a net_cb option \<Rightarrow> MPNetFd \<Rightarrow> string \<Rightarrow> MPNetTransport \<times> 'a \<Rightarrow> (MPNetTransport \<times> 'a) \<times> int \<times> net_action list" where
  "on_data E cb fd d s =
     (case getPeerByFd (fst s) fd of
        None \<Rightarrow> (s, -1, [])
      | Some p \<Rightarrow>
          let nConsumedBytes = length (np_data p) in
          if kMPMaxStreamBufferSize < nConsumedBytes + length d
          then ((setNetPeer (snd (cleanupData (ne_B E) p)) (fst s), snd s), 0, [])
          else let (p1, n1, a1) =
                     (case cb of
                        None \<Rightarrow> (p, nConsumedBytes, snd s)
                      | Some c \<Rightarrow>
                          let (appended, p1) = appenData (ne_B E) d p;
                               avail = (if appended then nConsumedBytes + length d else nConsumedBytes);
                               (n1, a1) = cb_onData c (setNetPeer p1 (fst s)) p1 avail (snd s)
                          in (p1, n1, a1));
                   p2 = (if n1 \<noteq> 0 then snd (remoteData (ne_B E) 0 n1 p1) else p1)
               in ((setNetPeer p2 (fst s), a1), 0, []))"

definition MPNetTransportCb_Stream ::
  "string \<Rightarrow> net_env \<Rightarrow> 'a net_cb option \<Rightarrow> net_event \<Rightarrow> MPNetTransport \<times> 'a \<Rightarrow> (MPNetTransport \<times> 'a) \<times> int \<times> net_action list" where
  "MPNetTransportCb_Stream version E cb e s =
     (case e of
        EvClosed fd \<Rightarrow> (on_closed cb fd s, 0, [])
      | EvRemoved fd \<Rightarrow> (on_closed cb fd s, 0, [])
      | EvError fd \<Rightarrow> (on_closed cb fd s, 0, [])
      | EvConnected fd \<Rightarrow> on_connected version E cb fd s
      | EvAccepted fd \<Rightarrow> on_connected version E cb fd s
      | EvData fd d \<Rightarrow> on_data E cb fd d s
      | EvOther \<Rightarrow> (s, 0, []))"

text \<open>A run of events.\<close>

fun net_run ::
  "string \<Rightarrow> net_env \<Rightarrow> 'a net_cb option \<Rightarrow> net_event list \<Rightarrow> MPNetTransport \<times> 'a \<Rightarrow> (MPNetTransport \<times> 'a) \<times> net_action list" where
  "net_run version E cb [] s = (s, [])"
| "net_run version E cb (e # es) s =
     (let (s1, ret, acts) = MPNetTransportCb_Stream version E cb e s;
          (s2, acts2) = net_run version E cb es s1
      in (s2, acts @ acts2))"

section \<open>Invariant: descriptors and buffer bound\<close>

definition net_inv :: "MPNetTransport \<Rightarrow> bool" where
  "net_inv nt \<longleftrightarrow> net_ok nt \<and>
     (\<forall>fd p. getPeerByFd nt fd = Some p \<longrightarrow> np_nFd p = fd \<and> length (np_data p) \<le> kMPMaxStreamBufferSize)"

lemma net_invD: "net_inv nt \<Longrightarrow> getPeerByFd nt fd = Some p \<Longrightarrow> np_nFd p = fd \<and> length (np_data p) \<le> kMPMaxStreamBufferSize"
  by (simp add: net_inv_def)

lemma getPeerByFd_set:
  "getPeerByFd (setNetPeer p nt) fd = (if fd = np_nFd p then map_option (\<lambda>_. p) (getPeerByFd nt fd) else getPeerByFd nt fd)"
  by (simp add: getPeerByFd_def setNetPeer_def map_find_modify)

lemma net_ok_set [simp]: "net_ok (setNetPeer p nt) \<longleftrightarrow> net_ok nt"
  by (simp add: net_ok_def setNetPeer_def)

lemma net_inv_set [w2s_inv]:
  "net_inv nt \<Longrightarrow> length (np_data p) \<le> kMPMaxStreamBufferSize \<Longrightarrow> net_inv (setNetPeer p nt)"
  by (auto simp: net_inv_def getPeerByFd_set split: if_splits)

lemma net_inv_remove [w2s_inv]: "net_inv nt \<Longrightarrow> net_inv (removeNetPeer fd nt)"
  by (auto simp: net_inv_def net_peers.lookup_remove net_peers.wf_remove split: if_splits)

lemma net_inv_insert [w2s_inv]:
  "net_inv nt \<Longrightarrow> length (np_data p) \<le> kMPMaxStreamBufferSize \<Longrightarrow> net_inv (insertNetPeer p nt)"
  by (auto simp: net_inv_def net_peers.lookup_add net_peers.wf_add split: if_splits)

lemma appenData_length:
  "buf_law B \<Longrightarrow> appenData B d p = (ok, q) \<Longrightarrow>
     np_nFd q = np_nFd p \<and> np_data q = (if ok then np_data p @ d else np_data p)"
  by (auto simp: appenData_def buf_law_def split: option.splits)

lemma remoteData_length: "buf_law B \<Longrightarrow> length (np_data (snd (remoteData B 0 n p))) \<le> length (np_data p)"
  by (auto simp: remoteData_def buf_law_def split: option.splits)

lemma remoteData_drop:
  "buf_law B \<Longrightarrow> n \<le> length (np_data p) \<Longrightarrow> np_data (snd (remoteData B 0 n p)) = drop n (np_data p)"
  by (simp add: remoteData_def buf_law_def)

lemma remoteData_fd [simp]: "np_nFd (snd (remoteData B i n p)) = np_nFd p"
  by (simp add: remoteData_def split: option.split)

lemma cleanupData_simps: "buf_law B \<Longrightarrow> snd (cleanupData B p) = p\<lparr>np_data := []\<rparr>"
  by (simp add: cleanupData_def buf_law_def)

text \<open>What a data event does to the peer it finds.\<close>

definition data_peer :: "net_env \<Rightarrow> MPNetTransport \<Rightarrow> 'a net_cb option \<Rightarrow> string \<Rightarrow> 'a \<Rightarrow> MPNetPeer \<Rightarrow> MPNetPeer \<times> 'a" where
  "data_peer E nt cb d a p =
     (if kMPMaxStreamBufferSize < length (np_data p) + length d then (snd (cleanupData (ne_B E) p), a)
      else case cb of
        None \<Rightarrow> ((if np_data p \<noteq> [] then snd (remoteData (ne_B E) 0 (length (np_data p)) p) else p), a)
      | Some c \<Rightarrow>
          let (appended, p1) = appenData (ne_B E) d p;
              (n1, a1) = cb_onData c (setNetPeer p1 nt) p1 (if appended then length (np_data p) + length d else length (np_data p)) a
          in ((if n1 \<noteq> 0 then snd (remoteData (ne_B E) 0 n1 p1) else p1), a1))"

lemma on_data_peer:
  "getPeerByFd nt fd = Some p \<Longrightarrow>
     on_data E cb fd d (nt, a) = (case data_peer E nt cb d a p of (q, a1) \<Rightarrow> ((setNetPeer q nt, a1), 0, []))"
  by (auto simp: on_data_def data_peer_def Let_def split: option.split prod.split)

lemma data_peer_bound:
  assumes "buf_law (ne_B E)" "length (np_data p) \<le> kMPMaxStreamBufferSize" "data_peer E nt cb d a p = (q, a1)"
  shows "np_nFd q = np_nFd p \<and> length (np_data q) \<le> kMPMaxStreamBufferSize"
proof (cases "kMPMaxStreamBufferSize < length (np_data p) + length d")
  case True
  then show ?thesis using assms by (auto simp: data_peer_def cleanupData_simps)
next
  case False
  note rem = remoteData_length [OF assms(1)]
  show ?thesis
  proof (cases cb)
    case None
    then show ?thesis using False assms(2,3) rem [of "length (np_data p)" p]
      by (auto simp: data_peer_def split: if_splits)
  next
    case (Some c)
    obtain ok p1 where ap: "appenData (ne_B E) d p = (ok, p1)" by fastforce
    have p1: "np_nFd p1 = np_nFd p" "length (np_data p1) \<le> kMPMaxStreamBufferSize"
      using appenData_length [OF assms(1) ap] False assms(2) by auto
    show ?thesis using Some False assms(3) p1 rem [of _ p1]
      by (auto simp: data_peer_def ap intro: order_trans split: if_splits prod.splits)
  qed
qed

lemma net_inv_data [w2s_inv]:
  assumes "buf_law (ne_B E)" "net_inv nt" "on_data E cb fd d (nt, a) = ((nt', a'), ret, acts)"
  shows "net_inv nt'"
proof (cases "getPeerByFd nt fd")
  case None
  then show ?thesis using assms(2,3) by (simp add: on_data_def)
next
  case (Some p)
  obtain q a1 where q: "data_peer E nt cb d a p = (q, a1)" by fastforce
  have "length (np_data q) \<le> kMPMaxStreamBufferSize"
    using data_peer_bound [OF assms(1) _ q] net_invD [OF assms(2) Some] by blast
  then show ?thesis using assms(2,3) on_data_peer [OF Some, of E cb d a] q by (auto intro: net_inv_set)
qed

lemma fst_notify [simp]: "fst (notify cb p s) = fst s"
  by (simp add: notify_def split: option.split)

lemma net_inv_event [w2s_inv]:
  assumes "buf_law (ne_B E)" "net_inv nt" "MPNetTransportCb_Stream v E cb e (nt, a) = ((nt', a'), ret, acts)"
  shows "net_inv nt'"
proof -
  have closed: "net_inv (fst (on_closed cb fd (nt, a)))" for fd
    using assms(2) by (auto simp: on_closed_def intro: net_inv_remove split: option.split)
  have connected: "net_inv (fst (fst (on_connected v E cb fd (nt, a))))" for fd
    using assms(2) by (auto simp: on_connected_def Let_def new_MPNetPeerStream_def
        intro!: net_inv_set net_inv_insert dest: net_invD split: option.split)
  show ?thesis
  proof (cases e)
    case (EvData fd d)
    then show ?thesis using assms(3) net_inv_data [OF assms(1,2)] by (simp add: MPNetTransportCb_Stream_def)
  next
    case EvOther
    then show ?thesis using assms(2,3) by (simp add: MPNetTransportCb_Stream_def)
  next
    case (EvClosed fd)
    then show ?thesis using assms(3) closed [of fd] by (simp add: MPNetTransportCb_Stream_def)
  next
    case (EvRemoved fd)
    then show ?thesis using assms(3) closed [of fd] by (simp add: MPNetTransportCb_Stream_def)
  next
    case (EvError fd)
    then show ?thesis using assms(3) closed [of fd] by (simp add: MPNetTransportCb_Stream_def)
  next
    case (EvConnected fd)
    then show ?thesis using assms(3) connected [of fd] by (simp add: MPNetTransportCb_Stream_def)
  next
    case (EvAccepted fd)
    then show ?thesis using assms(3) connected [of fd] by (simp add: MPNetTransportCb_Stream_def)
  qed
qed

lemma net_inv_run:
  assumes "buf_law (ne_B E)"
  shows "net_inv (fst s) \<Longrightarrow> net_inv (fst (fst (net_run v E cb es s)))"
proof (induction es arbitrary: s)
  case Nil
  then show ?case by simp
next
  case (Cons e es)
  obtain nt a where s: "s = (nt, a)" by fastforce
  obtain nt' a' ret acts where e: "MPNetTransportCb_Stream v E cb e (nt, a) = ((nt', a'), ret, acts)"
    by (metis prod.collapse)
  have "net_inv nt'" using net_inv_event [OF assms _ e] Cons.prems s by simp
  from Cons.IH [of "(nt', a')"] this show ?case by (simp add: s e case_prod_beta)
qed

section \<open>The contract of the callback\<close>

text \<open>
  What the transport relies on, as long as the library services the protocol calls behave:
  \<open>onData\<close>, called with the size of the buffer, consumes no more bytes
  than that. Then an event keeps exactly the bytes that were not consumed, in order: nothing is lost
  or duplicated between the socket and the protocol.
\<close>

locale net_callback =
  fixes onData :: "MPNetTransport \<Rightarrow> MPNetPeer \<Rightarrow> nat \<Rightarrow> 'a \<Rightarrow> nat \<times> 'a"
    and services_ok :: bool
  assumes consumed: "services_ok \<Longrightarrow> fst (onData nt p (length (np_data p)) a) \<le> length (np_data p)"
begin

lemma kept_bytes:
  assumes "buf_law (ne_B E)" "cb_onData c = onData" "tsk_buffer_append (ne_B E) (np_data p) d \<noteq> None"
    and services_ok and "length (np_data p) + length d \<le> kMPMaxStreamBufferSize"
  shows "\<exists>n a1. data_peer E nt (Some c) d a p =
      (p\<lparr>np_data := drop n (np_data p @ d)\<rparr>, a1)
    \<and> (n, a1) = onData (setNetPeer (p\<lparr>np_data := np_data p @ d\<rparr>) nt) (p\<lparr>np_data := np_data p @ d\<rparr>) (length (np_data p @ d)) a \<and> n \<le> length (np_data p @ d)"
proof -
  have ap: "appenData (ne_B E) d p = (True, p\<lparr>np_data := np_data p @ d\<rparr>)"
    using assms(1,3) by (auto simp: appenData_def buf_law_def)
  let ?p1 = "p\<lparr>np_data := np_data p @ d\<rparr>"
  obtain n a1 where n: "onData (setNetPeer ?p1 nt) ?p1 (length (np_data p @ d)) a = (n, a1)" by fastforce
  have le: "n \<le> length (np_data p @ d)" using consumed [OF assms(4), of "setNetPeer ?p1 nt" ?p1 a] n by simp
  have "snd (remoteData (ne_B E) 0 n ?p1) = p\<lparr>np_data := drop n (np_data p @ d)\<rparr>"
    using assms(1) le by (simp add: remoteData_def buf_law_def)
  then have "data_peer E nt (Some c) d a p = (p\<lparr>np_data := drop n (np_data p @ d)\<rparr>, a1)"
    using assms(2,5) n by (auto simp: data_peer_def ap)
  then show ?thesis using n le by auto
qed

end

text \<open>
  A handler that may abort the process (a failed assertion, an exception nobody catches, an access
  outside a buffer), as a callback: the state is None from then on.
\<close>

definition abortable ::
  "(MPNetTransport \<Rightarrow> MPNetPeer \<Rightarrow> nat \<Rightarrow> 'a \<Rightarrow> (nat \<times> 'a) option) \<Rightarrow> MPNetTransport \<Rightarrow> MPNetPeer \<Rightarrow> nat \<Rightarrow> 'a option \<Rightarrow> nat \<times> 'a option" where
  "abortable h nt p n a =
     (case Option.bind a (h nt p n) of None \<Rightarrow> (0, None) | Some (k, a1) \<Rightarrow> (k, Some a1))"

lemma abortable_consumed:
  assumes "\<And>a k a1. h nt p n a = Some (k, a1) \<Longrightarrow> k \<le> m"
  shows "fst (abortable h nt p n a) \<le> m"
proof (cases "Option.bind a (h nt p n)")
  case (Some x)
  obtain k a1 where x: "x = (k, a1)" by (cases x)
  from Some x obtain b where "h nt p n b = Some (k, a1)" by (auto simp: bind_eq_Some_conv)
  from assms [OF this] show ?thesis using Some x by (simp add: abortable_def)
qed (simp add: abortable_def)

section \<open>Properties\<close>

definition buf_ref :: buf_api where
  "buf_ref = \<lparr>tsk_buffer_append = \<lambda>s t. Some (s @ t),
     tsk_buffer_remove = \<lambda>s i n. if i = 0 \<and> n \<le> length s then Some (drop n s) else None,
     tsk_buffer_cleanup = \<lambda>s. Some []\<rparr>"

lemma buf_ref_law [simp]: "buf_law buf_ref"
  by (simp add: buf_law_def buf_ref_def)

definition sample_net_env :: net_env where
  "sample_net_env = \<lparr>ne_T = tsk_ref, ne_B = buf_ref, ne_send = \<lambda>_ s. int (length s), ne_start = 0,
     ne_masterIPv6 = False, ne_familyIPv6 = \<lambda>_ _. False, ne_mutex = True, ne_shutdown = 0,
     ne_connect = \<lambda>_ _. 9, ne_peerip = \<lambda>_. (0, ''1.2.3.4''), ne_sockaddr = \<lambda>h. (0, h), ne_sockip = \<lambda>a. (0, a)\<rparr>"

definition sample_transport :: MPNetTransport where
  "sample_transport = \<lparr>nt_eType = MPNetTransporType_TCP, nt_bValid = True, nt_bStarted = True, nt_bIPv6 = False,
     nt_Peers = [], nt_pAllowedRemoteHost = None\<rparr>"

lemma sample_net_inv [simp]: "net_inv (sample_transport\<lparr>nt_pAllowedRemoteHost := h\<rparr>)" "net_inv sample_transport"
  by (simp_all add: net_inv_def net_ok_def sample_transport_def getPeerByFd_def map_find_def)

text \<open>
  C11. Whatever the sequence of network events and whatever the protocol callback does, a connection
  is stored under its own descriptor and its buffer never holds more than 65535 bytes.
\<close>

theorem stream_buffers_bounded:
  assumes "buf_law (ne_B E)" "net_inv nt" "net_run v E cb es (nt, a) = ((nt', a'), acts)"
    and "getPeerByFd nt' fd = Some p"
  shows "np_nFd p = fd \<and> length (np_data p) \<le> 65535"
  using net_inv_run [OF assms(1), of "(nt, a)" v cb es] assms(2-4)
  by (auto simp: kMPMaxStreamBufferSize_def dest: net_invD)

theorem stream_buffers_bounded_witness:
  "\<exists>s acts. net_run ''2.7.0'' sample_net_env (None :: unit net_cb option) [EvConnected 3] (sample_transport, ()) = (s, acts)
     \<and> (\<forall>p. getPeerByFd (fst s) 3 = Some p \<longrightarrow> np_nFd p = 3)"
proof -
  obtain nt' a' acts where r: "net_run ''2.7.0'' sample_net_env (None :: unit net_cb option) [EvConnected 3] (sample_transport, ())
      = ((nt', a'), acts)" by (metis prod.collapse)
  have "buf_law (ne_B sample_net_env)" by (simp add: sample_net_env_def)
  from stream_buffers_bounded [OF this sample_net_inv(2) r, of 3] r show ?thesis by auto
qed

lemma refusal_shape: "\<exists>pre post. ERROR_MSG_INVALID_DOMAIN v = pre @ ''Content-Length: %u'' @ post @ [CHR 0x00]"
proof -
  have "ERROR_MSG_INVALID_DOMAIN v =
    (''HTTP/1.1 403 Invalid domain'' @ crlf @ ''Server: webrtc2sip Media Server '' @ v @ crlf
       @ ''Access-Control-Allow-Origin: *'' @ crlf)
    @ ''Content-Length: %u'' @ (crlf @ ''Connection: Close'' @ crlf @ crlf) @ [CHR 0x00]"
    by (simp only: ERROR_MSG_INVALID_DOMAIN_def append_assoc)
  then show ?thesis by blast
qed

text \<open>
  C12. While a remote host is configured, a connection from an address that does not match it, or whose
  address or the host's cannot be determined, leaves the table of connections and the protocol
  untouched: it is answered with the 403 message, whose length header is the unformatted \<open>%u\<close> and
  which ends with a NUL byte, and its socket is removed.
\<close>

theorem foreign_host_refused:
  assumes "strnullORempty_law (ne_T E)" "nt_pAllowedRemoteHost nt = Some h" "h \<noteq> []" "MPNetFd_IsValid fd"
    and "fst (ne_peerip E fd) \<noteq> 0 \<or> fst (ne_sockaddr E h) \<noteq> 0 \<or> fst (ne_sockip E (snd (ne_sockaddr E h))) \<noteq> 0
       \<or> \<not> tsk_striequals (ne_T E) (Some (snd (ne_peerip E fd))) (Some (snd (ne_sockip E (snd (ne_sockaddr E h)))))"
    and "e = EvConnected fd \<or> e = EvAccepted fd"
  shows "\<exists>ret. ret \<noteq> 0 \<and> MPNetTransportCb_Stream v E cb e (nt, a) =
      ((nt, a), ret, [NetSend fd (ERROR_MSG_INVALID_DOMAIN v), NetRemoveSocket fd])
    \<and> (\<exists>pre post. ERROR_MSG_INVALID_DOMAIN v = pre @ ''Content-Length: %u'' @ post @ [CHR 0x00])"
proof -
  have "\<not> tsk_strnullORempty (ne_T E) (Some h)"
    using assms(1,3) by (simp add: strnullORempty_law_def)
  then have "check_remote_host E fd nt \<noteq> 0"
    using assms(2,5) by (simp add: check_remote_host_def case_prod_beta)
  moreover have "ERROR_MSG_INVALID_DOMAIN v \<noteq> []" by (simp add: ERROR_MSG_INVALID_DOMAIN_def)
  moreover note refusal_shape [of v]
  ultimately show ?thesis
    using assms(4,6) by (elim disjE) (simp_all add: MPNetTransportCb_Stream_def on_connected_def net_sendData_def Let_def)
qed

theorem foreign_host_refused_witness:
  "\<exists>ret. ret \<noteq> 0 \<and> MPNetTransportCb_Stream ''2.7.0'' sample_net_env (None :: unit net_cb option) (EvConnected 3)
     (sample_transport\<lparr>nt_pAllowedRemoteHost := Some ''5.6.7.8''\<rparr>, ()) =
     ((sample_transport\<lparr>nt_pAllowedRemoteHost := Some ''5.6.7.8''\<rparr>, ()), ret,
      [NetSend 3 (ERROR_MSG_INVALID_DOMAIN ''2.7.0''), NetRemoveSocket 3])"
proof -
  let ?nt = "sample_transport\<lparr>nt_pAllowedRemoteHost := Some ''5.6.7.8''\<rparr>"
  have "strnullORempty_law (ne_T sample_net_env)" "nt_pAllowedRemoteHost ?nt = Some ''5.6.7.8''"
    "''5.6.7.8'' \<noteq> []" "MPNetFd_IsValid 3"
    by (simp_all add: sample_net_env_def MPNetFd_IsValid_def)
  moreover have "\<not> tsk_striequals (ne_T sample_net_env) (Some (snd (ne_peerip sample_net_env 3)))
      (Some (snd (ne_sockip sample_net_env (snd (ne_sockaddr sample_net_env ''5.6.7.8'')))))"
    by (simp add: sample_net_env_def ascii_lower_def)
  ultimately show ?thesis
    using foreign_host_refused [of sample_net_env ?nt "''5.6.7.8''" 3 "EvConnected 3" "''2.7.0''"
        "None :: unit net_cb option" "()"] by blast
qed

end
