(* ===== verification/Mail.thy ===== *)
theory Mail
  imports NetTransport
begin

text \<open>
  The SMTP client (\<open>mp_mail.cc\<close>, \<open>mp_mail.h\<close>): mails are queued until the transport is connected, then
  each is written into one buffer whose size is computed beforehand and sent in one go.
\<close>

section \<open>Mails and the transport\<close>

record MPMail =
  m_pSrcMailAddr :: cstr
  m_pDstMailAddr :: cstr
  m_pSubject :: cstr
  mail_data :: string

definition new_MPMail :: "cstr \<Rightarrow> cstr \<Rightarrow> cstr \<Rightarrow> string \<Rightarrow> MPMail" where
  "new_MPMail src dst subject d =
     \<lparr>m_pSrcMailAddr = src, m_pDstMailAddr = dst, m_pSubject = subject, mail_data = d\<rparr>"

text \<open>The fields of \<open>MPMailTransport\<close> beside those of \<open>MPNetTransport\<close>; \<open>ml_sent\<close> collects what is
asked of tinyNET.\<close>

record MPMailTransport =
  m_bConnectToPending :: bool
  m_pSmtpHost :: cstr
  m_nSmtpPort :: nat
  m_pHttpDomain :: cstr
  m_pEmail :: cstr
  m_pAuthName64 :: cstr
  m_pAuthPwd64 :: cstr
  m_nConnectedFd :: MPNetFd
  m_oPendingMails :: "MPMail list"
  m_pTempBuff :: string
  m_bNeedToAuthenticate :: bool
  ml_sent :: "net_action list"

text \<open>What \<open>tsk_strlen\<close> and \<open>memcpy\<close> make of a string that may be NULL.\<close>

definition bytes_of :: "cstr \<Rightarrow> string" where
  "bytes_of s = (case s of None \<Rightarrow> [] | Some t \<Rightarrow> t)"

lemma bytes_of_simps [simp]: "bytes_of None = []" "bytes_of (Some t) = t"
  by (simp_all add: bytes_of_def)

text \<open>
  The constructor asserts that \<open>tsk_base64_encode\<close>, which returns the size of what it writes, writes
  something for the name and for the password: None when one of the assertions fails.
\<close>

definition new_MPMailTransport ::
  "net_env \<Rightarrow> bool \<Rightarrow> cstr \<Rightarrow> nat \<Rightarrow> cstr \<Rightarrow> nat \<Rightarrow> cstr \<Rightarrow> cstr \<Rightarrow> cstr \<Rightarrow> (MPNetTransport \<times> MPMailTransport) option" where
  "new_MPMailTransport E isSecure ip port smtpHost smtpPort email name pwd =
     (case new_MPNetTransport E (if isSecure then MPNetTransporType_TLS else MPNetTransporType_TCP) ip port of
        None \<Rightarrow> None
      | Some nt \<Rightarrow>
          let name64 = tsk_base64_encode (ne_T E) (bytes_of name); pwd64 = tsk_base64_encode (ne_T E) (bytes_of pwd) in
          if name64 = [] then None
          else if pwd64 = [] then None
          else Some (nt,
            \<lparr>m_bConnectToPending = False, m_pSmtpHost = smtpHost, m_nSmtpPort = smtpPort, m_pHttpDomain = None,
             m_pEmail = email, m_pAuthName64 = Some name64, m_pAuthPwd64 = Some pwd64, m_nConnectedFd = kMPNetFdInvalid,
             m_oPendingMails = [], m_pTempBuff = [], m_bNeedToAuthenticate = True, ml_sent = []\<rparr>))"

definition setHttpDomain :: "cstr \<Rightarrow> MPNetTransport \<times> MPMailTransport \<Rightarrow> bool \<times> MPNetTransport \<times> MPMailTransport" where
  "setHttpDomain d s =
     (case setAllowedRemoteHost d (fst s) of (ok, nt) \<Rightarrow> (ok, nt, (snd s)\<lparr>m_pHttpDomain := d\<rparr>))"

section \<open>Writing a mail\<close>

text \<open>
  \<open>memcpy(&buffer[nIndex], src, n); nIndex += n\<close>: None when the copy would read past the source or
  write past the buffer.
\<close>

definition copy_chunk :: "string \<times> nat \<Rightarrow> string \<times> nat \<Rightarrow> (string \<times> nat) option" where
  "copy_chunk chunk st =
     (case (chunk, st) of ((src, n), (buffer, nIndex)) \<Rightarrow>
        if length src < n \<or> length buffer < nIndex + n then None
        else Some (take nIndex buffer @ take n src @ drop (nIndex + n) buffer, nIndex + n))"

fun copy_chunks :: "(string \<times> nat) list \<Rightarrow> string \<times> nat \<Rightarrow> (string \<times> nat) option" where
  "copy_chunks [] st = Some st"
| "copy_chunks (c # cs) st = (case copy_chunk c st of None \<Rightarrow> None | Some st' \<Rightarrow> copy_chunks cs st')"

text \<open>The size computed in advance, and the chunks with the lengths the source copies.\<close>

definition nContentSize :: "MPMailTransport \<Rightarrow> MPMail \<Rightarrow> nat" where
  "nContentSize t m =
     5 + length (bytes_of (m_pSmtpHost t)) + 2
     + (if \<not> m_bNeedToAuthenticate t then 0 else 10 + 2)
     + (if \<not> m_bNeedToAuthenticate t then 0 else length (bytes_of (m_pAuthName64 t)) + 2)
     + (if \<not> m_bNeedToAuthenticate t then 0 else length (bytes_of (m_pAuthPwd64 t)) + 2)
     + 11 + length (bytes_of (m_pSrcMailAddr m)) + 1 + 2
     + 9 + length (bytes_of (m_pDstMailAddr m)) + 1 + 2
     + 4 + 2
     + 8 + length (bytes_of (m_pSubject m)) + 2
     + 5 + length (bytes_of (m_pSrcMailAddr m)) + 2
     + 3 + length (bytes_of (m_pDstMailAddr m)) + 2
     + 2
     + length (mail_data m) + 2
     + 5"

definition str_chunk :: "cstr \<Rightarrow> string \<times> nat" where
  "str_chunk s = (bytes_of s, length (bytes_of s))"

definition mail_chunks :: "MPMailTransport \<Rightarrow> MPMail \<Rightarrow> (string \<times> nat) list" where
  "mail_chunks t m =
     [(''EHLO '', 5), str_chunk (m_pSmtpHost t), (crlf, 2)]
     @ (if m_bNeedToAuthenticate t then
          [(''AUTH LOGIN'' @ crlf, 12), str_chunk (m_pAuthName64 t), (crlf, 2),
           str_chunk (m_pAuthPwd64 t), (crlf, 2)] else [])
     @ [(''MAIL FROM:<'', 11), str_chunk (m_pSrcMailAddr m), (''>'' @ crlf, 3),
        (''RCPT TO:<'', 9), str_chunk (m_pDstMailAddr m), (''>'' @ crlf, 3),
        (''DATA'' @ crlf, 6),
        (''SUBJECT:'', 8), str_chunk (m_pSubject m), (crlf, 2),
        (''From:'', 5), str_chunk (m_pSrcMailAddr m), (crlf, 2),
        (''To:'', 3), str_chunk (m_pDstMailAddr m), (crlf, 2),
        (crlf, 2),
        (mail_data m, length (mail_data m)), (crlf, 2),
        (crlf @ ''.'' @ crlf, 5)]"

section \<open>Sending\<close>

text \<open>\<open>tsk_realloc\<close> to a larger size, or its failure; the new bytes are shown as zeros, every byte
that is sent has been written before.\<close>

definition grow :: "(nat \<Rightarrow> bool) \<Rightarrow> nat \<Rightarrow> string \<Rightarrow> string option" where
  "grow realloc_ok n b =
     (if n \<le> length b then Some b
      else if realloc_ok n then Some (b @ replicate (n - length b) (CHR 0x00)) else None)"

definition ml_connected :: "MPNetTransport \<Rightarrow> MPMailTransport \<Rightarrow> bool" where
  "ml_connected nt t \<longleftrightarrow> MPNetFd_IsValid (m_nConnectedFd t) \<and> net_isConnected nt (m_nConnectedFd t)"

text \<open>The private \<open>sendMail(oMail)\<close>; None is a write outside the buffer.\<close>

definition sendMail1 ::
  "net_env \<Rightarrow> (nat \<Rightarrow> bool) \<Rightarrow> MPNetTransport \<Rightarrow> MPMail \<Rightarrow> MPMailTransport \<Rightarrow> (bool \<times> MPMailTransport) option" where
  "sendMail1 E ro nt m t =
     (if \<not> ml_connected nt t then Some (False, t)
      else case grow ro (nContentSize t m) (m_pTempBuff t) of
        None \<Rightarrow> Some (False, t\<lparr>m_pTempBuff := []\<rparr>)
      | Some b \<Rightarrow>
          (case copy_chunks (mail_chunks t m) (b, 0) of
             None \<Rightarrow> None
           | Some (b', nIndex) \<Rightarrow>
               let (ok, acts) = net_sendData E (m_nConnectedFd t) (Some (take nIndex b'))
               in Some (ok, t\<lparr>m_pTempBuff := b', ml_sent := ml_sent t @ acts\<rparr>)))"

text \<open>The public \<open>sendMail\<close>.\<close>

definition sendMail ::
  "net_env \<Rightarrow> (nat \<Rightarrow> bool) \<Rightarrow> MPNetTransport \<Rightarrow> cstr \<Rightarrow> cstr \<Rightarrow> cstr \<Rightarrow> cstr \<Rightarrow> MPMailTransport \<Rightarrow> (bool \<times> MPMailTransport) option" where
  "sendMail E ro nt dst subject d src t =
     (case (dst, d) of
        (Some _, Some bytes) \<Rightarrow>
          if bytes = [] then Some (False, t)
          else let m = new_MPMail (case src of None \<Rightarrow> m_pEmail t | Some _ \<Rightarrow> src) dst subject bytes in
            if \<not> ml_connected nt t then
              let t1 = t\<lparr>m_oPendingMails := m_oPendingMails t @ [m]\<rparr> in
              if \<not> m_bConnectToPending t1 then
                let t2 = t1\<lparr>m_bConnectToPending := True\<rparr>;
                    (fd, acts) = connectTo E (m_pSmtpHost t2) (m_nSmtpPort t2) nt
                in Some (MPNetFd_IsValid fd, t2\<lparr>ml_sent := ml_sent t2 @ acts\<rparr>)
              else Some (True, t1)
            else sendMail1 E ro nt m t
      | _ \<Rightarrow> Some (False, t))"

text \<open>The loop of \<open>sendPendingMails\<close>, over the queue.\<close>

fun send_queue ::
  "net_env \<Rightarrow> (nat \<Rightarrow> bool) \<Rightarrow> MPNetTransport \<Rightarrow> MPMail list \<Rightarrow> MPMailTransport \<Rightarrow> (bool \<times> MPMailTransport) option" where
  "send_queue E ro nt [] t = Some (True, t\<lparr>m_oPendingMails := []\<rparr>)"
| "send_queue E ro nt (m # ms) t =
     (if \<not> ml_connected nt t then Some (True, t\<lparr>m_oPendingMails := m # ms\<rparr>)
      else case sendMail1 E ro nt m (t\<lparr>m_oPendingMails := ms\<rparr>) of
        None \<Rightarrow> None
      | Some (ok, t1) \<Rightarrow>
          if \<not> ok then Some (False, t1)
          else send_queue E ro nt ms (t1\<lparr>m_bNeedToAuthenticate := False\<rparr>))"

definition sendPendingMails ::
  "net_env \<Rightarrow> (nat \<Rightarrow> bool) \<Rightarrow> MPNetTransport \<Rightarrow> MPMailTransport \<Rightarrow> (bool \<times> MPMailTransport) option" where
  "sendPendingMails E ro nt t = send_queue E ro nt (m_oPendingMails t) t"

section \<open>The callback\<close>

definition mail_onData :: "MPNetTransport \<Rightarrow> MPNetPeer \<Rightarrow> nat \<Rightarrow> MPMailTransport \<Rightarrow> nat \<times> MPMailTransport" where
  "mail_onData nt p nConsumedBytes t = (nConsumedBytes, t)"

definition mail_onConnectionStateChanged ::
  "net_env \<Rightarrow> (nat \<Rightarrow> bool) \<Rightarrow> MPNetTransport \<Rightarrow> MPNetPeer \<Rightarrow> MPMailTransport \<Rightarrow> (bool \<times> MPMailTransport) option" where
  "mail_onConnectionStateChanged E ro nt p t =
     (let t1 = t\<lparr>m_bConnectToPending := False,
                 m_nConnectedFd := (if np_bConnected p then np_nFd p else kMPNetFdInvalid)\<rparr>
      in if np_bConnected p then sendPendingMails E ro nt t1
         else Some (True, t1\<lparr>m_bNeedToAuthenticate := True\<rparr>))"

text \<open>The mail service takes every byte it is given.\<close>

interpretation mail: net_callback mail_onData True
  by unfold_locales (simp add: mail_onData_def)

section \<open>Lemmas\<close>

lemma copy_chunks_ok:
  assumes "\<forall>(s, n) \<in> set cs. n = length s" "i + length (concat (map fst cs)) \<le> length b"
  shows "copy_chunks cs (b, i) =
    Some (take i b @ concat (map fst cs) @ drop (i + length (concat (map fst cs))) b,
          i + length (concat (map fst cs)))"
  using assms
proof (induction cs arbitrary: b i)
  case Nil
  then show ?case by simp
next
  case (Cons c cs)
  obtain s where c: "c = (s, length s)" using Cons.prems(1) by (cases c) auto
  let ?b = "take i b @ s @ drop (i + length s) b"
  have lens: "i + length s \<le> length b" using Cons.prems(2) by (simp add: c)
  then have step: "copy_chunk c (b, i) = Some (?b, i + length s)"
    by (simp add: copy_chunk_def c)
  have "i + length s + length (concat (map fst cs)) \<le> length ?b" using Cons.prems(2) lens by (simp add: c)
  with Cons.IH [of "i + length s" ?b] Cons.prems(1) step lens show ?case
    by (simp add: c add_ac)
qed

text \<open>The message on the wire.\<close>

definition mail_text :: "MPMailTransport \<Rightarrow> MPMail \<Rightarrow> string" where
  "mail_text t m =
     ''EHLO '' @ bytes_of (m_pSmtpHost t) @ crlf
     @ (if m_bNeedToAuthenticate t
        then ''AUTH LOGIN'' @ crlf @ bytes_of (m_pAuthName64 t) @ crlf @ bytes_of (m_pAuthPwd64 t) @ crlf else [])
     @ ''MAIL FROM:<'' @ bytes_of (m_pSrcMailAddr m) @ ''>'' @ crlf
     @ ''RCPT TO:<'' @ bytes_of (m_pDstMailAddr m) @ ''>'' @ crlf
     @ ''DATA'' @ crlf @ ''SUBJECT:'' @ bytes_of (m_pSubject m) @ crlf
     @ ''From:'' @ bytes_of (m_pSrcMailAddr m) @ crlf
     @ ''To:'' @ bytes_of (m_pDstMailAddr m) @ crlf @ crlf
     @ mail_data m @ crlf @ crlf @ ''.'' @ crlf"

lemma mail_chunks_text: "concat (map fst (mail_chunks t m)) = mail_text t m"
  by (simp add: mail_chunks_def mail_text_def str_chunk_def)

lemma mail_chunks_lengths: "\<forall>(s, n) \<in> set (mail_chunks t m). n = length s"
  by (cases "m_bNeedToAuthenticate t") (simp_all add: mail_chunks_def str_chunk_def)

lemma mail_size: "nContentSize t m = length (mail_text t m)"
  by (simp add: nContentSize_def mail_text_def)

lemma mail_text_nonempty [simp]: "mail_text t m \<noteq> []"
  by (simp add: mail_text_def)

lemma grow_Some: "grow ro n b = Some b' \<Longrightarrow> n \<le> length b'"
  by (auto simp: grow_def split: if_splits)

lemma sendMail1_spec:
  assumes "ml_connected nt t"
  shows "\<exists>ok t'. sendMail1 E ro nt m t = Some (ok, t')
    \<and> (ml_sent t' = ml_sent t \<and> \<not> ok
       \<or> ml_sent t' = ml_sent t @ [NetSend (m_nConnectedFd t) (mail_text t m)]
         \<and> (ok \<longleftrightarrow> ne_send E (m_nConnectedFd t) (mail_text t m) = int (length (mail_text t m))))
    \<and> ((\<forall>n. ro n) \<longrightarrow> ml_sent t' = ml_sent t @ [NetSend (m_nConnectedFd t) (mail_text t m)])
    \<and> t' = t\<lparr>m_pTempBuff := m_pTempBuff t', ml_sent := ml_sent t'\<rparr>"
proof (cases "grow ro (nContentSize t m) (m_pTempBuff t)")
  case None
  then have "\<not> (\<forall>n. ro n)" by (auto simp: grow_def split: if_splits)
  with None assms show ?thesis by (auto simp: sendMail1_def)
next
  case (Some b)
  have len: "length (mail_text t m) \<le> length b" using grow_Some [OF Some] by (simp add: mail_size)
  have "copy_chunks (mail_chunks t m) (b, 0) =
      Some (mail_text t m @ drop (length (mail_text t m)) b, length (mail_text t m))"
    using copy_chunks_ok [OF mail_chunks_lengths, of 0 t m b] len by (simp add: mail_chunks_text)
  with Some assms show ?thesis
    by (simp add: sendMail1_def net_sendData_def ml_connected_def)
qed

lemma sendMail_returns: "\<exists>ok t'. sendMail E ro nt dst subject d src t = Some (ok, t')"
proof (cases "ml_connected nt t")
  case True
  then show ?thesis using sendMail1_spec [OF True, of E ro "new_MPMail (case src of None \<Rightarrow> m_pEmail t | Some _ \<Rightarrow> src) dst subject (the d)"]
    by (cases dst; cases d) (auto simp: sendMail_def Let_def)
next
  case False
  then show ?thesis by (cases dst; cases d) (auto simp: sendMail_def Let_def split: prod.split)
qed

section \<open>Properties\<close>

text \<open>
  The size computed for a mail is exactly the number of bytes written: no copy reads past its
  source or writes past the buffer, whatever the lengths of the fields and whether or not the client
  authenticates, and what is sent to the server is the SMTP dialogue of the mail, in full and in order.
\<close>

theorem mail_buffer_exact:
  assumes "ml_connected nt t" "\<forall>n. ro n"
  shows "\<exists>ok t'. sendMail1 E ro nt m t = Some (ok, t')
    \<and> ml_sent t' = ml_sent t @ [NetSend (m_nConnectedFd t) (mail_text t m)]
    \<and> nContentSize t m = length (mail_text t m)"
  using sendMail1_spec [OF assms(1), of E ro m] assms(2) mail_size by blast

definition sample_mailer :: MPMailTransport where
  "sample_mailer = \<lparr>m_bConnectToPending = False, m_pSmtpHost = Some ''s'', m_nSmtpPort = 25,
     m_pHttpDomain = None, m_pEmail = Some ''me'', m_pAuthName64 = Some ''n'', m_pAuthPwd64 = Some ''p'',
     m_nConnectedFd = 3, m_oPendingMails = [], m_pTempBuff = [], m_bNeedToAuthenticate = True, ml_sent = []\<rparr>"

definition online :: MPNetTransport where
  "online = sample_transport\<lparr>nt_Peers := [(3, new_MPNetPeerStream 3 True)]\<rparr>"

lemma sample_online [simp]: "ml_connected online sample_mailer"
  by (simp add: ml_connected_def sample_mailer_def online_def MPNetFd_IsValid_def net_isConnected_def
      getPeerByFd_def map_find_def new_MPNetPeerStream_def)

theorem mail_buffer_exact_witness:
  "\<exists>ok t'. sendMail1 sample_net_env (\<lambda>_. True) online (new_MPMail None (Some ''you'') None ''hi'') sample_mailer
     = Some (ok, t')"
  using mail_buffer_exact [OF sample_online, of "\<lambda>_. True" sample_net_env] by fastforce

text \<open>The queue in one go.\<close>

lemma sendMail1_connected:
  "sendMail1 E ro nt m t = Some (ok, t') \<Longrightarrow> ml_connected nt t' = ml_connected nt t"
  by (auto simp: sendMail1_def ml_connected_def Let_def split: option.splits if_splits prod.splits)

lemma mail_text_no_auth:
  "m_bNeedToAuthenticate t' = m_bNeedToAuthenticate t \<Longrightarrow> m_pSmtpHost t' = m_pSmtpHost t \<Longrightarrow>
     m_pAuthName64 t' = m_pAuthName64 t \<Longrightarrow> m_pAuthPwd64 t' = m_pAuthPwd64 t \<Longrightarrow> mail_text t' m = mail_text t m"
  by (simp add: mail_text_def)

lemma send_queue_spec:
  assumes "ml_connected nt t" "\<forall>n. ro n" "\<forall>s. ne_send E (m_nConnectedFd t) s = int (length s)"
    and "\<not> m_bNeedToAuthenticate t"
  shows "\<exists>b. send_queue E ro nt ms t = Some (True,
      t\<lparr>m_oPendingMails := [], m_pTempBuff := b,
        ml_sent := ml_sent t @ map (\<lambda>m. NetSend (m_nConnectedFd t) (mail_text t m)) ms\<rparr>)"
  using assms
proof (induction ms arbitrary: t)
  case Nil
  show ?case by (rule exI [of _ "m_pTempBuff t"]) simp
next
  case (Cons m ms)
  let ?t0 = "t\<lparr>m_oPendingMails := ms\<rparr>"
  have c0: "ml_connected nt ?t0" using Cons.prems(1) by (simp add: ml_connected_def)
  obtain ok t1 where t1: "sendMail1 E ro nt m ?t0 = Some (ok, t1)"
    "ml_sent t1 = ml_sent ?t0 @ [NetSend (m_nConnectedFd ?t0) (mail_text ?t0 m)]"
    "t1 = ?t0\<lparr>m_pTempBuff := m_pTempBuff t1, ml_sent := ml_sent t1\<rparr>"
    "ml_sent t1 = ml_sent ?t0 \<and> \<not> ok \<or> (ok \<longleftrightarrow> ne_send E (m_nConnectedFd ?t0) (mail_text ?t0 m) = int (length (mail_text ?t0 m)))"
    using sendMail1_spec [OF c0, of E ro m] Cons.prems(2) by auto
  have ok: ok using t1(2,4) Cons.prems(3) by auto
  have mt: "mail_text ?t0 m = mail_text t m" by (simp add: mail_text_def)
  let ?t2 = "t1\<lparr>m_bNeedToAuthenticate := False\<rparr>"
  have fields: "m_nConnectedFd t1 = m_nConnectedFd t" "m_bNeedToAuthenticate t1 = m_bNeedToAuthenticate t"
    "m_pSmtpHost t1 = m_pSmtpHost t" "m_pAuthName64 t1 = m_pAuthName64 t" "m_pAuthPwd64 t1 = m_pAuthPwd64 t"
    by (subst t1(3), simp)+
  have eq: "?t2 = t\<lparr>m_oPendingMails := ms, m_pTempBuff := m_pTempBuff t1,
      ml_sent := ml_sent t @ [NetSend (m_nConnectedFd t) (mail_text t m)]\<rparr>"
    using t1(2) mt Cons.prems(4) by (subst t1(3)) simp
  have "ml_connected nt ?t2" "\<forall>s. ne_send E (m_nConnectedFd ?t2) s = int (length s)" "\<not> m_bNeedToAuthenticate ?t2"
    using Cons.prems(1,3) fields by (simp_all add: ml_connected_def)
  from Cons.IH [OF this(1) Cons.prems(2) this(2,3)] obtain b where
    b: "send_queue E ro nt ms ?t2 = Some (True, ?t2\<lparr>m_oPendingMails := [], m_pTempBuff := b,
        ml_sent := ml_sent ?t2 @ map (\<lambda>m. NetSend (m_nConnectedFd ?t2) (mail_text ?t2 m)) ms\<rparr>)" by blast
  have "mail_text ?t2 x = mail_text t x" for x
    using fields Cons.prems(4) by (intro mail_text_no_auth) simp_all
  then have "?t2\<lparr>m_oPendingMails := [], m_pTempBuff := b,
        ml_sent := ml_sent ?t2 @ map (\<lambda>m. NetSend (m_nConnectedFd ?t2) (mail_text ?t2 m)) ms\<rparr>
      = t\<lparr>m_oPendingMails := [], m_pTempBuff := b,
        ml_sent := ml_sent t @ map (\<lambda>m. NetSend (m_nConnectedFd t) (mail_text t m)) (m # ms)\<rparr>"
    unfolding eq by simp
  with b ok t1(1) Cons.prems(1) show ?case by auto
qed

text \<open>
  When the connection comes up and every send succeeds, all queued mails are sent, first come first
  served; the first one carries the authentication of the connection and the others do not, and the
  queue is empty afterwards.
\<close>

theorem pending_mails_flushed:
  assumes "m_oPendingMails t = m # ms" "np_bConnected p" "MPNetFd_IsValid (np_nFd p)" "net_isConnected nt (np_nFd p)"
    and "\<forall>n. ro n" "\<forall>s. ne_send E (np_nFd p) s = int (length s)"
  shows "\<exists>t'. mail_onConnectionStateChanged E ro nt p t = Some (True, t') \<and> m_oPendingMails t' = []
    \<and> \<not> m_bNeedToAuthenticate t' \<and> \<not> m_bConnectToPending t'
    \<and> ml_sent t' = ml_sent t @ NetSend (np_nFd p) (mail_text t m)
        # map (\<lambda>x. NetSend (np_nFd p) (mail_text (t\<lparr>m_bNeedToAuthenticate := False\<rparr>) x)) ms"
proof -
  let ?t0 = "t\<lparr>m_bConnectToPending := False, m_nConnectedFd := np_nFd p, m_oPendingMails := ms\<rparr>"
  have c0: "ml_connected nt ?t0" using assms(3,4) by (simp add: ml_connected_def)
  obtain ok t1 where t1: "sendMail1 E ro nt m ?t0 = Some (ok, t1)"
    "ml_sent t1 = ml_sent ?t0 @ [NetSend (m_nConnectedFd ?t0) (mail_text ?t0 m)]"
    "t1 = ?t0\<lparr>m_pTempBuff := m_pTempBuff t1, ml_sent := ml_sent t1\<rparr>"
    "ml_sent t1 = ml_sent ?t0 \<and> \<not> ok \<or> (ok \<longleftrightarrow> ne_send E (m_nConnectedFd ?t0) (mail_text ?t0 m) = int (length (mail_text ?t0 m)))"
    using sendMail1_spec [OF c0, of E ro m] assms(5) by auto
  have ok: ok using t1(2,4) assms(6) by auto
  have mt: "mail_text ?t0 m = mail_text t m" by (simp add: mail_text_def)
  let ?t2 = "t1\<lparr>m_bNeedToAuthenticate := False\<rparr>"
  have fields: "m_nConnectedFd ?t2 = np_nFd p" "\<not> m_bNeedToAuthenticate ?t2" "\<not> m_bConnectToPending ?t2"
    "ml_sent ?t2 = ml_sent t @ [NetSend (np_nFd p) (mail_text t m)]"
    "m_pSmtpHost ?t2 = m_pSmtpHost t"
    using t1(2) mt by simp_all (subst t1(3), simp)+
  have "ml_connected nt ?t2" "\<forall>s. ne_send E (m_nConnectedFd ?t2) s = int (length s)"
    using assms(3,4,6) fields by (simp_all add: ml_connected_def)
  from send_queue_spec [OF this(1) assms(5) this(2) fields(2), of ms] obtain b where
    b: "send_queue E ro nt ms ?t2 = Some (True, ?t2\<lparr>m_oPendingMails := [], m_pTempBuff := b,
        ml_sent := ml_sent ?t2 @ map (\<lambda>m. NetSend (m_nConnectedFd ?t2) (mail_text ?t2 m)) ms\<rparr>)" by blast
  have "mail_text ?t2 x = mail_text (t\<lparr>m_bNeedToAuthenticate := False\<rparr>) x" for x
    using fields by (simp add: mail_text_def)
  with b ok t1(1) assms(1-4) fields show ?thesis
    by (auto simp: mail_onConnectionStateChanged_def sendPendingMails_def ml_connected_def)
qed

theorem pending_mails_flushed_witness:
  "\<exists>t'. mail_onConnectionStateChanged sample_net_env (\<lambda>_. True) online (new_MPNetPeerStream 3 True)
     (sample_mailer\<lparr>m_oPendingMails := [new_MPMail None (Some ''you'') None ''hi'']\<rparr>) = Some (True, t')"
  using pending_mails_flushed [of "sample_mailer\<lparr>m_oPendingMails := [new_MPMail None (Some ''you'') None ''hi'']\<rparr>"
      "new_MPMail None (Some ''you'') None ''hi''" "[]" "new_MPNetPeerStream 3 True" online "\<lambda>_. True" sample_net_env]
  by (force simp: new_MPNetPeerStream_def MPNetFd_IsValid_def online_def net_isConnected_def getPeerByFd_def
      map_find_def sample_net_env_def)

text \<open>
  A failed attempt to connect is never repeated: once \<open>connectTo\<close> has returned an invalid
  descriptor, every later mail is queued and reported as sent, with no further attempt, until a
  connection event that nothing asked for arrives.
\<close>

theorem failed_connect_blocks_mail:
  assumes "\<not> ml_connected nt t" "\<not> m_bConnectToPending t" "dst \<noteq> None" "dst2 \<noteq> None" "d \<noteq> []" "d2 \<noteq> []"
    and "\<not> MPNetFd_IsValid (fst (connectTo E (m_pSmtpHost t) (m_nSmtpPort t) nt))"
  shows "\<exists>t1 t2. sendMail E ro nt dst subject (Some d) src t = Some (False, t1)
    \<and> sendMail E ro nt dst2 subject2 (Some d2) src2 t1 = Some (True, t2)
    \<and> ml_sent t2 = ml_sent t1 \<and> length (m_oPendingMails t2) = length (m_oPendingMails t) + 2"
  using assms by (auto simp: sendMail_def ml_connected_def Let_def case_prod_beta)

theorem failed_connect_blocks_mail_witness:
  "\<exists>t1 t2. sendMail sample_net_env (\<lambda>_. True) (sample_transport\<lparr>nt_bStarted := False\<rparr>) (Some ''a'') None (Some ''x'') None
       sample_mailer = Some (False, t1)
     \<and> sendMail sample_net_env (\<lambda>_. True) (sample_transport\<lparr>nt_bStarted := False\<rparr>) (Some ''b'') None (Some ''y'') None
       t1 = Some (True, t2)"
proof -
  let ?nt = "sample_transport\<lparr>nt_bStarted := False\<rparr>"
  have "\<not> ml_connected ?nt sample_mailer"
    by (simp add: ml_connected_def net_isConnected_def getPeerByFd_def map_find_def sample_transport_def)
  moreover have "\<not> m_bConnectToPending sample_mailer" by (simp add: sample_mailer_def)
  moreover have "\<not> MPNetFd_IsValid (fst (connectTo sample_net_env (m_pSmtpHost sample_mailer)
      (m_nSmtpPort sample_mailer) ?nt))"
    by (simp add: connectTo_def sample_mailer_def sample_transport_def)
  ultimately show ?thesis
    using failed_connect_blocks_mail [of ?nt sample_mailer "Some ''a''" "Some ''b''" "''x''" "''y''" sample_net_env
        "\<lambda>_. True" None None None None] by blast
qed

end
