(* ===== verification/Json.thy ===== *)
theory Json
  imports Registry "HOL-Library.Char_ord" "HOL-Library.List_Lexorder" "HOL-Library.Word"
begin

unbundle bit_operations_syntax

text \<open>
  The JSON library of the gateway (\<open>jsoncpp/jsoncpp.cc\<close>): the value type and the accessors the
  services use, the reader, and the fast writer. A failed \<open>assert\<close> and a thrown
  \<open>std::runtime_error\<close> are both None: neither is caught anywhere in the gateway. The text of comments
  is kept by the library for its styled writer only and is not modelled; neither is the list of
  error messages.
\<close>

section \<open>Values\<close>

text \<open>
  A double is represented by the decimal it was read from, mantissa and power of ten: no service of
  the gateway looks at one. The members of an object are a \<open>std::map\<close> ordered by \<open>strcmp\<close>, that is
  lexicographically by bytes; the elements of an array are contiguous from 0.
\<close>

type_synonym decimal = "int \<times> int"

datatype json =
    nullValue
  | intValue "64 word"
  | uintValue "64 word"
  | realValue decimal
  | stringValue string
  | booleanValue bool
  | arrayValue "json list"
  | objectValue "(string \<times> json) list"

text \<open>A \<open>std::string\<close> passed as a C string ends at its first NUL.\<close>

definition c_str :: "string \<Rightarrow> string" where
  "c_str s = takeWhile (\<lambda>c. c \<noteq> CHR 0x00) s"

definition isNull :: "json \<Rightarrow> bool" where "isNull v = (case v of nullValue \<Rightarrow> True | _ \<Rightarrow> False)"
definition isBool :: "json \<Rightarrow> bool" where "isBool v = (case v of booleanValue _ \<Rightarrow> True | _ \<Rightarrow> False)"
definition isString :: "json \<Rightarrow> bool" where "isString v = (case v of stringValue _ \<Rightarrow> True | _ \<Rightarrow> False)"

definition isIntegral :: "json \<Rightarrow> bool" where
  "isIntegral v = (case v of intValue _ \<Rightarrow> True | uintValue _ \<Rightarrow> True | booleanValue _ \<Rightarrow> True | _ \<Rightarrow> False)"

text \<open>Null counts as an empty array and as an empty object.\<close>

definition isArray :: "json \<Rightarrow> bool" where
  "isArray v = (case v of nullValue \<Rightarrow> True | arrayValue _ \<Rightarrow> True | _ \<Rightarrow> False)"

definition isObject :: "json \<Rightarrow> bool" where
  "isObject v = (case v of nullValue \<Rightarrow> True | objectValue _ \<Rightarrow> True | _ \<Rightarrow> False)"

text \<open>\<open>operator[]\<close> on a constant value: a missing member is null, any other type than null and object
fails an assertion.\<close>

definition json_get :: "json \<Rightarrow> string \<Rightarrow> json option" where
  "json_get v k =
     (case v of
        nullValue \<Rightarrow> Some nullValue
      | objectValue m \<Rightarrow> Some (case map_find m (c_str k) of None \<Rightarrow> nullValue | Some x \<Rightarrow> x)
      | _ \<Rightarrow> None)"

definition asCString :: "json \<Rightarrow> string option" where
  "asCString v = (case v of stringValue s \<Rightarrow> Some (c_str s) | _ \<Rightarrow> None)"

definition asString :: "json \<Rightarrow> string option" where
  "asString v =
     (case v of
        nullValue \<Rightarrow> Some ''''
      | stringValue s \<Rightarrow> Some (c_str s)
      | booleanValue b \<Rightarrow> Some (if b then ''true'' else ''false'')
      | _ \<Rightarrow> None)"

definition asBool :: "json \<Rightarrow> bool" where
  "asBool v =
     (case v of
        nullValue \<Rightarrow> False
      | intValue n \<Rightarrow> n \<noteq> 0
      | uintValue n \<Rightarrow> n \<noteq> 0
      | realValue d \<Rightarrow> fst d \<noteq> 0
      | booleanValue b \<Rightarrow> b
      | stringValue s \<Rightarrow> c_str s \<noteq> []
      | arrayValue vs \<Rightarrow> vs \<noteq> []
      | objectValue m \<Rightarrow> m \<noteq> [])"

text \<open>
  \<open>asInt64\<close>, as the services use it, on values that passed \<open>isIntegral\<close>: an unsigned value above
  \<open>maxInt64\<close> throws. The conversion of a double, which goes through a 32-bit \<open>Int\<close>, is left out: it is
  None here, and no service reaches it.
\<close>

definition asInt64 :: "json \<Rightarrow> 64 word option" where
  "asInt64 v =
     (case v of
        nullValue \<Rightarrow> Some 0
      | intValue n \<Rightarrow> Some n
      | uintValue n \<Rightarrow> if n \<le> 0x7FFFFFFFFFFFFFFF then Some n else None
      | booleanValue b \<Rightarrow> Some (if b then 1 else 0)
      | _ \<Rightarrow> None)"

section \<open>Characters and tokens\<close>

datatype TokenType =
    tokenEndOfStream
  | tokenObjectBegin
  | tokenObjectEnd
  | tokenArrayBegin
  | tokenArrayEnd
  | tokenString
  | tokenNumber
  | tokenTrue
  | tokenFalse
  | tokenNull
  | tokenArraySeparator
  | tokenMemberSeparator
  | tokenComment
  | tokenError

text \<open>
  The reader's position is the rest of the document. \<open>after\<close> is the byte behind the document, which
  \<open>*current_\<close> gives at its end.
\<close>

fun getNextChar :: "string \<Rightarrow> char \<times> string" where
  "getNextChar [] = (CHR 0x00, [])"
| "getNextChar (c # s) = (c, s)"

lemma getNextChar_length [termination_simp]: "length (snd (getNextChar s)) < Suc (length s)"
  by (cases s) auto

definition current_char :: "char \<Rightarrow> string \<Rightarrow> char" where
  "current_char after s = (case s of [] \<Rightarrow> after | c # _ \<Rightarrow> c)"

definition skipSpaces :: "string \<Rightarrow> string" where
  "skipSpaces s = dropWhile (\<lambda>c. c = CHR 0x20 \<or> c = CHR 0x09 \<or> c = CR \<or> c = LF) s"

definition match :: "string \<Rightarrow> string \<Rightarrow> bool \<times> string" where
  "match p s = (if take (length p) s = p then (True, drop (length p) s) else (False, s))"

fun readCStyleComment :: "char \<Rightarrow> string \<Rightarrow> bool \<times> string" where
  "readCStyleComment after [] = (False, [])"
| "readCStyleComment after (c # s) =
     (if c = CHR ''*'' \<and> current_char after s = CHR ''/''
      then (fst (getNextChar s) = CHR ''/'', snd (getNextChar s))
      else readCStyleComment after s)"

fun readCppStyleComment :: "string \<Rightarrow> bool \<times> string" where
  "readCppStyleComment [] = (True, [])"
| "readCppStyleComment (c # s) = (if c = CR \<or> c = LF then (True, s) else readCppStyleComment s)"

definition readComment :: "char \<Rightarrow> string \<Rightarrow> bool \<times> string" where
  "readComment after s =
     (let (c, r) = getNextChar s in
      if c = CHR ''*'' then readCStyleComment after r
      else if c = CHR ''/'' then readCppStyleComment r
      else (False, r))"

definition is_digit :: "char \<Rightarrow> bool" where
  "is_digit c \<longleftrightarrow> CHR ''0'' \<le> c \<and> c \<le> CHR ''9''"

definition readNumber :: "string \<Rightarrow> string" where
  "readNumber s = dropWhile (\<lambda>c. is_digit c \<or> c \<in> set ''.eE+-'') s"

text \<open>The loop of \<open>readString\<close>, with the last character read.\<close>

fun readString :: "char \<Rightarrow> string \<Rightarrow> bool \<times> string" where
  "readString c [] = (c = dquote, [])"
| "readString c (d # s) =
     (if d = CHR 0x5C then readString d (snd (getNextChar s))
      else if d = dquote then (True, s)
      else readString d s)"

text \<open>A token is its type and its text; \<open>readToken\<close> itself always succeeds.\<close>

definition scan_token :: "char \<Rightarrow> char \<Rightarrow> string \<Rightarrow> TokenType \<times> string" where
  "scan_token after c r =
     (if c = CHR ''{'' then (tokenObjectBegin, r)
      else if c = CHR ''}'' then (tokenObjectEnd, r)
      else if c = CHR ''['' then (tokenArrayBegin, r)
      else if c = CHR '']'' then (tokenArrayEnd, r)
      else if c = dquote
      then let (ok, r1) = readString (CHR 0x00) r in (if ok then tokenString else tokenError, r1)
      else if c = CHR ''/''
      then let (ok, r1) = readComment after r in (if ok then tokenComment else tokenError, r1)
      else if is_digit c \<or> c = CHR ''-'' then (tokenNumber, readNumber r)
      else if c = CHR ''t'' then let (ok, r1) = match ''rue'' r in (if ok then tokenTrue else tokenError, r1)
      else if c = CHR ''f'' then let (ok, r1) = match ''alse'' r in (if ok then tokenFalse else tokenError, r1)
      else if c = CHR ''n'' then let (ok, r1) = match ''ull'' r in (if ok then tokenNull else tokenError, r1)
      else if c = CHR '','' then (tokenArraySeparator, r)
      else if c = CHR '':'' then (tokenMemberSeparator, r)
      else if c = CHR 0x00 then (tokenEndOfStream, r)
      else (tokenError, r))"

definition readToken :: "char \<Rightarrow> string \<Rightarrow> (TokenType \<times> string) \<times> string" where
  "readToken after s =
     (let s1 = skipSpaces s;
          (c, r) = getNextChar s1;
          (t, r1) = scan_token after c r
      in ((t, take (length s1 - length r1) s1), r1))"

subsection \<open>A token that is not the end of the stream consumes input\<close>

lemma readCStyleComment_length: "length (snd (readCStyleComment after s)) \<le> length s"
proof (induction after s rule: readCStyleComment.induct)
  case (2 after c s)
  then show ?case by (cases s) auto
qed simp

lemma readCppStyleComment_length: "length (snd (readCppStyleComment s)) \<le> length s"
  by (induction s rule: readCppStyleComment.induct) auto

lemma readString_length: "length (snd (readString c s)) \<le> length s"
proof (induction c s rule: readString.induct)
  case (2 c d s)
  then show ?case by (cases s) auto
qed simp

lemma readComment_length: "length (snd (readComment after s)) \<le> length s"
proof (cases s)
  case Nil
  then show ?thesis by (simp add: readComment_def)
next
  case (Cons c r)
  then show ?thesis
    using readCStyleComment_length [of after r] readCppStyleComment_length [of r]
    by (auto simp: readComment_def)
qed

lemma match_length: "length (snd (match p s)) \<le> length s"
  by (simp add: match_def)

lemma readNumber_length: "length (readNumber r) \<le> length r"
  by (simp add: readNumber_def length_dropWhile_le)

lemmas reader_lengths = readComment_length readString_length match_length readNumber_length

lemma scan_token_length: "length (snd (scan_token after c r)) \<le> length r"
  by (simp add: scan_token_def case_prod_beta Let_def reader_lengths)

lemma skipSpaces_length: "length (skipSpaces s) \<le> length s"
  by (simp add: skipSpaces_def length_dropWhile_le)

lemma readToken_length: "length (snd (readToken after s)) \<le> length s"
proof -
  have "length (snd (getNextChar (skipSpaces s))) \<le> length s"
    using skipSpaces_length [of s] by (cases "skipSpaces s") auto
  with scan_token_length [of after "fst (getNextChar (skipSpaces s))" "snd (getNextChar (skipSpaces s))"]
  show ?thesis by (simp add: readToken_def case_prod_beta Let_def)
qed

lemma readToken_less:
  assumes "fst (fst (readToken after s)) \<noteq> tokenEndOfStream"
  shows "length (snd (readToken after s)) < length s"
proof (cases "skipSpaces s")
  case Nil
  with assms show ?thesis by (simp add: readToken_def scan_token_def is_digit_def)
next
  case (Cons c r)
  then have "length (snd (readToken after s)) \<le> length r"
    using scan_token_length [of after c r] by (simp add: readToken_def case_prod_beta Let_def)
  also have "length r < length s" using skipSpaces_length [of s] Cons by simp
  finally show ?thesis .
qed

lemma readToken_consumes:
  "(tok, r) = readToken after s \<Longrightarrow> fst tok \<noteq> tokenEndOfStream \<Longrightarrow> length r < length s"
  using readToken_less [of after s] by (cases "readToken after s") auto

section \<open>Decoding of strings\<close>

definition codePointToUTF8 :: "32 word \<Rightarrow> string" where
  "codePointToUTF8 cp =
     (let byte = (\<lambda>w :: 32 word. char_of (unat w)) in
      if cp \<le> 0x7F then [byte cp]
      else if cp \<le> 0x7FF then [byte (0xC0 OR (0x1F AND drop_bit 6 cp)), byte (0x80 OR (0x3F AND cp))]
      else if cp \<le> 0xFFFF
      then [byte (0xE0 OR (0xF AND drop_bit 12 cp)), byte (0x80 OR (0x3F AND drop_bit 6 cp)),
            byte (0x80 OR (0x3F AND cp))]
      else if cp \<le> 0x10FFFF
      then [byte (0xF0 OR (0x7 AND drop_bit 18 cp)), byte (0x80 OR (0x3F AND drop_bit 12 cp)),
            byte (0x80 OR (0x3F AND drop_bit 6 cp)), byte (0x80 OR (0x3F AND cp))]
      else [])"

definition hex_digit :: "char \<Rightarrow> 32 word option" where
  "hex_digit c =
     (let n = of_char c :: nat in
      if is_digit c then Some (of_nat (n - 48))
      else if CHR ''a'' \<le> c \<and> c \<le> CHR ''f'' then Some (of_nat (n - 97 + 10))
      else if CHR ''A'' \<le> c \<and> c \<le> CHR ''F'' then Some (of_nat (n - 65 + 10))
      else None)"

fun hex_digits :: "string \<Rightarrow> 32 word \<Rightarrow> 32 word option" where
  "hex_digits [] acc = Some acc"
| "hex_digits (c # s) acc = (case hex_digit c of None \<Rightarrow> None | Some d \<Rightarrow> hex_digits s (acc * 16 + d))"

definition decodeUnicodeEscapeSequence :: "string \<Rightarrow> (32 word \<times> string) option" where
  "decodeUnicodeEscapeSequence s =
     (if length s < 4 then None
      else case hex_digits (take 4 s) 0 of None \<Rightarrow> None | Some u \<Rightarrow> Some (u, drop 4 s))"

definition decodeUnicodeCodePoint :: "string \<Rightarrow> (32 word \<times> string) option" where
  "decodeUnicodeCodePoint s =
     (case decodeUnicodeEscapeSequence s of
        None \<Rightarrow> None
      | Some (unicode, r) \<Rightarrow>
          if 0xD800 \<le> unicode \<and> unicode \<le> 0xDBFF
          then if length r < 6 then None
               else if take 2 r = [CHR 0x5C, CHR ''u'']
               then (case decodeUnicodeEscapeSequence (drop 2 r) of
                       None \<Rightarrow> None
                     | Some (surrogatePair, r2) \<Rightarrow>
                         Some (0x10000 + push_bit 10 (unicode AND 0x3FF) + (surrogatePair AND 0x3FF), r2))
               else None
          else Some (unicode, r))"

lemma decodeUnicodeCodePoint_length [termination_simp]:
  "decodeUnicodeCodePoint s = Some (u, r) \<Longrightarrow> length r < Suc (Suc (length s))"
  by (auto simp: decodeUnicodeCodePoint_def decodeUnicodeEscapeSequence_def
      split: if_splits option.splits)

definition simple_escape :: "char \<Rightarrow> char option" where
  "simple_escape e =
     (if e = dquote then Some dquote
      else if e = CHR ''/'' then Some (CHR ''/'')
      else if e = CHR 0x5C then Some (CHR 0x5C)
      else if e = CHR ''b'' then Some (CHR 0x08)
      else if e = CHR ''f'' then Some (CHR 0x0C)
      else if e = CHR ''n'' then Some LF
      else if e = CHR ''r'' then Some CR
      else if e = CHR ''t'' then Some (CHR 0x09)
      else None)"

text \<open>The loop over the characters between the quotes.\<close>

fun decode_chars :: "string \<Rightarrow> string option" where
  "decode_chars [] = Some []"
| "decode_chars (c # s) =
     (if c = dquote then Some []
      else if c = CHR 0x5C
      then (case s of
              [] \<Rightarrow> None
            | e # r \<Rightarrow>
                if e = CHR ''u''
                then (case decodeUnicodeCodePoint r of
                        None \<Rightarrow> None
                      | Some (u, r2) \<Rightarrow> map_option (\<lambda>t. codePointToUTF8 u @ t) (decode_chars r2))
                else (case simple_escape e of
                        None \<Rightarrow> None
                      | Some d \<Rightarrow> map_option (\<lambda>t. d # t) (decode_chars r)))
      else map_option (\<lambda>t. c # t) (decode_chars s))"

definition decodeString :: "string \<Rightarrow> string option" where
  "decodeString token = decode_chars (butlast (tl token))"

section \<open>Decoding of numbers\<close>

text \<open>
  \<open>sscanf\<close> with \<open>%lf\<close> on the characters a number token is made of: sign, digits with an optional
  point, and an exponent. By the C standard an item that ends in the middle of an exponent does not
  match.
\<close>

fun digits_value :: "string \<Rightarrow> int \<Rightarrow> int" where
  "digits_value [] acc = acc"
| "digits_value (c # s) acc = digits_value s (acc * 10 + (of_char c - 48))"

definition scan_exponent :: "string \<Rightarrow> int option" where
  "scan_exponent s =
     (let neg = (take 1 s = ''-'');
          r = (if take 1 s = ''-'' \<or> take 1 s = ''+'' then drop 1 s else s);
          ds = takeWhile is_digit r
      in if ds = [] then None else Some (if neg then - digits_value ds 0 else digits_value ds 0))"

definition scan_lf :: "string \<Rightarrow> decimal option" where
  "scan_lf s =
     (let neg = (take 1 s = ''-'');
          r0 = (if take 1 s = ''-'' \<or> take 1 s = ''+'' then drop 1 s else s);
          whole = takeWhile is_digit r0;
          r1 = dropWhile is_digit r0;
          frac = (if take 1 r1 = ''.'' then takeWhile is_digit (drop 1 r1) else []);
          r2 = (if take 1 r1 = ''.'' then dropWhile is_digit (drop 1 r1) else r1);
          m = digits_value (whole @ frac) 0;
          mantissa = (if neg then - m else m);
          scale = - int (length frac)
      in if whole @ frac = [] then None
         else if take 1 r2 = ''e'' \<or> take 1 r2 = ''E''
         then map_option (\<lambda>e. (mantissa, e + scale)) (scan_exponent (drop 1 r2))
         else Some (mantissa, scale))"

definition decodeDouble :: "string \<Rightarrow> json option" where
  "decodeDouble token = map_option realValue (scan_lf token)"

text \<open>The digits loop: the value in 64 bits, or the fallback to a double, or not a number.\<close>

datatype digits_result = DigitsValue "64 word" | DigitsDouble | DigitsError

fun decode_digits :: "64 word \<Rightarrow> 64 word \<Rightarrow> string \<Rightarrow> 64 word \<Rightarrow> digits_result" where
  "decode_digits threshold lastDigitThreshold [] v = DigitsValue v"
| "decode_digits threshold lastDigitThreshold (c # s) v =
     (if \<not> is_digit c then DigitsError
      else let digit = of_nat (of_char c - 48) in
        if threshold \<le> v \<and> (s \<noteq> [] \<or> lastDigitThreshold < digit) then DigitsDouble
        else decode_digits threshold lastDigitThreshold s (v * 10 + digit))"

definition decodeNumber :: "string \<Rightarrow> json option" where
  "decodeNumber token =
     (if (\<exists>c \<in> set token. c \<in> set ''.eE+'') \<or> CHR ''-'' \<in> set (tl token) then decodeDouble token
      else
        let isNegative = (take 1 token = ''-'');
            maxIntegerValue = (if isNegative then 0x8000000000000000 else 0xFFFFFFFFFFFFFFFF);
            ds = (if isNegative then tl token else token)
        in case decode_digits (maxIntegerValue div 10) (maxIntegerValue mod 10) ds 0 of
             DigitsError \<Rightarrow> None
           | DigitsDouble \<Rightarrow> decodeDouble token
           | DigitsValue v \<Rightarrow>
               Some (if isNegative then intValue (- v)
                     else if v \<le> 0x7FFFFFFF then intValue v
                     else uintValue v))"

section \<open>The reader\<close>

text \<open>\<open>skipCommentTokens\<close>, and the loops that skip comments inside objects and arrays.\<close>

function skipCommentTokens :: "char \<Rightarrow> string \<Rightarrow> (TokenType \<times> string) \<times> string" where
  "skipCommentTokens after s =
     (let (tok, r) = readToken after s in
      if fst tok = tokenComment then skipCommentTokens after r else (tok, r))"
  by pat_completeness auto

termination skipCommentTokens
  by (relation "measure (\<lambda>(after, s). length s)") (auto dest: readToken_consumes)

function recoverFromError :: "char \<Rightarrow> TokenType \<Rightarrow> string \<Rightarrow> string" where
  "recoverFromError after skipUntilToken s =
     (let (tok, r) = readToken after s in
      if fst tok = skipUntilToken \<or> fst tok = tokenEndOfStream then r
      else recoverFromError after skipUntilToken r)"
  by pat_completeness auto

termination recoverFromError
  by (relation "measure (\<lambda>(after, t, s). length s)") (auto dest: readToken_consumes)

declare skipCommentTokens.simps [simp del]
declare recoverFromError.simps [simp del]

text \<open>\<open>currentValue()[name]\<close> gives the member, a new null one when it is missing, and the value read
is assigned to it.\<close>

definition set_member :: "string \<Rightarrow> json \<Rightarrow> (string \<times> json) list \<Rightarrow> (string \<times> json) list" where
  "set_member k v m = map_modify k (\<lambda>_. v) (map_insert k nullValue m)"

text \<open>
  One round of the loop of \<open>readObject\<close>, before and after the value is read. It is given the last
  member name: the test for an empty object is made on the name, so it also succeeds after a member
  whose name is empty. After a comment any token but the closing brace is taken for the comma.
\<close>

datatype member_head = EmptyObject string | Member string string | BadMember string

definition read_member_name :: "char \<Rightarrow> string \<Rightarrow> string \<Rightarrow> member_head" where
  "read_member_name after name s =
     (let ((t, text), r) = skipCommentTokens after s in
      if t = tokenObjectEnd \<and> name = [] then EmptyObject r
      else if t \<noteq> tokenString then BadMember (recoverFromError after tokenObjectEnd r)
      else case decodeString text of
        None \<Rightarrow> BadMember (recoverFromError after tokenObjectEnd r)
      | Some name1 \<Rightarrow>
          let (colon, r1) = readToken after r in
          if fst colon \<noteq> tokenMemberSeparator then BadMember (recoverFromError after tokenObjectEnd r1)
          else Member name1 r1)"

datatype separator = More string | Done string | BadSeparator string

definition read_member_end :: "char \<Rightarrow> string \<Rightarrow> separator" where
  "read_member_end after s =
     (let (comma, r) = readToken after s in
      if fst comma \<notin> {tokenObjectEnd, tokenArraySeparator, tokenComment}
      then BadSeparator (recoverFromError after tokenObjectEnd r)
      else let (comma1, r1) = (if fst comma = tokenComment then skipCommentTokens after r else (comma, r))
           in if fst comma1 = tokenObjectEnd then Done r1 else More r1)"

definition read_element_end :: "char \<Rightarrow> string \<Rightarrow> separator" where
  "read_element_end after s =
     (let (tok, r) = skipCommentTokens after s in
      if fst tok \<noteq> tokenArraySeparator \<and> fst tok \<noteq> tokenArrayEnd
      then BadSeparator (recoverFromError after tokenArrayEnd r)
      else if fst tok = tokenArrayEnd then Done r else More r)"

text \<open>The values that are one token.\<close>

definition read_scalar :: "TokenType \<Rightarrow> string \<Rightarrow> json option" where
  "read_scalar t text =
     (if t = tokenNumber then decodeNumber text
      else if t = tokenString then map_option stringValue (decodeString text)
      else if t = tokenTrue then Some (booleanValue True)
      else if t = tokenFalse then Some (booleanValue False)
      else if t = tokenNull then Some nullValue
      else None)"

text \<open>
  \<open>readValue\<close>, \<open>readObject\<close> and \<open>readArray\<close> call each other; the first argument bounds the depth of
  the calls, None is running out of it. The result is the value, None after an error, and the rest of
  the document.
\<close>

fun readValue :: "nat \<Rightarrow> char \<Rightarrow> string \<Rightarrow> (json option \<times> string) option"
and readObject :: "nat \<Rightarrow> char \<Rightarrow> string \<Rightarrow> (string \<times> json) list \<Rightarrow> string \<Rightarrow> (json option \<times> string) option"
and readArray :: "nat \<Rightarrow> char \<Rightarrow> json list \<Rightarrow> string \<Rightarrow> (json option \<times> string) option" where
  "readValue 0 after s = None"
| "readValue (Suc n) after s =
     (let (tok, r) = skipCommentTokens after s; r1 = skipSpaces r in
      if fst tok = tokenObjectBegin then readObject n after [] [] r
      else if fst tok = tokenArrayBegin
      then (if current_char after r1 = CHR '']'' then Some (Some (arrayValue []), snd (readToken after r1))
            else readArray n after [] r1)
      else Some (read_scalar (fst tok) (snd tok), r))"
| "readObject 0 after name m s = None"
| "readObject (Suc n) after name m s =
     (case read_member_name after name s of
        EmptyObject r \<Rightarrow> Some (Some (objectValue m), r)
      | BadMember r \<Rightarrow> Some (None, r)
      | Member name1 r1 \<Rightarrow>
          (case readValue n after r1 of
             None \<Rightarrow> None
           | Some (None, r2) \<Rightarrow> Some (None, recoverFromError after tokenObjectEnd r2)
           | Some (Some v, r2) \<Rightarrow>
               (case read_member_end after r2 of
                  BadSeparator r3 \<Rightarrow> Some (None, r3)
                | Done r3 \<Rightarrow> Some (Some (objectValue (set_member (c_str name1) v m)), r3)
                | More r3 \<Rightarrow> readObject n after name1 (set_member (c_str name1) v m) r3)))"
| "readArray 0 after vs s = None"
| "readArray (Suc n) after vs s =
     (case readValue n after s of
        None \<Rightarrow> None
      | Some (None, r) \<Rightarrow> Some (None, recoverFromError after tokenArrayEnd r)
      | Some (Some v, r) \<Rightarrow>
          (case read_element_end after r of
             BadSeparator r1 \<Rightarrow> Some (None, r1)
           | Done r1 \<Rightarrow> Some (Some (arrayValue (vs @ [v])), r1)
           | More r1 \<Rightarrow> readArray n after (vs @ [v]) r1))"

text \<open>\<open>parse\<close>: what follows the first value is not looked at.\<close>

definition json_fuel :: "string \<Rightarrow> nat" where
  "json_fuel s = 2 * length s + 2"

definition json_parse :: "char \<Rightarrow> string \<Rightarrow> json option" where
  "json_parse after doc =
     (case readValue (json_fuel doc) after doc of None \<Rightarrow> None | Some (v, r) \<Rightarrow> v)"

section \<open>The reader always returns\<close>

lemma skipCommentTokens_length: "length (snd (skipCommentTokens after s)) \<le> length s"
proof (induction after s rule: skipCommentTokens.induct)
  case (1 after s)
  obtain tok r where t: "readToken after s = (tok, r)" by fastforce
  then have "length r \<le> length s" using readToken_length [of after s] by simp
  with "1.IH" [OF t [symmetric] refl] show ?case
    by (subst skipCommentTokens.simps) (auto simp: t)
qed

lemma skipCommentTokens_less:
  "fst (fst (skipCommentTokens after s)) \<noteq> tokenEndOfStream \<Longrightarrow>
     length (snd (skipCommentTokens after s)) < length s"
proof (induction after s rule: skipCommentTokens.induct)
  case (1 after s)
  show ?case
  proof (cases "fst (fst (readToken after s)) = tokenComment")
    case True
    then have "length (snd (readToken after s)) < length s" by (intro readToken_less) simp
    then show ?thesis
      using True skipCommentTokens_length [of after "snd (readToken after s)"]
      by (subst skipCommentTokens.simps) (simp add: Let_def case_prod_beta)
  next
    case False
    then have "skipCommentTokens after s = readToken after s"
      by (subst skipCommentTokens.simps) (simp add: Let_def case_prod_beta)
    with "1.prems" show ?thesis by (simp add: readToken_less)
  qed
qed

lemma recoverFromError_length: "length (recoverFromError after t s) \<le> length s"
proof (induction after t s rule: recoverFromError.induct)
  case (1 after t s)
  obtain tok r where t: "readToken after s = (tok, r)" by fastforce
  then have "length r \<le> length s" using readToken_length [of after s] by simp
  with "1.IH" [OF t [symmetric] refl] show ?case
    by (subst recoverFromError.simps) (auto simp: t)
qed

lemma read_member_name_length:
  "case read_member_name after name s of
     EmptyObject r \<Rightarrow> length r < length s | Member _ r \<Rightarrow> length r + 2 \<le> length s | BadMember r \<Rightarrow> length r \<le> length s"
  using skipCommentTokens_length [of after s] skipCommentTokens_less [of after s]
    readToken_length [of after "snd (skipCommentTokens after s)"]
    readToken_less [of after "snd (skipCommentTokens after s)"]
    recoverFromError_length [of after tokenObjectEnd "snd (skipCommentTokens after s)"]
    recoverFromError_length [of after tokenObjectEnd "snd (readToken after (snd (skipCommentTokens after s)))"]
  by (auto simp: read_member_name_def Let_def case_prod_beta split: option.split)

lemma read_member_end_length:
  "case read_member_end after s of More r \<Rightarrow> length r < length s | Done r \<Rightarrow> length r < length s
     | BadSeparator r \<Rightarrow> length r \<le> length s"
  using readToken_length [of after s] readToken_less [of after s]
    skipCommentTokens_length [of after "snd (readToken after s)"]
    recoverFromError_length [of after tokenObjectEnd "snd (readToken after s)"]
  by (auto simp: read_member_end_def Let_def case_prod_beta)

lemma read_element_end_length:
  "case read_element_end after s of More r \<Rightarrow> length r < length s | Done r \<Rightarrow> length r < length s
     | BadSeparator r \<Rightarrow> length r \<le> length s"
  using skipCommentTokens_length [of after s] skipCommentTokens_less [of after s]
    recoverFromError_length [of after tokenArrayEnd "snd (skipCommentTokens after s)"]
  by (simp add: read_element_end_def Let_def case_prod_beta)

text \<open>What every result of the three functions satisfies: a value costs at least one character.\<close>

definition reads :: "(json option \<times> string) option \<Rightarrow> string \<Rightarrow> bool" where
  "reads x s \<longleftrightarrow> (\<exists>v r. x = Some (v, r) \<and> length r \<le> length s \<and> (v \<noteq> None \<longrightarrow> length r < length s))"

lemma readsE:
  assumes "reads x s"
  obtains r where "x = Some (None, r)" "length r \<le> length s"
  | v r where "x = Some (Some v, r)" "length r < length s"
proof -
  from assms obtain v r where x: "x = Some (v, r)" "length r \<le> length s" "v \<noteq> None \<longrightarrow> length r < length s"
    by (auto simp: reads_def)
  then show ?thesis using that by (cases v) auto
qed

lemma reads_shorter: "reads x r \<Longrightarrow> length r \<le> length s \<Longrightarrow> reads x s"
  by (auto simp: reads_def)

lemma read_scalar_reads:
  "length r \<le> length s \<Longrightarrow> t = tokenEndOfStream \<or> length r < length s \<Longrightarrow> reads (Some (read_scalar t text, r)) s"
  by (auto simp: reads_def read_scalar_def)

lemma readObject_reads:
  assumes v: "\<And>s. 2 * length s + 1 \<le> n \<Longrightarrow> reads (readValue n after s) s"
    and obj: "\<And>name m s. 2 * length s + 1 \<le> n \<Longrightarrow> reads (readObject n after name m s) s"
    and len: "2 * length s + 1 \<le> Suc n"
  shows "reads (readObject (Suc n) after name m s) s"
proof (cases "read_member_name after name s")
  case (Member name1 r1)
  have r1: "length r1 + 2 \<le> length s"
    using read_member_name_length [of s after name] Member by simp
  with len have "2 * length r1 + 1 \<le> n" by simp
  then have "reads (readValue n after r1) r1" by (rule v)
  then show ?thesis
  proof (cases rule: readsE)
    case (1 r2)
    then show ?thesis
      using Member r1 recoverFromError_length [of after tokenObjectEnd r2] by (simp add: reads_def)
  next
    case (2 x r2)
    show ?thesis
    proof (cases "read_member_end after r2")
      case (More r3)
      then have "length r3 < length r2" using read_member_end_length [of r2 after] by simp
      then show ?thesis
        using More Member 2 r1 len obj [of r3] by (auto intro!: reads_shorter [of _ r3 s])
    next
      case (Done r3)
      then show ?thesis using read_member_end_length [of r2 after] Member 2 r1 by (simp add: reads_def)
    next
      case (BadSeparator r3)
      then show ?thesis using read_member_end_length [of r2 after] Member 2 r1 by (simp add: reads_def)
    qed
  qed
qed (use read_member_name_length [of s after name] in \<open>auto simp: reads_def\<close>)

lemma readArray_reads:
  assumes v: "\<And>s. 2 * length s + 1 \<le> n \<Longrightarrow> reads (readValue n after s) s"
    and arr: "\<And>vs s. 2 * length s + 2 \<le> n \<Longrightarrow> reads (readArray n after vs s) s"
    and len: "2 * length s + 2 \<le> Suc n"
  shows "reads (readArray (Suc n) after vs s) s"
proof -
  from len have "reads (readValue n after s) s" by (intro v) simp
  then show ?thesis
  proof (cases rule: readsE)
    case (1 r)
    then show ?thesis using recoverFromError_length [of after tokenArrayEnd r] by (simp add: reads_def)
  next
    case (2 x r)
    show ?thesis
    proof (cases "read_element_end after r")
      case (More r1)
      then have "length r1 < length r" using read_element_end_length [of r after] by simp
      then show ?thesis using More 2 len arr [of r1] by (auto intro!: reads_shorter [of _ r1 s])
    next
      case (Done r1)
      then show ?thesis using read_element_end_length [of r after] 2 by (simp add: reads_def)
    next
      case (BadSeparator r1)
      then show ?thesis using read_element_end_length [of r after] 2 by (simp add: reads_def)
    qed
  qed
qed

lemma readValue_reads:
  assumes obj: "\<And>name m s. 2 * length s + 1 \<le> n \<Longrightarrow> reads (readObject n after name m s) s"
    and arr: "\<And>vs s. 2 * length s + 2 \<le> n \<Longrightarrow> reads (readArray n after vs s) s"
    and len: "2 * length s + 1 \<le> Suc n"
  shows "reads (readValue (Suc n) after s) s"
proof -
  obtain t tx r where tok: "skipCommentTokens after s = ((t, tx), r)"
    by (metis prod.exhaust)
  have le: "length r \<le> length s" and less: "t = tokenEndOfStream \<or> length r < length s"
    using skipCommentTokens_length [of after s] skipCommentTokens_less [of after s] tok by auto
  consider "t = tokenObjectBegin" | "t = tokenArrayBegin" | "t \<noteq> tokenObjectBegin" "t \<noteq> tokenArrayBegin" by blast
  then show ?thesis
  proof cases
    case 1
    with less len obj [of r "[]" "[]"] have "reads (readObject n after [] [] r) r" by simp
    with 1 tok le show ?thesis by (simp add: Let_def reads_shorter)
  next
    case 2
    have r1: "length (skipSpaces r) \<le> length r" by (rule skipSpaces_length)
    from 2 less have lt: "length r < length s" by simp
    from lt r1 len arr [of "skipSpaces r" "[]"] have "reads (readArray n after [] (skipSpaces r)) (skipSpaces r)" by simp
    then have "reads (readArray n after [] (skipSpaces r)) s" using r1 le by (auto elim: reads_shorter)
    moreover have "length (snd (readToken after (skipSpaces r))) < length s"
      using readToken_length [of after "skipSpaces r"] r1 lt by linarith
    ultimately show ?thesis using 2 tok by (simp add: Let_def reads_def)
  next
    case 3
    then show ?thesis using tok le less by (simp add: Let_def read_scalar_reads)
  qed
qed

lemma reader_returns:
  "(\<forall>s. 2 * length s + 1 \<le> n \<longrightarrow> reads (readValue n after s) s)
   \<and> (\<forall>name m s. 2 * length s + 1 \<le> n \<longrightarrow> reads (readObject n after name m s) s)
   \<and> (\<forall>vs s. 2 * length s + 2 \<le> n \<longrightarrow> reads (readArray n after vs s) s)"
proof (induction n)
  case (Suc n)
  then show ?case by (blast intro: readValue_reads readObject_reads readArray_reads)
qed simp

lemma readValue_returns: "2 * length s + 1 \<le> n \<Longrightarrow> reads (readValue n after s) s"
  using reader_returns [of n after] by blast

text \<open>More depth changes nothing.\<close>

lemma reader_more:
  "(\<forall>s x. readValue n after s = Some x \<longrightarrow> readValue (Suc n) after s = Some x)
   \<and> (\<forall>name m s x. readObject n after name m s = Some x \<longrightarrow> readObject (Suc n) after name m s = Some x)
   \<and> (\<forall>vs s x. readArray n after vs s = Some x \<longrightarrow> readArray (Suc n) after vs s = Some x)"
proof (induction n)
  case (Suc n)
  have v: "readValue (Suc n) after s = Some x" if "readValue n after s = Some x" for s x
    using Suc that by blast
  have o: "readObject (Suc n) after name m s = Some x" if "readObject n after name m s = Some x" for name m s x
    using Suc that by blast
  have a: "readArray (Suc n) after vs s = Some x" if "readArray n after vs s = Some x" for vs s x
    using Suc that by blast
  have "readValue (Suc (Suc n)) after s = Some x" if "readValue (Suc n) after s = Some x" for s x
    using that by (subst readValue.simps) (auto simp: Let_def case_prod_beta o a simp del: readObject.simps readArray.simps split: if_splits)
  moreover have "readObject (Suc (Suc n)) after name m s = Some x" if r: "readObject (Suc n) after name m s = Some x" for name m s x
  proof (cases "\<exists>nm r1 y. read_member_name after name s = Member nm r1 \<and> readValue n after r1 = Some y")
    case True
    then obtain nm r1 y where *: "read_member_name after name s = Member nm r1" "readValue n after r1 = Some y" by blast
    show ?thesis
      by (subst readObject.simps(2))
        (use r [unfolded readObject.simps(2) [of n]] * v [OF *(2)] in
          \<open>auto simp del: readValue.simps readObject.simps split: prod.splits option.splits separator.splits dest: o\<close>)
  next
    case False
    then show ?thesis
      by (subst readObject.simps(2))
        (use r [unfolded readObject.simps(2) [of n]] in
          \<open>auto simp del: readValue.simps readObject.simps split: member_head.splits option.splits\<close>)
  qed
  moreover have "readArray (Suc (Suc n)) after vs s = Some x" if r: "readArray (Suc n) after vs s = Some x" for vs s x
  proof (cases "readValue n after s")
    case (Some y)
    show ?thesis
      by (subst readArray.simps(2))
        (use r [unfolded readArray.simps(2) [of n]] Some v [OF Some] in
          \<open>auto simp del: readValue.simps readArray.simps split: prod.splits option.splits separator.splits dest: a\<close>)
  qed (use r in simp)
  ultimately show ?case by blast
qed simp

lemma readValue_fuel_mono: "readValue n after s = Some x \<Longrightarrow> readValue (n + k) after s = Some x"
proof (induction k)
  case (Suc k)
  then have "readValue (Suc (n + k)) after s = Some x"
    using reader_more [of "n + k" after] by blast
  then show ?case by (simp only: add_Suc_right)
qed simp

text \<open>
  C26. Reading a document always returns, whatever its bytes and whatever lies behind it: a depth of
  calls of twice its length is enough and a larger one gives the same result, which moves forward by
  at least one character when it is a value.
\<close>

theorem json_reader_returns:
  "\<exists>v r. (\<forall>k. readValue (json_fuel doc + k) after doc = Some (v, r)) \<and> json_parse after doc = v
     \<and> length r \<le> length doc \<and> (v = None \<or> length r < length doc)"
proof -
  obtain v r where "readValue (json_fuel doc) after doc = Some (v, r)"
      "length r \<le> length doc" "v = None \<or> length r < length doc"
    using readValue_returns [of doc "json_fuel doc" after] by (auto simp: reads_def json_fuel_def)
  moreover from this(1) have "readValue (json_fuel doc + k) after doc = Some (v, r)" for k
    by (rule readValue_fuel_mono)
  ultimately show ?thesis by (auto simp: json_parse_def)
qed

end
