(* ===== verification/JsonWriter.thy ===== *)
theory JsonWriter
  imports Json
begin

text \<open>
  What the JSON reader makes of an integer, and the fast writer of \<open>jsoncpp/jsoncpp.cc\<close> with the round
  trip: a document the writer produced is read back as the value it was written from.
\<close>

section \<open>Integers\<close>

lemma unat_of_nat64: "n < 2 ^ 64 \<Longrightarrow> unat (of_nat n :: 64 word) = n"
  by (simp add: unsigned_of_nat take_bit_nat_eq_self)

text \<open>The digits loop on unbounded numbers.\<close>

fun nat_digits :: "string \<Rightarrow> nat \<Rightarrow> nat" where
  "nat_digits [] acc = acc"
| "nat_digits (c # s) acc = nat_digits s (10 * acc + (of_char c - 48))"

lemma nat_digits_append: "nat_digits (s @ t) acc = nat_digits t (nat_digits s acc)"
  by (induction s arbitrary: acc) auto

lemma nat_digits_ge: "acc \<le> nat_digits s acc"
  by (induction s arbitrary: acc) (auto, metis add_leD1 mult_2 mult_le_mono1 one_le_numeral order_trans nat_mult_1)

definition digit :: "nat \<Rightarrow> char" where "digit d = char_of (48 + d)"

lemma digit_chars:
  "char_of (48 :: nat) = CHR ''0''" "char_of (49 :: nat) = CHR ''1''" "char_of (50 :: nat) = CHR ''2''"
  "char_of (51 :: nat) = CHR ''3''" "char_of (52 :: nat) = CHR ''4''" "char_of (53 :: nat) = CHR ''5''"
  "char_of (54 :: nat) = CHR ''6''" "char_of (55 :: nat) = CHR ''7''" "char_of (56 :: nat) = CHR ''8''"
  "char_of (57 :: nat) = CHR ''9''"
  by (simp_all add: char_of_def bit_iff_odd)

lemma of_char_digit: "d < 10 \<Longrightarrow> of_char (digit d) = 48 + d"
  by (simp add: digit_def of_char_of take_bit_eq_mod)

lemma is_digit_digit: "d < 10 \<Longrightarrow> is_digit (digit d)"
  by (simp add: is_digit_def less_eq_char_def of_char_digit)

lemma is_digit_of_char: "is_digit c \<longleftrightarrow> 48 \<le> (of_char c :: nat) \<and> of_char c \<le> (57 :: nat)"
  by (simp add: is_digit_def less_eq_char_def)

text \<open>The decimal representation is one digit after that of the quotient.\<close>

definition high_digits :: "nat \<Rightarrow> string" where
  "high_digits n = (if n < 10 then [] else dec_of_nat (n div 10))"

lemma dec_of_nat_snoc: "dec_of_nat n = high_digits n @ [digit (n mod 10)]"
  by (subst dec_of_nat.simps) (simp add: high_digits_def digit_def)

lemma dec_of_nat_digits: "list_all is_digit (dec_of_nat n)"
proof (induction n rule: dec_of_nat.induct)
  case (1 n)
  then show ?case by (subst dec_of_nat.simps) (auto simp: is_digit_digit [unfolded digit_def])
qed

lemma nat_digits_dec: "nat_digits (dec_of_nat n) 0 = n"
proof (induction n rule: dec_of_nat.induct)
  case (1 n)
  show ?case
  proof (cases "n < 10")
    case True
    then show ?thesis
      using of_char_digit [of n] by (subst dec_of_nat.simps) (simp add: digit_def)
  next
    case False
    then show ?thesis
      using 1 of_char_digit [of "n mod 10"]
      by (subst dec_of_nat.simps) (simp add: digit_def nat_digits_append)
  qed
qed

lemma high_digits_value: "nat_digits (high_digits n) 0 = n div 10"
  by (simp add: high_digits_def nat_digits_dec)

lemma high_digits_digits: "list_all is_digit (high_digits n)"
  using dec_of_nat_digits by (simp add: high_digits_def)

text \<open>While the value stays below ten times the threshold, the loop goes on without a wrap-around.\<close>

lemma decode_digits_prefix:
  assumes "list_all is_digit xs" "ys \<noteq> []" "nat_digits xs (unat v) < 10 * unat t" "10 * unat t < 2 ^ 64"
  shows "decode_digits t l (xs @ ys) v = decode_digits t l ys (of_nat (nat_digits xs (unat v)))"
  using assms
proof (induction xs arbitrary: v)
  case (Cons c xs)
  define d where "d = (of_char c - 48 :: nat)"
  have c: "is_digit c" and xs: "list_all is_digit xs" using Cons.prems(1) by auto
  have d: "d < 10" using c by (auto simp: d_def is_digit_of_char)
  have bound: "10 * unat v + d < 10 * unat t"
    using Cons.prems(3) nat_digits_ge [of "10 * unat v + d" xs] by (simp add: d_def)
  have low: "nat_digits xs (10 * unat v + d) < 10 * unat t" using Cons.prems(3) by (simp add: d_def)
  have step: "unat (v * 10 + of_nat d) = 10 * unat v + d"
  proof -
    have "10 * unat v + d < 2 ^ 64" using bound Cons.prems(4) by linarith
    then have "unat (of_nat (10 * unat v + d) :: 64 word) = 10 * unat v + d"
      by (intro unat_of_nat64) simp
    moreover have "(of_nat (10 * unat v + d) :: 64 word) = v * 10 + of_nat d" by (simp add: mult.commute)
    ultimately show ?thesis by (simp add: mult.commute)
  qed
  have "unat v < unat t" using bound by linarith
  then have "\<not> t \<le> v" by (simp add: word_le_nat_alt)
  then have "decode_digits t l ((c # xs) @ ys) v = decode_digits t l (xs @ ys) (v * 10 + of_nat d)"
    using c by (simp add: d_def Let_def)
  also have "\<dots> = decode_digits t l ys (of_nat (nat_digits xs (10 * unat v + d)))"
    using Cons.IH [OF xs Cons.prems(2) _ Cons.prems(4), of "v * 10 + of_nat d"] low by (simp add: step)
  finally show ?case by (simp add: d_def)
qed simp

lemma decode_digits_dec:
  assumes "n div 100 < unat t" "n div 10 < unat t \<or> n mod 10 \<le> unat l" "10 * unat t < 2 ^ 64"
  shows "decode_digits t l (dec_of_nat n) 0 = DigitsValue (of_nat n)"
proof -
  have q: "n div 10 < 10 * unat t" using assms(1) by linarith
  have fit: "unat (of_nat (n div 10) :: 64 word) = n div 10"
    using q assms(3) by (intro unat_of_nat64) simp
  have m: "n mod 10 < 10" by simp
  have "decode_digits t l (dec_of_nat n) 0 = decode_digits t l [digit (n mod 10)] (of_nat (n div 10))"
    using decode_digits_prefix [of "high_digits n" "[digit (n mod 10)]" 0 t l] q assms(3)
    by (simp add: dec_of_nat_snoc high_digits_value high_digits_digits)
  also have "\<dots> = DigitsValue (of_nat (n div 10) * 10 + of_nat (n mod 10))"
  proof -
    have "\<not> (t \<le> of_nat (n div 10) \<and> l < of_nat (n mod 10))"
    proof -
      have "unat (of_nat (n mod 10) :: 64 word) = n mod 10" using m by (intro unat_of_nat64) simp
      then show ?thesis using assms(2) fit by (auto simp: word_le_nat_alt word_less_nat_alt)
    qed
    then show ?thesis using m by (simp add: is_digit_digit of_char_digit Let_def)
  qed
  also have "(of_nat (n div 10) * 10 + of_nat (n mod 10) :: 64 word) = of_nat (n div 10 * 10 + n mod 10)"
    by (simp only: of_nat_add of_nat_mult of_nat_numeral)
  finally show ?thesis by (simp add: mult.commute)
qed

lemma dec_token: "\<not> (\<exists>c \<in> set (dec_of_nat n). c \<in> set ''.eE+'') \<and> CHR ''-'' \<notin> set (dec_of_nat n)"
proof -
  have "\<not> is_digit c" if "c \<in> set ''.eE+-''" for c using that by (auto simp: is_digit_def)
  then show ?thesis using dec_of_nat_digits [of n] by (auto simp: list_all_iff)
qed

definition integer_value :: "64 word \<Rightarrow> json" where
  "integer_value v = (if v \<le> 0x7FFFFFFF then intValue v else uintValue v)"

lemma dec_of_nat_take1: "take 1 (dec_of_nat n) \<noteq> ''-''"
proof
  assume "take 1 (dec_of_nat n) = ''-''"
  then have "CHR ''-'' \<in> set (dec_of_nat n)" by (cases "dec_of_nat n") auto
  then show False using dec_token by blast
qed

lemma not_in_tl: "c \<notin> set xs \<Longrightarrow> c \<notin> set (tl xs)"
  by (cases xs) auto

lemma decodeNumber_nat:
  assumes "n div 100 < 1844674407370955161" "n div 10 < 1844674407370955161 \<or> n mod 10 \<le> 5"
  shows "decodeNumber (dec_of_nat n) = Some (integer_value (of_nat n))"
proof -
  have "decode_digits 0x1999999999999999 5 (dec_of_nat n) 0 = DigitsValue (of_nat n)"
    using assms by (intro decode_digits_dec) simp_all
  then show ?thesis
    using dec_token [of n] dec_of_nat_take1 [of n] not_in_tl [of _ "dec_of_nat n"]
    by (auto simp: decodeNumber_def integer_value_def)
qed

lemma decodeNumber_minus:
  assumes "n div 100 < 922337203685477580" "n div 10 < 922337203685477580 \<or> n mod 10 \<le> 8"
  shows "decodeNumber (CHR ''-'' # dec_of_nat n) = Some (intValue (- of_nat n))"
proof -
  have "decode_digits 0xCCCCCCCCCCCCCCC 8 (dec_of_nat n) 0 = DigitsValue (of_nat n)"
    using assms by (intro decode_digits_dec) simp_all
  then show ?thesis using dec_token [of n] by (auto simp: decodeNumber_def)
qed

text \<open>
  An integer in a document is read exactly as long as it fits 64 bits, but the test for overflow
  lets larger ones through: below a hundred times the threshold \<open>2 ^ 64 div 10\<close> a numeral whose last digit
  is at most 5 is read modulo \<open>2 ^ 64\<close>, without the fallback to a double, and one with a minus sign
  and a last digit of at most 8 likewise, so that a negative numeral can be read as a positive
  number.
\<close>

theorem json_integers:
  "(n div 100 < 1844674407370955161 \<and> (n div 10 < 1844674407370955161 \<or> n mod 10 \<le> 5) \<longrightarrow>
      decodeNumber (dec_of_nat n) = Some (integer_value (of_nat n)))
   \<and> (n div 100 < 922337203685477580 \<and> (n div 10 < 922337203685477580 \<or> n mod 10 \<le> 8) \<longrightarrow>
      decodeNumber (CHR ''-'' # dec_of_nat n) = Some (intValue (- of_nat n)))"
  using decodeNumber_nat decodeNumber_minus by blast

theorem json_integers_witness:
  "decodeNumber ''18446744073709551620'' = Some (intValue 4)
   \<and> decodeNumber ''-9223372036854775810'' = Some (intValue 0x7FFFFFFFFFFFFFFE)"
proof -
  have "dec_of_nat 18446744073709551620 = ''18446744073709551620''" by (simp add: dec_of_nat.simps digit_chars)
  moreover have "dec_of_nat 9223372036854775810 = ''9223372036854775810''" by (simp add: dec_of_nat.simps digit_chars)
  moreover have "integer_value (of_nat 18446744073709551620) = intValue 4" by (simp add: integer_value_def)
  moreover have "- of_nat 9223372036854775810 = (0x7FFFFFFFFFFFFFFE :: 64 word)" by simp
  ultimately show ?thesis
    using json_integers [of 18446744073709551620] json_integers [of 9223372036854775810] by simp
qed

section \<open>The fast writer\<close>

definition isControlCharacter :: "char \<Rightarrow> bool" where
  "isControlCharacter c \<longleftrightarrow> 0 < (of_char c :: nat) \<and> of_char c \<le> (0x1F :: nat)"

definition valueToString_int :: "64 word \<Rightarrow> string" where
  "valueToString_int v = (if sint v < 0 then CHR ''-'' # dec_of_nat (unat (- v)) else dec_of_nat (unat v))"

definition valueToString_uint :: "64 word \<Rightarrow> string" where
  "valueToString_uint v = dec_of_nat (unat v)"

definition hex_char :: "nat \<Rightarrow> char" where
  "hex_char d = (if d < 10 then char_of (48 + d) else char_of (55 + d))"

definition escape_char :: "char \<Rightarrow> string" where
  "escape_char c =
     (if c = dquote then [CHR 0x5C, dquote]
      else if c = CHR 0x5C then [CHR 0x5C, CHR 0x5C]
      else if c = CHR 0x08 then [CHR 0x5C, CHR ''b'']
      else if c = CHR 0x0C then [CHR 0x5C, CHR ''f'']
      else if c = LF then [CHR 0x5C, CHR ''n'']
      else if c = CR then [CHR 0x5C, CHR ''r'']
      else if c = CHR 0x09 then [CHR 0x5C, CHR ''t'']
      else if isControlCharacter c
      then [CHR 0x5C, CHR ''u'', CHR ''0'', CHR ''0'', hex_char (of_char c div 16), hex_char (of_char c mod 16)]
      else [c])"

text \<open>A string without any of the special characters is copied as it is.\<close>

definition valueToQuotedString :: "string \<Rightarrow> string" where
  "valueToQuotedString s =
     (if \<not> (\<exists>c \<in> set s. c \<in> {dquote, CHR 0x5C, CHR 0x08, CHR 0x0C, LF, CR, CHR 0x09} \<or> isControlCharacter c)
      then [dquote] @ s @ [dquote]
      else [dquote] @ concat (map escape_char s) @ [dquote])"

text \<open>
  \<open>writeValue\<close> with the elements of an array and the members of an object. The first argument is the
  conversion of a double, which is left to \<open>sprintf\<close>.
\<close>

fun writeValue :: "(decimal \<Rightarrow> string) \<Rightarrow> json \<Rightarrow> string"
and writeElements :: "(decimal \<Rightarrow> string) \<Rightarrow> json list \<Rightarrow> string"
and writeMembers :: "(decimal \<Rightarrow> string) \<Rightarrow> (string \<times> json) list \<Rightarrow> string" where
  "writeValue pr nullValue = ''null''"
| "writeValue pr (intValue n) = valueToString_int n"
| "writeValue pr (uintValue n) = valueToString_uint n"
| "writeValue pr (realValue d) = pr d"
| "writeValue pr (stringValue s) = valueToQuotedString (c_str s)"
| "writeValue pr (booleanValue b) = (if b then ''true'' else ''false'')"
| "writeValue pr (arrayValue vs) = ''['' @ writeElements pr vs @ '']''"
| "writeValue pr (objectValue m) = ''{'' @ writeMembers pr m @ ''}''"
| "writeElements pr [] = []"
| "writeElements pr (v # vs) = writeValue pr v @ (if vs = [] then [] else '','' @ writeElements pr vs)"
| "writeMembers pr [] = []"
| "writeMembers pr ((k, v) # m) =
     valueToQuotedString k @ '':'' @ writeValue pr v @ (if m = [] then [] else '','' @ writeMembers pr m)"

definition FastWriter_write :: "(decimal \<Rightarrow> string) \<Rightarrow> json \<Rightarrow> string" where
  "FastWriter_write pr root = writeValue pr root @ [LF]"

text \<open>
  The values the reader itself produces, but for doubles and strings with a NUL: integers are unsigned
  exactly above \<open>maxInt\<close>, and members are in order.
\<close>

definition plain_string :: "string \<Rightarrow> bool" where
  "plain_string s \<longleftrightarrow> CHR 0x00 \<notin> set s"

fun canonical :: "json \<Rightarrow> bool"
and canonical_elements :: "json list \<Rightarrow> bool"
and canonical_members :: "(string \<times> json) list \<Rightarrow> bool" where
  "canonical nullValue = True"
| "canonical (intValue n) = (sint n \<le> 0x7FFFFFFF)"
| "canonical (uintValue n) = (0x7FFFFFFF < n)"
| "canonical (realValue d) = False"
| "canonical (stringValue s) = plain_string s"
| "canonical (booleanValue b) = True"
| "canonical (arrayValue vs) = canonical_elements vs"
| "canonical (objectValue m) = (map_ok m \<and> canonical_members m)"
| "canonical_elements [] = True"
| "canonical_elements (v # vs) = (canonical v \<and> canonical_elements vs)"
| "canonical_members [] = True"
| "canonical_members ((k, v) # m) = (plain_string k \<and> canonical v \<and> canonical_members m)"

section \<open>Reading back a string\<close>

lemma c_str_plain [simp]: "plain_string s \<Longrightarrow> c_str s = s"
  by (auto simp: c_str_def plain_string_def takeWhile_eq_all_conv)

lemma quoted_escaped: "valueToQuotedString s = [dquote] @ concat (map escape_char s) @ [dquote]"
proof (cases "\<exists>c \<in> set s. c \<in> {dquote, CHR 0x5C, CHR 0x08, CHR 0x0C, LF, CR, CHR 0x09} \<or> isControlCharacter c")
  case False
  then have "concat (map escape_char s) = concat (map (\<lambda>c. [c]) s)"
    by (intro arg_cong [of _ _ concat] map_cong) (auto simp: escape_char_def)
  then show ?thesis using False concat_map_singleton [of "\<lambda>c. c" s] by (simp add: valueToQuotedString_def)
qed (simp only: valueToQuotedString_def not_True_eq_False if_False)

lemma hex_chars:
  "char_of (65 :: nat) = CHR ''A''" "char_of (66 :: nat) = CHR ''B''" "char_of (67 :: nat) = CHR ''C''"
  "char_of (68 :: nat) = CHR ''D''" "char_of (69 :: nat) = CHR ''E''" "char_of (70 :: nat) = CHR ''F''"
  by (simp_all add: char_of_def bit_iff_odd)

lemma hex_digit_char:
  assumes "k < 16"
  shows "hex_digit (hex_char k) = Some (of_nat k)"
    and "hex_char k \<noteq> dquote" and "hex_char k \<noteq> CHR 0x5C" and "hex_char k \<noteq> CHR 0x00"
proof -
  have "k \<in> set [0 ..< 16]" using assms by simp
  then have k: "k \<in> {0,1,2,3,4,5,6,7,8,9,10,11,12,13,14,15}" by (simp add: upt_rec) auto
  have all: "\<forall>k \<in> {0,1,2,3,4,5,6,7,8,9,10,11,12,13,14,15}. hex_digit (hex_char k) = Some (of_nat k)
     \<and> hex_char k \<noteq> dquote \<and> hex_char k \<noteq> CHR 0x5C \<and> hex_char k \<noteq> CHR 0x00"
    by (simp add: hex_char_def digit_chars hex_chars hex_digit_def is_digit_def less_eq_char_def)
  show "hex_digit (hex_char k) = Some (of_nat k)" "hex_char k \<noteq> dquote" "hex_char k \<noteq> CHR 0x5C"
    "hex_char k \<noteq> CHR 0x00"
    using k all by blast+
qed

text \<open>The three shapes of the escape of a character.\<close>

lemma escape_cases:
  obtains (simple) x where "escape_char c = [CHR 0x5C, x]" "simple_escape x = Some c" "x \<noteq> CHR ''u''"
  | (control) "isControlCharacter c"
      "escape_char c = [CHR 0x5C, CHR ''u'', CHR ''0'', CHR ''0'', hex_char (of_char c div 16), hex_char (of_char c mod 16)]"
  | (plain) "escape_char c = [c]" "c \<noteq> dquote" "c \<noteq> CHR 0x5C"
proof (cases "c \<in> {dquote, CHR 0x5C, CHR 0x08, CHR 0x0C, LF, CR, CHR 0x09}")
  case True
  then have "\<exists>x. escape_char c = [CHR 0x5C, x] \<and> simple_escape x = Some c \<and> x \<noteq> CHR ''u''"
    by (auto simp: escape_char_def simple_escape_def)
  then show ?thesis using simple by blast
next
  case False
  then show ?thesis using control plain by (cases "isControlCharacter c") (auto simp: escape_char_def)
qed

lemma take_drop_4: "take 4 (a # b # c # d # s) = [a, b, c, d]" "drop 4 (a # b # c # d # s) = s"
  by (simp_all add: numeral_eq_Suc)

lemma append_single: "(@) [c] = (#) c"
  by (rule ext) simp

lemma control_digits:
  assumes "isControlCharacter c"
  shows "(of_char c :: nat) div 16 < 16" "(of_char c :: nat) mod 16 < 16"
  using assms by (simp_all add: isControlCharacter_def less_mult_imp_div_less)

lemma readString_skip: "s \<noteq> [] \<Longrightarrow> readString c s = readString d s"
  by (cases s) auto

lemma readString_escape:
  assumes "s \<noteq> []"
  shows "readString d (escape_char c @ s) = readString e s"
proof (cases c rule: escape_cases)
  case control
  note hex = hex_digit_char [OF control_digits(1) [OF control(1)]] hex_digit_char [OF control_digits(2) [OF control(1)]]
  show ?thesis unfolding control(2) using hex readString_skip [OF assms] by simp
qed (use readString_skip [OF assms] in auto)

lemma decode_control:
  assumes "isControlCharacter c"
  shows "decodeUnicodeCodePoint (CHR ''0'' # CHR ''0'' # hex_char (of_char c div 16) # hex_char (of_char c mod 16) # s)
           = Some (of_nat (of_char c), s) \<and> codePointToUTF8 (of_nat (of_char c)) = [c]"
proof -
  define d where "d = (of_char c :: nat)"
  have d: "d < 32" using assms by (simp add: isControlCharacter_def d_def)
  have c: "c = char_of d" by (simp add: d_def)
  have z: "hex_digit (CHR ''0'') = Some 0" by (simp add: hex_digit_def is_digit_def)
  have "hex_digits [CHR ''0'', CHR ''0'', hex_char (d div 16), hex_char (d mod 16)] 0
      = Some (of_nat (d div 16) * 16 + of_nat (d mod 16))"
    using d hex_digit_char(1) [of "d div 16"] hex_digit_char(1) [of "d mod 16"] by (simp add: z)
  also have "(of_nat (d div 16) * 16 + of_nat (d mod 16) :: 32 word) = of_nat (d div 16 * 16 + d mod 16)"
    by (simp only: of_nat_add of_nat_mult of_nat_numeral)
  finally have digits: "hex_digits [CHR ''0'', CHR ''0'', hex_char (d div 16), hex_char (d mod 16)] 0 = Some (of_nat d)"
    by (simp only: div_mult_mod_eq)
  have u: "unat (of_nat d :: 32 word) = d" using d by (simp add: unsigned_of_nat take_bit_nat_eq_self)
  then have "(of_nat d :: 32 word) \<le> 0x7F" "\<not> (0xD800 :: 32 word) \<le> of_nat d"
    using d by (simp_all add: word_le_nat_alt)
  with digits u have "decodeUnicodeCodePoint (CHR ''0'' # CHR ''0'' # hex_char (d div 16) # hex_char (d mod 16) # s)
      = Some (of_nat d, s) \<and> codePointToUTF8 (of_nat d) = [char_of d]"
    by (simp add: decodeUnicodeCodePoint_def decodeUnicodeEscapeSequence_def codePointToUTF8_def take_drop_4
        del: hex_digits.simps)
  then show ?thesis by (simp add: d_def)
qed

lemma decode_escape: "decode_chars (escape_char c @ s) = map_option (\<lambda>t. c # t) (decode_chars s)"
proof (cases c rule: escape_cases)
  case (simple x)
  then show ?thesis by simp
next
  case control
  show ?thesis unfolding control(2) using decode_control [OF control(1), of s] by (simp add: append_single)
next
  case plain
  then show ?thesis by simp
qed

lemma readString_quoted: "readString d (concat (map escape_char s) @ dquote # rest) = (True, rest)"
proof (induction s arbitrary: d)
  case (Cons c s)
  then show ?case using readString_escape [of "concat (map escape_char s) @ dquote # rest" d c d] by simp
qed simp

lemma decode_quoted: "decode_chars (concat (map escape_char s)) = Some s"
  by (induction s) (simp_all add: decode_escape)

lemma decodeString_quoted: "decodeString (valueToQuotedString s) = Some s"
  by (simp add: decodeString_def quoted_escaped decode_quoted butlast_append)

section \<open>Reading back a value\<close>

text \<open>What may follow a value in a document of the writer.\<close>

definition delimited :: "string \<Rightarrow> bool" where
  "delimited s \<longleftrightarrow> (case s of [] \<Rightarrow> True | c # _ \<Rightarrow> c \<in> {CHR '','', CHR '']'', CHR ''}'', LF, CR, CHR 0x20, CHR 0x09})"

lemma skipSpaces_Cons:
  "skipSpaces (c # s) = (if c = CHR 0x20 \<or> c = CHR 0x09 \<or> c = CR \<or> c = LF then skipSpaces s else c # s)"
  by (simp add: skipSpaces_def)

lemma digit_not_special:
  "is_digit c \<Longrightarrow> c \<notin> {CHR 0x20, CHR 0x09, CR, LF, dquote, CHR ''{'', CHR ''}'', CHR ''['', CHR '']'', CHR ''/'', CHR '','', CHR '':''}"
  by (auto simp: is_digit_def)

text \<open>A token that starts at a character that is no space.\<close>

lemma readToken_at:
  assumes "c \<noteq> CHR 0x20" "c \<noteq> CHR 0x09" "c \<noteq> CR" "c \<noteq> LF"
    and "scan_token after c (w @ s) = (t, s)"
  shows "readToken after (c # w @ s) = ((t, c # w), s)"
  using assms by (simp add: readToken_def skipSpaces_Cons)

lemma skipCommentTokens_at:
  assumes "readToken after s = ((t, x), r)" "t \<noteq> tokenComment"
  shows "skipCommentTokens after s = ((t, x), r)"
  using assms by (subst skipCommentTokens.simps) simp

lemma string_token:
  "readToken after (valueToQuotedString s @ rest) = ((tokenString, valueToQuotedString s), rest)"
proof -
  have "scan_token after dquote ((concat (map escape_char s) @ [dquote]) @ rest) = (tokenString, rest)"
    by (simp add: scan_token_def readString_quoted)
  then have "readToken after (dquote # (concat (map escape_char s) @ [dquote]) @ rest)
      = ((tokenString, dquote # concat (map escape_char s) @ [dquote]), rest)"
    by (intro readToken_at) simp_all
  then show ?thesis by (simp add: quoted_escaped)
qed

lemma readNumber_digits:
  assumes "list_all is_digit ds" "delimited rest"
  shows "readNumber (ds @ rest) = rest"
  using assms by (induction ds) (auto simp: readNumber_def delimited_def is_digit_def split: list.splits)

lemma number_token:
  assumes "delimited rest"
  shows "readToken after (dec_of_nat n @ rest) = ((tokenNumber, dec_of_nat n), rest)"
    and "readToken after (CHR ''-'' # dec_of_nat n @ rest) = ((tokenNumber, CHR ''-'' # dec_of_nat n), rest)"
proof -
  obtain c ds where n: "dec_of_nat n = c # ds" by (cases "dec_of_nat n") auto
  have c: "is_digit c" and ds: "list_all is_digit ds" using dec_of_nat_digits [of n] n by auto
  have "scan_token after c (ds @ rest) = (tokenNumber, rest)"
    using digit_not_special [OF c] c readNumber_digits [OF ds assms] by (simp add: scan_token_def)
  then show "readToken after (dec_of_nat n @ rest) = ((tokenNumber, dec_of_nat n), rest)"
    using digit_not_special [OF c] by (auto simp: n intro!: readToken_at)
  have "scan_token after (CHR ''-'') (dec_of_nat n @ rest) = (tokenNumber, rest)"
    using readNumber_digits [OF dec_of_nat_digits assms] by (simp add: scan_token_def is_digit_def)
  then show "readToken after (CHR ''-'' # dec_of_nat n @ rest) = ((tokenNumber, CHR ''-'' # dec_of_nat n), rest)"
    by (intro readToken_at) simp_all
qed

lemma punctuation_tokens:
  "readToken after (CHR ''{'' # s) = ((tokenObjectBegin, ''{''), s)"
  "readToken after (CHR ''}'' # s) = ((tokenObjectEnd, ''}''), s)"
  "readToken after (CHR ''['' # s) = ((tokenArrayBegin, ''[''), s)"
  "readToken after (CHR '']'' # s) = ((tokenArrayEnd, '']''), s)"
  "readToken after (CHR '','' # s) = ((tokenArraySeparator, '',''), s)"
  "readToken after (CHR '':'' # s) = ((tokenMemberSeparator, '':''), s)"
  "readToken after (''null'' @ s) = ((tokenNull, ''null''), s)"
  "readToken after (''true'' @ s) = ((tokenTrue, ''true''), s)"
  "readToken after (''false'' @ s) = ((tokenFalse, ''false''), s)"
  by (simp_all add: readToken_def skipSpaces_Cons scan_token_def is_digit_def match_def)

lemmas comment_free_tokens [simp] =
  punctuation_tokens [THEN skipCommentTokens_at, simplified]
  string_token [THEN skipCommentTokens_at, simplified]

text \<open>Integers in the form the writer gives them.\<close>

lemma digits_fit:
  assumes "n \<le> 10 * t + l" "l < 10" "(0::nat) < t"
  shows "n div 100 < t" "n div 10 < t \<or> n mod 10 \<le> l"
proof -
  have n: "n = 10 * (n div 10) + n mod 10" "n mod 10 < 10" by simp_all
  show "n div 10 < t \<or> n mod 10 \<le> l" using n assms by linarith
  have "n div 100 * 100 \<le> n" by simp
  then show "n div 100 < t" using assms by linarith
qed

lemma sint64: "sint (v :: 64 word) = (if uint v < 2 ^ 63 then uint v else uint v - 2 ^ 64)"
proof -
  have lt: "uint v < 2 ^ 64" using uint_bounded [of v] by simp
  have "bit (uint v) 63 \<longleftrightarrow> 2 ^ 63 \<le> uint v"
  proof -
    have "uint v div 2 ^ 63 = (if 2 ^ 63 \<le> uint v then 1 else 0)"
    proof (cases "2 ^ 63 \<le> uint v")
      case True
      then have "uint v div 2 ^ 63 = (uint v - 2 ^ 63) div 2 ^ 63 + 1" by (intro div_pos_geq) simp_all
      also have "(uint v - 2 ^ 63) div 2 ^ 63 = 0" using True lt by (intro div_pos_pos_trivial) simp_all
      finally show ?thesis using True by simp
    qed simp
    then show ?thesis by (simp add: bit_iff_odd)
  qed
  then show ?thesis
    using lt by (simp add: sint_uint signed_take_bit_eq_take_bit_minus take_bit_int_eq_self)
qed

lemma valueToString_int_token:
  assumes "sint v \<le> 0x7FFFFFFF" "delimited rest"
  shows "\<exists>w. skipCommentTokens after (valueToString_int v @ rest) = ((tokenNumber, w), rest) \<and> decodeNumber w = Some (intValue v)"
proof (cases "sint v < 0")
  case True
  then have "2 ^ 63 \<le> uint v" by (simp add: sint64 split: if_splits)
  moreover have "- uint v mod 2 ^ 64 = 2 ^ 64 - uint v"
  proof -
    have "- uint v mod 2 ^ 64 = (2 ^ 64 + - uint v) mod 2 ^ 64" by simp
    also have "\<dots> = 2 ^ 64 + - uint v"
      using \<open>2 ^ 63 \<le> uint v\<close> uint_bounded [of v] by (intro mod_pos_pos_trivial) simp_all
    finally show ?thesis by simp
  qed
  ultimately have "unat (- v) \<le> 2 ^ 63"
    by (simp add: unat_eq_nat_uint uint_word_ariths)
  then have "unat (- v) \<le> 10 * 922337203685477580 + 8" by simp
  note fit = digits_fit [OF this _ zero_less_numeral]
  have "decodeNumber (CHR ''-'' # dec_of_nat (unat (- v))) = Some (intValue (- of_nat (unat (- v))))"
    by (rule decodeNumber_minus) (rule fit, simp)+
  then show ?thesis
    using True skipCommentTokens_at [OF number_token(2) [OF assms(2)]] by (simp add: valueToString_int_def)
next
  case False
  then have "uint v \<le> 0x7FFFFFFF" using assms(1) uint_bounded [of v] by (simp add: sint64 split: if_splits)
  moreover have "int (unat v) = uint v" by simp
  ultimately have small: "unat v \<le> 0x7FFFFFFF" by linarith
  then have "unat v \<le> 10 * 1844674407370955161 + 5" by simp
  note fit = digits_fit [OF this _ zero_less_numeral]
  have "decodeNumber (dec_of_nat (unat v)) = Some (integer_value (of_nat (unat v)))"
    by (rule decodeNumber_nat) (rule fit, simp)+
  moreover have "integer_value (of_nat (unat v)) = intValue v"
    using small by (simp add: integer_value_def word_le_nat_alt)
  ultimately show ?thesis
    using False skipCommentTokens_at [OF number_token(1) [OF assms(2)]] by (simp add: valueToString_int_def)
qed

lemma valueToString_uint_token:
  assumes "0x7FFFFFFF < v" "delimited rest"
  shows "\<exists>w. skipCommentTokens after (valueToString_uint v @ rest) = ((tokenNumber, w), rest) \<and> decodeNumber w = Some (uintValue v)"
proof -
  have "int (unat v) = uint v" by simp
  moreover have "uint v \<le> 10 * 1844674407370955161 + 5" using uint_bounded [of v] by simp
  ultimately have "unat v \<le> 10 * 1844674407370955161 + 5" by linarith
  note fit = digits_fit [OF this _ zero_less_numeral]
  have "decodeNumber (dec_of_nat (unat v)) = Some (integer_value (of_nat (unat v)))"
    by (rule decodeNumber_nat) (rule fit, simp)+
  moreover have "integer_value (of_nat (unat v)) = uintValue v"
    using assms(1) by (simp add: integer_value_def not_le)
  ultimately show ?thesis
    using skipCommentTokens_at [OF number_token(1) [OF assms(2)]] by (simp add: valueToString_uint_def)
qed

section \<open>The round trip\<close>

lemma readValue_enough: "readValue n after s = Some x \<Longrightarrow> n \<le> k \<Longrightarrow> readValue k after s = Some x"
  using readValue_fuel_mono [of n after s x "k - n"] by simp

lemma readObject_more: "readObject n after nm m s = Some x \<Longrightarrow> readObject (Suc n) after nm m s = Some x"
  using reader_more [of n after] by blast

lemma readArray_more: "readArray n after vs s = Some x \<Longrightarrow> readArray (Suc n) after vs s = Some x"
  using reader_more [of n after] by blast

lemma readObject_enough:
  assumes "readObject n after nm m s = Some x" "n \<le> k"
  shows "readObject k after nm m s = Some x"
  using assms(2) by (induction k rule: dec_induct) (rule assms(1), rule readObject_more)

lemma readArray_enough:
  assumes "readArray n after vs s = Some x" "n \<le> k"
  shows "readArray k after vs s = Some x"
  using assms(2) by (induction k rule: dec_induct) (rule assms(1), rule readArray_more)

text \<open>The reader skips spaces before every token.\<close>

definition spaces :: "string \<Rightarrow> bool" where
  "spaces w \<longleftrightarrow> list_all (\<lambda>c. c \<in> {CHR 0x20, CHR 0x09, CR, LF}) w"

lemma spaces_simps [simp]:
  "spaces []" "spaces (CHR 0x20 # w) \<longleftrightarrow> spaces w" "spaces (LF # w) \<longleftrightarrow> spaces w"
  "spaces (v @ w) \<longleftrightarrow> spaces v \<and> spaces w" "spaces (replicate n (CHR 0x20))"
  by (auto simp: spaces_def list_all_iff)

lemma skipSpaces_append [simp]: "spaces w \<Longrightarrow> skipSpaces (w @ s) = skipSpaces s"
  by (induction w) (auto simp: spaces_def skipSpaces_Cons)

lemma skipSpaces_idem [simp]: "skipSpaces (skipSpaces s) = skipSpaces s"
  by (induction s) (auto simp: skipSpaces_Cons skipSpaces_def)

lemma readToken_skip: "readToken after (skipSpaces s) = readToken after s"
  by (simp add: readToken_def)

lemma readToken_spaces: "spaces w \<Longrightarrow> readToken after (w @ s) = readToken after s"
  by (metis readToken_skip skipSpaces_append)

lemma skipCommentTokens_skip: "skipCommentTokens after (skipSpaces s) = skipCommentTokens after s"
  by (subst (1 2) skipCommentTokens.simps) (simp add: readToken_skip)

lemma readValue_skip: "readValue n after (skipSpaces s) = readValue n after s"
  by (cases n) (simp_all add: skipCommentTokens_skip)

lemma readValue_spaces: "spaces w \<Longrightarrow> readValue n after (w @ s) = readValue n after s"
  by (metis readValue_skip skipSpaces_append)

lemma readArray_skip: "readArray n after vs (skipSpaces s) = readArray n after vs s"
  by (cases n) (simp_all add: readValue_skip)

lemma delimited_spaces: "spaces w \<Longrightarrow> delimited s \<Longrightarrow> delimited (w @ s)"
  by (cases w) (auto simp: delimited_def spaces_def)

lemma map_insert_last:
  "\<forall>p \<in> set m. fst p < k \<Longrightarrow> map_insert k v m = m @ [(k, v)]"
  by (induction m) force+

lemma set_member_last:
  "map_ok (m @ (k, v) # m') \<Longrightarrow> set_member k v m = m @ [(k, v)]"
proof -
  assume ok: "map_ok (m @ (k, v) # m')"
  then have "\<forall>p \<in> set m. fst p < k" by (auto simp: map_ok_def sorted_wrt_append)
  moreover from this have "map_modify k f m = m" for f
    by (auto simp: map_modify_def intro!: map_idI)
  ultimately show ?thesis by (simp add: set_member_def map_insert_last) (simp add: map_modify_def)
qed

text \<open>A text that is read as a value, whatever follows it.\<close>

definition reads_as :: "char \<Rightarrow> string \<Rightarrow> json \<Rightarrow> bool" where
  "reads_as after t v \<longleftrightarrow> (\<forall>rest. delimited rest \<longrightarrow> (\<exists>n. readValue n after (t @ rest) = Some (Some v, rest)))"

lemma reads_asD: "reads_as after t v \<Longrightarrow> delimited rest \<Longrightarrow> \<exists>n. readValue n after (t @ rest) = Some (Some v, rest)"
  by (simp add: reads_as_def)

lemma reads_as_spaces: "reads_as after t v \<Longrightarrow> spaces w \<Longrightarrow> reads_as after (w @ t) v"
  by (simp add: reads_as_def readValue_spaces)

text \<open>It starts, after spaces, with no closing bracket.\<close>

lemma reads_as_start:
  assumes "reads_as after t v" "delimited s"
  shows "current_char after (skipSpaces (t @ s)) \<noteq> CHR '']''"
proof
  assume c: "current_char after (skipSpaces (t @ s)) = CHR '']''"
  obtain n where n: "readValue n after (t @ s) = Some (Some v, s)" using reads_asD [OF assms] by blast
  then obtain k where k: "n = Suc k" by (cases n) auto
  have n': "readValue (Suc k) after (skipSpaces (t @ s)) = Some (Some v, s)" using n k by (simp only: readValue_skip)
  show False
  proof (cases "skipSpaces (t @ s)")
    case Nil
    have "readToken after [] = ((tokenEndOfStream, []), [])"
      by (simp add: readToken_def skipSpaces_def scan_token_def is_digit_def)
    from skipCommentTokens_at [OF this] have "readValue (Suc k) after [] = Some (None, [])"
      by (simp add: read_scalar_def)
    then show False using n' Nil by simp
  next
    case (Cons x xs)
    then have "skipSpaces (t @ s) = CHR '']'' # xs" using c by (simp add: current_char_def)
    moreover have "readValue (Suc k) after (CHR '']'' # xs) = Some (None, xs)" by (simp add: read_scalar_def)
    ultimately show False using n' by simp
  qed
qed

lemma scalar_text:
  assumes "\<And>rest. delimited rest \<Longrightarrow> \<exists>k x. skipCommentTokens after (t @ rest) = ((k, x), rest)
      \<and> k \<noteq> tokenObjectBegin \<and> k \<noteq> tokenArrayBegin \<and> read_scalar k x = Some v"
  shows "reads_as after t v"
  unfolding reads_as_def
proof (intro allI impI)
  fix rest assume "delimited rest"
  from assms [OF this] obtain k x where
    "skipCommentTokens after (t @ rest) = ((k, x), rest)" "k \<noteq> tokenObjectBegin" "k \<noteq> tokenArrayBegin"
    "read_scalar k x = Some v" by blast
  then have "readValue (Suc 0) after (t @ rest) = Some (Some v, rest)" by simp
  then show "\<exists>n. readValue n after (t @ rest) = Some (Some v, rest)" by blast
qed

text \<open>Texts with commas between them; a closing bracket may follow spaces.\<close>

fun commas :: "string list \<Rightarrow> string" where
  "commas [] = []"
| "commas (t # ts) = t @ (if ts = [] then [] else '','' @ commas ts)"

lemma closed_texts:
  assumes "spaces w"
  shows "delimited (w @ CHR '']'' # rest)" "delimited (w @ CHR ''}'' # rest)"
    and "read_element_end after (w @ CHR '']'' # rest) = Done rest"
    and "read_member_end after (w @ CHR ''}'' # rest) = Done rest"
proof -
  show "delimited (w @ CHR '']'' # rest)" "delimited (w @ CHR ''}'' # rest)"
    by (rule delimited_spaces [OF assms], simp add: delimited_def)+
  have t: "readToken after (w @ CHR '']'' # rest) = ((tokenArrayEnd, '']''), rest)"
    "readToken after (w @ CHR ''}'' # rest) = ((tokenObjectEnd, ''}''), rest)"
    using assms(1) by (simp_all add: readToken_spaces punctuation_tokens)
  show "read_element_end after (w @ CHR '']'' # rest) = Done rest"
    using skipCommentTokens_at [OF t(1)] by (simp add: read_element_end_def)
  show "read_member_end after (w @ CHR ''}'' # rest) = Done rest"
    using t(2) by (simp add: read_member_end_def)
qed

lemma comma_texts:
  "delimited (CHR '','' # s)" "read_element_end after (CHR '','' # s) = More s" "read_member_end after (CHR '','' # s) = More s"
  by (simp_all add: read_member_end_def read_element_end_def punctuation_tokens delimited_def)

lemma array_texts:
  assumes "list_all2 (reads_as after) ts vs" "ts \<noteq> []" "spaces w"
  shows "\<exists>n. readArray n after acc (commas ts @ w @ CHR '']'' # rest) = Some (Some (arrayValue (acc @ vs)), rest)"
  using assms(1,2)
proof (induction ts vs arbitrary: acc rule: list_all2_induct)
  case (Cons t ts v vs)
  note close = closed_texts [OF assms(3)]
  show ?case
  proof (cases "ts = []")
    case True
    then have vs: "vs = []" using Cons.hyps(2) by simp
    obtain n where "readValue n after (t @ w @ CHR '']'' # rest) = Some (Some v, w @ CHR '']'' # rest)"
      using reads_asD [OF Cons.hyps(1) close(1)] by blast
    then have "readArray (Suc n) after acc (commas (t # ts) @ w @ CHR '']'' # rest) = Some (Some (arrayValue (acc @ v # vs)), rest)"
      using True vs close(3) by simp
    then show ?thesis by blast
  next
    case False
    let ?s = "commas ts @ w @ CHR '']'' # rest"
    obtain n where n: "readValue n after (t @ CHR '','' # ?s) = Some (Some v, CHR '','' # ?s)"
      using reads_asD [OF Cons.hyps(1) comma_texts(1)] by blast
    obtain k where k: "readArray k after (acc @ [v]) ?s = Some (Some (arrayValue ((acc @ [v]) @ vs)), rest)"
      using Cons.IH False by blast
    have "readArray (Suc (max n k)) after acc (commas (t # ts) @ w @ CHR '']'' # rest) = Some (Some (arrayValue (acc @ v # vs)), rest)"
      using readValue_enough [OF n max.cobounded1 [of n k]] readArray_enough [OF k max.cobounded2 [of k n]] False
      by (simp add: comma_texts)
    then show ?thesis by blast
  qed
qed simp

text \<open>A text that is read as a member of an object.\<close>

definition member_as :: "char \<Rightarrow> string \<Rightarrow> string \<times> json \<Rightarrow> bool" where
  "member_as after s p \<longleftrightarrow> (\<exists>w w' t. spaces w \<and> spaces w' \<and> plain_string (fst p) \<and> reads_as after t (snd p)
     \<and> s = w @ valueToQuotedString (fst p) @ w' @ '':'' @ t)"

lemma member_asE:
  assumes "member_as after s p"
  obtains t where "reads_as after t (snd p)" "plain_string (fst p)"
    "\<And>nm rest. read_member_name after nm (s @ rest) = Member (fst p) (t @ rest)"
proof -
  from assms obtain w w' t where s: "spaces w" "spaces w'" "plain_string (fst p)" "reads_as after t (snd p)"
    "s = w @ valueToQuotedString (fst p) @ w' @ '':'' @ t" by (auto simp: member_as_def)
  have "skipCommentTokens after (w @ valueToQuotedString (fst p) @ r) = ((tokenString, valueToQuotedString (fst p)), r)" for r
    using s(1) by (intro skipCommentTokens_at) (simp_all add: readToken_spaces string_token)
  moreover have "readToken after (w' @ CHR '':'' # r) = ((tokenMemberSeparator, '':''), r)" for r
    using s(2) by (simp add: readToken_spaces punctuation_tokens)
  ultimately have "read_member_name after nm (s @ rest) = Member (fst p) (t @ rest)" for nm rest
    by (simp add: s(5) read_member_name_def decodeString_quoted)
  then show ?thesis using that s(3,4) by blast
qed

lemma object_texts:
  assumes "list_all2 (member_as after) ss m" "ss \<noteq> []" "map_ok (acc @ m)" "spaces w"
  shows "\<exists>n. readObject n after nm acc (commas ss @ w @ CHR ''}'' # rest) = Some (Some (objectValue (acc @ m)), rest)"
  using assms(1-3)
proof (induction ss m arbitrary: acc nm rule: list_all2_induct)
  case (Cons s ss p m)
  note close = closed_texts [OF assms(4)]
  obtain t where t: "reads_as after t (snd p)" "plain_string (fst p)"
    "\<And>nm rest. read_member_name after nm (s @ rest) = Member (fst p) (t @ rest)"
    using member_asE [OF Cons.hyps(1)] by blast
  have set: "set_member (c_str (fst p)) (snd p) acc = acc @ [p]"
    using set_member_last [of acc "fst p" "snd p" m] Cons.prems(2) t(2) by simp
  show ?case
  proof (cases "ss = []")
    case True
    then have m: "m = []" using Cons.hyps(2) by simp
    obtain n where "readValue n after (t @ w @ CHR ''}'' # rest) = Some (Some (snd p), w @ CHR ''}'' # rest)"
      using reads_asD [OF t(1) close(2)] by blast
    then have "readObject (Suc n) after nm acc (commas (s # ss) @ w @ CHR ''}'' # rest) = Some (Some (objectValue (acc @ p # m)), rest)"
      using True m set t(3) close(4) by simp
    then show ?thesis by blast
  next
    case False
    let ?s = "commas ss @ w @ CHR ''}'' # rest"
    obtain n where n: "readValue n after (t @ CHR '','' # ?s) = Some (Some (snd p), CHR '','' # ?s)"
      using reads_asD [OF t(1) comma_texts(1)] by blast
    obtain j where j: "readObject j after (fst p) (acc @ [p]) ?s = Some (Some (objectValue ((acc @ [p]) @ m)), rest)"
      using Cons.IH [OF False, of "acc @ [p]" "fst p"] Cons.prems(2) by auto
    have "readObject (Suc (max n j)) after nm acc (commas (s # ss) @ w @ CHR ''}'' # rest) = Some (Some (objectValue (acc @ p # m)), rest)"
      using readValue_enough [OF n max.cobounded1 [of n j]] readObject_enough [OF j max.cobounded2 [of j n]] False t(3) set
      by (simp add: comma_texts)
    then show ?thesis by blast
  qed
qed simp

lemma array_text:
  assumes "list_all2 (reads_as after) ts vs" "ts \<noteq> []" "spaces w"
  shows "reads_as after (''['' @ commas ts @ w @ '']'') (arrayValue vs)"
  unfolding reads_as_def
proof (intro allI impI)
  fix rest
  let ?s = "commas ts @ w @ CHR '']'' # rest"
  obtain n where n: "readArray n after [] ?s = Some (Some (arrayValue vs), rest)"
    using array_texts [OF assms, of "[]"] by auto
  obtain t ts' v vs' where t: "ts = t # ts'" "vs = v # vs'" "reads_as after t v"
    using assms(1,2) by (cases ts; cases vs) auto
  have "\<exists>s. delimited s \<and> ?s = t @ s"
    using t(1) closed_texts(1) [OF assms(3)] comma_texts(1) by (cases "ts' = []") auto
  then have "current_char after (skipSpaces ?s) \<noteq> CHR '']''" using reads_as_start [OF t(3)] by metis
  then have "readValue (Suc n) after (CHR ''['' # ?s) = Some (Some (arrayValue vs), rest)"
    using n by (simp add: readArray_skip)
  then show "\<exists>n. readValue n after ((''['' @ commas ts @ w @ '']'') @ rest) = Some (Some (arrayValue vs), rest)"
    by (metis append_Cons append_Nil append_assoc)
qed

lemma object_text:
  assumes "list_all2 (member_as after) ss m" "ss \<noteq> []" "map_ok m" "spaces w"
  shows "reads_as after (''{'' @ commas ss @ w @ ''}'') (objectValue m)"
  unfolding reads_as_def
proof (intro allI impI)
  fix rest
  obtain n where "readObject n after [] [] (commas ss @ w @ CHR ''}'' # rest) = Some (Some (objectValue m), rest)"
    using object_texts [OF assms(1,2) _ assms(4), of "[]"] assms(3) by auto
  then have "readValue (Suc n) after ((''{'' @ commas ss @ w @ ''}'') @ rest) = Some (Some (objectValue m), rest)" by simp
  then show "\<exists>n. readValue n after ((''{'' @ commas ss @ w @ ''}'') @ rest) = Some (Some (objectValue m), rest)" by blast
qed

lemma scalar_texts:
  "reads_as after ''null'' nullValue" "sint n \<le> 0x7FFFFFFF \<Longrightarrow> reads_as after (valueToString_int n) (intValue n)"
  "0x7FFFFFFF < n \<Longrightarrow> reads_as after (valueToString_uint n) (uintValue n)"
  "plain_string s \<Longrightarrow> reads_as after (valueToQuotedString s) (stringValue s)"
  "reads_as after (if b then ''true'' else ''false'') (booleanValue b)"
  subgoal by (rule scalar_text) (simp add: read_scalar_def comment_free_tokens [simplified])
  subgoal using valueToString_int_token by (intro scalar_text) (fastforce simp: read_scalar_def)
  subgoal using valueToString_uint_token by (intro scalar_text) (fastforce simp: read_scalar_def)
  subgoal by (intro scalar_text) (simp add: read_scalar_def decodeString_quoted)
  subgoal by (rule scalar_text) (cases b; simp add: read_scalar_def comment_free_tokens [simplified])
  done

lemma empty_texts: "reads_as after ''[]'' (arrayValue [])" "reads_as after ''{}'' (objectValue [])"
proof -
  have "readValue (Suc 0) after (''[]'' @ rest) = Some (Some (arrayValue []), rest)"
    "readValue (Suc (Suc 0)) after (''{}'' @ rest) = Some (Some (objectValue []), rest)" for rest
    by (simp_all add: skipSpaces_Cons current_char_def punctuation_tokens read_member_name_def)
  then show "reads_as after ''[]'' (arrayValue [])" "reads_as after ''{}'' (objectValue [])"
    unfolding reads_as_def by blast+
qed

text \<open>A document that is such a text and a line end.\<close>

lemma document_read:
  assumes "reads_as after t v"
  shows "json_parse after (t @ [LF]) = Some v"
proof -
  obtain n where n: "readValue n after (t @ [LF]) = Some (Some v, [LF])"
    using reads_asD [OF assms, of "[LF]"] by (auto simp: delimited_def)
  obtain x where x: "readValue (json_fuel (t @ [LF])) after (t @ [LF]) = Some x"
    using readValue_returns [of "t @ [LF]" "json_fuel (t @ [LF])" after] by (auto simp: reads_def json_fuel_def)
  have "readValue (n + json_fuel (t @ [LF])) after (t @ [LF]) = Some (Some v, [LF])"
    using readValue_fuel_mono [OF n] .
  moreover have "readValue (json_fuel (t @ [LF]) + n) after (t @ [LF]) = Some x"
    using readValue_fuel_mono [OF x] .
  ultimately have "x = (Some v, [LF])" by (simp add: add.commute)
  with x show ?thesis by (simp add: json_parse_def)
qed

lemma canonical_elements_all: "canonical_elements vs \<longleftrightarrow> (\<forall>v \<in> set vs. canonical v)"
  by (induction vs) auto

lemma written_elements: "writeElements pr vs = commas (map (writeValue pr) vs)"
  by (induction vs) simp_all

lemma written_members: "writeMembers pr m = commas (map (\<lambda>p. valueToQuotedString (fst p) @ '':'' @ writeValue pr (snd p)) m)"
  by (induction m) auto

lemmas written_texts = written_elements written_members

lemma canonical_back:
  "canonical v \<Longrightarrow> reads_as after (writeValue pr v) v"
  "canonical_elements vs \<Longrightarrow> list_all2 (reads_as after) (map (writeValue pr) vs) vs"
  "canonical_members m \<Longrightarrow> list_all2 (member_as after) (map (\<lambda>p. valueToQuotedString (fst p) @ '':'' @ writeValue pr (snd p)) m) m"
proof (induction v and vs and m rule: canonical_canonical_elements_canonical_members.induct)
  case (7 vs)
  then show ?case using array_text [of after "map (writeValue pr) vs" vs "[]"] empty_texts(1)
    by (cases "vs = []") (simp_all add: written_texts)
next
  case (8 m)
  then show ?case using object_text [of after "map (\<lambda>p. valueToQuotedString (fst p) @ '':'' @ writeValue pr (snd p)) m" m "[]"] empty_texts(2)
    by (cases "m = []") (simp_all add: written_texts)
next
  case (12 k v m)
  then have "member_as after (valueToQuotedString k @ '':'' @ writeValue pr v) (k, v)"
    unfolding member_as_def by (intro exI [of _ "[]"] exI [of _ "writeValue pr v"]) simp
  with 12 show ?case by simp
qed (simp_all add: scalar_texts)

text \<open>
  C17. Round trip: a document written from a value that has no double and no string with a NUL, with
  its integers in the form the reader gives them and its members in order, is read back as that
  value, whatever lies behind the document.
\<close>

theorem json_roundtrip:
  assumes "canonical v"
  shows "json_parse after (FastWriter_write pr v) = Some v"
  unfolding FastWriter_write_def by (rule document_read) (rule canonical_back(1) [OF assms])

definition sample_json :: json where
  "sample_json = objectValue [(''a'', arrayValue [intValue (-1), uintValue 0x80000000, booleanValue True, nullValue]),
     (''b'', stringValue [CHR ''x'', dquote, CHR 0x07, CHR 0x5C])]"

theorem json_roundtrip_witness:
  "json_parse (CHR ''!'') (FastWriter_write (\<lambda>d. ''0.0'') sample_json) = Some sample_json"
proof -
  have "canonical sample_json"
    by (simp add: sample_json_def map_ok_def plain_string_def less_char_def)
  then show ?thesis by (rule json_roundtrip)
qed

end
