(* ===== verification/JsonStyled.thy ===== *)
theory JsonStyled
  imports JsonWriter
begin

text \<open>
  The styled writers of the JSON library (\<open>StyledWriter\<close> and \<open>StyledStreamWriter\<close> in \<open>jsoncpp.cc\<close>): an
  array of simple elements is written on one line when it fits the margin, everything else one element
  or member per line. The two differ in how they begin a line and in the indentation. Values carry no
  comments here, so the comment writers leave the document alone. What the writers write is read back
  as the value, like the output of the fast writer.
\<close>

section \<open>The writers\<close>

text \<open>The writer to a string, with three spaces, and the writer to a stream, with a given indentation.\<close>

datatype layout = Document | Stream string

record styled =
  sw_document :: string
  childValues :: "string list"
  addChildValues :: bool
  indentString :: string

definition rightMargin :: nat where "rightMargin = 74"
definition indentSize :: nat where "indentSize = 3"

definition append_document :: "string \<Rightarrow> styled \<Rightarrow> styled" where
  "append_document s st = st\<lparr>sw_document := sw_document st @ s\<rparr>"

definition pushValue :: "string \<Rightarrow> styled \<Rightarrow> styled" where
  "pushValue s st =
     (if addChildValues st then st\<lparr>childValues := childValues st @ [s]\<rparr> else append_document s st)"

definition string_writeIndent :: "styled \<Rightarrow> styled" where
  "string_writeIndent st =
     (let d = sw_document st in
      if d \<noteq> [] \<and> last d = CHR 0x20 then st
      else append_document (indentString st) (if d \<noteq> [] \<and> last d \<noteq> LF then append_document [LF] st else st))"

definition stream_writeIndent :: "styled \<Rightarrow> styled" where
  "stream_writeIndent st = append_document (LF # indentString st) st"

definition writeIndent :: "layout \<Rightarrow> styled \<Rightarrow> styled" where
  "writeIndent W = (case W of Document \<Rightarrow> string_writeIndent | Stream _ \<Rightarrow> stream_writeIndent)"

definition writeWithIndent :: "layout \<Rightarrow> string \<Rightarrow> styled \<Rightarrow> styled" where
  "writeWithIndent W s st = append_document s (writeIndent W st)"

definition indentation :: "layout \<Rightarrow> string" where
  "indentation W = (case W of Document \<Rightarrow> replicate indentSize (CHR 0x20) | Stream i \<Rightarrow> i)"

definition indent :: "layout \<Rightarrow> styled \<Rightarrow> styled" where
  "indent W st = st\<lparr>indentString := indentString st @ indentation W\<rparr>"

definition unindent :: "layout \<Rightarrow> styled \<Rightarrow> styled" where
  "unindent W st = st\<lparr>indentString := take (length (indentString st) - length (indentation W)) (indentString st)\<rparr>"

text \<open>\<open>(isArray() || isObject()) && size() > 0\<close>: null counts as both, but is empty.\<close>

definition has_children :: "json \<Rightarrow> bool" where
  "has_children v = (case v of arrayValue vs \<Rightarrow> vs \<noteq> [] | objectValue m \<Rightarrow> m \<noteq> [] | _ \<Rightarrow> False)"

text \<open>What is written between brackets on one line.\<close>

fun on_one_line :: "string list \<Rightarrow> string" where
  "on_one_line [] = []"
| "on_one_line (t # ts) = t @ (if ts = [] then [] else '', '' @ on_one_line ts)"

text \<open>
  \<open>writeValue\<close> with the members of an object, the elements of an array that takes several lines
  (from the collected child values when there are any), and the second loop of \<open>isMultineArray\<close>, which
  collects the elements and adds up the length of the line.
\<close>

fun styled_value :: "(decimal \<Rightarrow> string) \<Rightarrow> layout \<Rightarrow> json \<Rightarrow> styled \<Rightarrow> styled"
and styled_members :: "(decimal \<Rightarrow> string) \<Rightarrow> layout \<Rightarrow> (string \<times> json) list \<Rightarrow> styled \<Rightarrow> styled"
and styled_elements :: "(decimal \<Rightarrow> string) \<Rightarrow> layout \<Rightarrow> bool \<Rightarrow> nat \<Rightarrow> json list \<Rightarrow> styled \<Rightarrow> styled"
and line_length :: "(decimal \<Rightarrow> string) \<Rightarrow> layout \<Rightarrow> nat \<Rightarrow> json list \<Rightarrow> nat \<Rightarrow> styled \<Rightarrow> nat \<times> styled" where
  "styled_value pr W nullValue st = pushValue ''null'' st"
| "styled_value pr W (intValue n) st = pushValue (valueToString_int n) st"
| "styled_value pr W (uintValue n) st = pushValue (valueToString_uint n) st"
| "styled_value pr W (realValue d) st = pushValue (pr d) st"
| "styled_value pr W (stringValue s) st = pushValue (valueToQuotedString (c_str s)) st"
| "styled_value pr W (booleanValue b) st = pushValue (if b then ''true'' else ''false'') st"
| "styled_value pr W (arrayValue vs) st =
     (if vs = [] then pushValue ''[]'' st
      else
        let size = length vs; st1 = st\<lparr>childValues := []\<rparr>;
            (isMultiLine, st2) =
              (if size * 3 \<ge> rightMargin \<or> list_ex has_children vs then (True, st1)
               else (case line_length pr W 0 vs (4 + (size - 1) * 2) (st1\<lparr>addChildValues := True\<rparr>) of
                       (lineLength, st2) \<Rightarrow> (lineLength \<ge> rightMargin, st2\<lparr>addChildValues := False\<rparr>)))
        in if isMultiLine then
             let st3 = indent W (writeWithIndent W ''['' st2); hasChildValue = (childValues st3 \<noteq> [])
             in writeWithIndent W '']'' (unindent W (styled_elements pr W hasChildValue 0 vs st3))
           else append_document (''[ '' @ on_one_line (take size (childValues st2)) @ '' ]'') st2)"
| "styled_value pr W (objectValue m) st =
     (if m = [] then pushValue ''{}'' st
      else writeWithIndent W ''}'' (unindent W (styled_members pr W m (indent W (writeWithIndent W ''{'' st)))))"
| "styled_members pr W [] st = st"
| "styled_members pr W ((k, v) # m) st =
     (let st1 = styled_value pr W v (append_document '' : '' (writeWithIndent W (valueToQuotedString k) st))
      in if m = [] then st1 else styled_members pr W m (append_document '','' st1))"
| "styled_elements pr W hasChildValue i [] st = st"
| "styled_elements pr W hasChildValue i (v # vs) st =
     (let st1 = (if hasChildValue then writeWithIndent W (childValues st ! i) st else styled_value pr W v (writeIndent W st))
      in if vs = [] then st1 else styled_elements pr W hasChildValue (Suc i) vs (append_document '','' st1))"
| "line_length pr W i [] n st = (n, st)"
| "line_length pr W i (v # vs) n st =
     (let st1 = styled_value pr W v st in line_length pr W (Suc i) vs (n + length (childValues st1 ! i)) st1)"

definition styled_start :: styled where
  "styled_start = \<lparr>sw_document = [], childValues = [], addChildValues = False, indentString = []\<rparr>"

definition StyledWriter_write :: "(decimal \<Rightarrow> string) \<Rightarrow> json \<Rightarrow> string" where
  "StyledWriter_write pr root = sw_document (append_document [LF] (styled_value pr Document root styled_start))"

text \<open>What is written to the stream.\<close>

definition StyledStreamWriter_write :: "(decimal \<Rightarrow> string) \<Rightarrow> string \<Rightarrow> json \<Rightarrow> string" where
  "StyledStreamWriter_write pr i root = sw_document (append_document [LF] (styled_value pr (Stream i) root styled_start))"

section \<open>What they append\<close>

text \<open>
  Outside the collection of child values, with a blank indentation. A step keeps that and appends a
  text of some kind.
\<close>

definition writing :: "styled \<Rightarrow> bool" where
  "writing st \<longleftrightarrow> \<not> addChildValues st \<and> spaces (indentString st)"

definition appends :: "(string \<Rightarrow> bool) \<Rightarrow> styled \<Rightarrow> styled \<Rightarrow> bool" where
  "appends P st st' \<longleftrightarrow> indentString st' = indentString st \<and> addChildValues st' = addChildValues st
     \<and> (\<exists>t. P t \<and> sw_document st' = sw_document st @ t)"

lemma appendsE:
  assumes "appends P st st'"
  obtains t where "P t" "sw_document st' = sw_document st @ t"
  using assms by (auto simp: appends_def)

lemma appends_writing: "appends P st st' \<Longrightarrow> writing st' = writing st"
  by (auto simp: appends_def writing_def)

lemma appends_trans:
  "appends P a b \<Longrightarrow> appends Q b c \<Longrightarrow> (\<And>s t. P s \<Longrightarrow> Q t \<Longrightarrow> R (s @ t)) \<Longrightarrow> appends R a c"
  by (auto simp: appends_def)

lemma appends_weaken: "appends P a b \<Longrightarrow> (\<And>s. P s \<Longrightarrow> Q s) \<Longrightarrow> appends Q a b"
  by (auto simp: appends_def)

text \<open>An item of a list with commas, and the rest.\<close>

lemma appends_comma:
  assumes "appends P a b" "appends Q (append_document '','' b) c" "\<And>s t. P s \<Longrightarrow> Q t \<Longrightarrow> R (s @ '','' @ t)"
  shows "appends R a c"
  using assms by (auto simp: appends_def append_document_def)

lemma appends_document: "P s \<Longrightarrow> appends P st (append_document s st)"
  by (auto simp: appends_def append_document_def)

lemma appends_push: "P s \<Longrightarrow> writing st \<Longrightarrow> appends P st (pushValue s st)"
  by (simp add: pushValue_def writing_def appends_document)

lemma appends_indent: "writing st \<Longrightarrow> appends spaces st (writeIndent W st)"
  by (cases W) (auto simp: writeIndent_def string_writeIndent_def stream_writeIndent_def Let_def appends_def append_document_def writing_def
      intro: exI [of _ "indentString st"])

lemma appends_with_indent: "writing st \<Longrightarrow> appends (\<lambda>t. \<exists>w. spaces w \<and> t = w @ s) st (writeWithIndent W s st)"
  unfolding writeWithIndent_def
  by (rule appends_trans [OF appends_indent appends_document [where P = "\<lambda>t. t = s"]]) simp_all

text \<open>Between \<open>indent\<close> and \<open>unindent\<close> the indentation is longer.\<close>

lemma appends_indented:
  assumes "appends P (indent W st) st'"
  shows "appends P st (unindent W st')"
  using assms by (auto simp: appends_def indent_def unindent_def)

lemma writing_indent: "writing st \<Longrightarrow> spaces (indentation W) \<Longrightarrow> writing (indent W st)"
  by (simp add: writing_def indent_def)

lemma child_fields [simp]:
  "childValues (writeWithIndent W s st) = childValues st" "childValues (indent W st) = childValues st"
  "childValues (append_document s st) = childValues st"
  by (simp_all add: writeWithIndent_def writeIndent_def string_writeIndent_def stream_writeIndent_def append_document_def indent_def
      Let_def split: layout.splits)


section \<open>Reading back\<close>

text \<open>A value without children is one text in either mode.\<close>

lemma simple_text:
  assumes "canonical v" "\<not> has_children v"
  obtains t where "reads_as after t v" "\<And>st. styled_value pr W v st = pushValue t st"
proof (cases v)
  case nullValue
  show ?thesis by (rule that [of "''null''"]) (simp_all add: nullValue scalar_texts(1))
next
  case (intValue n)
  show ?thesis by (rule that [of "valueToString_int n"]) (use assms(1) intValue scalar_texts(2) in simp_all)
next
  case (uintValue n)
  show ?thesis by (rule that [of "valueToString_uint n"]) (use assms(1) uintValue scalar_texts(3) in simp_all)
next
  case (realValue d)
  then show ?thesis using assms(1) by simp
next
  case (stringValue s)
  show ?thesis by (rule that [of "valueToQuotedString s"]) (use assms(1) stringValue scalar_texts(4) in simp_all)
next
  case (booleanValue b)
  show ?thesis by (rule that [of "if b then ''true'' else ''false''"]) (simp_all only: booleanValue scalar_texts(5) styled_value.simps)
next
  case (arrayValue vs)
  show ?thesis by (rule that [of "''[]''"]) (use assms(2) arrayValue empty_texts(1) in \<open>simp_all add: has_children_def\<close>)
next
  case (objectValue m)
  show ?thesis by (rule that [of "''{}''"]) (use assms(2) objectValue empty_texts(2) in \<open>simp_all add: has_children_def\<close>)
qed

lemma line_length_texts:
  assumes "\<forall>v \<in> set vs. canonical v \<and> \<not> has_children v" "addChildValues st"
  shows "\<exists>ts. list_all2 (reads_as after) ts vs \<and> snd (line_length pr W i vs n st) = st\<lparr>childValues := childValues st @ ts\<rparr>"
  using assms
proof (induction vs arbitrary: i n st)
  case (Cons v vs)
  obtain t where t: "reads_as after t v" "\<And>st. styled_value pr W v st = pushValue t st"
    using simple_text Cons.prems(1) by (metis list.set_intros(1))
  let ?st1 = "st\<lparr>childValues := childValues st @ [t]\<rparr>"
  have st1: "styled_value pr W v st = ?st1" using t(2) Cons.prems(2) by (simp add: pushValue_def)
  obtain ts where "list_all2 (reads_as after) ts vs"
    "snd (line_length pr W (Suc i) vs (n + length (childValues ?st1 ! i)) ?st1) = ?st1\<lparr>childValues := childValues ?st1 @ ts\<rparr>"
    using Cons.IH [of ?st1 "Suc i" "n + length (childValues ?st1 ! i)"] Cons.prems by auto
  then show ?case using t(1) st1 by (intro exI [of _ "t # ts"]) (simp add: Let_def)
qed simp

lemma one_line: "ts \<noteq> [] \<Longrightarrow> '' '' @ on_one_line ts = commas (map ((@) '' '') ts)"
  by (induction ts) auto

lemma padded_texts: "list_all2 (reads_as after) ts vs \<Longrightarrow> list_all2 (reads_as after) (map ((@) '' '') ts) vs"
  using reads_as_spaces [of after _ _ "'' ''"] by (auto simp: list_all2_conv_all_nth)

lemma one_text: "P t v \<Longrightarrow> \<exists>ts. list_all2 P ts [v] \<and> t = commas ts"
  by (intro exI [of _ "[t]"]) simp

text \<open>A bracket, texts and a closing bracket after spaces.\<close>

lemma appends_bracket:
  assumes "writing st" "spaces (indentation W)"
    and "appends Q (indent W (writeWithIndent W b st)) st'"
    and "\<And>w t w'. spaces w \<Longrightarrow> Q t \<Longrightarrow> spaces w' \<Longrightarrow> R (w @ b @ t @ w' @ c)"
  shows "appends R st (writeWithIndent W c (unindent W st'))"
proof -
  have 1: "appends (\<lambda>t. \<exists>w. spaces w \<and> t = w @ b) st (writeWithIndent W b st)" by (rule appends_with_indent [OF assms(1)])
  have 2: "appends Q (writeWithIndent W b st) (unindent W st')" by (rule appends_indented [OF assms(3)])
  have "writing (unindent W st')" using appends_writing [OF 1] appends_writing [OF 2] assms(1) by simp
  then have 3: "appends (\<lambda>t. \<exists>w. spaces w \<and> t = w @ c) (unindent W st') (writeWithIndent W c (unindent W st'))"
    by (rule appends_with_indent)
  from appends_trans [OF appends_trans [OF 1 2, where R = "\<lambda>t. \<exists>w u. spaces w \<and> Q u \<and> t = w @ b @ u"] 3, where R = R]
  show ?thesis using assms(4) by fastforce
qed


text \<open>An array on one line.\<close>

lemma one_line_array:
  assumes "writing st" "list_all2 (reads_as after) ts vs" "ts \<noteq> []"
  shows "appends (\<lambda>t. reads_as after t (arrayValue vs)) st (append_document (''[ '' @ on_one_line ts @ '' ]'') st)"
proof (rule appends_document)
  have "reads_as after (''['' @ commas (map ((@) '' '') ts) @ '' '' @ '']'') (arrayValue vs)"
    using array_text [OF padded_texts [OF assms(2)], of "'' ''"] assms(3) by (simp add: spaces_simps(2))
  moreover have "''[ '' @ on_one_line ts @ '' ]'' = ''['' @ commas (map ((@) '' '') ts) @ '' '' @ '']''"
    using one_line [OF assms(3)] by simp
  ultimately show "reads_as after (''[ '' @ on_one_line ts @ '' ]'') (arrayValue vs)" by (simp only:)
qed

lemma appends_fields:
  "appends P (st\<lparr>childValues := c\<rparr>) st' = appends P st st'" "writing (st\<lparr>childValues := c\<rparr>) = writing st"
  by (simp_all add: appends_def writing_def)

text \<open>
  The first half of an array: either it takes several lines whatever its texts are, with no child values,
  or the child values are the texts of its elements.
\<close>

lemma array_layout:
  assumes "canonical_elements vs" "writing st"
  shows "\<exists>multi cs. (if length vs * 3 \<ge> rightMargin \<or> list_ex has_children vs then (True, st\<lparr>childValues := []\<rparr>)
      else (case line_length pr W 0 vs (4 + (length vs - 1) * 2) (st\<lparr>childValues := []\<rparr>\<lparr>addChildValues := True\<rparr>) of
        (lineLength, st2) \<Rightarrow> (lineLength \<ge> rightMargin, st2\<lparr>addChildValues := False\<rparr>))) = (multi, st\<lparr>childValues := cs\<rparr>)
    \<and> (cs = [] \<and> multi \<or> list_all2 (reads_as after) cs vs)"
proof (cases "length vs * 3 \<ge> rightMargin \<or> list_ex has_children vs")
  case False
  let ?st1 = "st\<lparr>childValues := []\<rparr>\<lparr>addChildValues := True\<rparr>"
  have "\<forall>v \<in> set vs. canonical v \<and> \<not> has_children v"
    using False assms(1) by (auto simp: canonical_elements_all list_ex_iff)
  from line_length_texts [OF this, where st = ?st1 and pr = pr and W = W and i = 0] obtain ts where ts: "list_all2 (reads_as after) ts vs"
    "snd (line_length pr W 0 vs (4 + (length vs - 1) * 2) ?st1) = ?st1\<lparr>childValues := childValues ?st1 @ ts\<rparr>" by force
  moreover have "?st1\<lparr>childValues := childValues ?st1 @ ts\<rparr>\<lparr>addChildValues := False\<rparr> = st\<lparr>childValues := ts\<rparr>"
    using assms(2) by (simp add: writing_def)
  ultimately show ?thesis using False by (auto split: prod.splits)
qed auto

text \<open>The texts of the three loops; the induction follows the writer.\<close>

lemma styled_texts:
  shows "spaces (indentation W) \<Longrightarrow> canonical v \<Longrightarrow> writing st \<Longrightarrow> appends (\<lambda>t. reads_as after t v) st (styled_value pr W v st)"
    and "spaces (indentation W) \<Longrightarrow> canonical_members m \<Longrightarrow> m \<noteq> [] \<Longrightarrow> writing st \<Longrightarrow>
      appends (\<lambda>t. \<exists>ss. list_all2 (member_as after) ss m \<and> t = commas ss) st (styled_members pr W m st)"
    and "spaces (indentation W) \<Longrightarrow> canonical_elements vs \<Longrightarrow> vs \<noteq> [] \<Longrightarrow> writing st \<Longrightarrow>
      (has \<longrightarrow> (\<forall>j < length vs. reads_as after (childValues st ! (i + j)) (vs ! j))) \<Longrightarrow>
      appends (\<lambda>t. \<exists>ts. list_all2 (reads_as after) ts vs \<and> t = commas ts) st (styled_elements pr W has i vs st)"
    and "True"
proof (induction pr W v st and pr W m st and pr W has i vs st and pr W "i :: nat" "us :: json list" "n :: nat" st
    rule: styled_value_styled_members_styled_elements_line_length.induct)
  case (7 pr W vs st)
  show ?case
  proof (cases "vs = []")
    case True
    then show ?thesis using 7 empty_texts(1) by (simp add: appends_push)
  next
    case False
    have vs: "canonical_elements vs" using "7.prems"(2) by simp
    obtain multi cs where layout: "(if length vs * 3 \<ge> rightMargin \<or> list_ex has_children vs then (True, st\<lparr>childValues := []\<rparr>)
      else (case line_length pr W 0 vs (4 + (length vs - 1) * 2) (st\<lparr>childValues := []\<rparr>\<lparr>addChildValues := True\<rparr>) of
        (lineLength, st2) \<Rightarrow> (lineLength \<ge> rightMargin, st2\<lparr>addChildValues := False\<rparr>))) = (multi, st\<lparr>childValues := cs\<rparr>)"
      and cs: "cs = [] \<and> multi \<or> list_all2 (reads_as after) cs vs" using array_layout [OF vs "7.prems"(3)] by blast
    let ?st2 = "st\<lparr>childValues := cs\<rparr>"
    have st2: "writing ?st2" using "7.prems"(3) by (simp add: appends_fields)
    have written: "styled_value pr W (arrayValue vs) st = (if multi then writeWithIndent W '']'' (unindent W
        (styled_elements pr W (cs \<noteq> []) 0 vs (indent W (writeWithIndent W ''['' ?st2))))
      else append_document (''[ '' @ on_one_line (take (length vs) cs) @ '' ]'') ?st2)"
      using False layout by (simp add: Let_def)
    have "appends (\<lambda>t. reads_as after t (arrayValue vs)) ?st2 (styled_value pr W (arrayValue vs) st)"
    proof (cases multi)
      case True
      have "writing (indent W (writeWithIndent W ''['' ?st2))"
        using "7.prems"(1) st2 appends_writing [OF appends_with_indent] writing_indent by blast
      moreover have "cs \<noteq> [] \<longrightarrow> (\<forall>j < length vs. reads_as after (cs ! (0 + j)) (vs ! j))"
        using cs by (auto dest: list_all2_nthD2)
      ultimately have "appends (\<lambda>t. \<exists>ts. list_all2 (reads_as after) ts vs \<and> t = commas ts) (indent W (writeWithIndent W ''['' ?st2))
         (styled_elements pr W (cs \<noteq> []) 0 vs (indent W (writeWithIndent W ''['' ?st2)))"
        using "7.IH"(2) [OF False refl refl refl layout [symmetric] True refl refl "7.prems"(1) vs False] by simp
      then have "appends (\<lambda>t. reads_as after t (arrayValue vs)) ?st2 (writeWithIndent W '']'' (unindent W
          (styled_elements pr W (cs \<noteq> []) 0 vs (indent W (writeWithIndent W ''['' ?st2)))))"
        by (rule appends_bracket [OF st2 "7.prems"(1)])
          (use False in \<open>auto intro!: reads_as_spaces array_text [simplified]\<close>)
      then show ?thesis by (simp only: written True if_True)
    next
      case single: False
      then have ts: "list_all2 (reads_as after) cs vs" using cs by simp
      then have "cs \<noteq> []" "take (length vs) cs = cs" using False by (auto dest: list_all2_lengthD)
      then show ?thesis using one_line_array [OF st2 ts] by (simp only: written single if_False not_False_eq_True simp_thms)
    qed
    then show ?thesis by (simp only: appends_fields)
  qed
next
  case (8 pr W m st)
  show ?case
  proof (cases "m = []")
    case True
    then show ?thesis using 8 empty_texts(2) by (simp add: appends_push)
  next
    case False
    have "writing (indent W (writeWithIndent W ''{'' st))"
      using 8(2,4) appends_writing [OF appends_with_indent] writing_indent by blast
    from 8(1) [OF False 8(2) _ False this] have
      "appends (\<lambda>t. \<exists>ss. list_all2 (member_as after) ss m \<and> t = commas ss) (indent W (writeWithIndent W ''{'' st))
         (styled_members pr W m (indent W (writeWithIndent W ''{'' st)))" using 8(3) by simp
    then have "appends (\<lambda>t. reads_as after t (objectValue m)) st (writeWithIndent W ''}'' (unindent W
        (styled_members pr W m (indent W (writeWithIndent W ''{'' st)))))"
      by (rule appends_bracket [OF 8(4,2)]) (use False 8(3) in \<open>auto intro!: reads_as_spaces object_text [simplified]\<close>)
    with False show ?thesis by simp
  qed
next
  case (10 pr W k v m st)
  let ?st0 = "append_document '' : '' (writeWithIndent W (valueToQuotedString k) st)"
  let ?st1 = "styled_value pr W v ?st0"
  have k: "plain_string k" and v: "canonical v" and m: "canonical_members m" using "10.prems"(2) by simp_all
  have 1: "appends (\<lambda>t. \<exists>w. spaces w \<and> t = w @ valueToQuotedString k @ '' : '') st ?st0"
    by (rule appends_trans [OF appends_with_indent [OF "10.prems"(4)] appends_document [where P = "\<lambda>t. t = '' : ''"]]) auto
  then have st0: "writing ?st0" using appends_writing "10.prems"(4) by blast
  from "10.IH"(1) [OF "10.prems"(1) v st0] have 2: "appends (\<lambda>t. reads_as after t v) ?st0 ?st1" .
  have 3: "appends (\<lambda>t. member_as after t (k, v)) st ?st1"
  proof (rule appends_trans [OF 1 2])
    fix s t assume "\<exists>w. spaces w \<and> s = w @ valueToQuotedString k @ '' : ''" and t: "reads_as after t v"
    then obtain w where w: "spaces w" "s = w @ valueToQuotedString k @ '' : ''" by blast
    have "reads_as after ('' '' @ t) v" using t reads_as_spaces [of after t v "'' ''"] by simp
    then show "member_as after (s @ t) (k, v)"
      unfolding member_as_def using w k by (intro exI [of _ w] exI [of _ "'' ''"] exI [of _ "'' '' @ t"]) simp
  qed
  show ?case
  proof (cases "m = []")
    case True
    have "appends (\<lambda>t. \<exists>ss. list_all2 (member_as after) ss [(k, v)] \<and> t = commas ss) st ?st1"
      by (rule appends_weaken [OF 3 one_text])
    with True show ?thesis by simp
  next
    case False
    have "writing (append_document '','' ?st1)"
      using appends_writing [OF 3] "10.prems"(4) by (simp add: writing_def append_document_def)
    from "10.IH"(2) [OF refl False "10.prems"(1) m False this] have
      4: "appends (\<lambda>t. \<exists>ss. list_all2 (member_as after) ss m \<and> t = commas ss) (append_document '','' ?st1)
        (styled_members pr W m (append_document '','' ?st1))" .
    have "appends (\<lambda>t. \<exists>ss. list_all2 (member_as after) ss ((k, v) # m) \<and> t = commas ss) st
        (styled_members pr W m (append_document '','' ?st1))"
    proof (rule appends_comma [OF 3 4])
      fix s t assume "member_as after s (k, v)" "\<exists>ss. list_all2 (member_as after) ss m \<and> t = commas ss"
      then obtain ss where "member_as after s (k, v)" "list_all2 (member_as after) ss m" "t = commas ss" by blast
      then show "\<exists>ss. list_all2 (member_as after) ss ((k, v) # m) \<and> s @ '','' @ t = commas ss"
        using False by (intro exI [of _ "s # ss"]) auto
    qed
    with False show ?thesis by (simp add: Let_def)
  qed
next
  case (12 pr W has i v vs st)
  let ?st1 = "if has then writeWithIndent W (childValues st ! i) st else styled_value pr W v (writeIndent W st)"
  have v: "canonical v" and vs: "canonical_elements vs" using "12.prems"(2) by simp_all
  have 1: "appends (\<lambda>t. reads_as after t v) st ?st1"
  proof (cases has)
    case True
    then have "reads_as after (childValues st ! i) v" using "12.prems"(5) by force
    then have "appends (\<lambda>t. reads_as after t v) st (writeWithIndent W (childValues st ! i) st)"
      by (intro appends_weaken [OF appends_with_indent [OF "12.prems"(4)]]) (auto intro: reads_as_spaces)
    with True show ?thesis by simp
  next
    case False
    have i: "appends spaces st (writeIndent W st)" by (rule appends_indent [OF "12.prems"(4)])
    then have "writing (writeIndent W st)" using appends_writing "12.prems"(4) by blast
    from "12.IH"(1) [OF False "12.prems"(1) v this] have
      "appends (\<lambda>t. reads_as after t v) (writeIndent W st) (styled_value pr W v (writeIndent W st))" .
    from appends_trans [OF i this] show ?thesis using False reads_as_spaces by simp
  qed
  show ?case
  proof (cases "vs = []")
    case True
    have "appends (\<lambda>t. \<exists>ts. list_all2 (reads_as after) ts [v] \<and> t = commas ts) st ?st1"
      by (rule appends_weaken [OF 1 one_text])
    with True show ?thesis by simp
  next
    case False
    let ?st2 = "append_document '','' ?st1"
    have w: "writing ?st2" using appends_writing [OF 1] "12.prems"(4) by (simp add: writing_def append_document_def)
    have c: "has \<longrightarrow> (\<forall>j < length vs. reads_as after (childValues ?st2 ! (Suc i + j)) (vs ! j))"
      using "12.prems"(5) by force
    from "12.IH"(2) [OF refl False "12.prems"(1) vs False w c] have
      2: "appends (\<lambda>t. \<exists>ts. list_all2 (reads_as after) ts vs \<and> t = commas ts) ?st2 (styled_elements pr W has (Suc i) vs ?st2)" .
    have "appends (\<lambda>t. \<exists>ts. list_all2 (reads_as after) ts (v # vs) \<and> t = commas ts) st (styled_elements pr W has (Suc i) vs ?st2)"
    proof (rule appends_comma [OF 1 2])
      fix s t assume "reads_as after s v" "\<exists>ts. list_all2 (reads_as after) ts vs \<and> t = commas ts"
      then obtain ts where "reads_as after s v" "list_all2 (reads_as after) ts vs" "t = commas ts" by blast
      then show "\<exists>ts. list_all2 (reads_as after) ts (v # vs) \<and> s @ '','' @ t = commas ts"
        using False by (intro exI [of _ "s # ts"]) auto
    qed
    with False show ?thesis by (simp add: Let_def)
  qed
qed (use scalar_texts empty_texts appends_push in simp_all)

lemma styled_document:
  assumes "spaces (indentation W)" "canonical v"
  shows "json_parse after (sw_document (append_document [LF] (styled_value pr W v styled_start))) = Some v"
proof -
  have "writing styled_start" by (simp add: writing_def styled_start_def)
  from appendsE [OF styled_texts(1) [OF assms this]] obtain t where
    "reads_as after t v" "sw_document (styled_value pr W v styled_start) = sw_document styled_start @ t" by blast
  then show ?thesis using document_read by (simp add: append_document_def styled_start_def)
qed

text \<open>
  C30. Round trip of the styled writers: the document either of them writes from a value that has no
  double and no string with a NUL, with its integers and members in the reader's form, is read back as
  that value, however its arrays are laid out on lines, for the writer to a stream with any blank
  indentation.
\<close>

theorem styled_roundtrip:
  assumes "canonical v" "spaces i"
  shows "json_parse after (StyledWriter_write pr v) = Some v \<and> json_parse after (StyledStreamWriter_write pr i v) = Some v"
proof -
  have "spaces (indentation Document)" by (simp add: indentation_def spaces_def list_all_iff)
  then show ?thesis using assms styled_document
    by (simp add: StyledWriter_write_def StyledStreamWriter_write_def indentation_def)
qed

theorem styled_roundtrip_witness:
  "json_parse (CHR ''!'') (StyledWriter_write (\<lambda>d. ''0.0'') sample_json) = Some sample_json
   \<and> json_parse (CHR ''!'') (StyledStreamWriter_write (\<lambda>d. ''0.0'') [CHR 0x09] sample_json) = Some sample_json"
proof (rule styled_roundtrip)
  show "canonical sample_json" by (simp add: sample_json_def map_ok_def plain_string_def less_char_def)
  show "spaces [CHR 0x09]" by (simp add: spaces_def)
qed

end
