(* ===== verification/JsonOps.thy ===== *)
theory JsonOps
  imports Json
begin

text \<open>
  The class \<open>Value\<close> of the JSON library (\<open>jsoncpp.cc\<close>) with all its operations. Unlike the values of
  the reader (theory \<open>Json\<close>), an array is kept as the library keeps it, as a \<open>std::map\<close> from indices that
  may have gaps, a string may be the null pointer of \<open>Value( stringValue )\<close>, and a double is any
  double of the platform: its comparison and conversions are a record of functions. A failed
  assertion and a thrown \<open>std::runtime_error\<close> are None.
\<close>

section \<open>Values\<close>

datatype 'd jvalue =
    JNull
  | JInt "64 word"
  | JUInt "64 word"
  | JReal 'd
  | JString "string option"
  | JBool bool
  | JArray "(32 word \<times> 'd jvalue) list"
  | JObject "(string \<times> 'd jvalue) list"

datatype ValueType = nullT | intT | uintT | realT | stringT | booleanT | arrayT | objectT

fun jtype :: "'d jvalue \<Rightarrow> ValueType" where
  "jtype JNull = nullT"
| "jtype (JInt _) = intT"
| "jtype (JUInt _) = uintT"
| "jtype (JReal _) = realT"
| "jtype (JString _) = stringT"
| "jtype (JBool _) = booleanT"
| "jtype (JArray _) = arrayT"
| "jtype (JObject _) = objectT"

text \<open>What the library uses of a \<open>double\<close>: \<open><\<close>, \<open>==\<close> and the conversions from and to integers.\<close>

record 'd double_api =
  d_less :: "'d \<Rightarrow> 'd \<Rightarrow> bool"
  d_eq :: "'d \<Rightarrow> 'd \<Rightarrow> bool"
  d_of_int :: "int \<Rightarrow> 'd"
  d_to_Int :: "'d \<Rightarrow> 32 word"
  d_to_UInt :: "'d \<Rightarrow> 32 word"

definition d_between :: "'d double_api \<Rightarrow> int \<Rightarrow> 'd \<Rightarrow> int \<Rightarrow> bool" where
  "d_between D lo d hi \<longleftrightarrow> (d_less D (d_of_int D lo) d \<or> d_eq D d (d_of_int D lo)) \<and> (d_less D d (d_of_int D hi) \<or> d_eq D d (d_of_int D hi))"

definition minInt :: int where "minInt = - (2 ^ 31)"
definition maxInt :: int where "maxInt = 2 ^ 31 - 1"
definition maxUInt :: int where "maxUInt = 2 ^ 32 - 1"
definition minInt64 :: int where "minInt64 = - (2 ^ 63)"
definition maxInt64 :: int where "maxInt64 = 2 ^ 63 - 1"
definition maxUInt64 :: int where "maxUInt64 = 2 ^ 64 - 1"

text \<open>\<open>Value( type )\<close>.\<close>

definition new_Value :: "'d double_api \<Rightarrow> ValueType \<Rightarrow> 'd jvalue" where
  "new_Value D t =
     (case t of
        nullT \<Rightarrow> JNull
      | intT \<Rightarrow> JInt 0
      | uintT \<Rightarrow> JUInt 0
      | realT \<Rightarrow> JReal (d_of_int D 0)
      | stringT \<Rightarrow> JString None
      | booleanT \<Rightarrow> JBool False
      | arrayT \<Rightarrow> JArray []
      | objectT \<Rightarrow> JObject [])"

definition jisNull :: "'d jvalue \<Rightarrow> bool" where "jisNull v \<longleftrightarrow> jtype v = nullT"
definition jisIntegral :: "'d jvalue \<Rightarrow> bool" where "jisIntegral v \<longleftrightarrow> jtype v \<in> {intT, uintT, booleanT}"
definition jisNumeric :: "'d jvalue \<Rightarrow> bool" where "jisNumeric v \<longleftrightarrow> jisIntegral v \<or> jtype v = realT"
definition jisArray :: "'d jvalue \<Rightarrow> bool" where "jisArray v \<longleftrightarrow> jtype v = nullT \<or> jtype v = arrayT"
definition jisObject :: "'d jvalue \<Rightarrow> bool" where "jisObject v \<longleftrightarrow> jtype v = nullT \<or> jtype v = objectT"

section \<open>Conversions\<close>

definition jasString :: "'d jvalue \<Rightarrow> string option" where
  "jasString v =
     (case v of
        JNull \<Rightarrow> Some ''''
      | JString s \<Rightarrow> Some (case s of Some t \<Rightarrow> c_str t | None \<Rightarrow> '''')
      | JBool b \<Rightarrow> Some (if b then ''true'' else ''false'')
      | _ \<Rightarrow> None)"

definition asInt :: "'d double_api \<Rightarrow> 'd jvalue \<Rightarrow> 32 word option" where
  "asInt D v =
     (case v of
        JNull \<Rightarrow> Some 0
      | JInt n \<Rightarrow> if minInt \<le> sint n \<and> sint n \<le> maxInt then Some (ucast n) else None
      | JUInt n \<Rightarrow> if uint n \<le> maxInt then Some (ucast n) else None
      | JReal d \<Rightarrow> if d_between D minInt d maxInt then Some (d_to_Int D d) else None
      | JBool b \<Rightarrow> Some (if b then 1 else 0)
      | _ \<Rightarrow> None)"

definition asUInt :: "'d double_api \<Rightarrow> 'd jvalue \<Rightarrow> 32 word option" where
  "asUInt D v =
     (case v of
        JNull \<Rightarrow> Some 0
      | JInt n \<Rightarrow> if 0 \<le> sint n \<and> sint n \<le> maxUInt then Some (ucast n) else None
      | JUInt n \<Rightarrow> if uint n \<le> maxUInt then Some (ucast n) else None
      | JReal d \<Rightarrow> if d_between D 0 d maxUInt then Some (d_to_UInt D d) else None
      | JBool b \<Rightarrow> Some (if b then 1 else 0)
      | _ \<Rightarrow> None)"

text \<open>A double goes through a 32-bit integer in the two 64-bit conversions.\<close>

definition jasInt64 :: "'d double_api \<Rightarrow> 'd jvalue \<Rightarrow> 64 word option" where
  "jasInt64 D v =
     (case v of
        JNull \<Rightarrow> Some 0
      | JInt n \<Rightarrow> Some n
      | JUInt n \<Rightarrow> if uint n \<le> maxInt64 then Some n else None
      | JReal d \<Rightarrow> if d_between D minInt64 d maxInt64 then Some (scast (d_to_Int D d)) else None
      | JBool b \<Rightarrow> Some (if b then 1 else 0)
      | _ \<Rightarrow> None)"

definition asUInt64 :: "'d double_api \<Rightarrow> 'd jvalue \<Rightarrow> 64 word option" where
  "asUInt64 D v =
     (case v of
        JNull \<Rightarrow> Some 0
      | JInt n \<Rightarrow> if 0 \<le> sint n then Some n else None
      | JUInt n \<Rightarrow> Some n
      | JReal d \<Rightarrow> if d_between D 0 d maxUInt64 then Some (ucast (d_to_UInt D d)) else None
      | JBool b \<Rightarrow> Some (if b then 1 else 0)
      | _ \<Rightarrow> None)"

definition jasBool :: "'d double_api \<Rightarrow> 'd jvalue \<Rightarrow> bool" where
  "jasBool D v =
     (case v of
        JNull \<Rightarrow> False
      | JInt n \<Rightarrow> n \<noteq> 0
      | JUInt n \<Rightarrow> n \<noteq> 0
      | JReal d \<Rightarrow> \<not> d_eq D d (d_of_int D 0)
      | JBool b \<Rightarrow> b
      | JString s \<Rightarrow> (case s of Some t \<Rightarrow> c_str t \<noteq> [] | None \<Rightarrow> False)
      | JArray m \<Rightarrow> m \<noteq> []
      | JObject m \<Rightarrow> m \<noteq> [])"

definition isConvertibleTo :: "'d double_api \<Rightarrow> 'd jvalue \<Rightarrow> ValueType \<Rightarrow> bool" where
  "isConvertibleTo D v t =
     (case v of
        JNull \<Rightarrow> True
      | JInt n \<Rightarrow> t = nullT \<and> n = 0 \<or> t = intT \<or> t = uintT \<and> 0 \<le> sint n \<or> t \<in> {realT, stringT, booleanT}
      | JUInt n \<Rightarrow> t = nullT \<and> n = 0 \<or> t = intT \<and> uint n \<le> maxInt \<or> t \<in> {uintT, realT, stringT, booleanT}
      | JReal d \<Rightarrow> t = nullT \<and> d_eq D d (d_of_int D 0) \<or> t = intT \<and> d_between D minInt d maxInt
          \<or> t = uintT \<and> d_between D 0 d maxUInt \<or> t \<in> {realT, stringT, booleanT}
      | JBool b \<Rightarrow> t = nullT \<and> \<not> b \<or> t \<in> {intT, uintT, realT, stringT, booleanT}
      | JString s \<Rightarrow> t = stringT \<or> t = nullT \<and> (case s of Some x \<Rightarrow> c_str x = [] | None \<Rightarrow> True)
      | JArray m \<Rightarrow> t = arrayT \<or> t = nullT \<and> m = []
      | JObject m \<Rightarrow> t = objectT \<or> t = nullT \<and> m = [])"

section \<open>Elements and members\<close>

text \<open>The size of an array is its highest index and one, in 32 bits; \<open>ArrayIndex( size )\<close> for an object.\<close>

definition jsize :: "'d jvalue \<Rightarrow> 32 word" where
  "jsize v =
     (case v of
        JArray m \<Rightarrow> if m \<noteq> [] then fst (last m) + 1 else 0
      | JObject m \<Rightarrow> of_nat (length m)
      | _ \<Rightarrow> 0)"

definition jempty :: "'d jvalue \<Rightarrow> bool" where
  "jempty v \<longleftrightarrow> (jisNull v \<or> jisArray v \<or> jisObject v) \<and> jsize v = 0"

definition clear :: "'d jvalue \<Rightarrow> 'd jvalue option" where
  "clear v = (case v of JNull \<Rightarrow> Some JNull | JArray _ \<Rightarrow> Some (JArray []) | JObject _ \<Rightarrow> Some (JObject []) | _ \<Rightarrow> None)"

text \<open>
  \<open>operator[]\<close> of a constant value: outside None the reference is to \<open>Value::null\<close>, which the callers
  compare addresses with (None), or to the element found.
\<close>

definition const_index :: "32 word \<Rightarrow> 'd jvalue \<Rightarrow> 'd jvalue option option" where
  "const_index i v = (case v of JNull \<Rightarrow> Some None | JArray m \<Rightarrow> Some (map_find m i) | _ \<Rightarrow> None)"

definition const_member :: "string \<Rightarrow> 'd jvalue \<Rightarrow> 'd jvalue option option" where
  "const_member k v = (case v of JNull \<Rightarrow> Some None | JObject m \<Rightarrow> Some (map_find m (c_str k)) | _ \<Rightarrow> None)"

text \<open>
  \<open>operator[]\<close> of a variable: the value after the call, in which the element exists, as null when it
  is new. Assigning through the reference is the second definition.
\<close>

definition make_index :: "32 word \<Rightarrow> 'd jvalue \<Rightarrow> 'd jvalue option" where
  "make_index i v = (case v of JNull \<Rightarrow> Some (JArray (map_insert i JNull [])) | JArray m \<Rightarrow> Some (JArray (map_insert i JNull m)) | _ \<Rightarrow> None)"

definition resolveReference :: "string \<Rightarrow> 'd jvalue \<Rightarrow> 'd jvalue option" where
  "resolveReference k v =
     (case v of
        JNull \<Rightarrow> Some (JObject (map_insert (c_str k) JNull []))
      | JObject m \<Rightarrow> Some (JObject (map_insert (c_str k) JNull m))
      | _ \<Rightarrow> None)"

definition at_index :: "32 word \<Rightarrow> ('d jvalue \<Rightarrow> 'd jvalue) \<Rightarrow> 'd jvalue \<Rightarrow> 'd jvalue" where
  "at_index i f v = (case v of JArray m \<Rightarrow> JArray (map_modify i f m) | _ \<Rightarrow> v)"

definition at_member :: "string \<Rightarrow> ('d jvalue \<Rightarrow> 'd jvalue) \<Rightarrow> 'd jvalue \<Rightarrow> 'd jvalue" where
  "at_member k f v = (case v of JObject m \<Rightarrow> JObject (map_modify (c_str k) f m) | _ \<Rightarrow> v)"

text \<open>\<open>get\<close> with a default, \<open>isValidIndex\<close>, \<open>isMember\<close>.\<close>

definition get_index :: "32 word \<Rightarrow> 'd jvalue \<Rightarrow> 'd jvalue \<Rightarrow> 'd jvalue option" where
  "get_index i d v = map_option (\<lambda>r. case r of None \<Rightarrow> d | Some x \<Rightarrow> x) (const_index i v)"

definition get_member :: "string \<Rightarrow> 'd jvalue \<Rightarrow> 'd jvalue \<Rightarrow> 'd jvalue option" where
  "get_member k d v = map_option (\<lambda>r. case r of None \<Rightarrow> d | Some x \<Rightarrow> x) (const_member k v)"

definition isValidIndex :: "32 word \<Rightarrow> 'd jvalue \<Rightarrow> bool" where
  "isValidIndex i v \<longleftrightarrow> i < jsize v"

definition isMember :: "string \<Rightarrow> 'd jvalue \<Rightarrow> bool option" where
  "isMember k v = map_option (\<lambda>r. r \<noteq> None) (const_member k v)"

text \<open>\<open>value[i] = x\<close>, \<open>value[k] = x\<close> and \<open>append\<close>.\<close>

definition set_index :: "32 word \<Rightarrow> 'd jvalue \<Rightarrow> 'd jvalue \<Rightarrow> 'd jvalue option" where
  "set_index i x v = map_option (at_index i (\<lambda>_. x)) (make_index i v)"

definition set_key :: "string \<Rightarrow> 'd jvalue \<Rightarrow> 'd jvalue \<Rightarrow> 'd jvalue option" where
  "set_key k x v = map_option (at_member k (\<lambda>_. x)) (resolveReference k v)"

definition append_value :: "'d jvalue \<Rightarrow> 'd jvalue \<Rightarrow> 'd jvalue option" where
  "append_value x v = set_index (jsize v) x v"

text \<open>
  \<open>resize\<close>: growing touches the last index, shrinking erases the indices from the new size up to the
  old one, and the final assertion is on the size.
\<close>

function erase_range :: "32 word \<Rightarrow> 32 word \<Rightarrow> (32 word, 'd jvalue) std_map \<Rightarrow> (32 word, 'd jvalue) std_map" where
  "erase_range i n m = (if i < n then erase_range (i + 1) n (map_erase i m) else m)"
  by auto
termination
proof (relation "measure (\<lambda>(i, n, m). unat (n - i))")
  fix i n :: "32 word" and m :: "(32 word, 'd jvalue) std_map"
  assume "i < n"
  then show "((i + 1, n, map_erase i m), (i, n, m)) \<in> measure (\<lambda>(i, n, m). unat (n - i))"
    by (simp add: unat_sub_if_size word_less_nat_alt) (unat_arith?)
qed simp

declare erase_range.simps [simp del]

definition resize :: "32 word \<Rightarrow> 'd jvalue \<Rightarrow> 'd jvalue option" where
  "resize n v =
     (case (case v of JNull \<Rightarrow> JArray [] | _ \<Rightarrow> v) of
        JArray m \<Rightarrow>
          (if n = 0 then Some (JArray [])
           else if n > jsize (JArray m) then make_index (n - 1) (JArray m)
           else
             let v' = JArray (erase_range n (jsize (JArray m)) m)
             in if jsize v' = n then Some v' else None)
      | _ \<Rightarrow> None)"

definition removeMember :: "string \<Rightarrow> 'd jvalue \<Rightarrow> ('d jvalue \<times> 'd jvalue) option" where
  "removeMember k v =
     (case v of
        JNull \<Rightarrow> Some (JNull, JNull)
      | JObject m \<Rightarrow> Some (case map_find m (c_str k) of None \<Rightarrow> (JNull, v) | Some x \<Rightarrow> (x, JObject (map_erase (c_str k) m)))
      | _ \<Rightarrow> None)"

definition getMemberNames :: "'d jvalue \<Rightarrow> string list option" where
  "getMemberNames v = (case v of JNull \<Rightarrow> Some [] | JObject m \<Rightarrow> Some (map fst m) | _ \<Rightarrow> None)"

section \<open>Well-formed values\<close>

text \<open>Maps are in order at every depth, and names are C strings.\<close>

fun jvalue_ok :: "'d jvalue \<Rightarrow> bool" where
  "jvalue_ok (JArray m) = (map_ok m \<and> (\<forall>p \<in> set m. jvalue_ok (snd p)))"
| "jvalue_ok (JObject m) = (map_ok m \<and> (\<forall>p \<in> set m. CHR 0x00 \<notin> set (fst p) \<and> jvalue_ok (snd p)))"
| "jvalue_ok _ = True"

text \<open>The two conditions on a map, and the operations on maps.\<close>

definition children_ok :: "('k::linorder \<times> 'd jvalue) list \<Rightarrow> bool" where
  "children_ok m \<longleftrightarrow> map_ok m \<and> (\<forall>p \<in> set m. jvalue_ok (snd p))"

definition names_ok :: "(string \<times> 'd jvalue) list \<Rightarrow> bool" where
  "names_ok m \<longleftrightarrow> (\<forall>k \<in> fst ` set m. CHR 0x00 \<notin> set k)"

lemma jvalue_ok_maps: "jvalue_ok (JArray m) = children_ok m" "jvalue_ok (JObject m') = (children_ok m' \<and> names_ok m')"
  by (auto simp: children_ok_def names_ok_def)

lemma map_insert_subset: "set (map_insert k v m) \<subseteq> insert (k, v) (set m)"
  by (induction k v m rule: map_insert.induct) auto

lemma children_ok_simps [simp]:
  "children_ok []" "children_ok m \<Longrightarrow> jvalue_ok v \<Longrightarrow> children_ok (map_insert k v m)"
  "children_ok m \<Longrightarrow> (\<And>x. jvalue_ok x \<Longrightarrow> jvalue_ok (f x)) \<Longrightarrow> children_ok (map_modify k f m)"
  "children_ok m \<Longrightarrow> children_ok (map_erase k m)"
proof -
  show "children_ok m \<Longrightarrow> jvalue_ok v \<Longrightarrow> children_ok (map_insert k v m)"
    using map_insert_subset [of k v m] by (fastforce simp: children_ok_def)
qed (auto simp: children_ok_def, auto simp: map_modify_def map_erase_def)

lemma children_ok_find: "children_ok m \<Longrightarrow> map_find m k = Some x \<Longrightarrow> jvalue_ok x"
  by (auto simp: children_ok_def map_find_set)

lemma c_str_clean: "CHR 0x00 \<notin> set (c_str s)"
  by (auto simp: c_str_def dest: set_takeWhileD)

lemma names_ok_simps [simp]:
  "names_ok []" "names_ok m \<Longrightarrow> names_ok (map_insert (c_str k) v m)" "names_ok (map_modify k f m) = names_ok m"
  "names_ok m \<Longrightarrow> names_ok (map_erase k m)"
proof -
  have "fst ` set (map_modify k f m) = fst ` set m" by (metis fst_map_modify list.set_map)
  then show "names_ok (map_modify k f m) = names_ok m" by (simp only: names_ok_def)
qed (use c_str_clean [of k] in \<open>auto simp: names_ok_def fst_set_insert map_erase_def\<close>)

declare jvalue_ok.simps(1,2) [simp del] jvalue_ok_maps [simp]

lemma make_index_ok: "jvalue_ok v \<Longrightarrow> make_index i v = Some v' \<Longrightarrow> jvalue_ok v'"
  by (cases v) (auto simp: make_index_def simp del: map_insert.simps)

lemma resolveReference_ok: "jvalue_ok v \<Longrightarrow> resolveReference k v = Some v' \<Longrightarrow> jvalue_ok v'"
  by (cases v) (auto simp: resolveReference_def simp del: map_insert.simps)

lemma at_index_ok: "jvalue_ok v \<Longrightarrow> (\<And>x. jvalue_ok x \<Longrightarrow> jvalue_ok (f x)) \<Longrightarrow> jvalue_ok (at_index i f v)"
  by (cases v) (simp_all add: at_index_def)

lemma at_member_ok: "jvalue_ok v \<Longrightarrow> (\<And>x. jvalue_ok x \<Longrightarrow> jvalue_ok (f x)) \<Longrightarrow> jvalue_ok (at_member k f v)"
  by (cases v) (simp_all add: at_member_def)

lemma set_index_ok: "jvalue_ok v \<Longrightarrow> jvalue_ok x \<Longrightarrow> set_index i x v = Some v' \<Longrightarrow> jvalue_ok v'"
  by (auto simp: set_index_def intro: at_index_ok dest: make_index_ok)

lemma set_key_ok: "jvalue_ok v \<Longrightarrow> jvalue_ok x \<Longrightarrow> set_key k x v = Some v' \<Longrightarrow> jvalue_ok v'"
  by (auto simp: set_key_def intro: at_member_ok dest: resolveReference_ok)

lemma erase_range_ok: "children_ok m \<Longrightarrow> children_ok (erase_range i n m)"
proof (induction i n m rule: erase_range.induct)
  case (1 i n m)
  then show ?case by (subst erase_range.simps) simp
qed

lemma resize_null: "resize n JNull = resize n (JArray [])"
  by (simp add: resize_def)

lemma resize_array:
  "resize n (JArray m) =
     (if n = 0 then Some (JArray [])
      else if n > jsize (JArray m) then make_index (n - 1) (JArray m)
      else if jsize (JArray (erase_range n (jsize (JArray m)) m)) = n then Some (JArray (erase_range n (jsize (JArray m)) m)) else None)"
  by (simp add: resize_def Let_def)

lemma resize_ok:
  assumes "jvalue_ok v" "resize n v = Some v'"
  shows "jvalue_ok v'"
proof -
  have array: "jvalue_ok v'" if "children_ok m" "resize n (JArray m) = Some v'" for m
    using that(2) make_index_ok [of "JArray m"] erase_range_ok [OF that(1), of n "jsize (JArray m)"] that(1)
    by (auto simp: resize_array split: if_split_asm) (metis jvalue_ok_maps(1))
  have "resize n v = None" if "jtype v \<notin> {nullT, arrayT}" using that by (cases v) (simp_all add: resize_def)
  moreover have "v = JNull \<Longrightarrow> jvalue_ok v'" using array [of "[]"] assms(2) resize_null [of n] children_ok_simps(1) by metis
  ultimately show ?thesis using assms array by (cases v) auto
qed

lemma removeMember_ok:
  assumes "jvalue_ok v" "removeMember k v = Some (x, v')"
  shows "jvalue_ok x \<and> jvalue_ok v'"
  using assms by (cases v) (auto simp: removeMember_def children_ok_find split: option.splits)

text \<open>An operation of the class on a value.\<close>

datatype 'd value_op =
    SetIndex "32 word" "'d jvalue"
  | SetKey string "'d jvalue"
  | Append "'d jvalue"
  | Resize "32 word"
  | Remove string
  | Clear

fun value_op_arg :: "'d value_op \<Rightarrow> 'd jvalue" where
  "value_op_arg (SetIndex _ x) = x"
| "value_op_arg (SetKey _ x) = x"
| "value_op_arg (Append x) = x"
| "value_op_arg _ = JNull"

fun run_op :: "'d value_op \<Rightarrow> 'd jvalue \<Rightarrow> 'd jvalue option" where
  "run_op (SetIndex i x) v = set_index i x v"
| "run_op (SetKey k x) v = set_key k x v"
| "run_op (Append x) v = append_value x v"
| "run_op (Resize n) v = resize n v"
| "run_op (Remove k) v = map_option snd (removeMember k v)"
| "run_op Clear v = clear v"

fun run_ops :: "'d value_op list \<Rightarrow> 'd jvalue \<Rightarrow> 'd jvalue option" where
  "run_ops [] v = Some v"
| "run_ops (c # cs) v = (case run_op c v of None \<Rightarrow> None | Some v' \<Rightarrow> run_ops cs v')"

lemma run_op_ok: "jvalue_ok v \<Longrightarrow> jvalue_ok (value_op_arg c) \<Longrightarrow> run_op c v = Some v' \<Longrightarrow> jvalue_ok v'"
  by (cases c) (auto simp: append_value_def clear_def split: jvalue.splits intro: set_index_ok set_key_ok resize_ok dest: removeMember_ok)

text \<open>
  Whatever sequence of operations is performed on a value, its maps stay in order without
  duplicates at every depth and its names stay C strings.
\<close>

theorem value_operations_ok:
  assumes "jvalue_ok v" "list_all (\<lambda>c. jvalue_ok (value_op_arg c)) cs" "run_ops cs v = Some v'"
  shows "jvalue_ok v'"
  using assms by (induction cs arbitrary: v) (auto split: option.splits dest: run_op_ok)

theorem value_operations_ok_witness:
  "run_ops [SetKey ''a'' (JArray []), Remove ''b'', SetKey ''0'' JNull] JNull = Some (JObject [(''0'', JNull :: nat jvalue), (''a'', JArray [])])
   \<and> jvalue_ok (JObject [(''0'', JNull), (''a'', JArray [])] :: nat jvalue)"
proof -
  have "run_ops [SetKey ''a'' (JArray []), Remove ''b'', SetKey ''0'' JNull] JNull = Some (JObject [(''0'', JNull :: nat jvalue), (''a'', JArray [])])"
    by (simp add: set_key_def resolveReference_def at_member_def map_modify_def removeMember_def map_find_def c_str_def less_char_def)
  from this value_operations_ok [OF _ _ this] show ?thesis by simp
qed

section \<open>Arrays\<close>

text \<open>
  The contract of \<open>operator[]\<close>, shared by elements and members: \<open>look\<close> is the constant operator
  (None when the key is absent), \<open>make\<close> the variable one and \<open>store\<close> an assignment through the reference.
\<close>

locale element_access =
  fixes look :: "'k \<Rightarrow> 'v \<Rightarrow> 'x option"
    and make :: "'k \<Rightarrow> 'v \<Rightarrow> 'v option"
    and store :: "'k \<Rightarrow> ('x \<Rightarrow> 'x) \<Rightarrow> 'v \<Rightarrow> 'v"
    and fresh :: 'x
    and ok :: "'v \<Rightarrow> bool"
    and same :: "'k \<Rightarrow> 'k \<Rightarrow> bool"
  assumes look_make: "ok v \<Longrightarrow> make k v = Some v' \<Longrightarrow> look j v' = (if same j k \<and> look j v = None then Some fresh else look j v)"
    and look_store: "ok v \<Longrightarrow> look j (store k f v) = (if same j k then map_option f (look j v) else look j v)"
    and ok_make: "ok v \<Longrightarrow> make k v = Some v' \<Longrightarrow> ok v'"
begin

text \<open>Reading after an assignment through \<open>operator[]\<close>.\<close>

lemma look_set:
  assumes "ok v" "map_option (store k (\<lambda>_. x)) (make k v) = Some v'"
  shows "look j v' = (if same j k then Some x else look j v)"
proof -
  obtain u where u: "make k v = Some u" "v' = store k (\<lambda>_. x) u" using assms(2) by auto
  then show ?thesis
    using look_make [OF assms(1) u(1)] look_store [OF ok_make [OF assms(1) u(1)]] by (auto split: option.splits)
qed

end

definition look_index :: "32 word \<Rightarrow> 'd jvalue \<Rightarrow> 'd jvalue option" where
  "look_index i v = (case const_index i v of Some r \<Rightarrow> r | None \<Rightarrow> None)"

definition look_member :: "string \<Rightarrow> 'd jvalue \<Rightarrow> 'd jvalue option" where
  "look_member k v = (case const_member k v of Some r \<Rightarrow> r | None \<Rightarrow> None)"

lemma children_map_ok: "children_ok m \<Longrightarrow> map_ok m"
  by (simp add: children_ok_def)

lemma map_find_Nil [simp]: "map_find [] k = None"
  by (simp add: map_find_def)

interpretation index: element_access look_index make_index at_index JNull jvalue_ok "(=)"
proof
  fix v v' :: "'a jvalue" and i j :: "32 word"
  assume v: "jvalue_ok v" "make_index i v = Some v'"
  then show "look_index j v' = (if j = i \<and> look_index j v = None then Some JNull else look_index j v)"
    by (cases v) (auto simp: make_index_def look_index_def const_index_def map_find_insert children_map_ok simp del: map_insert.simps)
  show "jvalue_ok v'" using v by (rule make_index_ok)
next
  fix v :: "'a jvalue" and i j :: "32 word" and f
  show "look_index j (at_index i f v) = (if j = i then map_option f (look_index j v) else look_index j v)"
    by (cases v) (auto simp: at_index_def look_index_def const_index_def map_find_modify)
qed

interpretation member: element_access look_member resolveReference at_member JNull jvalue_ok "\<lambda>j k. c_str j = c_str k"
proof
  fix v v' :: "'a jvalue" and j k :: string
  assume v: "jvalue_ok v" "resolveReference k v = Some v'"
  then show "look_member j v' = (if c_str j = c_str k \<and> look_member j v = None then Some JNull else look_member j v)"
    by (cases v) (auto simp: resolveReference_def look_member_def const_member_def map_find_insert children_map_ok simp del: map_insert.simps)
  show "jvalue_ok v'" using v by (rule resolveReference_ok)
next
  fix v :: "'a jvalue" and j k :: string and f
  show "look_member j (at_member k f v) = (if c_str j = c_str k then map_option f (look_member j v) else look_member j v)"
    by (cases v) (auto simp: at_member_def look_member_def const_member_def map_find_modify)
qed

text \<open>The size, where the last possible index is not used.\<close>

definition no_wrap :: "(32 word, 'd jvalue) std_map \<Rightarrow> bool" where
  "no_wrap m \<longleftrightarrow> map_find m (- 1) = None"

lemma last_key_max: "map_ok m \<Longrightarrow> (k, v) \<in> set m \<Longrightarrow> k \<le> fst (last m)"
  by (induction m) (fastforce simp: map_ok_Cons intro: order.strict_implies_order)+

lemma unat_succ: "(k :: 32 word) \<noteq> - 1 \<Longrightarrow> unat (k + 1) = Suc (unat k)"
  by (metis add.commute eq_neg_iff_add_eq_0 unatSuc)

lemma unat_max: "unat (- 1 :: 32 word) = 2 ^ 32 - 1"
  by (simp add: unsigned_minus_1_eq_mask mask_eq_exp_minus_1)

lemma not_above_max [simp]: "\<not> - 1 < (n :: 32 word)"
  by (simp add: not_less)

lemma pred_not_max: "(n :: 32 word) \<noteq> 0 \<Longrightarrow> n - 1 \<noteq> - 1"
  by (metis add.left_inverse diff_add_cancel)

lemma unat_pred: "(n :: 32 word) \<noteq> 0 \<Longrightarrow> unat (n - 1) = unat n - 1"
  using unat_succ [OF pred_not_max [of n]] by simp

lemma unat_of_index:
  assumes "k < unat (n :: 32 word)"
  shows "unat (of_nat k :: 32 word) = k"
proof -
  have "unat n < 2 ^ 32" using unsigned_less [of n] by simp
  then have "k < 2 ^ 32" using assms by simp
  then show ?thesis by (simp add: unsigned_of_nat take_bit_nat_eq_self)
qed

lemma array_size:
  assumes "map_ok m" "no_wrap m"
  shows "map_find m i = Some x \<Longrightarrow> i < jsize (JArray m)"
    and "jsize (JArray m) \<noteq> 0 \<Longrightarrow> map_find m (jsize (JArray m) - 1) \<noteq> None"
proof -
  have last: "m \<noteq> [] \<Longrightarrow> map_find m (fst (last m)) \<noteq> None"
    using assms(1) by (metis last_in_set map_find_set option.distinct(1) prod.collapse)
  then have succ: "m \<noteq> [] \<Longrightarrow> unat (fst (last m) + 1) = Suc (unat (fst (last m)))"
    using assms(2) by (intro unat_succ) (auto simp: no_wrap_def)
  show "i < jsize (JArray m)" if i: "map_find m i = Some x"
  proof -
    have "m \<noteq> []" using i by auto
    moreover have "i \<le> fst (last m)" using i assms(1) last_key_max by (simp add: map_find_set)
    ultimately show ?thesis using succ by (simp add: jsize_def word_less_nat_alt word_le_nat_alt)
  qed
  show "jsize (JArray m) \<noteq> 0 \<Longrightarrow> map_find m (jsize (JArray m) - 1) \<noteq> None"
    using last by (auto simp: jsize_def split: if_splits)
qed

text \<open>The size is determined by the elements.\<close>

lemma array_size_unique:
  assumes "map_ok m" "no_wrap m" "\<And>i x. map_find m i = Some x \<Longrightarrow> i < n" "n \<noteq> 0 \<Longrightarrow> map_find m (n - 1) \<noteq> None"
  shows "jsize (JArray m) = n"
proof (cases "jsize (JArray m) = 0 \<or> n = 0")
  case True
  have "\<not> i < (0 :: 32 word)" for i by simp
  then have "jsize (JArray m) = 0 \<Longrightarrow> n = 0" "n = 0 \<Longrightarrow> jsize (JArray m) = 0"
    using array_size [OF assms(1,2)] assms(3,4) by (metis option.exhaust)+
  with True show ?thesis by metis
next
  case False
  let ?s = "jsize (JArray m)"
  obtain x y where "map_find m (?s - 1) = Some x" "map_find m (n - 1) = Some y"
    using array_size(2) [OF assms(1,2)] assms(4) False by blast
  then have "?s - 1 < n" "n - 1 < ?s" using assms(3) array_size(1) [OF assms(1,2)] by blast+
  then have "unat ?s = unat n" using False unat_pred [of ?s] unat_pred [of n] by (simp add: word_less_nat_alt)
  then show ?thesis by (rule unsigned_word_eqI)
qed

text \<open>What an array stands for: its elements from 0 up to the size, with null in the gaps.\<close>

definition elements :: "'d jvalue \<Rightarrow> 'd jvalue list" where
  "elements v = map (\<lambda>k. case look_index (of_nat k) v of None \<Rightarrow> JNull | Some x \<Rightarrow> x) [0..<unat (jsize v)]"

definition pad :: "nat \<Rightarrow> 'd jvalue list \<Rightarrow> 'd jvalue list" where
  "pad n xs = xs @ replicate (n - length xs) JNull"

lemma length_elements [simp]: "length (elements v) = unat (jsize v)"
  by (simp add: elements_def)

lemma nth_elements:
  "k < unat (jsize v) \<Longrightarrow> elements v ! k = (case look_index (of_nat k) v of None \<Rightarrow> JNull | Some x \<Rightarrow> x)"
  by (simp add: elements_def)

lemma length_pad [simp]: "length (pad n xs) = max n (length xs)"
  by (simp add: pad_def)

lemma nth_pad: "k < max n (length xs) \<Longrightarrow> pad n xs ! k = (if k < length xs then xs ! k else JNull)"
  by (auto simp: pad_def nth_append)

lemma look_index_array [simp]: "look_index i (JArray m) = map_find m i"
  by (simp add: look_index_def const_index_def)

text \<open>A map in which one element was written.\<close>

lemma written_array:
  assumes m: "map_ok m" "no_wrap m" and i: "i \<noteq> - 1"
    and m': "map_ok m'" "\<And>j. map_find m' j = (if j = i then Some x else map_find m j)"
  shows "no_wrap m' \<and> elements (JArray m') = (pad (Suc (unat i)) (elements (JArray m)))[unat i := x]"
proof
  let ?s = "jsize (JArray m)" and ?s' = "jsize (JArray m')"
  show nw: "no_wrap m'" using m(2) i by (simp add: no_wrap_def m'(2))
  have size: "unat ?s' = max (Suc (unat i)) (unat ?s)"
  proof (cases "i < ?s")
    case True
    have "?s' = ?s" by (rule array_size_unique [OF m'(1) nw]) (use True array_size [OF m] m'(2) in \<open>auto split: if_splits\<close>)
    then show ?thesis using True by (simp add: word_less_nat_alt)
  next
    case False
    have "j < i + 1" if j: "map_find m' j = Some y" for j y
    proof (cases "j = i")
      case True
      then show ?thesis using unat_succ [OF i] by (simp add: word_less_nat_alt)
    next
      case ne: False
      with j have "j < ?s" using array_size(1) [OF m] by (simp add: m'(2))
      then show ?thesis using False unat_succ [OF i] by (simp add: word_less_nat_alt)
    qed
    then have "?s' = i + 1" by (rule array_size_unique [OF m'(1) nw]) (simp_all add: m'(2))
    then show ?thesis using False unat_succ [OF i] by (simp add: word_less_nat_alt)
  qed
  show "elements (JArray m') = (pad (Suc (unat i)) (elements (JArray m)))[unat i := x]"
  proof (rule nth_equalityI)
    fix k assume "k < length (elements (JArray m'))"
    then have k: "k < unat ?s'" "k < max (Suc (unat i)) (unat ?s)" using size by simp_all
    have ki: "unat (of_nat k :: 32 word) = k" by (rule unat_of_index [OF k(1)])
    then have eq: "of_nat k = i \<longleftrightarrow> k = unat i" by auto
    have gap: "map_find m (of_nat k) = None" if "\<not> k < unat ?s"
      using array_size(1) [OF m, of "of_nat k"] that ki by (cases "map_find m (of_nat k)") (auto simp: word_less_nat_alt)
    show "elements (JArray m') ! k = (pad (Suc (unat i)) (elements (JArray m)))[unat i := x] ! k"
      using k eq gap by (cases "k = unat i") (auto simp: nth_elements nth_pad m'(2))
  qed (simp add: size)
qed

lemma map_find_erase_range: "map_find (erase_range i n m) j = (if i \<le> j \<and> j < n then None else map_find m j)"
proof (induction i n m rule: erase_range.induct)
  case (1 i n m)
  show ?case
  proof (cases "i < n")
    case True
    then have "i \<noteq> - 1" by auto
    then have "i + 1 \<le> j \<longleftrightarrow> i < j" using unat_succ [of i] by (auto simp: word_le_nat_alt word_less_nat_alt)
    with True have "map_find (erase_range i n m) j = (if i < j \<and> j < n then None else if j = i then None else map_find m j)"
      by (subst erase_range.simps) (simp only: "1.IH" [OF True] map_find_erase if_True)
    then show ?thesis using True by (simp add: order.order_iff_strict)
  qed (subst erase_range.simps, auto)
qed

lemma map_ok_erase_range: "map_ok m \<Longrightarrow> map_ok (erase_range i n m)"
proof (induction i n m rule: erase_range.induct)
  case (1 i n m)
  then show ?case by (subst erase_range.simps) simp
qed

text \<open>A value that stands for a list.\<close>

definition array_of :: "'d jvalue \<Rightarrow> 'd jvalue list \<Rightarrow> bool" where
  "array_of v xs \<longleftrightarrow> (\<exists>m. v = JArray m \<and> map_ok m \<and> no_wrap m \<and> elements v = xs)"

lemma array_of_set:
  assumes "array_of v xs" "i \<noteq> - 1"
  shows "\<exists>v'. set_index i x v = Some v' \<and> array_of v' ((pad (Suc (unat i)) xs)[unat i := x])"
proof -
  from assms(1) obtain m where m: "v = JArray m" "map_ok m" "no_wrap m" "elements v = xs" by (auto simp: array_of_def)
  let ?m' = "map_modify i (\<lambda>_. x) (map_insert i JNull m)"
  have "map_find ?m' j = (if j = i then Some x else map_find m j)" for j
    using m(2) by (auto simp: map_find_modify map_find_insert)
  moreover have "map_ok ?m'" using m(2) by simp
  ultimately have "array_of (JArray ?m') ((pad (Suc (unat i)) xs)[unat i := x])"
    using written_array [OF m(2,3) assms(2)] m by (auto simp: array_of_def)
  then show ?thesis using m(1) by (simp add: set_index_def make_index_def at_index_def)
qed

lemma array_of_size: "array_of v xs \<Longrightarrow> unat (jsize v) = length xs"
  by (auto simp: array_of_def)

lemma array_of_append:
  assumes "array_of v xs" "length xs < 2 ^ 32 - 1"
  shows "\<exists>v'. append_value x v = Some v' \<and> array_of v' (xs @ [x])"
proof -
  have "jsize v \<noteq> - 1" using assms array_of_size [OF assms(1)] by (auto simp: unat_max)
  moreover have "(pad (Suc (length xs)) xs)[length xs := x] = xs @ [x]" by (simp add: pad_def)
  ultimately show ?thesis using array_of_set [OF assms(1)] array_of_size [OF assms(1)] by (metis append_value_def)
qed

lemma array_of_resize:
  assumes "array_of v xs"
  shows "(resize n v = None \<longleftrightarrow> n \<noteq> 0 \<and> unat n < length xs \<and> const_index (n - 1) v = Some None)
    \<and> (\<forall>v'. resize n v = Some v' \<longrightarrow> array_of v' (take (unat n) (pad (unat n) xs)))"
proof -
  from assms obtain m where m: "v = JArray m" "map_ok m" "no_wrap m" "elements v = xs" by (auto simp: array_of_def)
  let ?s = "jsize (JArray m)" and ?m = "erase_range n (jsize (JArray m)) m"
  have s: "unat ?s = length xs" using m by auto
  consider (zero) "n = 0" | (grow) "n \<noteq> 0" "n > ?s" | (shrink) "n \<noteq> 0" "n \<le> ?s" by fastforce
  then show ?thesis
  proof cases
    case zero
    then show ?thesis using m(1) by (simp add: resize_array array_of_def no_wrap_def elements_def jsize_def)
  next
    case grow
    let ?m' = "map_insert (n - 1) JNull m"
    have n: "unat (n - 1) = unat n - 1" "0 < unat n" using unat_pred grow(1) by (auto simp: unat_gt_0)
    have "n - 1 \<noteq> - 1" by (rule pred_not_max [OF grow(1)])
    moreover have "map_find m (n - 1) = None"
      using array_size(1) [OF m(2,3), of "n - 1"] grow n by (cases "map_find m (n - 1)") (auto simp: word_less_nat_alt)
    then have "map_find ?m' j = (if j = n - 1 then Some JNull else map_find m j)" for j
      using m(2) by (simp add: map_find_insert)
    moreover have "map_ok ?m'" using m(2) by simp
    ultimately have "array_of (JArray ?m') ((pad (unat n) xs)[unat n - 1 := JNull])"
      using written_array [OF m(2,3), of "n - 1" ?m' JNull] m n by (auto simp: array_of_def)
    moreover have "length xs < unat n" using grow(2) s by (simp add: word_less_nat_alt)
    then have "(pad (unat n) xs)[unat n - 1 := JNull] = take (unat n) (pad (unat n) xs)"
      by (intro nth_equalityI) (auto simp: nth_list_update nth_pad)
    moreover have "\<not> unat n < length xs" using \<open>length xs < unat n\<close> by simp
    ultimately show ?thesis using grow m(1) by (simp add: resize_array make_index_def)
  next
    case shrink
    have find: "map_find ?m j = (if j < n then map_find m j else None)" for j
      using array_size(1) [OF m(2,3), of j] by (cases "map_find m j") (auto simp: map_find_erase_range)
    have ok: "map_ok ?m" by (rule map_ok_erase_range [OF m(2)])
    have nw: "no_wrap ?m" using m(3) by (simp add: no_wrap_def find)
    have len: "unat n \<le> length xs" using shrink(2) s by (simp add: word_le_nat_alt)
    have pred: "n - 1 < n" using shrink(1) unat_pred [of n] unat_gt_0 [of n] by (simp add: word_less_nat_alt)
    show ?thesis
    proof (cases "map_find m (n - 1)")
      case None
      have "jsize (JArray ?m) \<noteq> n"
        using array_size(2) [OF ok nw] shrink(1) None pred by (auto simp: find)
      moreover have "n \<noteq> ?s" using array_size(2) [OF m(2,3)] shrink(1) None by auto
      then have "unat n < length xs" using shrink(2) s by (simp add: word_less_nat_alt [symmetric] s [symmetric])
      ultimately show ?thesis using shrink None m(1) by (auto simp: resize_array const_index_def)
    next
      case (Some y)
      have size: "jsize (JArray ?m) = n"
        by (rule array_size_unique [OF ok nw]) (use Some pred in \<open>auto simp: find split: if_splits\<close>)
      have "elements (JArray ?m) = take (unat n) (pad (unat n) xs)"
      proof (rule nth_equalityI)
        fix k assume "k < length (elements (JArray ?m))"
        then have k: "k < unat n" using size by simp
        from unat_of_index [OF this] have "(of_nat k :: 32 word) < n" using k by (simp add: word_less_nat_alt)
        moreover have "xs ! k = (case map_find m (of_nat k) of None \<Rightarrow> JNull | Some x \<Rightarrow> x)"
          using m(1,4) k len s by (subst m(4) [symmetric], subst nth_elements) auto
        ultimately show "elements (JArray ?m) ! k = take (unat n) (pad (unat n) xs) ! k"
          using k len by (simp add: nth_elements size find nth_pad)
      qed (use size len in simp)
      then have "array_of (JArray ?m) (take (unat n) (pad (unat n) xs))" using ok nw by (simp add: array_of_def)
      then show ?thesis using shrink size m(1) Some by (simp add: resize_array const_index_def not_less [symmetric])
    qed
  qed
qed

text \<open>
  C28. An array whose last possible index is unused behaves as the list of its elements, the gaps being
  null: \<open>operator[]\<close> with an assignment extends the list with nulls as far as needed and replaces the
  element, \<open>append\<close> adds it at the end, and \<open>resize\<close> cuts the list or extends it with nulls; neither
  the index \<open>2 ^ 32 - 1\<close> may be written nor a list of that length appended to. Only \<open>resize\<close> may
  fail, on its own assertion: it erases the indices from the new size up, and it fails exactly when the
  list is to become shorter and the last index that remains is a gap, for then the size is not the one
  asked for.
\<close>

theorem array_refines_list:
  assumes "array_of v xs"
  shows "unat (jsize v) = length xs
    \<and> (i \<noteq> - 1 \<longrightarrow> (\<exists>v'. set_index i x v = Some v' \<and> array_of v' ((pad (Suc (unat i)) xs)[unat i := x])))
    \<and> (length xs < 2 ^ 32 - 1 \<longrightarrow> (\<exists>v'. append_value x v = Some v' \<and> array_of v' (xs @ [x])))
    \<and> (resize n v = None \<longleftrightarrow> n \<noteq> 0 \<and> unat n < length xs \<and> const_index (n - 1) v = Some None)
    \<and> (\<forall>v'. resize n v = Some v' \<longrightarrow> array_of v' (take (unat n) (pad (unat n) xs)))"
  using array_of_size [OF assms] array_of_set [OF assms] array_of_append [OF assms] array_of_resize [OF assms] by blast

text \<open>An array with an element at 5 only: it reads as six elements, and cannot be resized to 3.\<close>

definition sparse_sample :: "nat jvalue" where
  "sparse_sample = JArray [(5, JBool True)]"

theorem array_refines_list_witness:
  "resize 3 sparse_sample = None
   \<and> (\<exists>v'. append_value JNull sparse_sample = Some v' \<and> array_of v' [JNull, JNull, JNull, JNull, JNull, JBool True, JNull])"
proof -
  have "array_of sparse_sample [JNull, JNull, JNull, JNull, JNull, JBool True]"
    by (simp add: array_of_def sparse_sample_def map_ok_def no_wrap_def elements_def jsize_def map_find_def upt_rec)
  from array_refines_list [OF this, where x = JNull and n = 3]
  have "\<exists>v'. append_value JNull sparse_sample = Some v' \<and> array_of v' [JNull, JNull, JNull, JNull, JNull, JBool True, JNull]" by simp
  moreover have "resize 3 sparse_sample = None"
    by (simp add: sparse_sample_def resize_array jsize_def erase_range.simps map_erase_def)
  ultimately show ?thesis by blast
qed

text \<open>
  The last index wraps the size around: an array with an element there has size 0, and appending to it
  overwrites the element 0.
\<close>

lemma last_index_wraps:
  assumes "map_ok m" "map_find m (- 1) = Some x"
  shows "jsize (JArray m) = 0 \<and> append_value y (JArray m) = set_index 0 y (JArray m)"
proof -
  have "m \<noteq> []" using assms(2) by auto
  moreover have "fst (last m) = - 1"
    using assms last_key_max [OF assms(1)] by (metis map_find_set word_order.extremum_uniqueI)
  ultimately have "jsize (JArray m) = 0" by (simp add: jsize_def)
  then show ?thesis by (simp add: append_value_def)
qed

section \<open>The conversions\<close>

text \<open>The integer a value stands for, and the range test of a conversion.\<close>

definition whole :: "'d jvalue \<Rightarrow> int option" where
  "whole v =
     (case v of
        JNull \<Rightarrow> Some 0
      | JInt n \<Rightarrow> Some (sint n)
      | JUInt n \<Rightarrow> Some (uint n)
      | JBool b \<Rightarrow> Some (if b then 1 else 0)
      | _ \<Rightarrow> None)"

definition within :: "int \<Rightarrow> int \<Rightarrow> int option \<Rightarrow> int option" where
  "within lo hi r = (case r of Some n \<Rightarrow> if lo \<le> n \<and> n \<le> hi then Some n else None | None \<Rightarrow> None)"

lemma ucast_of_sint: "(ucast (n :: 64 word) :: 32 word) = word_of_int (sint n)"
  by (rule bit_word_eqI) (simp add: bit_simps)

lemma sint_ucast32:
  assumes "minInt \<le> sint (n :: 64 word)" "sint n \<le> maxInt"
  shows "sint (ucast n :: 32 word) = sint n"
  unfolding ucast_of_sint signed_of_int using assms
  by (simp add: minInt_def maxInt_def signed_take_bit_int_eq_self)

lemma uint_of_nonneg:
  assumes "0 \<le> sint (n :: 64 word)"
  shows "uint n = sint n"
proof -
  have "uint (word_of_int (sint n) :: 64 word) = take_bit 64 (sint n)" by (simp only: uint_word_of_int take_bit_eq_mod) simp
  then show ?thesis using assms sint_less [of n] by (simp add: take_bit_int_eq_self)
qed

lemma uint_ucast32: "uint (n :: 64 word) \<le> maxUInt \<Longrightarrow> uint (ucast n :: 32 word) = uint n"
  by (simp add: unsigned_ucast_eq maxUInt_def take_bit_int_eq_self)

lemma uint_at_least: "lo \<le> 0 \<Longrightarrow> lo \<le> uint (n :: 64 word)"
  by (rule order.trans [OF _ uint_ge_0])

lemma sint_of_small:
  assumes "uint (n :: 64 word) \<le> maxInt64"
  shows "sint n = uint n"
proof -
  have "signed_take_bit 63 (uint n) = uint n"
    using assms by (intro signed_take_bit_int_eq_self uint_at_least) (simp_all add: maxInt64_def)
  then show ?thesis by (simp add: sint_uint)
qed

lemma sint_ucast_small:
  assumes "uint (n :: 64 word) \<le> maxInt"
  shows "sint (ucast n :: 32 word) = uint n"
proof -
  have "sint n = uint n" using assms by (intro sint_of_small) (simp add: maxInt_def maxInt64_def)
  moreover have "minInt \<le> uint n" by (rule uint_at_least) (simp add: minInt_def)
  ultimately show ?thesis using sint_ucast32 [of n] assms by simp
qed

lemma uint_ucast_nonneg: "0 \<le> sint (n :: 64 word) \<Longrightarrow> sint n \<le> maxUInt \<Longrightarrow> uint (ucast n :: 32 word) = sint n"
  using uint_of_nonneg [of n] uint_ucast32 [of n] by simp

lemma word64_ranges:
  "minInt64 \<le> sint (n :: 64 word)" "sint n \<le> maxInt64" "sint n \<le> maxUInt64" "minInt \<le> uint n" "minInt64 \<le> uint n" "0 \<le> uint n" "uint n \<le> maxUInt64"
  using sint_greater_eq [of n] sint_less [of n] uint_lt2p [of n]
  by (simp_all add: uint_at_least minInt_def minInt64_def maxInt64_def maxUInt64_def)

lemma small_ranges:
  "minInt \<le> 0" "minInt \<le> 1" "0 \<le> maxInt" "1 \<le> maxInt" "0 \<le> maxUInt" "1 \<le> maxUInt"
  "minInt64 \<le> 0" "minInt64 \<le> 1" "0 \<le> maxInt64" "1 \<le> maxInt64" "0 \<le> maxUInt64" "1 \<le> maxUInt64"
  by (simp_all add: minInt_def maxInt_def maxUInt_def minInt64_def maxInt64_def maxUInt64_def)

lemmas ranges = word64_ranges small_ranges whole_def within_def

lemma asInt_exact: "jtype v \<noteq> realT \<Longrightarrow> map_option sint (asInt D v) = within minInt maxInt (whole v)"
  by (cases v) (simp_all add: asInt_def ranges sint_ucast32 sint_ucast_small)

lemma asUInt_exact: "jtype v \<noteq> realT \<Longrightarrow> map_option uint (asUInt D v) = within 0 maxUInt (whole v)"
  by (cases v) (simp_all add: asUInt_def ranges uint_ucast32 uint_ucast_nonneg)

lemma asInt64_exact: "jtype v \<noteq> realT \<Longrightarrow> map_option sint (jasInt64 D v) = within minInt64 maxInt64 (whole v)"
  by (cases v) (simp_all add: jasInt64_def ranges sint_of_small)

lemma asUInt64_exact: "jtype v \<noteq> realT \<Longrightarrow> map_option uint (asUInt64 D v) = within 0 maxUInt64 (whole v)"
  by (cases v) (simp_all add: asUInt64_def ranges uint_of_nonneg)

lemma convertible_throws:
  "isConvertibleTo D v intT \<and> jtype v \<noteq> realT \<and> asInt D v = None \<longleftrightarrow> (\<exists>n. v = JInt n \<and> (sint n < minInt \<or> maxInt < sint n))"
  "isConvertibleTo D v uintT \<and> jtype v \<noteq> realT \<and> asUInt D v = None \<longleftrightarrow>
     (\<exists>n. v = JInt n \<and> maxUInt < sint n \<or> v = JUInt n \<and> maxUInt < uint n)"
  "isConvertibleTo D v stringT \<and> jasString v = None \<longleftrightarrow> jtype v \<in> {intT, uintT, realT}"
proof -
  show "isConvertibleTo D v intT \<and> jtype v \<noteq> realT \<and> asInt D v = None \<longleftrightarrow> (\<exists>n. v = JInt n \<and> (sint n < minInt \<or> maxInt < sint n))"
    by (cases v) (auto simp: asInt_def isConvertibleTo_def)
  show "isConvertibleTo D v uintT \<and> jtype v \<noteq> realT \<and> asUInt D v = None \<longleftrightarrow>
     (\<exists>n. v = JInt n \<and> maxUInt < sint n \<or> v = JUInt n \<and> maxUInt < uint n)"
    using small_ranges(5) by (cases v) (auto simp: asUInt_def isConvertibleTo_def)
  show "isConvertibleTo D v stringT \<and> jasString v = None \<longleftrightarrow> jtype v \<in> {intT, uintT, realT}"
    by (cases v) (auto simp: jasString_def isConvertibleTo_def)
qed

text \<open>
  The conversions to integers are exact: away from doubles each of the four gives the integer the
  value stands for when it is in the range of the type, and throws in every other case. But
  \<open>isConvertibleTo\<close> promises more than the conversions keep: a signed value outside 32 bits is called
  convertible to int and an integer above 32 bits to unsigned int, and every number is called
  convertible to string, although \<open>asString\<close> throws on it.
\<close>

theorem conversions_exact:
  assumes "jtype v \<noteq> realT"
  shows "map_option sint (asInt D v) = within minInt maxInt (whole v)
    \<and> map_option uint (asUInt D v) = within 0 maxUInt (whole v)
    \<and> map_option sint (jasInt64 D v) = within minInt64 maxInt64 (whole v)
    \<and> map_option uint (asUInt64 D v) = within 0 maxUInt64 (whole v)
    \<and> (isConvertibleTo D v intT \<and> asInt D v = None \<longleftrightarrow> (\<exists>n. v = JInt n \<and> (sint n < minInt \<or> maxInt < sint n)))
    \<and> (isConvertibleTo D v uintT \<and> asUInt D v = None \<longleftrightarrow>
        (\<exists>n. v = JInt n \<and> maxUInt < sint n \<or> v = JUInt n \<and> maxUInt < uint n))
    \<and> (isConvertibleTo D v stringT \<and> jasString v = None \<longleftrightarrow> jtype v \<in> {intT, uintT})"
  using assms convertible_throws [of D v] asInt_exact [OF assms] asUInt_exact [OF assms] asInt64_exact [OF assms] asUInt64_exact [OF assms]
  by simp

theorem conversions_exact_witness:
  "\<forall>D :: nat double_api. isConvertibleTo D (JInt 0x80000000) intT \<and> asInt D (JInt 0x80000000) = None
   \<and> map_option uint (asUInt64 D (JUInt 0xFFFFFFFFFFFFFFFF)) = Some 0xFFFFFFFFFFFFFFFF"
proof -
  have "jtype (JInt 0x80000000 :: nat jvalue) \<noteq> realT" "jtype (JUInt 0xFFFFFFFFFFFFFFFF :: nat jvalue) \<noteq> realT" by simp_all
  from conversions_exact [OF this(1)] conversions_exact [OF this(2)] show ?thesis
    by (auto simp: maxInt_def within_def whole_def maxUInt64_def)
qed

section \<open>The values of the reader\<close>

text \<open>The elements of a value of the reader are contiguous from 0; its doubles are decimals.\<close>

fun value_of :: "json \<Rightarrow> decimal jvalue" where
  "value_of nullValue = JNull"
| "value_of (intValue n) = JInt n"
| "value_of (uintValue n) = JUInt n"
| "value_of (realValue d) = JReal d"
| "value_of (stringValue s) = JString (Some s)"
| "value_of (booleanValue b) = JBool b"
| "value_of (arrayValue vs) = JArray (zip (map of_nat [0..<length vs]) (map value_of vs))"
| "value_of (objectValue m) = JObject (map (\<lambda>p. (fst p, value_of (snd p))) m)"

lemma of_nat_less_32: "i < j \<Longrightarrow> j < 2 ^ 32 \<Longrightarrow> (of_nat i :: 32 word) < of_nat j"
  by (simp add: word_less_nat_alt unsigned_of_nat take_bit_nat_eq_self)

lemma map_find_zip:
  assumes "k < length xs" "length xs < 2 ^ 32"
  shows "map_find (zip (map of_nat [0..<length xs]) xs) (of_nat k :: 32 word) = Some (xs ! k)"
proof -
  have "map_ok (zip (map (of_nat :: nat \<Rightarrow> 32 word) [0..<length xs]) xs)"
    using assms(2) by (auto simp: map_ok_def sorted_wrt_iff_nth_less intro: of_nat_less_32)
  moreover have "(of_nat k, xs ! k) \<in> set (zip (map (of_nat :: nat \<Rightarrow> 32 word) [0..<length xs]) xs)"
    using assms(1) by (auto simp: set_zip intro!: exI [of _ k])
  ultimately show ?thesis by (simp add: map_find_set)
qed

lemma array_of_reader:
  assumes "length vs < 2 ^ 32"
  shows "array_of (value_of (arrayValue vs)) (map value_of vs)"
proof -
  let ?xs = "map value_of vs" and ?m = "zip (map of_nat [0..<length vs]) (map value_of vs) :: (32 word \<times> decimal jvalue) list"
  have ok: "map_ok ?m"
    using assms by (auto simp: map_ok_def sorted_wrt_iff_nth_less intro: of_nat_less_32)
  have fits: "k < length vs \<Longrightarrow> unat (of_nat k :: 32 word) = k" for k
    using assms by (simp add: unsigned_of_nat take_bit_nat_eq_self)
  have nw: "no_wrap ?m"
  proof -
    have "(of_nat k :: 32 word) \<noteq> - 1" if "k < length vs" for k
      using fits [OF that] unat_max that assms by auto
    then have "- 1 \<notin> fst ` set ?m" unfolding set_zip by force
    then show ?thesis by (simp only: no_wrap_def map_find_def map_of_eq_None_iff not_False_eq_True)
  qed
  have size: "unat (jsize (JArray ?m)) = length vs"
  proof (cases "vs = []")
    case False
    then have "?m \<noteq> []" and last: "last ?m = (of_nat (length vs - 1), ?xs ! (length vs - 1))" by (simp_all add: last_conv_nth)
    then have "unat (fst (last ?m)) = length vs - 1" using fits [of "length vs - 1"] False by simp
    moreover have "fst (last ?m) \<noteq> - 1" using nw last_in_set [OF \<open>?m \<noteq> []\<close>] ok by (metis map_find_set no_wrap_def option.distinct(1) prod.collapse)
    ultimately show ?thesis using \<open>?m \<noteq> []\<close> unat_succ [of "fst (last ?m)"] False by (simp add: jsize_def)
  qed (simp add: jsize_def)
  have "elements (JArray ?m) = ?xs"
    by (rule nth_equalityI) (use size assms map_find_zip [of _ ?xs] in \<open>auto simp: nth_elements\<close>)
  then show ?thesis using ok nw by (simp add: array_of_def)
qed

text \<open>The accessors of the theory \<open>Json\<close> are those of the class on these values.\<close>

lemma map_find_values: "map_find (map (\<lambda>p. (fst p, value_of (snd p))) m) k = map_option value_of (map_find m k)"
  by (induction m) (auto simp: map_find_def)

lemma reader_accessors:
  "map_option (\<lambda>r. case r of None \<Rightarrow> JNull | Some x \<Rightarrow> x) (const_member k (value_of v)) = map_option value_of (json_get v k)"
  "jasString (value_of v) = asString v"
  "jtype (value_of v) \<noteq> realT \<Longrightarrow> jasInt64 D (value_of v) = asInt64 v"
  "jtype (value_of v) \<noteq> realT \<Longrightarrow> jasBool D (value_of v) = asBool v"
proof -
  show "map_option (\<lambda>r. case r of None \<Rightarrow> JNull | Some x \<Rightarrow> x) (const_member k (value_of v)) = map_option value_of (json_get v k)"
    by (cases v) (auto simp: const_member_def json_get_def map_find_values split: option.splits)
  show "jasString (value_of v) = asString v" by (cases v) (simp_all add: jasString_def asString_def)
  show "jtype (value_of v) \<noteq> realT \<Longrightarrow> jasInt64 D (value_of v) = asInt64 v"
    by (cases v) (simp_all add: jasInt64_def asInt64_def maxInt64_def word_le_def)
  show "jtype (value_of v) \<noteq> realT \<Longrightarrow> jasBool D (value_of v) = asBool v"
    by (cases v) (auto simp: jasBool_def asBool_def zip_eq_Nil_iff)
qed

end
