(* ===== verification/JsonOrder.thy ===== *)
theory JsonOrder
  imports JsonOps
begin

text \<open>
  The comparison of values (\<open>jsoncpp.cc\<close>): \<open>operator <\<close>, \<open>operator ==\<close> and \<open>compare\<close>, with the
  comparisons of \<open>std::map\<close> they use. They form an order on values, as long as no container has more
  than \<open>2 ^ 31\<close> elements (the difference of the sizes is taken in an \<open>int\<close>) and the doubles inside are
  numbers.
\<close>

section \<open>The comparisons\<close>

definition type_number :: "ValueType \<Rightarrow> nat" where
  "type_number t =
     (case t of nullT \<Rightarrow> 0 | intT \<Rightarrow> 1 | uintT \<Rightarrow> 2 | realT \<Rightarrow> 3 | stringT \<Rightarrow> 4 | booleanT \<Rightarrow> 5 | arrayT \<Rightarrow> 6 | objectT \<Rightarrow> 7)"

text \<open>\<open>operator<\<close> of \<open>std::map\<close>, lexicographic on the pairs, and \<open>operator==\<close>.\<close>

fun map_less :: "('v \<Rightarrow> 'v \<Rightarrow> bool) \<Rightarrow> ('k::linorder \<times> 'v) list \<Rightarrow> ('k \<times> 'v) list \<Rightarrow> bool" where
  "map_less lt [] m' = (m' \<noteq> [])"
| "map_less lt (p # m) [] = False"
| "map_less lt (p # m) (q # m') =
     (if fst p < fst q \<or> (\<not> fst q < fst p \<and> lt (snd p) (snd q)) then True
      else if fst q < fst p \<or> (\<not> fst p < fst q \<and> lt (snd q) (snd p)) then False
      else map_less lt m m')"

fun map_equal :: "('v \<Rightarrow> 'v \<Rightarrow> bool) \<Rightarrow> ('k \<times> 'v) list \<Rightarrow> ('k \<times> 'v) list \<Rightarrow> bool" where
  "map_equal eq [] m' = (m' = [])"
| "map_equal eq (p # m) [] = False"
| "map_equal eq (p # m) (q # m') = (fst p = fst q \<and> eq (snd p) (snd q) \<and> map_equal eq m m')"

lemma map_less_cong [fundef_cong]:
  assumes "m = m2" "m' = m2'"
    and "\<And>p q. p \<in> set m2 \<Longrightarrow> q \<in> set m2' \<Longrightarrow> lt (snd p) (snd q) = lt2 (snd p) (snd q)"
    and "\<And>p q. p \<in> set m2 \<Longrightarrow> q \<in> set m2' \<Longrightarrow> lt (snd q) (snd p) = lt2 (snd q) (snd p)"
  shows "map_less lt m m' = map_less lt2 m2 m2'"
  using assms(3,4) unfolding assms(1,2) by (induction lt m2 m2' rule: map_less.induct) auto

lemma map_equal_cong [fundef_cong]:
  assumes "m = m2" "m' = m2'"
    and "\<And>p q. p \<in> set m2 \<Longrightarrow> q \<in> set m2' \<Longrightarrow> eq (snd p) (snd q) = eq2 (snd p) (snd q)"
  shows "map_equal eq m m' = map_equal eq2 m2 m2'"
  using assms(3) unfolding assms(1,2) by (induction eq m2 m2' rule: map_equal.induct) auto

text \<open>\<open>int( size - other.size )\<close>: the difference of two \<open>size_t\<close> cut to 32 bits.\<close>

definition size_delta :: "nat \<Rightarrow> nat \<Rightarrow> int" where
  "size_delta n k = sint (ucast (of_nat n - of_nat k :: 64 word) :: 32 word)"

definition string_less :: "string option \<Rightarrow> string option \<Rightarrow> bool" where
  "string_less s t =
     (case (s, t) of
        (None, Some _) \<Rightarrow> True
      | (Some a, Some b) \<Rightarrow> c_str a < c_str b
      | _ \<Rightarrow> False)"

definition string_equal :: "string option \<Rightarrow> string option \<Rightarrow> bool" where
  "string_equal s t =
     (case (s, t) of
        (None, None) \<Rightarrow> True
      | (Some a, Some b) \<Rightarrow> c_str a = c_str b
      | _ \<Rightarrow> False)"

lemma size_in_map: "p \<in> set m \<Longrightarrow> size (snd p) < Suc (size_list (size_prod (\<lambda>_. 0) size) m)"
  by (induction m) (auto simp: less_Suc_eq_le intro: le_SucI trans_le_add2)

function value_less :: "'d double_api \<Rightarrow> 'd jvalue \<Rightarrow> 'd jvalue \<Rightarrow> bool" where
  "value_less D v w =
     (if jtype v \<noteq> jtype w then type_number (jtype v) < type_number (jtype w)
      else case (v, w) of
          (JInt a, JInt b) \<Rightarrow> a <s b
        | (JUInt a, JUInt b) \<Rightarrow> a < b
        | (JReal a, JReal b) \<Rightarrow> d_less D a b
        | (JBool a, JBool b) \<Rightarrow> \<not> a \<and> b
        | (JString a, JString b) \<Rightarrow> string_less a b
        | (JArray a, JArray b) \<Rightarrow>
            (if size_delta (length a) (length b) \<noteq> 0 then size_delta (length a) (length b) < 0 else map_less (value_less D) a b)
        | (JObject a, JObject b) \<Rightarrow>
            (if size_delta (length a) (length b) \<noteq> 0 then size_delta (length a) (length b) < 0 else map_less (value_less D) a b)
        | _ \<Rightarrow> False)"
  by auto

termination by (relation "measure (\<lambda>(D, v, w). size v + size w)") (auto dest!: size_in_map)

declare value_less.simps [simp del]

function value_equal :: "'d double_api \<Rightarrow> 'd jvalue \<Rightarrow> 'd jvalue \<Rightarrow> bool" where
  "value_equal D v w =
     (if jtype v \<noteq> jtype w then False
      else case (v, w) of
          (JNull, JNull) \<Rightarrow> True
        | (JInt a, JInt b) \<Rightarrow> a = b
        | (JUInt a, JUInt b) \<Rightarrow> a = b
        | (JReal a, JReal b) \<Rightarrow> d_eq D a b
        | (JBool a, JBool b) \<Rightarrow> a = b
        | (JString a, JString b) \<Rightarrow> string_equal a b
        | (JArray a, JArray b) \<Rightarrow> length a = length b \<and> map_equal (value_equal D) a b
        | (JObject a, JObject b) \<Rightarrow> length a = length b \<and> map_equal (value_equal D) a b
        | _ \<Rightarrow> False)"
  by auto

termination by (relation "measure (\<lambda>(D, v, w). size v + size w)") (auto dest!: size_in_map)

declare value_equal.simps [simp del]

definition compare :: "'d double_api \<Rightarrow> 'd jvalue \<Rightarrow> 'd jvalue \<Rightarrow> int" where
  "compare D v w = (if value_less D v w then - 1 else if value_less D w v then 1 else 0)"

section \<open>Orders with an equality\<close>

text \<open>
  What a sorting algorithm or an ordered container asks of \<open><\<close> and \<open>==\<close>: a strict weak order whose
  incomparable elements are the equal ones.
\<close>

locale weak_order =
  fixes lt :: "'a \<Rightarrow> 'a \<Rightarrow> bool"
    and eq :: "'a \<Rightarrow> 'a \<Rightarrow> bool"
    and A :: "'a set"
  assumes asym: "a \<in> A \<Longrightarrow> b \<in> A \<Longrightarrow> lt a b \<Longrightarrow> \<not> lt b a"
    and cotrans: "a \<in> A \<Longrightarrow> b \<in> A \<Longrightarrow> c \<in> A \<Longrightarrow> lt a c \<Longrightarrow> lt a b \<or> lt b c"
    and eq_iff: "a \<in> A \<Longrightarrow> b \<in> A \<Longrightarrow> eq a b \<longleftrightarrow> \<not> lt a b \<and> \<not> lt b a"
begin

lemma irrefl: "a \<in> A \<Longrightarrow> \<not> lt a a"
  using asym by blast

lemma trans: "a \<in> A \<Longrightarrow> b \<in> A \<Longrightarrow> c \<in> A \<Longrightarrow> lt a b \<Longrightarrow> lt b c \<Longrightarrow> lt a c"
  using asym cotrans by blast

lemma equivalence:
  "a \<in> A \<Longrightarrow> eq a a" "a \<in> A \<Longrightarrow> b \<in> A \<Longrightarrow> eq a b \<Longrightarrow> eq b a"
  "a \<in> A \<Longrightarrow> b \<in> A \<Longrightarrow> c \<in> A \<Longrightarrow> eq a b \<Longrightarrow> eq b c \<Longrightarrow> eq a c"
  using irrefl eq_iff cotrans by blast+

text \<open>Pairs with a key, and lists of them.\<close>

lemma pairs:
  "weak_order (\<lambda>p q. fst p < fst q \<or> (\<not> fst q < fst p \<and> lt (snd p) (snd q))) (\<lambda>p q. fst p = fst q \<and> eq (snd p) (snd q))
     {p :: 'k::linorder \<times> 'a. snd p \<in> A}"
  by unfold_locales (auto dest: asym cotrans simp: eq_iff not_less_iff_gr_or_eq elim: less_trans)

lemma map_asym:
  fixes m m' :: "('k::linorder \<times> 'a) list"
  assumes "snd ` set m \<subseteq> A" "snd ` set m' \<subseteq> A" "map_less lt m m'"
  shows "\<not> map_less lt m' m"
  using assms
proof (induction m arbitrary: m')
  case (Cons p m)
  then show ?case by (cases m') (auto split: if_splits dest: asym)
next
  case Nil
  then show ?case by (cases m') auto
qed

lemma map_cotrans:
  fixes m m' u :: "('k::linorder \<times> 'a) list"
  assumes "snd ` set m \<subseteq> A" "snd ` set m' \<subseteq> A" "snd ` set u \<subseteq> A" "map_less lt m u"
  shows "map_less lt m m' \<or> map_less lt m' u"
  using assms
proof (induction m arbitrary: m' u)
  case (Cons p m)
  obtain r u' where u: "u = r # u'" using Cons.prems(4) by (cases u) auto
  show ?case
  proof (cases m')
    case (Cons q m'')
    have in_A: "snd p \<in> A" "snd q \<in> A" "snd r \<in> A" using Cons.prems Cons u by auto
    have step: "map_less lt m u' \<Longrightarrow> map_less lt m m'' \<or> map_less lt m'' u'"
      using Cons.IH [of m'' u'] Cons.prems Cons u by simp
    obtain pl :: "'k \<times> 'a \<Rightarrow> 'k \<times> 'a \<Rightarrow> bool" where
      pl: "pl = (\<lambda>p q. fst p < fst q \<or> (\<not> fst q < fst p \<and> lt (snd p) (snd q)))" by blast
    have less: "map_less lt (x # xs) (y # ys) = (if pl x y then True else if pl y x then False else map_less lt xs ys)" for x xs y ys
      by (simp add: pl)
    have cot: "snd x \<in> A \<Longrightarrow> snd y \<in> A \<Longrightarrow> snd z \<in> A \<Longrightarrow> pl x z \<Longrightarrow> pl x y \<or> pl y z" for x y z
      using weak_order.cotrans [OF pairs, of x y z] unfolding pl by simp
    from Cons.prems(4) show ?thesis
      using cot in_A step unfolding Cons u less by (metis (full_types))
  qed (simp add: u)
qed simp

lemma map_eq_iff:
  fixes m m' :: "('k::linorder \<times> 'a) list"
  assumes "snd ` set m \<subseteq> A" "snd ` set m' \<subseteq> A"
  shows "map_equal eq m m' \<longleftrightarrow> \<not> map_less lt m m' \<and> \<not> map_less lt m' m"
  using assms
proof (induction m arbitrary: m')
  case (Cons p m)
  then show ?case by (cases m') (auto simp: eq_iff)
next
  case Nil
  then show ?case by (cases m') auto
qed

text \<open>The maps over the order.\<close>

lemma maps: "weak_order (map_less lt) (map_equal eq) {m :: ('k::linorder \<times> 'a) list. snd ` set m \<subseteq> A}"
  by unfold_locales (simp_all only: mem_Collect_eq map_asym map_cotrans map_eq_iff not_False_eq_True)

lemma subset: "B \<subseteq> A \<Longrightarrow> weak_order lt eq B"
  by unfold_locales (meson asym cotrans eq_iff subsetD)+

text \<open>The same order on the values of a constructor.\<close>

lemma image:
  assumes "\<And>x y. lt' (g x) (g y) = lt x y" "\<And>x y. eq' (g x) (g y) = eq x y"
  shows "weak_order lt' eq' (g ` A)"
  by unfold_locales (auto simp: assms asym eq_iff dest: cotrans)

end

lemma weak_order_empty: "weak_order lt eq {}"
  by (simp add: weak_order_def)

text \<open>Orders by a number first.\<close>

lemma weak_order_by_number:
  fixes number :: "'a \<Rightarrow> nat"
  assumes "\<And>k. weak_order lt eq {a \<in> A. number a = k}"
    and "\<And>a b. a \<in> A \<Longrightarrow> b \<in> A \<Longrightarrow> number a \<noteq> number b \<Longrightarrow> lt a b = (number a < number b) \<and> \<not> eq a b"
  shows "weak_order lt eq A"
proof
  fix a b c assume A: "a \<in> A" "b \<in> A" "c \<in> A"
  have same: "x \<in> A \<Longrightarrow> y \<in> A \<Longrightarrow> number x = number y \<Longrightarrow> (lt x y \<longrightarrow> \<not> lt y x) \<and> (eq x y \<longleftrightarrow> \<not> lt x y \<and> \<not> lt y x)" for x y
    using weak_order.asym [OF assms(1)] weak_order.eq_iff [OF assms(1)] by blast
  show "lt a b \<Longrightarrow> \<not> lt b a" using same [OF A(1,2)] assms(2) [OF A(1,2)] assms(2) [OF A(2,1)] by (cases "number a = number b") auto
  show "eq a b \<longleftrightarrow> \<not> lt a b \<and> \<not> lt b a" using same [OF A(1,2)] assms(2) [OF A(1,2)] assms(2) [OF A(2,1)] by (cases "number a = number b") auto
  assume ac: "lt a c"
  show "lt a b \<or> lt b c"
  proof (cases "number a = number c \<and> number b = number a")
    case True
    then show ?thesis using weak_order.cotrans [OF assms(1) [of "number a"], of a b c] A ac by simp
  next
    case False
    then show ?thesis using assms(2) [OF A(1,2)] assms(2) [OF A(2,3)] assms(2) [OF A(1,3)] ac by (metis less_linear order.strict_trans)
  qed
qed

section \<open>The order on values\<close>

text \<open>The doubles inside are in a set, and the containers are below \<open>2 ^ 31\<close>.\<close>

fun comparable :: "'d set \<Rightarrow> 'd jvalue \<Rightarrow> bool" where
  "comparable N (JReal d) = (d \<in> N)"
| "comparable N (JArray m) = (length m < 2 ^ 31 \<and> (\<forall>p \<in> set m. comparable N (snd p)))"
| "comparable N (JObject m) = (length m < 2 ^ 31 \<and> (\<forall>p \<in> set m. comparable N (snd p)))"
| "comparable N _ = True"

lemma ucast_of_int: "(ucast (word_of_int j :: 64 word) :: 32 word) = word_of_int j"
  by (rule bit_word_eqI) (simp add: bit_simps)

lemma size_delta_exact:
  assumes "n < 2 ^ 31" "k < 2 ^ 31"
  shows "size_delta n k = int n - int k"
proof -
  have "(of_nat n - of_nat k :: 64 word) = word_of_int (int n - int k)" by (simp only: of_int_diff of_int_of_nat_eq)
  then have "size_delta n k = signed_take_bit 31 (int n - int k)"
    unfolding size_delta_def by (simp only: ucast_of_int signed_of_int) simp
  then show ?thesis using assms by (simp add: signed_take_bit_int_eq_self)
qed

lemma type_number_inject: "type_number s = type_number t \<longleftrightarrow> s = t"
  by (cases s; cases t) (simp_all add: type_number_def)

lemma value_less_types: "jtype v \<noteq> jtype w \<Longrightarrow> value_less D v w \<longleftrightarrow> type_number (jtype v) < type_number (jtype w)"
  by (simp add: value_less.simps)

lemmas value_comparisons =
  value_less.simps [of D JNull JNull for D] value_less.simps [of D "JInt a" "JInt b" for D a b]
  value_less.simps [of D "JUInt a" "JUInt b" for D a b] value_less.simps [of D "JReal a" "JReal b" for D a b]
  value_less.simps [of D "JBool a" "JBool b" for D a b] value_less.simps [of D "JString a" "JString b" for D a b]
  value_less.simps [of D "JArray a" "JArray b" for D a b] value_less.simps [of D "JObject a" "JObject b" for D a b]
  value_equal.simps [of D JNull JNull for D] value_equal.simps [of D "JInt a" "JInt b" for D a b]
  value_equal.simps [of D "JUInt a" "JUInt b" for D a b] value_equal.simps [of D "JReal a" "JReal b" for D a b]
  value_equal.simps [of D "JBool a" "JBool b" for D a b] value_equal.simps [of D "JString a" "JString b" for D a b]
  value_equal.simps [of D "JArray a" "JArray b" for D a b] value_equal.simps [of D "JObject a" "JObject b" for D a b]

lemma weak_order_cong:
  assumes "weak_order lt eq A" "\<And>a b. a \<in> A \<Longrightarrow> b \<in> A \<Longrightarrow> lt' a b = lt a b \<and> eq' a b = eq a b"
  shows "weak_order lt' eq' A"
  by unfold_locales (use assms weak_order.asym [OF assms(1)] weak_order.cotrans [OF assms(1)] weak_order.eq_iff [OF assms(1)] in auto)

text \<open>Containers, by size first.\<close>

lemma weak_order_sized_maps:
  assumes "weak_order lt eq A"
  shows "weak_order (\<lambda>m m'. if size_delta (length m) (length m') \<noteq> 0 then size_delta (length m) (length m') < 0 else map_less lt m m')
    (\<lambda>m m'. length m = length m' \<and> map_equal eq m m') {m :: ('k::linorder \<times> 'a) list. length m < 2 ^ 31 \<and> snd ` set m \<subseteq> A}"
    (is "weak_order ?lt ?eq ?M")
proof (rule weak_order_by_number [where number = length])
  fix k
  have "weak_order (map_less lt) (map_equal eq) {m \<in> ?M. length m = k}"
    by (rule weak_order.subset [OF weak_order.maps [OF assms]]) blast
  then show "weak_order ?lt ?eq {m \<in> ?M. length m = k}"
    by (rule weak_order_cong) (simp add: size_delta_exact)
qed (simp add: size_delta_exact)

lemma weak_order_linear: "weak_order (<) (=) (A :: 'k::linorder set)"
  by unfold_locales auto

text \<open>The order of the null string and the strings.\<close>

interpretation strings: weak_order string_less string_equal UNIV
  by unfold_locales (auto simp: string_less_def string_equal_def split: option.splits)

text \<open>One level of the order on values.\<close>

lemma value_order_step:
  assumes N: "weak_order (d_less D) (d_eq D) N"
    and IH: "weak_order (value_less D) (value_equal D) {v. comparable N v \<and> size v < n}"
  shows "weak_order (value_less D) (value_equal D) {v. comparable N v \<and> size v \<le> n}"
proof (rule weak_order_by_number [where number = "\<lambda>v. type_number (jtype v)"])
  let ?A = "{v. comparable N v \<and> size v \<le> n}" and ?B = "{v. comparable N v \<and> size v < n}"
  let ?C = "\<lambda>t. {v \<in> ?A. jtype v = t}"
  let ?order = "weak_order (value_less D) (value_equal D)"
  have signed: "weak_order (\<lambda>a b. (a :: 64 word) <s b) (=) UNIV"
    by unfold_locales (auto simp: word_sless_alt intro: signed_word_eqI)
  have null: "?order (?C nullT)"
    by unfold_locales (auto elim!: jtype.elims simp: value_comparisons)
  have "?order (?C t)" for t
  proof (cases t)
    case nullT
    with null show ?thesis by simp
  next
    case intT
    have "?order (JInt ` UNIV)" by (rule weak_order.image [OF signed]) (simp_all add: value_comparisons)
    then show ?thesis by (rule weak_order.subset) (auto simp: intT elim!: jtype.elims)
  next
    case uintT
    have "?order (JUInt ` UNIV)" by (rule weak_order.image [OF weak_order_linear]) (simp_all add: value_comparisons)
    then show ?thesis by (rule weak_order.subset) (auto simp: uintT elim!: jtype.elims)
  next
    case realT
    have "?order (JReal ` N)" by (rule weak_order.image [OF N]) (simp_all add: value_comparisons)
    then show ?thesis by (rule weak_order.subset) (auto simp: realT elim!: jtype.elims)
  next
    case stringT
    have "?order (JString ` UNIV)" by (rule weak_order.image [OF strings.weak_order_axioms]) (simp_all add: value_comparisons)
    then show ?thesis by (rule weak_order.subset) (auto simp: stringT elim!: jtype.elims)
  next
    case booleanT
    have "?order (JBool ` UNIV)" by (rule weak_order.image [OF weak_order_linear]) (simp_all add: value_comparisons)
    then show ?thesis by (rule weak_order.subset) (auto simp: booleanT elim!: jtype.elims)
  next
    case arrayT
    have "?order (JArray ` {m. length m < 2 ^ 31 \<and> snd ` set m \<subseteq> ?B})"
      by (rule weak_order.image [OF weak_order_sized_maps [OF IH]]) (simp_all add: value_comparisons)
    then show ?thesis by (rule weak_order.subset) (auto simp: arrayT elim!: jtype.elims intro!: imageI, (use size_in_map in fastforce)+)
  next
    case objectT
    have "?order (JObject ` {m. length m < 2 ^ 31 \<and> snd ` set m \<subseteq> ?B})"
      by (rule weak_order.image [OF weak_order_sized_maps [OF IH]]) (simp_all add: value_comparisons)
    then show ?thesis by (rule weak_order.subset) (auto simp: objectT elim!: jtype.elims intro!: imageI, (use size_in_map in fastforce)+)
  qed
  then have each: "?order {v \<in> ?A. type_number (jtype v) = type_number t}" for t
    by (simp add: type_number_inject)
  show "?order {v \<in> ?A. type_number (jtype v) = k}" for k
  proof (cases "\<exists>t. k = type_number t")
    case False
    then have "{v \<in> ?A. type_number (jtype v) = k} = {}" by auto
    then show ?thesis by (simp only: weak_order_empty)
  qed (use each in auto)
qed (simp add: value_less_types type_number_inject, simp add: value_equal.simps)

lemma value_order:
  assumes "weak_order (d_less D) (d_eq D) N"
  shows "weak_order (value_less D) (value_equal D) {v. comparable N v}"
proof -
  have level: "weak_order (value_less D) (value_equal D) {v. comparable N v \<and> size v < n}" for n
  proof (induction n)
    case 0
    then show ?case by (simp add: weak_order_empty)
  next
    case (Suc n)
    from value_order_step [OF assms Suc.IH] show ?case by (simp add: less_Suc_eq_le)
  qed
  show ?thesis
  proof
    fix a b c assume "a \<in> {v. comparable N v}" "b \<in> {v. comparable N v}" "c \<in> {v. comparable N v}"
    then have "a \<in> {v. comparable N v \<and> size v < Suc (size a + size b + size c)}"
      "b \<in> {v. comparable N v \<and> size v < Suc (size a + size b + size c)}"
      "c \<in> {v. comparable N v \<and> size v < Suc (size a + size b + size c)}" by auto
    note l = weak_order.asym [OF level this(1,2)] weak_order.cotrans [OF level this] weak_order.eq_iff [OF level this(1,2)]
    show "value_less D a b \<Longrightarrow> \<not> value_less D b a" by (rule l(1))
    show "value_less D a c \<Longrightarrow> value_less D a b \<or> value_less D b c" by (rule l(2))
    show "value_equal D a b \<longleftrightarrow> \<not> value_less D a b \<and> \<not> value_less D b a" by (rule l(3))
  qed
qed

text \<open>Values without doubles, whatever the doubles of the platform are.\<close>

interpretation plain_values: weak_order "value_less D" "value_equal D" "{v. comparable {} v}" for D
  by (rule value_order) (rule weak_order_empty)

text \<open>
  C29. On values with less than \<open>2 ^ 31\<close> elements or members in each container, whose doubles are
  ordered (which leaves out NaN), \<open>operator <\<close> is a strict order by type, then size, then content:
  irreflexive, transitive, and two values are incomparable exactly if \<open>operator ==\<close> holds, which is an
  equivalence; so \<open>compare\<close> is 0 exactly on equal values and changes its sign when the arguments are
  exchanged.
\<close>

theorem comparison_is_an_order:
  assumes "weak_order (d_less D) (d_eq D) N" "comparable N u" "comparable N v" "comparable N w"
  shows "\<not> value_less D u u
    \<and> (value_less D u v \<and> value_less D v w \<longrightarrow> value_less D u w)
    \<and> (value_equal D u v \<longleftrightarrow> \<not> value_less D u v \<and> \<not> value_less D v u)
    \<and> (value_equal D u v \<and> value_equal D v w \<longrightarrow> value_equal D u w)
    \<and> (compare D u v = 0 \<longleftrightarrow> value_equal D u v)
    \<and> compare D v u = - compare D u v"
proof -
  note order = value_order [OF assms(1)]
  have m: "u \<in> {v. comparable N v}" "v \<in> {v. comparable N v}" "w \<in> {v. comparable N v}" using assms(2-4) by simp_all
  note laws = weak_order.irrefl [OF order m(1)] weak_order.trans [OF order m] weak_order.eq_iff [OF order m(1,2)]
    weak_order.equivalence(3) [OF order m] weak_order.asym [OF order m(1,2)]
  show ?thesis using laws unfolding compare_def by auto
qed

text \<open>Integers in the place of doubles, as an instance with an order.\<close>

definition whole_doubles :: "int double_api" where
  "whole_doubles = \<lparr>d_less = (<), d_eq = (=), d_of_int = (\<lambda>n. n), d_to_Int = of_int, d_to_UInt = of_int\<rparr>"

theorem comparison_is_an_order_witness:
  "value_less whole_doubles (JArray [(0, JReal 1)]) (JArray [(0, JReal 2)])
   \<and> value_less whole_doubles (JArray [(0, JReal 2)]) (JObject []) \<and> value_less whole_doubles (JArray [(0, JReal 1)]) (JObject [])
   \<and> compare whole_doubles (JReal 1) (JReal 1) = 0"
proof -
  let ?D = whole_doubles
  have "weak_order (d_less ?D) (d_eq ?D) UNIV" unfolding whole_doubles_def double_api.simps by (rule weak_order_linear)
  note order = comparison_is_an_order [OF this]
  have "value_less ?D (JArray [(0, JReal 1)]) (JArray [(0, JReal 2)]) \<and> value_less ?D (JArray [(0, JReal 2)]) (JObject []) \<Longrightarrow>
      value_less ?D (JArray [(0, JReal 1)]) (JObject [])"
    using order [of "JArray [(0, JReal 1)]" "JArray [(0, JReal 2)]" "JObject []"] by simp
  moreover have "value_less ?D (JArray [(0, JReal 1)]) (JArray [(0, JReal 2)])" "value_less ?D (JArray [(0, JReal 2)]) (JObject [])"
    by (simp_all add: value_less.simps size_delta_def type_number_def whole_doubles_def)
  moreover have "value_equal ?D (JReal 1) (JReal 1)" by (simp add: value_equal.simps whole_doubles_def)
  then have "compare ?D (JReal 1) (JReal 1) = 0" using order [of "JReal 1" "JReal 1" "JReal 1"] by simp
  ultimately show ?thesis by blast
qed

text \<open>
  The comparison sees the gaps of an array, which reading does not: extending an empty array to two
  elements and appending two nulls give the same elements, but values that are not equal.
\<close>

lemma gaps_are_compared:
  "\<exists>v w. resize 2 JNull = Some v \<and> run_ops [Append JNull, Append JNull] JNull = Some w
     \<and> elements v = elements w \<and> \<not> value_equal D v w"
  by (simp add: resize_null resize_array make_index_def append_value_def set_index_def at_index_def map_modify_def jsize_def
      elements_def look_index_def const_index_def map_find_def upt_rec value_equal.simps)

text \<open>A double that is neither below, above nor equal to itself compares as the same.\<close>

lemma nan_compares_same:
  "\<not> d_less D d d \<Longrightarrow> \<not> d_eq D d d \<Longrightarrow> compare D (JReal d) (JReal d) = 0 \<and> \<not> value_equal D (JReal d) (JReal d)"
  by (simp add: compare_def value_less.simps value_equal.simps)

end
