(* ===== verification/JsonPath.thy ===== *)
theory JsonPath
  imports JsonOps JsonWriter
begin

text \<open>
  Paths of the JSON library (\<open>Path\<close> and \<open>PathArgument\<close> in \<open>jsoncpp.cc\<close>): the parser of a path such as
  \<open>.settings[3].name\<close>, and the three walks along one. Errors on the way are commented out in the source,
  so they change nothing here either, except that a wrong type fails the assertion of
  \<open>operator[]\<close>.
\<close>

section \<open>Parsing a path\<close>

datatype PathArgument = kindNone | kindIndex "32 word" | kindKey string

datatype path_kind = IndexKind | KeyKind

fun has_kind :: "path_kind \<Rightarrow> PathArgument \<Rightarrow> bool" where
  "has_kind IndexKind (kindIndex _) = True"
| "has_kind KeyKind (kindKey _) = True"
| "has_kind _ _ = False"

text \<open>
  \<open>addPathInArg\<close>: the argument the iterator is at, when it has the right kind. The iterator is taken by
  reference but never moved, so that this is always the first argument.
\<close>

definition addPathInArg :: "PathArgument list \<Rightarrow> path_kind \<Rightarrow> PathArgument list \<Rightarrow> PathArgument list" where
  "addPathInArg ins k args = (case ins of [] \<Rightarrow> args | a # _ \<Rightarrow> if has_kind k a then args @ [a] else args)"

fun path_index :: "string \<Rightarrow> 32 word \<Rightarrow> 32 word \<times> string" where
  "path_index [] i = (i, [])"
| "path_index (c # s) i = (if is_digit c then path_index s (i * 10 + of_nat (of_char c - 48)) else (i, c # s))"

text \<open>The characters a name ends at: \<open>strchr\<close> also finds the NUL that ends its string.\<close>

definition ends_name :: "char \<Rightarrow> bool" where
  "ends_name c \<longleftrightarrow> c = CHR ''['' \<or> c = CHR ''.'' \<or> c = CHR 0x00"

text \<open>
  One turn of the loop of \<open>makePath\<close> on the rest of the path. Whether the closing bracket is there only
  decides on a call of \<open>invalidPath\<close>, which does nothing: the character is skipped in any case.
\<close>

definition path_step :: "PathArgument list \<Rightarrow> string \<Rightarrow> PathArgument list \<Rightarrow> string \<times> PathArgument list" where
  "path_step ins s args =
     (case s of
        [] \<Rightarrow> ([], args)
      | c # s1 \<Rightarrow>
          if c = CHR ''['' then
            (if take 1 s1 = ''%'' then (drop 1 s1, addPathInArg ins IndexKind args)
             else (case path_index s1 0 of (i, s2) \<Rightarrow> (drop 1 s2, args @ [kindIndex i])))
          else if c = CHR ''%'' then (s1, addPathInArg ins KeyKind args)
          else if c = CHR ''.'' then (s1, args)
          else (dropWhile (\<lambda>c. \<not> ends_name c) s, args @ [kindKey (takeWhile (\<lambda>c. \<not> ends_name c) s)]))"

text \<open>The loop may not end: a NUL where a name should begin is a name of no characters.\<close>

partial_function (option) makePath :: "PathArgument list \<Rightarrow> string \<Rightarrow> PathArgument list \<Rightarrow> PathArgument list option" where
  "makePath ins s args =
     (if s = [] then Some args else case path_step ins s args of (s', args') \<Rightarrow> makePath ins s' args')"

text \<open>The constructor: up to five arguments, of which the missing ones are of no kind; a key is a C string.\<close>

definition Path :: "string \<Rightarrow> PathArgument list \<Rightarrow> PathArgument list option" where
  "Path path as = makePath (take 5 (as @ replicate 5 kindNone)) path []"

section \<open>Walking along a path\<close>

text \<open>
  A node of a constant value is a pointer, None for the address of \<open>Value::null\<close>. \<open>resolve\<close> gives the node
  at the end, unless an \<open>operator[]\<close> fails.
\<close>

definition node_value :: "'d jvalue option \<Rightarrow> 'd jvalue" where
  "node_value node = (case node of Some v \<Rightarrow> v | None \<Rightarrow> JNull)"

fun Path_resolve :: "PathArgument list \<Rightarrow> 'd jvalue option \<Rightarrow> 'd jvalue option option" where
  "Path_resolve [] node = Some node"
| "Path_resolve (kindNone # args) node = Path_resolve args node"
| "Path_resolve (kindIndex i # args) node = (case const_index i (node_value node) of None \<Rightarrow> None | Some r \<Rightarrow> Path_resolve args r)"
| "Path_resolve (kindKey k # args) node = (case const_member k (node_value node) of None \<Rightarrow> None | Some r \<Rightarrow> Path_resolve args r)"

text \<open>With a default. The test of the index is the wrong way round.\<close>

fun Path_resolve_default :: "PathArgument list \<Rightarrow> 'd jvalue \<Rightarrow> 'd jvalue option \<Rightarrow> 'd jvalue option" where
  "Path_resolve_default [] d node = Some (node_value node)"
| "Path_resolve_default (kindNone # args) d node = Path_resolve_default args d node"
| "Path_resolve_default (kindIndex i # args) d node =
     (if \<not> jisArray (node_value node) \<or> isValidIndex i (node_value node) then Some d
      else case const_index i (node_value node) of None \<Rightarrow> None | Some r \<Rightarrow> Path_resolve_default args d r)"
| "Path_resolve_default (kindKey k # args) d node =
     (if \<not> jisObject (node_value node) then Some d
      else case const_member k (node_value node) of
          None \<Rightarrow> None
        | Some None \<Rightarrow> Some d
        | Some (Some x) \<Rightarrow> Path_resolve_default args d (Some x))"

text \<open>
  \<open>make\<close> gives the root after the call, in which the node of the path exists; assigning through the
  reference it returns is the next definition.
\<close>

fun Path_make :: "PathArgument list \<Rightarrow> 'd jvalue \<Rightarrow> 'd jvalue option" where
  "Path_make [] v = Some v"
| "Path_make (kindNone # args) v = Path_make args v"
| "Path_make (kindIndex i # args) v =
     (case make_index i v of
        None \<Rightarrow> None
      | Some v' \<Rightarrow> (case Path_make args (node_value (look_index i v')) of None \<Rightarrow> None | Some x \<Rightarrow> Some (at_index i (\<lambda>_. x) v')))"
| "Path_make (kindKey k # args) v =
     (case resolveReference k v of
        None \<Rightarrow> None
      | Some v' \<Rightarrow> (case Path_make args (node_value (look_member k v')) of None \<Rightarrow> None | Some x \<Rightarrow> Some (at_member k (\<lambda>_. x) v')))"

fun at_path :: "PathArgument list \<Rightarrow> ('d jvalue \<Rightarrow> 'd jvalue) \<Rightarrow> 'd jvalue \<Rightarrow> 'd jvalue" where
  "at_path [] f v = f v"
| "at_path (kindNone # args) f v = at_path args f v"
| "at_path (kindIndex i # args) f v = at_index i (at_path args f) v"
| "at_path (kindKey k # args) f v = at_member k (at_path args f) v"

section \<open>The parser\<close>

text \<open>The text of a path, for keys the parser can read: not empty, no NUL, bracket or dot, no percent sign first.\<close>

fun path_text :: "PathArgument list \<Rightarrow> string" where
  "path_text [] = []"
| "path_text (kindIndex i # args) = ''['' @ dec_of_nat (unat i) @ '']'' @ path_text args"
| "path_text (kindKey k # args) = ''.'' @ k @ path_text args"
| "path_text (kindNone # args) = path_text args"

fun printable :: "PathArgument \<Rightarrow> bool" where
  "printable kindNone = False"
| "printable (kindIndex _) = True"
| "printable (kindKey k) = (k \<noteq> [] \<and> hd k \<noteq> CHR ''%'' \<and> list_all (\<lambda>c. \<not> ends_name c) k)"

lemma path_index_digits:
  assumes "list_all is_digit s" "r \<noteq> []" "\<not> is_digit (hd r)"
  shows "path_index (s @ r) (of_nat n) = (of_nat (nat_digits s n), r)"
  using assms(1)
proof (induction s arbitrary: n)
  case Nil
  then show ?case using assms(2,3) by (cases r) auto
next
  case (Cons c s)
  have "(of_nat n * 10 + of_nat (of_char c - 48) :: 32 word) = of_nat (10 * n + (of_char c - 48))" by (simp add: mult.commute)
  then show ?case using Cons by (simp del: of_nat_add of_nat_mult)
qed

lemma path_index_dec: "path_index (dec_of_nat (unat i) @ '']'' @ s) 0 = (i, '']'' @ s)"
  using path_index_digits [OF dec_of_nat_digits, where r = "'']'' @ s" and n = 0]
  by (simp add: is_digit_def less_eq_char_def nat_digits_dec)

lemma path_step_texts:
  "path_step ins (''['' @ dec_of_nat (unat i) @ '']'' @ s) args = (s, args @ [kindIndex i])"
  "path_step ins (''.'' @ s) args = (s, args)"
  "printable (kindKey k) \<Longrightarrow> s = [] \<or> ends_name (hd s) \<Longrightarrow> path_step ins (k @ s) args = (s, args @ [kindKey k])"
proof -
  have "take 1 (dec_of_nat (unat i) @ '']'' @ s) \<noteq> ''%''"
    using dec_of_nat_digits [of "unat i"] by (cases "dec_of_nat (unat i)") (auto simp: is_digit_def less_eq_char_def)
  then show "path_step ins (''['' @ dec_of_nat (unat i) @ '']'' @ s) args = (s, args @ [kindIndex i])"
    using path_index_dec [of i s] by (simp add: path_step_def)
  show "path_step ins (''.'' @ s) args = (s, args)" by (simp add: path_step_def)
  assume k: "printable (kindKey k)" and s: "s = [] \<or> ends_name (hd s)"
  then obtain c k' where c: "k = c # k'" "\<not> ends_name c" "c \<noteq> CHR ''%''" by (cases k) auto
  have "takeWhile (\<lambda>c. \<not> ends_name c) (k @ s) = k" "dropWhile (\<lambda>c. \<not> ends_name c) (k @ s) = s"
    using k s by (cases s; simp add: takeWhile_append2 dropWhile_append2 list_all_iff)+
  then show "path_step ins (k @ s) args = (s, args @ [kindKey k])"
    using c by (simp add: path_step_def ends_name_def)
qed

lemma path_text_start: "list_all printable args \<Longrightarrow> path_text args = [] \<or> ends_name (hd (path_text args))"
  by (cases args rule: path_text.cases) (auto simp: ends_name_def)

lemma makePath_code:
  "makePath ins [] args = Some args"
  "makePath ins (c # s) args = (case path_step ins (c # s) args of (s', args') \<Rightarrow> makePath ins s' args')"
  by (subst makePath.simps, simp)+

lemma makePath_step: "s \<noteq> [] \<Longrightarrow> path_step ins s args = (s', args') \<Longrightarrow> makePath ins s args = makePath ins s' args'"
  by (subst makePath.simps) simp

text \<open>
  Round trip of paths: the text of a path, an index in brackets and a dot before each name, is parsed
  back into the path, for every 32-bit index and every name that is not empty, has no bracket, dot or
  NUL and does not start with a percent sign.
\<close>

theorem path_roundtrip:
  assumes "list_all printable path"
  shows "Path (path_text path) ins = Some path"
proof -
  have "makePath is (path_text path) args = Some (args @ path)" for "is" args
    using assms
  proof (induction path arbitrary: args)
    case Nil
    show ?case by (subst makePath.simps) simp
  next
    case (Cons a path)
    show ?case
    proof (cases a)
      case kindNone
      then show ?thesis using Cons.prems by simp
    next
      case (kindIndex i)
      have "makePath is (path_text (a # path)) args = makePath is (path_text path) (args @ [kindIndex i])"
        using makePath_step [OF _ path_step_texts(1)] kindIndex by simp
      then show ?thesis using Cons kindIndex by simp
    next
      case (kindKey k)
      have k: "printable (kindKey k)" using Cons.prems kindKey by simp
      have "makePath is (path_text (a # path)) args = makePath is (k @ path_text path) args"
        using makePath_step [OF _ path_step_texts(2)] kindKey by simp
      also have "\<dots> = makePath is (path_text path) (args @ [kindKey k])"
        using k path_text_start [of path] Cons.prems by (intro makePath_step path_step_texts(3)) auto
      finally show ?thesis using Cons kindKey by simp
    qed
  qed
  then show ?thesis by (simp add: Path_def)
qed

theorem path_roundtrip_witness:
  "Path ''.settings[3].name'' [] = Some [kindKey ''settings'', kindIndex 3, kindKey ''name'']"
proof -
  have "list_all printable [kindKey ''settings'', kindIndex 3, kindKey ''name'']" by (simp add: ends_name_def)
  from path_roundtrip [OF this, of "[]"] show ?thesis by (simp add: dec_of_nat.simps digit_chars)
qed

text \<open>What each turn leaves of a path without NUL is shorter, so the loop ends.\<close>

lemma path_index_rest: "path_index s i = (j, r) \<Longrightarrow> length r \<le> length s \<and> set r \<subseteq> set s"
  by (induction s i rule: path_index.induct) (fastforce split: if_splits)+

lemma path_step_shorter:
  assumes "s \<noteq> []" "hd s \<noteq> CHR 0x00" "path_step ins s args = (s', args')"
  shows "length s' < length s \<and> set s' \<subseteq> set s"
proof -
  obtain c s1 where s: "s = c # s1" using assms(1) by (cases s) auto
  obtain i r where r: "path_index s1 0 = (i, r)" by fastforce
  have drop: "set (drop 1 xs) \<subseteq> set xs" "length (drop 1 xs) \<le> length xs" for xs :: string by (auto dest: in_set_dropD)
  show ?thesis
  proof (cases "c \<in> {CHR ''['', CHR ''%'', CHR ''.''}")
    case True
    then show ?thesis
      using assms(3) drop [of s1] drop [of r] path_index_rest [OF r] unfolding s path_step_def
      by (auto simp: r split: if_split_asm)
  next
    case False
    then have "\<not> ends_name c" using assms(2) s by (simp add: ends_name_def)
    then have "s' = dropWhile (\<lambda>c. \<not> ends_name c) s1" using assms(3) False by (simp add: s path_step_def)
    then show ?thesis using length_dropWhile_le [of "\<lambda>c. \<not> ends_name c" s1] set_dropWhileD [of _ "\<lambda>c. \<not> ends_name c" s1] by (auto simp: s)
  qed
qed

lemma makePath_NUL_start: "makePath ins (CHR 0x00 # s) args = makePath ins (CHR 0x00 # s) (args @ [kindKey []])"
  by (rule makePath_step) (simp_all add: path_step_def ends_name_def)

text \<open>A loop that only adds to the arguments has no result.\<close>

lemma path_step_longer: "path_step ins s args = (s', args') \<Longrightarrow> length args \<le> length args'"
  by (auto simp: path_step_def addPathInArg_def split: if_split_asm list.split_asm prod.split_asm)

lemma makePath_longer:
  assumes "makePath ins s args = Some r"
  shows "length args \<le> length r"
proof (rule makePath.raw_induct [where P = "\<lambda>ins s args r. length args \<le> length r", OF _ assms])
  fix f :: "PathArgument list \<Rightarrow> string \<Rightarrow> PathArgument list \<Rightarrow> PathArgument list option" and ins s args r
  assume IH: "\<And>ins s args r. f ins s args = Some r \<Longrightarrow> length args \<le> length r"
    and step: "(if s = [] then Some args else case path_step ins s args of (s', args') \<Rightarrow> f ins s' args') = Some r"
  obtain s' args' where s': "path_step ins s args = (s', args')" by fastforce
  show "length args \<le> length r"
    using step path_step_longer [OF s'] IH [of ins s' args' r] by (auto simp: s' split: if_split_asm)
qed

lemma makePath_NUL: "makePath ins (CHR 0x00 # s) args = None"
proof (rule ccontr)
  assume "makePath ins (CHR 0x00 # s) args \<noteq> None"
  then obtain r where r: "makePath ins (CHR 0x00 # s) args = Some r" by blast
  have "makePath ins (CHR 0x00 # s) (args @ replicate n (kindKey [])) = Some r" for n
  proof (induction n)
    case (Suc n)
    then show ?case using makePath_NUL_start [of ins s "args @ replicate n (kindKey [])"]
      by (simp add: replicate_append_same [symmetric])
  qed (simp add: r)
  from makePath_longer [OF this [of "Suc (length r)"]] show False by simp
qed

text \<open>
  The parser of paths returns on every path without a NUL character, whatever its brackets and
  percent signs look like. On a path in which a NUL follows a name, or starts the path, it never
  returns: it adds names of no characters for ever.
\<close>

theorem path_parser_returns:
  "(CHR 0x00 \<notin> set path \<longrightarrow> (\<exists>args. Path path ins = Some args))
   \<and> (list_all (\<lambda>c. \<not> ends_name c) name \<and> (name \<noteq> [] \<longrightarrow> hd name \<noteq> CHR ''%'') \<longrightarrow> Path (name @ CHR 0x00 # path) ins = None)"
proof (intro conjI impI)
  assume "CHR 0x00 \<notin> set path"
  then have "\<exists>args'. makePath is path args = Some args'" for "is" args
  proof (induction path arbitrary: args rule: length_induct)
    case (1 s)
    show ?case
    proof (cases "s = []")
      case True
      then show ?thesis by (subst makePath.simps) simp
    next
      case False
      obtain s' args' where step: "path_step is s args = (s', args')" by fastforce
      have "hd s \<noteq> CHR 0x00" using False "1.prems" by (metis list.set_sel(1))
      from path_step_shorter [OF False this step] have "length s' < length s" "CHR 0x00 \<notin> set s'" using "1.prems" by auto
      with "1.IH" show ?thesis using makePath_step [OF False step] by metis
    qed
  qed
  then show "\<exists>args. Path path ins = Some args" by (simp add: Path_def)
next
  assume name: "list_all (\<lambda>c. \<not> ends_name c) name \<and> (name \<noteq> [] \<longrightarrow> hd name \<noteq> CHR ''%'')"
  show "Path (name @ CHR 0x00 # path) ins = None"
  proof (cases "name = []")
    case False
    then have "printable (kindKey name)" using name by simp
    from path_step_texts(3) [OF this, of "CHR 0x00 # path"] show ?thesis
      using makePath_step [OF _ path_step_texts(3)] False by (simp add: Path_def makePath_NUL ends_name_def makePath_step)
  qed (simp add: Path_def makePath_NUL)
qed

theorem path_parser_returns_witness:
  "Path ''a[%'' [] \<noteq> None \<and> Path (''a'' @ CHR 0x00 # []) [] = None"
  using path_parser_returns [of "''a[%''" "[]" "''a''"] path_parser_returns [of "[]" "[]" "''a''"]
  by (simp add: ends_name_def)

section \<open>The walks\<close>

lemma node_value_simps [simp]: "node_value (Some v) = v" "node_value None = JNull"
  by (simp_all add: node_value_def)

lemma const_look:
  "const_index i v = (if jtype v \<in> {nullT, arrayT} then Some (look_index i v) else None)"
  "const_member k v = (if jtype v \<in> {nullT, objectT} then Some (look_member k v) else None)"
  by (cases v; simp add: const_index_def look_index_def const_member_def look_member_def)+

lemma made_types:
  "make_index i v = None \<longleftrightarrow> jtype v \<notin> {nullT, arrayT}" "make_index i v = Some v' \<Longrightarrow> jtype v' = arrayT"
  "resolveReference k v = None \<longleftrightarrow> jtype v \<notin> {nullT, objectT}" "resolveReference k v = Some v' \<Longrightarrow> jtype v' = objectT"
  "jtype (at_index i f v) = jtype v" "jtype (at_member k f v) = jtype v"
  by (cases v; auto simp: make_index_def resolveReference_def at_index_def at_member_def)+

text \<open>The value at the end of a path only depends on the value the walk starts from.\<close>

definition value_at :: "PathArgument list \<Rightarrow> 'd jvalue \<Rightarrow> 'd jvalue option" where
  "value_at args v = map_option node_value (Path_resolve args (Some v))"

lemma resolve_node: "map_option node_value (Path_resolve args node) = value_at args (node_value node)"
proof (induction args arbitrary: node)
  case (Cons a args)
  then show ?case by (cases a) (simp_all add: value_at_def)
qed (simp add: value_at_def)

lemma value_at_simps:
  "value_at [] v = Some v" "value_at (kindNone # args) v = value_at args v"
  "value_at (kindIndex i # args) v = (if jtype v \<in> {nullT, arrayT} then value_at args (node_value (look_index i v)) else None)"
  "value_at (kindKey k # args) v = (if jtype v \<in> {nullT, objectT} then value_at args (node_value (look_member k v)) else None)"
  using resolve_node [of args "look_index i v"] resolve_node [of args "look_member k v"]
  by (simp_all add: value_at_def const_look)

lemma look_made:
  assumes "jvalue_ok v"
  shows "make_index i v = Some u \<Longrightarrow> look_index i u = Some (node_value (look_index i v))"
    and "resolveReference k v = Some u \<Longrightarrow> look_member k u = Some (node_value (look_member k v))"
  using index.look_make [OF assms, of i u i] member.look_make [OF assms, of k u k] by (auto simp: node_value_def split: option.splits)

lemma look_ok:
  assumes "jvalue_ok v"
  shows "jvalue_ok (node_value (look_index i v))" "jvalue_ok (node_value (look_member k v))"
  using assms by (cases v; auto simp: node_value_def look_index_def const_index_def look_member_def const_member_def
      children_ok_find split: option.splits)+

lemma make_fails: "jvalue_ok v \<Longrightarrow> Path_make args v = None \<longleftrightarrow> value_at args v = None"
proof (induction args arbitrary: v)
  case (Cons a args)
  note look = look_ok [OF Cons.prems]
  show ?case
  proof (cases a)
    case (kindIndex i)
    show ?thesis
    proof (cases "make_index i v")
      case None
      then show ?thesis using made_types(1) [of i v] by (simp add: kindIndex value_at_simps)
    next
      case (Some u)
      then have "jtype v \<in> {nullT, arrayT}" using made_types(1) [of i v] by (metis option.distinct(1))
      then show ?thesis
        using Cons.IH [OF look(1), of i] look_made(1) [OF Cons.prems Some]
        by (cases "Path_make args (node_value (look_index i v))") (simp_all add: kindIndex value_at_simps Some)
    qed
  next
    case (kindKey k)
    show ?thesis
    proof (cases "resolveReference k v")
      case None
      then show ?thesis using made_types(3) [of k v] by (simp add: kindKey value_at_simps)
    next
      case (Some u)
      then have "jtype v \<in> {nullT, objectT}" using made_types(3) [of k v] by (metis option.distinct(1))
      then show ?thesis
        using Cons.IH [OF look(2), of k] look_made(2) [OF Cons.prems Some]
        by (cases "Path_make args (node_value (look_member k v))") (simp_all add: kindKey value_at_simps Some)
    qed
  qed (use Cons in \<open>simp add: value_at_simps\<close>)
qed (simp add: value_at_simps)

lemma make_resolves:
  assumes "jvalue_ok v" "Path_make args v = Some v'"
  shows "\<exists>x. value_at args v = Some x \<and> Path_resolve args (Some v') = Some (Some x)
    \<and> Path_resolve args (Some (at_path args f v')) = Some (Some (f x)) \<and> jvalue_ok v'"
  using assms
proof (induction args arbitrary: v v')
  case (Cons a args)
  note look = look_ok [OF Cons.prems(1)]
  show ?case
  proof (cases a)
    case (kindIndex i)
    obtain u where u: "make_index i v = Some u" using Cons.prems(2) kindIndex by (auto split: option.splits)
    note lu = look_made(1) [OF Cons.prems(1) u]
    obtain y where y: "Path_make args (node_value (look_index i v)) = Some y" "v' = at_index i (\<lambda>_. y) u"
      using Cons.prems(2) kindIndex u lu by (auto simp: node_value_def split: option.splits)
    from Cons.IH [OF look(1) y(1)] obtain x where x: "value_at args (node_value (look_index i v)) = Some x"
      "Path_resolve args (Some y) = Some (Some x)" "Path_resolve args (Some (at_path args f y)) = Some (Some (f x))" "jvalue_ok y" by blast
    have ok: "jvalue_ok u" "jvalue_ok v'" using make_index_ok [OF Cons.prems(1) u] x(4) y(2) at_index_ok by auto
    have v': "look_index i v' = Some y" using index.look_store [OF ok(1), of i i "\<lambda>_. y"] lu y(2) by simp
    have "look_index i (at_index i (at_path args f) v') = Some (at_path args f y)"
      using index.look_store [OF ok(2), of i i "at_path args f"] v' by simp
    moreover have "jtype v' = arrayT" using y(2) made_types(2) [OF u] by (simp add: made_types)
    moreover have "jtype v \<in> {nullT, arrayT}" using u made_types(1) [of i v] by auto
    ultimately show ?thesis using x v' ok(2) by (simp add: kindIndex value_at_simps const_look made_types)
  next
    case (kindKey k)
    obtain u where u: "resolveReference k v = Some u" using Cons.prems(2) kindKey by (auto split: option.splits)
    note lu = look_made(2) [OF Cons.prems(1) u]
    obtain y where y: "Path_make args (node_value (look_member k v)) = Some y" "v' = at_member k (\<lambda>_. y) u"
      using Cons.prems(2) kindKey u lu by (auto simp: node_value_def split: option.splits)
    from Cons.IH [OF look(2) y(1)] obtain x where x: "value_at args (node_value (look_member k v)) = Some x"
      "Path_resolve args (Some y) = Some (Some x)" "Path_resolve args (Some (at_path args f y)) = Some (Some (f x))" "jvalue_ok y" by blast
    have ok: "jvalue_ok u" "jvalue_ok v'" using resolveReference_ok [OF Cons.prems(1) u] x(4) y(2) at_member_ok by auto
    have v': "look_member k v' = Some y" using member.look_store [OF ok(1), of k k "\<lambda>_. y"] lu y(2) by simp
    have "look_member k (at_member k (at_path args f) v') = Some (at_path args f y)"
      using member.look_store [OF ok(2), of k k "at_path args f"] v' by simp
    moreover have "jtype v' = objectT" using y(2) made_types(4) [OF u] by (simp add: made_types)
    moreover have "jtype v \<in> {nullT, objectT}" using u made_types(3) [of k v] by auto
    ultimately show ?thesis using x v' ok(2) by (simp add: kindKey value_at_simps const_look made_types)
  qed (use Cons in \<open>simp add: value_at_simps\<close>)
qed (simp add: value_at_simps)

text \<open>
  \<open>make\<close> succeeds on a value exactly if \<open>resolve\<close> does, and then the node of the path exists with the
  value \<open>resolve\<close> found before, null where there was none; a value stored through the reference \<open>make\<close>
  returns is the one \<open>resolve\<close> finds from then on, and the root stays well formed.
\<close>

theorem make_then_resolve:
  assumes "jvalue_ok v"
  shows "(Path_make args v = None \<longleftrightarrow> Path_resolve args (Some v) = None)
    \<and> (Path_make args v = Some v' \<longrightarrow> (\<exists>x. map_option node_value (Path_resolve args (Some v)) = Some x
         \<and> Path_resolve args (Some v') = Some (Some x) \<and> Path_resolve args (Some (at_path args f v')) = Some (Some (f x)) \<and> jvalue_ok v'))"
  using make_fails [OF assms] make_resolves [OF assms] by (simp add: value_at_def)

theorem make_then_resolve_witness:
  "Path_make [kindKey ''a'', kindIndex 2] (JObject []) = Some (JObject [(''a'', JArray [(2, JNull :: nat jvalue)])])
   \<and> Path_resolve [kindKey ''a'', kindIndex 2] (Some (JObject [(''a'', JArray [(2, JBool True :: nat jvalue)])])) = Some (Some (JBool True))"
proof -
  have m: "Path_make [kindKey ''a'', kindIndex 2] (JObject []) = Some (JObject [(''a'', JArray [(2, JNull :: nat jvalue)])])"
    by (simp add: resolveReference_def c_str_def look_member_def const_member_def map_find_def node_value_def make_index_def
        at_index_def at_member_def map_modify_def)
  have "jvalue_ok (JObject [] :: nat jvalue)" by simp
  from make_then_resolve [OF this, of "[kindKey ''a'', kindIndex 2]" "JObject [(''a'', JArray [(2, JNull)])]" "\<lambda>_. JBool True"] m
  have "Path_resolve [kindKey ''a'', kindIndex 2] (Some (at_path [kindKey ''a'', kindIndex 2] (\<lambda>_. JBool True)
      (JObject [(''a'', JArray [(2, JNull :: nat jvalue)])]))) = Some (Some (JBool True))" by blast
  then show ?thesis using m by (simp add: at_member_def at_index_def map_modify_def c_str_def)
qed

text \<open>Arrays that do not use the last index, at every depth.\<close>

fun no_wraps :: "'d jvalue \<Rightarrow> bool" where
  "no_wraps (JArray m) = (no_wrap m \<and> (\<forall>p \<in> set m. no_wraps (snd p)))"
| "no_wraps (JObject m) = (\<forall>p \<in> set m. no_wraps (snd p))"
| "no_wraps _ = True"

lemma invalid_index:
  assumes "jvalue_ok v" "no_wraps v" "jisArray v" "\<not> isValidIndex i v"
  shows "const_index i v = Some None"
proof (cases v)
  case (JArray m)
  then show ?thesis using assms array_size(1) [of m i] children_map_ok
    by (cases "map_find m i") (auto simp: isValidIndex_def const_index_def)
qed (use assms in \<open>auto simp: jisArray_def const_index_def\<close>)

lemma member_ok: "jvalue_ok v \<Longrightarrow> no_wraps v \<Longrightarrow> const_member k v = Some (Some x) \<Longrightarrow> jvalue_ok x \<and> no_wraps x"
  by (cases v) (auto simp: const_member_def children_ok_def map_find_set dest!: bspec)

lemma resolve_default_null: "Path_resolve_default args d None \<in> {Some d, Some JNull}"
  by (induction args d "None :: 'a jvalue option" rule: Path_resolve_default.induct)
    (auto simp: const_index_def const_member_def jisArray_def)

lemma resolve_null: "Path_resolve args None = Some None"
  by (induction args "None :: 'a jvalue option" rule: Path_resolve.induct) (simp_all add: const_index_def const_member_def)

text \<open>
  \<open>resolve\<close> with a default never gives an element of an array: on a path with an index it gives the
  default, also when the index is valid, or null. On a path of names only it is what its name says:
  the value at the end, or the default when a name is missing or a value on the way is no object.
\<close>

theorem resolve_default_outcome:
  assumes "jvalue_ok v" "no_wraps v"
  shows "((\<exists>i. kindIndex i \<in> set args) \<longrightarrow> Path_resolve_default args d (Some v) = Some d \<or> Path_resolve_default args d (Some v) = Some JNull)
    \<and> ((\<forall>i. kindIndex i \<notin> set args) \<longrightarrow>
        Path_resolve_default args d (Some v) = Some (case Path_resolve args (Some v) of Some (Some x) \<Rightarrow> x | _ \<Rightarrow> d))"
  using assms
proof (induction args arbitrary: v)
  case (Cons a args)
  show ?case
  proof (cases a)
    case (kindIndex i)
    show ?thesis
      using invalid_index [OF Cons.prems] resolve_default_null [of args d] by (auto simp: kindIndex)
  next
    case (kindKey k)
    show ?thesis
    proof (cases "const_member k v")
      case None
      then have "\<not> jisObject v" by (cases v) (auto simp: const_member_def jisObject_def)
      then show ?thesis using None by (simp add: kindKey)
    next
      case (Some r)
      then have o: "jisObject v" by (cases v) (auto simp: const_member_def jisObject_def)
      show ?thesis
      proof (cases r)
        case None
        then show ?thesis using Some o by (auto simp: kindKey resolve_null)
      next
        case found: (Some x)
        from member_ok [OF Cons.prems] Some found have "jvalue_ok x" "no_wraps x" by auto
        from Cons.IH [OF this] show ?thesis using Some found o by (auto simp: kindKey)
      qed
    qed
  qed (use Cons in simp)
qed simp

theorem resolve_default_outcome_witness:
  "Path_resolve_default [kindKey ''a'', kindIndex 0] (JInt 7) (Some (JObject [(''a'', JArray [(0, JBool True :: nat jvalue)])])) = Some (JInt 7)
   \<and> Path_resolve_default [kindKey ''a''] (JInt 7) (Some (JObject [(''a'', JBool True :: nat jvalue)])) = Some (JBool True)"
proof -
  let ?v = "JObject [(''a'', JArray [(0, JBool True :: nat jvalue)])]" and ?w = "JObject [(''a'', JBool True :: nat jvalue)]"
  have v: "jvalue_ok ?v" "no_wraps ?v" and w: "jvalue_ok ?w" "no_wraps ?w"
    by (simp_all add: children_ok_def names_ok_def map_ok_Cons no_wrap_def map_find_def)
  have "Path_resolve_default [kindKey ''a'', kindIndex 0] (JInt 7) (Some ?v) \<noteq> Some JNull"
    by (simp add: jisObject_def const_member_def c_str_def map_find_def jisArray_def isValidIndex_def jsize_def)
  then have "Path_resolve_default [kindKey ''a'', kindIndex 0] (JInt 7) (Some ?v) = Some (JInt 7)"
    using resolve_default_outcome [OF v, of "[kindKey ''a'', kindIndex 0]" "JInt 7"] by auto
  moreover have "Path_resolve_default [kindKey ''a''] (JInt 7) (Some ?w) = Some (JBool True)"
    using resolve_default_outcome [OF w, of "[kindKey ''a'']" "JInt 7"] by (simp add: const_member_def c_str_def map_find_def)
  ultimately show ?thesis by blast
qed

text \<open>
  The arguments of a path: the percent sign of \<open>[%]\<close> is taken for the closing bracket, so that the bracket
  becomes a name, and every percent sign stands for the first argument.
\<close>

lemma percent_index: "Path ''[%]'' (kindIndex i # as) = Some [kindIndex i, kindKey '']'']"
  by (simp add: Path_def makePath_code path_step_def addPathInArg_def ends_name_def)

lemma percent_first_argument: "Path ''%.%'' (kindKey j # as) = Some [kindKey j, kindKey j]"
  by (simp add: Path_def makePath_code path_step_def addPathInArg_def)

end
