(* ===== verification/Http.thy ===== *)
theory Http
  imports Prelude
begin

text \<open>
  The services of tinyHTTP the click-to-call and reCAPTCHA transports call, as parameters: the parser
  of the message head, the content of a message, and the parser of URLs. The laws say what the
  transports rely on.
\<close>

section \<open>Messages\<close>

record http_message =
  hm_method :: cstr
  hm_Transfer_Encoding :: cstr
  hm_Content_Type :: cstr
  hm_Content_Length :: "nat option"
  hm_Content :: cstr

text \<open>The macros of tinyHTTP over a message; a request has a method.\<close>

definition THTTP_MESSAGE_IS_REQUEST :: "http_message \<Rightarrow> bool" where
  "THTTP_MESSAGE_IS_REQUEST m \<longleftrightarrow> hm_method m \<noteq> None"

definition THTTP_MESSAGE_CONTENT_LENGTH :: "http_message \<Rightarrow> nat" where
  "THTTP_MESSAGE_CONTENT_LENGTH m = (case hm_Content_Length m of None \<Rightarrow> 0 | Some n \<Rightarrow> n)"

definition THTTP_MESSAGE_HAS_CONTENT :: "http_message \<Rightarrow> bool" where
  "THTTP_MESSAGE_HAS_CONTENT m \<longleftrightarrow> hm_Content m \<noteq> None"

record thttp_url =
  url_host :: cstr
  url_port :: nat
  url_hpath :: cstr

record http_api =
  thttp_message_parse :: "string \<Rightarrow> http_message option"
  thttp_message_add_content :: "string \<Rightarrow> http_message \<Rightarrow> http_message"
  thttp_message_append_content :: "string \<Rightarrow> http_message \<Rightarrow> http_message"
  thttp_url_parse :: "cstr \<Rightarrow> thttp_url option"
  tsk_atox :: "string \<Rightarrow> nat"

text \<open>
  The head is parsed without its content; adding a content stores it with its length; appending one
  does so to what is there.
\<close>

definition http_law :: "http_api \<Rightarrow> bool" where
  "http_law H \<longleftrightarrow>
     (\<forall>s m. thttp_message_parse H s = Some m \<longrightarrow> hm_Content m = None)
     \<and> (\<forall>s m. thttp_message_add_content H s m =
           m\<lparr>hm_Content := Some s, hm_Content_Length := Some (length s)\<rparr>)
     \<and> (\<forall>s m. thttp_message_append_content H s m =
           (let t = (case hm_Content m of None \<Rightarrow> s | Some c \<Rightarrow> c @ s)
            in m\<lparr>hm_Content := Some t, hm_Content_Length := Some (length t)\<rparr>))"

text \<open>The end of the head, as both transports look for it.\<close>

abbreviation crlf2 :: string where "crlf2 \<equiv> crlf @ crlf"

text \<open>
  An instance for the witnesses: a head is known by its text, contents behave as documented.
\<close>

definition http_ref :: "(string \<Rightarrow> http_message option) \<Rightarrow> http_api" where
  "http_ref heads = \<lparr>thttp_message_parse = (\<lambda>s. map_option (\<lambda>m. m\<lparr>hm_Content := None\<rparr>) (heads s)),
     thttp_message_add_content = (\<lambda>s m. m\<lparr>hm_Content := Some s, hm_Content_Length := Some (length s)\<rparr>),
     thttp_message_append_content = (\<lambda>s m. let t = (case hm_Content m of None \<Rightarrow> s | Some c \<Rightarrow> c @ s)
        in m\<lparr>hm_Content := Some t, hm_Content_Length := Some (length t)\<rparr>),
     thttp_url_parse = (\<lambda>u. None), tsk_atox = (\<lambda>s. 0)\<rparr>"

lemma http_ref_law [simp]: "http_law (http_ref heads)"
  by (auto simp: http_law_def http_ref_def)

end
