(* ===== verification/Recaptcha.thy ===== *)
theory Recaptcha
  imports NetTransport Http Json
begin

text \<open>
  \<open>MPRecaptchaTransport\<close> (\<open>mp_recaptcha.cc\<close>, \<open>mp_recaptcha.h\<close>): the requests to the verification
  service, one per connection, and the callback that reads its answers. The validation callback is a
  log of its calls here; the click-to-call service consumes it. None is a failed assertion.
\<close>

section \<open>State\<close>

record MPRecaptcha =
  rc_pResponse :: string
  rc_pRemoteIP :: cstr
  rc_pAccountName :: string
  rc_pAccountEmail :: string
  rc_nFd :: MPNetFd
  rc_bConnected :: bool

text \<open>The constructor asserts a valid descriptor and the three texts.\<close>

definition new_MPRecaptcha :: "MPNetFd \<Rightarrow> cstr \<Rightarrow> cstr \<Rightarrow> cstr \<Rightarrow> cstr \<Rightarrow> MPRecaptcha option" where
  "new_MPRecaptcha fd name email response ip =
     (case (name, email, response) of
        (Some n, Some e, Some r) \<Rightarrow>
          if MPNetFd_IsValid fd
          then Some \<lparr>rc_pResponse = r, rc_pRemoteIP = ip, rc_pAccountName = n, rc_pAccountEmail = e,
                     rc_nFd = fd, rc_bConnected = False\<rparr>
          else None
      | _ \<Rightarrow> None)"

record MPRecaptchaTransport =
  m_Recaptchas :: "(MPNetFd, MPRecaptcha) std_map"
  m_oValidationCallback :: bool
  m_pVerifySiteUrl :: string
  m_pSecret :: string
  m_pHttpUrl :: thttp_url
  rt_sent :: "net_action list"
  rt_events :: "(bool \<times> MPRecaptcha) list"

text \<open>The constructor: the transport is over TLS when the URL starts with \<open>https:\<close>.\<close>

definition new_MPRecaptchaTransport ::
  "net_env \<Rightarrow> http_api \<Rightarrow> cstr \<Rightarrow> cstr \<Rightarrow> (MPNetTransport \<times> MPRecaptchaTransport) option" where
  "new_MPRecaptchaTransport E H site secret =
     (let t = (if (case site of None \<Rightarrow> False | Some s \<Rightarrow> tsk_strindexOf (ne_T E) s ''https:'' = 0)
               then MPNetTransporType_TLS else MPNetTransporType_TCP) in
      case (new_MPNetTransport E t None 0, thttp_url_parse H site, site, secret) of
        (Some nt, Some url, Some s, Some k) \<Rightarrow>
          if tsk_strnullORempty (ne_T E) (url_host url) then None
          else Some (nt, \<lparr>m_Recaptchas = [], m_oValidationCallback = False, m_pVerifySiteUrl = s, m_pSecret = k,
                 m_pHttpUrl = url, rt_sent = [], rt_events = []\<rparr>)
      | _ \<Rightarrow> None)"

definition setValidationCallback :: "bool \<Rightarrow> MPRecaptchaTransport \<Rightarrow> MPRecaptchaTransport" where
  "setValidationCallback cb t = t\<lparr>m_oValidationCallback := cb\<rparr>"

definition getRecaptchaFd :: "MPRecaptchaTransport \<Rightarrow> MPNetFd \<Rightarrow> MPRecaptcha option" where
  "getRecaptchaFd t fd = map_find (m_Recaptchas t) fd"

definition insertRecaptcha :: "MPRecaptcha \<Rightarrow> MPRecaptchaTransport \<Rightarrow> MPRecaptchaTransport" where
  "insertRecaptcha rc t = t\<lparr>m_Recaptchas := map_insert (rc_nFd rc) rc (m_Recaptchas t)\<rparr>"

definition removeRecaptcha :: "MPNetFd \<Rightarrow> MPRecaptchaTransport \<Rightarrow> MPRecaptchaTransport" where
  "removeRecaptcha fd t =
     (case map_find (m_Recaptchas t) fd of None \<Rightarrow> t | Some _ \<Rightarrow> t\<lparr>m_Recaptchas := map_erase fd (m_Recaptchas t)\<rparr>)"

definition setConnected :: "MPNetFd \<Rightarrow> bool \<Rightarrow> MPRecaptchaTransport \<Rightarrow> MPRecaptchaTransport" where
  "setConnected fd b t = t\<lparr>m_Recaptchas := map_modify fd (\<lambda>rc. rc\<lparr>rc_bConnected := b\<rparr>) (m_Recaptchas t)\<rparr>"

definition recaptcha_ok :: "MPRecaptchaTransport \<Rightarrow> bool" where
  "recaptcha_ok t \<longleftrightarrow> map_ok (m_Recaptchas t)
     \<and> (\<forall>fd rc. getRecaptchaFd t fd = Some rc \<longrightarrow> rc_nFd rc = fd)"

lemma recaptcha_okD: "recaptcha_ok t \<Longrightarrow> getRecaptchaFd t fd = Some rc \<Longrightarrow> rc_nFd rc = fd"
  by (simp add: recaptcha_ok_def)

interpretation recaptchas: registry getRecaptchaFd insertRecaptcha removeRecaptcha rc_nFd recaptcha_ok
  by unfold_locales
    (auto simp: getRecaptchaFd_def insertRecaptcha_def removeRecaptcha_def recaptcha_ok_def map_find_insert
      map_find_erase split: option.splits if_splits)

section \<open>Requests\<close>

definition GET_MSG :: "string \<Rightarrow> string \<Rightarrow> string \<Rightarrow> nat \<Rightarrow> string" where
  "GET_MSG version hpath host port =
     ''GET '' @ hpath @ '' HTTP/1.0'' @ crlf @ ''Host: '' @ host @ '':'' @ dec_of_nat port @ crlf
     @ ''Pragma: No-Cache'' @ crlf @ ''User-Agent: webrtc2sip Media Server '' @ version @ crlf
     @ ''Content-Length: 0'' @ crlf @ ''Connection: Close'' @ crlf
     @ ''Accept: application/json; charset=utf-8'' @ crlf @ crlf"

definition recaptcha_path :: "tsk_api \<Rightarrow> MPRecaptchaTransport \<Rightarrow> MPRecaptcha \<Rightarrow> string" where
  "recaptcha_path T t rc =
     ''/'' @ pct_s (url_hpath (m_pHttpUrl t)) @ ''?secret='' @ m_pSecret t @ ''&response='' @ rc_pResponse rc
     @ (if tsk_strnullORempty T (rc_pRemoteIP rc) then [] else ''&remoteip='' @ pct_s (rc_pRemoteIP rc))"

text \<open>The request goes out on the connection of the captcha, if the transport has it.\<close>

definition sendRecaptcha ::
  "string \<Rightarrow> net_env \<Rightarrow> MPNetTransport \<Rightarrow> MPRecaptcha \<Rightarrow> MPRecaptchaTransport \<Rightarrow> bool \<times> MPRecaptchaTransport" where
  "sendRecaptcha version E nt rc t =
     (case getPeerByFd nt (rc_nFd rc) of
        None \<Rightarrow> (False, t)
      | Some p \<Rightarrow>
          let (ok, acts) = net_sendData E (np_nFd p)
                (Some (GET_MSG version (recaptcha_path (ne_T E) t rc) (pct_s (url_host (m_pHttpUrl t))) (url_port (m_pHttpUrl t))))
          in (ok, t\<lparr>rt_sent := rt_sent t @ acts\<rparr>))"

text \<open>\<open>validate\<close>; None is the assertion of the constructor on a missing response.\<close>

definition validate ::
  "string \<Rightarrow> net_env \<Rightarrow> MPNetTransport \<Rightarrow> MPNetFd \<Rightarrow> cstr \<Rightarrow> cstr \<Rightarrow> cstr \<Rightarrow> MPRecaptchaTransport \<Rightarrow> (bool \<times> MPRecaptchaTransport) option" where
  "validate version E nt nLocalFd name email response t =
     (if tsk_strnullORempty (ne_T E) name \<or> tsk_strnullORempty (ne_T E) email then Some (False, t)
      else
        let (ret, ip) = ne_peerip E nLocalFd;
            remote_ip = (if ret \<noteq> 0 then [] else ip);
            (nFd, acts) = connectTo E (url_host (m_pHttpUrl t)) (url_port (m_pHttpUrl t)) nt;
            t1 = t\<lparr>rt_sent := rt_sent t @ acts\<rparr>
        in if \<not> MPNetFd_IsValid nFd then Some (False, t1)
           else case new_MPRecaptcha nFd name email response (Some remote_ip) of
             None \<Rightarrow> None
           | Some rc \<Rightarrow>
               let t2 = insertRecaptcha rc t1 in
               if net_isConnected nt nFd then Some (sendRecaptcha version E nt rc t2)
               else Some (True, t2))"

section \<open>Answers\<close>

text \<open>The call of the validation callback, when there is one.\<close>

definition validation_event :: "bool \<Rightarrow> MPRecaptcha \<Rightarrow> MPRecaptchaTransport \<Rightarrow> MPRecaptchaTransport" where
  "validation_event ok rc t = (if m_oValidationCallback t then t\<lparr>rt_events := rt_events t @ [(ok, rc)]\<rparr> else t)"

text \<open>
  \<open>root["success"].isBool() && root["success"].asBool()\<close>: on anything but an object and null the
  access fails an assertion.
\<close>

definition answer_success :: "json \<Rightarrow> bool option" where
  "answer_success root =
     (case json_get root ''success'' of None \<Rightarrow> None | Some v \<Rightarrow> Some (isBool v \<and> asBool v))"

text \<open>
  \<open>onData\<close>. The length of the content stays 0 when the answer has a \<open>Content-Length\<close>: the statement that
  should set it discards the value.
\<close>

definition recaptcha_onData ::
  "net_env \<Rightarrow> http_api \<Rightarrow> (string \<Rightarrow> char) \<Rightarrow> MPNetTransport \<Rightarrow> MPNetPeer \<Rightarrow> nat \<Rightarrow> MPRecaptchaTransport \<Rightarrow> (nat \<times> MPRecaptchaTransport) option" where
  "recaptcha_onData E H beyond nt p nConsumedBytes t =
     (case getRecaptchaFd t (np_nFd p) of
        None \<Rightarrow> Some (nConsumedBytes, t)
      | Some rc \<Rightarrow>
          let endOfheaders = tsk_strindexOf (ne_T E) (np_data p) crlf2 in
          if endOfheaders < 0 then Some (0, t)
          else
            let head = nat endOfheaders + 4 in
            case thttp_message_parse H (take head (np_data p)) of
              None \<Rightarrow> Some (0, t)
            | Some httpMessage \<Rightarrow>
                let clen = (if hm_Content_Length httpMessage \<noteq> None then 0 else length (np_data p) - head) in
                if clen = 0 then Some (head, t)
                else if head + clen > length (np_data p) then Some (0, t)
                else
                  (case json_parse (beyond (np_data p)) (take clen (drop head (np_data p))) of
                     None \<Rightarrow> Some (head + clen, validation_event False rc t)
                   | Some root \<Rightarrow>
                       (case answer_success root of
                          None \<Rightarrow> None
                        | Some bSuccess \<Rightarrow> Some (head + clen, validation_event bSuccess rc t))))"

text \<open>
  \<open>onConnectionStateChanged\<close>. \<open>havePeer\<close> is given the peer object where it expects a descriptor: the
  wrapper converts to true, that is descriptor 1.
\<close>

definition recaptcha_onConnectionStateChanged ::
  "string \<Rightarrow> net_env \<Rightarrow> MPNetTransport \<Rightarrow> MPNetPeer \<Rightarrow> MPRecaptchaTransport \<Rightarrow> bool \<times> MPRecaptchaTransport" where
  "recaptcha_onConnectionStateChanged version E nt p t =
     (if np_bConnected p then
        (case getRecaptchaFd t (np_nFd p) of
           None \<Rightarrow> (True, t)
         | Some rc \<Rightarrow> sendRecaptcha version E nt (rc\<lparr>rc_bConnected := True\<rparr>) (setConnected (np_nFd p) True t))
      else if \<not> havePeer nt 1 then (True, removeRecaptcha (np_nFd p) t)
      else (True, t))"

section \<open>The contract of the transport\<close>

lemma header_end:
  assumes "strindexOf_law T" "0 \<le> tsk_strindexOf T s crlf2"
  shows "nat (tsk_strindexOf T s crlf2) + 4 \<le> length s"
  using strindexOf_bound(1) [OF assms] by simp

interpretation recaptcha: net_callback "abortable (recaptcha_onData E H beyond)" "strindexOf_law (ne_T E)"
  for E H beyond
proof unfold_locales
  fix nt p a
  assume law: "strindexOf_law (ne_T E)"
  have "k \<le> length (np_data p)" if "recaptcha_onData E H beyond nt p (length (np_data p)) b = Some (k, b')" for b k b'
    using that header_end [OF law, of "np_data p"]
    by (auto simp: recaptcha_onData_def Let_def split: option.splits if_splits)
  then show "fst (abortable (recaptcha_onData E H beyond) nt p (length (np_data p)) a) \<le> length (np_data p)"
    by (rule abortable_consumed)
qed

section \<open>Properties\<close>

lemma validation_event_log:
  "validation_event ok rc t = t\<lparr>rt_events := rt_events t @ (if m_oValidationCallback t then [(ok, rc)] else [])\<rparr>"
  by (simp add: validation_event_def)

lemma is_true: "isBool v \<and> asBool v \<longleftrightarrow> v = booleanValue True"
  by (cases v) (simp_all add: isBool_def asBool_def)

lemma answer_success_true:
  "answer_success root = Some True \<longleftrightarrow>
     (\<exists>m. root = objectValue m \<and> map_find m ''success'' = Some (booleanValue True))"
  by (cases root) (simp_all add: answer_success_def json_get_def is_true c_str_def split: option.split)

lemma recaptcha_onData_answer:
  assumes "tsk_strindexOf (ne_T E) (np_data p) crlf2 = int i" "i + 4 \<le> length (np_data p)"
    and "thttp_message_parse H (take (i + 4) (np_data p)) = Some hm" "getRecaptchaFd t (np_nFd p) = Some rc"
  shows "recaptcha_onData E H beyond nt p k t =
    (if hm_Content_Length hm \<noteq> None \<or> length (np_data p) = i + 4 then Some (i + 4, t)
     else case json_parse (beyond (np_data p)) (drop (i + 4) (np_data p)) of
            None \<Rightarrow> Some (length (np_data p), validation_event False rc t)
          | Some root \<Rightarrow> map_option (\<lambda>b. (length (np_data p), validation_event b rc t)) (answer_success root))"
  using assms by (simp add: recaptcha_onData_def Let_def split: option.split)

lemma validate_returns:
  assumes "strnullORempty_law (ne_T E)"
  shows "validate v E nt fd name email (Some response) t \<noteq> None"
proof (cases "tsk_strnullORempty (ne_T E) name \<or> tsk_strnullORempty (ne_T E) email")
  case False
  then obtain n e where ne: "name = Some n" "email = Some e"
    using assms by (cases name; cases email) (simp_all add: strnullORempty_law_def)
  obtain nFd acts where con: "connectTo E (url_host (m_pHttpUrl t)) (url_port (m_pHttpUrl t)) nt = (nFd, acts)" by fastforce
  obtain ret ip where ip: "ne_peerip E fd = (ret, ip)" by fastforce
  show ?thesis
  proof (cases "MPNetFd_IsValid nFd")
    case True
    then show ?thesis using False
      by (auto simp: validate_def ne con ip new_MPRecaptcha_def Let_def)
  next
    case False
    then show ?thesis by (auto simp: validate_def con ip)
  qed
qed (auto simp: validate_def)

text \<open>
  C21. An account is reported as verified only by an answer on the connection of its own request, with
  no \<open>Content-Length\<close>, whose body is a JSON object with the member \<open>success\<close> equal to \<open>true\<close>; an answer
  that has a \<open>Content-Length\<close> is dropped without any report, and its body stays in the buffer.
\<close>

theorem recaptcha_verdict:
  assumes "strindexOf_law (ne_T E)" "tsk_strindexOf (ne_T E) (np_data p) crlf2 = int i"
    and "thttp_message_parse H (take (i + 4) (np_data p)) = Some hm"
    and "getRecaptchaFd t (np_nFd p) = Some rc"
  shows "if hm_Content_Length hm \<noteq> None
         then recaptcha_onData E H beyond nt p k t = Some (i + 4, t)
         else \<forall>j t'. recaptcha_onData E H beyond nt p k t = Some (j, t') \<longrightarrow>
            j = length (np_data p) \<and> rt_events t' = rt_events t @
              (if m_oValidationCallback t \<and> i + 4 < length (np_data p) then
                 [(\<exists>m. json_parse (beyond (np_data p)) (drop (i + 4) (np_data p)) = Some (objectValue m)
                      \<and> map_find m ''success'' = Some (booleanValue True), rc)] else [])"
proof -
  have n: "i + 4 \<le> length (np_data p)" using header_end [OF assms(1), of "np_data p"] assms(2) by simp
  note onData = recaptcha_onData_answer [OF assms(2) n assms(3,4), of beyond nt k]
  show ?thesis
  proof (cases "hm_Content_Length hm")
    case None
    show ?thesis
    proof (cases "json_parse (beyond (np_data p)) (drop (i + 4) (np_data p))")
      case (Some root)
      then show ?thesis
        using None n answer_success_true [of root] by (auto simp: onData validation_event_log)
    qed (use None n in \<open>auto simp: onData validation_event_log\<close>)
  qed (simp add: onData)
qed

text \<open>
  A captcha is sent once for the account it was asked for: when a request to verify an account is
  accepted on a connection that is not up yet, the connection's coming up sends exactly one GET
  request with the response the user gave; but a descriptor that still has an earlier captcha keeps
  that one, and the request goes out for the earlier account.
\<close>

theorem recaptcha_request_sent:
  assumes "validate v E nt fd0 (Some name) (Some email) (Some response) t = Some (True, t1)"
    and "fst (connectTo E (url_host (m_pHttpUrl t)) (url_port (m_pHttpUrl t)) nt) = fd" "\<not> net_isConnected nt fd"
    and "recaptcha_ok t" "np_nFd p = fd" "np_bConnected p" "getPeerByFd nt' fd = Some p"
    and "recaptcha_onConnectionStateChanged v E nt' p t1 = (ok, t2)"
  shows "\<exists>rc. getRecaptchaFd t1 fd = Some rc \<and> getRecaptchaFd t2 fd = Some (rc\<lparr>rc_bConnected := True\<rparr>)
    \<and> rt_sent t2 = rt_sent t1 @ [NetSend fd (GET_MSG v (recaptcha_path (ne_T E) t rc)
          (pct_s (url_host (m_pHttpUrl t))) (url_port (m_pHttpUrl t)))]
    \<and> (case getRecaptchaFd t fd of
         Some old \<Rightarrow> rc = old
       | None \<Rightarrow> rc_pAccountName rc = name \<and> rc_pAccountEmail rc = email \<and> rc_pResponse rc = response)"
proof -
  obtain acts where con: "connectTo E (url_host (m_pHttpUrl t)) (url_port (m_pHttpUrl t)) nt = (fd, acts)"
    using assms(2) by (cases "connectTo E (url_host (m_pHttpUrl t)) (url_port (m_pHttpUrl t)) nt") auto
  have fd: "MPNetFd_IsValid fd"
    using assms(1) by (auto simp: validate_def Let_def con case_prod_beta split: if_splits)
  obtain ip where t1: "t1 = insertRecaptcha \<lparr>rc_pResponse = response, rc_pRemoteIP = ip, rc_pAccountName = name,
       rc_pAccountEmail = email, rc_nFd = fd, rc_bConnected = False\<rparr> (t\<lparr>rt_sent := rt_sent t @ acts\<rparr>)"
    using assms(1,3) fd
    by (auto simp: validate_def Let_def con case_prod_beta new_MPRecaptcha_def split: if_splits)
  have ok: "recaptcha_ok (t\<lparr>rt_sent := s\<rparr>)" for s using assms(4) by (simp add: recaptcha_ok_def getRecaptchaFd_def)
  obtain rc where rc: "getRecaptchaFd t1 fd = Some rc"
      "case getRecaptchaFd t fd of Some old \<Rightarrow> rc = old
       | None \<Rightarrow> rc_pAccountName rc = name \<and> rc_pAccountEmail rc = email \<and> rc_pResponse rc = response"
    using recaptchas.lookup_add [OF ok] by (cases "getRecaptchaFd t fd") (auto simp: t1 getRecaptchaFd_def)
  have "rc_nFd rc = fd"
    using recaptcha_okD [OF recaptchas.wf_add [OF ok]] rc(1) by (simp add: t1)
  have url: "m_pHttpUrl t1 = m_pHttpUrl t" "m_pSecret t1 = m_pSecret t" by (simp_all add: t1 insertRecaptcha_def)
  have "t2 = (setConnected fd True t1)\<lparr>rt_sent := rt_sent t1 @ [NetSend fd (GET_MSG v (recaptcha_path (ne_T E) t rc)
          (pct_s (url_host (m_pHttpUrl t))) (url_port (m_pHttpUrl t)))]\<rparr>"
    using assms(5-8) rc(1) fd url \<open>rc_nFd rc = fd\<close>
    by (auto simp: recaptcha_onConnectionStateChanged_def sendRecaptcha_def net_sendData_def recaptcha_path_def
        setConnected_def GET_MSG_def)
  then show ?thesis using rc by (auto simp: setConnected_def getRecaptchaFd_def map_find_modify)
qed

text \<open>A concrete exchange.\<close>

definition answer_body :: string where
  "answer_body = ''{'' @ [dquote] @ ''success'' @ [dquote] @ '':true}''"

lemma answer_body_parsed: "json_parse (CHR 0x00) answer_body = Some (objectValue [(''success'', booleanValue True)])"
  by code_simp

definition sample_answer :: http_message where
  "sample_answer = \<lparr>hm_method = None, hm_Transfer_Encoding = None, hm_Content_Type = None,
     hm_Content_Length = None, hm_Content = None\<rparr>"

definition sample_captcha :: MPRecaptcha where
  "sample_captcha = \<lparr>rc_pResponse = ''r'', rc_pRemoteIP = None, rc_pAccountName = ''bob'',
     rc_pAccountEmail = ''b@c'', rc_nFd = 9, rc_bConnected = True\<rparr>"

definition sample_verifier :: MPRecaptchaTransport where
  "sample_verifier = \<lparr>m_Recaptchas = [], m_oValidationCallback = True, m_pVerifySiteUrl = ''http://g'', m_pSecret = ''k'',
     m_pHttpUrl = \<lparr>url_host = Some ''g'', url_port = 80, url_hpath = Some ''v''\<rparr>, rt_sent = [], rt_events = []\<rparr>"

theorem recaptcha_verdict_witness:
  "\<exists>j t'. recaptcha_onData sample_net_env (http_ref (\<lambda>s. Some sample_answer)) (\<lambda>s. CHR 0x00) sample_transport
        \<lparr>np_nFd = 9, np_bConnected = True, np_data = ''OK'' @ crlf2 @ answer_body\<rparr> 0
        (insertRecaptcha sample_captcha sample_verifier) = Some (j, t')
     \<and> rt_events t' = [(True, sample_captcha)]"
proof -
  let ?p = "\<lparr>np_nFd = 9, np_bConnected = True, np_data = ''OK'' @ crlf2 @ answer_body\<rparr>"
  let ?t = "insertRecaptcha sample_captcha sample_verifier"
  let ?H = "http_ref (\<lambda>s. Some sample_answer)"
  have "strindexOf_law (ne_T sample_net_env)" by (simp add: sample_net_env_def tsk_ref_laws)
  moreover have i: "tsk_strindexOf (ne_T sample_net_env) (np_data ?p) crlf2 = int 2" by (simp add: sample_net_env_def)
  moreover have hm: "thttp_message_parse ?H (take (2 + 4) (np_data ?p)) = Some sample_answer"
    by (simp add: http_ref_def sample_answer_def)
  moreover have rc: "getRecaptchaFd ?t (np_nFd ?p) = Some sample_captcha"
    by (simp add: getRecaptchaFd_def insertRecaptcha_def sample_verifier_def sample_captcha_def map_find_def)
  moreover have d: "drop (2 + 4) (np_data ?p) = answer_body" by (simp add: numeral_eq_Suc)
  moreover have n: "2 + 4 < length (np_data ?p)" by (simp add: answer_body_def)
  moreover have l: "hm_Content_Length sample_answer = None" "m_oValidationCallback ?t" "rt_events ?t = []"
    by (simp_all add: sample_answer_def sample_verifier_def insertRecaptcha_def)
  moreover obtain j t' where j: "recaptcha_onData sample_net_env ?H (\<lambda>s. CHR 0x00) sample_transport ?p 0 ?t = Some (j, t')"
    using recaptcha_onData_answer [OF i _ hm rc, of "\<lambda>s. CHR 0x00" sample_transport 0] n
    by (simp add: l(1) d [simplified] answer_body_parsed answer_success_def json_get_def c_str_def)
  ultimately show ?thesis
    using recaptcha_verdict [of sample_net_env ?p 2 ?H sample_answer ?t sample_captcha
        "\<lambda>s. CHR 0x00" sample_transport 0] answer_body_parsed j
    by (simp add: map_find_def)
qed

theorem recaptcha_request_sent_witness:
  "\<exists>t1 ok t2 m. validate ''2.7.0'' sample_net_env sample_transport 3 (Some ''bob'') (Some ''b@c'') (Some ''r'') sample_verifier = Some (True, t1)
     \<and> recaptcha_onConnectionStateChanged ''2.7.0'' sample_net_env (insertNetPeer (new_MPNetPeerStream 9 True) sample_transport)
         (new_MPNetPeerStream 9 True) t1 = (ok, t2)
     \<and> rt_sent t2 = rt_sent t1 @ [NetSend 9 m]"
proof -
  let ?p = "new_MPNetPeerStream 9 True"
  let ?nt = "insertNetPeer ?p sample_transport"
  obtain t1 where t1: "validate ''2.7.0'' sample_net_env sample_transport 3 (Some ''bob'') (Some ''b@c'') (Some ''r'') sample_verifier = Some (True, t1)"
    by (simp add: validate_def sample_net_env_def sample_verifier_def connectTo_def sample_transport_def new_MPRecaptcha_def
        MPNetFd_IsValid_def net_isConnected_def getPeerByFd_def map_find_def)
  obtain ok t2 where t2: "recaptcha_onConnectionStateChanged ''2.7.0'' sample_net_env ?nt ?p t1 = (ok, t2)" by fastforce
  have "fst (connectTo sample_net_env (url_host (m_pHttpUrl sample_verifier)) (url_port (m_pHttpUrl sample_verifier)) sample_transport) = 9"
    by (simp add: connectTo_def sample_net_env_def sample_verifier_def sample_transport_def)
  moreover have "\<not> net_isConnected sample_transport 9" by (simp add: net_isConnected_def getPeerByFd_def sample_transport_def map_find_def)
  moreover have "recaptcha_ok sample_verifier" by (simp add: recaptcha_ok_def sample_verifier_def getRecaptchaFd_def map_find_def)
  moreover have "np_nFd ?p = 9" "np_bConnected ?p" by (simp_all add: new_MPNetPeerStream_def)
  moreover have "getPeerByFd ?nt 9 = Some ?p"
    by (simp add: getPeerByFd_def insertNetPeer_def sample_transport_def new_MPNetPeerStream_def map_find_def)
  ultimately show ?thesis using recaptcha_request_sent [OF t1 _ _ _ _ _ _ t2, of 9] t1 t2 by blast
qed

end
