(* ===== verification/Locking.thy ===== *)
theory Locking
  imports Peers Recaptcha
begin

text \<open>
  Threads and the tables they share. The mutexes (\<open>mp_mutex\<close>, and those of tinySAK that the transports use at
  once), and the sections that they guard: a section takes the mutex, finds an entry, uses the iterator it got and
  releases the mutex, and the steps of all threads are interleaved. Every section is one step on its table, as the
  rest of the development takes it to be.
\<close>

section \<open>The mutex\<close>

text \<open>The mutexes of tinySAK: a lock that has to wait does not return.\<close>

record 'm mutex_api =
  tsk_mutex_create_2 :: "bool \<Rightarrow> 'm option"
  tsk_mutex_lock :: "nat \<Rightarrow> 'm \<Rightarrow> (int \<times> 'm) option"
  tsk_mutex_unlock :: "nat \<Rightarrow> 'm \<Rightarrow> int \<times> 'm"

definition MPMutex_lock :: "'m mutex_api \<Rightarrow> nat \<Rightarrow> 'm \<Rightarrow> (bool \<times> 'm) option" where
  "MPMutex_lock X t m = map_option (\<lambda>(r, m'). (r = 0, m')) (tsk_mutex_lock X t m)"

definition MPMutex_unlock :: "'m mutex_api \<Rightarrow> nat \<Rightarrow> 'm \<Rightarrow> bool \<times> 'm" where
  "MPMutex_unlock X t m = (case tsk_mutex_unlock X t m of (r, m') \<Rightarrow> (r = 0, m'))"

text \<open>\<open>New\<close>: a wrapper without a handle is released at once.\<close>

definition MPMutex_New :: "'m mutex_api \<Rightarrow> bool \<Rightarrow> 'm option" where
  "MPMutex_New X bRecursive = tsk_mutex_create_2 X bRecursive"

text \<open>
  A recursive mutex: \<open>held m t\<close> is how often thread \<open>t\<close> holds it. It is taken if no other thread holds it, and
  released by its holder.
\<close>

definition mutex_law :: "'m mutex_api \<Rightarrow> ('m \<Rightarrow> nat \<Rightarrow> nat) \<Rightarrow> bool" where
  "mutex_law X held \<longleftrightarrow>
     (\<forall>m. tsk_mutex_create_2 X True = Some m \<longrightarrow> held m = (\<lambda>_. 0))
     \<and> (\<forall>t m. (\<exists>r m'. tsk_mutex_lock X t m = Some (r, m')) \<longleftrightarrow> (\<forall>u. u \<noteq> t \<longrightarrow> held m u = 0))
     \<and> (\<forall>t m r m'. tsk_mutex_lock X t m = Some (r, m') \<longrightarrow> r = 0 \<and> held m' = (held m)(t := Suc (held m t)))
     \<and> (\<forall>t m. 0 < held m t \<longrightarrow> fst (tsk_mutex_unlock X t m) = 0 \<and> held (snd (tsk_mutex_unlock X t m)) = (held m)(t := held m t - 1))"

section \<open>Guarded sections on a table\<close>

datatype ('k, 'v) table_op = Get 'k | GetIf "'v \<Rightarrow> bool" | Insert 'v | Remove 'k

text \<open>The iterator that a section finds, by the key of its entry; None is \<open>end()\<close>.\<close>

definition table_find :: "('s \<Rightarrow> ('k, 'v) std_map) \<Rightarrow> ('k, 'v) table_op \<Rightarrow> 's \<Rightarrow> 'k option" where
  "table_find g p s =
     (case p of
        Get k \<Rightarrow> if map_find (g s) k = None then None else Some k
      | GetIf P \<Rightarrow> map_option fst (find (\<lambda>x. P (snd x)) (g s))
      | Insert v \<Rightarrow> None
      | Remove k \<Rightarrow> if map_find (g s) k = None then None else Some k)"

text \<open>
  What it does with it. An iterator whose entry is no longer there would be used after its deletion: None.
\<close>

definition table_use ::
  "('s \<Rightarrow> ('k, 'v) std_map) \<Rightarrow> ('v \<Rightarrow> 's \<Rightarrow> 's) \<Rightarrow> ('k \<Rightarrow> 's \<Rightarrow> 's) \<Rightarrow> ('k, 'v) table_op \<Rightarrow> 'k option \<Rightarrow> 's \<Rightarrow> ('v option \<times> 's) option" where
  "table_use g ins erase p it s =
     (case p of
        Insert v \<Rightarrow> Some (None, ins v s)
      | Remove _ \<Rightarrow> (case it of None \<Rightarrow> Some (None, s)
                    | Some k \<Rightarrow> map_option (\<lambda>_. (None, erase k s)) (map_find (g s) k))
      | _ \<Rightarrow> (case it of None \<Rightarrow> Some (None, s)
             | Some k \<Rightarrow> map_option (\<lambda>v. (Some v, s)) (map_find (g s) k)))"

datatype 'k phase = Outside | At_find | At_use "'k option" | At_unlock

record ('k, 'v) thread =
  th_todo :: "('k, 'v) table_op list"
  th_at :: "'k phase"

text \<open>The log holds the sections in the order in which they did their work, with what they returned.\<close>

record ('s, 'm, 'k, 'v) shared =
  sh_tab :: 's
  sh_mutex :: 'm
  sh_threads :: "nat \<Rightarrow> ('k, 'v) thread"
  sh_log :: "(nat \<times> ('k, 'v) table_op \<times> 'v option) list"
  sh_dangling :: bool

type_synonym ('s, 'k, 'v) finder = "('k, 'v) table_op \<Rightarrow> 's \<Rightarrow> 'k option"
type_synonym ('s, 'k, 'v) user = "('k, 'v) table_op \<Rightarrow> 'k option \<Rightarrow> 's \<Rightarrow> ('v option \<times> 's) option"

text \<open>A step of thread \<open>t\<close>; None when it waits for the mutex or has nothing to do. The results of \<open>lock\<close> and \<open>unlock\<close> are not looked at.\<close>

definition thread_step ::
  "'m mutex_api \<Rightarrow> ('s, 'k, 'v) finder \<Rightarrow> ('s, 'k, 'v) user \<Rightarrow> nat \<Rightarrow> ('s, 'm, 'k, 'v) shared \<Rightarrow> ('s, 'm, 'k, 'v) shared option" where
  "thread_step X F U t s =
     (let th = sh_threads s t; goto = (\<lambda>ps a. (sh_threads s)(t := \<lparr>th_todo = ps, th_at = a\<rparr>)) in
      case th_todo th of
        [] \<Rightarrow> None
      | p # ps \<Rightarrow>
          (case th_at th of
             Outside \<Rightarrow> map_option (\<lambda>(_, m). s\<lparr>sh_mutex := m, sh_threads := goto (p # ps) At_find\<rparr>) (MPMutex_lock X t (sh_mutex s))
           | At_find \<Rightarrow> Some (s\<lparr>sh_threads := goto (p # ps) (At_use (F p (sh_tab s)))\<rparr>)
           | At_use it \<Rightarrow>
               (case U p it (sh_tab s) of
                  None \<Rightarrow> Some (s\<lparr>sh_dangling := True\<rparr>)
                | Some (r, tab) \<Rightarrow>
                    Some (s\<lparr>sh_tab := tab, sh_log := sh_log s @ [(t, p, r)], sh_threads := goto (p # ps) At_unlock\<rparr>))
           | At_unlock \<Rightarrow>
               (case MPMutex_unlock X t (sh_mutex s) of (_, m) \<Rightarrow> Some (s\<lparr>sh_mutex := m, sh_threads := goto ps Outside\<rparr>))))"

inductive interleaved ::
  "'m mutex_api \<Rightarrow> ('s, 'k, 'v) finder \<Rightarrow> ('s, 'k, 'v) user \<Rightarrow> ('s, 'm, 'k, 'v) shared \<Rightarrow> ('s, 'm, 'k, 'v) shared \<Rightarrow> bool"
  for X F U s0 where
  start: "interleaved X F U s0 s0"
| step: "interleaved X F U s0 s \<Longrightarrow> thread_step X F U t s = Some s' \<Longrightarrow> interleaved X F U s0 s'"

text \<open>The threads with their sections before them, and a new mutex.\<close>

definition all_outside :: "(nat \<Rightarrow> ('k, 'v) table_op list) \<Rightarrow> 's \<Rightarrow> 'm \<Rightarrow> ('s, 'm, 'k, 'v) shared" where
  "all_outside prog tab m =
     \<lparr>sh_tab = tab, sh_mutex = m, sh_threads = \<lambda>t. \<lparr>th_todo = prog t, th_at = Outside\<rparr>, sh_log = [], sh_dangling = False\<rparr>"

section \<open>The sections as single steps\<close>

fun run_atomic :: "('p \<Rightarrow> 's \<Rightarrow> 'r \<times> 's) \<Rightarrow> 's \<Rightarrow> 'p list \<Rightarrow> 'r list \<times> 's" where
  "run_atomic A s [] = ([], s)"
| "run_atomic A s (p # ps) = (case A p s of (r, s1) \<Rightarrow> (case run_atomic A s1 ps of (rs, s2) \<Rightarrow> (r # rs, s2)))"

lemma run_atomic_append:
  "run_atomic A s (ps @ [p]) = (case run_atomic A s ps of (rs, s1) \<Rightarrow> (case A p s1 of (r, s2) \<Rightarrow> (rs @ [r], s2)))"
  by (induction ps arbitrary: s) (simp_all split: prod.split)

definition log_ops :: "(nat \<times> 'p \<times> 'r) list \<Rightarrow> 'p list" where "log_ops l = map (\<lambda>(t, p, r). p) l"
definition log_results :: "(nat \<times> 'p \<times> 'r) list \<Rightarrow> 'r list" where "log_results l = map (\<lambda>(t, p, r). r) l"
definition log_of :: "nat \<Rightarrow> (nat \<times> 'p \<times> 'r) list \<Rightarrow> 'p list" where "log_of t l = log_ops (filter (\<lambda>x. fst x = t) l)"

text \<open>What a thread has left to do, from its point in its section.\<close>

definition left_to_do :: "('k, 'v) thread \<Rightarrow> ('k, 'v) table_op list" where
  "left_to_do th = (if th_at th = At_unlock then tl (th_todo th) else th_todo th)"

locale guarded_table =
  fixes F :: "('s, 'k, 'v) finder" and U :: "('s, 'k, 'v) user"
    and A :: "('k, 'v) table_op \<Rightarrow> 's \<Rightarrow> 'v option \<times> 's" and wf :: "'s \<Rightarrow> bool"
  assumes use_found: "wf s \<Longrightarrow> U p (F p s) s = Some (A p s)"
    and wf_atomic: "wf s \<Longrightarrow> wf (snd (A p s))"
begin

definition lock_inv :: "('m \<Rightarrow> nat \<Rightarrow> nat) \<Rightarrow> (nat \<Rightarrow> ('k, 'v) table_op list) \<Rightarrow> 's \<Rightarrow> ('s, 'm, 'k, 'v) shared \<Rightarrow> bool" where
  "lock_inv held prog tab0 s \<longleftrightarrow>
     (\<forall>t. held (sh_mutex s) t = (if th_at (sh_threads s t) = Outside then 0 else 1))
     \<and> (\<forall>t u. th_at (sh_threads s t) \<noteq> Outside \<longrightarrow> th_at (sh_threads s u) \<noteq> Outside \<longrightarrow> t = u)
     \<and> (\<forall>t. th_at (sh_threads s t) \<noteq> Outside \<longrightarrow> th_todo (sh_threads s t) \<noteq> [])
     \<and> (\<forall>t it. th_at (sh_threads s t) = At_use it \<longrightarrow> it = F (hd (th_todo (sh_threads s t))) (sh_tab s))
     \<and> wf (sh_tab s) \<and> \<not> sh_dangling s
     \<and> run_atomic A tab0 (log_ops (sh_log s)) = (log_results (sh_log s), sh_tab s)
     \<and> (\<forall>t. prog t = log_of t (sh_log s) @ left_to_do (sh_threads s t))"

text \<open>Taking and releasing the mutex, as the sections do.\<close>

lemma lock_taken:
  assumes "mutex_law X held" "MPMutex_lock X t m = Some (b, m')"
  shows "u \<noteq> t \<Longrightarrow> held m u = 0" "held m' = (held m)(t := Suc (held m t))"
proof -
  obtain r where r: "tsk_mutex_lock X t m = Some (r, m')" using assms(2) by (auto simp: MPMutex_lock_def)
  then show "held m' = (held m)(t := Suc (held m t))" using assms(1) unfolding mutex_law_def by blast
  show "u \<noteq> t \<Longrightarrow> held m u = 0" using assms(1) r unfolding mutex_law_def by blast
qed

lemma lock_released:
  assumes "mutex_law X held" "MPMutex_unlock X t m = (b, m')" "0 < held m t"
  shows "held m' = (held m)(t := held m t - 1)"
proof -
  have "m' = snd (tsk_mutex_unlock X t m)" using assms(2) by (auto simp: MPMutex_unlock_def split: prod.splits)
  then show ?thesis using assms(1,3) by (simp add: mutex_law_def)
qed

lemma log_snoc [simp]:
  "log_ops (l @ [(t, p, r)]) = log_ops l @ [p]" "log_results (l @ [(t, p, r)]) = log_results l @ [r]"
  "log_of u (l @ [(t, p, r)]) = log_of u l @ (if u = t then [p] else [])"
  by (simp_all add: log_ops_def log_results_def log_of_def)

text \<open>What is left to show when one thread moved and the others are outside.\<close>

lemma lock_inv_moved:
  assumes "lock_inv held prog tab0 s" "\<And>u. u \<noteq> t \<Longrightarrow> th_at (sh_threads s u) = Outside"
    and "sh_threads s' = (sh_threads s)(t := th)" "held (sh_mutex s') = (held (sh_mutex s))(t := if th_at th = Outside then 0 else 1)"
    and "th_at th \<noteq> Outside \<Longrightarrow> th_todo th \<noteq> []" "\<And>it. th_at th = At_use it \<Longrightarrow> it = F (hd (th_todo th)) (sh_tab s')"
    and "wf (sh_tab s')" "\<not> sh_dangling s'" "run_atomic A tab0 (log_ops (sh_log s')) = (log_results (sh_log s'), sh_tab s')"
    and "prog t = log_of t (sh_log s') @ left_to_do th" "\<And>u. u \<noteq> t \<Longrightarrow> log_of u (sh_log s') = log_of u (sh_log s)"
  shows "lock_inv held prog tab0 s'"
proof -
  have 1: "held (sh_mutex s') u = (if th_at (sh_threads s' u) = Outside then 0 else 1)" for u
    using assms(1-4) by (cases "u = t") (simp_all add: lock_inv_def)
  have 2: "th_at (sh_threads s' u) \<noteq> Outside \<Longrightarrow> u = t" for u using assms(2,3) by (cases "u = t") simp_all
  have 3: "th_at (sh_threads s' u) \<noteq> Outside \<Longrightarrow> th_todo (sh_threads s' u) \<noteq> []" for u
    using assms(2,3,5) by (cases "u = t") simp_all
  have 4: "th_at (sh_threads s' u) = At_use it \<Longrightarrow> it = F (hd (th_todo (sh_threads s' u))) (sh_tab s')" for u it
    using assms(3) assms(6) [of it] assms(2) [of u] by (cases "u = t") auto
  have 5: "prog u = log_of u (sh_log s') @ left_to_do (sh_threads s' u)" for u
    using assms(1,3,10,11) by (cases "u = t") (simp_all add: lock_inv_def)
  have 6: "th_at (sh_threads s' u) \<noteq> Outside \<Longrightarrow> th_at (sh_threads s' v) \<noteq> Outside \<Longrightarrow> u = v" for u v
    by (rule trans [OF 2 sym [OF 2]])
  show ?thesis unfolding lock_inv_def
    by (intro conjI allI impI) (rule 1, erule 6, assumption, erule 3, erule 4, rule assms(7), rule assms(8), rule assms(9), rule 5)
qed

lemma lock_inv_step:
  assumes "mutex_law X held" "lock_inv held prog tab0 s" "thread_step X F U t s = Some s'"
  shows "lock_inv held prog tab0 s'"
proof -
  let ?th = "sh_threads s t"
  obtain p ps where todo: "th_todo ?th = p # ps" using assms(3) by (cases "th_todo ?th") (simp_all add: thread_step_def Let_def)
  have inv: "held (sh_mutex s) u = (if th_at (sh_threads s u) = Outside then 0 else 1)"
    "th_at (sh_threads s t) \<noteq> Outside \<Longrightarrow> u \<noteq> t \<Longrightarrow> th_at (sh_threads s u) = Outside"
    "th_at ?th = At_use it \<Longrightarrow> it = F (hd (th_todo ?th)) (sh_tab s)"
    "wf (sh_tab s)" "\<not> sh_dangling s" "run_atomic A tab0 (log_ops (sh_log s)) = (log_results (sh_log s), sh_tab s)"
    "prog t = log_of t (sh_log s) @ left_to_do ?th" for u it
    using assms(2) unfolding lock_inv_def by blast+
  show ?thesis
  proof (cases "th_at ?th")
    case Outside
    then obtain b m where m: "MPMutex_lock X t (sh_mutex s) = Some (b, m)"
      and s': "s' = s\<lparr>sh_mutex := m, sh_threads := (sh_threads s)(t := \<lparr>th_todo = p # ps, th_at = At_find\<rparr>)\<rparr>"
      using assms(3) todo by (auto simp: thread_step_def Let_def)
    have "th_at (sh_threads s u) = Outside" if "u \<noteq> t" for u
      using lock_taken(1) [OF assms(1) m that] inv(1) [of u] by (simp split: if_splits)
    from lock_inv_moved [OF assms(2) this, where s' = s' and th = "\<lparr>th_todo = p # ps, th_at = At_find\<rparr>"] show ?thesis
      using inv lock_taken(2) [OF assms(1) m] inv(1) [of t] Outside todo by (simp add: s' left_to_do_def)
  next
    case At_find
    then have s': "s' = s\<lparr>sh_threads := (sh_threads s)(t := \<lparr>th_todo = p # ps, th_at = At_use (F p (sh_tab s))\<rparr>)\<rparr>"
      using assms(3) todo by (simp add: thread_step_def Let_def)
    from lock_inv_moved [OF assms(2) inv(2), where s' = s' and th = "\<lparr>th_todo = p # ps, th_at = At_use (F p (sh_tab s))\<rparr>"] show ?thesis
      using inv inv(1) [of t] At_find todo by (simp add: s' left_to_do_def fun_upd_idem)
  next
    case (At_use it)
    have it: "it = F p (sh_tab s)" using inv(3) [OF At_use] todo by simp
    obtain r tab where step: "A p (sh_tab s) = (r, tab)" by (rule prod.exhaust)
    have s': "s' = s\<lparr>sh_tab := tab, sh_log := sh_log s @ [(t, p, r)],
        sh_threads := (sh_threads s)(t := \<lparr>th_todo = p # ps, th_at = At_unlock\<rparr>)\<rparr>"
      using assms(3) todo At_use use_found [OF inv(4), of p] it step by (simp add: thread_step_def Let_def)
    have "wf tab" using wf_atomic [OF inv(4), of p] step by simp
    with lock_inv_moved [OF assms(2) inv(2), where s' = s' and th = "\<lparr>th_todo = p # ps, th_at = At_unlock\<rparr>"] show ?thesis
      using inv(5,6,7) inv(1) [of t] At_use todo step by (simp add: s' left_to_do_def fun_upd_idem run_atomic_append)
  next
    case At_unlock
    obtain b m where m: "MPMutex_unlock X t (sh_mutex s) = (b, m)" by (rule prod.exhaust)
    then have s': "s' = s\<lparr>sh_mutex := m, sh_threads := (sh_threads s)(t := \<lparr>th_todo = ps, th_at = Outside\<rparr>)\<rparr>"
      using assms(3) todo At_unlock by (simp add: thread_step_def Let_def)
    have "held m = (held (sh_mutex s))(t := held (sh_mutex s) t - 1)"
      using inv(1) [of t] At_unlock by (intro lock_released [OF assms(1) m]) simp
    with lock_inv_moved [OF assms(2) inv(2), where s' = s' and th = "\<lparr>th_todo = ps, th_at = Outside\<rparr>"] show ?thesis
      using inv(4-7) inv(1) [of t] At_unlock todo by (simp add: s' left_to_do_def)
  qed
qed

lemma lock_inv_start:
  "held m = (\<lambda>_. 0) \<Longrightarrow> wf tab \<Longrightarrow> lock_inv held prog tab (all_outside prog tab m)"
  by (simp add: lock_inv_def all_outside_def log_ops_def log_results_def log_of_def left_to_do_def)

lemma lock_inv_reached:
  assumes "interleaved X F U (all_outside prog tab m) s" "mutex_law X held" "held m = (\<lambda>_. 0)" "wf tab"
  shows "lock_inv held prog tab s"
  using assms(1)
proof induction
  case start
  show ?case using assms(3,4) by (rule lock_inv_start)
next
  case (step s t s')
  from lock_inv_step [OF assms(2) step.IH step.hyps(2)] show ?case .
qed

text \<open>No thread waits for ever: one of them can always go on.\<close>

lemma no_deadlock:
  assumes "mutex_law X held" "lock_inv held prog tab0 s" "th_todo (sh_threads s t) \<noteq> []"
  shows "\<exists>u s'. thread_step X F U u s = Some s'"
proof (cases "\<exists>u. th_at (sh_threads s u) \<noteq> Outside")
  case True
  then obtain u where u: "th_at (sh_threads s u) \<noteq> Outside" ..
  then have "th_todo (sh_threads s u) \<noteq> []" using assms(2) by (simp add: lock_inv_def)
  then obtain p ps where "th_todo (sh_threads s u) = p # ps" by (cases "th_todo (sh_threads s u)") auto
  then have "\<exists>s'. thread_step X F U u s = Some s'"
    using u by (cases "th_at (sh_threads s u)") (auto simp: thread_step_def Let_def split: option.split prod.split)
  then show ?thesis ..
next
  case False
  obtain p ps where todo: "th_todo (sh_threads s t) = p # ps" using assms(3) by (cases "th_todo (sh_threads s t)") auto
  have "\<forall>u. u \<noteq> t \<longrightarrow> held (sh_mutex s) u = 0" using False assms(2) by (simp add: lock_inv_def)
  then have "\<exists>r m'. tsk_mutex_lock X t (sh_mutex s) = Some (r, m')" using assms(1) unfolding mutex_law_def by blast
  then have "\<exists>s'. thread_step X F U t s = Some s'" using False todo by (auto simp: thread_step_def Let_def MPMutex_lock_def)
  then show ?thesis ..
qed

lemma sections_atomic:
  assumes "interleaved X F U (all_outside prog tab m) s" "mutex_law X held" "held m = (\<lambda>_. 0)" "wf tab"
  shows "\<not> sh_dangling s" "wf (sh_tab s)" "run_atomic A tab (log_ops (sh_log s)) = (log_results (sh_log s), sh_tab s)"
    "prog t = log_of t (sh_log s) @ left_to_do (sh_threads s t)"
    "th_at (sh_threads s t) \<noteq> Outside \<Longrightarrow> th_at (sh_threads s u) \<noteq> Outside \<Longrightarrow> t = u"
    "th_todo (sh_threads s t) \<noteq> [] \<Longrightarrow> \<exists>u s'. thread_step X F U u s = Some s'"
  using lock_inv_reached [OF assms] no_deadlock [OF assms(2) lock_inv_reached [OF assms], of t]
  by (simp_all add: lock_inv_def)

end

section \<open>The three tables\<close>

text \<open>The sections of the engine on its peers, each as one operation of \<open>Peers\<close>.\<close>

definition erase_peer :: "u64 \<Rightarrow> peer_table \<Rightarrow> peer_table" where
  "erase_peer i pt = pt\<lparr>m_Peers := map_erase i (m_Peers pt)\<rparr>"

datatype peer_query = ById u64 | BySession u64 bool

definition peer_section :: "peer_query \<Rightarrow> (u64, MPPeer) table_op" where
  "peer_section q =
     (case q of ById i \<Rightarrow> Get i | BySession i left \<Rightarrow> GetIf (if left then PeerBySessionIdLeft i else PeerBySessionIdRight i))"

definition peers_atomic :: "(u64, MPPeer) table_op \<Rightarrow> peer_table \<Rightarrow> MPPeer option \<times> peer_table" where
  "peers_atomic p pt =
     (case p of
        Get i \<Rightarrow> (getPeerById pt i, pt)
      | GetIf P \<Rightarrow> (map_find_if P (m_Peers pt), pt)
      | Insert v \<Rightarrow> (None, insertPeer v pt)
      | Remove i \<Rightarrow> (None, removePeer i pt))"

lemma peer_section_atomic:
  "peers_atomic (peer_section (ById i)) pt = (getPeerById pt i, pt)"
  "peers_atomic (peer_section (BySession i left)) pt = (getPeerBySessionId pt i left, pt)"
  by (simp_all add: peers_atomic_def peer_section_def getPeerBySessionId_def)

lemma found_entry: "map_ok m \<Longrightarrow> find (\<lambda>x. P (snd x)) m = Some (k, v) \<Longrightarrow> map_find m k = Some v"
  by (auto simp: map_find_set dest: find_SomeD)

interpretation peer_lock: guarded_table "table_find m_Peers" "table_use m_Peers insertPeer erase_peer" peers_atomic table_ok
proof unfold_locales
  fix pt p assume ok: "table_ok pt"
  show "table_use m_Peers insertPeer erase_peer p (table_find m_Peers p pt) pt = Some (peers_atomic p pt)"
    using found_entry [of "m_Peers pt"] ok
    by (cases p) (auto simp: table_use_def table_find_def peers_atomic_def getPeerById_def removePeer_def erase_peer_def
        map_find_if_def table_ok_def split: option.splits)
  show "table_ok (snd (peers_atomic p pt))" using ok by (cases p) (simp_all add: peers_atomic_def)
qed

text \<open>The connections of a transport.\<close>

definition erase_net_peer :: "MPNetFd \<Rightarrow> MPNetTransport \<Rightarrow> MPNetTransport" where
  "erase_net_peer fd nt = nt\<lparr>nt_Peers := map_erase fd (nt_Peers nt)\<rparr>"

definition net_peers_atomic :: "(MPNetFd, MPNetPeer) table_op \<Rightarrow> MPNetTransport \<Rightarrow> MPNetPeer option \<times> MPNetTransport" where
  "net_peers_atomic p nt =
     (case p of
        Get fd \<Rightarrow> (getPeerByFd nt fd, nt)
      | GetIf P \<Rightarrow> (map_find_if P (nt_Peers nt), nt)
      | Insert v \<Rightarrow> (None, insertNetPeer v nt)
      | Remove fd \<Rightarrow> (None, removeNetPeer fd nt))"

interpretation net_peer_lock: guarded_table "table_find nt_Peers" "table_use nt_Peers insertNetPeer erase_net_peer" net_peers_atomic net_ok
proof unfold_locales
  fix nt p assume ok: "net_ok nt"
  show "table_use nt_Peers insertNetPeer erase_net_peer p (table_find nt_Peers p nt) nt = Some (net_peers_atomic p nt)"
    using found_entry [of "nt_Peers nt"] ok
    by (cases p) (auto simp: table_use_def table_find_def net_peers_atomic_def getPeerByFd_def removeNetPeer_def erase_net_peer_def
        map_find_if_def net_ok_def split: option.splits)
  show "net_ok (snd (net_peers_atomic p nt))"
    using ok net_peers.wf_add net_peers.wf_remove by (cases p) (simp_all add: net_peers_atomic_def)
qed

text \<open>The captchas that wait for an answer.\<close>

definition erase_recaptcha :: "MPNetFd \<Rightarrow> MPRecaptchaTransport \<Rightarrow> MPRecaptchaTransport" where
  "erase_recaptcha fd t = t\<lparr>m_Recaptchas := map_erase fd (m_Recaptchas t)\<rparr>"

definition recaptchas_atomic ::
  "(MPNetFd, MPRecaptcha) table_op \<Rightarrow> MPRecaptchaTransport \<Rightarrow> MPRecaptcha option \<times> MPRecaptchaTransport" where
  "recaptchas_atomic p t =
     (case p of
        Get fd \<Rightarrow> (getRecaptchaFd t fd, t)
      | GetIf P \<Rightarrow> (map_find_if P (m_Recaptchas t), t)
      | Insert v \<Rightarrow> (None, insertRecaptcha v t)
      | Remove fd \<Rightarrow> (None, removeRecaptcha fd t))"

interpretation recaptcha_lock:
  guarded_table "table_find m_Recaptchas" "table_use m_Recaptchas insertRecaptcha erase_recaptcha" recaptchas_atomic recaptcha_ok
proof unfold_locales
  fix t p assume ok: "recaptcha_ok t"
  then have "map_ok (m_Recaptchas t)" by (simp add: recaptcha_ok_def)
  then show "table_use m_Recaptchas insertRecaptcha erase_recaptcha p (table_find m_Recaptchas p t) t = Some (recaptchas_atomic p t)"
    using found_entry [of "m_Recaptchas t"]
    by (cases p) (auto simp: table_use_def table_find_def recaptchas_atomic_def getRecaptchaFd_def removeRecaptcha_def erase_recaptcha_def
        map_find_if_def split: option.splits)
  show "recaptcha_ok (snd (recaptchas_atomic p t))"
    using ok recaptchas.wf_add recaptchas.wf_remove by (cases p) (simp_all add: recaptchas_atomic_def)
qed

section \<open>Properties\<close>

text \<open>A reference mutex: its holder and how often it holds it.\<close>

type_synonym rmutex = "(nat \<times> nat) option"

definition rmutex_api :: "rmutex mutex_api" where
  "rmutex_api = \<lparr>tsk_mutex_create_2 = \<lambda>_. Some None,
     tsk_mutex_lock = \<lambda>t m. (case m of None \<Rightarrow> Some (0, Some (t, 1))
       | Some (u, n) \<Rightarrow> if u = t then Some (0, if n = 0 then Some (t, 1) else Some (t, Suc n)) else if n = 0 then Some (0, Some (t, 1)) else None),
     tsk_mutex_unlock = \<lambda>t m. (case m of None \<Rightarrow> (1, None)
       | Some (u, n) \<Rightarrow> if u = t \<and> n \<noteq> 0 then (0, if n = 1 then None else Some (t, n - 1)) else (1, m))\<rparr>"

definition rmutex_held :: "rmutex \<Rightarrow> nat \<Rightarrow> nat" where
  "rmutex_held m t = (case m of None \<Rightarrow> 0 | Some (u, n) \<Rightarrow> if u = t then n else 0)"

lemma rmutex_law: "mutex_law rmutex_api rmutex_held"
  unfolding mutex_law_def
proof (intro conjI allI impI)
  fix m t r m'
  show "tsk_mutex_create_2 rmutex_api True = Some m \<Longrightarrow> rmutex_held m = (\<lambda>_. 0)"
    by (auto simp: rmutex_api_def rmutex_held_def)
  show "(\<exists>r m'. tsk_mutex_lock rmutex_api t m = Some (r, m')) \<longleftrightarrow> (\<forall>u. u \<noteq> t \<longrightarrow> rmutex_held m u = 0)"
    by (auto simp: rmutex_api_def rmutex_held_def split: option.split)
  assume "tsk_mutex_lock rmutex_api t m = Some (r, m')"
  then show "r = 0" "rmutex_held m' = (rmutex_held m)(t := Suc (rmutex_held m t))"
    by (auto simp: rmutex_api_def rmutex_held_def split: option.splits if_splits)
next
  fix t m assume "0 < rmutex_held m t"
  then show "fst (tsk_mutex_unlock rmutex_api t m) = 0"
    "rmutex_held (snd (tsk_mutex_unlock rmutex_api t m)) = (rmutex_held m)(t := rmutex_held m t - 1)"
    by (auto simp: rmutex_api_def rmutex_held_def split: option.splits if_splits)
qed

text \<open>
  C31. However the threads of the SIP stack interleave, every section of the engine on its table of peers is one
  step: no iterator is used after its entry is gone, at most one thread is inside, what the sections returned and
  the table they left are those of the operations of \<open>Peers\<close> run one after the other in the order in which they
  did their work, each thread's own in its order, and no deadlock is reached.
\<close>

theorem peer_sections_atomic:
  assumes "interleaved X (table_find m_Peers) (table_use m_Peers insertPeer erase_peer) (all_outside prog pt m) s"
    and "mutex_law X held" "MPMutex_New X True = Some m" "table_ok pt"
  shows "\<not> sh_dangling s \<and> table_ok (sh_tab s)
    \<and> run_atomic peers_atomic pt (log_ops (sh_log s)) = (log_results (sh_log s), sh_tab s)
    \<and> (\<forall>t. prog t = log_of t (sh_log s) @ left_to_do (sh_threads s t))
    \<and> (\<forall>t u. th_at (sh_threads s t) \<noteq> Outside \<longrightarrow> th_at (sh_threads s u) \<noteq> Outside \<longrightarrow> t = u)
    \<and> ((\<exists>t. th_todo (sh_threads s t) \<noteq> []) \<longrightarrow>
        (\<exists>u s'. thread_step X (table_find m_Peers) (table_use m_Peers insertPeer erase_peer) u s = Some s'))"
proof -
  have "held m = (\<lambda>_. 0)" using assms(2,3) by (simp add: mutex_law_def MPMutex_New_def)
  note parts = peer_lock.sections_atomic [OF assms(1,2) this assms(4)]
  show ?thesis using parts(1-3,6) by (intro conjI allI impI) (auto intro: parts(4) parts(5))
qed

text \<open>A schedule tells which thread moves next.\<close>

fun run_schedule ::
  "'m mutex_api \<Rightarrow> ('s, 'k, 'v) finder \<Rightarrow> ('s, 'k, 'v) user \<Rightarrow> nat list \<Rightarrow> ('s, 'm, 'k, 'v) shared \<Rightarrow> ('s, 'm, 'k, 'v) shared option" where
  "run_schedule X F U [] s = Some s"
| "run_schedule X F U (t # ts) s = Option.bind (thread_step X F U t s) (run_schedule X F U ts)"

lemma run_schedule_reached: "interleaved X F U s0 s \<Longrightarrow> run_schedule X F U ts s = Some s' \<Longrightarrow> interleaved X F U s0 s'"
proof (induction ts arbitrary: s)
  case (Cons t ts)
  then obtain s1 where "thread_step X F U t s = Some s1" "run_schedule X F U ts s1 = Some s'" by (auto simp: bind_eq_Some_conv)
  then show ?case using Cons.IH interleaved.step [OF Cons.prems(1)] by blast
qed simp

definition one_peer :: peer_table where
  "one_peer = (case new_MPPeer (new_MPSipSessionAV 5 MPMediaType_None) \<lparr>g_nId = 0, m_Peers = []\<rparr> of (p, pt) \<Rightarrow> insertPeer p pt)"

definition two_threads :: "nat \<Rightarrow> (u64, MPPeer) table_op list" where
  "two_threads t = (if t = 0 then [Get 1, Get 1] else if t = 1 then [Remove 1] else [])"

definition peers_run :: "rmutex mutex_api \<Rightarrow> nat list \<Rightarrow> (peer_table, rmutex, u64, MPPeer) shared option" where
  "peers_run X ts = run_schedule X (table_find m_Peers) (table_use m_Peers insertPeer erase_peer) ts (all_outside two_threads one_peer None)"

lemma peers_run_log:
  "map_option (\<lambda>s. map (\<lambda>(t, p, r). (t, r \<noteq> None)) (sh_log s)) (peers_run rmutex_api [0, 0, 0, 0, 1, 1, 1, 1, 0, 0, 0, 0])
   = Some [(0, True), (1, False), (0, False)]"
  by code_simp

lemma one_peer_ok: "table_ok one_peer"
  by (simp add: one_peer_def new_MPPeer_def table_ok_def insertPeer_def Let_def map_ok_Cons)

theorem peer_sections_atomic_witness:
  "\<exists>s. interleaved rmutex_api (table_find m_Peers) (table_use m_Peers insertPeer erase_peer) (all_outside two_threads one_peer None) s
     \<and> map (\<lambda>(t, p, r). (t, r \<noteq> None)) (sh_log s) = [(0, True), (1, False), (0, False)]
     \<and> run_atomic peers_atomic one_peer (log_ops (sh_log s)) = (log_results (sh_log s), sh_tab s)"
proof -
  obtain s where run: "peers_run rmutex_api [0, 0, 0, 0, 1, 1, 1, 1, 0, 0, 0, 0] = Some s"
    and log: "map (\<lambda>(t, p, r). (t, r \<noteq> None)) (sh_log s) = [(0, True), (1, False), (0, False)]"
    using peers_run_log by (cases "peers_run rmutex_api [0, 0, 0, 0, 1, 1, 1, 1, 0, 0, 0, 0]") simp_all
  have s: "interleaved rmutex_api (table_find m_Peers) (table_use m_Peers insertPeer erase_peer) (all_outside two_threads one_peer None) s"
    using run_schedule_reached [OF interleaved.start run [unfolded peers_run_def]] .
  have "MPMutex_New rmutex_api True = Some None" by (simp add: MPMutex_New_def rmutex_api_def)
  from peer_sections_atomic [OF s rmutex_law this one_peer_ok] s log show ?thesis by (intro exI [of _ s] conjI) simp_all
qed

text \<open>Without the mutex a thread uses the iterator of a peer that another one has removed.\<close>

definition no_mutex :: "rmutex mutex_api" where
  "no_mutex = \<lparr>tsk_mutex_create_2 = \<lambda>_. Some None, tsk_mutex_lock = \<lambda>t m. Some (0, m), tsk_mutex_unlock = \<lambda>t m. (0, m)\<rparr>"

theorem unguarded_sections_dangle:
  "\<exists>s. interleaved no_mutex (table_find m_Peers) (table_use m_Peers insertPeer erase_peer) (all_outside two_threads one_peer None) s
     \<and> sh_dangling s"
proof -
  have "map_option sh_dangling (peers_run no_mutex [0, 0, 1, 1, 1, 0]) = Some True" by code_simp
  then obtain s where run: "peers_run no_mutex [0, 0, 1, 1, 1, 0] = Some s" and "sh_dangling s"
    by (cases "peers_run no_mutex [0, 0, 1, 1, 1, 0]") simp_all
  with run_schedule_reached [OF interleaved.start run [unfolded peers_run_def]] show ?thesis by blast
qed

end
