(* ===== verification/C2CJson.thy ===== *)
theory C2CJson
  imports Database Mail Recaptcha
begin

text \<open>
  The click-to-call service (\<open>mp_c2c.cc\<close>, \<open>mp_c2c.h\<close>), its JSON requests: registration with the
  activation mail, activation, and the management of the SIP addresses and callers of an account. It
  runs the database, the mail transport and the reCAPTCHA transport of their own theories. None is a
  process that aborted: an exception of the JSON library nobody catches, or a failed assertion.
\<close>

section \<open>State\<close>

record MPC2CTransport =
  m_oDb :: "MPDbSQLite option"
  m_oMailTransport :: "(MPNetTransport \<times> MPMailTransport) option"
  m_oRecaptchaTransport :: "(MPNetTransport \<times> MPRecaptchaTransport) option"
  s_nAccountsCount :: u64
  c2_sent :: "net_action list"

text \<open>
  The libraries: network and strings, HTTP, the faults of the database engine, the clock, what a new
  account draws (by the number of engine calls made so far), the allocator, and the byte behind a
  buffer.
\<close>

record c2c_env =
  cc_version :: string
  cc_net :: net_env
  cc_H :: http_api
  cc_faults :: sq_faults
  cc_now :: u64
  cc_draws :: "nat \<Rightarrow> draws"
  cc_realloc :: "nat \<Rightarrow> bool"
  cc_beyond :: "string \<Rightarrow> char"

abbreviation cc_T :: "c2c_env \<Rightarrow> tsk_api" where "cc_T E \<equiv> ne_T (cc_net E)"

definition new_MPC2CTransport :: "net_env \<Rightarrow> bool \<Rightarrow> cstr \<Rightarrow> nat \<Rightarrow> u64 \<Rightarrow> (MPNetTransport \<times> MPC2CTransport) option" where
  "new_MPC2CTransport E isSecure ip port accounts =
     map_option (\<lambda>nt. (nt, \<lparr>m_oDb = None, m_oMailTransport = None, m_oRecaptchaTransport = None,
         s_nAccountsCount = accounts, c2_sent = []\<rparr>))
       (new_MPNetTransport E (if isSecure then MPNetTransporType_TLS else MPNetTransporType_TCP) ip port)"

definition setDb :: "MPDbSQLite option \<Rightarrow> MPC2CTransport \<Rightarrow> MPC2CTransport" where
  "setDb db s = s\<lparr>m_oDb := db\<rparr>"

definition setMailTransport :: "(MPNetTransport \<times> MPMailTransport) option \<Rightarrow> MPC2CTransport \<Rightarrow> MPC2CTransport" where
  "setMailTransport m s = s\<lparr>m_oMailTransport := m\<rparr>"

definition setRecaptchaTransport :: "(MPNetTransport \<times> MPRecaptchaTransport) option \<Rightarrow> MPC2CTransport \<Rightarrow> MPC2CTransport" where
  "setRecaptchaTransport r s = s\<lparr>m_oRecaptchaTransport := map_option (\<lambda>(nt, t). (nt, setValidationCallback True t)) r\<rparr>"

section \<open>Results\<close>

record MPC2CResult =
  res_nCode :: nat
  res_pPhrase :: string
  res_data :: string

definition new_MPC2CResult :: "nat \<Rightarrow> string \<Rightarrow> string \<Rightarrow> MPC2CResult" where
  "new_MPC2CResult code phrase d = \<lparr>res_nCode = code, res_pPhrase = phrase, res_data = d\<rparr>"

definition kMPC2CResultCode_Success :: nat where "kMPC2CResultCode_Success = 200"
definition kMPC2CResultCode_Accepted :: nat where "kMPC2CResultCode_Accepted = 202"
definition kMPC2CResultCode_Unauthorized :: nat where "kMPC2CResultCode_Unauthorized = 403"
definition kMPC2CResultCode_NotFound :: nat where "kMPC2CResultCode_NotFound = 404"
definition kMPC2CResultCode_ParsingFailed :: nat where "kMPC2CResultCode_ParsingFailed = 420"
definition kMPC2CResultCode_InvalidDataType :: nat where "kMPC2CResultCode_InvalidDataType = 483"
definition kMPC2CResultCode_InvalidData :: nat where "kMPC2CResultCode_InvalidData = 450"
definition kMPC2CResultCode_InternalError :: nat where "kMPC2CResultCode_InternalError = 603"

lemmas c2c_codes = kMPC2CResultCode_Success_def kMPC2CResultCode_Accepted_def kMPC2CResultCode_Unauthorized_def
  kMPC2CResultCode_NotFound_def kMPC2CResultCode_ParsingFailed_def kMPC2CResultCode_InvalidDataType_def
  kMPC2CResultCode_InvalidData_def kMPC2CResultCode_InternalError_def

text \<open>The contents \<open>kJsonContent_ActionResp_...\<close>, and the quoting \<open>\"...\"\<close> of the format strings.\<close>

definition quoted :: "string \<Rightarrow> string" where "quoted s = [dquote] @ s @ [dquote]"

definition kJsonContent :: "string \<Rightarrow> string" where
  "kJsonContent action = ''{'' @ quoted ''action'' @ '': '' @ quoted action @ ''}''"

type_synonym outcome = "(MPC2CResult \<times> MPC2CTransport) option"

section \<open>Fields\<close>

text \<open>
  The macro \<open>MP_JSON_GET\<close>, with the rest of the handler as continuation. A field that could be null is
  still refused by the test of its type.
\<close>

definition MP_JSON_GET ::
  "json \<Rightarrow> string \<Rightarrow> (json \<Rightarrow> bool) \<Rightarrow> bool \<Rightarrow> (json \<Rightarrow> MPC2CTransport \<Rightarrow> outcome) \<Rightarrow> MPC2CTransport \<Rightarrow> outcome" where
  "MP_JSON_GET parent name typeTest couldBeNull k s =
     (if \<not> isObject parent then Some (new_MPC2CResult kMPC2CResultCode_InvalidDataType ''Invalid data type'' [], s)
      else case json_get parent name of
        None \<Rightarrow> None
      | Some v \<Rightarrow>
          if isNull v \<and> \<not> couldBeNull
          then Some (new_MPC2CResult kMPC2CResultCode_InvalidDataType ''Required field is missing'' [], s)
          else if \<not> typeTest v
          then Some (new_MPC2CResult kMPC2CResultCode_InvalidDataType ''Invalid data type'' [], s)
          else k v s)"

text \<open>\<open>asString().c_str()\<close> of a value; None is the exception.\<close>

definition with_string :: "json \<Rightarrow> (string \<Rightarrow> outcome) \<Rightarrow> outcome" where
  "with_string v k = Option.bind (asString v) k"

definition with_int64 :: "json \<Rightarrow> (int \<Rightarrow> outcome) \<Rightarrow> outcome" where
  "with_int64 v k = (case asInt64 v of None \<Rightarrow> None | Some w \<Rightarrow> k (sint w))"

section \<open>The database under the service\<close>

text \<open>An operation of the open database; the requests are refused before this when there is none.\<close>

definition on_db :: "(MPDbSQLite \<Rightarrow> ('r \<times> MPDbSQLite) option) \<Rightarrow> MPC2CTransport \<Rightarrow> ('r \<times> MPC2CTransport) option" where
  "on_db f s = (case m_oDb s of None \<Rightarrow> None
     | Some c \<Rightarrow> (case f c of None \<Rightarrow> None | Some (r, c1) \<Rightarrow> Some (r, s\<lparr>m_oDb := Some c1\<rparr>)))"

definition c2_selectAccountByEmail :: "c2c_env \<Rightarrow> string \<Rightarrow> MPC2CTransport \<Rightarrow> (MPDbAccount option \<times> MPC2CTransport) option" where
  "c2_selectAccountByEmail E email s =
     on_db (\<lambda>c. selectAccountByEmail (cc_T E) (cc_draws E (calls c)) (cc_faults E) email c) s"

section \<open>serializeAccount\<close>

text \<open>\<open>%llu\<close> of a signed 64-bit id.\<close>

definition pct_llu :: "int \<Rightarrow> string" where
  "pct_llu i = dec_of_nat (nat (i mod 2 ^ 64))"

definition json_pair :: "string \<Rightarrow> string \<Rightarrow> string" where
  "json_pair k v = quoted k @ '':'' @ v"

definition serialize_caller :: "MPDbAccountSipCaller option \<Rightarrow> string" where
  "serialize_caller c =
     (case c of None \<Rightarrow> []
      | Some r \<Rightarrow> '','' @ quoted ''sip_account_callers'' @ '':[{'' @ json_pair ''id'' (pct_llu (clr_nId r))
          @ '','' @ json_pair ''display_name'' (quoted (pct_s (clr_pDisplayName r)))
          @ '','' @ json_pair ''impu'' (quoted (pct_s (clr_pImpu r)))
          @ '','' @ json_pair ''impi'' (quoted (pct_s (clr_pImpi r)))
          @ '','' @ json_pair ''realm'' (quoted (pct_s (clr_pRealm r))) @ ''}]'')"

text \<open>The texts are pasted between quotes, without escaping.\<close>

definition serializeAccount :: "c2c_env \<Rightarrow> string \<Rightarrow> MPDbAccount \<Rightarrow> MPC2CTransport \<Rightarrow> (string \<times> MPC2CTransport) option" where
  "serializeAccount E actionId a s =
     (let head = ''{'' @ json_pair ''action'' (quoted actionId) @ '','' @ json_pair ''name'' (quoted (pct_s (acc_pName a))) in
      do { (oAccountSip, s1) \<leftarrow> on_db (selectAccountSipByAccountId (cc_faults E) (acc_nId a)) s;
           (case oAccountSip of
              None \<Rightarrow> Some (head @ ''}'', s1)
            | Some sip \<Rightarrow> do {
                (oCaller, s2) \<leftarrow> on_db (selectAccountSipCallerByAccountSipId (cc_faults E) (sip_nId sip)) s1;
                Some (head @ '','' @ quoted ''sip_accounts'' @ '':[{'' @ json_pair ''id'' (pct_llu (sip_nId sip))
                  @ '','' @ json_pair ''address'' (quoted (pct_s (map_option (tsk_base64_decode (cc_T E)) (sip_pAddress64 sip))))
                  @ serialize_caller oCaller @ ''}]'' @ ''}'', s2) }) })"

section \<open>Registration\<close>

definition kMaxNewAccountBeforeKillingZombies :: u64 where "kMaxNewAccountBeforeKillingZombies = 100"
definition kZombieMaxLifeTimeExpectancy :: u64 where "kZombieMaxLifeTimeExpectancy = 24 * 60 * 60 * 1000 * 2"
definition WEBRTC2SIP_C2C_SOFT_VERSION :: int where "WEBRTC2SIP_C2C_SOFT_VERSION = 1"
definition WEBRTC2SIP_C2C_DATABASE_VERSION :: int where "WEBRTC2SIP_C2C_DATABASE_VERSION = 1"

definition activation_mail :: "string \<Rightarrow> string \<Rightarrow> string \<Rightarrow> string \<Rightarrow> string" where
  "activation_mail name code email64 pw =
     ''Hello '' @ name @ '','' @ [LF, LF]
     @ ''Thank you for registering to our click-to-call service.'' @ [LF]
     @ ''Your activation code is '' @ [CHR 0x27] @ code @ [CHR 0x27] @ '', please visit http://click2dial.org/a/'' @ email64
     @ ''%3B'' @ code @ '' to activate your account. This code is only valid for 2 days and will be automatically destroyed.'' @ [LF]
     @ ''Your link address is http://click2dial.org/u/'' @ email64 @ '', you can start sharing it with your contacts. '' @ [LF]
     @ ''Your password is '' @ [CHR 0x27] @ pw @ [CHR 0x27]
     @ '' (without the quotes). Please keep it private. You can use it to sign in at http://click2dial.org.'' @ [LF]
     @ ''Next steps:'' @ [LF] @ [CHR 0x09] @ ''1. Activate your account'' @ [LF]
     @ [CHR 0x09] @ ''2. Sign In using your email address and password('' @ pw @ '')'' @ [LF]
     @ [CHR 0x09] @ ''3. Open your account page(http://click2dial.org/account.htm) and tell us what'' @ [CHR 0x27] @ ''s your SIP address''
     @ [LF] @ ''Thanks''"

definition sendActivationMail ::
  "c2c_env \<Rightarrow> cstr \<Rightarrow> cstr \<Rightarrow> cstr \<Rightarrow> cstr \<Rightarrow> MPC2CTransport \<Rightarrow> (bool \<times> MPC2CTransport) option" where
  "sendActivationMail E email name code pw s =
     (case (email, name, code, pw) of
        (Some e, Some n, Some c, Some p) \<Rightarrow>
          (case m_oMailTransport s of
             None \<Rightarrow> Some (False, s)
           | Some (nt, t) \<Rightarrow>
               (case sendMail (cc_net E) (cc_realloc E) nt email (Some ''Your click2dial.org registration info'')
                       (Some (activation_mail n c (tsk_base64_encode (cc_T E) e) p)) None t of
                  None \<Rightarrow> None
                | Some (ok, t1) \<Rightarrow> Some (ok, s\<lparr>m_oMailTransport := Some (nt, t1)\<rparr>)))
      | _ \<Rightarrow> Some (False, s))"

text \<open>The zombies are killed on the first registration and on every hundredth.\<close>

definition kill_zombies :: "c2c_env \<Rightarrow> MPC2CTransport \<Rightarrow> (bool \<times> MPC2CTransport) option" where
  "kill_zombies E s =
     (if s_nAccountsCount s = 0 \<or> s_nAccountsCount s mod kMaxNewAccountBeforeKillingZombies = 0
      then on_db (killZombieAccounts (cc_faults E) (cc_now E) kZombieMaxLifeTimeExpectancy) s
      else Some (False, s))"

definition mailed_result :: "c2c_env \<Rightarrow> MPDbAccount \<Rightarrow> string \<Rightarrow> MPC2CTransport \<Rightarrow> outcome" where
  "mailed_result E a phrase s =
     do { (_, s1) \<leftarrow> sendActivationMail E (acc_pEmail a) (acc_pName a) (acc_pActivationCode a) (acc_pPassword a) s;
          Some (new_MPC2CResult kMPC2CResultCode_Success phrase (kJsonContent ''resp_account_add''), s1) }"

definition addAccountAndSendActivationMail :: "c2c_env \<Rightarrow> cstr \<Rightarrow> cstr \<Rightarrow> MPC2CTransport \<Rightarrow> outcome" where
  "addAccountAndSendActivationMail E pcEmail pcName s =
     (case (pcEmail, pcName) of
        (Some email, Some name) \<Rightarrow> do {
          (_, s1) \<leftarrow> kill_zombies E s;
          (oAccount, s2) \<leftarrow> c2_selectAccountByEmail E email (s1\<lparr>s_nAccountsCount := s_nAccountsCount s1 + 1\<rparr>);
          (case oAccount of
             Some a0 \<Rightarrow> do {
               (ok, s3) \<leftarrow> on_db (updateAccount (cc_faults E) (a0\<lparr>acc_pName := Some name\<rparr>)) s2;
               (if ok then mailed_result E (a0\<lparr>acc_pName := Some name\<rparr>) ''Account updated'' s3
                else Some (new_MPC2CResult kMPC2CResultCode_InternalError ''Failed to update account''
                       (kJsonContent ''resp_account_add''), s3)) }
           | None \<Rightarrow> do {
               a \<leftarrow> new_MPDbAccount (cc_T E) (cc_draws E (case m_oDb s2 of None \<Rightarrow> 0 | Some c \<Rightarrow> calls c))
                      MPDB_ACCOUNT_INVALID_ID WEBRTC2SIP_C2C_SOFT_VERSION WEBRTC2SIP_C2C_DATABASE_VERSION
                      (Some name) (Some email) None None False None 0;
               (ok, s3) \<leftarrow> on_db (addAccount (cc_faults E) a) s2;
               (if ok then mailed_result E a ''Account added'' s3
                else Some (new_MPC2CResult kMPC2CResultCode_InternalError ''Failed to add account''
                       (kJsonContent ''resp_account_add''), s3)) }) }
      | _ \<Rightarrow> Some (new_MPC2CResult kMPC2CResultCode_InternalError ''Invalid parameter'' [], s))"

text \<open>\<open>onValidationEvent\<close>: the result of the registration is dropped, the client has had its 202.\<close>

definition onValidationEvent :: "c2c_env \<Rightarrow> bool \<Rightarrow> MPRecaptcha \<Rightarrow> MPC2CTransport \<Rightarrow> (bool \<times> MPC2CTransport) option" where
  "onValidationEvent E bSuccess rc s =
     (if bSuccess then map_option (\<lambda>(_, s1). (True, s1))
        (addAccountAndSendActivationMail E (Some (rc_pAccountEmail rc)) (Some (rc_pAccountName rc)) s)
      else Some (True, s))"

section \<open>handleJsonContent\<close>

text \<open>
  The steps the handlers of an authenticated account share: find it, refuse it while it is not
  activated, compare the token. The answer's content names the action.
\<close>

definition authorised ::
  "c2c_env \<Rightarrow> json \<Rightarrow> json \<Rightarrow> string \<Rightarrow> (MPDbAccount \<Rightarrow> MPC2CTransport \<Rightarrow> outcome) \<Rightarrow> MPC2CTransport \<Rightarrow> outcome" where
  "authorised E email authToken resp k s =
     with_string email (\<lambda>e. do {
       (oAccount, s1) \<leftarrow> c2_selectAccountByEmail E e s;
       (case oAccount of
          None \<Rightarrow> Some (new_MPC2CResult kMPC2CResultCode_NotFound ''Failed to find account'' (kJsonContent resp), s1)
        | Some a \<Rightarrow>
            if \<not> acc_bActivated a
            then Some (new_MPC2CResult kMPC2CResultCode_Unauthorized ''Operation not allowed (Account not activated)''
                   (kJsonContent resp), s1)
            else with_string authToken (\<lambda>tok.
              if \<not> tsk_strequals (cc_T E) (acc_pAuthToken a) (Some tok)
              then Some (new_MPC2CResult kMPC2CResultCode_Unauthorized ''Authentication token mismatch'' (kJsonContent resp), s1)
              else k a s1)) })"

text \<open>The success answer with the account's data.\<close>

definition account_answer :: "c2c_env \<Rightarrow> string \<Rightarrow> string \<Rightarrow> MPDbAccount \<Rightarrow> MPC2CTransport \<Rightarrow> outcome" where
  "account_answer E resp phrase a s =
     do { (d, s1) \<leftarrow> serializeAccount E resp a s;
          Some (new_MPC2CResult kMPC2CResultCode_Success phrase d, s1) }"

definition req_account_add :: "c2c_env \<Rightarrow> MPNetFd \<Rightarrow> json \<Rightarrow> MPC2CTransport \<Rightarrow> outcome" where
  "req_account_add E nFd root =
     MP_JSON_GET root ''name'' isString False (\<lambda>name.
     MP_JSON_GET root ''email'' isString False (\<lambda>email s.
       (case m_oRecaptchaTransport s of
          Some (nt, t) \<Rightarrow>
            MP_JSON_GET root ''captcha_value'' isString False (\<lambda>captcha s.
              (case validate (cc_version E) (cc_net E) nt nFd (asCString name) (asCString email) (asCString captcha) t of
                 None \<Rightarrow> None
               | Some (ok, t1) \<Rightarrow>
                   Some ((if ok then new_MPC2CResult kMPC2CResultCode_Accepted ''Captcha validation'' []
                          else new_MPC2CResult kMPC2CResultCode_InternalError ''Internal Error'' []),
                         s\<lparr>m_oRecaptchaTransport := Some (nt, t1)\<rparr>))) s
        | None \<Rightarrow> addAccountAndSendActivationMail E (asCString email) (asCString name) s)))"

definition req_account_sip_add :: "c2c_env \<Rightarrow> json \<Rightarrow> MPC2CTransport \<Rightarrow> outcome" where
  "req_account_sip_add E root =
     MP_JSON_GET root ''email'' isString True (\<lambda>email.
     MP_JSON_GET root ''auth_token'' isString True (\<lambda>authToken.
     MP_JSON_GET root ''sip'' isObject True (\<lambda>sip.
     MP_JSON_GET sip ''address'' isString True (\<lambda>address.
       authorised E email authToken ''resp_account_sip_add'' (\<lambda>a s.
         with_string address (\<lambda>addr. do {
           (ok, s1) \<leftarrow> on_db (addAccountSip (cc_faults E)
              (new_MPDbAccountSip MPDB_ACCOUNT_SIP_INVALID_ID (Some (tsk_base64_encode (cc_T E) addr)) (acc_nId a))) s;
           (if \<not> ok then Some (new_MPC2CResult kMPC2CResultCode_InternalError ''Failed to add SIP account''
                (kJsonContent ''resp_account_sip_add''), s1)
            else account_answer E ''resp_account_sip_add'' ''SIP account added'' a s1) }))))))"

definition req_account_sip_caller_add :: "c2c_env \<Rightarrow> json \<Rightarrow> MPC2CTransport \<Rightarrow> outcome" where
  "req_account_sip_caller_add E root =
     MP_JSON_GET root ''email'' isString True (\<lambda>email.
     MP_JSON_GET root ''auth_token'' isString True (\<lambda>authToken.
     MP_JSON_GET root ''display_name'' isString False (\<lambda>displayName.
     MP_JSON_GET root ''impu'' isString True (\<lambda>impu.
     MP_JSON_GET root ''impi'' isString True (\<lambda>impi.
     MP_JSON_GET root ''realm'' isString True (\<lambda>realm.
     MP_JSON_GET root ''account_sip_id'' isIntegral True (\<lambda>accountSipId.
     MP_JSON_GET root ''ha1'' isString True (\<lambda>ha1.
       authorised E email authToken ''resp_account_sip_caller_add'' (\<lambda>a s.
         with_string displayName (\<lambda>vDisplay. with_string impu (\<lambda>vImpu. with_string impi (\<lambda>vImpi.
         with_string realm (\<lambda>vRealm. with_string ha1 (\<lambda>vHa1. with_int64 accountSipId (\<lambda>sipId. do {
           (ok, s1) \<leftarrow> on_db (addAccountSipCaller (cc_faults E)
              (new_MPDbAccountSipCaller MPDB_ACCOUNT_SIP_INVALID_ID (Some vDisplay) (Some vImpu) (Some vImpi)
                 (Some vRealm) (Some vHa1) sipId)) s;
           (if \<not> ok then Some (new_MPC2CResult kMPC2CResultCode_InternalError ''Failed to add SIP caller account''
                (kJsonContent ''resp_account_sip_caller_add''), s1)
            else account_answer E ''resp_account_sip_caller_add'' ''SIP caller account added'' a s1) })))))))))))))))"

definition req_account_activate :: "c2c_env \<Rightarrow> json \<Rightarrow> MPC2CTransport \<Rightarrow> outcome" where
  "req_account_activate E root =
     MP_JSON_GET root ''email'' isString False (\<lambda>email.
     MP_JSON_GET root ''code'' isString False (\<lambda>code s.
       with_string email (\<lambda>e. do {
         (oAccount, s1) \<leftarrow> c2_selectAccountByEmail E e s;
         (case oAccount of
            None \<Rightarrow> Some (new_MPC2CResult kMPC2CResultCode_NotFound ''Failed to find account''
                (kJsonContent ''resp_account_activate''), s1)
          | Some a \<Rightarrow> with_string code (\<lambda>c.
              if \<not> tsk_striequals (cc_T E) (acc_pActivationCode a) (Some c)
              then Some (new_MPC2CResult kMPC2CResultCode_InvalidDataType ''Activation code mismatch''
                     (kJsonContent ''resp_account_activate''), s1)
              else if acc_bActivated a
              then Some (new_MPC2CResult kMPC2CResultCode_Success ''Account activated''
                     (kJsonContent ''resp_account_activate''), s1)
              else do {
                (ok, s2) \<leftarrow> on_db (updateAccount (cc_faults E) (a\<lparr>acc_bActivated := True\<rparr>)) s1;
                (if \<not> ok
                 then Some (new_MPC2CResult kMPC2CResultCode_InternalError ''Failed to activate account''
                       (kJsonContent ''resp_account_activate''), s2)
                 else Some (new_MPC2CResult kMPC2CResultCode_Success ''Account activated''
                       (kJsonContent ''resp_account_activate''), s2)) })) })))"

definition req_account_info :: "c2c_env \<Rightarrow> json \<Rightarrow> MPC2CTransport \<Rightarrow> outcome" where
  "req_account_info E root =
     MP_JSON_GET root ''email'' isString True (\<lambda>email.
     MP_JSON_GET root ''auth_token'' isString True (\<lambda>authToken.
       authorised E email authToken ''resp_account_info'' (account_answer E ''resp_account_info'' ''Account info'')))"

text \<open>Both deletions; the id is not looked up among those of the account.\<close>

definition req_delete ::
  "c2c_env \<Rightarrow> string \<Rightarrow> string \<Rightarrow> (int \<Rightarrow> MPDbSQLite \<Rightarrow> (bool \<times> MPDbSQLite) option) \<Rightarrow> json \<Rightarrow> MPC2CTransport \<Rightarrow> outcome" where
  "req_delete E resp failure del root =
     MP_JSON_GET root ''email'' isString True (\<lambda>email.
     MP_JSON_GET root ''auth_token'' isString True (\<lambda>authToken.
     MP_JSON_GET root ''id'' isIntegral True (\<lambda>i.
       authorised E email authToken resp (\<lambda>a s.
         with_int64 i (\<lambda>n. do {
           (ok, s1) \<leftarrow> on_db (del n) s;
           (if \<not> ok then Some (new_MPC2CResult kMPC2CResultCode_InternalError failure (kJsonContent resp), s1)
            else account_answer E resp ''SIP address deleted'' a s1) })))))"

definition req_account_sip_delete :: "c2c_env \<Rightarrow> json \<Rightarrow> MPC2CTransport \<Rightarrow> outcome" where
  "req_account_sip_delete E =
     req_delete E ''resp_account_sip_delete'' ''Failed to delete SIP address'' (deleteAccountSipById (cc_faults E))"

definition req_account_sip_caller_delete :: "c2c_env \<Rightarrow> json \<Rightarrow> MPC2CTransport \<Rightarrow> outcome" where
  "req_account_sip_caller_delete E =
     req_delete E ''resp_account_sip_caller_delete'' ''Failed to delete SIP caller account''
       (deleteAccountSipCallerById (cc_faults E))"

text \<open>The dispatch on the action, in the order of the source.\<close>

definition handle_action :: "c2c_env \<Rightarrow> MPNetFd \<Rightarrow> json \<Rightarrow> string \<Rightarrow> MPC2CTransport \<Rightarrow> outcome" where
  "handle_action E nFd root action s =
     (let is = (\<lambda>x. tsk_striequals (cc_T E) (Some action) (Some x)) in
      if is ''req_account_add'' then req_account_add E nFd root s
      else if is ''req_account_sip_add'' then req_account_sip_add E root s
      else if is ''req_account_sip_caller_add'' then req_account_sip_caller_add E root s
      else if is ''req_account_activate'' then req_account_activate E root s
      else if is ''req_account_info'' then req_account_info E root s
      else if is ''req_account_sip_delete'' then req_account_sip_delete E root s
      else if is ''req_account_sip_caller_delete'' then req_account_sip_caller_delete E root s
      else Some (new_MPC2CResult kMPC2CResultCode_InvalidDataType ''Invalid action type'' [], s))"

definition handleJsonContent :: "c2c_env \<Rightarrow> MPNetFd \<Rightarrow> cstr \<Rightarrow> MPC2CTransport \<Rightarrow> outcome" where
  "handleJsonContent E nFd content s =
     (case content of
        None \<Rightarrow> Some (new_MPC2CResult kMPC2CResultCode_InternalError ''Invalid parameter'' [], s)
      | Some doc \<Rightarrow>
          if doc = [] then Some (new_MPC2CResult kMPC2CResultCode_InternalError ''Invalid parameter'' [], s)
          else if m_oDb s = None
          then Some (new_MPC2CResult kMPC2CResultCode_InternalError ''No valid database engine could be found'' [], s)
          else case json_parse (cc_beyond E doc) doc of
            None \<Rightarrow> Some (new_MPC2CResult kMPC2CResultCode_ParsingFailed ''Parsing failed'' [], s)
          | Some root \<Rightarrow> MP_JSON_GET root ''action'' isString False
              (\<lambda>action s. with_string action (\<lambda>act. handle_action E nFd root act s)) s)"

section \<open>sendResult\<close>

definition http_result :: "string \<Rightarrow> MPC2CResult \<Rightarrow> string" where
  "http_result version r =
     ''HTTP/1.1 '' @ dec_of_nat (res_nCode r) @ '' '' @ res_pPhrase r @ crlf
     @ ''Server: webrtc2sip Media Server '' @ version @ crlf
     @ ''Access-Control-Allow-Origin: *'' @ crlf
     @ ''Content-Length: '' @ dec_of_nat (length (res_data r)) @ crlf
     @ ''Content-Type: application/json'' @ crlf @ ''Connection: Close'' @ crlf @ crlf @ res_data r"

text \<open>The result on the wire; a failed allocation sends nothing.\<close>

definition sendResult :: "c2c_env \<Rightarrow> MPNetFd \<Rightarrow> MPC2CResult \<Rightarrow> MPC2CTransport \<Rightarrow> bool \<times> MPC2CTransport" where
  "sendResult E fd r s =
     (if res_data r \<noteq> [] \<and> \<not> cc_realloc E (length (http_result (cc_version E) r)) then (False, s)
      else case net_sendData (cc_net E) fd (Some (http_result (cc_version E) r)) of
        (ok, acts) \<Rightarrow> (ok, s\<lparr>c2_sent := c2_sent s @ acts\<rparr>))"

end
