(* ===== verification/C2CAccess.thy ===== *)
theory C2CAccess
  imports C2CJson
begin

text \<open>
  What the JSON requests of the click-to-call service may do to the accounts: an abstract relation on
  the database, the lemma that every request stays within it and returns, and the consequences on who
  can change what.
\<close>

section \<open>Requests that return\<close>

text \<open>The request returns with a result that satisfies the predicate, unless it may abort.\<close>

definition returns :: "bool \<Rightarrow> (MPC2CResult \<Rightarrow> MPC2CTransport \<Rightarrow> bool) \<Rightarrow> outcome \<Rightarrow> bool" where
  "returns may_abort P x = (case x of None \<Rightarrow> may_abort | Some (r, s') \<Rightarrow> P r s')"

lemma returns_Some [simp]: "returns b P (Some (r, s)) = P r s"
  by (simp add: returns_def)

lemma returns_None [simp]: "returns b P None = b"
  by (simp add: returns_def)

lemma returnsD: "returns b P x \<Longrightarrow> x = Some (r, s) \<Longrightarrow> P r s"
  by simp

lemma returns_False: "returns False P x \<Longrightarrow> \<exists>r s. x = Some (r, s) \<and> P r s"
  by (cases x) auto

definition json_text :: "json \<Rightarrow> string \<Rightarrow> string option" where
  "json_text root k = (case json_get root k of Some (stringValue t) \<Rightarrow> Some (c_str t) | _ \<Rightarrow> None)"

text \<open>A refused field is answered with a 483; otherwise the rest of the handler runs on it.\<close>

definition refusal :: "MPC2CResult \<Rightarrow> bool" where
  "refusal r \<longleftrightarrow> res_nCode r = kMPC2CResultCode_InvalidDataType \<and> res_data r = []"

lemma MP_JSON_GET_returns:
  assumes "\<And>r. refusal r \<Longrightarrow> P r s"
    and "\<And>v. isObject parent \<Longrightarrow> json_get parent name = Some v \<Longrightarrow> test v \<Longrightarrow> returns b P (k v s)"
  shows "returns b P (MP_JSON_GET parent name test null k s)"
proof (cases parent)
  case nullValue
  then show ?thesis using assms by (auto simp: MP_JSON_GET_def refusal_def new_MPC2CResult_def json_get_def)
next
  case (objectValue m)
  then show ?thesis using assms by (auto simp: MP_JSON_GET_def refusal_def new_MPC2CResult_def json_get_def isObject_def)
qed (use assms in \<open>auto simp: MP_JSON_GET_def refusal_def new_MPC2CResult_def isObject_def\<close>)

lemma MP_JSON_GET_text:
  assumes "\<And>r. refusal r \<Longrightarrow> P r s"
    and "\<And>v t. json_get parent name = Some v \<Longrightarrow> asString v = Some t \<Longrightarrow> asCString v = Some t \<Longrightarrow>
           json_text parent name = Some t \<Longrightarrow> returns b P (k v s)"
  shows "returns b P (MP_JSON_GET parent name isString null k s)"
proof (rule MP_JSON_GET_returns)
  fix v assume "json_get parent name = Some v" "isString v"
  then show "returns b P (k v s)"
    using assms(2) by (cases v) (simp_all add: isString_def asString_def asCString_def json_text_def)
qed (rule assms(1))

lemma with_string_returns: "asString v = Some t \<Longrightarrow> returns b P (k t) \<Longrightarrow> returns b P (with_string v k)"
  by (simp add: with_string_def)

lemma with_int64_returns: "(asInt64 v = None \<Longrightarrow> b) \<Longrightarrow> (\<And>w :: 64 word. returns b P (k (sint w))) \<Longrightarrow> returns b P (with_int64 v k)"
  by (cases "asInt64 v") (simp_all add: with_int64_def)

section \<open>The database under a request\<close>

definition c2_db :: "MPC2CTransport \<Rightarrow> sqdb" where
  "c2_db s = (case m_oDb s of None \<Rightarrow> empty_db | Some c \<Rightarrow> c_db c)"

text \<open>Beside the invariant of the tables: every account has a password, a token and a code.\<close>

definition account_full :: "MPDbAccount \<Rightarrow> bool" where
  "account_full a \<longleftrightarrow> acc_pPassword a \<noteq> None \<and> acc_pAuthToken a \<noteq> None \<and> acc_pActivationCode a \<noteq> None"

definition accounts_ok :: "sqdb \<Rightarrow> bool" where
  "accounts_ok d \<longleftrightarrow> db_ok d \<and> (\<forall>a \<in> set (db_account d). account_full a)"

definition c2_ok :: "MPC2CTransport \<Rightarrow> bool" where
  "c2_ok s \<longleftrightarrow> (\<exists>c. m_oDb s = Some c \<and> m_bOpened c \<and> accounts_ok (c_db c))"

lemma c2_simps [simp]:
  "c2_db (s\<lparr>s_nAccountsCount := n\<rparr>) = c2_db s" "c2_ok (s\<lparr>s_nAccountsCount := n\<rparr>) = c2_ok s"
  "c2_db (s\<lparr>m_oMailTransport := m\<rparr>) = c2_db s" "c2_ok (s\<lparr>m_oMailTransport := m\<rparr>) = c2_ok s"
  "c2_db (s\<lparr>m_oRecaptchaTransport := x\<rparr>) = c2_db s" "c2_ok (s\<lparr>m_oRecaptchaTransport := x\<rparr>) = c2_ok s"
  "c2_db (s\<lparr>c2_sent := y\<rparr>) = c2_db s" "c2_ok (s\<lparr>c2_sent := y\<rparr>) = c2_ok s"
  by (simp_all add: c2_db_def c2_ok_def)

lemma c2_ok_accounts: "c2_ok s \<Longrightarrow> accounts_ok (c2_db s)"
  by (auto simp: c2_ok_def c2_db_def)

lemma on_db_mail: "on_db f s = Some (x, s') \<Longrightarrow> m_oMailTransport s' = m_oMailTransport s"
  by (auto simp: on_db_def split: option.splits)

lemma on_db_spec:
  assumes "c2_ok s"
    and "\<And>c. m_bOpened c \<Longrightarrow> accounts_ok (c_db c) \<Longrightarrow> \<exists>x c'. f c = Some (x, c') \<and> same_conn c c' \<and> R x (c_db c) (c_db c')"
    and "\<And>x d d'. accounts_ok d \<Longrightarrow> R x d d' \<Longrightarrow> accounts_ok d'"
  shows "\<exists>x s'. on_db f s = Some (x, s') \<and> c2_ok s' \<and> R x (c2_db s) (c2_db s') \<and> s' = s\<lparr>m_oDb := m_oDb s'\<rparr>"
proof -
  obtain c where c: "m_oDb s = Some c" "m_bOpened c" "accounts_ok (c_db c)" using assms(1) by (auto simp: c2_ok_def)
  obtain x c' where f: "f c = Some (x, c')" "same_conn c c'" "R x (c_db c) (c_db c')" using assms(2) c by blast
  show ?thesis using c f assms(3) [OF c(3) f(3)]
    by (auto simp: on_db_def c2_ok_def c2_db_def same_conn_def)
qed

text \<open>A writing operation ran its statement and says so, or did nothing.\<close>

lemma on_db_write:
  assumes "c2_ok s"
    and "\<And>c. m_bOpened c \<Longrightarrow> \<exists>x c'. f c = Some (x, c') \<and> same_conn c c'
           \<and> (if x then stmt (c_db c) = (SQLITE_DONE, c_db c') else c_db c' = c_db c)"
    and "\<And>d. accounts_ok d \<Longrightarrow> accounts_ok (snd (stmt d))"
  shows "\<exists>x s'. on_db f s = Some (x, s') \<and> c2_ok s'
     \<and> (if x then stmt (c2_db s) = (SQLITE_DONE, c2_db s') else c2_db s' = c2_db s) \<and> s' = s\<lparr>m_oDb := m_oDb s'\<rparr>"
proof (rule on_db_spec [OF assms(1)])
  show "accounts_ok d'" if "accounts_ok d" "if x then stmt d = (SQLITE_DONE, d') else d' = d" for x d d'
    using that assms(3) [of d] by (auto split: if_splits)
qed (rule assms(2))

lemma on_db_read:
  assumes "c2_ok s"
    and "\<And>c. m_bOpened c \<Longrightarrow> accounts_ok (c_db c) \<Longrightarrow> \<exists>x c'. f c = Some (x, c') \<and> same_db c c' \<and> R x (c_db c)"
  shows "\<exists>x s'. on_db f s = Some (x, s') \<and> c2_ok s' \<and> c2_db s' = c2_db s \<and> R x (c2_db s) \<and> s' = s\<lparr>m_oDb := m_oDb s'\<rparr>"
proof -
  have "\<exists>x c'. f c = Some (x, c') \<and> same_conn c c' \<and> c_db c' = c_db c \<and> R x (c_db c)" if "m_bOpened c" "accounts_ok (c_db c)" for c
    using assms(2) [OF that] by (auto simp: same_db_def same_conn_def)
  then show ?thesis
    using on_db_spec [of s f "\<lambda>x d d'. d' = d \<and> R x d", OF assms(1)] by blast
qed

lemma accounts_ok_stmts [w2s_inv]:
  assumes "accounts_ok d"
  shows "account_full a \<Longrightarrow> accounts_ok (snd (sSQL_InsertAccount a d))"
    and "account_full a \<Longrightarrow> accounts_ok (snd (sSQL_UpdateAccountById a d))"
    and "accounts_ok (snd (sSQL_DeleteZombies l d))"
    and "accounts_ok (snd (sSQL_InsertAccountSip x d))" "accounts_ok (snd (sSQL_DeleteAccountSip i d))"
    and "accounts_ok (snd (sSQL_InsertAccountSipCaller y d))" "accounts_ok (snd (sSQL_DeleteAccountSipCaller i d))"
proof -
  have ok: "db_ok d" "\<forall>b \<in> set (db_account d). account_full b" using assms by (simp_all add: accounts_ok_def)
  note full = account_full_def sSQL_InsertAccount_def sSQL_UpdateAccountById_def sSQL_DeleteZombies_def
    sSQL_InsertAccountSip_def sSQL_DeleteAccountSip_def sSQL_InsertAccountSipCaller_def sSQL_DeleteAccountSipCaller_def
  show "accounts_ok (snd (sSQL_InsertAccount a d))" if "account_full a"
    using ok that db_ok_insert_account [of d a] by (simp add: accounts_ok_def full)
  show "accounts_ok (snd (sSQL_UpdateAccountById a d))" if "account_full a"
    using ok that db_ok_update [of d a] by (auto simp: accounts_ok_def sSQL_UpdateAccountById_def)
  show "accounts_ok (snd (sSQL_DeleteZombies l d))"
    using ok db_ok_delete_zombies [of d l] by (simp add: accounts_ok_def full)
  show "accounts_ok (snd (sSQL_InsertAccountSip x d))"
    using ok db_ok_insert_sip [of d x] by (simp add: accounts_ok_def full)
  show "accounts_ok (snd (sSQL_DeleteAccountSip i d))"
    using ok db_ok_delete_sip [of d i] by (simp add: accounts_ok_def full)
  show "accounts_ok (snd (sSQL_InsertAccountSipCaller y d))"
    using ok db_ok_insert_caller [of d y] by (simp add: accounts_ok_def full)
  show "accounts_ok (snd (sSQL_DeleteAccountSipCaller i d))"
    using ok db_ok_delete_caller [of d i] by (simp add: accounts_ok_def full)
qed

lemma account_lookupD:
  "account_lookup d e = Some b \<Longrightarrow> b \<in> set (db_account d) \<and> acc_pEmail b = Some e"
  by (auto simp: account_lookup_def sSQL_SelectAccountByEmail_def dest: find_SomeD)

lemma c2_select_spec:
  assumes "c2_ok s" "faults_ok (cc_faults E)"
  shows "\<exists>x s'. c2_selectAccountByEmail E e s = Some (x, s') \<and> c2_ok s' \<and> c2_db s' = c2_db s
    \<and> (x = None \<or> (\<exists>b ep. account_lookup (c2_db s) e = Some b \<and> x = Some (b\<lparr>acc_nEpoch := ep\<rparr>)))
    \<and> s' = s\<lparr>m_oDb := m_oDb s'\<rparr>"
proof -
  let ?R = "\<lambda>x d. x = None \<or> (\<exists>b ep. account_lookup d e = Some b \<and> x = Some (b\<lparr>acc_nEpoch := ep\<rparr>))"
  have "\<exists>x c'. selectAccountByEmail (cc_T E) (cc_draws E (calls c)) (cc_faults E) e c = Some (x, c') \<and> same_db c c' \<and> ?R x (c_db c)"
    if c: "m_bOpened c" "accounts_ok (c_db c)" for c
  proof -
    obtain row c' where r: "run_select (cc_faults E) 1 (sSQL_SelectAccountByEmail e) c = Some (row, c')" "same_db c c'"
      "row = account_lookup (c_db c) e \<or> row = None"
      using run_select_spec [OF assms(2) c(1), of 1 "sSQL_SelectAccountByEmail e"] by (auto simp: account_lookup_def)
    show ?thesis
    proof (cases row)
      case None
      then show ?thesis using r by (simp add: selectAccountByEmail_def)
    next
      case (Some b)
      then have b: "account_lookup (c_db c) e = Some b" using r(3) by auto
      then have "account_full b" "acc_pEmail b = Some e" using c(2) account_lookupD by (auto simp: accounts_ok_def)
      then have "new_MPDbAccount T q (acc_nId b) (acc_nSoftVersion b) (acc_nDatabaseVersion b) (acc_pName b) (acc_pEmail b)
          (acc_pPassword b) (acc_pAuthToken b) (acc_bActivated b) (acc_pActivationCode b) 0 = Some (b\<lparr>acc_nEpoch := draw_epoch q\<rparr>)" for T q
        by (auto simp: new_MPDbAccount_def account_full_def)
      then show ?thesis using r(1,2) Some b by (auto simp: selectAccountByEmail_def)
    qed
  qed
  then show ?thesis unfolding c2_selectAccountByEmail_def by (rule on_db_read [OF assms(1), where R = ?R])
qed


section \<open>What a request may change\<close>

text \<open>
  A registration of an e-mail address with a name: expired accounts may go, and then a new account that
  is not activated is stored, or the account that has the address gets the name, or nothing happens.
\<close>

inductive registration :: "string \<Rightarrow> string \<Rightarrow> sqdb \<Rightarrow> sqdb \<Rightarrow> bool" for email name where
  none: "registration email name d d"
| added: "account_lookup d email = None \<Longrightarrow> acc_pEmail a = Some email \<Longrightarrow> acc_pName a = Some name \<Longrightarrow>
    \<not> acc_bActivated a \<Longrightarrow> account_full a \<Longrightarrow> registration email name d (snd (sSQL_InsertAccount a d))"
| renamed: "account_lookup d email = Some a \<Longrightarrow>
    registration email name d (snd (sSQL_UpdateAccountById (a\<lparr>acc_nEpoch := t, acc_pName := Some name\<rparr>) d))"
| zombies: "registration email name (snd (sSQL_DeleteZombies l d)) d' \<Longrightarrow> registration email name d d'"

text \<open>The four statements on addresses and callers; a new address belongs to the account with the id.\<close>

inductive manage :: "int \<Rightarrow> sqdb \<Rightarrow> sqdb \<Rightarrow> bool" for n where
  nothing: "manage n d d"
| sip_add: "sip_nAccountId x = n \<Longrightarrow> manage n d (snd (sSQL_InsertAccountSip x d))"
| caller_add: "manage n d (snd (sSQL_InsertAccountSipCaller y d))"
| sip_delete: "manage n d (snd (sSQL_DeleteAccountSip i d))"
| caller_delete: "manage n d (snd (sSQL_DeleteAccountSipCaller i d))"

text \<open>
  A request: nothing, a registration, the activation of an account whose code it carries, or the
  management of an activated account whose token it carries.
\<close>

inductive account_change :: "tsk_api \<Rightarrow> json \<Rightarrow> sqdb \<Rightarrow> sqdb \<Rightarrow> bool" for T root where
  same: "account_change T root d d"
| register: "json_text root ''email'' = Some e \<Longrightarrow> json_text root ''name'' = Some n \<Longrightarrow> registration e n d d' \<Longrightarrow>
    account_change T root d d'"
| activate: "json_text root ''email'' = Some e \<Longrightarrow> account_lookup d e = Some a \<Longrightarrow> json_text root ''code'' = Some c \<Longrightarrow>
    tsk_striequals T (acc_pActivationCode a) (Some c) \<Longrightarrow>
    account_change T root d (snd (sSQL_UpdateAccountById (a\<lparr>acc_nEpoch := t, acc_bActivated := True\<rparr>) d))"
| manage: "json_text root ''email'' = Some e \<Longrightarrow> account_lookup d e = Some a \<Longrightarrow> acc_bActivated a \<Longrightarrow>
    json_text root ''auth_token'' = Some k \<Longrightarrow> tsk_strequals T (acc_pAuthToken a) (Some k) \<Longrightarrow>
    manage (acc_nId a) d d' \<Longrightarrow> account_change T root d d'"

section \<open>Every request stays within it\<close>

text \<open>What holds of the outcome of a request that started from a state.\<close>

definition within :: "(sqdb \<Rightarrow> sqdb \<Rightarrow> bool) \<Rightarrow> MPC2CTransport \<Rightarrow> MPC2CResult \<Rightarrow> MPC2CTransport \<Rightarrow> bool" where
  "within R s r s' \<longleftrightarrow> c2_ok s' \<and> R (c2_db s) (c2_db s')"

lemma on_db_query:
  assumes "c2_ok s" "\<And>c. m_bOpened c \<Longrightarrow> \<exists>x c'. f c = Some (x, c') \<and> same_db c c'"
  obtains x s' where "on_db f s = Some (x, s')" "c2_ok s'" "c2_db s' = c2_db s"
  using on_db_read [OF assms(1), of f "\<lambda>x d. True"] assms(2) by blast

lemma serialize_spec:
  assumes "c2_ok s" "faults_ok (cc_faults E)" "acc_nId a \<noteq> MPDB_ACCOUNT_INVALID_ID"
  shows "\<exists>t s'. serializeAccount E resp a s = Some (t, s') \<and> c2_ok s' \<and> c2_db s' = c2_db s"
proof -
  have "\<exists>x c'. selectAccountSipByAccountId (cc_faults E) (acc_nId a) c = Some (x, c') \<and> same_db c c'" if "m_bOpened c" for c
    using run_select_spec [OF assms(2) that, of 1 "sSQL_SelectAccountSipByAccountId (acc_nId a)"] assms(3)
    by (auto simp: selectAccountSipByAccountId_def)
  from on_db_query [OF assms(1) this]
  obtain sip s1 where s1: "on_db (selectAccountSipByAccountId (cc_faults E) (acc_nId a)) s = Some (sip, s1)"
    "c2_ok s1" "c2_db s1 = c2_db s" by blast
  have q: "\<exists>x c'. selectAccountSipCallerByAccountSipId (cc_faults E) i c = Some (x, c') \<and> same_db c c'" if "m_bOpened c" for i c
    using run_select_spec [OF assms(2) that, of 1 "sSQL_SelectAccountSipCallerByAccountSipId i"]
    by (auto simp: selectAccountSipCallerByAccountSipId_def selectAccountSipCaller_def)
  show ?thesis
  proof (cases sip)
    case None
    then show ?thesis using s1 by (simp add: serializeAccount_def)
  next
    case (Some x)
    from on_db_query [OF s1(2) q [where i = "sip_nId x"]]
    obtain y s2 where "on_db (selectAccountSipCallerByAccountSipId (cc_faults E) (sip_nId x)) s1 = Some (y, s2)"
      "c2_ok s2" "c2_db s2 = c2_db s1" by blast
    then have "\<exists>t. serializeAccount E resp a s = Some (t, s2)"
      using s1(1) Some by (simp add: serializeAccount_def Let_def)
    then show ?thesis using s1 \<open>c2_ok s2\<close> \<open>c2_db s2 = c2_db s1\<close> by auto
  qed
qed

lemma account_answer_returns:
  assumes "c2_ok s" "faults_ok (cc_faults E)" "acc_nId a \<noteq> MPDB_ACCOUNT_INVALID_ID"
    and "\<And>r s'. c2_ok s' \<Longrightarrow> c2_db s' = c2_db s \<Longrightarrow> P r s'"
  shows "returns b P (account_answer E resp phrase a s)"
  using serialize_spec [OF assms(1-3), of resp] assms(4) by (auto simp: account_answer_def)

lemma sendActivationMail_returns:
  obtains ok m where "sendActivationMail E email name code pw s = Some (ok, s\<lparr>m_oMailTransport := m\<rparr>)"
proof (cases "m_oMailTransport s")
  case None
  then have "sendActivationMail E email name code pw s = Some (False, s\<lparr>m_oMailTransport := None\<rparr>)"
    by (cases s) (simp add: sendActivationMail_def split: option.split)
  then show ?thesis by (rule that)
next
  case (Some m)
  obtain nt t where m: "m = (nt, t)" by fastforce
  show ?thesis
  proof (cases "\<exists>e n c p. email = Some e \<and> name = Some n \<and> code = Some c \<and> pw = Some p")
    case True
    then obtain e n c p where *: "email = Some e" "name = Some n" "code = Some c" "pw = Some p" by blast
    obtain ok t1 where "sendMail (cc_net E) (cc_realloc E) nt email (Some ''Your click2dial.org registration info'')
        (Some (activation_mail n c (tsk_base64_encode (cc_T E) e) p)) None t = Some (ok, t1)"
      using sendMail_returns by blast
    then have "sendActivationMail E email name code pw s = Some (ok, s\<lparr>m_oMailTransport := Some (nt, t1)\<rparr>)"
      using Some m * by (simp add: sendActivationMail_def)
    then show ?thesis by (rule that)
  next
    case False
    then have "sendActivationMail E email name code pw s = Some (False, s\<lparr>m_oMailTransport := m_oMailTransport s\<rparr>)"
      by (auto simp: sendActivationMail_def split: option.split)
    then show ?thesis by (rule that)
  qed
qed

lemma mailed_result_returns:
  assumes "\<And>r m. P r (s\<lparr>m_oMailTransport := m\<rparr>)"
  shows "returns b P (mailed_result E a phrase s)"
proof -
  obtain ok m where "sendActivationMail E (acc_pEmail a) (acc_pName a) (acc_pActivationCode a) (acc_pPassword a) s
      = Some (ok, s\<lparr>m_oMailTransport := m\<rparr>)"
    by (rule sendActivationMail_returns)
  then show ?thesis using assms by (simp add: mailed_result_def)
qed


lemma kill_zombies_spec:
  assumes "c2_ok s" "faults_ok (cc_faults E)"
  obtains b s' where "kill_zombies E s = Some (b, s')" "c2_ok s'" "m_oMailTransport s' = m_oMailTransport s"
    "c2_db s' = c2_db s \<or> (\<exists>l. c2_db s' = snd (sSQL_DeleteZombies l (c2_db s)))"
proof (cases "s_nAccountsCount s = 0 \<or> s_nAccountsCount s mod kMaxNewAccountBeforeKillingZombies = 0")
  case True
  let ?R = "\<lambda>b d d'. d' = d \<or> (\<exists>l. d' = snd (sSQL_DeleteZombies l d))"
  have kill: "\<exists>b c'. killZombieAccounts (cc_faults E) (cc_now E) kZombieMaxLifeTimeExpectancy c = Some (b, c') \<and> same_conn c c'
      \<and> ?R b (c_db c) (c_db c')" if "m_bOpened c" for c
    using killZombieAccounts_spec [OF assms(2) that, of "cc_now E" kZombieMaxLifeTimeExpectancy] by blast
  have ok: "accounts_ok d'" if "accounts_ok d" "?R b d d'" for b d d' using that accounts_ok_stmts(3) by auto
  have "\<exists>b s'. on_db (killZombieAccounts (cc_faults E) (cc_now E) kZombieMaxLifeTimeExpectancy) s = Some (b, s')
      \<and> c2_ok s' \<and> ?R b (c2_db s) (c2_db s') \<and> s' = s\<lparr>m_oDb := m_oDb s'\<rparr>"
    by (rule on_db_spec [OF assms(1)]) (erule kill, erule ok, assumption)
  then obtain b s' where z: "on_db (killZombieAccounts (cc_faults E) (cc_now E) kZombieMaxLifeTimeExpectancy) s = Some (b, s')"
    "c2_ok s'" "?R b (c2_db s) (c2_db s')" by blast
  have "m_oMailTransport s' = m_oMailTransport s" by (rule on_db_mail [OF z(1)])
  then show ?thesis using that z True by (simp add: kill_zombies_def)
next
  case False
  then show ?thesis using that [of False s] assms(1) by (simp add: kill_zombies_def)
qed

lemma addAccount_on_db:
  assumes "c2_ok s" "faults_ok (cc_faults E)" "account_full a"
  obtains ok s' where "on_db (addAccount (cc_faults E) a) s = Some (ok, s')" "c2_ok s'"
    "if ok then sSQL_InsertAccount a (c2_db s) = (SQLITE_DONE, c2_db s') else c2_db s' = c2_db s"
  using on_db_write [OF assms(1) addAccount_spec [OF assms(2)] accounts_ok_stmts(1) [OF _ assms(3)]] by blast

lemma updateAccount_on_db:
  assumes "c2_ok s" "faults_ok (cc_faults E)" "account_full a"
  obtains ok s' where "on_db (updateAccount (cc_faults E) a) s = Some (ok, s')" "c2_ok s'"
    "if ok then sSQL_UpdateAccountById a (c2_db s) = (SQLITE_DONE, c2_db s') else c2_db s' = c2_db s"
  using on_db_write [OF assms(1) updateAccount_spec [OF assms(2)] accounts_ok_stmts(2) [OF _ assms(3)]] by blast

lemma deleteAccountSip_on_db:
  assumes "c2_ok s" "faults_ok F"
  obtains ok s' where "on_db (deleteAccountSipById F i) s = Some (ok, s')" "c2_ok s'"
    "if ok then sSQL_DeleteAccountSip i (c2_db s) = (SQLITE_DONE, c2_db s') else c2_db s' = c2_db s"
  using on_db_write [OF assms(1) deleteAccountSipById_spec [OF assms(2), where i = i] accounts_ok_stmts(5)] by blast

lemma insert_done: "sSQL_InsertAccount a d = (SQLITE_DONE, d') \<Longrightarrow> acc_pEmail a = Some e \<Longrightarrow> account_lookup d e = None"
  by (auto simp: sSQL_InsertAccount_def account_lookup_def sSQL_SelectAccountByEmail_def find_None_iff sqlite_codes split: if_splits)

lemma lookup_full: "accounts_ok d \<Longrightarrow> account_lookup d e = Some a \<Longrightarrow> account_full a \<and> 0 < acc_nId a"
  using account_lookupD [of d e a] by (auto simp: accounts_ok_def db_ok_def ids_ok_def)

lemma addAccountAndSendActivationMail_returns:
  assumes "c2_ok s" "faults_ok (cc_faults E)"
  shows "returns b (within (registration e n) s) (addAccountAndSendActivationMail E (Some e) (Some n) s)"
proof -
  obtain z s1 where s1: "kill_zombies E s = Some (z, s1)" "c2_ok s1"
    and "c2_db s1 = c2_db s \<or> (\<exists>l. c2_db s1 = snd (sSQL_DeleteZombies l (c2_db s)))"
    by (rule kill_zombies_spec [OF assms])
  then have reg: "registration e n (c2_db s) d'" if "registration e n (c2_db s1) d'" for d'
    using that registration.zombies by auto
  let ?s1 = "s1\<lparr>s_nAccountsCount := s_nAccountsCount s1 + 1\<rparr>"
  obtain x s2 where s2: "c2_selectAccountByEmail E e ?s1 = Some (x, s2)" "c2_ok s2" "c2_db s2 = c2_db s1"
    and x: "x = None \<or> (\<exists>a t. account_lookup (c2_db s1) e = Some a \<and> x = Some (a\<lparr>acc_nEpoch := t\<rparr>))"
    using c2_select_spec [of ?s1 E e] s1(2) assms(2) by auto
  show ?thesis
  proof (cases x)
    case (Some y)
    with x obtain a t where a: "account_lookup (c2_db s1) e = Some a" "y = a\<lparr>acc_nEpoch := t\<rparr>" by auto
    let ?y = "a\<lparr>acc_nEpoch := t, acc_pName := Some n\<rparr>"
    have "account_full ?y" using lookup_full [OF c2_ok_accounts [OF s1(2)] a(1)] by (simp add: account_full_def)
    then obtain ok s3 where s3: "on_db (updateAccount (cc_faults E) ?y) s2 = Some (ok, s3)" "c2_ok s3"
      "if ok then sSQL_UpdateAccountById ?y (c2_db s2) = (SQLITE_DONE, c2_db s3) else c2_db s3 = c2_db s2"
      using updateAccount_on_db [OF s2(2) assms(2)] by metis
    have "c2_db s3 = c2_db s1 \<or> c2_db s3 = snd (sSQL_UpdateAccountById ?y (c2_db s1))"
      using s3(3) s2(3) by (cases ok) auto
    then have P: "within (registration e n) s r (s3\<lparr>m_oMailTransport := m\<rparr>)" "within (registration e n) s r s3" for r m
      using s3(2) registration.renamed [OF a(1), of n t] registration.none reg by (auto simp: within_def)
    show ?thesis using P mailed_result_returns [of "within (registration e n) s" s3 b E ?y "''Account updated''", OF P(1)]
      by (simp add: addAccountAndSendActivationMail_def s1(1) s2(1) Some a(2) s3(1))
  next
    case None
    let ?new = "\<lambda>q. new_MPDbAccount (cc_T E) q MPDB_ACCOUNT_INVALID_ID WEBRTC2SIP_C2C_SOFT_VERSION
      WEBRTC2SIP_C2C_DATABASE_VERSION (Some n) (Some e) None None False None 0"
    obtain a where a: "?new (cc_draws E (case m_oDb s2 of None \<Rightarrow> 0 | Some c \<Rightarrow> calls c)) = Some a"
      using new_MPDbAccount_ok by blast
    note f = new_MPDbAccount_fields [OF a]
    have full: "account_full a" using f by (simp add: account_full_def)
    obtain ok s3 where s3: "on_db (addAccount (cc_faults E) a) s2 = Some (ok, s3)" "c2_ok s3"
      "if ok then sSQL_InsertAccount a (c2_db s2) = (SQLITE_DONE, c2_db s3) else c2_db s3 = c2_db s2"
      using addAccount_on_db [OF s2(2) assms(2) full] by metis
    have "registration e n (c2_db s1) (c2_db s3)"
    proof (cases ok)
      case True
      then have ins: "sSQL_InsertAccount a (c2_db s1) = (SQLITE_DONE, c2_db s3)" using s3(3) s2(3) by simp
      have "registration e n (c2_db s1) (snd (sSQL_InsertAccount a (c2_db s1)))"
        using insert_done [OF ins f(5)] f full by (intro registration.added) auto
      then show ?thesis using ins by simp
    qed (use s3(3) s2(3) in \<open>simp add: registration.none\<close>)
    then have P: "within (registration e n) s r (s3\<lparr>m_oMailTransport := m\<rparr>)" "within (registration e n) s r s3" for r m
      using s3(2) reg by (auto simp: within_def)
    show ?thesis using P mailed_result_returns [of "within (registration e n) s" s3 b E a "''Account added''", OF P(1)]
      by (simp add: addAccountAndSendActivationMail_def s1(1) s2(1) None a s3(1))
  qed
qed


lemma withinI: "c2_ok s' \<Longrightarrow> R (c2_db s) (c2_db s') \<Longrightarrow> within R s r s'"
  by (simp add: within_def)

lemma authorised_returns:
  assumes "c2_ok s" "faults_ok (cc_faults E)" "asString emailv = Some e" "asString tokenv = Some k"
    and "\<And>r s'. c2_ok s' \<Longrightarrow> c2_db s' = c2_db s \<Longrightarrow> P r s'"
    and "\<And>a t s'. c2_ok s' \<Longrightarrow> c2_db s' = c2_db s \<Longrightarrow> account_lookup (c2_db s) e = Some a \<Longrightarrow> acc_bActivated a \<Longrightarrow>
        tsk_strequals (cc_T E) (acc_pAuthToken a) (Some k) \<Longrightarrow> returns b P (cont (a\<lparr>acc_nEpoch := t\<rparr>) s')"
  shows "returns b P (authorised E emailv tokenv resp cont s)"
proof -
  obtain x s1 where s1: "c2_selectAccountByEmail E e s = Some (x, s1)" "c2_ok s1" "c2_db s1 = c2_db s"
    and x: "x = None \<or> (\<exists>a t. account_lookup (c2_db s) e = Some a \<and> x = Some (a\<lparr>acc_nEpoch := t\<rparr>))"
    using c2_select_spec [OF assms(1,2), of e] by auto
  show ?thesis
  proof (cases x)
    case None
    then show ?thesis using s1 assms(5) by (simp add: authorised_def with_string_def assms(3))
  next
    case (Some y)
    with x obtain a t where a: "account_lookup (c2_db s) e = Some a" "y = a\<lparr>acc_nEpoch := t\<rparr>" by auto
    show ?thesis
      using assms(6) [OF s1(2,3) a(1), of t] assms(5) [OF s1(2,3)] s1(1) Some a(2)
      by (simp add: authorised_def with_string_def assms(3,4))
  qed
qed

lemma returns_mono: "returns b P x \<Longrightarrow> (\<And>r s. P r s \<Longrightarrow> Q r s) \<Longrightarrow> returns b Q x"
  by (cases x) auto

text \<open>A handler of an authenticated account whose rest manages addresses.\<close>

lemma authorised_manage:
  assumes "c2_ok s" "faults_ok (cc_faults E)" "asString emailv = Some e" "asString tokenv = Some k"
    and "json_text root ''email'' = Some e" "json_text root ''auth_token'' = Some k"
    and "\<And>a s1. c2_ok s1 \<Longrightarrow> acc_nId a \<noteq> MPDB_ACCOUNT_INVALID_ID \<Longrightarrow> returns b (within (manage (acc_nId a)) s1) (cont a s1)"
  shows "returns b (within (account_change (cc_T E) root) s) (authorised E emailv tokenv resp cont s)"
proof (rule authorised_returns [OF assms(1-4)])
  show "within (account_change (cc_T E) root) s r s'" if "c2_ok s'" "c2_db s' = c2_db s" for r s'
    using that by (simp add: within_def account_change.same)
next
  fix a t s1
  assume a: "c2_ok s1" "c2_db s1 = c2_db s" "account_lookup (c2_db s) e = Some a" "acc_bActivated a"
    "tsk_strequals (cc_T E) (acc_pAuthToken a) (Some k)"
  have "acc_nId (a\<lparr>acc_nEpoch := t\<rparr>) \<noteq> MPDB_ACCOUNT_INVALID_ID"
    using lookup_full [OF c2_ok_accounts [OF assms(1)] a(3)] by (simp add: MPDB_ACCOUNT_INVALID_ID_def)
  then have "returns b (within (manage (acc_nId (a\<lparr>acc_nEpoch := t\<rparr>))) s1) (cont (a\<lparr>acc_nEpoch := t\<rparr>) s1)"
    using assms(7) a(1) by blast
  then show "returns b (within (account_change (cc_T E) root) s) (cont (a\<lparr>acc_nEpoch := t\<rparr>) s1)"
    by (rule returns_mono)
      (use a account_change.manage [OF assms(5) a(3,4) assms(6) a(5)] in \<open>auto simp: within_def\<close>)
qed

lemma write_answer_returns:
  assumes "c2_ok s" "faults_ok (cc_faults E)" "acc_nId a \<noteq> MPDB_ACCOUNT_INVALID_ID"
    and "\<And>c. m_bOpened c \<Longrightarrow> \<exists>x c'. f c = Some (x, c') \<and> same_conn c c'
           \<and> (if x then stmt (c_db c) = (SQLITE_DONE, c_db c') else c_db c' = c_db c)"
    and "\<And>d. accounts_ok d \<Longrightarrow> accounts_ok (snd (stmt d))"
    and "R (c2_db s) (snd (stmt (c2_db s)))" "R (c2_db s) (c2_db s)"
  shows "returns b (within R s) (do { (ok, s2) \<leftarrow> on_db f s;
      (if \<not> ok then Some (r, s2) else account_answer E resp phrase a s2) })"
proof -
  obtain ok s2 where s2: "on_db f s = Some (ok, s2)" "c2_ok s2"
    "if ok then stmt (c2_db s) = (SQLITE_DONE, c2_db s2) else c2_db s2 = c2_db s"
    using on_db_write [OF assms(1,4,5)] by blast
  have "R (c2_db s) (c2_db s2)" using s2(3) assms(6,7) by (cases ok) auto
  then show ?thesis
    using s2(1,2) account_answer_returns [OF s2(2) assms(2,3), of "within R s" b resp phrase] by (simp add: within_def)
qed

lemma manage_returns:
  assumes "c2_ok s" "faults_ok (cc_faults E)" "acc_nId a \<noteq> MPDB_ACCOUNT_INVALID_ID"
  shows "sip_nAccountId x = acc_nId a \<Longrightarrow> returns b (within (manage (acc_nId a)) s)
      (do { (ok, s2) \<leftarrow> on_db (addAccountSip (cc_faults E) x) s;
            (if \<not> ok then Some (r, s2) else account_answer E resp phrase a s2) })"
    and "returns b (within (manage (acc_nId a)) s)
      (do { (ok, s2) \<leftarrow> on_db (addAccountSipCaller (cc_faults E) y) s;
            (if \<not> ok then Some (r, s2) else account_answer E resp phrase a s2) })"
    and "returns b (within (manage (acc_nId a)) s)
      (do { (ok, s2) \<leftarrow> on_db (deleteAccountSipById (cc_faults E) i) s;
            (if \<not> ok then Some (r, s2) else account_answer E resp phrase a s2) })"
    and "returns b (within (manage (acc_nId a)) s)
      (do { (ok, s2) \<leftarrow> on_db (deleteAccountSipCallerById (cc_faults E) i) s;
            (if \<not> ok then Some (r, s2) else account_answer E resp phrase a s2) })"
  by (rule write_answer_returns [OF assms addAccountSip_spec [OF assms(2)]],
      assumption, erule accounts_ok_stmts, erule manage.sip_add, rule manage.nothing)
    (rule write_answer_returns [OF assms addAccountSipCaller_spec [OF assms(2)]]
          write_answer_returns [OF assms deleteAccountSipById_spec [OF assms(2)]]
          write_answer_returns [OF assms deleteAccountSipCallerById_spec [OF assms(2)]],
      assumption, erule accounts_ok_stmts, rule manage.intros, rule manage.nothing)+

text \<open>An id that \<open>asInt64\<close> throws on.\<close>

definition huge_id :: "json \<Rightarrow> bool" where
  "huge_id root \<longleftrightarrow> (\<exists>k \<in> {''id'', ''account_sip_id''}. \<exists>v. json_get root k = Some v \<and> isIntegral v \<and> asInt64 v = None)"

abbreviation allowed :: "c2c_env \<Rightarrow> json \<Rightarrow> MPC2CTransport \<Rightarrow> MPC2CResult \<Rightarrow> MPC2CTransport \<Rightarrow> bool" where
  "allowed E root s \<equiv> within (account_change (cc_T E) root) s"

lemma allowed_same: "c2_ok s \<Longrightarrow> allowed E root s r s"
  by (simp add: within_def account_change.same)

lemma huge_idI: "json_get root k = Some v \<Longrightarrow> isIntegral v \<Longrightarrow> asInt64 v = None \<Longrightarrow> k \<in> {''id'', ''account_sip_id''} \<Longrightarrow> huge_id root"
  by (auto simp: huge_id_def)

lemma sip_add_returns:
  assumes "c2_ok s" "faults_ok (cc_faults E)"
  shows "returns b (allowed E root s) (req_account_sip_add E root s)"
  unfolding req_account_sip_add_def
  by (intro MP_JSON_GET_text MP_JSON_GET_returns [where test = isObject] allowed_same [OF assms(1)])
    (rule authorised_manage [OF assms], assumption+, rule with_string_returns, assumption, rule manage_returns,
      simp_all add: assms(2) new_MPDbAccountSip_def)

lemma caller_add_returns:
  assumes "c2_ok s" "faults_ok (cc_faults E)"
  shows "returns (huge_id root) (allowed E root s) (req_account_sip_caller_add E root s)"
  unfolding req_account_sip_caller_add_def
  by (intro MP_JSON_GET_text MP_JSON_GET_returns [where test = isIntegral] allowed_same [OF assms(1)])
    (rule authorised_manage [OF assms], assumption+, (rule with_string_returns, assumption)+, rule with_int64_returns,
      erule huge_idI, assumption+, simp, rule manage_returns, simp_all add: assms(2))

lemma delete_returns:
  assumes "c2_ok s" "faults_ok (cc_faults E)"
  shows "returns (huge_id root) (allowed E root s) (req_account_sip_delete E root s)"
    and "returns (huge_id root) (allowed E root s) (req_account_sip_caller_delete E root s)"
  unfolding req_account_sip_delete_def req_account_sip_caller_delete_def req_delete_def
  by (intro MP_JSON_GET_text MP_JSON_GET_returns [where test = isIntegral] allowed_same [OF assms(1)],
      rule authorised_manage [OF assms], assumption+, rule with_int64_returns,
      erule huge_idI, assumption+, simp, rule manage_returns, simp_all add: assms(2))+

lemma info_returns:
  assumes "c2_ok s" "faults_ok (cc_faults E)"
  shows "returns b (allowed E root s) (req_account_info E root s)"
  unfolding req_account_info_def
  by (intro MP_JSON_GET_text allowed_same [OF assms(1)])
    (rule authorised_manage [OF assms], assumption+, rule account_answer_returns,
      simp_all add: assms(2) within_def manage.nothing)

lemma activate_returns:
  assumes "c2_ok s" "faults_ok (cc_faults E)"
  shows "returns b (allowed E root s) (req_account_activate E root s)"
  unfolding req_account_activate_def
proof (intro MP_JSON_GET_text allowed_same [OF assms(1)])
  fix ev e cv c
  assume e: "asString ev = Some e" "json_text root ''email'' = Some e" and c: "asString cv = Some c" "json_text root ''code'' = Some c"
  let ?resp = "kJsonContent ''resp_account_activate''"
  obtain x s1 where s1: "c2_selectAccountByEmail E e s = Some (x, s1)" "c2_ok s1" "c2_db s1 = c2_db s"
    and x: "x = None \<or> (\<exists>a t. account_lookup (c2_db s) e = Some a \<and> x = Some (a\<lparr>acc_nEpoch := t\<rparr>))"
    using c2_select_spec [OF assms, of e] by auto
  have same: "allowed E root s r s1" for r using s1(2,3) by (simp add: within_def account_change.same)
  show "returns b (allowed E root s) (with_string ev (\<lambda>e. do {
         (oAccount, s1) \<leftarrow> c2_selectAccountByEmail E e s;
         (case oAccount of
            None \<Rightarrow> Some (new_MPC2CResult kMPC2CResultCode_NotFound ''Failed to find account'' ?resp, s1)
          | Some a \<Rightarrow> with_string cv (\<lambda>c.
              if \<not> tsk_striequals (cc_T E) (acc_pActivationCode a) (Some c)
              then Some (new_MPC2CResult kMPC2CResultCode_InvalidDataType ''Activation code mismatch'' ?resp, s1)
              else if acc_bActivated a
              then Some (new_MPC2CResult kMPC2CResultCode_Success ''Account activated'' ?resp, s1)
              else do {
                (ok, s2) \<leftarrow> on_db (updateAccount (cc_faults E) (a\<lparr>acc_bActivated := True\<rparr>)) s1;
                (if \<not> ok
                 then Some (new_MPC2CResult kMPC2CResultCode_InternalError ''Failed to activate account'' ?resp, s2)
                 else Some (new_MPC2CResult kMPC2CResultCode_Success ''Account activated'' ?resp, s2)) })) }))"
  proof (cases x)
    case None
    then show ?thesis using s1(1) same by (simp add: with_string_def e(1))
  next
    case (Some y)
    with x obtain a t where a: "account_lookup (c2_db s) e = Some a" "y = a\<lparr>acc_nEpoch := t\<rparr>" by auto
    let ?a = "a\<lparr>acc_nEpoch := t, acc_bActivated := True\<rparr>"
    have "account_full ?a" using lookup_full [OF c2_ok_accounts [OF assms(1)] a(1)] by (simp add: account_full_def)
    then obtain ok s2 where s2: "on_db (updateAccount (cc_faults E) ?a) s1 = Some (ok, s2)" "c2_ok s2"
      "if ok then sSQL_UpdateAccountById ?a (c2_db s1) = (SQLITE_DONE, c2_db s2) else c2_db s2 = c2_db s1"
      using updateAccount_on_db [OF s1(2) assms(2)] by metis
    have db: "c2_db s2 = c2_db s \<or> c2_db s2 = snd (sSQL_UpdateAccountById ?a (c2_db s))"
      using s2(3) s1(3) by (cases ok) auto
    have "allowed E root s r s2" if "tsk_striequals (cc_T E) (acc_pActivationCode a) (Some c)" for r
      using db s2(2) account_change.activate [OF e(2) a(1) c(2) that, of t] by (auto simp: within_def account_change.same)
    then show ?thesis using s1(1) s2(1) same Some a(2)
      by (simp add: with_string_def e(1) c(1))
  qed
qed


lemma add_returns:
  assumes "c2_ok s" "faults_ok (cc_faults E)" "strnullORempty_law (cc_T E)"
  shows "returns b (allowed E root s) (req_account_add E fd root s)"
  unfolding req_account_add_def
proof (intro MP_JSON_GET_text allowed_same [OF assms(1)])
  fix nv n ev e
  assume n: "asCString nv = Some n" "json_text root ''name'' = Some n"
    and e: "asCString ev = Some e" "json_text root ''email'' = Some e"
  show "returns b (allowed E root s) (case m_oRecaptchaTransport s of
          Some (nt, t) \<Rightarrow>
            MP_JSON_GET root ''captcha_value'' isString False (\<lambda>captcha s.
              (case validate (cc_version E) (cc_net E) nt fd (asCString nv) (asCString ev) (asCString captcha) t of
                 None \<Rightarrow> None
               | Some (ok, t1) \<Rightarrow>
                   Some ((if ok then new_MPC2CResult kMPC2CResultCode_Accepted ''Captcha validation'' []
                          else new_MPC2CResult kMPC2CResultCode_InternalError ''Internal Error'' []),
                         s\<lparr>m_oRecaptchaTransport := Some (nt, t1)\<rparr>))) s
        | None \<Rightarrow> addAccountAndSendActivationMail E (asCString ev) (asCString nv) s)"
  proof (cases "m_oRecaptchaTransport s")
    case None
    have "returns b (allowed E root s) (addAccountAndSendActivationMail E (Some e) (Some n) s)"
      using addAccountAndSendActivationMail_returns [OF assms(1,2)]
      by (rule returns_mono) (auto simp: within_def intro: account_change.register [OF e(2) n(2)])
    then show ?thesis by (simp add: None n(1) e(1))
  next
    case (Some p)
    obtain nt t where p: "p = (nt, t)" by fastforce
    have v: "validate (cc_version E) (cc_net E) nt fd (Some n) (Some e) (Some r) t \<noteq> None" for r
      using validate_returns assms(3) by blast
    show ?thesis unfolding Some p option.case prod.case
    proof (intro MP_JSON_GET_text allowed_same [OF assms(1)])
      fix cv r assume r: "asCString cv = Some r"
      obtain ok t1 where "validate (cc_version E) (cc_net E) nt fd (Some n) (Some e) (Some r) t = Some (ok, t1)"
        using v by fast
      then show "returns b (allowed E root s)
          (case validate (cc_version E) (cc_net E) nt fd (asCString nv) (asCString ev) (asCString cv) t of
             None \<Rightarrow> None
           | Some (ok, t1) \<Rightarrow>
               Some ((if ok then new_MPC2CResult kMPC2CResultCode_Accepted ''Captcha validation'' []
                      else new_MPC2CResult kMPC2CResultCode_InternalError ''Internal Error'' []),
                     s\<lparr>m_oRecaptchaTransport := Some (nt, t1)\<rparr>))"
        using assms(1) by (simp add: n(1) e(1) r within_def account_change.same)
    qed
  qed
qed

lemma handle_action_returns:
  assumes "c2_ok s" "faults_ok (cc_faults E)" "strnullORempty_law (cc_T E)"
  shows "returns (huge_id root) (allowed E root s) (handle_action E fd root act s)"
  by (simp add: handle_action_def Let_def add_returns [OF assms] sip_add_returns [OF assms(1,2)]
      caller_add_returns [OF assms(1,2)] activate_returns [OF assms(1,2)] info_returns [OF assms(1,2)]
      delete_returns [OF assms(1,2)] allowed_same [OF assms(1)])

text \<open>The request a document stands for: nothing when it is not a JSON document.\<close>

definition c2c_root :: "c2c_env \<Rightarrow> string \<Rightarrow> json" where
  "c2c_root E doc = (case json_parse (cc_beyond E doc) doc of None \<Rightarrow> nullValue | Some root \<Rightarrow> root)"

lemma handleJsonContent_returns:
  assumes "c2_ok s" "faults_ok (cc_faults E)" "strnullORempty_law (cc_T E)"
  shows "returns (huge_id (c2c_root E doc)) (allowed E (c2c_root E doc) s) (handleJsonContent E fd (Some doc) s)"
proof -
  have db: "m_oDb s \<noteq> None" using assms(1) by (auto simp: c2_ok_def)
  show ?thesis
  proof (cases "json_parse (cc_beyond E doc) doc")
    case (Some root)
    have "returns (huge_id root) (allowed E root s)
        (MP_JSON_GET root ''action'' isString False (\<lambda>action s. with_string action (\<lambda>act. handle_action E fd root act s)) s)"
      by (intro MP_JSON_GET_text allowed_same [OF assms(1)])
        (rule with_string_returns, assumption, rule handle_action_returns [OF assms])
    then show ?thesis using db allowed_same [OF assms(1)] by (simp add: handleJsonContent_def c2c_root_def Some)
  qed (use db allowed_same [OF assms(1)] in \<open>simp add: handleJsonContent_def c2c_root_def\<close>)
qed


section \<open>What the changes keep\<close>

lemma manage_accounts: "manage n d d' \<Longrightarrow> db_account d' = db_account d"
  by (cases rule: manage.cases) (auto simp: sSQL_InsertAccountSip_def sSQL_InsertAccountSipCaller_def
      sSQL_DeleteAccountSip_def sSQL_DeleteAccountSipCaller_def split: if_splits)

lemma registration_addresses:
  "registration e n d d' \<Longrightarrow> db_account_sip d' = db_account_sip d \<and> db_account_sip_caller d' = db_account_sip_caller d"
  by (induction rule: registration.induct)
    (auto simp: sSQL_InsertAccount_def sSQL_UpdateAccountById_def sSQL_DeleteZombies_def split: if_splits)

text \<open>The row an address names, and the rows of the table with other ids.\<close>

lemma account_lookup_iff:
  assumes "accounts_ok d"
  shows "account_lookup d e = Some a \<longleftrightarrow> a \<in> set (db_account d) \<and> acc_pEmail a = Some e"
proof -
  have "distinct (map acc_pEmail (db_account d))" using assms by (simp add: accounts_ok_def db_ok_def)
  then have "find (\<lambda>a. acc_pEmail a = Some e) xs = Some a \<longleftrightarrow> a \<in> set xs \<and> acc_pEmail a = Some e"
    if "distinct (map acc_pEmail xs)" for xs
    using that by (induction xs) (auto simp: rev_image_eqI)
  then show ?thesis
    using assms by (simp add: account_lookup_def sSQL_SelectAccountByEmail_def accounts_ok_def db_ok_def)
qed

text \<open>A change to an account seen through its row: nothing but an activation sets the flag.\<close>

lemma update_activated:
  assumes "accounts_ok d" "account_lookup (snd (sSQL_UpdateAccountById b d)) e = Some a'" "acc_bActivated a'"
    and "account_full b"
  obtains "account_lookup d e = Some a'" | "a' = b" "b \<in> set (db_account (snd (sSQL_UpdateAccountById b d)))"
proof -
  have "accounts_ok (snd (sSQL_UpdateAccountById b d))" using accounts_ok_stmts(2) [OF assms(1,4)] .
  then have "a' \<in> set (db_account (snd (sSQL_UpdateAccountById b d)))" "acc_pEmail a' = Some e"
    using assms(2) account_lookup_iff by auto
  then show ?thesis
    using that account_lookup_iff [OF assms(1)] by (auto simp: sSQL_UpdateAccountById_def split: if_splits)
qed

lemma registration_activated:
  assumes "registration e0 n d d'" "accounts_ok d" "account_lookup d' e = Some a'" "acc_bActivated a'"
  shows "\<exists>a. account_lookup d e = Some a \<and> acc_bActivated a"
  using assms
proof (induction arbitrary: a' rule: registration.induct)
  case (none d)
  then show ?case by blast
next
  case (added d a)
  have "accounts_ok (snd (sSQL_InsertAccount a d))" using accounts_ok_stmts(1) added by blast
  then have "a' \<in> set (db_account (snd (sSQL_InsertAccount a d)))" "acc_pEmail a' = Some e"
    using added.prems(2) account_lookup_iff by auto
  then have "a' \<in> set (db_account d)"
    using added.hyps(4) added.prems(3) by (auto simp: sSQL_InsertAccount_def split: if_splits)
  then show ?case using account_lookup_iff [OF added.prems(1)] \<open>acc_pEmail a' = Some e\<close> added.prems(3) by blast
next
  case (renamed d a t)
  let ?b = "a\<lparr>acc_nEpoch := t, acc_pName := Some n\<rparr>"
  have a: "account_full ?b" "acc_pEmail a = Some e0"
    using lookup_full [OF renamed.prems(1) renamed.hyps] account_lookupD [OF renamed.hyps] by (auto simp: account_full_def)
  show ?case
  proof (rule update_activated [OF renamed.prems a(1)])
    assume "a' = ?b"
    moreover have "acc_pEmail a' = Some e" using account_lookupD [OF renamed.prems(2)] by simp
    ultimately show ?thesis using renamed.hyps a(2) renamed.prems(3) by auto
  qed (use renamed.prems(3) in blast)
next
  case (zombies l d d')
  obtain a where "account_lookup (snd (sSQL_DeleteZombies l d)) e = Some a" "acc_bActivated a"
    using zombies.IH [OF accounts_ok_stmts(3) [OF zombies.prems(1)] zombies.prems(2,3)] by blast
  then show ?case
    using account_lookup_iff [OF zombies.prems(1)] account_lookup_iff [OF accounts_ok_stmts(3) [OF zombies.prems(1)]]
    by (auto simp: sSQL_DeleteZombies_def)
qed


lemma change_activated:
  assumes "account_change T root d d'" "accounts_ok d" "account_lookup d' e = Some a'" "acc_bActivated a'"
    and "\<forall>a. account_lookup d e = Some a \<longrightarrow> \<not> acc_bActivated a"
  shows "\<exists>a c. account_lookup d e = Some a \<and> json_text root ''email'' = Some e \<and> json_text root ''code'' = Some c
    \<and> tsk_striequals T (acc_pActivationCode a) (Some c)"
  using assms(1)
proof (cases rule: account_change.cases)
  case same
  then show ?thesis using assms(3-5) by blast
next
  case (register e1 n)
  then show ?thesis using registration_activated [OF register(3) assms(2-4)] assms(5) by blast
next
  case (activate e1 a c t)
  let ?b = "a\<lparr>acc_nEpoch := t, acc_bActivated := True\<rparr>"
  have a: "account_full ?b" "acc_pEmail a = Some e1"
    using lookup_full [OF assms(2) activate(3)] account_lookupD [OF activate(3)] by (auto simp: account_full_def)
  show ?thesis
  proof (rule update_activated [OF assms(2) assms(3) [unfolded activate(1)] assms(4) a(1)])
    assume "account_lookup d e = Some a'"
    then show ?thesis using assms(4,5) by blast
  next
    assume "a' = ?b"
    then have "e = e1" using account_lookupD [OF assms(3)] a(2) by simp
    then show ?thesis using activate by blast
  qed
next
  case (manage e1 a k)
  then have "account_lookup d' e = account_lookup d e"
    using manage_accounts [OF manage(6)] by (simp add: account_lookup_def sSQL_SelectAccountByEmail_def)
  then show ?thesis using assms(3-5) by simp
qed

lemma change_addresses:
  assumes "account_change T root d d'"
    and "db_account_sip d' \<noteq> db_account_sip d \<or> db_account_sip_caller d' \<noteq> db_account_sip_caller d"
  shows "\<exists>e a k. json_text root ''email'' = Some e \<and> account_lookup d e = Some a \<and> acc_bActivated a
    \<and> json_text root ''auth_token'' = Some k \<and> tsk_strequals T (acc_pAuthToken a) (Some k)
    \<and> manage (acc_nId a) d d'"
  using assms(1)
proof (cases rule: account_change.cases)
  case (register e n)
  then show ?thesis using registration_addresses assms(2) by blast
next
  case (activate e a c t)
  then show ?thesis using assms(2) by (simp add: sSQL_UpdateAccountById_def split: if_splits)
qed (use assms(2) in blast)+

section \<open>Requests on a database that does not fail\<close>

lemma addAccount_no_faults:
  "m_bOpened c \<Longrightarrow> sSQL_InsertAccount a (c_db c) = (SQLITE_DONE, d) \<Longrightarrow> \<exists>c'. addAccount no_faults a c = Some (True, c')"
  by (simp add: addAccount_def no_faults_eval tick_def)

lemma deleteAccountSip_no_faults:
  "m_bOpened c \<Longrightarrow> \<exists>c'. deleteAccountSipById no_faults i c = Some (True, c')"
  by (simp add: deleteAccountSipById_def no_faults_eval tick_def sSQL_DeleteAccountSip_def)

lemma select_no_faults:
  assumes "c2_ok s" "cc_faults E = no_faults" "account_lookup (c2_db s) e = Some a"
  obtains t s1 where "c2_selectAccountByEmail E e s = Some (Some (a\<lparr>acc_nEpoch := t\<rparr>), s1)" "c2_ok s1" "c2_db s1 = c2_db s"
proof -
  obtain c where c: "m_oDb s = Some c" "m_bOpened c" "c_db c = c2_db s" using assms(1) by (auto simp: c2_ok_def c2_db_def)
  have row: "sSQL_SelectAccountByEmail e (c_db c) = Some a" using assms(3) c(3) by (simp add: account_lookup_def)
  obtain y c' where "selectAccountByEmail (cc_T E) (cc_draws E (calls c)) no_faults e c = Some (Some y, c')"
    using selectAccountByEmail_no_faults [OF c(2) row, of "cc_T E" "cc_draws E (calls c)"] by blast
  then obtain s1 where "c2_selectAccountByEmail E e s = Some (Some y, s1)"
    using assms(2) by (simp add: c2_selectAccountByEmail_def on_db_def c(1))
  moreover from this obtain t where "y = a\<lparr>acc_nEpoch := t\<rparr>" "c2_ok s1" "c2_db s1 = c2_db s"
    using c2_select_spec [OF assms(1), of E e] assms(2,3) by auto
  ultimately show ?thesis using that by blast
qed

lemma authorised_granted:
  assumes "c2_ok s" "cc_faults E = no_faults" "strequals_law (cc_T E)" "asString ev = Some e" "asString kv = Some k"
    and "account_lookup (c2_db s) e = Some a" "acc_bActivated a" "acc_pAuthToken a = Some k"
  obtains t s1 where "authorised E ev kv resp cont s = cont (a\<lparr>acc_nEpoch := t\<rparr>) s1" "c2_ok s1" "c2_db s1 = c2_db s"
proof -
  obtain t s1 where *: "c2_selectAccountByEmail E e s = Some (Some (a\<lparr>acc_nEpoch := t\<rparr>), s1)" "c2_ok s1" "c2_db s1 = c2_db s"
    by (rule select_no_faults [OF assms(1,2,6)])
  then have "authorised E ev kv resp cont s = cont (a\<lparr>acc_nEpoch := t\<rparr>) s1"
    using assms(3-5,7,8) by (simp add: authorised_def with_string_def strequals_law_def)
  with * show ?thesis using that by blast
qed

lemma MP_JSON_GET_eq:
  "json_get p name = Some v \<Longrightarrow> test v \<Longrightarrow> \<not> isNull v \<Longrightarrow> MP_JSON_GET p name test null k s = k v s"
  by (cases p) (auto simp: MP_JSON_GET_def json_get_def isObject_def)

lemma json_kinds [simp]:
  "isString (stringValue t)" "\<not> isNull (stringValue t)" "asString (stringValue t) = Some (c_str t)"
  "asCString (stringValue t) = Some (c_str t)"
  by (simp_all add: isString_def isNull_def asString_def asCString_def)

lemma handle_dispatch:
  assumes "c2_ok s" "doc \<noteq> []" "json_parse (cc_beyond E doc) doc = Some root" "json_get root ''action'' = Some (stringValue act)"
  shows "handleJsonContent E fd (Some doc) s = handle_action E fd root (c_str act) s"
  using assms by (auto simp: handleJsonContent_def c2_ok_def MP_JSON_GET_eq with_string_def)

lemma action_names [simp]:
  assumes "striequals_law (cc_T E)"
  shows "handle_action E fd root (c_str ''req_account_sip_delete'') = req_account_sip_delete E root"
    and "handle_action E fd root (c_str ''req_account_add'') = req_account_add E fd root"
  by (rule ext, use assms in \<open>simp add: handle_action_def Let_def striequals_law_def c_str_def ascii_lower_def\<close>)+

lemma zombies_lookup:
  "account_lookup d e = None \<Longrightarrow> account_lookup (snd (sSQL_DeleteZombies l d)) e = None"
  by (auto simp: account_lookup_def sSQL_SelectAccountByEmail_def sSQL_DeleteZombies_def find_None_iff)

lemma zombies_seq: "seq_account (snd (sSQL_DeleteZombies l d)) = seq_account d"
  by (simp add: sSQL_DeleteZombies_def)

text \<open>A mail that waits for the connection.\<close>

lemma sendMail_queued:
  assumes "\<not> ml_connected nt t" "bytes \<noteq> []"
  obtains ok t' where "sendMail E ro nt (Some e) subject (Some bytes) None t = Some (ok, t')"
    "m_oPendingMails t' = m_oPendingMails t @ [new_MPMail (m_pEmail t) (Some e) subject bytes]"
proof (cases "m_bConnectToPending t")
  case True
  then show ?thesis using assms that by (simp add: sendMail_def)
next
  case False
  obtain fd acts where "connectTo E (m_pSmtpHost t) (m_nSmtpPort t) nt = (fd, acts)" by fastforce
  then show ?thesis using assms that False by (simp add: sendMail_def Let_def)
qed

lemma addAccount_stored:
  assumes "c2_ok s" "acc_pEmail a = Some e" "acc_pName a = Some n" "account_full a"
    and "account_lookup (c2_db s) e = None" "seq_account (c2_db s) < max_rowid"
  obtains s' where "on_db (addAccount no_faults a) s = Some (True, s')"
    "account_lookup (c2_db s') e = Some (a\<lparr>acc_nId := seq_account (c2_db s) + 1\<rparr>)"
proof -
  obtain c where c: "m_oDb s = Some c" "m_bOpened c" "c_db c = c2_db s" using assms(1) by (auto simp: c2_ok_def c2_db_def)
  have "\<exists>d. sSQL_InsertAccount a (c2_db s) = (SQLITE_DONE, d)"
    using assms(2,3,5,6) by (auto simp: sSQL_InsertAccount_def account_lookup_def sSQL_SelectAccountByEmail_def find_None_iff)
  then obtain d c' where d: "sSQL_InsertAccount a (c2_db s) = (SQLITE_DONE, d)" "addAccount no_faults a c = Some (True, c')"
    using addAccount_no_faults [OF c(2)] c(3) by metis
  have "account_add a (c2_db s) = (True, c_db c')"
    using addAccount_store [OF faults_ok_none c(2) d(2)] c(3) by simp
  then have "account_lookup (c_db c') e = Some (a\<lparr>acc_nId := seq_account (c2_db s) + 1\<rparr>)"
    using accounts.add_ok [OF _ assms(2)] by (simp add: account_stamp_def)
  then show ?thesis using that d(2) by (simp add: on_db_def c(1) c2_db_def)
qed

lemma delete_request:
  assumes "c2_ok s" "cc_faults E = no_faults" "strequals_law (cc_T E)" "striequals_law (cc_T E)"
    and "doc \<noteq> []" "json_parse (cc_beyond E doc) doc = Some root"
    and "json_get root ''action'' = Some (stringValue ''req_account_sip_delete'')"
    and "json_get root ''email'' = Some (stringValue e)" "json_get root ''auth_token'' = Some (stringValue k)"
    and "json_get root ''id'' = Some i" "isIntegral i"
    and "account_lookup (c2_db s) (c_str e) = Some a" "acc_bActivated a" "acc_pAuthToken a = Some (c_str k)"
  shows "case asInt64 i of
      None \<Rightarrow> handleJsonContent E fd (Some doc) s = None
    | Some w \<Rightarrow> \<exists>r s'. handleJsonContent E fd (Some doc) s = Some (r, s') \<and> res_nCode r = kMPC2CResultCode_Success
        \<and> db_account_sip (c2_db s') = filter (\<lambda>x. sip_nId x \<noteq> sint w) (db_account_sip (c2_db s))"
proof -
  have i: "\<not> isNull i" using assms(11) by (cases i) (simp_all add: isNull_def isIntegral_def)
  let ?resp = "''resp_account_sip_delete''"
  let ?cont = "\<lambda>a s. with_int64 i (\<lambda>n. do {
           (ok, s1) \<leftarrow> on_db (deleteAccountSipById (cc_faults E) n) s;
           (if \<not> ok then Some (new_MPC2CResult kMPC2CResultCode_InternalError ''Failed to delete SIP address'' (kJsonContent ?resp), s1)
            else account_answer E ?resp ''SIP address deleted'' a s1) })"
  obtain t s1 where g: "authorised E (stringValue e) (stringValue k) ?resp ?cont s = ?cont (a\<lparr>acc_nEpoch := t\<rparr>) s1"
    "c2_ok s1" "c2_db s1 = c2_db s"
    by (rule authorised_granted [OF assms(1-3) json_kinds(3) json_kinds(3) assms(12-14), where resp = ?resp and cont = ?cont])
  have h: "handleJsonContent E fd (Some doc) s = ?cont (a\<lparr>acc_nEpoch := t\<rparr>) s1"
    using g(1) assms(8-11) i
    by (simp add: handle_dispatch [OF assms(1,5-7)] action_names(1) [OF assms(4)] req_account_sip_delete_def req_delete_def
        MP_JSON_GET_eq)
  show ?thesis
  proof (cases "asInt64 i")
    case None
    then show ?thesis by (simp add: h with_int64_def)
  next
    case (Some w)
    obtain c where c: "m_oDb s1 = Some c" "m_bOpened c" "c_db c = c2_db s1" using g(2) by (auto simp: c2_ok_def c2_db_def)
    obtain c' where "deleteAccountSipById no_faults (sint w) c = Some (True, c')"
      using deleteAccountSip_no_faults [OF c(2)] by blast
    then obtain s2 where s2: "on_db (deleteAccountSipById no_faults (sint w)) s1 = Some (True, s2)" by (simp add: on_db_def c(1))
    have ok: "c2_ok s2" "c2_db s2 = snd (sSQL_DeleteAccountSip (sint w) (c2_db s))"
      using deleteAccountSip_on_db [OF g(2) faults_ok_none, of "sint w"] s2 g(3) by (metis fst_conv option.inject snd_conv prod.inject)+
    have "acc_nId (a\<lparr>acc_nEpoch := t\<rparr>) \<noteq> MPDB_ACCOUNT_INVALID_ID"
      using lookup_full [OF c2_ok_accounts [OF assms(1)] assms(12)] by (simp add: MPDB_ACCOUNT_INVALID_ID_def)
    then obtain d s3 where s3: "serializeAccount E ?resp (a\<lparr>acc_nEpoch := t\<rparr>) s2 = Some (d, s3)" "c2_db s3 = c2_db s2"
      using serialize_spec [OF ok(1), of E _ ?resp] assms(2) by fastforce
    have "handleJsonContent E fd (Some doc) s =
        Some (new_MPC2CResult kMPC2CResultCode_Success ''SIP address deleted'' d, s3)"
      using s2 s3(1) assms(2) Some by (simp add: h with_int64_def account_answer_def)
    then show ?thesis using ok(2) s3(2) Some by (simp add: new_MPC2CResult_def sSQL_DeleteAccountSip_def)
  qed
qed


lemma updateAccount_no_faults:
  "m_bOpened c \<Longrightarrow> sSQL_UpdateAccountById a (c_db c) = (SQLITE_DONE, d) \<Longrightarrow> \<exists>c'. updateAccount no_faults a c = Some (True, c')"
  by (simp add: updateAccount_def no_faults_eval tick_def)

lemma update_flag:
  assumes "accounts_ok d" "account_lookup d e = Some a"
  shows "account_lookup (snd (sSQL_UpdateAccountById (a\<lparr>acc_nEpoch := t, acc_bActivated := True\<rparr>) d)) e
      = Some (a\<lparr>acc_nEpoch := t, acc_bActivated := True\<rparr>)"
    and "fst (sSQL_UpdateAccountById (a\<lparr>acc_nEpoch := t, acc_bActivated := True\<rparr>) d) = SQLITE_DONE"
proof -
  let ?a = "a\<lparr>acc_nEpoch := t, acc_bActivated := True\<rparr>"
  have a: "a \<in> set (db_account d)" "acc_pEmail a = Some e" "account_full a"
    using assms account_lookupD lookup_full by blast+
  obtain n where name: "acc_pName a = Some n" using a(1) assms(1) by (auto simp: accounts_ok_def db_ok_def)
  have unique: "b = a" if "b \<in> set (db_account d)" "acc_pEmail b = Some e" for b
    using that account_lookup_iff [OF assms(1)] assms(2) by (metis option.inject)
  then have "\<not> (\<exists>b \<in> set (db_account d). acc_nId b \<noteq> acc_nId a \<and> acc_pEmail b = Some e)" by blast
  then have upd: "sSQL_UpdateAccountById ?a d = (SQLITE_DONE, d\<lparr>db_account := map (\<lambda>b. if acc_nId b = acc_nId ?a then ?a else b) (db_account d)\<rparr>)"
    using a(2) name by (simp add: sSQL_UpdateAccountById_def del: bex_simps ball_simps)
  then show "fst (sSQL_UpdateAccountById ?a d) = SQLITE_DONE" by simp
  have "accounts_ok (snd (sSQL_UpdateAccountById ?a d))"
    using a(3) by (intro accounts_ok_stmts(2) [OF assms(1)]) (simp add: account_full_def)
  then show "account_lookup (snd (sSQL_UpdateAccountById ?a d)) e = Some ?a"
    using a(1,2) by (subst account_lookup_iff) (auto simp: upd)
qed

lemma activate_request:
  assumes "c2_ok s" "cc_faults E = no_faults" "striequals_law (cc_T E)"
    and "doc \<noteq> []" "json_parse (cc_beyond E doc) doc = Some root"
    and "json_get root ''action'' = Some (stringValue ''req_account_activate'')"
    and "json_get root ''email'' = Some (stringValue e)" "json_get root ''code'' = Some (stringValue c)"
    and "account_lookup (c2_db s) (c_str e) = Some a" "\<not> acc_bActivated a"
    and "acc_pActivationCode a = Some code" "map ascii_lower code = map ascii_lower (c_str c)"
  shows "\<exists>r s' t. handleJsonContent E fd (Some doc) s = Some (r, s') \<and> res_nCode r = kMPC2CResultCode_Success
    \<and> account_lookup (c2_db s') (c_str e) = Some (a\<lparr>acc_nEpoch := t, acc_bActivated := True\<rparr>)"
proof -
  let ?e = "c_str e"
  obtain t s1 where s1: "c2_selectAccountByEmail E ?e s = Some (Some (a\<lparr>acc_nEpoch := t\<rparr>), s1)" "c2_ok s1" "c2_db s1 = c2_db s"
    by (rule select_no_faults [OF assms(1,2,9)])
  let ?a = "a\<lparr>acc_nEpoch := t, acc_bActivated := True\<rparr>"
  note upd = update_flag [OF c2_ok_accounts [OF assms(1)] assms(9), of t]
  have full: "account_full ?a" using lookup_full [OF c2_ok_accounts [OF assms(1)] assms(9)] by (simp add: account_full_def)
  obtain cn where cn: "m_oDb s1 = Some cn" "m_bOpened cn" "c_db cn = c2_db s1" using s1(2) by (auto simp: c2_ok_def c2_db_def)
  obtain c' where c': "updateAccount no_faults ?a cn = Some (True, c')"
    using updateAccount_no_faults [OF cn(2), of ?a] upd(2) cn(3) s1(3) by (metis prod.collapse)
  then have s2: "on_db (updateAccount no_faults ?a) s1 = Some (True, s1\<lparr>m_oDb := Some c'\<rparr>)" by (simp add: on_db_def cn(1))
  have "sSQL_UpdateAccountById ?a (c_db cn) = (SQLITE_DONE, c_db c')"
    using updateAccount_spec [OF faults_ok_none cn(2), of ?a] c' by auto
  then have "account_lookup (c2_db (s1\<lparr>m_oDb := Some c'\<rparr>)) ?e = Some ?a"
    using upd(1) cn(3) s1(3) by (simp add: c2_db_def)
  moreover have "handle_action E fd root (c_str ''req_account_activate'') s = req_account_activate E root s"
    using assms(3) by (simp add: handle_action_def Let_def striequals_law_def c_str_def ascii_lower_def)
  then have "handleJsonContent E fd (Some doc) s = Some (new_MPC2CResult kMPC2CResultCode_Success ''Account activated''
      (kJsonContent ''resp_account_activate''), s1\<lparr>m_oDb := Some c'\<rparr>)"
    using s1(1) s2 assms(2,3,7,8,10-12)
    by (simp add: handle_dispatch [OF assms(1,4-6)] req_account_activate_def MP_JSON_GET_eq with_string_def striequals_law_def)
  ultimately show ?thesis by (auto simp: new_MPC2CResult_def)
qed

section \<open>Concrete requests\<close>

definition jtext :: "string \<Rightarrow> string" where "jtext t = [dquote] @ t @ [dquote]"

definition jdoc :: "(string \<times> string) list \<Rightarrow> string" where
  "jdoc kvs = ''{'' @ tl (concat (map (\<lambda>(k, v). '','' @ jtext k @ '':'' @ v) kvs)) @ ''}''"

definition sample_c2c_env :: c2c_env where
  "sample_c2c_env = \<lparr>cc_version = ''2.7.0'', cc_net = sample_net_env, cc_H = http_ref (\<lambda>s. None), cc_faults = no_faults,
     cc_now = 10, cc_draws = (\<lambda>n. \<lparr>draw_rand = \<lambda>_. 0, draw_now = \<lambda>_. 0, draw_uuid = ''u'', draw_epoch = 9\<rparr>),
     cc_realloc = (\<lambda>n. True), cc_beyond = (\<lambda>s. CHR 0x00)\<rparr>"

text \<open>One account, activated or not, and an address of another one.\<close>

definition sample_c2c :: "bool \<Rightarrow> MPC2CTransport" where
  "sample_c2c active = \<lparr>m_oDb = Some (fresh_conn (empty_db\<lparr>db_account := [sample_account\<lparr>acc_nId := 1, acc_bActivated := active\<rparr>],
       db_account_sip := [new_MPDbAccountSip 4 (Some ''a'') 7], seq_account := 1, seq_account_sip := 4\<rparr>)),
     m_oMailTransport = Some (sample_transport, sample_mailer), m_oRecaptchaTransport = None, s_nAccountsCount = 5, c2_sent = []\<rparr>"

definition delete_doc :: "string \<Rightarrow> string" where
  "delete_doc n = jdoc [(''action'', jtext ''req_account_sip_delete''), (''email'', jtext ''e''), (''auth_token'', jtext ''t''), (''id'', n)]"

definition activate_doc :: string where
  "activate_doc = jdoc [(''action'', jtext ''req_account_activate''), (''email'', jtext ''e''), (''code'', jtext ''C'')]"

definition add_doc :: string where
  "add_doc = jdoc [(''action'', jtext ''req_account_add''), (''name'', jtext ''Bob''), (''email'', jtext ''b'')]"

lemma doc_nonempty [simp]: "jdoc kvs \<noteq> []"
  by (simp add: jdoc_def)

lemma delete_doc_parsed:
  "json_parse (CHR 0x00) (delete_doc ''4'') = Some (objectValue [(''action'', stringValue ''req_account_sip_delete''),
     (''auth_token'', stringValue ''t''), (''email'', stringValue ''e''), (''id'', intValue 4)])"
  "json_parse (CHR 0x00) (delete_doc ''18446744073709551615'') = Some (objectValue [(''action'', stringValue ''req_account_sip_delete''),
     (''auth_token'', stringValue ''t''), (''email'', stringValue ''e''), (''id'', uintValue 18446744073709551615)])"
  by code_simp+

lemma add_doc_parsed:
  "json_parse (CHR 0x00) add_doc = Some (objectValue [(''action'', stringValue ''req_account_add''),
     (''email'', stringValue ''b''), (''name'', stringValue ''Bob'')])"
  by code_simp

lemma activate_doc_parsed:
  "json_parse (CHR 0x00) activate_doc = Some (objectValue [(''action'', stringValue ''req_account_activate''),
     (''code'', stringValue ''C''), (''email'', stringValue ''e'')])"
  by code_simp

lemma sample_laws [simp]:
  "strequals_law (cc_T sample_c2c_env)" "striequals_law (cc_T sample_c2c_env)" "strnullORempty_law (cc_T sample_c2c_env)"
  "cc_faults sample_c2c_env = no_faults" "cc_beyond sample_c2c_env doc = CHR 0x00"
  by (simp_all add: sample_c2c_env_def sample_net_env_def tsk_ref_laws)

lemma sample_db:
  "c2_db (sample_c2c active) = empty_db\<lparr>db_account := [sample_account\<lparr>acc_nId := 1, acc_bActivated := active\<rparr>],
     db_account_sip := [new_MPDbAccountSip 4 (Some ''a'') 7], seq_account := 1, seq_account_sip := 4\<rparr>"
  by (simp add: sample_c2c_def c2_db_def fresh_conn_def)

lemma sample_ok [simp]: "c2_ok (sample_c2c active)"
  by (simp add: c2_ok_def sample_c2c_def fresh_conn_def accounts_ok_def db_ok_def ids_ok_def empty_db_def max_rowid_def
      sample_account_def account_full_def new_MPDbAccountSip_def)

lemma sample_lookup:
  "account_lookup (c2_db (sample_c2c active)) ''e'' = Some (sample_account\<lparr>acc_nId := 1, acc_bActivated := active\<rparr>)"
  by (simp add: account_lookup_def sSQL_SelectAccountByEmail_def sample_db sample_account_def)

text \<open>The lookups of members, for the simplifier.\<close>

lemma json_get_object: "json_get (objectValue m) k = Some (case map_find m (c_str k) of None \<Rightarrow> nullValue | Some v \<Rightarrow> v)"
  by (simp add: json_get_def)

lemmas sample_json_eval = json_get_object map_find_def c_str_def json_text_def isIntegral_def asInt64_def

lemma sample_delete:
  fixes n :: json
  defines "root \<equiv> objectValue [(''action'', stringValue ''req_account_sip_delete''), (''auth_token'', stringValue ''t''),
     (''email'', stringValue ''e''), (''id'', n)]"
  shows "json_get root ''action'' = Some (stringValue ''req_account_sip_delete'')" "json_get root ''email'' = Some (stringValue ''e'')"
    "json_get root ''auth_token'' = Some (stringValue ''t'')" "json_get root ''id'' = Some n"
    "json_text root ''auth_token'' = Some ''t''" "json_text root ''email'' = Some ''e''"
  by (simp_all add: root_def sample_json_eval)

lemma sample_active:
  "acc_bActivated (sample_account\<lparr>acc_nId := 1, acc_bActivated := True\<rparr>)"
  "acc_pAuthToken (sample_account\<lparr>acc_nId := 1, acc_bActivated := True\<rparr>) = Some ''t''"
  by (simp_all add: sample_account_def)

lemma sample_c_str: "c_str ''e'' = ''e''" "c_str ''t'' = ''t''" "c_str ''C'' = ''C''" "c_str ''b'' = ''b''" "c_str ''Bob'' = ''Bob''"
  by (simp_all add: c_str_def)

lemma sample_ids: "isIntegral (intValue 4)" "asInt64 (intValue 4) = Some 4" "sint (4 :: 64 word) = 4"
  "isIntegral (uintValue 18446744073709551615)" "asInt64 (uintValue 18446744073709551615) = None"
  by (simp_all add: isIntegral_def asInt64_def)

lemma sample_deleted:
  "\<exists>r s'. handleJsonContent sample_c2c_env 3 (Some (delete_doc ''4'')) (sample_c2c True) = Some (r, s') \<and> db_account_sip (c2_db s') = []"
proof -
  have ne: "delete_doc ''4'' \<noteq> []" by (simp add: delete_doc_def)
  note root = delete_doc_parsed(1) [folded sample_laws(5) [of "delete_doc ''4''"]]
  show ?thesis
    using delete_request [OF sample_ok sample_laws(4,1,2) ne root sample_delete(1-4) sample_ids(1), unfolded sample_c_str,
        OF sample_lookup sample_active, of 3]
    by (auto simp: sample_ids sample_db new_MPDbAccountSip_def)
qed

section \<open>Properties\<close>

text \<open>
  C4. Every JSON request, whatever its text and whatever calls into the database engine fail on the
  way, implements the abstract description of the service: it returns with an answer, keeps the tables
  well formed, and changes the database only by a registration, an activation with the code, or the
  management of addresses with the token; the one case in which it does not return, the process being
  aborted by an exception nobody catches, is a request whose id is an integer beyond 2 ^ 63 - 1.
\<close>

theorem requests_refine_account_changes:
  assumes "c2_ok s" "faults_ok (cc_faults E)" "strnullORempty_law (cc_T E)"
  shows "case handleJsonContent E fd (Some doc) s of
      None \<Rightarrow> huge_id (c2c_root E doc)
    | Some (r, s') \<Rightarrow> c2_ok s' \<and> account_change (cc_T E) (c2c_root E doc) (c2_db s) (c2_db s')"
  using handleJsonContent_returns [OF assms, of doc fd] by (auto simp: returns_def within_def split: option.splits)

text \<open>
  C6. An account becomes activated only by a request that names its e-mail address and carries its
  activation code, compared without regard to case: no registration, re-registration under the same
  address, or management request, activates an account or replaces an activated one by an other.
\<close>

theorem activation_needs_code:
  assumes "c2_ok s" "faults_ok (cc_faults E)" "strnullORempty_law (cc_T E)" "striequals_law (cc_T E)"
    and "handleJsonContent E fd (Some doc) s = Some (r, s')"
    and "account_lookup (c2_db s') e = Some a'" "acc_bActivated a'"
    and "\<forall>a. account_lookup (c2_db s) e = Some a \<longrightarrow> \<not> acc_bActivated a"
  shows "json_text (c2c_root E doc) ''email'' = Some e
    \<and> (\<exists>a c code. account_lookup (c2_db s) e = Some a \<and> acc_pActivationCode a = Some code
        \<and> json_text (c2c_root E doc) ''code'' = Some c \<and> map ascii_lower code = map ascii_lower c)"
proof -
  have "account_change (cc_T E) (c2c_root E doc) (c2_db s) (c2_db s')"
    using handleJsonContent_returns [OF assms(1-3), of doc fd] assms(5) by (simp add: within_def)
  from change_activated [OF this c2_ok_accounts [OF assms(1)] assms(6-8)] show ?thesis
    using assms(4) by (auto simp: striequals_law_def)
qed

text \<open>
  C5. The SIP addresses and the callers of the accounts change only by a request that names an
  activated account and carries its authentication token exactly; what it adds belongs to that account.
\<close>

theorem addresses_need_token:
  assumes "c2_ok s" "faults_ok (cc_faults E)" "strnullORempty_law (cc_T E)" "strequals_law (cc_T E)"
    and "handleJsonContent E fd (Some doc) s = Some (r, s')"
    and "db_account_sip (c2_db s') \<noteq> db_account_sip (c2_db s)
       \<or> db_account_sip_caller (c2_db s') \<noteq> db_account_sip_caller (c2_db s)"
  shows "\<exists>e a. json_text (c2c_root E doc) ''email'' = Some e \<and> account_lookup (c2_db s) e = Some a
    \<and> acc_bActivated a \<and> json_text (c2c_root E doc) ''auth_token'' = acc_pAuthToken a
    \<and> (\<forall>x \<in> set (db_account_sip (c2_db s')). x \<notin> set (db_account_sip (c2_db s)) \<longrightarrow> sip_nAccountId x = acc_nId a)"
proof -
  have "account_change (cc_T E) (c2c_root E doc) (c2_db s) (c2_db s')"
    using handleJsonContent_returns [OF assms(1-3), of doc fd] assms(5) by (simp add: within_def)
  from change_addresses [OF this assms(6)] obtain e a k where
    *: "json_text (c2c_root E doc) ''email'' = Some e" "account_lookup (c2_db s) e = Some a" "acc_bActivated a"
      "json_text (c2c_root E doc) ''auth_token'' = Some k" "tsk_strequals (cc_T E) (acc_pAuthToken a) (Some k)"
      "manage (acc_nId a) (c2_db s) (c2_db s')" by blast
  from *(6) have "\<forall>x \<in> set (db_account_sip (c2_db s')). x \<notin> set (db_account_sip (c2_db s)) \<longrightarrow> sip_nAccountId x = acc_nId a"
    by (cases rule: manage.cases) (auto simp: sSQL_InsertAccountSip_def sSQL_InsertAccountSipCaller_def
        sSQL_DeleteAccountSip_def sSQL_DeleteAccountSipCaller_def split: if_splits)
  with * show ?thesis using assms(4) by (auto simp: strequals_law_def)
qed


text \<open>
  A deletion request of an activated account with its token acts on any address, whoever owns it:
  every row with the id of the request is gone and no other, and the answer is a success; and the
  process aborts when the id is beyond 2 ^ 63 - 1.
\<close>

theorem any_address_deleted:
  assumes "c2_ok s" "cc_faults E = no_faults" "strequals_law (cc_T E)" "striequals_law (cc_T E)"
    and "doc \<noteq> []" "json_parse (cc_beyond E doc) doc = Some root"
    and "json_get root ''action'' = Some (stringValue ''req_account_sip_delete'')"
    and "json_get root ''email'' = Some (stringValue e)" "json_get root ''auth_token'' = Some (stringValue k)"
    and "json_get root ''id'' = Some i" "isIntegral i"
    and "account_lookup (c2_db s) (c_str e) = Some a" "acc_bActivated a" "acc_pAuthToken a = Some (c_str k)"
  shows "case asInt64 i of
      None \<Rightarrow> handleJsonContent E fd (Some doc) s = None
    | Some w \<Rightarrow> \<exists>r s'. handleJsonContent E fd (Some doc) s = Some (r, s') \<and> res_nCode r = kMPC2CResultCode_Success
        \<and> db_account_sip (c2_db s') = filter (\<lambda>x. sip_nId x \<noteq> sint w) (db_account_sip (c2_db s))"
  by (rule delete_request [OF assms])

text \<open>
  C19. The registration of a new address, with no reCAPTCHA service and nothing failing, succeeds: the
  account is stored with the next row id, under the given name, not activated, and the mail that is
  queued for its address carries the activation code and the password of exactly that account.
\<close>

theorem registration_outcome:
  assumes "c2_ok s" "cc_faults E = no_faults" "striequals_law (cc_T E)"
    and "doc \<noteq> []" "json_parse (cc_beyond E doc) doc = Some root"
    and "json_get root ''action'' = Some (stringValue ''req_account_add'')"
    and "json_get root ''name'' = Some (stringValue n)" "json_get root ''email'' = Some (stringValue e)"
    and "m_oRecaptchaTransport s = None" "m_oMailTransport s = Some (nt, t)" "\<not> ml_connected nt t"
    and "account_lookup (c2_db s) (c_str e) = None" "seq_account (c2_db s) < max_rowid"
  shows "\<exists>r s' a code pw t'. handleJsonContent E fd (Some doc) s = Some (r, s')
    \<and> res_nCode r = kMPC2CResultCode_Success
    \<and> account_lookup (c2_db s') (c_str e) = Some a \<and> acc_pName a = Some (c_str n) \<and> \<not> acc_bActivated a
    \<and> acc_nId a = seq_account (c2_db s) + 1 \<and> acc_pActivationCode a = Some code \<and> acc_pPassword a = Some pw
    \<and> m_oMailTransport s' = Some (nt, t')
    \<and> m_oPendingMails t' = m_oPendingMails t @ [new_MPMail (m_pEmail t) (Some (c_str e))
        (Some ''Your click2dial.org registration info'')
        (activation_mail (c_str n) code (tsk_base64_encode (cc_T E) (c_str e)) pw)]"
proof -
  let ?e = "c_str e" and ?n = "c_str n"
  have F: "faults_ok (cc_faults E)" by (simp only: assms(2) faults_ok_none)
  obtain z s1 where s1: "kill_zombies E s = Some (z, s1)" "c2_ok s1" "m_oMailTransport s1 = m_oMailTransport s"
    and db1: "c2_db s1 = c2_db s \<or> (\<exists>l. c2_db s1 = snd (sSQL_DeleteZombies l (c2_db s)))"
    by (rule kill_zombies_spec [OF assms(1) F])
  have new: "account_lookup (c2_db s1) ?e = None" "seq_account (c2_db s1) = seq_account (c2_db s)"
    using db1 assms(12) zombies_lookup zombies_seq by auto
  let ?s1 = "s1\<lparr>s_nAccountsCount := s_nAccountsCount s1 + 1\<rparr>"
  obtain s2 where s2: "c2_selectAccountByEmail E ?e ?s1 = Some (None, s2)" "c2_ok s2" "c2_db s2 = c2_db s1"
    using c2_select_spec [of ?s1 E ?e] s1(2) F new(1) by auto
  have m2: "m_oMailTransport s2 = Some (nt, t)"
    using on_db_mail s2(1) s1(3) assms(10) by (fastforce simp: c2_selectAccountByEmail_def)
  obtain a where a: "new_MPDbAccount (cc_T E) (cc_draws E (case m_oDb s2 of None \<Rightarrow> 0 | Some c \<Rightarrow> calls c)) MPDB_ACCOUNT_INVALID_ID
      WEBRTC2SIP_C2C_SOFT_VERSION WEBRTC2SIP_C2C_DATABASE_VERSION (Some ?n) (Some ?e) None None False None 0 = Some a"
    using new_MPDbAccount_ok by blast
  note f = new_MPDbAccount_fields [OF a]
  have "account_full a" using f by (simp add: account_full_def)
  then obtain s3 where s3: "on_db (addAccount no_faults a) s2 = Some (True, s3)"
    "account_lookup (c2_db s3) ?e = Some (a\<lparr>acc_nId := seq_account (c2_db s) + 1\<rparr>)"
    using addAccount_stored [OF s2(2) f(5) f(4)] new s2(3) assms(13) by metis
  have m3: "m_oMailTransport s3 = Some (nt, t)" using on_db_mail [OF s3(1)] m2 by simp
  obtain code pw where cp: "acc_pActivationCode a = Some code" "acc_pPassword a = Some pw" using f by blast
  let ?text = "activation_mail ?n code (tsk_base64_encode (cc_T E) ?e) pw"
  have "?text \<noteq> []" by (simp add: activation_mail_def)
  then obtain ok t' where t': "sendMail (cc_net E) (cc_realloc E) nt (Some ?e) (Some ''Your click2dial.org registration info'')
      (Some ?text) None t = Some (ok, t')"
    "m_oPendingMails t' = m_oPendingMails t @ [new_MPMail (m_pEmail t) (Some ?e) (Some ''Your click2dial.org registration info'') ?text]"
    by (rule sendMail_queued [OF assms(11)])
  have "mailed_result E a ''Account added'' s3 = Some (new_MPC2CResult kMPC2CResultCode_Success ''Account added''
      (kJsonContent ''resp_account_add''), s3\<lparr>m_oMailTransport := Some (nt, t')\<rparr>)"
    by (simp add: mailed_result_def sendActivationMail_def f(4,5) cp m3 t'(1))
  then have "handleJsonContent E fd (Some doc) s = Some (new_MPC2CResult kMPC2CResultCode_Success ''Account added''
      (kJsonContent ''resp_account_add''), s3\<lparr>m_oMailTransport := Some (nt, t')\<rparr>)"
    using s1(1) s2(1) s3(1) assms(2,7-9)
    by (simp add: handle_dispatch [OF assms(1,4-6)] action_names(2) [OF assms(3)] req_account_add_def MP_JSON_GET_eq
        addAccountAndSendActivationMail_def a)
  moreover have "account_lookup (c2_db (s3\<lparr>m_oMailTransport := Some (nt, t')\<rparr>)) ?e = Some (a\<lparr>acc_nId := seq_account (c2_db s) + 1\<rparr>)"
    using s3(2) by simp
  ultimately show ?thesis
    using t'(2) f(4,6) cp
    by (intro exI [of _ "new_MPC2CResult kMPC2CResultCode_Success ''Account added'' (kJsonContent ''resp_account_add'')"]
          exI [of _ "s3\<lparr>m_oMailTransport := Some (nt, t')\<rparr>"] exI [of _ "a\<lparr>acc_nId := seq_account (c2_db s) + 1\<rparr>"]
          exI [of _ code] exI [of _ pw] exI [of _ t']) (simp add: new_MPC2CResult_def)
qed


section \<open>Witnesses\<close>

theorem requests_refine_account_changes_witness:
  "case handleJsonContent sample_c2c_env 3 (Some (delete_doc ''4'')) (sample_c2c True) of
      None \<Rightarrow> False
    | Some (r, s') \<Rightarrow> c2_ok s' \<and> account_change (cc_T sample_c2c_env) (c2c_root sample_c2c_env (delete_doc ''4''))
         (c2_db (sample_c2c True)) (c2_db s')"
proof -
  have "c2c_root sample_c2c_env (delete_doc ''4'') = objectValue [(''action'', stringValue ''req_account_sip_delete''),
     (''auth_token'', stringValue ''t''), (''email'', stringValue ''e''), (''id'', intValue 4)]"
    by (simp add: c2c_root_def delete_doc_parsed(1))
  then have "\<not> huge_id (c2c_root sample_c2c_env (delete_doc ''4''))"
    by (simp add: huge_id_def sample_json_eval)
  then show ?thesis
    using requests_refine_account_changes [of "sample_c2c True" sample_c2c_env "delete_doc ''4''" 3]
    by (auto split: option.splits)
qed

theorem activation_needs_code_witness:
  "json_text (c2c_root sample_c2c_env activate_doc) ''email'' = Some ''e''
    \<and> (\<exists>c. json_text (c2c_root sample_c2c_env activate_doc) ''code'' = Some c \<and> map ascii_lower ''c'' = map ascii_lower c)"
proof -
  let ?a = "sample_account\<lparr>acc_nId := 1, acc_bActivated := False\<rparr>"
  let ?root = "objectValue [(''action'', stringValue ''req_account_activate''), (''code'', stringValue ''C''), (''email'', stringValue ''e'')]"
  have root: "json_parse (cc_beyond sample_c2c_env activate_doc) activate_doc = Some ?root" by (simp add: activate_doc_parsed)
  have f: "json_get ?root ''action'' = Some (stringValue ''req_account_activate'')"
    "json_get ?root ''email'' = Some (stringValue ''e'')" "json_get ?root ''code'' = Some (stringValue ''C'')"
    by (simp_all add: sample_json_eval)
  have c: "c_str ''e'' = ''e''" "c_str ''C'' = ''C''" by (simp_all add: c_str_def)
  have a: "\<not> acc_bActivated ?a" "acc_pActivationCode ?a = Some ''c''" by (simp_all add: sample_account_def)
  have "activate_doc \<noteq> []" "map ascii_lower ''c'' = map ascii_lower ''C''" by (simp add: activate_doc_def, code_simp)
  from activate_request [OF sample_ok sample_laws(4,2) this(1) root f, unfolded c, OF sample_lookup a this(2), of 3]
  obtain r s' t where h: "handleJsonContent sample_c2c_env 3 (Some activate_doc) (sample_c2c False) = Some (r, s')"
    "account_lookup (c2_db s') ''e'' = Some (?a\<lparr>acc_nEpoch := t, acc_bActivated := True\<rparr>)" by blast
  have "faults_ok (cc_faults sample_c2c_env)" by (simp only: sample_laws faults_ok_none)
  from activation_needs_code [OF sample_ok this sample_laws(3,2) h] show ?thesis
    using a(1) by (auto simp: sample_lookup sample_account_def)
qed

theorem addresses_need_token_witness:
  "\<exists>a. account_lookup (c2_db (sample_c2c True)) ''e'' = Some a \<and> acc_bActivated a
     \<and> json_text (c2c_root sample_c2c_env (delete_doc ''4'')) ''auth_token'' = acc_pAuthToken a"
proof -
  obtain r s' where h: "handleJsonContent sample_c2c_env 3 (Some (delete_doc ''4'')) (sample_c2c True) = Some (r, s')"
    "db_account_sip (c2_db s') = []" using sample_deleted by blast
  have F: "faults_ok (cc_faults sample_c2c_env)" by (simp only: sample_laws faults_ok_none)
  have "db_account_sip (c2_db s') \<noteq> db_account_sip (c2_db (sample_c2c True))" using h(2) by (simp add: sample_db)
  then show ?thesis
    using addresses_need_token [OF sample_ok F sample_laws(3,1) h(1)]
    by (auto simp: c2c_root_def delete_doc_parsed sample_delete)
qed

theorem any_address_deleted_witness:
  "(\<exists>r s'. handleJsonContent sample_c2c_env 3 (Some (delete_doc ''4'')) (sample_c2c True) = Some (r, s') \<and> db_account_sip (c2_db s') = [])
     \<and> handleJsonContent sample_c2c_env 3 (Some (delete_doc ''18446744073709551615'')) (sample_c2c True) = None"
proof -
  have ne: "delete_doc n \<noteq> []" for n by (simp add: delete_doc_def)
  note root = delete_doc_parsed(1) [folded sample_laws(5) [of "delete_doc ''4''"]]
    and root' = delete_doc_parsed(2) [folded sample_laws(5) [of "delete_doc ''18446744073709551615''"]]
  have "\<exists>r s'. handleJsonContent sample_c2c_env 3 (Some (delete_doc ''4'')) (sample_c2c True) = Some (r, s') \<and> db_account_sip (c2_db s') = []"
    using any_address_deleted [OF sample_ok sample_laws(4,1,2) ne root sample_delete(1-4) sample_ids(1), unfolded sample_c_str,
        OF sample_lookup sample_active, of 3]
    by (auto simp: sample_ids sample_db new_MPDbAccountSip_def)
  moreover have "handleJsonContent sample_c2c_env 3 (Some (delete_doc ''18446744073709551615'')) (sample_c2c True) = None"
    using any_address_deleted [OF sample_ok sample_laws(4,1,2) ne root' sample_delete(1-4) sample_ids(4), unfolded sample_c_str,
        OF sample_lookup sample_active, of 3]
    by (simp add: sample_ids)
  ultimately show ?thesis ..
qed

theorem registration_outcome_witness:
  "\<exists>r s' a. handleJsonContent sample_c2c_env 3 (Some add_doc) (sample_c2c True) = Some (r, s')
     \<and> account_lookup (c2_db s') ''b'' = Some a \<and> acc_nId a = 2 \<and> \<not> acc_bActivated a"
proof -
  have "\<not> ml_connected sample_transport sample_mailer"
    by (simp add: ml_connected_def sample_mailer_def net_isConnected_def getPeerByFd_def sample_transport_def map_find_def)
  moreover have "account_lookup (c2_db (sample_c2c True)) ''b'' = None" "seq_account (c2_db (sample_c2c True)) = 1"
    by (simp_all add: account_lookup_def sSQL_SelectAccountByEmail_def sample_db sample_account_def)
  moreover have "json_parse (cc_beyond sample_c2c_env add_doc) add_doc = Some (objectValue [(''action'', stringValue ''req_account_add''),
     (''email'', stringValue ''b''), (''name'', stringValue ''Bob'')])" by (simp add: add_doc_parsed)
  moreover have "m_oRecaptchaTransport (sample_c2c True) = None" "m_oMailTransport (sample_c2c True) = Some (sample_transport, sample_mailer)"
    by (simp_all add: sample_c2c_def)
  ultimately show ?thesis
    using registration_outcome [of "sample_c2c True" sample_c2c_env add_doc _ "''Bob''" "''b''" sample_transport sample_mailer 3]
    by (auto simp: add_doc_def sample_json_eval max_rowid_def)
qed

end
