(* ===== verification/C2CHttp.thy ===== *)
theory C2CHttp
  imports C2CAccess "HOL-Library.Sublist"
begin

text \<open>
  The HTTP side of the click-to-call service (\<open>MPC2CTransportCallback\<close> in \<open>mp_c2c.cc\<close>): the loop that
  takes complete requests out of the stream buffer, the answers to OPTIONS and POST, and the service as
  a callback of the stream transport.
\<close>

section \<open>Answers\<close>

definition kHttpOptionsResponse :: "string \<Rightarrow> string" where
  "kHttpOptionsResponse version =
     ''HTTP/1.1 200 OK'' @ crlf @ ''Server: webrtc2sip Media Server '' @ version @ crlf
     @ ''Access-Control-Allow-Origin: *'' @ crlf
     @ ''Access-Control-Allow-Headers: Content-Type,Connection'' @ crlf
     @ ''Access-Control-Allow-Methods: POST, GET, OPTIONS'' @ crlf
     @ ''Content-Length: 0'' @ crlf @ ''Content-Type: application/json'' @ crlf @ ''Connection: Close'' @ crlf @ crlf"

definition getHttpContentType :: "http_message option \<Rightarrow> cstr" where
  "getHttpContentType m = (case m of None \<Rightarrow> None | Some h \<Rightarrow> hm_Content_Type h)"

definition isJsonContentType :: "tsk_api \<Rightarrow> http_message \<Rightarrow> bool" where
  "isJsonContentType T m =
     (case getHttpContentType (Some m) of
        None \<Rightarrow> False
      | Some t \<Rightarrow> tsk_striequals T (Some ''application/json'') (Some t))"

text \<open>
  A complete message: OPTIONS is answered, POST is checked and given to the JSON handler, anything else
  is dropped. None is an abort of the JSON handler, or a read behind the content.
\<close>

definition handle_message :: "c2c_env \<Rightarrow> MPNetFd \<Rightarrow> http_message \<Rightarrow> MPC2CTransport \<Rightarrow> MPC2CTransport option" where
  "handle_message E fd m s =
     (if \<not> THTTP_MESSAGE_IS_REQUEST m then Some s
      else if tsk_striequals (cc_T E) (hm_method m) (Some ''OPTIONS'')
      then Some (s\<lparr>c2_sent := c2_sent s @ snd (net_sendData (cc_net E) fd (Some (kHttpOptionsResponse (cc_version E))))\<rparr>)
      else if tsk_striequals (cc_T E) (hm_method m) (Some ''POST'')
      then (if \<not> isJsonContentType (cc_T E) m
            then Some (snd (sendResult E fd (new_MPC2CResult kMPC2CResultCode_InvalidData ''Invalid content-type'' []) s))
            else case hm_Content m of
              None \<Rightarrow> Some (snd (sendResult E fd
                 (new_MPC2CResult kMPC2CResultCode_InvalidData ''Bodiless POST request not allowed'' []) s))
            | Some c \<Rightarrow>
                if length c < THTTP_MESSAGE_CONTENT_LENGTH m then None
                else (case handleJsonContent E fd (Some (take (THTTP_MESSAGE_CONTENT_LENGTH m) c)) s of
                        None \<Rightarrow> None
                      | Some (r, s1) \<Rightarrow> Some (snd (sendResult E fd r s1))))
      else Some s)"

section \<open>Framing\<close>

text \<open>
  The chunks of a chunked body, from the first chunk size on: whether the last chunk was seen. The size
  comes from the request and is not compared with the buffer: None is a read behind its end.
\<close>

function read_chunks :: "http_api \<Rightarrow> tsk_api \<Rightarrow> string \<Rightarrow> http_message \<Rightarrow> (bool \<times> http_message) option" where
  "read_chunks H T start m =
     (if start = [] then Some (False, m)
      else
        let chunk_size = tsk_atox H start; index = tsk_strindexOf T start crlf in
        if index < 0 then Some (False, m)
        else
          let start1 = drop (nat index + 2) start in
          if chunk_size = 0 \<and> take 2 start1 = crlf then Some (True, m)
          else if length start1 < chunk_size then None
          else read_chunks H T (drop (chunk_size + 2) start1)
                 (thttp_message_append_content H (take chunk_size start1) m))"
  by pat_completeness auto

termination read_chunks
  by (relation "measure (\<lambda>(H, T, start, m). length start)") auto

declare read_chunks.simps [simp del]

text \<open>
  One message at the start of the bytes: not all of it is there, its head is malformed, or it is framed
  with the number of bytes consumed and whether its content is complete. The end of a chunked message
  adds 1 to the consumed bytes, the value of the assignment \<open>haveAllContent = true\<close>.
\<close>

datatype framed = NotAll | Malformed nat | Framed nat bool http_message

definition frame_message :: "http_api \<Rightarrow> tsk_api \<Rightarrow> string \<Rightarrow> framed option" where
  "frame_message H T d =
     (let endOfheaders = tsk_strindexOf T d crlf2 in
      if endOfheaders < 0 then Some NotAll
      else
        let head = nat endOfheaders + 4 in
        case thttp_message_parse H (take head d) of
          None \<Rightarrow> Some (Malformed head)
        | Some m \<Rightarrow>
            if hm_Transfer_Encoding m \<noteq> None \<and> tsk_striequals T (hm_Transfer_Encoding m) (Some ''chunked'')
            then (case read_chunks H T (drop head d) m of
                    None \<Rightarrow> None
                  | Some (full, m1) \<Rightarrow> Some (Framed (if full then 1 else 0) full m1))
            else
              let clen = THTTP_MESSAGE_CONTENT_LENGTH m in
              if clen = 0 then Some (Framed head True m)
              else if length d < head + clen then Some NotAll
              else Some (Framed (head + clen) True (thttp_message_add_content H (take clen (drop head d)) m)))"

text \<open>
  The loop of \<open>onData\<close>: the label \<open>parse_buffer\<close> with the bytes consumed so far and \<open>haveAllContent\<close>,
  which is not reset between messages. The test for another round subtracts all the bytes consumed
  from what was left before this round, in \<open>size_t\<close>. The outer None is a loop that never ends, the inner
  one an abort.
\<close>

partial_function (option) parse_buffer ::
  "c2c_env \<Rightarrow> MPNetPeer \<Rightarrow> nat \<Rightarrow> bool \<Rightarrow> MPC2CTransport \<Rightarrow> (nat \<times> MPC2CTransport) option option" where
  "parse_buffer E p nConsumedBytes haveAllContent s =
     (case frame_message (cc_H E) (cc_T E) (drop nConsumedBytes (np_data p)) of
        None \<Rightarrow> Some None
      | Some NotAll \<Rightarrow> Some (Some (nConsumedBytes, s))
      | Some (Malformed k) \<Rightarrow> Some (Some (nConsumedBytes + k, s))
      | Some (Framed k full m) \<Rightarrow>
          if haveAllContent \<or> full then
            (case handle_message E (np_nFd p) m s of
               None \<Rightarrow> Some None
             | Some s1 \<Rightarrow>
                 if 0x32 \<le> (of_nat (length (np_data p) - nConsumedBytes) - of_nat (nConsumedBytes + k) :: u64)
                 then parse_buffer E p (nConsumedBytes + k) True s1
                 else Some (Some (nConsumedBytes + k, s1)))
          else Some (Some (nConsumedBytes + k, s)))"

definition c2c_onData :: "c2c_env \<Rightarrow> MPNetTransport \<Rightarrow> MPNetPeer \<Rightarrow> nat \<Rightarrow> MPC2CTransport \<Rightarrow> (nat \<times> MPC2CTransport) option option" where
  "c2c_onData E nt p n s = parse_buffer E p 0 False s"

definition c2c_onConnectionStateChanged :: "MPNetTransport \<Rightarrow> MPNetPeer \<Rightarrow> MPC2CTransport \<Rightarrow> bool \<times> MPC2CTransport" where
  "c2c_onConnectionStateChanged nt p s = (True, s)"

section \<open>Verified captchas\<close>

text \<open>The answers of the reCAPTCHA service: each report of a verdict is handed to \<open>onValidationEvent\<close>.\<close>

fun validation_events :: "c2c_env \<Rightarrow> (bool \<times> MPRecaptcha) list \<Rightarrow> MPC2CTransport \<Rightarrow> MPC2CTransport option" where
  "validation_events E [] s = Some s"
| "validation_events E ((ok, rc) # es) s =
     (case onValidationEvent E ok rc s of None \<Rightarrow> None | Some (_, s1) \<Rightarrow> validation_events E es s1)"

definition captcha_onData :: "c2c_env \<Rightarrow> MPNetPeer \<Rightarrow> MPC2CTransport \<Rightarrow> (nat \<times> MPC2CTransport) option" where
  "captcha_onData E p s =
     (case m_oRecaptchaTransport s of
        None \<Rightarrow> Some (0, s)
      | Some (nt, t) \<Rightarrow>
          (case recaptcha_onData (cc_net E) (cc_H E) (cc_beyond E) nt p (length (np_data p)) t of
             None \<Rightarrow> None
           | Some (k, t1) \<Rightarrow> map_option (Pair k)
               (validation_events E (rt_events t1) (s\<lparr>m_oRecaptchaTransport := Some (nt, t1\<lparr>rt_events := []\<rparr>)\<rparr>))))"


section \<open>The service as a callback of the transport\<close>

text \<open>A handler that does not return leaves no state, as one that aborts.\<close>

definition c2c_handler :: "c2c_env \<Rightarrow> MPNetTransport \<Rightarrow> MPNetPeer \<Rightarrow> nat \<Rightarrow> MPC2CTransport \<Rightarrow> (nat \<times> MPC2CTransport) option" where
  "c2c_handler E nt p n s = Option.bind (c2c_onData E nt p n s) (\<lambda>x. x)"

definition c2c_callback :: "c2c_env \<Rightarrow> MPC2CTransport option net_cb" where
  "c2c_callback E = \<lparr>cb_onData = abortable (c2c_handler E),
     cb_onConnectionStateChanged = (\<lambda>nt p. map_option (\<lambda>s. snd (c2c_onConnectionStateChanged nt p s)))\<rparr>"

lemma index_head:
  assumes "strindexOf_law T" "\<not> tsk_strindexOf T d crlf2 < 0"
  shows "nat (tsk_strindexOf T d crlf2) + 4 \<le> length d"
  using header_end [OF assms(1), of d] assms(2) by simp

lemma frame_message_bound:
  assumes "strindexOf_law T"
  shows "frame_message H T d = Some (Framed k full m) \<Longrightarrow> k \<le> length d"
    and "frame_message H T d = Some (Malformed k) \<Longrightarrow> k \<le> length d"
  using index_head [OF assms, of d]
  by (auto simp: frame_message_def Let_def split: option.splits if_splits)

lemma parse_buffer_bound:
  assumes ret: "parse_buffer E p n h s = Some (Some (k, s'))" and law: "strindexOf_law (cc_T E)" and n: "n \<le> length (np_data p)"
  shows "k \<le> length (np_data p)"
proof -
  let ?P = "\<lambda>E p n h s r. strindexOf_law (cc_T E) \<longrightarrow> n \<le> length (np_data p) \<longrightarrow>
    (\<forall>k s'. r = Some (k, s') \<longrightarrow> k \<le> length (np_data p))"
  have "?P E p n h s (Some (k, s'))"
  proof (rule parse_buffer.raw_induct [where P = ?P, OF _ ret])
    fix f :: "c2c_env \<Rightarrow> MPNetPeer \<Rightarrow> nat \<Rightarrow> bool \<Rightarrow> MPC2CTransport \<Rightarrow> (nat \<times> MPC2CTransport) option option"
    fix E p n h s r
    assume IH: "\<And>E p n h s r. f E p n h s = Some r \<Longrightarrow> ?P E p n h s r"
      and eq: "(case frame_message (cc_H E) (cc_T E) (drop n (np_data p)) of
        None \<Rightarrow> Some None
      | Some NotAll \<Rightarrow> Some (Some (n, s))
      | Some (Malformed k) \<Rightarrow> Some (Some (n + k, s))
      | Some (Framed k full m) \<Rightarrow>
          if h \<or> full then
            (case handle_message E (np_nFd p) m s of
               None \<Rightarrow> Some None
             | Some s1 \<Rightarrow>
                 if 0x32 \<le> (of_nat (length (np_data p) - n) - of_nat (n + k) :: u64)
                 then f E p (n + k) True s1
                 else Some (Some (n + k, s1)))
          else Some (Some (n + k, s))) = Some r"
    show "?P E p n h s r"
    proof (intro impI)
      assume law: "strindexOf_law (cc_T E)" and n: "n \<le> length (np_data p)"
      note bound = frame_message_bound [OF law, of "cc_H E" "drop n (np_data p)"]
      show "\<forall>k s'. r = Some (k, s') \<longrightarrow> k \<le> length (np_data p)"
      proof (cases "frame_message (cc_H E) (cc_T E) (drop n (np_data p))")
        case (Some x)
        show ?thesis
        proof (cases x)
          case (Framed k full m)
          then have "n + k \<le> length (np_data p)" using bound(1) Some n by fastforce
          then show ?thesis using eq Some Framed IH law by (auto split: if_splits option.splits)
        qed (use eq Some n bound(2) in auto)
      qed (use eq in auto)
    qed
  qed
  then show ?thesis using law n by simp
qed

interpretation click_to_call: net_callback "abortable (c2c_handler E)" "strindexOf_law (cc_T E)" for E
proof unfold_locales
  fix nt p a
  assume "strindexOf_law (cc_T E)"
  then show "fst (abortable (c2c_handler E) nt p (length (np_data p)) a) \<le> length (np_data p)"
    by (intro abortable_consumed) (auto simp: c2c_handler_def c2c_onData_def bind_eq_Some_conv intro: parse_buffer_bound)
qed


section \<open>The loop\<close>

definition chunked :: "tsk_api \<Rightarrow> http_message \<Rightarrow> bool" where
  "chunked T m \<longleftrightarrow> hm_Transfer_Encoding m \<noteq> None \<and> tsk_striequals T (hm_Transfer_Encoding m) (Some ''chunked'')"

lemma frame_progress:
  assumes "frame_message H T d = Some (Framed k full m)" "\<And>h m. sublist h d \<Longrightarrow> thttp_message_parse H h = Some m \<Longrightarrow> \<not> chunked T m"
  shows "0 < k"
proof -
  have nc: "\<not> chunked T m'" if "thttp_message_parse H (take i d) = Some m'" for i m'
    using assms(2) [OF _ that] by (simp add: sublist_take)
  then show ?thesis
    using assms(1) by (auto simp: frame_message_def Let_def chunked_def split: option.splits if_splits dest: nc)
qed

lemma parse_buffer_returns:
  assumes "strindexOf_law (cc_T E)"
    and "\<And>h m. sublist h (np_data p) \<Longrightarrow> thttp_message_parse (cc_H E) h = Some m \<Longrightarrow> \<not> chunked (cc_T E) m"
    and "n \<le> length (np_data p)"
  shows "parse_buffer E p n hv s \<noteq> None"
  using assms(3)
proof (induction "length (np_data p) - n" arbitrary: n hv s rule: less_induct)
  case less
  let ?d = "drop n (np_data p)"
  show ?case
  proof (cases "frame_message (cc_H E) (cc_T E) ?d")
    case None
    then show ?thesis by (simp add: parse_buffer.simps)
  next
    case (Some x)
    show ?thesis
    proof (cases x)
      case (Framed k full m)
      have sub: "sublist h ?d \<Longrightarrow> sublist h (np_data p)" for h
        using sublist_order.order_trans sublist_drop by blast
      have k: "0 < k" "n + k \<le> length (np_data p)"
        using frame_progress [of "cc_H E" "cc_T E" ?d k full m] assms(2) sub Some Framed less.prems
          frame_message_bound(1) [OF assms(1), of "cc_H E" ?d k full m] by auto
      have "parse_buffer E p (n + k) True s1 \<noteq> None" for s1
        using less.hyps [of "n + k" True s1] k by linarith
      then show ?thesis using Some Framed by (subst parse_buffer.simps) (simp split: option.split)
    qed (use Some in \<open>simp_all add: parse_buffer.simps\<close>)
  qed
qed

text \<open>
  A round that consumes nothing, once a complete message was seen, and that asks for another round: it
  is taken over and over, until the handler aborts.
\<close>

fun handle_again :: "c2c_env \<Rightarrow> MPNetFd \<Rightarrow> http_message \<Rightarrow> nat \<Rightarrow> MPC2CTransport \<Rightarrow> MPC2CTransport option" where
  "handle_again E fd m 0 s = Some s"
| "handle_again E fd m (Suc j) s = (case handle_message E fd m s of None \<Rightarrow> None | Some s1 \<Rightarrow> handle_again E fd m j s1)"

lemma parse_buffer_loops:
  assumes "frame_message (cc_H E) (cc_T E) (drop n (np_data p)) = Some (Framed 0 full m)"
    and "\<And>j. handle_again E (np_nFd p) m j s \<noteq> None"
    and "0x32 \<le> (of_nat (length (np_data p) - n) - of_nat n :: u64)"
  shows "parse_buffer E p n True s = None"
proof -
  let ?P = "\<lambda>E' p' n' h (s :: MPC2CTransport) (r :: (nat \<times> MPC2CTransport) option).
    \<not> (E' = E \<and> p' = p \<and> n' = n \<and> h \<and> (\<forall>j. handle_again E (np_nFd p) m j s \<noteq> None))"
  have "?P E p n True s r" if ret: "parse_buffer E p n True s = Some r" for r
  proof (rule parse_buffer.raw_induct [where P = ?P, OF _ ret])
    fix f :: "c2c_env \<Rightarrow> MPNetPeer \<Rightarrow> nat \<Rightarrow> bool \<Rightarrow> MPC2CTransport \<Rightarrow> (nat \<times> MPC2CTransport) option option"
    fix E' p' n' h s r
    assume IH: "\<And>E' p' n' h s r. f E' p' n' h s = Some r \<Longrightarrow> ?P E' p' n' h s r"
      and eq: "(case frame_message (cc_H E') (cc_T E') (drop n' (np_data p')) of
        None \<Rightarrow> Some None
      | Some NotAll \<Rightarrow> Some (Some (n', s))
      | Some (Malformed k) \<Rightarrow> Some (Some (n' + k, s))
      | Some (Framed k full m) \<Rightarrow>
          if h \<or> full then
            (case handle_message E' (np_nFd p') m s of
               None \<Rightarrow> Some None
             | Some s1 \<Rightarrow>
                 if 0x32 \<le> (of_nat (length (np_data p') - n') - of_nat (n' + k) :: u64)
                 then f E' p' (n' + k) True s1
                 else Some (Some (n' + k, s1)))
          else Some (Some (n' + k, s))) = Some r"
    show "?P E' p' n' h s r"
    proof
      assume c: "E' = E \<and> p' = p \<and> n' = n \<and> h \<and> (\<forall>j. handle_again E (np_nFd p) m j s \<noteq> None)"
      then have "handle_again E (np_nFd p) m 1 s \<noteq> None" by blast
      then obtain s1 where s1: "handle_message E (np_nFd p) m s = Some s1" by (auto split: option.splits)
      then have "f E p n True s1 = Some r" using eq c assms(1,3) by simp
      moreover have "handle_again E (np_nFd p) m j s1 \<noteq> None" for j
        using c [THEN conjunct2, THEN conjunct2, THEN conjunct2, THEN conjunct2, rule_format, of "Suc j"] s1 by simp
      ultimately show False using IH by blast
    qed
  qed
  then show ?thesis using assms(2) by (cases "parse_buffer E p n True s") auto
qed

lemma parse_buffer_aborts:
  assumes "frame_message (cc_H E) (cc_T E) (drop n (np_data p)) = Some (Framed 0 full m)"
    and "0x32 \<le> (of_nat (length (np_data p) - n) - of_nat n :: u64)" "handle_again E (np_nFd p) m j s = None"
  shows "parse_buffer E p n True s = Some None"
  using assms(3)
proof (induction j arbitrary: s)
  case (Suc j)
  then show ?case
    using assms(1,2) by (subst parse_buffer.simps) (auto split: option.splits)
qed simp

lemma parse_buffer_again:
  assumes "frame_message (cc_H E) (cc_T E) (drop n (np_data p)) = Some (Framed 0 full m)"
    and "0x32 \<le> (of_nat (length (np_data p) - n) - of_nat n :: u64)"
  shows "parse_buffer E p n True s = None \<longleftrightarrow> (\<forall>j. handle_again E (np_nFd p) m j s \<noteq> None)"
  using parse_buffer_loops [OF assms(1) _ assms(2)] parse_buffer_aborts [OF assms] by fastforce

lemma handle_again_all: "(\<And>s. handle_message E fd m s \<noteq> None) \<Longrightarrow> handle_again E fd m j s \<noteq> None"
proof (induction j arbitrary: s)
  case (Suc j)
  obtain s1 where "handle_message E fd m s = Some s1" using Suc.prems by blast
  then show ?case using Suc by simp
qed simp

text \<open>The test for another round, in \<open>size_t\<close>: the subtraction wraps around when it is negative.\<close>

lemma another_round:
  assumes "a \<le> kMPMaxStreamBufferSize" "b \<le> kMPMaxStreamBufferSize"
  shows "0x32 \<le> (of_nat a - of_nat b :: u64) \<longleftrightarrow> a < b \<or> b + 50 \<le> a"
proof (cases "b \<le> a")
  case True
  then have "of_nat a - of_nat b = (of_nat (a - b) :: u64)" by (simp add: of_nat_diff)
  moreover have "unat (of_nat (a - b) :: u64) = a - b"
    using assms(1) by (simp add: unat_of_nat kMPMaxStreamBufferSize_def del: of_nat_diff)
  ultimately have e: "unat (of_nat a - of_nat b :: u64) = a - b" by simp
  show ?thesis unfolding word_le_nat_alt e using True by auto
next
  case False
  have "uint (of_nat a :: u64) = int a" "uint (of_nat b :: u64) = int b"
    using assms by (simp_all add: uint_nat unat_of_nat kMPMaxStreamBufferSize_def)
  then have "uint (of_nat a - of_nat b :: u64) = (int a - int b) mod 2 ^ 64" by (simp add: uint_word_ariths)
  also have "\<dots> = int a - int b + 2 ^ 64"
    using False assms by (subst mod_add_self2 [symmetric], intro mod_pos_pos_trivial) (auto simp: kMPMaxStreamBufferSize_def)
  finally have "50 \<le> uint (of_nat a - of_nat b :: u64)" using assms by (simp add: kMPMaxStreamBufferSize_def)
  then show ?thesis using False by (simp add: word_le_def)
qed

section \<open>Requests that arrive in pieces\<close>

lemma occurs_at_take: "occurs_at (take i s) p j \<longleftrightarrow> occurs_at s p j \<and> j + length p \<le> i"
  by (auto simp: occurs_at_def drop_take min_def)

lemma strindexOf_take:
  assumes "strindexOf_law T" "tsk_strindexOf T s p = int h" "p \<noteq> []"
  shows "tsk_strindexOf T (take i s) p = (if h + length p \<le> i then int h else -1)"
proof -
  have ex: "\<exists>j. occurs_at s p j"
  proof (rule ccontr)
    assume "\<not> ?thesis"
    then have "tsk_strindexOf T s p = -1" using assms(1) by (simp add: strindexOf_law_def)
    then show False using assms(2) by simp
  qed
  moreover from this have h: "h = (LEAST j. occurs_at s p j)" using assms(1,2) by (auto simp: strindexOf_law_def)
  ultimately have occ: "occurs_at s p h" by (metis LeastI_ex)
  show ?thesis
  proof (cases "h + length p \<le> i")
    case True
    then have "occurs_at (take i s) p h" using occ by (simp add: occurs_at_take)
    moreover have "h \<le> j" if "occurs_at (take i s) p j" for j
      using that h by (simp add: occurs_at_take Least_le)
    ultimately have "(LEAST j. occurs_at (take i s) p j) = h" "\<exists>j. occurs_at (take i s) p j"
      by (auto intro: Least_equality)
    then show ?thesis
      using assms(1) [unfolded strindexOf_law_def, rule_format, of "take i s" p] True by simp
  next
    case False
    have "\<not> occurs_at (take i s) p j" for j
      using False h Least_le [of "occurs_at s p" j] by (auto simp: occurs_at_take)
    then show ?thesis using assms(1) False by (simp add: strindexOf_law_def)
  qed
qed

lemma frame_prefix:
  assumes "strindexOf_law T" "tsk_strindexOf T d crlf2 = int h" "thttp_message_parse H (take (h + 4) d) = Some m"
    and "\<not> chunked T m" "i < h + 4 + THTTP_MESSAGE_CONTENT_LENGTH m"
  shows "frame_message H T (take i d) = Some NotAll"
proof (cases "h + 4 \<le> i")
  case True
  then have "tsk_strindexOf T (take i d) crlf2 = int h" "take (h + 4) (take i d) = take (h + 4) d"
    using strindexOf_take [OF assms(1,2)] by (simp_all add: min_def)
  then show ?thesis using assms(3-5) True by (auto simp: frame_message_def Let_def chunked_def)
next
  case False
  then have "tsk_strindexOf T (take i d) crlf2 = -1" using strindexOf_take [OF assms(1,2)] by simp
  then show ?thesis by (simp add: frame_message_def)
qed


text \<open>The message at the start of a buffer that holds exactly it.\<close>

definition with_body :: "http_api \<Rightarrow> http_message \<Rightarrow> string \<Rightarrow> http_message" where
  "with_body H m body = (if THTTP_MESSAGE_CONTENT_LENGTH m = 0 then m else thttp_message_add_content H body m)"

lemma frame_whole:
  assumes "tsk_strindexOf T d crlf2 = int h" "thttp_message_parse H (take (h + 4) d) = Some m"
    and "\<not> chunked T m" "length d = h + 4 + THTTP_MESSAGE_CONTENT_LENGTH m"
  shows "frame_message H T d = Some (Framed (length d) True (with_body H m (drop (h + 4) d)))"
  using assms by (auto simp: frame_message_def Let_def chunked_def with_body_def)

lemma parse_whole:
  assumes "frame_message (cc_H E) (cc_T E) (np_data p) = Some (Framed (length (np_data p)) True m)"
    and "handle_message E (np_nFd p) m s = Some s1"
  shows "parse_buffer E p 0 False s = Some (Some (length (np_data p), s1))"
  using assms by (simp add: parse_buffer.simps)

lemma data_event:
  assumes "buf_law (ne_B (cc_net E))" "\<forall>b x. tsk_buffer_append (ne_B (cc_net E)) b x \<noteq> None" "strindexOf_law (cc_T E)"
    and "getPeerByFd nt fd = Some p" "length (np_data p @ d) \<le> kMPMaxStreamBufferSize"
    and "parse_buffer E (p\<lparr>np_data := np_data p @ d\<rparr>) 0 False s = Some (Some (k, s1))"
  shows "on_data (cc_net E) (Some (c2c_callback E)) fd d (nt, Some s) =
    ((setNetPeer (p\<lparr>np_data := drop k (np_data p @ d)\<rparr>) nt, Some s1), 0, [])"
proof -
  have "cb_onData (c2c_callback E) = abortable (c2c_handler E)" by (simp add: c2c_callback_def)
  from click_to_call.kept_bytes [OF assms(1) this _ assms(3), of p d nt "Some s"] assms(2,5)
  obtain n a1 where "data_peer (cc_net E) nt (Some (c2c_callback E)) d (Some s) p = (p\<lparr>np_data := drop n (np_data p @ d)\<rparr>, a1)"
    "(n, a1) = abortable (c2c_handler E) (setNetPeer (p\<lparr>np_data := np_data p @ d\<rparr>) nt) (p\<lparr>np_data := np_data p @ d\<rparr>)
        (length (np_data p @ d)) (Some s)" by auto
  moreover from this(2) have "n = k" "a1 = Some s1"
    using assms(6) by (simp_all add: abortable_def c2c_handler_def c2c_onData_def)
  ultimately show ?thesis using on_data_peer [OF assms(4), of "cc_net E" "Some (c2c_callback E)" d "Some s"] by simp
qed

lemma setNetPeer_twice: "np_nFd q = np_nFd p \<Longrightarrow> setNetPeer q (setNetPeer p nt) = setNetPeer q nt"
  by (simp add: setNetPeer_def map_modify_def)

section \<open>Properties\<close>

lemma request_in_pieces:
  assumes laws: "buf_law (ne_B (cc_net E))" "\<forall>b x. tsk_buffer_append (ne_B (cc_net E)) b x \<noteq> None" "strindexOf_law (cc_T E)"
    and d: "length d \<le> kMPMaxStreamBufferSize" "tsk_strindexOf (cc_T E) d crlf2 = int h"
      "thttp_message_parse (cc_H E) (take (h + 4) d) = Some m" "\<not> chunked (cc_T E) m"
      "length d = h + 4 + THTTP_MESSAGE_CONTENT_LENGTH m"
    and handled: "handle_message E fd (with_body (cc_H E) m (drop (h + 4) d)) s = Some s1"
    and peer: "getPeerByFd nt fd = Some p" "np_nFd p = fd" "np_data p @ concat ds = d"
    and pieces: "ds \<noteq> []" "last ds \<noteq> []"
  shows "net_run v (cc_net E) (Some (c2c_callback E)) (map (EvData fd) ds) (nt, Some s)
    = ((setNetPeer (p\<lparr>np_data := []\<rparr>) nt, Some s1), [])"
  using peer pieces
proof (induction ds arbitrary: nt p)
  case (Cons a ds)
  have len: "length (np_data p @ a) \<le> kMPMaxStreamBufferSize" using Cons.prems(3) d(1) by auto
  note data = data_event [OF laws Cons.prems(1) len]
  show ?case
  proof (cases ds)
    case Nil
    then have "np_data p @ a = d" using Cons.prems(3) by simp
    then have "parse_buffer E (p\<lparr>np_data := np_data p @ a\<rparr>) 0 False s = Some (Some (length d, s1))"
      using parse_whole [of E "p\<lparr>np_data := d\<rparr>" _ s s1] frame_whole [OF d(2-5)] handled Cons.prems(2) by simp
    from data [OF this] show ?thesis using Nil \<open>np_data p @ a = d\<close> by (simp add: MPNetTransportCb_Stream_def)
  next
    case (Cons b bs)
    have "concat ds \<noteq> []" using Cons.prems(5) Cons by (metis concat_eq_Nil_conv last_ConsR last_in_set list.distinct(1))
    then have "0 < length (concat ds)" by blast
    moreover have "np_data p @ a = take (length (np_data p @ a)) d" "length d = length (np_data p @ a) + length (concat ds)"
      using Cons.prems(3) by auto
    ultimately have "length (np_data p @ a) < h + 4 + THTTP_MESSAGE_CONTENT_LENGTH m" "np_data p @ a = take (length (np_data p @ a)) d"
      using d(5) by linarith+
    with frame_prefix [OF laws(3) d(2-4) this(1)] have "frame_message (cc_H E) (cc_T E) (np_data p @ a) = Some NotAll" by metis
    then have "parse_buffer E (p\<lparr>np_data := np_data p @ a\<rparr>) 0 False s = Some (Some (0, s))" by (simp add: parse_buffer.simps)
    from data [OF this] have first: "on_data (cc_net E) (Some (c2c_callback E)) fd a (nt, Some s) =
        ((setNetPeer (p\<lparr>np_data := np_data p @ a\<rparr>) nt, Some s), 0, [])" by simp
    have "getPeerByFd (setNetPeer (p\<lparr>np_data := np_data p @ a\<rparr>) nt) fd = Some (p\<lparr>np_data := np_data p @ a\<rparr>)"
      using Cons.prems(1,2) by (simp add: getPeerByFd_set)
    from Cons.IH [OF this] Cons.prems(2,3,5) Cons
    have "net_run v (cc_net E) (Some (c2c_callback E)) (map (EvData fd) ds) (setNetPeer (p\<lparr>np_data := np_data p @ a\<rparr>) nt, Some s)
        = ((setNetPeer (p\<lparr>np_data := []\<rparr>) nt, Some s1), [])" by (simp add: setNetPeer_twice)
    then show ?thesis using first by (simp add: MPNetTransportCb_Stream_def)
  qed
qed simp

text \<open>
  C18. A complete request that is not chunked, that is, a head that parses and as many bytes as its
  content length says, may arrive in pieces. However its bytes are split, into one piece or many, with a
  last one that is not empty, the transport and the service end in the same state: the buffer of the
  connection is empty, and the service has handled the whole request exactly once.
\<close>

theorem request_split_anywhere:
  assumes "buf_law (ne_B (cc_net E))" "\<forall>b x. tsk_buffer_append (ne_B (cc_net E)) b x \<noteq> None" "strindexOf_law (cc_T E)"
    and "getPeerByFd nt fd = Some p" "np_data p = []" "np_nFd p = fd"
    and "concat ds = d" "ds \<noteq> []" "last ds \<noteq> []" "length d \<le> kMPMaxStreamBufferSize"
    and "tsk_strindexOf (cc_T E) d crlf2 = int h" "thttp_message_parse (cc_H E) (take (h + 4) d) = Some m"
    and "\<not> chunked (cc_T E) m" "length d = h + 4 + THTTP_MESSAGE_CONTENT_LENGTH m"
    and "handle_message E fd (with_body (cc_H E) m (drop (h + 4) d)) s = Some s1"
  shows "net_run v (cc_net E) (Some (c2c_callback E)) (map (EvData fd) ds) (nt, Some s)
      = ((setNetPeer (p\<lparr>np_data := []\<rparr>) nt, Some s1), [])"
  by (rule request_in_pieces [OF assms(1-3,10-15,4,6) _ assms(8,9)]) (simp add: assms(5,7))

text \<open>
  C27. On every buffer in which no head announces a chunked body the framing loop comes to an end: it
  returns, having consumed no more than the buffer, or aborts with the handler of a request. For every
  round but the last consumes at least the four bytes that end a head.
\<close>

theorem framing_terminates:
  assumes "strindexOf_law (cc_T E)"
    and "\<And>h m. sublist h (np_data p) \<Longrightarrow> thttp_message_parse (cc_H E) h = Some m \<Longrightarrow> \<not> chunked (cc_T E) m"
  shows "\<exists>r. c2c_onData E nt p n s = Some r \<and> (\<forall>k s'. r = Some (k, s') \<longrightarrow> k \<le> length (np_data p))"
proof -
  have "parse_buffer E p 0 False s \<noteq> None" by (rule parse_buffer_returns [OF assms]) simp_all
  then show ?thesis using parse_buffer_bound [of E p 0 False s, OF _ assms(1)] by (auto simp: c2c_onData_def)
qed

text \<open>
  C39. In a buffer of permitted size let a complete request of \<open>k\<close> bytes be followed by a chunked one
  whose last chunk is missing, whatever its method. The handler takes the unfinished request as complete,
  for that flag is left from the first one, and consumes nothing. It loops for ever exactly when the \<open>R\<close>
  bytes after the first request are at least 50, which asks for the round of the second, when they are
  less than \<open>k\<close>, so that the next test wraps around, or at least \<open>k + 50\<close>, and when handling the
  second request again and again never aborts; otherwise it returns after one or two rounds, or aborts.
\<close>

theorem unfinished_chunks_hang:
  assumes "strindexOf_law (cc_T E)"
    and "frame_message (cc_H E) (cc_T E) (np_data p) = Some (Framed k True m1)"
    and "handle_message E (np_nFd p) m1 s = Some s1"
    and "frame_message (cc_H E) (cc_T E) (drop k (np_data p)) = Some (Framed 0 False m2)"
    and "length (np_data p) \<le> kMPMaxStreamBufferSize" "R = length (np_data p) - k"
  shows "c2c_onData E nt p n s = None
    \<longleftrightarrow> 50 \<le> R \<and> (R < k \<or> k + 50 \<le> R) \<and> (\<forall>j. handle_again E (np_nFd p) m2 j s1 \<noteq> None)"
proof -
  have k: "k \<le> length (np_data p)" using frame_message_bound(1) [OF assms(1,2)] .
  have first: "parse_buffer E p 0 False s = (if 50 \<le> R then parse_buffer E p k True s1 else Some (Some (k, s1)))"
    using assms(2,3,6) another_round [of "length (np_data p)" k] assms(5) k
    by (subst parse_buffer.simps) auto
  show ?thesis
  proof (cases "R < k \<or> k + 50 \<le> R")
    case True
    then have "0x32 \<le> (of_nat (length (np_data p) - k) - of_nat k :: u64)"
      using another_round [of R k] k assms(5,6) by simp
    from parse_buffer_again [OF assms(4) this] first True show ?thesis by (simp add: c2c_onData_def)
  next
    case False
    then have "\<not> 0x32 \<le> (of_nat (length (np_data p) - k) - of_nat k :: u64)"
      using another_round [of R k] k assms(5,6) by simp
    then have "parse_buffer E p k True s1 \<noteq> None"
      using assms(4) by (subst parse_buffer.simps) (auto split: option.splits)
    then show ?thesis using first False by (simp add: c2c_onData_def)
  qed
qed


section \<open>Witnesses\<close>

definition sample_head :: "string \<Rightarrow> cstr \<Rightarrow> nat option \<Rightarrow> http_message" where
  "sample_head method te len = \<lparr>hm_method = Some method, hm_Transfer_Encoding = te, hm_Content_Type = None,
     hm_Content_Length = len, hm_Content = None\<rparr>"

definition sample_parser :: http_api where
  "sample_parser = http_ref (\<lambda>s. if take 3 s = ''OPT'' then Some (sample_head ''OPTIONS'' None (Some 2))
     else if take 3 s = ''ALL'' then Some (sample_head ''OPTIONS'' None None)
     else if take 3 s = ''GET'' then Some (sample_head ''GET'' (Some ''chunked'') None)
     else if take 3 s = ''POS'' then Some (sample_head ''POST'' (Some ''chunked'') None) else None)"

definition http_env :: c2c_env where "http_env = sample_c2c_env\<lparr>cc_H := sample_parser\<rparr>"

lemma http_env_simps [simp]:
  "cc_H http_env = sample_parser" "cc_T http_env = tsk_ref" "cc_net http_env = sample_net_env"
  by (simp_all add: http_env_def sample_c2c_env_def sample_net_env_def)

lemma sample_net_ref [simp]: "ne_T sample_net_env = tsk_ref" "ne_B sample_net_env = buf_ref"
  by (simp_all add: sample_net_env_def)

lemma handle_options: "hm_method m = Some ''OPTIONS'' \<Longrightarrow> \<exists>s1. handle_message http_env fd m s = Some s1"
  by (simp add: handle_message_def THTTP_MESSAGE_IS_REQUEST_def tsk_ref_def)

theorem request_split_anywhere_witness:
  "\<exists>nt s1. net_run ''2.7.0'' sample_net_env (Some (c2c_callback http_env))
       [EvData 3 ''OPT'', EvData 3 crlf2, EvData 3 ''{}''] (insertNetPeer (new_MPNetPeerStream 3 True) sample_transport, Some (sample_c2c True))
     = ((nt, Some s1), []) \<and> getPeerByFd nt 3 = Some (new_MPNetPeerStream 3 True)"
proof -
  let ?p = "new_MPNetPeerStream 3 True" and ?s = "sample_c2c True" and ?d = "''OPT'' @ (crlf2 @ ''{}'')"
  let ?nt = "insertNetPeer ?p sample_transport" and ?m = "sample_head ''OPTIONS'' None (Some 2)"
  have p: "getPeerByFd ?nt 3 = Some ?p" "np_data ?p = []" "np_nFd ?p = 3"
    by (simp_all add: getPeerByFd_def insertNetPeer_def sample_transport_def new_MPNetPeerStream_def map_find_def)
  have i: "tsk_strindexOf (cc_T http_env) ?d crlf2 = int 3" by (simp add: tsk_ref_def)
  have m: "thttp_message_parse (cc_H http_env) (take (3 + 4) ?d) = Some ?m"
    by (simp add: sample_parser_def http_ref_def sample_head_def numeral_eq_Suc)
  have c: "\<not> chunked (cc_T http_env) ?m" "length ?d = 3 + 4 + THTTP_MESSAGE_CONTENT_LENGTH ?m"
    by (simp_all add: chunked_def sample_head_def THTTP_MESSAGE_CONTENT_LENGTH_def)
  have "hm_method (with_body (cc_H http_env) ?m (drop (3 + 4) ?d)) = Some ''OPTIONS''"
    by (simp add: with_body_def sample_parser_def http_ref_def sample_head_def)
  from handle_options [OF this]
  obtain s1 where s1: "handle_message http_env 3 (with_body (cc_H http_env) ?m (drop (3 + 4) ?d)) ?s = Some s1" by blast
  have "\<forall>b x. tsk_buffer_append (ne_B (cc_net http_env)) b x \<noteq> None" by (simp add: buf_ref_def)
  moreover have "buf_law (ne_B (cc_net http_env))" "strindexOf_law (cc_T http_env)" by (simp_all add: tsk_ref_laws)
  ultimately have
    "net_run ''2.7.0'' (cc_net http_env) (Some (c2c_callback http_env)) [EvData 3 ''OPT'', EvData 3 crlf2, EvData 3 ''{}''] (?nt, Some ?s)
      = ((setNetPeer (?p\<lparr>np_data := []\<rparr>) ?nt, Some s1), [])"
    using request_split_anywhere [OF _ _ _ p _ _ _ _ i m c s1, of "[''OPT'', crlf2, ''{}'']" "''2.7.0''"]
    by (simp add: kMPMaxStreamBufferSize_def)
  then
  have "net_run ''2.7.0'' sample_net_env (Some (c2c_callback http_env)) [EvData 3 ''OPT'', EvData 3 crlf2, EvData 3 ''{}''] (?nt, Some ?s)
      = ((setNetPeer (?p\<lparr>np_data := []\<rparr>) ?nt, Some s1), [])" by simp
  moreover have "getPeerByFd (setNetPeer (?p\<lparr>np_data := []\<rparr>) ?nt) 3 = Some ?p"
    using p by (simp add: getPeerByFd_set)
  ultimately show ?thesis by blast
qed

text \<open>Two requests and the start of a third: the loop takes three rounds and leaves the start.\<close>

theorem framing_terminates_witness:
  "\<exists>s'. c2c_onData http_env sample_transport
     \<lparr>np_nFd = 3, np_bConnected = True, np_data = ''OPT'' @ crlf2 @ ''{}'' @ ''ALL'' @ crlf2 @ replicate 60 (CHR ''x'')\<rparr> 0 (sample_c2c True)
     = Some (Some (16, s'))"
proof -
  let ?d = "''OPT'' @ crlf2 @ ''{}'' @ ''ALL'' @ crlf2 @ replicate 60 (CHR ''x'')"
  let ?p = "\<lparr>np_nFd = 3, np_bConnected = True, np_data = ?d\<rparr>"
  let ?m1 = "thttp_message_add_content sample_parser ''{}'' (sample_head ''OPTIONS'' None (Some 2))"
  let ?m2 = "sample_head ''OPTIONS'' None None"
  have "\<not> chunked (cc_T http_env) m" if "sublist h (np_data ?p)" "thttp_message_parse (cc_H http_env) h = Some m" for h m
  proof
    assume "chunked (cc_T http_env) m"
    then have "take 3 h = ''GET'' \<or> take 3 h = ''POS''"
      using that(2) by (auto simp: sample_parser_def http_ref_def sample_head_def chunked_def split: if_splits)
    then have "CHR ''G'' \<in> set h \<or> CHR ''S'' \<in> set h" by (metis in_set_takeD list.set_intros)
    moreover have "set h \<subseteq> set ?d" using set_mono_sublist [OF that(1)] by simp
    ultimately show False by auto
  qed
  then obtain r where r: "c2c_onData http_env sample_transport ?p 0 (sample_c2c True) = Some r"
    "\<And>k s'. r = Some (k, s') \<Longrightarrow> k \<le> length ?d"
    using framing_terminates [of http_env ?p sample_transport 0 "sample_c2c True"] by (auto simp: tsk_ref_laws)
  have f: "frame_message (cc_H http_env) (cc_T http_env) (np_data ?p) = Some (Framed 9 True ?m1)"
    "frame_message (cc_H http_env) (cc_T http_env) (drop 9 (np_data ?p)) = Some (Framed 7 True ?m2)"
    "frame_message (cc_H http_env) (cc_T http_env) (drop 16 (np_data ?p)) = Some NotAll"
    by (simp_all add: frame_message_def tsk_ref_def sample_parser_def http_ref_def sample_head_def THTTP_MESSAGE_CONTENT_LENGTH_def
        numeral_eq_Suc)
  obtain s1 where s1: "handle_message http_env 3 ?m1 (sample_c2c True) = Some s1"
    using handle_options [of ?m1] by (auto simp: sample_parser_def http_ref_def sample_head_def)
  obtain s2 where s2: "handle_message http_env 3 ?m2 s1 = Some s2" using handle_options [of ?m2] by (auto simp: sample_head_def)
  have "parse_buffer http_env ?p 16 True s2 = Some (Some (16, s2))" using f(3) by (subst parse_buffer.simps) simp
  then have "parse_buffer http_env ?p 9 True s1 = Some (Some (16, s2))" using f(2) s2 by (subst parse_buffer.simps) simp
  then have "parse_buffer http_env ?p 0 False (sample_c2c True) = Some (Some (16, s2))" using f(1) s1 by (subst parse_buffer.simps) simp
  then have "r = Some (16, s2)" using r(1) unfolding c2c_onData_def by (metis option.inject)
  then show ?thesis using r(1) by blast
qed

text \<open>
  A chunked POST without a JSON content type, with no last chunk, after a request of 7 bytes: with 67
  bytes left the handler never returns, with 52 it does. A chunked GET does the same.
\<close>

definition after_all :: "string \<Rightarrow> nat \<Rightarrow> MPNetPeer" where
  "after_all verb n = \<lparr>np_nFd = 3, np_bConnected = True,
     np_data = ''ALL'' @ crlf2 @ take 3 verb @ crlf2 @ replicate n (CHR ''x'')\<rparr>"

theorem unfinished_chunks_hang_witness:
  "c2c_onData http_env sample_transport (after_all ''POST'' 60) 0 (sample_c2c True) = None
   \<and> c2c_onData http_env sample_transport (after_all ''POST'' 45) 0 (sample_c2c True) \<noteq> None
   \<and> c2c_onData http_env sample_transport (after_all ''GET'' 60) 0 (sample_c2c True) = None"
proof -
  have first: "frame_message (cc_H http_env) (cc_T http_env) (np_data (after_all verb n)) = Some (Framed 7 True (sample_head ''OPTIONS'' None None))"
    for verb n
    by (simp add: after_all_def frame_message_def tsk_ref_def sample_parser_def http_ref_def sample_head_def THTTP_MESSAGE_CONTENT_LENGTH_def)
  obtain s1 where s1: "handle_message http_env 3 (sample_head ''OPTIONS'' None None) (sample_c2c True) = Some s1"
    using handle_options by (metis http_message.select_convs(1) sample_head_def)
  have rest: "frame_message (cc_H http_env) (cc_T http_env) (drop 7 (np_data (after_all verb n)))
      = Some (Framed 0 False (sample_head verb (Some ''chunked'') None))"
    if "verb = ''POST'' \<or> verb = ''GET''" "n = 60 \<or> n = 45" for verb n
    using that by (auto simp: after_all_def frame_message_def tsk_ref_def sample_parser_def http_ref_def sample_head_def
        read_chunks.simps numeral_eq_Suc)
  have again: "handle_again http_env 3 (sample_head verb (Some ''chunked'') None) j s \<noteq> None" for verb j s
    by (rule handle_again_all) (simp add: handle_message_def sample_head_def isJsonContentType_def getHttpContentType_def)
  have "c2c_onData http_env sample_transport (after_all verb n) 0 (sample_c2c True) = None \<longleftrightarrow> 57 \<le> n + 7"
    if m: "verb = ''POST'' \<or> verb = ''GET''" "n = 60 \<or> n = 45" for verb n
    using unfinished_chunks_hang [OF _ first _ rest [OF m], of "sample_c2c True" s1 "n + 7" sample_transport 0] s1 m(2)
      again [of verb _ s1] m(1) by (auto simp: after_all_def tsk_ref_laws kMPMaxStreamBufferSize_def)
  then show ?thesis by simp
qed

end
