(* ===== verification/Engine.thy ===== *)
theory Engine
  imports Calls C2CHttp
begin

text \<open>
  \<open>MPEngine\<close> (\<open>mp_engine.cc\<close>, \<open>mp_engine.h\<close>): the settings it passes to the SIP stack and to the media
  defaults, the objects of the click-to-call service it owns, and its start and stop. The calls into
  the stack and the media session manager are a log of \<open>setting\<close>s, each with the result the library
  gives. The peer table of the engine is the subject of \<open>Peers\<close> and \<open>Calls\<close>.
\<close>

section \<open>Settings\<close>

datatype tmedia_pref_video_size_t =
    tmedia_pref_video_size_sqcif | tmedia_pref_video_size_qcif | tmedia_pref_video_size_qvga
  | tmedia_pref_video_size_cif | tmedia_pref_video_size_hvga | tmedia_pref_video_size_vga
  | tmedia_pref_video_size_4cif | tmedia_pref_video_size_svga | tmedia_pref_video_size_480p
  | tmedia_pref_video_size_720p | tmedia_pref_video_size_16cif | tmedia_pref_video_size_1080p

datatype tmedia_srtp_mode_t = tmedia_srtp_mode_none | tmedia_srtp_mode_optional | tmedia_srtp_mode_mandatory

datatype tmedia_srtp_type_t = tmedia_srtp_type_sdes | tmedia_srtp_type_dtls

datatype debug_level = DEBUG_LEVEL_INFO | DEBUG_LEVEL_WARN | DEBUG_LEVEL_ERROR | DEBUG_LEVEL_FATAL

record ssl_info =
  pPrivateKey :: cstr
  pPublicKey :: cstr
  pCA :: cstr
  bVerify :: bool

text \<open>The calls: of the SIP stack, of the media defaults, and of the transports' TLS contexts.\<close>

datatype setting =
    StackMode
  | AddHeader string string
  | SetLocalIP cstr cstr
  | SetLocalPort nat cstr
  | StackSSL cstr cstr cstr bool
  | SetCodecs_2 u64
  | SetSTUNServer cstr nat
  | SetSTUNCred cstr cstr
  | SetSTUNEnabledForICE bool
  | SetMaxFDs int
  | AddDnsServer cstr
  | StackStart
  | StackStop
  | SetDebugLevel debug_level
  | RtpSymetricEnabled bool
  | Rel100Enabled bool
  | ByPassEncoding bool
  | ByPassDecoding bool
  | VideoJbEnabled bool
  | RtpBuffSize int
  | AvpfTail int int
  | PrefVideoSize tmedia_pref_video_size_t
  | CodecPriority string nat
  | OpusMaxPlaybackRate int
  | OpusMaxCaptureRate int
  | SRtpMode tmedia_srtp_mode_t
  | SRtpType "tmedia_srtp_type_t set"
  | DefaultStunServer cstr nat
  | DefaultStunCred cstr cstr
  | IceStunEnabled bool
  | DefaultMaxFds int
  | TransportSSL ssl_info
  | StackInitialize
  | RegisterPlugin plugin_kind
  | DefaultChroma plugin_kind string
  | AutoResizeDisplay bool
  | EchoSuppEnabled bool
  | AgcEnabled bool
  | NoiseSuppEnabled bool
  | IceEnabled bool
  | IceTurnEnabled bool
  | StaticCodecs u64

text \<open>The transports of the engine, each with its own network.\<close>

datatype transport_name = C2CTransport nat | RecaptchaTransport | MailTransport

text \<open>
  The libraries: results of the calls, network of each transport, strings, whether a text contains
  another, \<open>tsk_params_fromstring\<close> at \<open>;\<close>, the bit of a codec by the name of its enumerator and whether it
  is supported, URLs, the database files and the engine that opens them.
\<close>

record engine_env =
  ee_T :: tsk_api
  ee_ok :: "setting \<Rightarrow> bool"
  ee_net :: "transport_name \<Rightarrow> net_env"
  ee_H :: http_api
  ee_strcontains :: "string \<Rightarrow> string \<Rightarrow> bool"
  ee_params :: "string \<Rightarrow> string list option"
  ee_codec_id :: "string \<Rightarrow> u64"
  ee_codec_supported :: "string \<Rightarrow> bool"
  ee_callback :: bool
  ee_stack :: bool
  ee_db_file :: "string \<Rightarrow> sqdb"
  ee_faults :: sq_faults
  ee_handle :: bool
  ee_nAccountsCount :: u64
  ee_version :: string
  ee_initialized :: bool

record MPEngine =
  m_bValid :: bool
  m_bStarted :: bool
  m_pDtmfType :: cstr
  m_pC2CHttpDomain :: cstr
  m_SSL :: ssl_info
  eng_Db :: "MPDbSQLite option"
  m_C2CTransports :: "(MPNetTransport \<times> MPC2CTransport) list"
  eng_Mail :: "(MPNetTransport \<times> MPMailTransport) option"
  eng_Recaptcha :: "(MPNetTransport \<times> MPRecaptchaTransport) option"
  m_oAccountSipCallers :: "MPDbAccountSipCaller list"
  m_oMutex :: nat
  eng_log :: "setting list"

text \<open>One call: it is logged, and its result is the library's.\<close>

definition do_set :: "engine_env \<Rightarrow> setting \<Rightarrow> MPEngine \<Rightarrow> bool \<times> MPEngine" where
  "do_set E x e = (ee_ok E x, e\<lparr>eng_log := eng_log e @ [x]\<rparr>)"

text \<open>\<open>f() && g()\<close>: the second call only after the first has succeeded.\<close>

definition do_both :: "engine_env \<Rightarrow> setting \<Rightarrow> setting \<Rightarrow> MPEngine \<Rightarrow> bool \<times> MPEngine" where
  "do_both E x y e = (case do_set E x e of (ok, e1) \<Rightarrow> if ok then do_set E y e1 else (False, e1))"

text \<open>The guard of the settings that need the stack.\<close>

definition if_valid :: "(MPEngine \<Rightarrow> bool \<times> MPEngine) \<Rightarrow> MPEngine \<Rightarrow> bool \<times> MPEngine" where
  "if_valid f e = (if \<not> m_bValid e then (False, e) else f e)"

text \<open>What \<open>MPProxyPluginMgr::initialize\<close> sets, in its order; the results are ignored.\<close>

definition default_codecs :: "engine_env \<Rightarrow> u64" where
  "default_codecs E = fold (\<lambda>c m. or m (ee_codec_id E c))
     [''tmedia_codec_id_pcma'', ''tmedia_codec_id_pcmu'', ''tmedia_codec_id_gsm'', ''tmedia_codec_id_vp8'',
      ''tmedia_codec_id_h264_bp'', ''tmedia_codec_id_h264_mp'', ''tmedia_codec_id_h263'', ''tmedia_codec_id_h263p''] 0"

definition MPProxyPluginMgr_initialize :: "engine_env \<Rightarrow> setting list" where
  "MPProxyPluginMgr_initialize E =
     [RegisterPlugin AudioConsumer, RegisterPlugin AudioProducer, RegisterPlugin VideoProducer, RegisterPlugin VideoConsumer,
      DefaultChroma VideoConsumer ''tmedia_chroma_yuv420p'', DefaultChroma VideoProducer ''tmedia_chroma_yuv420p'',
      AutoResizeDisplay True, EchoSuppEnabled False, AgcEnabled False, NoiseSuppEnabled False, Rel100Enabled False,
      SRtpMode tmedia_srtp_mode_optional, SRtpType {tmedia_srtp_type_sdes, tmedia_srtp_type_dtls},
      PrefVideoSize tmedia_pref_video_size_vga, ByPassEncoding True, ByPassDecoding True, VideoJbEnabled False,
      RtpBuffSize 0xffff, RtpSymetricEnabled True, IceEnabled True, IceTurnEnabled False, AvpfTail 100 400,
      StaticCodecs (default_codecs E), OpusMaxCaptureRate 48000, OpusMaxPlaybackRate 48000]"

text \<open>
  The constructor. The first engine of the process initialises the stack and the plugins; the callback
  and the stack may be missing, and then the engine stays invalid.
\<close>

definition new_MPEngine :: "engine_env \<Rightarrow> MPEngine" where
  "new_MPEngine E =
     (let e0 = \<lparr>m_bValid = False, m_bStarted = False, m_pDtmfType = None, m_pC2CHttpDomain = None,
            m_SSL = \<lparr>pPrivateKey = None, pPublicKey = None, pCA = None, bVerify = False\<rparr>, eng_Db = None,
            m_C2CTransports = [], eng_Mail = None, eng_Recaptcha = None, m_oAccountSipCallers = [],
            m_oMutex = 0, eng_log = (if ee_initialized E then [] else StackInitialize # MPProxyPluginMgr_initialize E)\<rparr>
      in if \<not> ee_callback E \<or> \<not> ee_stack E then e0
         else case do_set E StackMode e0 of (ok, e1) \<Rightarrow>
           if \<not> ok then e1
           else (snd (do_set E (AddHeader ''User-Agent'' (''webrtc2sip Media Server '' @ ee_version E)) e1))\<lparr>m_bValid := True\<rparr>)"

definition debug_levels :: "(string \<times> debug_level) list" where
  "debug_levels = [(''INFO'', DEBUG_LEVEL_INFO), (''WARN'', DEBUG_LEVEL_WARN), (''ERROR'', DEBUG_LEVEL_ERROR),
     (''FATAL'', DEBUG_LEVEL_FATAL)]"

text \<open>The search of a table by name, without regard to case.\<close>

definition by_name :: "tsk_api \<Rightarrow> (string \<times> 'v) list \<Rightarrow> cstr \<Rightarrow> (string \<times> 'v) option" where
  "by_name T table name = find (\<lambda>p. tsk_striequals T (Some (fst p)) name) table"

definition setDebugLevel :: "engine_env \<Rightarrow> cstr \<Rightarrow> MPEngine \<Rightarrow> bool \<times> MPEngine" where
  "setDebugLevel E pcLevel e =
     (case by_name (ee_T E) debug_levels pcLevel of
        None \<Rightarrow> (False, e)
      | Some p \<Rightarrow> (True, snd (do_set E (SetDebugLevel (snd p)) e)))"

text \<open>\<open>addTransport\<close>: a click-to-call transport of the engine, or an address of the SIP stack.\<close>

definition addTransport :: "engine_env \<Rightarrow> cstr \<Rightarrow> nat \<Rightarrow> cstr \<Rightarrow> MPEngine \<Rightarrow> bool \<times> MPEngine" where
  "addTransport E pTransport nLocalPort pcLocalIP =
     if_valid (\<lambda>e.
       let is = (\<lambda>x. tsk_striequals (ee_T E) pTransport (Some x)) in
       if is ''c2c'' \<or> is ''c2cs'' then
         (case new_MPC2CTransport (ee_net E (C2CTransport (length (m_C2CTransports e)))) (is ''c2cs'') pcLocalIP nLocalPort (ee_nAccountsCount E) of
            None \<Rightarrow> (False, e)
          | Some (nt, t) \<Rightarrow> (True, e\<lparr>m_C2CTransports := m_C2CTransports e @ [(nt, setDb (eng_Db e) t)]\<rparr>))
       else (case do_set E (SetLocalIP pcLocalIP pTransport) e of (r1, e1) \<Rightarrow>
              (case do_set E (SetLocalPort nLocalPort pTransport) e1 of (r2, e2) \<Rightarrow> (r1 \<and> r2, e2))))"

definition setRtpSymetricEnabled :: "engine_env \<Rightarrow> bool \<Rightarrow> MPEngine \<Rightarrow> bool \<times> MPEngine" where
  "setRtpSymetricEnabled E b = if_valid (do_set E (RtpSymetricEnabled b))"

definition set100relEnabled :: "engine_env \<Rightarrow> bool \<Rightarrow> MPEngine \<Rightarrow> bool \<times> MPEngine" where
  "set100relEnabled E b = do_set E (Rel100Enabled b)"

definition setMediaCoderEnabled :: "engine_env \<Rightarrow> bool \<Rightarrow> MPEngine \<Rightarrow> bool \<times> MPEngine" where
  "setMediaCoderEnabled E b = do_both E (ByPassEncoding (\<not> b)) (ByPassDecoding (\<not> b))"

definition setVideoJbEnabled :: "engine_env \<Rightarrow> bool \<Rightarrow> MPEngine \<Rightarrow> bool \<times> MPEngine" where
  "setVideoJbEnabled E b = do_set E (VideoJbEnabled b)"

text \<open>The argument is not used.\<close>

definition setRtpBuffSize :: "engine_env \<Rightarrow> int \<Rightarrow> MPEngine \<Rightarrow> bool \<times> MPEngine" where
  "setRtpBuffSize E nSize = do_set E (RtpBuffSize 0xffff)"

definition setAvpfTail :: "engine_env \<Rightarrow> int \<Rightarrow> int \<Rightarrow> MPEngine \<Rightarrow> bool \<times> MPEngine" where
  "setAvpfTail E nMin nMax e = (if nMin = 0 \<or> nMax < nMin then (False, e) else do_set E (AvpfTail nMin nMax) e)"

definition pref_video_sizes :: "(string \<times> tmedia_pref_video_size_t) list" where
  "pref_video_sizes =
     [(''sqcif'', tmedia_pref_video_size_sqcif), (''qcif'', tmedia_pref_video_size_qcif), (''qvga'', tmedia_pref_video_size_qvga),
      (''cif'', tmedia_pref_video_size_cif), (''hvga'', tmedia_pref_video_size_hvga), (''vga'', tmedia_pref_video_size_vga),
      (''4cif'', tmedia_pref_video_size_4cif), (''svga'', tmedia_pref_video_size_svga), (''480p'', tmedia_pref_video_size_480p),
      (''720p'', tmedia_pref_video_size_720p), (''16cif'', tmedia_pref_video_size_16cif), (''1080p'', tmedia_pref_video_size_1080p)]"

definition setPrefVideoSize :: "engine_env \<Rightarrow> cstr \<Rightarrow> MPEngine \<Rightarrow> bool \<times> MPEngine" where
  "setPrefVideoSize E s =
     if_valid (\<lambda>e. case by_name (ee_T E) pref_video_sizes s of
       None \<Rightarrow> (False, e) | Some p \<Rightarrow> do_set E (PrefVideoSize (snd p)) e)"

definition setSSLCertificates :: "engine_env \<Rightarrow> cstr \<Rightarrow> cstr \<Rightarrow> cstr \<Rightarrow> bool \<Rightarrow> MPEngine \<Rightarrow> bool \<times> MPEngine" where
  "setSSLCertificates E priv pub ca verify =
     if_valid (\<lambda>e. do_set E (StackSSL priv pub ca verify)
       (e\<lparr>m_SSL := \<lparr>pPrivateKey = priv, pPublicKey = pub, pCA = ca, bVerify = verify\<rparr>\<rparr>))"


section \<open>Codecs\<close>

text \<open>The names of the configuration and the enumerators of tinyMEDIA they stand for.\<close>

definition aCodecNames :: "(string \<times> string) list" where
  "aCodecNames =
     [(''pcma'', ''tmedia_codec_id_pcma''), (''pcmu'', ''tmedia_codec_id_pcmu''), (''opus'', ''tmedia_codec_id_opus''),
      (''amr-nb-be'', ''tmedia_codec_id_amr_nb_be''), (''amr-nb-oa'', ''tmedia_codec_id_amr_nb_oa''),
      (''speex-nb'', ''tmedia_codec_id_speex_nb''), (''speex-wb'', ''tmedia_codec_id_speex_wb''),
      (''speex-uwb'', ''tmedia_codec_id_speex_uwb''), (''g729'', ''tmedia_codec_id_g729ab''), (''gsm'', ''tmedia_codec_id_gsm''),
      (''g722'', ''tmedia_codec_id_g722''), (''ilbc'', ''tmedia_codec_id_ilbc''), (''h264-bp'', ''tmedia_codec_id_h264_bp''),
      (''h264-mp'', ''tmedia_codec_id_h264_mp''), (''vp8'', ''tmedia_codec_id_vp8''), (''h263'', ''tmedia_codec_id_h263''),
      (''h263+'', ''tmedia_codec_id_h263p''), (''theora'', ''tmedia_codec_id_theora''), (''mp4v-es'', ''tmedia_codec_id_mp4ves_es'')]"

text \<open>
  One item of the list: a known codec is added to the mask, and takes the next priority if it is
  supported; an unknown one is skipped.
\<close>

definition add_codec :: "engine_env \<Rightarrow> string \<Rightarrow> u64 \<times> nat \<times> MPEngine \<Rightarrow> u64 \<times> nat \<times> MPEngine" where
  "add_codec E pcCodecName st =
     (case st of (nCodecs, nPriority, e) \<Rightarrow>
       (case by_name (ee_T E) aCodecNames (Some pcCodecName) of
          None \<Rightarrow> (nCodecs, nPriority, e)
        | Some (name, codec) \<Rightarrow>
            if \<not> ee_codec_supported E codec then (or nCodecs (ee_codec_id E codec), nPriority, e)
            else (or nCodecs (ee_codec_id E codec), nPriority + 1, snd (do_set E (CodecPriority codec nPriority) e))))"

definition setCodecs :: "engine_env \<Rightarrow> string \<Rightarrow> MPEngine \<Rightarrow> bool \<times> MPEngine" where
  "setCodecs E pcCodecs =
     if_valid (\<lambda>e.
       let items = (case ee_params E pcCodecs of None \<Rightarrow> [] | Some ps \<Rightarrow> ps);
           (nCodecs, nPriority, e1) = fold (add_codec E) items (ee_codec_id E ''tmedia_codec_id_none'', 0, e)
       in (True, snd (do_set E (SetCodecs_2 nCodecs) e1)))"

definition setCodecOpusMaxRates :: "engine_env \<Rightarrow> int \<Rightarrow> int \<Rightarrow> MPEngine \<Rightarrow> bool \<times> MPEngine" where
  "setCodecOpusMaxRates E play capture = do_both E (OpusMaxPlaybackRate play) (OpusMaxCaptureRate capture)"

section \<open>Media security, DTMF and NAT\<close>

definition setSRTPMode :: "engine_env \<Rightarrow> cstr \<Rightarrow> MPEngine \<Rightarrow> bool \<times> MPEngine" where
  "setSRTPMode E pcMode e =
     (let is = (\<lambda>x. tsk_striequals (ee_T E) pcMode (Some x)) in
      if pcMode = None then (False, e)
      else if is ''none'' then do_set E (SRtpMode tmedia_srtp_mode_none) e
      else if is ''optional'' then do_set E (SRtpMode tmedia_srtp_mode_optional) e
      else if is ''mandatory'' then do_set E (SRtpMode tmedia_srtp_mode_mandatory) e
      else (False, e))"

definition setSRTPType :: "engine_env \<Rightarrow> cstr \<Rightarrow> MPEngine \<Rightarrow> bool \<times> MPEngine" where
  "setSRTPType E types e =
     (case types of
        None \<Rightarrow> (False, e)
      | Some t \<Rightarrow> do_set E (SRtpType ((if ee_strcontains E t ''sdes'' then {tmedia_srtp_type_sdes} else {})
                                    \<union> (if ee_strcontains E t ''dtls'' then {tmedia_srtp_type_dtls} else {}))) e)"

definition setDtmfType :: "engine_env \<Rightarrow> cstr \<Rightarrow> MPEngine \<Rightarrow> bool \<times> MPEngine" where
  "setDtmfType E t e =
     (if t = None then (False, e)
      else if \<not> tsk_striequals (ee_T E) t (Some MP_DTMF_TYPE_RFC2833) \<and> \<not> tsk_striequals (ee_T E) t (Some MP_DTMF_TYPE_RFC4733)
      then (False, e)
      else (True, e\<lparr>m_pDtmfType := t\<rparr>))"

definition setStunServer :: "engine_env \<Rightarrow> cstr \<Rightarrow> nat \<Rightarrow> cstr \<Rightarrow> cstr \<Rightarrow> MPEngine \<Rightarrow> bool \<times> MPEngine" where
  "setStunServer E ip port usr pwd e =
     (let e1 = (if m_bValid e then snd (do_set E (SetSTUNCred usr pwd) (snd (do_set E (SetSTUNServer ip port) e))) else e)
      in do_both E (DefaultStunServer ip port) (DefaultStunCred usr pwd) e1)"

definition setIceStunEnabled :: "engine_env \<Rightarrow> bool \<Rightarrow> MPEngine \<Rightarrow> bool \<times> MPEngine" where
  "setIceStunEnabled E b e =
     do_set E (IceStunEnabled b) (if m_bValid e then snd (do_set E (SetSTUNEnabledForICE b) e) else e)"

definition setMaxFds :: "engine_env \<Rightarrow> int \<Rightarrow> MPEngine \<Rightarrow> bool \<times> MPEngine" where
  "setMaxFds E n e =
     (if 0 < n then
        (case do_set E (DefaultMaxFds n) e of (ok, e1) \<Rightarrow>
           if ok \<and> m_bValid e1 then do_set E (SetMaxFDs n) e1 else (ok, e1))
      else (True, e))"

definition addDNSServer :: "engine_env \<Rightarrow> cstr \<Rightarrow> MPEngine \<Rightarrow> bool \<times> MPEngine" where
  "addDNSServer E s = if_valid (do_set E (AddDnsServer s))"

section \<open>The click-to-call service\<close>

definition setDbInfo :: "engine_env \<Rightarrow> cstr \<Rightarrow> cstr \<Rightarrow> MPEngine \<Rightarrow> bool \<times> MPEngine" where
  "setDbInfo E t info e =
     (if eng_Db e \<noteq> None then (False, e)
      else if tsk_striequals (ee_T E) t (Some ''sqlite'')
      then (if tsk_strnullORempty (ee_T E) info then (False, e)
            else (True, e\<lparr>eng_Db := Some \<lparr>m_pEngine = False, m_bOpened = False, c_db = ee_db_file E (pct_s info),
                     calls = 0, slept = []\<rparr>\<rparr>))
      else (False, e))"

definition eng_setHttpDomain :: "cstr \<Rightarrow> MPEngine \<Rightarrow> bool \<times> MPEngine" where
  "eng_setHttpDomain d e = (True, e\<lparr>m_pC2CHttpDomain := d\<rparr>)"

text \<open>None is a failed assertion of a constructor.\<close>

definition setRecaptchaInfo :: "engine_env \<Rightarrow> cstr \<Rightarrow> cstr \<Rightarrow> MPEngine \<Rightarrow> (bool \<times> MPEngine) option" where
  "setRecaptchaInfo E url secret e =
     (if eng_Recaptcha e \<noteq> None then Some (False, e)
      else if tsk_strnullORempty (ee_T E) url \<or> tsk_strnullORempty (ee_T E) secret then Some (False, e)
      else map_option (\<lambda>t. (True, e\<lparr>eng_Recaptcha := Some t\<rparr>))
             (new_MPRecaptchaTransport (ee_net E RecaptchaTransport) (ee_H E) url secret))"

definition setMailAccountInfo ::
  "engine_env \<Rightarrow> cstr \<Rightarrow> cstr \<Rightarrow> nat \<Rightarrow> cstr \<Rightarrow> nat \<Rightarrow> cstr \<Rightarrow> cstr \<Rightarrow> cstr \<Rightarrow> MPEngine \<Rightarrow> (bool \<times> MPEngine) option" where
  "setMailAccountInfo E scheme ip port smtpHost smtpPort email authName authPwd e =
     (if eng_Mail e \<noteq> None then Some (False, e)
      else if smtpHost = None \<or> smtpPort = 0 \<or> authName = None \<or> authPwd = None then Some (False, e)
      else
        let smtp = tsk_striequals (ee_T E) scheme (Some ''smtp''); smtps = tsk_striequals (ee_T E) scheme (Some ''smtps'') in
        if \<not> smtp \<and> \<not> smtps then Some (False, e)
        else map_option (\<lambda>t. (True, e\<lparr>eng_Mail := Some t\<rparr>))
          (new_MPMailTransport (ee_net E MailTransport) (\<not> smtp \<and> smtps) ip port smtpHost smtpPort email authName authPwd))"

text \<open>A SIP caller of the configuration, with the digest of its password; None is a failed assertion.\<close>

definition eng_addAccountSipCaller ::
  "engine_env \<Rightarrow> cstr \<Rightarrow> cstr \<Rightarrow> cstr \<Rightarrow> cstr \<Rightarrow> cstr \<Rightarrow> MPEngine \<Rightarrow> (bool \<times> MPEngine) option" where
  "eng_addAccountSipCaller E displayName impu impi realm pw e =
     (case (impu, impi, realm) of
        (Some u, Some i, Some r) \<Rightarrow>
          let ha1 = tsk_md5compute (ee_T E) (i @ '':'' @ r @ '':'' @ pct_s pw) in
          Some (True, e\<lparr>m_oAccountSipCallers := m_oAccountSipCallers e @
            [new_MPDbAccountSipCaller MPDB_ACCOUNT_SIP_INVALID_ID displayName impu impi realm (Some ha1) MPDB_ACCOUNT_INVALID_ID]\<rparr>)
      | _ \<Rightarrow> None)"

section \<open>Start and stop\<close>

definition mutex_lock :: "MPEngine \<Rightarrow> MPEngine" where "mutex_lock e = e\<lparr>m_oMutex := m_oMutex e + 1\<rparr>"
definition mutex_unlock :: "MPEngine \<Rightarrow> MPEngine" where "mutex_unlock e = e\<lparr>m_oMutex := m_oMutex e - 1\<rparr>"

text \<open>
  The click-to-call transports refer to the database, the mail and the reCAPTCHA transport of the
  engine: what happens to those is seen by every transport that was given the reference.
\<close>

definition relink :: "'v option \<Rightarrow> 'v option \<Rightarrow> 'v option" where
  "relink old new = (case old of None \<Rightarrow> None | Some _ \<Rightarrow> new)"

definition share :: "MPEngine \<Rightarrow> MPEngine" where
  "share e = e\<lparr>m_C2CTransports := map (\<lambda>(nt, t). (nt, t\<lparr>m_oDb := relink (m_oDb t) (eng_Db e),
      m_oMailTransport := relink (m_oMailTransport t) (eng_Mail e),
      m_oRecaptchaTransport := relink (m_oRecaptchaTransport t) (eng_Recaptcha e)\<rparr>)) (m_C2CTransports e)\<rparr>"

text \<open>What starts a transport: its TLS context, the host filter, and the network.\<close>

definition start_transport :: "engine_env \<Rightarrow> transport_name \<Rightarrow> MPEngine \<Rightarrow> MPNetTransport \<Rightarrow> bool \<times> MPNetTransport \<times> MPEngine" where
  "start_transport E name e nt =
     (let e1 = snd (do_set E (TransportSSL (m_SSL e)) e);
          nt1 = snd (setAllowedRemoteHost (m_pC2CHttpDomain e) nt);
          (ok, nt2) = net_start (ee_net E name) nt1
      in (ok, nt2, e1))"

text \<open>The loop over the click-to-call transports; it stops at the first that does not start.\<close>

fun start_c2c :: "engine_env \<Rightarrow> nat \<Rightarrow> (MPNetTransport \<times> MPC2CTransport) list \<Rightarrow> MPEngine \<Rightarrow>
    bool \<times> (MPNetTransport \<times> MPC2CTransport) list \<times> MPEngine" where
  "start_c2c E i [] e = (True, [], e)"
| "start_c2c E i ((nt, t) # ts) e =
     (let t1 = setRecaptchaTransport (eng_Recaptcha e) (setMailTransport (eng_Mail e) (setDb (eng_Db e) t));
          (ok, nt1, e1) = start_transport E (C2CTransport i) (e\<lparr>eng_Recaptcha := m_oRecaptchaTransport t1\<rparr>) nt
      in if \<not> ok then (False, (nt1, t1) # ts, e1)
         else (case start_c2c E (Suc i) ts e1 of (ok2, ts2, e2) \<Rightarrow> (ok2, (nt1, t1) # ts2, e2)))"

text \<open>The body of \<open>start\<close> after the database is open, up to the label \<open>bail\<close>: the code \<open>ret\<close>.\<close>

definition start_services :: "engine_env \<Rightarrow> MPEngine \<Rightarrow> int \<times> MPEngine" where
  "start_services E e =
     (case start_c2c E 0 (m_C2CTransports e) e of (ok, ts, e1) \<Rightarrow>
        let e2 = e1\<lparr>m_C2CTransports := ts\<rparr> in
        if \<not> ok then (-3, e2)
        else
          let (ok3, e3) = (case eng_Recaptcha e2 of
                 None \<Rightarrow> (True, e2)
               | Some (nt, t) \<Rightarrow> (case start_transport E RecaptchaTransport e2 nt of (ok, nt1, e') \<Rightarrow>
                     (ok, e'\<lparr>eng_Recaptcha := Some (nt1, t)\<rparr>)))
          in if \<not> ok3 then (-4, e3)
          else
            let (ok4, e4) = (case eng_Mail e3 of
                   None \<Rightarrow> (True, e3)
                 | Some (nt, t) \<Rightarrow> (case start_transport E MailTransport e3 nt of (ok, nt1, e') \<Rightarrow>
                       (ok, e'\<lparr>eng_Mail := Some (nt1, t)\<rparr>)))
            in if \<not> ok4 then (-5, e4)
            else (case do_set E StackStart e4 of (ok5, e5) \<Rightarrow>
                    if ok5 then (0, e5\<lparr>m_bStarted := True\<rparr>) else (-2, e5)))"

text \<open>\<open>start\<close>. A database that does not open makes it return with the mutex locked.\<close>

definition eng_start :: "engine_env \<Rightarrow> MPEngine \<Rightarrow> bool \<times> MPEngine" where
  "eng_start E e0 =
     (let e = mutex_lock e0 in
      if m_bStarted e then (True, mutex_unlock e)
      else if \<not> m_bValid e then (False, mutex_unlock e)
      else
        let (ok, db) = (case eng_Db e of None \<Rightarrow> (True, None)
               | Some c \<Rightarrow> (case open_db (ee_faults E) (ee_handle E) c of (ok, c1) \<Rightarrow> (ok, Some c1)));
            e1 = e\<lparr>eng_Db := db\<rparr>
        in if \<not> ok then (False, share e1)
           else (case start_services E e1 of (ret, e2) \<Rightarrow> (ret = 0, mutex_unlock (share e2))))"

text \<open>The loop of \<open>stop\<close>: the integer \<open>ret\<close> takes the last boolean.\<close>

fun stop_c2c :: "engine_env \<Rightarrow> nat \<Rightarrow> int \<Rightarrow> (MPNetTransport \<times> MPC2CTransport) list \<Rightarrow> int \<times> (MPNetTransport \<times> MPC2CTransport) list" where
  "stop_c2c E i ret [] = (ret, [])"
| "stop_c2c E i ret ((nt, t) # ts) =
     (case net_stop (ee_net E (C2CTransport i)) nt of (ok, nt1, _) \<Rightarrow>
        (case stop_c2c E (Suc i) (if ok then 1 else 0) ts of (ret2, ts2) \<Rightarrow> (ret2, (nt1, t) # ts2)))"

text \<open>\<open>stop\<close>; the reCAPTCHA transport is not stopped.\<close>

definition eng_stop :: "engine_env \<Rightarrow> MPEngine \<Rightarrow> bool \<times> MPEngine" where
  "eng_stop E e0 =
     (let e = mutex_lock e0 in
      if \<not> m_bStarted e then (True, mutex_unlock e)
      else if \<not> m_bValid e then (False, mutex_unlock e)
      else
        let e1 = e\<lparr>eng_Db := map_option (\<lambda>c. snd (close_db c)) (eng_Db e)\<rparr>;
            (ret1, ts) = stop_c2c E 0 0 (m_C2CTransports e1);
            e2 = e1\<lparr>m_C2CTransports := ts\<rparr>;
            (ret2, e3) = (case eng_Mail e2 of
               None \<Rightarrow> (ret1, e2)
             | Some (nt, t) \<Rightarrow> (case net_stop (ee_net E MailTransport) nt of (ok, nt1, _) \<Rightarrow>
                   ((if ok then 1 else 0), e2\<lparr>eng_Mail := Some (nt1, t)\<rparr>)));
            (ok, e4) = do_set E StackStop e3
        in if ok then (ret2 = 0, mutex_unlock (share (e4\<lparr>m_bStarted := False\<rparr>)))
           else (False, mutex_unlock (share e4)))"


section \<open>Lemmas\<close>

lemma do_set_simps [simp]:
  "fst (do_set E x e) = ee_ok E x" "m_oMutex (snd (do_set E x e)) = m_oMutex e"
  "m_bStarted (snd (do_set E x e)) = m_bStarted e" "eng_Db (snd (do_set E x e)) = eng_Db e"
  "eng_Mail (snd (do_set E x e)) = eng_Mail e" "eng_Recaptcha (snd (do_set E x e)) = eng_Recaptcha e"
  "m_C2CTransports (snd (do_set E x e)) = m_C2CTransports e" "m_pC2CHttpDomain (snd (do_set E x e)) = m_pC2CHttpDomain e"
  "m_bValid (snd (do_set E x e)) = m_bValid e"
  by (simp_all add: do_set_def)

text \<open>A transport after the attempt to start it.\<close>

definition started_nt :: "engine_env \<Rightarrow> transport_name \<Rightarrow> cstr \<Rightarrow> MPNetTransport \<Rightarrow> MPNetTransport" where
  "started_nt E name domain nt = snd (net_start (ee_net E name) (nt\<lparr>nt_pAllowedRemoteHost := domain\<rparr>))"

lemma start_transport_eq:
  "start_transport E name e nt =
     (ne_start (ee_net E name) = 0, started_nt E name (m_pC2CHttpDomain e) nt, snd (do_set E (TransportSSL (m_SSL e)) e))"
  by (simp add: start_transport_def started_nt_def setAllowedRemoteHost_def net_start_def Let_def split: prod.split)

lemma started_nt_simps [simp]:
  "nt_bStarted (started_nt E name d nt) \<longleftrightarrow> ne_start (ee_net E name) = 0"
  "nt_pAllowedRemoteHost (started_nt E name d nt) = d"
  by (simp_all add: started_nt_def net_start_def Let_def)

definition c2c_starts :: "engine_env \<Rightarrow> nat \<Rightarrow> nat \<Rightarrow> bool" where
  "c2c_starts E i n \<longleftrightarrow> (\<forall>j < n. ne_start (ee_net E (C2CTransport (i + j))) = 0)"

lemma c2c_starts_Suc: "c2c_starts E i (Suc n) \<longleftrightarrow> ne_start (ee_net E (C2CTransport i)) = 0 \<and> c2c_starts E (Suc i) n"
  by (simp add: c2c_starts_def less_Suc_eq_0_disj) (metis add.commute add_Suc_right add_0_right)

text \<open>What the loop leaves of the engine.\<close>

definition same_engine :: "MPEngine \<Rightarrow> MPEngine \<Rightarrow> bool" where
  "same_engine e e' \<longleftrightarrow> m_oMutex e' = m_oMutex e \<and> m_bStarted e' = m_bStarted e \<and> m_bValid e' = m_bValid e
     \<and> eng_Db e' = eng_Db e \<and> m_pC2CHttpDomain e' = m_pC2CHttpDomain e \<and> (eng_Mail e' = None) = (eng_Mail e = None)
     \<and> (eng_Recaptcha e' = None) = (eng_Recaptcha e = None)"

lemma same_engine_refl [simp]: "same_engine e e"
  by (simp add: same_engine_def)

lemma same_engine_trans: "same_engine a b \<Longrightarrow> same_engine b c \<Longrightarrow> same_engine a c"
  by (simp add: same_engine_def)

lemma start_c2c_spec:
  assumes "start_c2c E i ts e = (ok, ts', e')"
  shows "ok = c2c_starts E i (length ts) \<and> same_engine e e' \<and> length ts' = length ts
    \<and> (ok \<longrightarrow> (\<forall>(nt, t) \<in> set ts'. nt_bStarted nt \<and> nt_pAllowedRemoteHost nt = m_pC2CHttpDomain e \<and> m_oDb t = eng_Db e
        \<and> (m_oMailTransport t = None) = (eng_Mail e = None) \<and> (m_oRecaptchaTransport t = None) = (eng_Recaptcha e = None)))"
  using assms
proof (induction ts arbitrary: i e ts' ok e')
  case Nil
  then show ?case by (simp add: c2c_starts_def)
next
  case (Cons x ts)
  obtain nt t where x: "x = (nt, t)" by fastforce
  let ?t1 = "setRecaptchaTransport (eng_Recaptcha e) (setMailTransport (eng_Mail e) (setDb (eng_Db e) t))"
  let ?e0 = "e\<lparr>eng_Recaptcha := m_oRecaptchaTransport ?t1\<rparr>"
  let ?e1 = "snd (do_set E (TransportSSL (m_SSL ?e0)) ?e0)"
  have t1: "m_oDb ?t1 = eng_Db e" "m_oMailTransport ?t1 = eng_Mail e" "(m_oRecaptchaTransport ?t1 = None) = (eng_Recaptcha e = None)"
    by (simp_all add: setRecaptchaTransport_def setMailTransport_def setDb_def)
  have e1: "same_engine e ?e1" using t1(3) by (simp add: same_engine_def)
  show ?case
  proof (cases "ne_start (ee_net E (C2CTransport i)) = 0")
    case True
    obtain ok2 ts2 e2 where r: "start_c2c E (Suc i) ts ?e1 = (ok2, ts2, e2)" by (metis prod.exhaust)
    note IH = Cons.IH [OF r]
    have "ok = ok2" "ts' = (started_nt E (C2CTransport i) (m_pC2CHttpDomain e) nt, ?t1) # ts2" "e' = e2"
      using Cons.prems r True by (simp_all add: x start_transport_eq Let_def)
    then show ?thesis using IH True t1 e1 same_engine_trans [OF e1]
      by (auto simp: c2c_starts_Suc same_engine_def)
  next
    case False
    then show ?thesis using Cons.prems e1 by (auto simp: x start_transport_eq Let_def c2c_starts_Suc)
  qed
qed


text \<open>What the start of the engine depends on.\<close>

definition db_opens :: "engine_env \<Rightarrow> MPEngine \<Rightarrow> bool" where
  "db_opens E e \<longleftrightarrow> (case eng_Db e of None \<Rightarrow> True | Some c \<Rightarrow> fst (open_db (ee_faults E) (ee_handle E) c))"

definition opened_db :: "engine_env \<Rightarrow> MPEngine \<Rightarrow> MPDbSQLite option" where
  "opened_db E e = map_option (\<lambda>c. snd (open_db (ee_faults E) (ee_handle E) c)) (eng_Db e)"

definition services_start :: "engine_env \<Rightarrow> MPEngine \<Rightarrow> bool" where
  "services_start E e \<longleftrightarrow> c2c_starts E 0 (length (m_C2CTransports e))
     \<and> (eng_Recaptcha e \<noteq> None \<longrightarrow> ne_start (ee_net E RecaptchaTransport) = 0)
     \<and> (eng_Mail e \<noteq> None \<longrightarrow> ne_start (ee_net E MailTransport) = 0) \<and> ee_ok E StackStart"

text \<open>A click-to-call transport that serves: started, with the filter of the engine and its database.\<close>

definition serves :: "cstr \<Rightarrow> MPDbSQLite option \<Rightarrow> MPNetTransport \<times> MPC2CTransport \<Rightarrow> bool" where
  "serves domain db p \<longleftrightarrow> nt_bStarted (fst p) \<and> nt_pAllowedRemoteHost (fst p) = domain \<and> m_oDb (snd p) = db"

lemma start_services_spec:
  assumes "start_services E e = (ret, e')" and "\<not> m_bStarted e"
  shows "(ret = 0 \<longleftrightarrow> services_start E e) \<and> m_bStarted e' = (ret = 0) \<and> m_oMutex e' = m_oMutex e \<and> eng_Db e' = eng_Db e
    \<and> length (m_C2CTransports e') = length (m_C2CTransports e)
    \<and> (ret = 0 \<longrightarrow> (\<forall>p \<in> set (m_C2CTransports e'). serves (m_pC2CHttpDomain e) (eng_Db e) p))"
proof -
  obtain ok ts e1 where c: "start_c2c E 0 (m_C2CTransports e) e = (ok, ts, e1)" by (metis prod.exhaust)
  have cs: "ok = c2c_starts E 0 (length (m_C2CTransports e))" "same_engine e e1" "length ts = length (m_C2CTransports e)"
      "ok \<longrightarrow> (\<forall>p \<in> set ts. serves (m_pC2CHttpDomain e) (eng_Db e) p)"
    using start_c2c_spec [OF c] by (auto simp: serves_def)
  show ?thesis
  proof (cases ok)
    case False
    then show ?thesis using assms c cs
      by (auto simp: start_services_def services_start_def same_engine_def)
  next
    case True
    show ?thesis
      using assms c cs True
      by (auto simp: start_services_def services_start_def same_engine_def start_transport_eq Let_def do_set_def
               split: option.splits if_splits prod.splits)
  qed
qed

lemma share_simps [simp]:
  "m_bStarted (share e) = m_bStarted e" "m_oMutex (share e) = m_oMutex e" "eng_Db (share e) = eng_Db e"
  "length (m_C2CTransports (share e)) = length (m_C2CTransports e)" "m_bValid (share e) = m_bValid e"
  by (simp_all add: share_def)

lemma serves_shared:
  assumes "\<forall>p \<in> set (m_C2CTransports e). serves d (eng_Db e) p"
  shows "\<forall>p \<in> set (m_C2CTransports (share e)). serves d (eng_Db e) p"
  using assms by (fastforce simp: share_def serves_def relink_def split: option.splits)

lemma engine_started:
  assumes "m_bValid e" and "\<not> m_bStarted e" and "eng_start E e = (ok, e')"
  shows "(ok \<longleftrightarrow> db_opens E e \<and> services_start E e) \<and> m_bStarted e' = ok
    \<and> m_oMutex e' = (if db_opens E e then m_oMutex e else m_oMutex e + 1)
    \<and> (ok \<longrightarrow> (\<forall>p \<in> set (m_C2CTransports e'). serves (m_pC2CHttpDomain e) (opened_db E e) p))"
proof -
  let ?e1 = "(mutex_lock e)\<lparr>eng_Db := opened_db E e\<rparr>"
  have sv: "services_start E ?e1 = services_start E e" by (simp add: services_start_def mutex_lock_def)
  have st: "eng_start E e = (if \<not> db_opens E e then (False, share ?e1)
      else (case start_services E ?e1 of (ret, e2) \<Rightarrow> (ret = 0, mutex_unlock (share e2))))"
    using assms(1,2)
    by (auto simp: eng_start_def Let_def mutex_lock_def db_opens_def opened_db_def split: option.splits prod.splits)
  show ?thesis
  proof (cases "db_opens E e")
    case False
    then show ?thesis using assms st by (auto simp: mutex_lock_def)
  next
    case True
    obtain ret e2 where s: "start_services E ?e1 = (ret, e2)" by fastforce
    have "\<not> m_bStarted ?e1" using assms(2) by (simp add: mutex_lock_def)
    note sp = start_services_spec [OF s this]
    have r: "ok = (ret = 0)" "e' = mutex_unlock (share e2)" using assms(3) st s True by simp_all
    have "ok \<longrightarrow> (\<forall>p \<in> set (m_C2CTransports (share e2)). serves (m_pC2CHttpDomain e) (opened_db E e) p)"
      using sp r(1) serves_shared [of e2 "m_pC2CHttpDomain e"] by (simp add: mutex_lock_def)
    then show ?thesis using sp r True sv by (simp add: mutex_unlock_def mutex_lock_def)
  qed
qed


text \<open>
  C22. The start of a valid engine. It succeeds exactly if the database opens, every transport and the
  stack start; then every click-to-call transport is started, filters by the configured host and
  works on the database that was opened. It leaves the mutex as it was, but locked once more after
  a database that does not open.
\<close>

theorem engine_start_outcome:
  assumes "m_bValid e" and "\<not> m_bStarted e" and "eng_start E e = (ok, e')"
  shows "(ok \<longleftrightarrow> db_opens E e \<and> services_start E e) \<and> m_bStarted e' = ok
    \<and> m_oMutex e' = (if db_opens E e then m_oMutex e else m_oMutex e + 1)
    \<and> (ok \<longrightarrow> (\<forall>p \<in> set (m_C2CTransports e'). serves (m_pC2CHttpDomain e) (opened_db E e) p))"
  using engine_started [OF assms] .

text \<open>The stop: the state of every transport, and what the last call returned.\<close>

definition stopped :: "MPNetTransport \<times> 'v \<Rightarrow> MPNetTransport \<times> 'v" where
  "stopped p = ((fst p)\<lparr>nt_bStarted := False\<rparr>, snd p)"

lemma stop_c2c_spec:
  "stop_c2c E i ret ts = (if ts = [] then ret else if ne_shutdown (ee_net E (C2CTransport (i + length ts - 1))) = 0 then 1 else 0, map stopped ts)"
  by (induction E i ret ts rule: stop_c2c.induct) (auto simp: net_stop_def stopped_def split: prod.splits)

text \<open>The transport that is stopped last.\<close>

definition last_stopped :: "MPEngine \<Rightarrow> transport_name option" where
  "last_stopped e = (if eng_Mail e \<noteq> None then Some MailTransport
     else if m_C2CTransports e = [] then None else Some (C2CTransport (length (m_C2CTransports e) - 1)))"

text \<open>
  The stop of a running engine whose stack stops: every click-to-call transport and the mail
  transport are stopped, the database is closed and the engine no longer counts as started, but the
  reCAPTCHA transport is left as it is; and the result is the reverse of what the last transport
  reported: true if it failed to stop, false if it stopped.
\<close>

theorem engine_stop_reports:
  assumes "m_bValid e" and "m_bStarted e" and "ee_ok E StackStop" and "eng_stop E e = (ok, e')"
  shows "\<not> m_bStarted e' \<and> m_oMutex e' = m_oMutex e
    \<and> (ok \<longleftrightarrow> (case last_stopped e of None \<Rightarrow> True | Some x \<Rightarrow> ne_shutdown (ee_net E x) \<noteq> 0))
    \<and> map (nt_bStarted \<circ> fst) (m_C2CTransports e') = map (\<lambda>_. False) (m_C2CTransports e)
    \<and> eng_Mail e' = map_option stopped (eng_Mail e) \<and> eng_Recaptcha e' = eng_Recaptcha e
    \<and> eng_Db e' = map_option (\<lambda>c. snd (close_db c)) (eng_Db e)"
  using assms
  by (auto simp: eng_stop_def Let_def mutex_lock_def mutex_unlock_def stop_c2c_spec net_stop_def last_stopped_def stopped_def
      do_set_def share_def split: option.splits if_splits)

section \<open>Witnesses\<close>

definition sample_engine_env :: engine_env where
  "sample_engine_env = \<lparr>ee_T = tsk_ref, ee_ok = \<lambda>_. True, ee_net = \<lambda>_. sample_net_env, ee_H = http_ref (\<lambda>s. None),
     ee_strcontains = \<lambda>t s. t = s, ee_params = \<lambda>s. Some [s], ee_codec_id = \<lambda>s. 1, ee_codec_supported = \<lambda>s. True,
     ee_callback = True, ee_stack = True, ee_db_file = \<lambda>_. empty_db, ee_faults = no_faults, ee_handle = True,
     ee_nAccountsCount = 0, ee_version = ''2.7.0'', ee_initialized = False\<rparr>"

definition sample_engine :: MPEngine where
  "sample_engine = snd (addTransport sample_engine_env (Some ''c2c'') 10062 None
     (snd (eng_setHttpDomain (Some ''a.b'') (snd (setDbInfo sample_engine_env (Some ''sqlite'') (Some ''x.db'') (new_MPEngine sample_engine_env))))))"

lemma sample_engine_simps [simp]:
  "m_bValid sample_engine" "\<not> m_bStarted sample_engine" "m_oMutex sample_engine = 0" "length (m_C2CTransports sample_engine) = 1"
  "m_pC2CHttpDomain sample_engine = Some ''a.b''" "eng_Mail sample_engine = None" "eng_Recaptcha sample_engine = None"
  "eng_Db sample_engine = Some (snd (close_db (fresh_conn empty_db)))" "m_C2CTransports sample_engine \<noteq> []"
  by (simp_all add: sample_engine_def sample_engine_env_def addTransport_def if_valid_def eng_setHttpDomain_def setDbInfo_def
      new_MPEngine_def do_set_def Let_def tsk_ref_def new_MPC2CTransport_def new_MPNetTransport_def fresh_conn_def close_db_def
      MPNetTransporType_isStream_def)

lemma sample_engine_starts [simp]:
  "db_opens sample_engine_env sample_engine" "services_start sample_engine_env sample_engine"
  by (simp_all add: db_opens_def services_start_def c2c_starts_def sample_engine_env_def sample_net_env_def open_db_def
      close_db_def fresh_conn_def sq_call_def no_faults_def sqlite_codes Let_def)

theorem engine_start_outcome_witness:
  "fst (eng_start sample_engine_env sample_engine) \<and> m_bStarted (snd (eng_start sample_engine_env sample_engine))
     \<and> m_oMutex (snd (eng_start sample_engine_env sample_engine)) = 0"
  using engine_start_outcome [of sample_engine sample_engine_env "fst (eng_start sample_engine_env sample_engine)"
      "snd (eng_start sample_engine_env sample_engine)"] by simp

theorem engine_stop_reports_witness:
  "\<not> fst (eng_stop sample_engine_env (sample_engine\<lparr>m_bStarted := True\<rparr>))
     \<and> \<not> m_bStarted (snd (eng_stop sample_engine_env (sample_engine\<lparr>m_bStarted := True\<rparr>)))"
proof -
  let ?e = "sample_engine\<lparr>m_bStarted := True\<rparr>"
  have "last_stopped ?e = Some (C2CTransport 0)" using sample_engine_simps(4) by (auto simp: last_stopped_def)
  moreover have "ne_shutdown (ee_net sample_engine_env x) = 0" "ee_ok sample_engine_env StackStop" for x
    by (simp_all add: sample_engine_env_def sample_net_env_def)
  ultimately show ?thesis
    using engine_stop_reports [of ?e sample_engine_env "fst (eng_stop sample_engine_env ?e)" "snd (eng_stop sample_engine_env ?e)"]
    by simp
qed

end
