(* ===== verification/Config.thy ===== *)
theory Config
  imports Engine
begin

text \<open>
  The command line, the XML configuration and the main function (\<open>mp_mediaproxy.cc\<close>). The tree that
  libxml2 builds is data; the texts of the tree are given to the setters of the engine by the name of
  the element they stand in. None is the end of the process by an assertion or a NULL dereference.
\<close>

section \<open>The document\<close>

text \<open>
  A node with its name and children. A text has no children; the third case is every other type.
\<close>

datatype xml_node =
    XML_ELEMENT_NODE string "xml_node list"
  | XML_TEXT_NODE cstr
  | XML_OTHER_NODE cstr "xml_node list"

text \<open>
  The libraries: comparisons of a prefix, and the parser of files, which gives nothing for a file it
  cannot read, and else the root element with the nodes after it, if there is one.
\<close>

record config_env =
  cf_E :: engine_env
  cf_strniequals :: "string \<Rightarrow> string \<Rightarrow> nat \<Rightarrow> bool"
  cf_strnicmp :: "string \<Rightarrow> string \<Rightarrow> nat \<Rightarrow> int"
  cf_xmlReadFile :: "string \<Rightarrow> xml_node list option option"

abbreviation cf_T :: "config_env \<Rightarrow> tsk_api" where "cf_T C \<equiv> ee_T (cf_E C)"

definition strniequals_law :: "config_env \<Rightarrow> bool" where
  "strniequals_law C \<longleftrightarrow> (\<forall>a b n. cf_strniequals C a b n \<longleftrightarrow> map ascii_lower (take n a) = map ascii_lower (take n b))"

definition kSQLiteConnectionInfo :: string where "kSQLiteConnectionInfo = ''./c2c_sqlite.db''"

definition mp_str_is :: "config_env \<Rightarrow> cstr \<Rightarrow> string \<Rightarrow> bool" where
  "mp_str_is C s v = tsk_striequals (cf_T C) s (Some v)"

definition mp_str_is_star :: "config_env \<Rightarrow> cstr \<Rightarrow> bool" where "mp_str_is_star C s = mp_str_is C s ''*''"
definition mp_str_is_yes :: "config_env \<Rightarrow> cstr \<Rightarrow> bool" where "mp_str_is_yes C s = mp_str_is C s ''yes''"

text \<open>\<open>star ? NULL : value\<close>.\<close>

definition unless_star :: "config_env \<Rightarrow> cstr \<Rightarrow> cstr" where
  "unless_star C s = (if mp_str_is_star C s then None else s)"

text \<open>
  \<open>atoi\<close>: white space, a sign, digits. The value of a numeral beyond \<open>int\<close> is undefined in C; here it is
  the number. A port is an \<open>unsigned short\<close>.
\<close>

fun digits_of :: "string \<Rightarrow> int \<Rightarrow> int" where
  "digits_of [] n = n"
| "digits_of (c # s) n = (if CHR ''0'' \<le> c \<and> c \<le> CHR ''9'' then digits_of s (10 * n + (of_char c - 48)) else n)"

definition atoi :: "string \<Rightarrow> int" where
  "atoi s = (case dropWhile (\<lambda>c. c \<in> {CHR '' '', CHR 0x09, CHR 0x0A, CHR 0x0B, CHR 0x0C, CHR 0x0D}) s of
       [] \<Rightarrow> 0
     | c # r \<Rightarrow> if c = CHR ''-'' then - digits_of r 0 else if c = CHR ''+'' then digits_of r 0 else digits_of (c # r) 0)"

definition port_of :: "string \<Rightarrow> nat" where "port_of s = nat (atoi s mod 65536)"

section \<open>The options\<close>

text \<open>What a text sets: the result of the setter is only logged.\<close>

type_synonym config_option = "string \<Rightarrow> MPEngine \<Rightarrow> MPEngine option"

definition logged :: "(MPEngine \<Rightarrow> bool \<times> MPEngine) \<Rightarrow> MPEngine \<Rightarrow> MPEngine option" where
  "logged f e = Some (snd (f e))"

definition logged_opt :: "(MPEngine \<Rightarrow> (bool \<times> MPEngine) option) \<Rightarrow> MPEngine \<Rightarrow> MPEngine option" where
  "logged_opt f e = map_option snd (f e)"

text \<open>The parameters between \<open>;\<close>, when there are as many as the option needs.\<close>

definition with_params :: "config_env \<Rightarrow> (nat \<Rightarrow> bool) \<Rightarrow> (string list \<Rightarrow> MPEngine \<Rightarrow> MPEngine option) \<Rightarrow> config_option" where
  "with_params C enough f s e =
     (case ee_params (cf_E C) s of None \<Rightarrow> Some e | Some ps \<Rightarrow> if enough (length ps) then f ps e else Some e)"

definition config_transport :: "config_env \<Rightarrow> config_option" where
  "config_transport C = with_params C (\<lambda>n. n = 3) (\<lambda>ps. logged (addTransport (cf_E C) (Some (ps ! 0))
     (if mp_str_is_star C (Some (ps ! 2)) then 0 else port_of (ps ! 2)) (unless_star C (Some (ps ! 1)))))"

definition config_avpf :: "config_env \<Rightarrow> config_option" where
  "config_avpf C = with_params C (\<lambda>n. n = 2) (\<lambda>ps. logged (setAvpfTail (cf_E C) (atoi (ps ! 0)) (atoi (ps ! 1))))"

definition config_ssl :: "config_env \<Rightarrow> config_option" where
  "config_ssl C = with_params C (\<lambda>n. 3 \<le> n) (\<lambda>ps. logged (setSSLCertificates (cf_E C) (unless_star C (Some (ps ! 0)))
     (unless_star C (Some (ps ! 1))) (unless_star C (Some (ps ! 2)))
     (mp_str_is_yes C (Some (if 3 < length ps then ps ! 3 else ''no'')))))"

definition config_opus :: "config_env \<Rightarrow> config_option" where
  "config_opus C = with_params C (\<lambda>n. n = 2) (\<lambda>ps. logged (setCodecOpusMaxRates (cf_E C) (atoi (ps ! 0)) (atoi (ps ! 1))))"

definition config_stun :: "config_env \<Rightarrow> config_option" where
  "config_stun C = with_params C (\<lambda>n. 2 \<le> n) (\<lambda>ps. logged (setStunServer (cf_E C) (Some (ps ! 0)) (port_of (ps ! 1))
     (unless_star C (if 3 \<le> length ps then Some (ps ! 2) else None))
     (unless_star C (if 4 \<le> length ps then Some (ps ! 3) else None))))"

definition config_database :: "config_env \<Rightarrow> config_option" where
  "config_database C = with_params C (\<lambda>n. 2 \<le> n) (\<lambda>ps.
     let info = (if mp_str_is_star C (Some (ps ! 1))
                 then if tsk_striequals (cf_T C) (Some ''sqlite'') (Some (ps ! 0)) then Some kSQLiteConnectionInfo
                      else if tsk_striequals (cf_T C) (Some ''mysql'') (Some (ps ! 0)) then None else Some (ps ! 1)
                 else Some (ps ! 1))
     in logged (setDbInfo (cf_E C) (Some (ps ! 0)) info))"

text \<open>Seven parameters are enough for the guard, but the eighth is read.\<close>

definition config_mail :: "config_env \<Rightarrow> config_option" where
  "config_mail C = with_params C (\<lambda>n. 7 \<le> n) (\<lambda>ps. if length ps = 7 then (\<lambda>_. None)
     else logged_opt (setMailAccountInfo (cf_E C) (Some (ps ! 0)) (unless_star C (Some (ps ! 1)))
       (if mp_str_is_star C (Some (ps ! 2)) then 0 else port_of (ps ! 2)) (Some (ps ! 3)) (port_of (ps ! 4))
       (Some (ps ! 5)) (Some (ps ! 6)) (Some (ps ! 7))))"

definition config_caller :: "config_env \<Rightarrow> config_option" where
  "config_caller C = with_params C (\<lambda>n. 5 \<le> n) (\<lambda>ps. logged_opt (eng_addAccountSipCaller (cf_E C)
     (unless_star C (Some (ps ! 0))) (Some (ps ! 1)) (Some (ps ! 2)) (Some (ps ! 3)) (Some (ps ! 4))))"

definition config_recaptcha :: "config_env \<Rightarrow> config_option" where
  "config_recaptcha C = with_params C (\<lambda>n. 2 \<le> n) (\<lambda>ps. logged_opt (setRecaptchaInfo (cf_E C) (Some (ps ! 0)) (Some (ps ! 1))))"

text \<open>The names of the elements in the order the code compares them.\<close>

definition config_options :: "config_env \<Rightarrow> (string \<times> config_option) list" where
  "config_options C = (let E = cf_E C; yes = (\<lambda>s. mp_str_is_yes C (Some s)) in
    [(''debug-level'', \<lambda>s. logged (setDebugLevel E (Some s))),
     (''transport'', config_transport C),
     (''enable-rtp-symetric'', \<lambda>s. logged (setRtpSymetricEnabled E (yes s))),
     (''enable-100rel'', \<lambda>s. logged (set100relEnabled E (yes s))),
     (''enable-media-coder'', \<lambda>s. logged (setMediaCoderEnabled E (yes s))),
     (''enable-videojb'', \<lambda>s. logged (setVideoJbEnabled E (yes s))),
     (''video-size-pref'', \<lambda>s. logged (setPrefVideoSize E (Some s))),
     (''rtp-buffsize'', \<lambda>s. logged (setRtpBuffSize E (atoi s))),
     (''avpf-tail-length'', config_avpf C),
     (''srtp-mode'', \<lambda>s. logged (setSRTPMode E (Some s))),
     (''srtp-type'', \<lambda>s. logged (setSRTPType E (Some s))),
     (''ssl-certificates'', config_ssl C),
     (''codecs'', \<lambda>s. logged (setCodecs E s)),
     (''codec-opus-maxrates'', config_opus C),
     (''stun-server'', config_stun C),
     (''enable-icestun'', \<lambda>s. logged (setIceStunEnabled E (yes s))),
     (''max-fds'', \<lambda>s. logged (setMaxFds E (atoi s))),
     (''nameserver'', \<lambda>s. logged (addDNSServer E (Some s))),
     (''database'', config_database C),
     (''account-mail'', config_mail C),
     (''account-sip-caller'', config_caller C),
     (''account-http-domain'', \<lambda>s. logged (eng_setHttpDomain (unless_star C (Some s)))),
     (''account-recaptcha'', config_recaptcha C),
     (''dtmf-type'', \<lambda>s. logged (setDtmfType E (Some s)))])"

definition config_text :: "config_env \<Rightarrow> cstr \<Rightarrow> config_option" where
  "config_text C parent s e =
     (case find (\<lambda>p. tsk_striequals (cf_T C) parent (Some (fst p))) (config_options C) of
        None \<Rightarrow> Some e | Some p \<Rightarrow> snd p s e)"

section \<open>The walk over the document\<close>

text \<open>\<open>parseConfigNode\<close> on a list of siblings; the first argument is the name of their parent.\<close>

fun parseConfigNode :: "config_env \<Rightarrow> cstr \<Rightarrow> xml_node list \<Rightarrow> MPEngine \<Rightarrow> (int \<times> MPEngine) option" where
  "parseConfigNode C parent [] e = Some (0, e)"
| "parseConfigNode C parent (XML_TEXT_NODE None # ns) e = parseConfigNode C parent ns e"
| "parseConfigNode C parent (XML_TEXT_NODE (Some s) # ns) e =
     (case config_text C parent s e of None \<Rightarrow> None | Some e1 \<Rightarrow> parseConfigNode C parent ns e1)"
| "parseConfigNode C parent (XML_ELEMENT_NODE name kids # ns) e =
     (case parseConfigNode C (Some name) kids e of
        None \<Rightarrow> None
      | Some (iRet, e1) \<Rightarrow> if iRet \<noteq> 0 then Some (iRet, e1) else parseConfigNode C parent ns e1)"
| "parseConfigNode C parent (XML_OTHER_NODE name kids # ns) e =
     (case parseConfigNode C name kids e of
        None \<Rightarrow> None
      | Some (iRet, e1) \<Rightarrow> if iRet \<noteq> 0 then Some (iRet, e1) else parseConfigNode C parent ns e1)"

text \<open>\<open>parseConfigRoot\<close>; the parent of the root is the document, which has no name.\<close>

definition parseConfigRoot :: "config_env \<Rightarrow> cstr \<Rightarrow> MPEngine \<Rightarrow> (int \<times> MPEngine) option" where
  "parseConfigRoot C xmlPath e =
     (case cf_xmlReadFile C (case xmlPath of None \<Rightarrow> ''./config.xml'' | Some p \<Rightarrow> p) of
        None \<Rightarrow> Some (-2, e)
      | Some None \<Rightarrow> Some (-3, e)
      | Some (Some nodes) \<Rightarrow> parseConfigNode C None nodes e)"

section \<open>The command line\<close>

text \<open>An argument is a name and, after the first \<open>=\<close> that is not its first character, a value.\<close>

definition parseArgument :: "config_env \<Rightarrow> string \<Rightarrow> (string \<times> cstr) option" where
  "parseArgument C arg =
     (if tsk_strnullORempty (cf_T C) (Some arg) then None
      else let index = tsk_strindexOf (cf_T C) arg ''='' in
        if index \<le> 0 then Some (arg, None) else Some (take (nat index) arg, Some (drop (nat index + 1) arg)))"

text \<open>
  The outcome: the process exits after what it prints, the function returns a code, or it goes on with
  a path.
\<close>

datatype printed = Usage | PathRequired | Version | NotValid string

datatype arguments = Exit printed int | Return int | Path cstr

fun parseArguments :: "config_env \<Rightarrow> string list \<Rightarrow> cstr \<Rightarrow> arguments" where
  "parseArguments C [] path = Path path"
| "parseArguments C (arg # args) path =
     (case parseArgument C arg of
        None \<Rightarrow> Return (-1)
      | Some (name, value) \<Rightarrow>
          let is = (\<lambda>x. cf_strniequals C x arg (length name)) in
          if is ''--config''
          then (case value of
                  None \<Rightarrow> Exit PathRequired (-1)
                | Some v \<Rightarrow> if v = [] then Exit PathRequired (-1) else parseArguments C args (Some v))
          else if is ''--help'' then Exit Usage (-1)
          else if is ''--version'' then Exit Version (-1)
          else Exit (NotValid name) (-1))"

section \<open>The main function\<close>

text \<open>It reads lines until the input ends or a line starts with \<open>quit\<close>: the number of lines read.\<close>

fun read_commands :: "config_env \<Rightarrow> string list \<Rightarrow> nat" where
  "read_commands C [] = 0"
| "read_commands C (l # ls) = (if cf_strnicmp C l ''quit'' 4 = 0 then 1 else Suc (read_commands C ls))"

text \<open>The exit code, the lines read and the engine, if one was made.\<close>

definition main_function :: "config_env \<Rightarrow> string list \<Rightarrow> string list \<Rightarrow> (int \<times> nat \<times> MPEngine option) option" where
  "main_function C args commands =
     (case parseArguments C args None of
        Exit _ r \<Rightarrow> Some (r, 0, None)
      | Return r \<Rightarrow> Some (r, 0, None)
      | Path p \<Rightarrow>
          (case parseConfigRoot C p (new_MPEngine (cf_E C)) of
             None \<Rightarrow> None
           | Some (iRet, e1) \<Rightarrow>
               if iRet \<noteq> 0 then Some (iRet, 0, Some e1)
               else (case eng_start (cf_E C) e1 of (ok, e2) \<Rightarrow>
                 if \<not> ok then Some (-1, 0, Some e2)
                 else Some (0, read_commands C commands, Some (snd (eng_stop (cf_E C) e2))))))"

section \<open>Properties\<close>

text \<open>The texts of a document in its order, each with the name of the node it stands in.\<close>

fun config_texts :: "cstr \<Rightarrow> xml_node list \<Rightarrow> (cstr \<times> string) list" where
  "config_texts parent [] = []"
| "config_texts parent (XML_TEXT_NODE None # ns) = config_texts parent ns"
| "config_texts parent (XML_TEXT_NODE (Some s) # ns) = (parent, s) # config_texts parent ns"
| "config_texts parent (XML_ELEMENT_NODE name kids # ns) = config_texts (Some name) kids @ config_texts parent ns"
| "config_texts parent (XML_OTHER_NODE name kids # ns) = config_texts name kids @ config_texts parent ns"

fun apply_texts :: "config_env \<Rightarrow> (cstr \<times> string) list \<Rightarrow> MPEngine \<Rightarrow> MPEngine option" where
  "apply_texts C [] e = Some e"
| "apply_texts C ((q, s) # ts) e = (case config_text C q s e of None \<Rightarrow> None | Some e1 \<Rightarrow> apply_texts C ts e1)"

lemma apply_texts_append:
  "apply_texts C (ts @ us) e = (case apply_texts C ts e of None \<Rightarrow> None | Some e1 \<Rightarrow> apply_texts C us e1)"
  by (induction C ts e rule: apply_texts.induct) (auto split: option.splits)

lemma parseConfigNode_texts: "parseConfigNode C q ns e = map_option (\<lambda>e1. (0, e1)) (apply_texts C (config_texts q ns) e)"
  by (induction C q ns e rule: parseConfigNode.induct) (auto simp: apply_texts_append split: option.splits)

text \<open>
  C24. The walk over the document is the same as applying its texts one by one in document order, each
  under the name of the node it stands in; it returns 0 when none of them ends the process.
\<close>

theorem config_in_document_order:
  "parseConfigNode C parent ns e = map_option (\<lambda>e1. (0, e1)) (apply_texts C (config_texts parent ns) e)"
  by (rule parseConfigNode_texts)

text \<open>The reCAPTCHA service of an engine can be made from a text.\<close>

definition recaptcha_text_ok :: "config_env \<Rightarrow> string \<Rightarrow> bool" where
  "recaptcha_text_ok C s \<longleftrightarrow> (\<forall>ps. ee_params (cf_E C) s = Some ps \<and> 2 \<le> length ps \<longrightarrow>
     (case thttp_url_parse (ee_H (cf_E C)) (Some (ps ! 0)) of None \<Rightarrow> False
      | Some url \<Rightarrow> \<not> tsk_strnullORempty (ne_T (ee_net (cf_E C) RecaptchaTransport)) (url_host url)))"

definition names_equal :: "cstr \<Rightarrow> string \<Rightarrow> bool" where
  "names_equal q n \<longleftrightarrow> map_option (map ascii_lower) q = Some (map ascii_lower n)"

text \<open>
  The texts for the mail account that end the process: one with exactly seven parameters, the eighth of
  which is read, and one from which the mail service is made, there being none yet, with a scheme and a
  port it accepts, but with an empty user name or password.
\<close>

definition mail_text_aborts :: "config_env \<Rightarrow> string \<Rightarrow> MPEngine \<Rightarrow> bool" where
  "mail_text_aborts C s e \<longleftrightarrow> (\<exists>ps. ee_params (cf_E C) s = Some ps \<and> (length ps = 7
     \<or> 7 < length ps \<and> eng_Mail e = None \<and> port_of (ps ! 4) \<noteq> 0
       \<and> (tsk_striequals (ee_T (cf_E C)) (Some (ps ! 0)) (Some ''smtp'') \<or> tsk_striequals (ee_T (cf_E C)) (Some (ps ! 0)) (Some ''smtps''))
       \<and> (tsk_base64_encode (ne_T (ee_net (cf_E C) MailTransport)) (ps ! 6) = []
         \<or> tsk_base64_encode (ne_T (ee_net (cf_E C) MailTransport)) (ps ! 7) = [])))"

lemma config_mail_eq: "config_mail C s e = None \<longleftrightarrow> mail_text_aborts C s e"
proof (cases "eng_Mail e")
  case None
  then show ?thesis
    by (auto simp: config_mail_def with_params_def logged_opt_def setMailAccountInfo_def Let_def new_MPMailTransport_def
      new_MPNetTransport_def MPNetTransporType_isStream_def mail_text_aborts_def le_less split: option.splits if_splits)
next
  case (Some t)
  then show ?thesis
    by (auto simp: config_mail_def with_params_def logged_opt_def setMailAccountInfo_def mail_text_aborts_def
      split: option.splits if_splits)
qed

lemma config_recaptcha_ok: "recaptcha_text_ok C s \<Longrightarrow> config_recaptcha C s e \<noteq> None"
  by (auto simp: config_recaptcha_def recaptcha_text_ok_def with_params_def logged_opt_def setRecaptchaInfo_def Let_def
      new_MPRecaptchaTransport_def new_MPNetTransport_def MPNetTransporType_isStream_def split: option.splits)

lemma config_caller_ok: "config_caller C s e \<noteq> None"
  by (auto simp: config_caller_def with_params_def logged_opt_def eng_addAccountSipCaller_def Let_def split: option.splits)

lemma with_params_logged: "with_params C n (\<lambda>ps. logged (f ps)) s e \<noteq> None"
  by (simp add: with_params_def logged_def split: option.splits)

text \<open>The table as a map: the names are in lower case and distinct.\<close>

lemma config_names_lower: "\<forall>p \<in> set (config_options C). map ascii_lower (fst p) = fst p"
proof -
  have "list_all (\<lambda>p. map ascii_lower (fst p) = fst p) (config_options C)"
    by (simp add: config_options_def Let_def) code_simp
  then show ?thesis by (simp add: list_all_iff)
qed

lemma find_map_of: "(case find (\<lambda>p. n = fst p) xs of None \<Rightarrow> z | Some p \<Rightarrow> g (snd p)) = (case map_of xs n of None \<Rightarrow> z | Some v \<Rightarrow> g v)"
  by (induction xs) auto

lemma config_text_map_of:
  assumes "striequals_law (cf_T C)"
  shows "config_text C (Some q) s e = (case map_of (config_options C) (map ascii_lower q) of None \<Rightarrow> Some e | Some f \<Rightarrow> f s e)"
proof -
  have "find (\<lambda>p. tsk_striequals (cf_T C) (Some q) (Some (fst p))) (config_options C)
      = find (\<lambda>p. map ascii_lower q = fst p) (config_options C)"
    using assms config_names_lower by (intro find_cong) (simp_all add: striequals_law_def)
  then show ?thesis
    unfolding config_text_def using find_map_of [where n = "map ascii_lower q" and xs = "config_options C" and z = "Some e" and g = "\<lambda>f. f s e"] by simp
qed

lemma config_other_options:
  "map_of (config_options C) n = Some f \<Longrightarrow> n \<noteq> ''account-mail'' \<Longrightarrow> n \<noteq> ''account-recaptcha'' \<Longrightarrow> f s e \<noteq> None"
  using config_caller_ok
  by (auto simp: config_options_def Let_def logged_def config_transport_def config_avpf_def config_ssl_def config_opus_def
      config_stun_def config_database_def with_params_def split: if_splits option.splits)

lemma config_special_options:
  "map_of (config_options C) ''account-mail'' = Some (config_mail C)"
  "map_of (config_options C) ''account-recaptcha'' = Some (config_recaptcha C)"
  by (simp_all add: config_options_def Let_def)

lemma config_text_None:
  assumes "striequals_law (cf_T C)" and "names_equal q ''account-recaptcha'' \<longrightarrow> recaptcha_text_ok C s"
  shows "config_text C q s e = None \<longleftrightarrow> names_equal q ''account-mail'' \<and> mail_text_aborts C s e"
proof (cases q)
  case None
  then show ?thesis
    using assms(1) find_None_iff [of "\<lambda>_. False" "config_options C"] by (simp add: config_text_def names_equal_def striequals_law_def)
next
  case (Some q0)
  have names: "names_equal (Some q0) ''account-mail'' \<longleftrightarrow> map ascii_lower q0 = ''account-mail''"
    "names_equal (Some q0) ''account-recaptcha'' \<longleftrightarrow> map ascii_lower q0 = ''account-recaptcha''"
    unfolding names_equal_def by (simp_all only: option.map option.inject, code_simp, code_simp)
  consider "map ascii_lower q0 = ''account-mail''" | "map ascii_lower q0 = ''account-recaptcha''"
    | "map ascii_lower q0 \<noteq> ''account-mail''" "map ascii_lower q0 \<noteq> ''account-recaptcha''" by blast
  then show ?thesis
  proof cases
    case 1
    then show ?thesis
      using Some names by (simp add: config_text_map_of [OF assms(1)] config_special_options config_mail_eq)
  next
    case 2
    then show ?thesis
      using Some names assms(2) config_recaptcha_ok [of C s e]
      by (simp add: config_text_map_of [OF assms(1)] config_special_options)
  next
    case 3
    then show ?thesis
      using Some names config_other_options [of C "map ascii_lower q0" _ s e]
      by (simp add: config_text_map_of [OF assms(1)] split: option.splits)
  qed
qed

lemma apply_texts_None:
  "apply_texts C ts e = None \<longleftrightarrow> (\<exists>us q s vs e1. ts = us @ (q, s) # vs \<and> apply_texts C us e = Some e1 \<and> config_text C q s e1 = None)"
proof (induction ts arbitrary: e)
  case (Cons x ts)
  obtain q s where x: "x = (q, s)" by fastforce
  have cut: "x # ts = us @ (q', s') # vs \<longleftrightarrow> us = [] \<and> (q', s') = x \<and> vs = ts \<or> (\<exists>us'. us = x # us' \<and> ts = us' @ (q', s') # vs)"
    for us q' s' vs by (cases us) auto
  show ?case
  proof (cases "config_text C q s e")
    case None
    then show ?thesis using x by (force simp: cut)
  next
    case (Some e1)
    have "(\<exists>us q s vs e2. x # ts = us @ (q, s) # vs \<and> apply_texts C us e = Some e2 \<and> config_text C q s e2 = None)
        \<longleftrightarrow> (\<exists>us q s vs e2. ts = us @ (q, s) # vs \<and> apply_texts C us e1 = Some e2 \<and> config_text C q s e2 = None)" (is "?L = ?R")
    proof
      assume ?L
      then obtain us q' s' vs e2 where l: "x # ts = us @ (q', s') # vs" "apply_texts C us e = Some e2" "config_text C q' s' e2 = None"
        by blast
      then obtain us' where "us = x # us'" "ts = us' @ (q', s') # vs"
        using Some x cut [of us q' s' vs] by auto
      then show ?R using l Some x by auto
    next
      assume ?R
      then obtain us q' s' vs e2 where "ts = us @ (q', s') # vs" "apply_texts C us e1 = Some e2" "config_text C q' s' e2 = None"
        by blast
      then have "x # ts = (x # us) @ (q', s') # vs" "apply_texts C (x # us) e = Some e2" "config_text C q' s' e2 = None"
        using Some x by simp_all
      then show ?L by blast
    qed
    then show ?thesis using Some x Cons.IH [of e1] by simp
  qed
qed simp

text \<open>
  C40. Let every text for the reCAPTCHA service name a site with a host. Then the configuration ends the
  process exactly when it comes to a text for the mail account that has seven parameters, so that the
  eighth is read although it is not there, or from which the mail service would be made with an empty
  user name or password, against the assertions of its constructor; otherwise it returns 0, whatever
  else the document holds.
\<close>

theorem config_aborts_on_short_mail:
  assumes "striequals_law (cf_T C)"
    and "\<forall>(q, s) \<in> set (config_texts parent ns). names_equal q ''account-recaptcha'' \<longrightarrow> recaptcha_text_ok C s"
  shows "(parseConfigNode C parent ns e = None \<longleftrightarrow>
      (\<exists>ts q s us e1. config_texts parent ns = ts @ (q, s) # us \<and> apply_texts C ts e = Some e1
         \<and> names_equal q ''account-mail'' \<and> mail_text_aborts C s e1))
    \<and> (\<forall>iRet e'. parseConfigNode C parent ns e = Some (iRet, e') \<longrightarrow> iRet = 0)"
proof -
  have "config_text C q s e1 = None \<longleftrightarrow> names_equal q ''account-mail'' \<and> mail_text_aborts C s e1"
    if "config_texts parent ns = ts @ (q, s) # us" for ts q s us e1
    using assms(2) that by (intro config_text_None [OF assms(1)]) auto
  then have "(config_texts parent ns = ts @ (q, s) # us \<and> apply_texts C ts e = Some e1 \<and> config_text C q s e1 = None)
      \<longleftrightarrow> (config_texts parent ns = ts @ (q, s) # us \<and> apply_texts C ts e = Some e1
         \<and> names_equal q ''account-mail'' \<and> mail_text_aborts C s e1)" for ts q s us e1
    by blast
  then show ?thesis
    by (simp add: parseConfigNode_texts apply_texts_None [of C "config_texts parent ns" e])
qed

text \<open>
  An option is compared up to the length of the argument's name only: a single dash with a value is
  taken for \<open>--config\<close>.
\<close>

lemma dash_is_config:
  assumes "strniequals_law C" "strindexOf_law (cf_T C)" "strnullORempty_law (cf_T C)" "v \<noteq> []" "CHR ''='' \<notin> set v"
  shows "parseArguments C [''-='' @ v] None = Path (Some v)"
proof -
  have o: "occurs_at (''-='' @ v) ''='' i \<longleftrightarrow> i = 1" for i
  proof -
    consider "i = 0" | "i = 1" | k where "i = Suc (Suc k)" by (metis One_nat_def nat.exhaust)
    then show ?thesis
    proof cases
      case (3 k)
      have "occurs_at v ''='' k \<Longrightarrow> CHR ''='' \<in> set v" by (metis in_set_dropD in_set_takeD list.set_intros(1) occurs_at_def)
      then show ?thesis using 3 assms(5) by (auto simp: occurs_at_def)
    qed (auto simp: occurs_at_def take_Suc)
  qed
  have i: "tsk_strindexOf (cf_T C) (''-='' @ v) ''='' = 1"
  proof -
    have "(LEAST i. occurs_at (''-='' @ v) ''='' i) = 1" by (simp add: o [simplified]) (rule Least_equality, simp_all)
    moreover have "\<exists>i. occurs_at (''-='' @ v) ''='' i" using o by blast
    ultimately show ?thesis using assms(2) unfolding strindexOf_law_def by (metis of_nat_1)
  qed
  have "cf_strniequals C ''--config'' (''-='' @ v) 1"
    using assms(1) by (simp add: strniequals_law_def take_Suc)
  then show ?thesis
    using assms(3,4) i by (simp add: parseArgument_def strnullORempty_law_def Let_def)
qed

text \<open>No option starts the engine, nor changes whether it is valid.\<close>

definition kept :: "MPEngine \<Rightarrow> MPEngine \<Rightarrow> bool" where
  "kept e e' \<longleftrightarrow> m_bStarted e' = m_bStarted e \<and> m_bValid e' = m_bValid e"

lemma kept_trans: "kept a b \<Longrightarrow> kept b c \<Longrightarrow> kept a c"
  by (simp add: kept_def)

lemma kept_basic [simp]: "kept e e" "kept e (snd (do_set E x e))"
  by (simp_all add: kept_def)

lemma kept_do_both [simp]: "kept e (snd (do_both E x y e))"
  by (simp add: do_both_def kept_def do_set_def)

lemma kept_updates [simp]:
  "kept e (e\<lparr>m_pDtmfType := d\<rparr>)" "kept e (e\<lparr>m_pC2CHttpDomain := d\<rparr>)" "kept e (e\<lparr>eng_Db := db\<rparr>)"
  "kept e (e\<lparr>eng_Mail := mt\<rparr>)" "kept e (e\<lparr>eng_Recaptcha := rt\<rparr>)" "kept e (e\<lparr>m_oAccountSipCallers := cs\<rparr>)"
  "kept e (e\<lparr>m_C2CTransports := ts\<rparr>)"
  by (simp_all add: kept_def)

lemma kept_codecs: "kept e (snd (snd (fold (add_codec E) items (m, n, e))))"
proof -
  have step: "kept e1 (snd (snd (add_codec E c (m1, n1, e1))))" for c m1 n1 e1
    by (simp add: add_codec_def split: option.split)
  have "kept (snd (snd st)) (snd (snd (fold (add_codec E) items st)))" for st
  proof (induction items arbitrary: st)
    case (Cons c items)
    obtain m1 n1 e1 where st: "st = (m1, n1, e1)" by (cases st)
    have "kept e1 (snd (snd (add_codec E c st)))" using step st by simp
    from kept_trans [OF this Cons.IH] show ?case using st by simp
  qed simp
  from this [of "(m, n, e)"] show ?thesis by simp
qed

lemma kept_setters:
  "kept e (snd (setDebugLevel E l e))" "kept e (snd (setRtpSymetricEnabled E b e))" "kept e (snd (set100relEnabled E b e))"
  "kept e (snd (setMediaCoderEnabled E b e))" "kept e (snd (setVideoJbEnabled E b e))" "kept e (snd (setPrefVideoSize E l e))"
  "kept e (snd (setRtpBuffSize E n e))" "kept e (snd (setAvpfTail E n n' e))" "kept e (snd (setSRTPMode E l e))"
  "kept e (snd (setSRTPType E l e))" "kept e (snd (setCodecOpusMaxRates E n n' e))" "kept e (snd (addDNSServer E l e))"
  "kept e (snd (setDbInfo E l l' e))" "kept e (snd (eng_setHttpDomain l e))" "kept e (snd (setDtmfType E l e))"
  by (simp_all add: setDebugLevel_def setRtpSymetricEnabled_def if_valid_def set100relEnabled_def setMediaCoderEnabled_def
      setVideoJbEnabled_def setPrefVideoSize_def setRtpBuffSize_def setAvpfTail_def setSRTPMode_def setSRTPType_def
      setCodecOpusMaxRates_def addDNSServer_def setDbInfo_def eng_setHttpDomain_def setDtmfType_def Let_def
      split: option.split)

lemma kept_more_setters:
  "kept e (snd (setIceStunEnabled E b e))" "kept e (snd (setMaxFds E n e))" "kept e (snd (setStunServer E ip port usr pwd e))"
  "kept e (snd (setSSLCertificates E k1 k2 k3 b e))" "kept e (snd (addTransport E tr port ip e))"
  by (auto simp: setIceStunEnabled_def setMaxFds_def setStunServer_def setSSLCertificates_def if_valid_def addTransport_def
      Let_def kept_def do_set_def do_both_def split: option.split prod.split)

lemma kept_setCodecs: "kept e (snd (setCodecs E cs e))"
proof -
  have "kept e (snd (do_set E (SetCodecs_2 (fst r)) (snd (snd r))))"
    if "r = fold (add_codec E) items (ee_codec_id E ''tmedia_codec_id_none'', 0, e)" for r items
    using that kept_codecs kept_basic(2) by (blast intro: kept_trans)
  then show ?thesis
    by (auto simp: setCodecs_def if_valid_def Let_def case_prod_beta)
qed

lemma kept_optional_setters:
  "setMailAccountInfo E sch ip port host port' email n pw e = Some r \<Longrightarrow> kept e (snd r)"
  "eng_addAccountSipCaller E dn impu impi realm pw e = Some r \<Longrightarrow> kept e (snd r)"
  "setRecaptchaInfo E url secret e = Some r \<Longrightarrow> kept e (snd r)"
  by (auto simp: setMailAccountInfo_def eng_addAccountSipCaller_def setRecaptchaInfo_def Let_def split: if_splits option.splits)

lemma kept_with_params:
  "(\<And>ps e'. f ps e = Some e' \<Longrightarrow> kept e e') \<Longrightarrow> with_params C n f s e = Some e' \<Longrightarrow> kept e e'"
  by (auto simp: with_params_def split: option.splits if_splits)

lemma kept_logged: "kept e (snd (f e)) \<Longrightarrow> logged f e = Some e' \<Longrightarrow> kept e e'"
  by (auto simp: logged_def)

lemma kept_param_options:
  "config_transport C s e = Some e' \<Longrightarrow> kept e e'" "config_avpf C s e = Some e' \<Longrightarrow> kept e e'"
  "config_ssl C s e = Some e' \<Longrightarrow> kept e e'" "config_opus C s e = Some e' \<Longrightarrow> kept e e'"
  "config_stun C s e = Some e' \<Longrightarrow> kept e e'" "config_database C s e = Some e' \<Longrightarrow> kept e e'"
  unfolding config_transport_def config_avpf_def config_ssl_def config_opus_def config_stun_def config_database_def Let_def
  by (erule kept_with_params [rotated], erule kept_logged [rotated], rule kept_setters kept_more_setters)+

lemma kept_account_options:
  "config_mail C s e = Some e' \<Longrightarrow> kept e e'" "config_caller C s e = Some e' \<Longrightarrow> kept e e'"
  "config_recaptcha C s e = Some e' \<Longrightarrow> kept e e'"
  unfolding config_mail_def config_caller_def config_recaptcha_def logged_opt_def
  by (erule kept_with_params [rotated], auto split: if_splits dest: kept_optional_setters)+

lemma kept_config_text:
  assumes "config_text C q s e = Some e'"
  shows "kept e e'"
proof -
  have opts: "list_all (\<lambda>p. \<forall>e'. snd p s e = Some e' \<longrightarrow> kept e e') (config_options C)"
    unfolding config_options_def Let_def list.pred_inject snd_conv
    by (intro conjI TrueI allI impI list.pred_inject(1)) ((erule kept_param_options kept_account_options)
      | (erule kept_logged [rotated], rule kept_setters kept_more_setters kept_setCodecs))+
  show ?thesis
  proof (cases "find (\<lambda>p. tsk_striequals (cf_T C) q (Some (fst p))) (config_options C)")
    case None
    then show ?thesis using assms by (simp add: config_text_def)
  next
    case (Some p)
    then have "p \<in> set (config_options C)" by (auto simp: find_Some_iff)
    then show ?thesis using opts assms Some by (auto simp: config_text_def list_all_iff)
  qed
qed

lemma kept_apply_texts: "apply_texts C ts e = Some e' \<Longrightarrow> kept e e'"
  by (induction C ts e rule: apply_texts.induct) (auto split: option.splits dest: kept_config_text intro: kept_trans)

lemma new_engine_not_started: "\<not> m_bStarted (new_MPEngine E)"
  by (simp add: new_MPEngine_def Let_def do_set_def split: prod.split)

text \<open>
  C23. When the program ends with 0, its arguments gave a path, the document there was readable and its
  texts, applied in order to a new engine, gave a configured one; the database of that engine opened
  and every service started, so that until the commands ended each click-to-call transport filtered
  by the configured host and worked on the opened database.
\<close>

theorem exit_zero_means_served:
  assumes "main_function C args commands = Some (0, n, e)"
  shows "\<exists>path doc e1 e2. parseArguments C args None = Path path
    \<and> cf_xmlReadFile C (case path of None \<Rightarrow> ''./config.xml'' | Some p \<Rightarrow> p) = Some (Some doc)
    \<and> apply_texts C (config_texts None doc) (new_MPEngine (cf_E C)) = Some e1
    \<and> db_opens (cf_E C) e1 \<and> services_start (cf_E C) e1
    \<and> eng_start (cf_E C) e1 = (True, e2) \<and> e = Some (snd (eng_stop (cf_E C) e2))
    \<and> list_all (serves (m_pC2CHttpDomain e1) (opened_db (cf_E C) e1)) (m_C2CTransports e2)"
proof -
  have codes: "parseArguments C as q \<noteq> Exit m 0" "parseArguments C as q \<noteq> Return 0" for as q m
    by (induction C as q rule: parseArguments.induct) (auto simp: Let_def split: option.splits prod.splits)
  from assms codes obtain path where path: "parseArguments C args None = Path path"
    unfolding main_function_def by (cases "parseArguments C args None") force+
  let ?file = "case path of None \<Rightarrow> ''./config.xml'' | Some p \<Rightarrow> p"
  from assms path obtain e1 e2 where r: "parseConfigRoot C path (new_MPEngine (cf_E C)) = Some (0, e1)"
      "eng_start (cf_E C) e1 = (True, e2)" "e = Some (snd (eng_stop (cf_E C) e2))"
    by (auto simp: main_function_def split: option.splits prod.splits if_splits)
  from r(1) obtain doc where doc: "cf_xmlReadFile C ?file = Some (Some doc)"
      "apply_texts C (config_texts None doc) (new_MPEngine (cf_E C)) = Some e1"
    by (auto simp: parseConfigRoot_def parseConfigNode_texts split: option.splits)
  have ns: "\<not> m_bStarted e1" using kept_apply_texts [OF doc(2)] new_engine_not_started by (simp add: kept_def)
  with r(2) have "m_bValid e1" by (auto simp: eng_start_def mutex_lock_def Let_def split: if_splits)
  from engine_started [OF this ns r(2)] show ?thesis
    using path doc r(2,3) by (auto simp: list_all_iff)
qed


section \<open>Witnesses\<close>

fun split_params :: "string \<Rightarrow> string list" where
  "split_params [] = [[]]"
| "split_params (c # s) = (case split_params s of
      [] \<Rightarrow> []
    | p # ps \<Rightarrow> if c = CHR '';'' then [] # p # ps else (c # p) # ps)"

definition sample_config_env :: config_env where
  "sample_config_env = \<lparr>cf_E = sample_engine_env\<lparr>ee_params := \<lambda>s. Some (split_params s)\<rparr>,
     cf_strniequals = \<lambda>a b n. map ascii_lower (take n a) = map ascii_lower (take n b),
     cf_strnicmp = \<lambda>a b n. if map ascii_lower (take n a) = map ascii_lower (take n b) then 0 else 1,
     cf_xmlReadFile = \<lambda>_. None\<rparr>"

definition sample_document :: "string \<Rightarrow> xml_node list" where
  "sample_document mail = [XML_ELEMENT_NODE ''config'' [XML_ELEMENT_NODE ''debug-level'' [XML_TEXT_NODE (Some ''INFO'')],
     XML_ELEMENT_NODE ''account-mail'' [XML_TEXT_NODE (Some mail)]]]"

lemma sample_names: "names_equal (Some ''account-mail'') ''account-mail''" "\<not> names_equal (Some ''account-mail'') ''account-recaptcha''"
  "\<not> names_equal (Some ''debug-level'') ''account-recaptcha''" "\<not> names_equal (Some ''debug-level'') ''account-mail''"
  by code_simp+

text \<open>Seven parameters, eight of them, and eight with an empty password.\<close>

theorem config_aborts_on_short_mail_witness:
  "parseConfigNode sample_config_env None (sample_document ''smtp;*;*;h;25;e;n'') sample_engine = None
    \<and> (\<exists>e'. parseConfigNode sample_config_env None (sample_document ''smtp;*;*;h;25;e;n;p'') sample_engine = Some (0, e'))
    \<and> parseConfigNode sample_config_env None (sample_document ''smtp;*;*;h;25;e;n;'') sample_engine = None"
proof -
  let ?C = sample_config_env
  have law: "striequals_law (cf_T ?C)" by (simp add: sample_config_env_def sample_engine_env_def)
  have env: "ee_params (cf_E ?C) s = Some (split_params s)" "ee_T (cf_E ?C) = tsk_ref" "ne_T (ee_net (cf_E ?C) t) = tsk_ref" for s t
    by (simp_all add: sample_config_env_def sample_engine_env_def sample_net_env_def)
  have x: "config_texts None (sample_document m) = [(Some ''debug-level'', ''INFO''), (Some ''account-mail'', m)]" for m
    by (simp add: sample_document_def)
  have t: "\<forall>(q, s) \<in> set (config_texts None (sample_document m)). names_equal q ''account-recaptcha'' \<longrightarrow> recaptcha_text_ok ?C s" for m
    by (simp add: x sample_names)
  have "map ascii_lower ''debug-level'' = ''debug-level''" by code_simp
  then have "config_text ?C (Some ''debug-level'') ''INFO'' sample_engine = Some (snd (setDebugLevel (cf_E ?C) (Some ''INFO'') sample_engine))"
    by (simp only: config_text_map_of [OF law]) (simp add: config_options_def logged_def Let_def)
  moreover have "eng_Mail (snd (setDebugLevel (cf_E ?C) (Some ''INFO'') sample_engine)) = None"
    by (simp add: setDebugLevel_def do_set_def Let_def split: option.splits prod.splits)
  ultimately obtain e1 where e1: "config_text ?C (Some ''debug-level'') ''INFO'' sample_engine = Some e1" "eng_Mail e1 = None"
    by blast
  have first: "(\<exists>ts q s us e2. [(q1, s1), (q2, s2)] = ts @ (q, s) # us \<and> P ts q s us e2)
      \<longleftrightarrow> (\<exists>e2. P [] q1 s1 [(q2, s2)] e2 \<or> P [(q1, s1)] q2 s2 [] e2)"
    for q1 q2 :: cstr and s1 s2 :: string and P :: "(cstr \<times> string) list \<Rightarrow> cstr \<Rightarrow> string \<Rightarrow> (cstr \<times> string) list \<Rightarrow> MPEngine \<Rightarrow> bool"
    by (simp add: Cons_eq_append_conv) blast
  have r: "(parseConfigNode ?C None (sample_document m) sample_engine = None \<longleftrightarrow> mail_text_aborts ?C m e1)
      \<and> (\<forall>iRet e'. parseConfigNode ?C None (sample_document m) sample_engine = Some (iRet, e') \<longrightarrow> iRet = 0)" for m
    using config_aborts_on_short_mail [OF law t, of m sample_engine]
    unfolding x first by (simp add: sample_names e1)
  have params: "split_params ''smtp;*;*;h;25;e;n'' = [''smtp'', ''*'', ''*'', ''h'', ''25'', ''e'', ''n'']"
    "split_params ''smtp;*;*;h;25;e;n;p'' = [''smtp'', ''*'', ''*'', ''h'', ''25'', ''e'', ''n'', ''p'']"
    "split_params ''smtp;*;*;h;25;e;n;'' = [''smtp'', ''*'', ''*'', ''h'', ''25'', ''e'', ''n'', [] ]" by code_simp+
  have "port_of ''25'' = 25" by code_simp
  then have "mail_text_aborts ?C ''smtp;*;*;h;25;e;n'' e1" "\<not> mail_text_aborts ?C ''smtp;*;*;h;25;e;n;p'' e1"
    "mail_text_aborts ?C ''smtp;*;*;h;25;e;n;'' e1"
    by (simp_all add: mail_text_aborts_def env params e1(2))
  then show ?thesis using r by (metis option.exhaust surj_pair)
qed

definition served_env :: config_env where
  "served_env = sample_config_env\<lparr>cf_xmlReadFile := \<lambda>p. if p = ''./config.xml''
     then Some (Some [XML_ELEMENT_NODE ''config'' [XML_ELEMENT_NODE ''account-http-domain'' [XML_TEXT_NODE (Some ''a.b'')]]]) else None\<rparr>"

theorem exit_zero_means_served_witness:
  "\<exists>n e e1. main_function served_env [] [''quit''] = Some (0, n, Some e) \<and> m_pC2CHttpDomain e1 = Some ''a.b''
     \<and> apply_texts served_env [(Some ''account-http-domain'', ''a.b'')] (new_MPEngine (cf_E served_env)) = Some e1
     \<and> services_start (cf_E served_env) e1"
proof -
  let ?E = "cf_E served_env" and ?t = "[(Some ''account-http-domain'', ''a.b'')]"
  let ?doc = "[XML_ELEMENT_NODE ''config'' [XML_ELEMENT_NODE ''account-http-domain'' [XML_TEXT_NODE (Some ''a.b'')]]]"
  let ?e1 = "(new_MPEngine ?E)\<lparr>m_pC2CHttpDomain := Some ''a.b''\<rparr>"
  have law: "striequals_law (cf_T served_env)" and E: "?E = sample_engine_env\<lparr>ee_params := \<lambda>s. Some (split_params s)\<rparr>"
    by (simp_all add: served_env_def sample_config_env_def sample_engine_env_def)
  have names: "map ascii_lower ''account-http-domain'' = ''account-http-domain''" "map ascii_lower ''a.b'' \<noteq> map ascii_lower ''*''"
    by code_simp+
  have star: "unless_star served_env (Some ''a.b'') = Some ''a.b''"
    using law names(2) by (simp add: unless_star_def mp_str_is_star_def mp_str_is_def striequals_law_def)
  have t: "apply_texts served_env ?t (new_MPEngine ?E) = Some ?e1"
    by (simp only: apply_texts.simps config_text_map_of [OF law] names(1))
      (simp add: config_options_def Let_def logged_def eng_setHttpDomain_def star)
  have root: "parseConfigRoot served_env None (new_MPEngine ?E) = Some (0, ?e1)"
    using t by (simp add: parseConfigRoot_def served_env_def parseConfigNode_texts)
  have e1: "m_bValid ?e1" "\<not> m_bStarted ?e1" "db_opens ?E ?e1" "services_start ?E ?e1"
    by (simp_all add: E new_MPEngine_def sample_engine_env_def Let_def do_set_def db_opens_def services_start_def c2c_starts_def)
  obtain ok e2 where st: "eng_start ?E ?e1 = (ok, e2)" by fastforce
  have "ok" using engine_started [OF e1(1,2) st] e1(3,4) by simp
  then have m: "main_function served_env [] [''quit''] = Some (0, read_commands served_env [''quit''], Some (snd (eng_stop ?E e2)))"
    using root st by (simp add: main_function_def)
  from exit_zero_means_served [OF m] obtain path doc e1 where
    "parseArguments served_env [] None = Path path"
    "cf_xmlReadFile served_env (case path of None \<Rightarrow> ''./config.xml'' | Some p \<Rightarrow> p) = Some (Some doc)"
    "apply_texts served_env (config_texts None doc) (new_MPEngine ?E) = Some e1" "services_start ?E e1" by blast
  moreover from this(1,2) have "config_texts None doc = ?t" by (auto simp: served_env_def)
  ultimately have "apply_texts served_env ?t (new_MPEngine ?E) = Some e1" "services_start ?E e1" by simp_all
  then show ?thesis using m t by auto
qed

end
