(* ===== verification/JsonValue.thy ===== *)
theory JsonValue
  imports JsonWriter
begin

text \<open>
  More of the values of the JSON library (\<open>jsoncpp.cc\<close>): what the reader guarantees of every value it
  returns.
\<close>

section \<open>The shape of the values of the reader\<close>

text \<open>
  Members are ordered by name without duplicates, names are C strings, an unsigned value is one that
  does not fit the 31 bits of a positive \<open>Int\<close>, and so for everything inside.
\<close>

fun json_wf :: "json \<Rightarrow> bool" where
  "json_wf (uintValue n) = (0x7FFFFFFF < n)"
| "json_wf (arrayValue vs) = (\<forall>v \<in> set vs. json_wf v)"
| "json_wf (objectValue m) = (map_ok m \<and> (\<forall>p \<in> set m. CHR 0x00 \<notin> set (fst p) \<and> json_wf (snd p)))"
| "json_wf _ = True"

lemma decodeDouble_wf: "decodeDouble s = Some v \<Longrightarrow> json_wf v"
  by (auto simp: decodeDouble_def)

lemma decodeNumber_wf: "decodeNumber s = Some v \<Longrightarrow> json_wf v"
  unfolding decodeNumber_def Let_def
  by (auto simp only: option.inject json_wf.simps not_le option.distinct dest: decodeDouble_wf
      split: if_split_asm digits_result.split_asm)

lemma read_scalar_wf: "read_scalar t s = Some v \<Longrightarrow> json_wf v"
  using decodeNumber_wf by (auto simp: read_scalar_def split: if_splits)

definition members_wf :: "(string \<times> json) list \<Rightarrow> bool" where
  "members_wf m \<longleftrightarrow> json_wf (objectValue m)"

lemma c_str_no_NUL: "CHR 0x00 \<notin> set (c_str s)"
  by (auto simp: c_str_def dest: set_takeWhileD)

lemma map_insert_members: "p \<in> set (map_insert k v m) \<Longrightarrow> p = (k, v) \<or> p \<in> set m"
  by (induction k v m rule: map_insert.induct) (auto split: if_splits)

lemma members_wf_set:
  assumes "members_wf m" "json_wf v"
  shows "members_wf (set_member (c_str k) v m)"
proof -
  have "CHR 0x00 \<notin> set (fst p) \<and> json_wf (snd p)" if p: "p \<in> set (set_member (c_str k) v m)" for p
  proof -
    from p obtain p0 where p0: "p0 \<in> set (map_insert (c_str k) nullValue m)" "p = (if fst p0 = c_str k then (fst p0, v) else p0)"
      unfolding set_member_def map_modify_def set_map by blast
    from map_insert_members [OF p0(1)] show ?thesis
      using p0(2) assms c_str_no_NUL by (auto simp: members_wf_def)
  qed
  then show ?thesis
    using assms(1) by (simp add: members_wf_def set_member_def)
qed

lemma reader_wf:
  "readValue n after s = Some (Some v, r) \<Longrightarrow> json_wf v"
  "members_wf m \<Longrightarrow> readObject n after name m s = Some (Some v, r) \<Longrightarrow> json_wf v"
  "\<forall>x \<in> set vs. json_wf x \<Longrightarrow> readArray n after vs s = Some (Some v, r) \<Longrightarrow> json_wf v"
proof (induction n after s and n after name m s and n after vs s arbitrary: v r and v r and v r
    rule: readValue_readObject_readArray.induct)
  case (2 n after s)
  obtain tok r0 where t: "skipCommentTokens after s = (tok, r0)" by fastforce
  show ?case
    using "2.prems" "2.IH"(1) [OF t [symmetric] refl] "2.IH"(2) [OF t [symmetric] refl] read_scalar_wf
    by (auto simp: t Let_def members_wf_def split: if_splits)
next
  case (4 n after name m s)
  then show ?case
    by (auto simp: members_wf_def [symmetric] simp del: json_wf.simps split: member_head.splits option.splits separator.splits) (metis members_wf_set)+
next
  case (6 n after vs s)
  then show ?case
    by (auto split: option.splits separator.splits)
qed simp_all

text \<open>
  C25. Every value the reader returns is well formed: at every depth the members of an object are
  ordered by name and occur once, and a number is held as unsigned only if it exceeds 2 ^ 31 - 1. So
  asking an object for a member gives the value of exactly that member.
\<close>

theorem json_reader_well_typed:
  assumes "json_parse after doc = Some v"
  shows "json_wf v \<and> (case v of objectValue m \<Rightarrow> list_all (\<lambda>p. json_get v (fst p) = Some (snd p)) m | _ \<Rightarrow> True)"
proof -
  obtain r where "readValue (json_fuel doc) after doc = Some (Some v, r)"
    using assms by (auto simp: json_parse_def split: option.splits)
  then have wf: "json_wf v" by (rule reader_wf)
  have "json_get v (fst p) = Some (snd p)" if "v = objectValue m" "p \<in> set m" for m p
  proof -
    have "c_str (fst p) = fst p" "map_find m (fst p) = Some (snd p)"
      using wf that by (auto simp: c_str_def takeWhile_eq_all_conv map_find_set)
    then show ?thesis using that by (simp add: json_get_def)
  qed
  with wf show ?thesis by (auto simp: list_all_iff split: json.splits)
qed

theorem json_reader_well_typed_witness:
  "json_wf (objectValue [(''a'', intValue 1), (''b'', booleanValue True)])"
proof -
  have "json_parse CHR 0x00 (''{'' @ [dquote] @ ''b'' @ [dquote] @ '':true,'' @ [dquote] @ ''a'' @ [dquote] @ '':1}'')
      = Some (objectValue [(''a'', intValue 1), (''b'', booleanValue True)])" by code_simp
  from json_reader_well_typed [OF this] show ?thesis by simp
qed

end
