(* ===== verification/Spec2Isabelle.thy ===== *)
theory Spec2Isabelle
  imports Prelude Registry Objects Plugins Proxy MediaPath MediaCalls Peers DbModel Database Varint Cells Rows Payload Storage HashTable Calls NetTransport
    Mail Json JsonWriter JsonStyled JsonOps JsonOrder JsonPath Http Recaptcha Locking C2CJson C2CAccess C2CHttp Engine Config JsonValue
begin

text \<open>
  A verification development of webrtc2sip, the gateway between WebRTC browsers and SIP networks with
  its click-to-call service.

  The program. \<open>main\<close> (\<open>mp_mediaproxy.cc\<close>) reads an XML file into an engine (\<open>mp_engine.cc\<close>) and starts
  it. The engine owns the SIP stack, the table of bridged calls and the objects of the click-to-call
  service. The events of the stack reach \<open>MPSipCallback\<close> (\<open>mp_wrap.cc\<close>): a call from a browser becomes a
  second call to its destination, the two legs are one peer (\<open>mp_peer.cc\<close>), and the media plugins of
  the two sessions are coupled (\<open>mp_proxyplugin*.cc\<close>). The click-to-call service (\<open>mp_c2c.cc\<close>) takes
  HTTP requests with JSON contents from the stream transport (\<open>mp_net_transport.cc\<close>); it keeps
  accounts, addresses and callers in an SQLite database (\<open>db/\<close>), registers accounts after a reCAPTCHA
  check (\<open>mp_recaptcha.cc\<close>) and sends activation mails by SMTP (\<open>mp_mail.cc\<close>). Incoming calls for a
  click-to-call address are bridged with the caller's credentials found in the same database. Objects
  are reference counted (\<open>mp_object.h\<close>); the JSON library is the copy of jsoncpp in the repository.

  Theories and sources. A definition has the name of the function or type it models; a handler is one
  definition from the old state to the new one with the list of calls it makes on the libraries.
    \<^item> \<open>Prelude\<close>, \<open>Registry\<close>: strings and the services of tinySAK with their laws, decimal printing,
      \<open>std::map\<close> as an ordered association list, and the locale \<open>registry\<close> of the tables by id.
    \<^item> \<open>Objects\<close> (\<open>mp_object\<close>): counts, as C \<open>int\<close>s, and wrappers, outside an explicit store and in the fields of its
      objects, with nested release.
    \<^item> \<open>Plugins\<close> (\<open>mp_proxyplugin*\<close>): plugins, their manager and the media path, as a step relation.
    \<^item> \<open>Proxy\<close>, \<open>MediaPath\<close> (\<open>tinywrap/ProxyPluginMgr\<close>, \<open>ProxyConsumer\<close>, \<open>ProxyProducer\<close>): the objects of the media
      engine, their proxies and the plugins as one state, with its reachable states; \<open>MediaCalls\<close>: the contract of
      this path, a list of plugins on which the calls of the engine act directly.
    \<^item> \<open>Peers\<close> (\<open>mp_peer\<close>, \<open>mp_session\<close>, \<open>mp_session_av\<close>), \<open>Calls\<close> (\<open>mp_wrap\<close>): the call machine, with its
      reachable states.
    \<^item> \<open>DbModel\<close>, \<open>Database\<close> (\<open>db/mp_db_model\<close>, \<open>db/mp_db\<close>, \<open>db/sqlite/mp_db_sqlite\<close>): rows, the meaning of
      each SQL statement on tables that are lists, the call sequences with any pattern of failures of
      the engine calls, and the abstract \<open>account_store\<close>.
    \<^item> \<open>Varint\<close>, \<open>Cells\<close>, \<open>Rows\<close>, \<open>Payload\<close>, \<open>HashTable\<close> (\<open>db/sqlite/sqlite3.c\<close>): the format in which the copy of SQLite
      stores the rows of the tables (variable-length integers, the types and bytes of a cell, writing, reading and
      comparing records), the B-tree cells and overflow pages that hold them, and its hash tables.
    \<^item> \<open>Storage\<close>: the rows of the three tables as records on disk, with the values that \<open>mp_db_sqlite\<close> binds and reads.
    \<^item> \<open>NetTransport\<close> (\<open>mp_net_transport\<close>), \<open>Http\<close>, \<open>Mail\<close> (\<open>mp_mail\<close>), \<open>Recaptcha\<close> (\<open>mp_recaptcha\<close>): connections
      and buffers, the locale \<open>net_callback\<close> of the protocols over them, and the two clients.
    \<^item> \<open>Json\<close>, \<open>JsonWriter\<close>, \<open>JsonStyled\<close>, \<open>JsonValue\<close>, \<open>JsonOps\<close>, \<open>JsonOrder\<close>, \<open>JsonPath\<close>
      (\<open>jsoncpp/\<close>): tokens, reader, accessors, the writers; the class \<open>Value\<close> with sparse arrays, its
      comparison and its paths.
    \<^item> \<open>Locking\<close> (\<open>mp_mutex\<close>): threads that run the guarded sections of the engine and the transports on their tables, step
      by step, under the locale \<open>guarded_table\<close> that the three tables interpret.
    \<^item> \<open>C2CJson\<close>, \<open>C2CAccess\<close>, \<open>C2CHttp\<close> (\<open>mp_c2c\<close>): the requests, the abstract relation of what a request
      may do to the accounts, and the HTTP framing.
    \<^item> \<open>Engine\<close> (\<open>mp_engine\<close>), \<open>Config\<close> (\<open>mp_mediaproxy\<close>): settings, start and stop, the document, the
      command line, and the main function.

  What the lemmas show. Call machine: an invariant of the peer table in every reachable state, what
  each event does to the two legs, that inactive accounts make no calls. Media: forwarding and that a
  destroyed plugin gets nothing; with the proxies, the tables of the two sides agree in every reachable state, the
  path uses no deleted object, and every run of calls answers as the contract does. Objects: disciplined programs never touch
  a deleted object, never overflow a count, and keep every count exact. Database:
  the tables stay well formed under every failure pattern, accounts are read back, the retry loops are
  bounded. Rows: the unrolled decoders are the format, what is written
  is read back at any width, comparing bytes is comparing rows; a payload of any length is read back from its cell and
  overflow pages, and measuring a cell agrees with parsing it; the accounts of the model are those read from their
  records. Hash tables are maps. Threads: each guarded section is one step, and without the mutex it is not. Click-to-call: every request refines the abstract account relation, accounts are
  activated only with their code and addresses changed only with the token; requests that
  are not chunked may be split anywhere. Transports: buffers never exceed 65535 bytes, foreign hosts are refused, mails are sent
  exactly and in order. JSON: the reader returns on every document, its values are well formed, and
  it reads back what the three writers write. Engine and configuration: when the start succeeds, what the
  stop reports, that the walk over the document applies its texts in order, and exactly which documents end the process.

  Bounds and fuel. The JSON reader is given \<open>2 * length + 2\<close> nested calls: each value and each element
  takes a character, so this is always enough (\<open>json_reader_returns\<close>), and more fuel changes nothing.
  The loops over a payload and over its overflow pages move on by a byte or a page in every round, so the length and the
  offset are enough fuel (\<open>fill_loop\<close>, \<open>chain_read\<close>).
  The nested release of objects is a computation over the finite store; its programs make fewer wrappers than an
  \<open>int\<close> counts, which the discipline states. The retry loop of the
  database ends by its own time limit after five rounds. The HTTP framing loop may run for ever in the code;
  there it is a partial function, with a theorem for the buffers on which it returns and one for those
  on which it does not. Integers of the code are words where they may wrap (ids, JSON numbers,
  parameters of the media, rows), numbers where they count bytes of a buffer with a proved bound.

  Parameters. The Doubango libraries, libxml2 and most of the SQLite engine are not modelled: a definition takes
  what it uses of them as a record (\<open>tsk_api\<close>, \<open>buf_api\<close>, \<open>http_api\<close>, \<open>net_env\<close>, \<open>call_env\<close>, \<open>c2c_env\<close>,
  \<open>engine_env\<close>, \<open>config_env\<close>), and a theorem names the documented law it needs (\<open>striequals_law\<close>,
  \<open>strindexOf_law\<close>, \<open>buf_law\<close>, \<open>http_law\<close>, \<open>mutex_law\<close>); reference instances that satisfy the laws serve the witnesses.

  Not modelled. The text of log messages and of the usage; the mutexes inside the handlers, which are taken as single
  steps (\<open>Locking\<close> justifies it for the tables; the engine's own mutex is counted in \<open>Engine\<close>); destructors of objects
  that only free memory; the rest of the
  SQLite engine (\<open>db/sqlite/sqlite3.c\<close>: compiler, the search and balancing of the B-trees, the allocator of their pages, pager, locks), the other classes of \<open>tinywrap/\<close>, which forward to
  libraries that are not in the repository; the comments, iterators and error texts of jsoncpp; the web pages and the build files.
\<close>

end
